(* ===== verification/Prelude.thy ===== *)
theory Prelude
  imports Main "HOL-Library.Word" "HOL-Library.List_Lexorder" "HOL-Library.Char_ord"
begin

text \<open>
  Shared vocabulary of the development: results of fallible operations, tables of the
  SQLite store as lists of rows in rowid order with the four statement forms the code uses
  (single-row lookup, guarded update, guarded delete, counting), and the generic lemmas on
  keys, counts and column sums that the component theories rely on.
\<close>

section \<open>Results\<close>

text \<open>A Go function that returns \<open>(T, error)\<close> is a value of \<open>('e, 'a) result\<close>:
  \<open>Inl\<close> carries the error, \<open>Inr\<close> the value.\<close>

type_synonym ('e, 'a) result = "'e + 'a"

abbreviation is_ok :: "('e, 'a) result \<Rightarrow> bool" where
  "is_ok r \<equiv> \<not> isl r"

named_theorems table_simps "statements on a table, seen through key lookup"
named_theorems sum_simps "column sums and counts after a statement"

section \<open>Tables\<close>

definition select_where :: "('r \<Rightarrow> bool) \<Rightarrow> 'r list \<Rightarrow> 'r list" where
  "select_where P rows = filter P rows"

definition query_row :: "('r \<Rightarrow> bool) \<Rightarrow> 'r list \<Rightarrow> 'r option" where
  "query_row P rows = List.find P rows"

definition count_where :: "('r \<Rightarrow> bool) \<Rightarrow> 'r list \<Rightarrow> int" where
  "count_where P rows = int (length (filter P rows))"

definition update_where :: "('r \<Rightarrow> bool) \<Rightarrow> ('r \<Rightarrow> 'r) \<Rightarrow> 'r list \<Rightarrow> 'r list" where
  "update_where P f rows = map (\<lambda>r. if P r then f r else r) rows"

definition delete_where :: "('r \<Rightarrow> bool) \<Rightarrow> 'r list \<Rightarrow> 'r list" where
  "delete_where P rows = filter (\<lambda>r. \<not> P r) rows"

definition column_sum :: "('r \<Rightarrow> int) \<Rightarrow> 'r list \<Rightarrow> int" where
  "column_sum g rows = sum_list (map g rows)"

text \<open>Lookup by primary key.\<close>

definition by_key :: "('r \<Rightarrow> 'k) \<Rightarrow> 'k \<Rightarrow> 'r list \<Rightarrow> 'r option" where
  "by_key key k rows = List.find (\<lambda>r. key r = k) rows"

definition keys_distinct :: "('r \<Rightarrow> 'k) \<Rightarrow> 'r list \<Rightarrow> bool" where
  "keys_distinct key rows \<longleftrightarrow> distinct (map key rows)"

lemma query_row_key: "query_row (\<lambda>r. key r = k) rows = by_key key k rows"
  by (simp add: query_row_def by_key_def)

lemma by_key_Nil [simp]: "by_key key k [] = None"
  by (simp add: by_key_def)

lemma by_key_Cons [simp]:
  "by_key key k (r # rows) = (if key r = k then Some r else by_key key k rows)"
  by (simp add: by_key_def)

lemma by_key_append [simp]:
  "by_key key k (xs @ ys) = (case by_key key k xs of None \<Rightarrow> by_key key k ys | Some r \<Rightarrow> Some r)"
  by (induction xs) auto

lemma by_key_SomeD: "by_key key k rows = Some r \<Longrightarrow> r \<in> set rows \<and> key r = k"
  by (induction rows) (auto split: if_splits)

lemma by_key_None: "by_key key k rows = None \<longleftrightarrow> k \<notin> key ` set rows"
  by (induction rows) auto

lemma by_key_in_set:
  "\<lbrakk>keys_distinct key rows; r \<in> set rows\<rbrakk> \<Longrightarrow> by_key key (key r) rows = Some r"
  unfolding keys_distinct_def by (induction rows) force+

lemma keys_distinct_Nil [simp]: "keys_distinct key []"
  by (simp add: keys_distinct_def)

lemma keys_distinct_Cons [simp]:
  "keys_distinct key (r # rows) \<longleftrightarrow> key r \<notin> key ` set rows \<and> keys_distinct key rows"
  by (simp add: keys_distinct_def)

lemma keys_distinct_append [simp]:
  "keys_distinct key (xs @ ys) \<longleftrightarrow>
     keys_distinct key xs \<and> keys_distinct key ys \<and> key ` set xs \<inter> key ` set ys = {}"
  by (simp add: keys_distinct_def)

subsection \<open>Updates\<close>

lemma update_where_Nil [simp]: "update_where P f [] = []"
  by (simp add: update_where_def)

lemma update_where_Cons [simp]:
  "update_where P f (r # rows) = (if P r then f r else r) # update_where P f rows"
  by (simp add: update_where_def)

lemma length_update_where [simp]: "length (update_where P f rows) = length rows"
  by (simp add: update_where_def)

lemma set_update_where: "set (update_where P f rows) = (\<lambda>r. if P r then f r else r) ` set rows"
  by (simp add: update_where_def)

lemma update_where_none: "(\<And>r. r \<in> set rows \<Longrightarrow> \<not> P r) \<Longrightarrow> update_where P f rows = rows"
  by (induction rows) auto

lemma update_where_cong:
  "(\<And>r. r \<in> set rows \<Longrightarrow> (if P r then f r else r) = (if Q r then g r else r)) \<Longrightarrow>
   update_where P f rows = update_where Q g rows"
  by (simp add: update_where_def)

lemma map_update_where [simp]:
  "(\<And>r. g (f r) = g r) \<Longrightarrow> map g (update_where P f rows) = map g rows"
  by (induction rows) auto

lemma keys_distinct_update [simp]:
  "(\<And>r. key (f r) = key r) \<Longrightarrow> keys_distinct key (update_where P f rows) = keys_distinct key rows"
  by (simp add: keys_distinct_def)

lemma keys_update_where [simp]:
  "(\<And>r. key (f r) = key r) \<Longrightarrow> key ` set (update_where P f rows) = key ` set rows"
  by (induction rows) auto

lemma by_key_update [table_simps]:
  "(\<And>r. key (f r) = key r) \<Longrightarrow>
   by_key key k (update_where P f rows) =
     map_option (\<lambda>r. if P r then f r else r) (by_key key k rows)"
  by (induction rows) auto

lemma by_key_update_key [table_simps]:
  "(\<And>r. key (f r) = key r) \<Longrightarrow>
   by_key key k (update_where (\<lambda>r. key r = k') f rows) =
     (if k = k' then map_option f (by_key key k rows) else by_key key k rows)"
  by (induction rows) auto

lemma update_where_key_guard:
  assumes "keys_distinct key rows" "by_key key k rows = Some r"
  shows "update_where (\<lambda>r. key r = k \<and> G r) f rows =
         (if G r then update_where (\<lambda>r. key r = k) f rows else rows)"
proof (cases "G r")
  case True
  have "x = r" if "x \<in> set rows" "key x = k" for x
    using by_key_in_set [OF assms(1) that(1)] that(2) assms(2) by simp
  with True show ?thesis by (auto intro!: update_where_cong)
next
  case False
  have "x = r" if "x \<in> set rows" "key x = k" for x
    using by_key_in_set [OF assms(1) that(1)] that(2) assms(2) by simp
  with False show ?thesis by (auto intro!: update_where_none)
qed

subsection \<open>Deletes\<close>

lemma delete_where_Nil [simp]: "delete_where P [] = []"
  by (simp add: delete_where_def)

lemma delete_where_Cons [simp]:
  "delete_where P (r # rows) = (if P r then delete_where P rows else r # delete_where P rows)"
  by (simp add: delete_where_def)

lemma set_delete_where [simp]: "set (delete_where P rows) = {r \<in> set rows. \<not> P r}"
  by (auto simp: delete_where_def)

lemma list_all_delete: "list_all Q rows \<Longrightarrow> list_all Q (delete_where P rows)"
  by (auto simp: list_all_iff delete_where_def)

lemma keys_distinct_delete [simp]:
  "keys_distinct key rows \<Longrightarrow> keys_distinct key (delete_where P rows)"
  by (induction rows) auto

lemma by_key_delete [table_simps]:
  "keys_distinct key rows \<Longrightarrow>
   by_key key k (delete_where P rows) =
     (case by_key key k rows of None \<Rightarrow> None | Some r \<Rightarrow> if P r then None else Some r)"
proof (induction rows)
  case (Cons a rows)
  have "by_key key (key a) rows = None" "by_key key (key a) (delete_where P rows) = None"
    using Cons.prems by (auto simp: by_key_None)
  then show ?case using Cons by (auto split: option.splits)
qed simp

subsection \<open>Counts and sums\<close>

lemma count_where_Nil [simp]: "count_where P [] = 0"
  by (simp add: count_where_def)

lemma count_where_Cons [simp]:
  "count_where P (r # rows) = (if P r then 1 else 0) + count_where P rows"
  by (simp add: count_where_def)

lemma count_where_append [simp]: "count_where P (xs @ ys) = count_where P xs + count_where P ys"
  by (simp add: count_where_def)

lemma count_where_nonneg [simp]: "0 \<le> count_where P rows"
  by (simp add: count_where_def)

lemma count_where_0: "count_where P rows = 0 \<longleftrightarrow> (\<forall>r \<in> set rows. \<not> P r)"
  by (simp add: count_where_def filter_empty_conv)

lemma count_where_pos: "0 < count_where P rows \<longleftrightarrow> (\<exists>r \<in> set rows. P r)"
  using count_where_0 [of P rows] count_where_nonneg [of P rows] by (auto simp: order_less_le)

lemma count_where_le_length: "count_where P rows \<le> int (length rows)"
  by (simp add: count_where_def)

lemma count_where_eq_sum: "count_where P rows = column_sum (\<lambda>r. if P r then 1 else 0) rows"
  by (induction rows) (auto simp: column_sum_def)

lemma count_where_key:
  "keys_distinct key rows \<Longrightarrow>
   count_where (\<lambda>r. key r = k \<and> G r) rows =
     (case by_key key k rows of None \<Rightarrow> 0 | Some r \<Rightarrow> if G r then 1 else 0)"
  by (induction rows) (auto simp: by_key_None [symmetric] split: option.splits)

lemma count_where_only_key:
  "keys_distinct key rows \<Longrightarrow>
   count_where (\<lambda>r. key r = k) rows = (case by_key key k rows of None \<Rightarrow> 0 | Some r \<Rightarrow> 1)"
  using count_where_key [of key rows k "\<lambda>_. True"] by simp

lemma column_sum_Nil [simp]: "column_sum g [] = 0"
  by (simp add: column_sum_def)

lemma column_sum_Cons [simp]: "column_sum g (r # rows) = g r + column_sum g rows"
  by (simp add: column_sum_def)

lemma column_sum_append [simp]: "column_sum g (xs @ ys) = column_sum g xs + column_sum g ys"
  by (simp add: column_sum_def)

lemma column_sum_same:
  "(\<And>r. r \<in> set rows \<Longrightarrow> P r \<Longrightarrow> g (f r) = g r) \<Longrightarrow>
   column_sum g (update_where P f rows) = column_sum g rows"
  by (induction rows) auto

lemma column_sum_update_key [sum_simps]:
  assumes "keys_distinct key rows" "\<And>r. key (f r) = key r"
  shows "column_sum g (update_where (\<lambda>r. key r = k) f rows) =
         (case by_key key k rows of None \<Rightarrow> column_sum g rows
          | Some r \<Rightarrow> column_sum g rows - g r + g (f r))"
  using assms(1)
proof (induction rows)
  case (Cons a rows)
  have "by_key key (key a) rows = None" using Cons.prems by (simp add: by_key_None)
  then show ?case using Cons by (auto split: option.splits)
qed simp

lemma count_where_update_key [sum_simps]:
  assumes "keys_distinct key rows" "\<And>r. key (f r) = key r"
  shows "count_where Q (update_where (\<lambda>r. key r = k) f rows) =
         (case by_key key k rows of None \<Rightarrow> count_where Q rows
          | Some r \<Rightarrow> count_where Q rows - (if Q r then 1 else 0) + (if Q (f r) then 1 else 0))"
  unfolding count_where_eq_sum by (rule column_sum_update_key [OF assms])

lemma column_sum_nonneg: "(\<And>r. r \<in> set rows \<Longrightarrow> 0 \<le> g r) \<Longrightarrow> 0 \<le> column_sum g rows"
  by (induction rows) (auto intro: add_nonneg_nonneg)

lemma column_sum_delete:
  "column_sum g (delete_where P rows) =
   column_sum g rows - column_sum (\<lambda>r. if P r then g r else 0) rows"
  by (induction rows) auto

lemma column_sum_delete_zero:
  "(\<And>r. P r \<Longrightarrow> g r = 0) \<Longrightarrow> column_sum g (delete_where P rows) = column_sum g rows"
  by (induction rows) auto

lemma count_where_delete_key:
  "keys_distinct key rows \<Longrightarrow> count_where Q (delete_where (\<lambda>r. key r = k) rows) =
   count_where Q rows - (case by_key key k rows of None \<Rightarrow> 0 | Some r \<Rightarrow> if Q r then 1 else 0)"
  by (induction rows) (auto simp: by_key_None [symmetric] split: option.splits)

lemma count_where_delete:
  "(\<And>r. P r \<Longrightarrow> \<not> Q r) \<Longrightarrow> count_where Q (delete_where P rows) = count_where Q rows"
  by (induction rows) auto

section \<open>Go maps\<close>

text \<open>A Go map is an association list with distinct keys; iteration order is the list's order.\<close>

definition map_put :: "'k \<Rightarrow> 'v \<Rightarrow> ('k \<times> 'v) list \<Rightarrow> ('k \<times> 'v) list" where
  "map_put k v m = (if k \<in> fst ` set m then map (\<lambda>x. if fst x = k then (k, v) else x) m
     else m @ [(k, v)])"

definition map_del :: "'k \<Rightarrow> ('k \<times> 'v) list \<Rightarrow> ('k \<times> 'v) list" where
  "map_del k m = filter (\<lambda>x. fst x \<noteq> k) m"

definition map_get :: "'v \<Rightarrow> 'k \<Rightarrow> ('k \<times> 'v) list \<Rightarrow> 'v" where
  "map_get zero k m = (case map_of m k of None \<Rightarrow> zero | Some v \<Rightarrow> v)"

lemma map_of_map_put [simp]: "map_of (map_put k v m) = (map_of m)(k \<mapsto> v)"
proof -
  have "map_of (map (\<lambda>x. if fst x = k then (k, v) else x) m) =
      (\<lambda>j. if j = k \<and> k \<in> fst ` set m then Some v else map_of m j)"
    by (induction m) (auto simp: fun_eq_iff)
  moreover have "map_of (m @ [(k, v)]) = (map_of m)(k \<mapsto> v)" if "k \<notin> fst ` set m"
    using that by (induction m) (auto simp: fun_eq_iff)
  ultimately show ?thesis by (auto simp: map_put_def)
qed

lemma map_of_map_del [simp]: "map_of (map_del k m) = (map_of m)(k := None)"
  by (induction m) (auto simp: map_del_def fun_eq_iff)

lemma map_get_put [simp]: "map_get z j (map_put k v m) = (if j = k then v else map_get z j m)"
  by (simp add: map_get_def)

lemma map_get_del [simp]: "map_get z j (map_del k m) = (if j = k then z else map_get z j m)"
  by (simp add: map_get_def)

lemma distinct_map_put [simp]:
  assumes "distinct (map fst m)"
  shows "distinct (map fst (map_put k v m))"
proof (cases "k \<in> fst ` set m")
  case True
  moreover have "map fst (map (\<lambda>x. if fst x = k then (k, v) else x) m) = map fst m"
    by (induction m) auto
  ultimately show ?thesis using assms unfolding map_put_def by presburger
next
  case False
  then show ?thesis using assms by (simp add: map_put_def)
qed

lemma distinct_map_del [simp]: "distinct (map fst m) \<Longrightarrow> distinct (map fst (map_del k m))"
  by (simp add: map_del_def distinct_map_filter)

end
