(* ===== verification/Schema.thy ===== *)
theory Schema
  imports Prelude
begin

text \<open>
  The SQLite schema of \<^verbatim>\<open>db/db.go\<close>: one record per table row, and the record \<open>store\<close> of all
  tables. Text columns are byte strings, integer columns are \<open>int\<close> (SQLite and Go hold 64
  bits; overflow of counts and credits is not modelled), 0/1 columns that the code reads as
  booleans are \<open>bool\<close>, nullable columns are options. The status columns, whose values the code
  declares as string constants, are datatypes; where the code handles a text of another kind, the
  last constructor stands for it.
  A table is a list of rows in rowid order; an \<open>AUTOINCREMENT\<close> counter is a field of the store.
  Times are Unix seconds.
\<close>

section \<open>Status columns\<close>

datatype donation_status = DonationActive | DonationInactive | DonationExpired
  | DonationOther string

datatype reservation_status = ReservationReserved | ReservationDispatched
  | ReservationCommitted | ReservationReleased | ReservationOther string

datatype app_status = AppStatusPending | AppStatusApproved | AppStatusRejected
  | AppStatusInvalidated

datatype round_status = RoundStarted | RoundSettled

section \<open>Rows\<close>

record user =
  u_id :: int
  u_discord_id :: string
  u_username :: string
  u_avatar :: string
  u_is_admin :: bool
  u_disabled :: bool
  u_banned_until :: int
  u_auto_banned :: bool
  u_ban_reason :: string
  u_credits :: int
  u_last_checkin_day :: string
  u_rpm_limit_a :: "int option"
  u_rpm_limit_b :: "int option"
  u_rpm_limit_c :: "int option"
  u_donation_credit :: int
  u_charity_enabled :: bool
  u_lang :: string
  u_created_at :: int
  u_updated_at :: int
  u_level :: "int option"
  u_leaderboard_anon :: bool

record session =
  s_id :: string
  s_user_id :: int
  s_expires_at :: int
  s_created_at :: int

record app_config =
  c_id :: int
  c_user_id :: int
  c_model :: string
  c_dify_base_url :: string
  c_dify_api_key_enc :: string
  c_note :: string
  c_enabled :: bool
  c_created_at :: int
  c_updated_at :: int

record caller_key =
  k_user_id :: int
  k_key_hash :: string
  k_key_enc :: string
  k_created_at :: int
  k_updated_at :: int

record request_log =
  l_id :: int
  l_user_id :: int
  l_model :: string
  l_service :: string
  l_started_at :: int
  l_ended_at :: int
  l_status :: string
  l_error_code :: string
  l_donation_id :: "int option"
  l_http_status :: int
  l_error_detail :: string
  l_credits_consumed :: int
  l_anti_abuse_info :: string

record user_activity =
  ua_day :: int
  ua_user_id :: int
  ua_api_attempts :: int
  ua_api_successes :: int
  ua_console_actions :: int
  ua_checkins :: int
  ua_game_rounds :: int
  ua_updated_at :: int

record site_activity =
  sa_day :: int
  sa_new_users :: "int option"
  sa_product_active :: "int option"
  sa_successful_api_active :: "int option"
  sa_attempted_api_active :: "int option"
  sa_console_active :: "int option"
  sa_checkin_only_active :: "int option"
  sa_api_attempts :: "int option"
  sa_api_successes :: "int option"
  sa_game_active :: "int option"
  sa_wau :: "int option"
  sa_active_28d :: "int option"
  sa_engaged_28d :: "int option"
  sa_finalized_at :: int

record donation =
  d_id :: int
  d_service :: string
  d_model :: string
  d_dify_base_url :: string
  d_dify_api_key_enc :: string
  d_dify_api_key_sha256 :: string
  d_source_user_id :: "int option"
  d_source_discord_id :: string
  d_source_username :: string
  d_source_text :: string
  d_deadline :: int
  d_total_count :: int
  d_remaining_count :: int
  d_success_count :: int
  d_failure_count :: int
  d_consecutive_failures :: int
  d_rpm_limit :: int
  d_status :: donation_status
  d_note :: string
  d_created_at :: int
  d_updated_at :: int
  d_mapping_json :: string

record reservation =
  r_id :: string
  r_user_id :: int
  r_donation_id :: int
  r_donor_user_id :: "int option"
  r_price :: int
  r_reward :: int
  r_status :: reservation_status
  r_created_at :: int
  r_updated_at :: int

record admin_alert =
  a_id :: int
  a_type :: string
  a_message :: string
  a_request_log_id :: "int option"
  a_donation_id :: "int option"
  a_subject_user_id :: "int option"
  a_created_at :: int

record alert_pref =
  pr_event_type :: string
  pr_show_in_center :: bool
  pr_email_enabled :: bool
  pr_updated_at :: int

record application =
  ap_id :: int
  ap_user_id :: int
  ap_service :: string
  ap_model :: string
  ap_dify_base_url :: string
  ap_dify_api_key_enc :: string
  ap_total_count :: int
  ap_deadline :: int
  ap_rpm_limit :: int
  ap_note :: string
  ap_status :: app_status
  ap_reviewer_id :: "int option"
  ap_review_note :: string
  ap_donation_id :: "int option"
  ap_created_at :: int
  ap_mapping_json :: string

record pricing =
  p_service :: string
  p_model :: string
  p_price :: int
  p_reward :: int
  p_enabled :: bool

record game_round =
  g_id :: string
  g_game_id :: string
  g_user_id :: int
  g_bait_tier :: string
  g_price :: int
  g_status :: round_status
  g_species_key :: string
  g_size_cm :: int
  g_is_junk :: bool
  g_is_treasure :: bool
  g_credits_won :: int
  g_created_at :: int
  g_settled_at :: int

record game_best =
  b_user_id :: int
  b_game_id :: string
  b_species_key :: string
  b_size_cm :: int
  b_caught_at :: int

record anti_abuse =
  aa_service :: string
  aa_mode :: int
  aa_min_chars :: int
  aa_penalty_deduct_credits :: int
  aa_penalty_ban_hours :: int
  aa_donation_selectable :: bool
  aa_created_at :: int
  aa_updated_at :: int

record service_generation =
  sg_id :: int
  sg_user_id :: int
  sg_service :: string
  sg_model_key :: string
  sg_purpose :: string
  sg_seed :: string
  sg_mapping_json :: string
  sg_dummy_json :: string
  sg_dummy_count :: int
  sg_download_count :: int
  sg_created_at :: int

section \<open>The store\<close>

record store =
  users :: "user list"
  user_seq :: int
  sessions :: "session list"
  app_configs :: "app_config list"
  app_config_seq :: int
  caller_keys :: "caller_key list"
  request_logs :: "request_log list"
  request_log_seq :: int
  user_activity_daily :: "user_activity list"
  site_activity_daily :: "site_activity list"
  donations :: "donation list"
  donation_seq :: int
  charity_reservations :: "reservation list"
  admin_alerts :: "admin_alert list"
  admin_alert_seq :: int
  alert_prefs :: "alert_pref list"
  donation_applications :: "application list"
  application_seq :: int
  charity_pricing :: "pricing list"
  game_rounds :: "game_round list"
  game_bests :: "game_best list"
  service_anti_abuse :: "anti_abuse list"
  service_generations :: "service_generation list"
  service_generation_seq :: int
  settings :: "(string \<times> string) list"

text \<open>The store right after \<^verbatim>\<open>schema\<close> has been applied to a new file.\<close>

definition empty_store :: store where
  "empty_store = \<lparr>users = [], user_seq = 0, sessions = [], app_configs = [], app_config_seq = 0,
     caller_keys = [], request_logs = [], request_log_seq = 0, user_activity_daily = [],
     site_activity_daily = [], donations = [], donation_seq = 0, charity_reservations = [],
     admin_alerts = [], admin_alert_seq = 0, alert_prefs = [], donation_applications = [],
     application_seq = 0, charity_pricing = [], game_rounds = [], game_bests = [], service_anti_abuse = [],
     service_generations = [], service_generation_seq = 0, settings = []\<rparr>"

section \<open>Row access shared by the components\<close>

abbreviation user_row :: "int \<Rightarrow> store \<Rightarrow> user option" where
  "user_row k st \<equiv> by_key u_id k (users st)"

abbreviation donation_row :: "int \<Rightarrow> store \<Rightarrow> donation option" where
  "donation_row k st \<equiv> by_key d_id k (donations st)"

abbreviation reservation_row :: "string \<Rightarrow> store \<Rightarrow> reservation option" where
  "reservation_row k st \<equiv> by_key r_id k (charity_reservations st)"

abbreviation application_row :: "int \<Rightarrow> store \<Rightarrow> application option" where
  "application_row k st \<equiv> by_key ap_id k (donation_applications st)"

text \<open>Primary keys of the tables the ledger touches, and the \<open>AUTOINCREMENT\<close> discipline: a
  counter is at least every id ever handed out, so the next id is fresh.\<close>

definition keys_ok :: "store \<Rightarrow> bool" where
  "keys_ok st \<longleftrightarrow>
     keys_distinct u_id (users st) \<and> keys_distinct d_id (donations st) \<and>
     keys_distinct r_id (charity_reservations st) \<and>
     keys_distinct ap_id (donation_applications st) \<and>
     (\<forall>u \<in> set (users st). 0 < u_id u \<and> u_id u \<le> user_seq st) \<and>
     (\<forall>d \<in> set (donations st). d_id d \<le> donation_seq st) \<and>
     (\<forall>a \<in> set (donation_applications st). ap_id a \<le> application_seq st)"

lemma keys_ok_dest:
  assumes "keys_ok st"
  shows "keys_distinct u_id (users st)" "keys_distinct d_id (donations st)"
    "keys_distinct r_id (charity_reservations st)"
    "keys_distinct ap_id (donation_applications st)"
  using assms by (simp_all add: keys_ok_def)

end
