(* ===== verification/Ledger.thy ===== *)
theory Ledger
  imports Schema
begin

text \<open>
  The durable accounting of charity calls, \<^verbatim>\<open>db/charity_reservations.go\<close>: one call claims a use
  of a donation and debits the consumer (reserve), is marked before the donated credential is
  used (dispatch), and ends committed (donor credited) or released (consumer refunded). Every
  operation is one SQLite transaction on the single connection, so it is a function from the
  store to the store and a result; on an error the transaction rolls back and the store is
  returned unchanged. Failures of the engine itself are not modelled here. The random id and
  the clock are arguments.
\<close>

section \<open>Operations\<close>

datatype ledger_error =
    ErrNegativeAmount
  | ErrDonationUnavailable
  | ErrInsufficientCredits
  | ErrReservationExists
  | ErrNoRows
  | ErrCannotDispatch string
  | ErrAlreadyReleased string
  | ErrAlreadyCommitted string
  | ErrAlreadyDispatched string
  | ErrInvalidStatus string reservation_status
  | ErrDonationGone string int

definition claim_use :: "int \<Rightarrow> donation \<Rightarrow> donation" where
  "claim_use now d = d\<lparr>
     d_remaining_count := d_remaining_count d - 1,
     d_status := (if d_remaining_count d - 1 \<le> 0 then DonationExpired else d_status d),
     d_updated_at := now\<rparr>"

definition routable :: "int \<Rightarrow> donation \<Rightarrow> bool" where
  "routable now d \<longleftrightarrow> d_status d = DonationActive \<and> now < d_deadline d \<and> 0 < d_remaining_count d"

definition add_credits :: "int \<Rightarrow> int \<Rightarrow> user \<Rightarrow> user" where
  "add_credits amount now u = u\<lparr>u_credits := u_credits u + amount, u_updated_at := now\<rparr>"

definition ReserveCharityCall ::
  "string \<Rightarrow> int \<Rightarrow> int \<Rightarrow> int \<Rightarrow> int \<Rightarrow> int \<Rightarrow> store \<Rightarrow>
   store \<times> (ledger_error, reservation) result" where
  "ReserveCharityCall rid now userID donationID price reward st =
    (if price < 0 \<or> reward < 0 then (st, Inl ErrNegativeAmount)
     else
       let claimable = (\<lambda>d. d_id d = donationID \<and> routable now d);
           donations1 = update_where claimable (claim_use now) (donations st)
       in if count_where claimable (donations st) \<noteq> 1 then (st, Inl ErrDonationUnavailable)
       else case by_key d_id donationID donations1 of
         None \<Rightarrow> (st, Inl ErrNoRows)
       | Some d \<Rightarrow>
          let payer = (\<lambda>u. u_id u = userID \<and> price \<le> u_credits u);
              users1 = update_where payer (add_credits (- price) now) (users st);
              r = \<lparr>r_id = rid, r_user_id = userID, r_donation_id = donationID,
                   r_donor_user_id = d_source_user_id d, r_price = price, r_reward = reward,
                   r_status = ReservationReserved, r_created_at = now, r_updated_at = now\<rparr>
          in if count_where payer (users st) \<noteq> 1 then (st, Inl ErrInsufficientCredits)
          else if reservation_row rid st \<noteq> None then (st, Inl ErrReservationExists)
          else (st\<lparr>donations := donations1, users := users1,
                   charity_reservations := charity_reservations st @ [r]\<rparr>, Inr r))"

definition set_reservation_status :: "reservation_status \<Rightarrow> int \<Rightarrow> reservation \<Rightarrow> reservation" where
  "set_reservation_status s now r = r\<lparr>r_status := s, r_updated_at := now\<rparr>"

definition GetCharityReservation :: "string \<Rightarrow> store \<Rightarrow> reservation option" where
  "GetCharityReservation rid st = by_key r_id rid (charity_reservations st)"

definition MarkCharityDispatched ::
  "string \<Rightarrow> int \<Rightarrow> store \<Rightarrow> store \<times> (ledger_error, unit) result" where
  "MarkCharityDispatched rid now st =
    (let P = (\<lambda>r. r_id r = rid \<and> r_status r = ReservationReserved);
         st1 = st\<lparr>charity_reservations :=
                 update_where P (set_reservation_status ReservationDispatched now)
                   (charity_reservations st)\<rparr>
     in if count_where P (charity_reservations st) = 1 then (st1, Inr ())
     else case GetCharityReservation rid st1 of
       Some r \<Rightarrow> if r_status r = ReservationDispatched then (st1, Inr ())
                 else (st1, Inl (ErrCannotDispatch rid))
     | None \<Rightarrow> (st1, Inl (ErrCannotDispatch rid)))"

text \<open>The snapshot query of online recovery: bounded, oldest first.\<close>

definition ListStaleCharityReservationIDs :: "int \<Rightarrow> int \<Rightarrow> int \<Rightarrow> store \<Rightarrow> string list" where
  "ListStaleCharityReservationIDs reservedBefore dispatchedBefore limit st =
    (if limit \<le> 0 then []
     else take (nat limit) (map r_id (sort_key r_updated_at (sort_key r_id
            (select_where (\<lambda>r. r_status r = ReservationReserved \<and> r_updated_at r \<le> reservedBefore
                \<or> r_status r = ReservationDispatched \<and> r_updated_at r \<le> dispatchedBefore)
              (charity_reservations st))))))"

definition record_success_use :: "int \<Rightarrow> donation \<Rightarrow> donation" where
  "record_success_use now d = d\<lparr>d_success_count := d_success_count d + 1,
     d_consecutive_failures := 0, d_updated_at := now\<rparr>"

definition reward_donor :: "int \<Rightarrow> int \<Rightarrow> user \<Rightarrow> user" where
  "reward_donor reward now u = u\<lparr>u_donation_credit := u_donation_credit u + 1,
     u_credits := u_credits u + reward, u_updated_at := now\<rparr>"

definition CommitCharityReservation ::
  "string \<Rightarrow> int \<Rightarrow> store \<Rightarrow> store \<times> (ledger_error, reservation) result" where
  "CommitCharityReservation rid now st =
    (case GetCharityReservation rid st of
       None \<Rightarrow> (st, Inl ErrNoRows)
     | Some r \<Rightarrow> (case r_status r of
         ReservationCommitted \<Rightarrow> (st, Inr r)
       | ReservationReleased \<Rightarrow> (st, Inl (ErrAlreadyReleased rid))
       | ReservationDispatched \<Rightarrow>
          if count_where (\<lambda>d. d_id d = r_donation_id r) (donations st) \<noteq> 1
          then (st, Inl (ErrDonationGone rid (r_donation_id r)))
          else (st\<lparr>
             donations := update_where (\<lambda>d. d_id d = r_donation_id r) (record_success_use now)
               (donations st),
             users := (case r_donor_user_id r of None \<Rightarrow> users st
               | Some donor \<Rightarrow> update_where (\<lambda>u. u_id u = donor) (reward_donor (r_reward r) now)
                   (users st)),
             charity_reservations := update_where (\<lambda>x. r_id x = rid)
               (set_reservation_status ReservationCommitted now) (charity_reservations st)\<rparr>,
             Inr (set_reservation_status ReservationCommitted now r))
       | other \<Rightarrow> (st, Inl (ErrInvalidStatus rid other))))"

definition restore_use :: "int \<Rightarrow> int \<Rightarrow> donation \<Rightarrow> donation" where
  "restore_use failureInc now d = d\<lparr>
     d_remaining_count := d_remaining_count d + 1,
     d_failure_count := d_failure_count d + failureInc,
     d_consecutive_failures := d_consecutive_failures d + failureInc,
     d_status := (if d_status d = DonationExpired \<and> d_remaining_count d = 0 \<and> now < d_deadline d
                  then DonationActive else d_status d),
     d_updated_at := now\<rparr>"

definition ReleaseCharityReservation ::
  "string \<Rightarrow> bool \<Rightarrow> int \<Rightarrow> store \<Rightarrow> store \<times> (ledger_error, int) result" where
  "ReleaseCharityReservation rid countFailure now st =
    (case GetCharityReservation rid st of
       None \<Rightarrow> (st, Inl ErrNoRows)
     | Some r \<Rightarrow> (case r_status r of
         ReservationReleased \<Rightarrow> (st, Inr 0)
       | ReservationCommitted \<Rightarrow> (st, Inl (ErrAlreadyCommitted rid))
       | ReservationDispatched \<Rightarrow> (st, Inl (ErrAlreadyDispatched rid))
       | ReservationReserved \<Rightarrow>
          let failureInc = (if countFailure then 1 else 0);
              donations1 = update_where (\<lambda>d. d_id d = r_donation_id r)
                (restore_use failureInc now) (donations st);
              st1 = st\<lparr>donations := donations1,
                users := update_where (\<lambda>u. u_id u = r_user_id r) (add_credits (r_price r) now)
                  (users st),
                charity_reservations := update_where (\<lambda>x. r_id x = rid)
                  (set_reservation_status ReservationReleased now) (charity_reservations st)\<rparr>
          in if count_where (\<lambda>d. d_id d = r_donation_id r) (donations st) \<noteq> 1
          then (st, Inl (ErrDonationGone rid (r_donation_id r)))
          else if countFailure then
            (case by_key d_id (r_donation_id r) donations1 of
               None \<Rightarrow> (st, Inl ErrNoRows)
             | Some d \<Rightarrow> (st1, Inr (d_consecutive_failures d)))
          else (st1, Inr 0)
       | other \<Rightarrow> (st, Inl (ErrInvalidStatus rid other))))"

text \<open>Startup recovery: a list of the unsettled rows is read first, then each row is settled in
  its own transaction; the first error stops the loop with the counts so far. The clock is read
  once per row; \<open>clock id\<close> is its value when the row \<open>id\<close> is settled.\<close>

definition unsettled :: "reservation \<Rightarrow> bool" where
  "unsettled r \<longleftrightarrow> r_status r = ReservationReserved \<or> r_status r = ReservationDispatched"

fun recover_loop :: "(string \<Rightarrow> int) \<Rightarrow> (string \<times> reservation_status) list \<Rightarrow> int \<Rightarrow> int \<Rightarrow> store \<Rightarrow>
    store \<times> int \<times> int \<times> ledger_error option" where
  "recover_loop clock [] released committed st = (st, released, committed, None)"
| "recover_loop clock ((rid, status) # rest) released committed st =
    (if status = ReservationReserved then
       (case ReleaseCharityReservation rid False (clock rid) st of
          (st1, Inl e) \<Rightarrow> (st1, released, committed, Some e)
        | (st1, Inr _) \<Rightarrow> recover_loop clock rest (released + 1) committed st1)
     else
       (case CommitCharityReservation rid (clock rid) st of
          (st1, Inl e) \<Rightarrow> (st1, released, committed, Some e)
        | (st1, Inr _) \<Rightarrow> recover_loop clock rest released (committed + 1) st1))"

definition RecoverCharityReservations ::
  "(string \<Rightarrow> int) \<Rightarrow> store \<Rightarrow> store \<times> int \<times> int \<times> ledger_error option" where
  "RecoverCharityReservations clock st =
    recover_loop clock
      (map (\<lambda>r. (r_id r, r_status r))
        (sort_key r_created_at (select_where unsettled (charity_reservations st)))) 0 0 st"

definition ListUserCharityReservations :: "int \<Rightarrow> store \<Rightarrow> reservation list" where
  "ListUserCharityReservations userID st =
    sort_key (\<lambda>r. - r_created_at r)
      (select_where (\<lambda>r. r_user_id r = userID \<or> r_donor_user_id r = Some userID)
        (charity_reservations st))"

definition PurgeSettledCharityReservations :: "int \<Rightarrow> store \<Rightarrow> store \<times> int" where
  "PurgeSettledCharityReservations before st =
    (let P = (\<lambda>r. (r_status r = ReservationCommitted \<or> r_status r = ReservationReleased)
                  \<and> r_updated_at r < before)
     in (st\<lparr>charity_reservations := delete_where P (charity_reservations st)\<rparr>,
         count_where P (charity_reservations st)))"

section \<open>What a successful operation does\<close>

lemma row_edit_keys [simp]:
  "d_id (claim_use now d) = d_id d" "d_id (record_success_use now d) = d_id d"
  "d_id (restore_use n now d) = d_id d" "u_id (add_credits a now u) = u_id u"
  "u_id (reward_donor a now u) = u_id u" "r_id (set_reservation_status s now r) = r_id r"
  by (simp_all add: claim_use_def record_success_use_def restore_use_def add_credits_def
      reward_donor_def set_reservation_status_def)

lemmas row_edits = claim_use_def record_success_use_def restore_use_def add_credits_def
  reward_donor_def set_reservation_status_def

text \<open>With distinct primary keys, the guarded statements of a successful transaction are plain
  updates of one row each.\<close>

lemma reserve_okE:
  assumes "ReserveCharityCall rid now uid did price reward st = (st', Inr r)" "keys_ok st"
  obtains d u where
    "donation_row did st = Some d" "routable now d" "user_row uid st = Some u"
    "price \<le> u_credits u" "0 \<le> price" "0 \<le> reward" "reservation_row rid st = None"
    "r = \<lparr>r_id = rid, r_user_id = uid, r_donation_id = did,
          r_donor_user_id = d_source_user_id d, r_price = price, r_reward = reward,
          r_status = ReservationReserved, r_created_at = now, r_updated_at = now\<rparr>"
    "st' = st\<lparr>donations := update_where (\<lambda>d. d_id d = did) (claim_use now) (donations st),
          users := update_where (\<lambda>u. u_id u = uid) (add_credits (- price) now) (users st),
          charity_reservations := charity_reservations st @ [r]\<rparr>"
proof -
  note kd = keys_ok_dest [OF assms(2)]
  show ?thesis
    using assms(1) kd that
    by (auto simp: ReserveCharityCall_def Let_def count_where_key update_where_key_guard
        by_key_update claim_use_def split: if_splits option.splits)
qed

lemma commit_cases:
  assumes "CommitCharityReservation rid now st = (st', res)" "keys_ok st"
  obtains
    (error) e where "st' = st" "res = Inl e"
  | (again) r where "st' = st" "res = Inr r" "reservation_row rid st = Some r"
      "r_status r = ReservationCommitted"
  | (settled) r d where "reservation_row rid st = Some r" "r_status r = ReservationDispatched"
      "donation_row (r_donation_id r) st = Some d"
      "res = Inr (set_reservation_status ReservationCommitted now r)"
      "st' = st\<lparr>
         donations := update_where (\<lambda>d. d_id d = r_donation_id r) (record_success_use now)
           (donations st),
         users := (case r_donor_user_id r of None \<Rightarrow> users st
           | Some donor \<Rightarrow> update_where (\<lambda>u. u_id u = donor) (reward_donor (r_reward r) now)
               (users st)),
         charity_reservations := update_where (\<lambda>x. r_id x = rid)
           (set_reservation_status ReservationCommitted now) (charity_reservations st)\<rparr>"
proof (cases "reservation_row rid st")
  case None
  with assms(1) show ?thesis
    by (intro error [of ErrNoRows])
      (simp_all add: CommitCharityReservation_def GetCharityReservation_def)
next
  case (Some r)
  note call = assms(1) [unfolded CommitCharityReservation_def GetCharityReservation_def Some,
      simplified, symmetric]
  consider "r_status r = ReservationDispatched"
    | "r_status r \<noteq> ReservationDispatched" by blast
  then show ?thesis
  proof cases
    case 1
    show ?thesis
    proof (cases "donation_row (r_donation_id r) st")
      case None
      with call 1 show ?thesis
        by (intro error [of "ErrDonationGone rid (r_donation_id r)"])
          (simp_all add: count_where_only_key [OF keys_ok_dest(2) [OF assms(2)]])
    next
      case (Some d)
      with call 1 show ?thesis
        by (intro settled [OF \<open>reservation_row rid st = Some r\<close>])
          (simp_all add: count_where_only_key [OF keys_ok_dest(2) [OF assms(2)]])
    qed
  next
    case 2
    then have "st' = st \<and> (res = Inr r \<and> r_status r = ReservationCommitted \<or> (\<exists>e. res = Inl e))"
      using call by (cases "r_status r") simp_all
    then show ?thesis using error again Some by blast
  qed
qed

lemma release_cases:
  assumes "ReleaseCharityReservation rid cf now st = (st', res)" "keys_ok st"
  obtains
    (error) e where "st' = st" "res = Inl e"
  | (again) r where "st' = st" "res = Inr 0" "reservation_row rid st = Some r"
      "r_status r = ReservationReleased"
  | (settled) r d where "reservation_row rid st = Some r" "r_status r = ReservationReserved"
      "donation_row (r_donation_id r) st = Some d"
      "res = Inr (if cf then d_consecutive_failures d + 1 else 0)"
      "st' = st\<lparr>
         donations := update_where (\<lambda>d. d_id d = r_donation_id r)
           (restore_use (if cf then 1 else 0) now) (donations st),
         users := update_where (\<lambda>u. u_id u = r_user_id r) (add_credits (r_price r) now) (users st),
         charity_reservations := update_where (\<lambda>x. r_id x = rid)
           (set_reservation_status ReservationReleased now) (charity_reservations st)\<rparr>"
proof (cases "reservation_row rid st")
  case None
  with assms(1) show ?thesis
    by (intro error [of ErrNoRows])
      (simp_all add: ReleaseCharityReservation_def GetCharityReservation_def)
next
  case (Some r)
  note call = assms(1) [unfolded ReleaseCharityReservation_def GetCharityReservation_def Some
      Let_def, simplified, symmetric]
  consider "r_status r = ReservationReserved" | "r_status r \<noteq> ReservationReserved" by blast
  then show ?thesis
  proof cases
    case 1
    show ?thesis
    proof (cases "donation_row (r_donation_id r) st")
      case None
      with call 1 show ?thesis
        by (intro error [of "ErrDonationGone rid (r_donation_id r)"])
          (simp_all add: count_where_only_key [OF keys_ok_dest(2) [OF assms(2)]])
    next
      case (Some d)
      with call 1 show ?thesis
        by (intro settled [OF \<open>reservation_row rid st = Some r\<close>])
          (simp_all add: count_where_only_key [OF keys_ok_dest(2) [OF assms(2)]] by_key_update_key
            split: if_splits, simp_all add: restore_use_def)
    qed
  next
    case 2
    then have "st' = st \<and> (res = Inr 0 \<and> r_status r = ReservationReleased \<or> (\<exists>e. res = Inl e))"
      using call by (cases "r_status r") simp_all
    then show ?thesis using error again Some by blast
  qed
qed

lemma dispatch_cases:
  assumes "MarkCharityDispatched rid now st = (st', res)" "keys_ok st"
  obtains
    (error) "st' = st" "res = Inl (ErrCannotDispatch rid)"
      "\<forall>r. reservation_row rid st = Some r \<longrightarrow>
         r_status r \<noteq> ReservationReserved \<and> r_status r \<noteq> ReservationDispatched"
  | (again) r where "st' = st" "res = Inr ()" "reservation_row rid st = Some r"
      "r_status r = ReservationDispatched"
  | (marked) r where "res = Inr ()" "reservation_row rid st = Some r"
      "r_status r = ReservationReserved"
      "st' = st\<lparr>charity_reservations := update_where (\<lambda>x. r_id x = rid)
         (set_reservation_status ReservationDispatched now) (charity_reservations st)\<rparr>"
proof (cases "reservation_row rid st")
  case None
  then have "update_where (\<lambda>r. r_id r = rid \<and> r_status r = ReservationReserved)
      (set_reservation_status ReservationDispatched now) (charity_reservations st)
      = charity_reservations st"
    by (intro update_where_none) (auto simp: by_key_None)
  with None assms(1) show ?thesis
    by (intro error) (simp_all add: MarkCharityDispatched_def GetCharityReservation_def Let_def
        count_where_key [OF keys_ok_dest(3) [OF assms(2)]])
next
  case (Some r)
  note call = assms(1) [unfolded MarkCharityDispatched_def GetCharityReservation_def Let_def,
      symmetric, unfolded count_where_key [OF keys_ok_dest(3) [OF assms(2)]]
      update_where_key_guard [OF keys_ok_dest(3) [OF assms(2)] Some] Some]
  consider "r_status r = ReservationReserved" | "r_status r = ReservationDispatched"
    | "r_status r \<noteq> ReservationReserved" "r_status r \<noteq> ReservationDispatched" by blast
  then show ?thesis
  proof cases
    case 1 then show ?thesis using call Some by (intro marked) simp_all
  next
    case 2 then show ?thesis using call Some by (intro again) simp_all
  next
    case 3 then show ?thesis using call Some by (intro error) simp_all
  qed
qed

section \<open>Ledger invariant\<close>

fun known_status :: "reservation_status \<Rightarrow> bool" where
  "known_status (ReservationOther _) = False"
| "known_status _ = True"

text \<open>Besides the keys: no donation is oversold, amounts are not negative, donors exist, and
  whatever an unsettled reservation refers to is still there (the deletes refuse to remove it).\<close>

definition donation_ok :: "int set \<Rightarrow> donation \<Rightarrow> bool" where
  "donation_ok us d \<longleftrightarrow> 0 \<le> d_remaining_count d \<and>
     (case d_source_user_id d of None \<Rightarrow> True | Some u \<Rightarrow> u \<in> us)"

definition reservation_ok :: "int set \<Rightarrow> int set \<Rightarrow> reservation \<Rightarrow> bool" where
  "reservation_ok ds us r \<longleftrightarrow>
     0 \<le> r_price r \<and> 0 \<le> r_reward r \<and> known_status (r_status r) \<and>
     (unsettled r \<longrightarrow> r_donation_id r \<in> ds \<and> r_user_id r \<in> us \<and>
        (case r_donor_user_id r of None \<Rightarrow> True | Some u \<Rightarrow> u \<in> us))"

definition ledger_ok :: "store \<Rightarrow> bool" where
  "ledger_ok st \<longleftrightarrow> keys_ok st \<and>
     (\<forall>d \<in> set (donations st). donation_ok (u_id ` set (users st)) d) \<and>
     (\<forall>r \<in> set (charity_reservations st).
        reservation_ok (d_id ` set (donations st)) (u_id ` set (users st)) r)"

lemma ledger_ok_keys: "ledger_ok st \<Longrightarrow> keys_ok st"
  by (simp add: ledger_ok_def)

lemma ledger_ok_donation:
  "\<lbrakk>ledger_ok st; donation_row k st = Some d\<rbrakk> \<Longrightarrow> donation_ok (u_id ` set (users st)) d"
  by (auto simp: ledger_ok_def dest: by_key_SomeD)

lemma ledger_ok_reservation:
  "\<lbrakk>ledger_ok st; reservation_row k st = Some r\<rbrakk> \<Longrightarrow>
   reservation_ok (d_id ` set (donations st)) (u_id ` set (users st)) r"
  by (auto simp: ledger_ok_def dest: by_key_SomeD)

text \<open>The invariant only looks at keys, at the donations' capacity and source, and at the
  reservations: an operation that edits rows in place preserves it row by row.\<close>

lemma ledger_ok_edit:
  assumes "ledger_ok st"
    and "map d_id ds = map d_id (donations st)" "map u_id us = map u_id (users st)"
    and "keys_distinct r_id rs"
    and "\<And>d. d \<in> set ds \<Longrightarrow> donation_ok (u_id ` set (users st)) d"
    and "\<And>r. r \<in> set rs \<Longrightarrow> reservation_ok (d_id ` set (donations st)) (u_id ` set (users st)) r"
  shows "ledger_ok (st\<lparr>donations := ds, users := us, charity_reservations := rs\<rparr>)"
proof -
  have keys: "d_id ` set ds = d_id ` set (donations st)" "u_id ` set us = u_id ` set (users st)"
    using assms(2,3) by (metis set_map)+
  have "\<forall>i \<in> u_id ` set (users st). 0 < i \<and> i \<le> user_seq st"
    "\<forall>i \<in> d_id ` set (donations st). i \<le> donation_seq st"
    using assms(1) by (auto simp: ledger_ok_def keys_ok_def)
  then have "\<forall>u \<in> set us. 0 < u_id u \<and> u_id u \<le> user_seq st"
    "\<forall>d \<in> set ds. d_id d \<le> donation_seq st"
    by (simp_all flip: keys)
  then show ?thesis
    using assms by (simp add: ledger_ok_def keys_ok_def keys_distinct_def keys)
qed

lemma donation_ok_update:
  assumes "ledger_ok st" "d \<in> set (update_where (\<lambda>d. d_id d = k) f (donations st))"
    and "\<And>d. d_source_user_id (f d) = d_source_user_id d"
    and "\<And>d. donation_row k st = Some d \<Longrightarrow> 0 \<le> d_remaining_count (f d)"
  shows "donation_ok (u_id ` set (users st)) d"
proof -
  obtain d0 where d0: "d0 \<in> set (donations st)" "d = (if d_id d0 = k then f d0 else d0)"
    using assms(2) by (auto simp: set_update_where)
  then have "donation_row (d_id d0) st = Some d0"
    using assms(1) by (simp add: by_key_in_set ledger_ok_def keys_ok_def)
  moreover have "donation_ok (u_id ` set (users st)) d0"
    using assms(1) d0(1) by (simp add: ledger_ok_def)
  ultimately show ?thesis using d0(2) assms(3,4) by (auto simp: donation_ok_def)
qed

lemma reservation_ok_status:
  assumes "ledger_ok st"
    and "r \<in> set (update_where (\<lambda>x. r_id x = rid) (set_reservation_status s now)
               (charity_reservations st))"
    and "reservation_row rid st = Some r0" "unsettled r0" "known_status s"
  shows "reservation_ok (d_id ` set (donations st)) (u_id ` set (users st)) r"
proof -
  obtain x where x: "x \<in> set (charity_reservations st)"
    "r = (if r_id x = rid then set_reservation_status s now x else x)"
    using assms(2) by (auto simp: set_update_where)
  have "reservation_row (r_id x) st = Some x"
    using assms(1) x(1) by (simp add: by_key_in_set ledger_ok_def keys_ok_def)
  moreover have "reservation_ok (d_id ` set (donations st)) (u_id ` set (users st)) x"
    using assms(1) x(1) by (simp add: ledger_ok_def)
  ultimately show ?thesis
    using x(2) assms(3-5) by (auto simp: reservation_ok_def set_reservation_status_def unsettled_def)
qed

section \<open>Each operation preserves the invariant\<close>

lemma reserve_preserves:
  assumes "ledger_ok st" "ReserveCharityCall rid now uid did price reward st = (st', Inr r)"
  shows "ledger_ok st'"
proof (rule reserve_okE [OF assms(2) ledger_ok_keys [OF assms(1)]])
  fix d u
  assume *: "donation_row did st = Some d" "routable now d" "user_row uid st = Some u"
    "price \<le> u_credits u" "0 \<le> price" "0 \<le> reward" "reservation_row rid st = None"
    "r = \<lparr>r_id = rid, r_user_id = uid, r_donation_id = did,
          r_donor_user_id = d_source_user_id d, r_price = price, r_reward = reward,
          r_status = ReservationReserved, r_created_at = now, r_updated_at = now\<rparr>"
    "st' = st\<lparr>donations := update_where (\<lambda>d. d_id d = did) (claim_use now) (donations st),
          users := update_where (\<lambda>u. u_id u = uid) (add_credits (- price) now) (users st),
          charity_reservations := charity_reservations st @ [r]\<rparr>"
  have ids: "did \<in> d_id ` set (donations st)" "uid \<in> u_id ` set (users st)"
    using *(1,3) by (force dest: by_key_SomeD)+
  have rid: "rid \<notin> r_id ` set (charity_reservations st)"
    using *(7) by (simp add: by_key_None)
  have "reservation_ok (d_id ` set (donations st)) (u_id ` set (users st)) r"
    using ids *(5,6) ledger_ok_donation [OF assms(1) *(1)]
    by (simp add: *(8) reservation_ok_def donation_ok_def)
  moreover have "donation_ok (u_id ` set (users st)) x"
    if "x \<in> set (update_where (\<lambda>d. d_id d = did) (claim_use now) (donations st))" for x
    by (rule donation_ok_update [OF assms(1) that])
      (use *(1,2) in \<open>auto simp: claim_use_def routable_def\<close>)
  ultimately show ?thesis
    unfolding *(9) using assms(1) rid
    by (intro ledger_ok_edit) (auto simp: *(8) ledger_ok_def keys_ok_def)
qed

lemma dispatch_preserves:
  assumes "ledger_ok st" "MarkCharityDispatched rid now st = (st', res)"
  shows "ledger_ok st'"
  using assms(2) ledger_ok_keys [OF assms(1)]
proof (cases rule: dispatch_cases)
  case (marked r)
  have "ledger_ok (st\<lparr>donations := donations st, users := users st, charity_reservations :=
      update_where (\<lambda>x. r_id x = rid) (set_reservation_status ReservationDispatched now)
        (charity_reservations st)\<rparr>)"
    by (rule ledger_ok_edit [OF assms(1)])
      (use assms(1) reservation_ok_status [OF assms(1) _ marked(2)] marked(3)
        in \<open>auto simp: ledger_ok_def keys_ok_def unsettled_def\<close>)
  then show ?thesis using marked(4) by simp
qed (use assms(1) in simp_all)

lemma commit_preserves:
  assumes "ledger_ok st" "CommitCharityReservation rid now st = (st', res)"
  shows "ledger_ok st'"
  using assms(2) ledger_ok_keys [OF assms(1)]
proof (cases rule: commit_cases)
  case (settled r d)
  show ?thesis
    unfolding settled(5)
  proof (rule ledger_ok_edit [OF assms(1)])
    show "donation_ok (u_id ` set (users st)) x" if "x \<in> set (update_where
        (\<lambda>d. d_id d = r_donation_id r) (record_success_use now) (donations st))" for x
      by (rule donation_ok_update [OF assms(1) that])
        (use ledger_ok_donation [OF assms(1)] in \<open>auto simp: record_success_use_def donation_ok_def\<close>)
    show "reservation_ok (d_id ` set (donations st)) (u_id ` set (users st)) x"
      if "x \<in> set (update_where (\<lambda>x. r_id x = rid)
        (set_reservation_status ReservationCommitted now) (charity_reservations st))" for x
      by (rule reservation_ok_status [OF assms(1) that settled(1)])
        (simp_all add: unsettled_def settled(2))
  qed (use assms(1) in \<open>auto simp: ledger_ok_def keys_ok_def split: option.splits\<close>)
qed (use assms(1) in simp_all)

lemma release_preserves:
  assumes "ledger_ok st" "ReleaseCharityReservation rid cf now st = (st', res)"
  shows "ledger_ok st'"
  using assms(2) ledger_ok_keys [OF assms(1)]
proof (cases rule: release_cases)
  case (settled r d)
  show ?thesis
    unfolding settled(5)
  proof (rule ledger_ok_edit [OF assms(1)])
    show "donation_ok (u_id ` set (users st)) x" if "x \<in> set (update_where
        (\<lambda>d. d_id d = r_donation_id r) (restore_use (if cf then 1 else 0) now) (donations st))" for x
      by (rule donation_ok_update [OF assms(1) that])
        (use ledger_ok_donation [OF assms(1)] in \<open>auto simp: restore_use_def donation_ok_def\<close>)
    show "reservation_ok (d_id ` set (donations st)) (u_id ` set (users st)) x"
      if "x \<in> set (update_where (\<lambda>x. r_id x = rid)
        (set_reservation_status ReservationReleased now) (charity_reservations st))" for x
      by (rule reservation_ok_status [OF assms(1) that settled(1)])
        (simp_all add: unsettled_def settled(2))
  qed (use assms(1) in \<open>auto simp: ledger_ok_def keys_ok_def\<close>)
qed (use assms(1) in simp_all)

lemma purge_preserves:
  assumes "ledger_ok st" "PurgeSettledCharityReservations before st = (st', n)"
  shows "ledger_ok st'"
  using assms by (auto simp: PurgeSettledCharityReservations_def Let_def ledger_ok_def keys_ok_def)

lemma reserve_error:
  "ReserveCharityCall rid now uid did price reward st = (st', Inl e) \<Longrightarrow> st' = st"
  by (auto simp: ReserveCharityCall_def Let_def split: if_splits option.splits)

section \<open>Traces of ledger operations\<close>

text \<open>Handlers, the settlement worker, recovery and the purge job interleave: any sequence of
  committed transactions is a trace.\<close>

datatype ledger_op =
    Reserve string int int int int int
  | Dispatch string int
  | Commit string int
  | Release string bool int
  | Purge int

fun ledger_exec :: "ledger_op \<Rightarrow> store \<Rightarrow> store" where
  "ledger_exec (Reserve rid now uid did price reward) st =
     fst (ReserveCharityCall rid now uid did price reward st)"
| "ledger_exec (Dispatch rid now) st = fst (MarkCharityDispatched rid now st)"
| "ledger_exec (Commit rid now) st = fst (CommitCharityReservation rid now st)"
| "ledger_exec (Release rid cf now) st = fst (ReleaseCharityReservation rid cf now st)"
| "ledger_exec (Purge before) st = fst (PurgeSettledCharityReservations before st)"

definition ledger_run :: "ledger_op list \<Rightarrow> store \<Rightarrow> store" where
  "ledger_run ops st = fold ledger_exec ops st"

lemma ledger_run_Nil [simp]: "ledger_run [] st = st"
  by (simp add: ledger_run_def)

lemma ledger_run_Cons [simp]: "ledger_run (x # ops) st = ledger_run ops (ledger_exec x st)"
  by (simp add: ledger_run_def)

lemma ledger_exec_ok:
  assumes "ledger_ok st"
  shows "ledger_ok (ledger_exec x st)"
proof (cases x)
  case (Reserve rid now uid did price reward)
  then show ?thesis
    using assms reserve_preserves [OF assms] reserve_error
    by (cases "ReserveCharityCall rid now uid did price reward st"; cases
        "snd (ReserveCharityCall rid now uid did price reward st)") fastforce+
qed (use assms in \<open>auto intro: dispatch_preserves commit_preserves release_preserves
  purge_preserves prod.collapse [symmetric]\<close>)

lemma ledger_run_ok: "ledger_ok st \<Longrightarrow> ledger_ok (ledger_run ops st)"
  by (induction ops arbitrary: st) (simp_all add: ledger_exec_ok)

subsection \<open>Money\<close>

text \<open>Credits on all accounts, credits held by unsettled calls, and what committed calls have
  taken out of circulation (the price less the donor's reward).\<close>

definition total_credits :: "store \<Rightarrow> int" where
  "total_credits st = column_sum u_credits (users st)"

definition reservation_money :: "reservation \<Rightarrow> int" where
  "reservation_money r =
     (if unsettled r then r_price r
      else if r_status r = ReservationCommitted
        then r_price r - (case r_donor_user_id r of None \<Rightarrow> 0 | Some _ \<Rightarrow> r_reward r)
      else 0)"

definition ledger_money :: "store \<Rightarrow> int" where
  "ledger_money st = total_credits st + column_sum reservation_money (charity_reservations st)"

fun call_op :: "ledger_op \<Rightarrow> bool" where
  "call_op (Purge _) = False"
| "call_op _ = True"

lemma unsettled_rows:
  assumes "ledger_ok st" "reservation_row rid st = Some r" "unsettled r"
  shows "\<exists>d. donation_row (r_donation_id r) st = Some d"
    and "\<exists>u. user_row (r_user_id r) st = Some u"
    and "r_donor_user_id r = Some k \<Longrightarrow> \<exists>u. user_row k st = Some u"
  using ledger_ok_reservation [OF assms(1,2)] assms(3)
    by_key_None [of d_id "r_donation_id r" "donations st"]
    by_key_None [of u_id "r_user_id r" "users st"] by_key_None [of u_id k "users st"]
  by (auto simp: reservation_ok_def)

lemma reserve_money:
  assumes "ledger_ok st" "ReserveCharityCall rid now uid did price reward st = (st', res)"
  shows "ledger_money st' = ledger_money st"
proof (cases res)
  case (Inl e)
  with assms(2) show ?thesis using reserve_error by fastforce
next
  case (Inr r)
  note k = ledger_ok_keys [OF assms(1)]
  show ?thesis
    by (rule reserve_okE [OF assms(2) [unfolded Inr] k])
      (simp add: ledger_money_def total_credits_def reservation_money_def unsettled_def
        column_sum_update_key [OF keys_ok_dest(1) [OF k]], simp add: add_credits_def)
qed

lemma dispatch_money:
  assumes "ledger_ok st" "MarkCharityDispatched rid now st = (st', res)"
  shows "ledger_money st' = ledger_money st"
  using assms(2) ledger_ok_keys [OF assms(1)]
proof (cases rule: dispatch_cases)
  case (marked r)
  then show ?thesis
    by (simp add: ledger_money_def total_credits_def
        column_sum_update_key [OF keys_ok_dest(3) [OF ledger_ok_keys [OF assms(1)]]])
      (simp add: set_reservation_status_def reservation_money_def unsettled_def)
qed simp_all

lemma commit_money:
  assumes "ledger_ok st" "CommitCharityReservation rid now st = (st', res)"
  shows "ledger_money st' = ledger_money st"
  using assms(2) ledger_ok_keys [OF assms(1)]
proof (cases rule: commit_cases)
  case (settled r d)
  note k = ledger_ok_keys [OF assms(1)]
  note sums = column_sum_update_key [OF keys_ok_dest(1) [OF k]]
    column_sum_update_key [OF keys_ok_dest(3) [OF k]]
  show ?thesis
    using settled(1,2) unsettled_rows(3) [OF assms(1) settled(1)]
    by (cases "r_donor_user_id r")
      (fastforce simp: settled(5) ledger_money_def total_credits_def sums
        set_reservation_status_def reservation_money_def unsettled_def reward_donor_def)+
qed simp_all

lemma release_money:
  assumes "ledger_ok st" "ReleaseCharityReservation rid cf now st = (st', res)"
  shows "ledger_money st' = ledger_money st"
  using assms(2) ledger_ok_keys [OF assms(1)]
proof (cases rule: release_cases)
  case (settled r d)
  note k = ledger_ok_keys [OF assms(1)]
  note sums = column_sum_update_key [OF keys_ok_dest(1) [OF k]]
    column_sum_update_key [OF keys_ok_dest(3) [OF k]]
  obtain u where "user_row (r_user_id r) st = Some u"
    using unsettled_rows(2) [OF assms(1) settled(1)] settled(2) by (auto simp: unsettled_def)
  then show ?thesis
    using settled(1,2)
    by (simp add: settled(5) ledger_money_def total_credits_def sums)
      (simp add: set_reservation_status_def reservation_money_def unsettled_def add_credits_def)
qed simp_all

lemma ledger_money_exec:
  assumes "ledger_ok st" "call_op x"
  shows "ledger_money (ledger_exec x st) = ledger_money st"
  using assms
  by (cases x) (auto intro: reserve_money dispatch_money commit_money release_money
      prod.collapse [symmetric])

lemma ledger_money_run:
  assumes "ledger_ok st" "list_all call_op ops"
  shows "ledger_money (ledger_run ops st) = ledger_money st"
  using assms
  by (induction ops arbitrary: st) (simp_all add: ledger_exec_ok ledger_money_exec)

subsection \<open>Uses of a donation\<close>

definition in_flight :: "int \<Rightarrow> store \<Rightarrow> int" where
  "in_flight did st = count_where (\<lambda>r. r_donation_id r = did \<and> unsettled r)
     (charity_reservations st)"

text \<open>Uses still free, claimed by unsettled calls, or delivered.\<close>

definition donation_uses :: "int \<Rightarrow> store \<Rightarrow> int" where
  "donation_uses did st =
     (case donation_row did st of None \<Rightarrow> 0
      | Some d \<Rightarrow> d_remaining_count d + d_success_count d) + in_flight did st"

lemmas uses_defs = donation_uses_def in_flight_def unsettled_def

lemma reserve_uses:
  assumes "ledger_ok st" "ReserveCharityCall rid now uid did price reward st = (st', res)"
  shows "donation_uses k st' = donation_uses k st"
proof (cases res)
  case (Inl e)
  with assms(2) show ?thesis using reserve_error by fastforce
next
  case (Inr r)
  show ?thesis
    by (rule reserve_okE [OF assms(2) [unfolded Inr] ledger_ok_keys [OF assms(1)]])
      (auto simp: uses_defs by_key_update_key claim_use_def)
qed

lemma dispatch_uses:
  assumes "ledger_ok st" "MarkCharityDispatched rid now st = (st', res)"
  shows "donation_uses k st' = donation_uses k st"
  using assms(2) ledger_ok_keys [OF assms(1)]
proof (cases rule: dispatch_cases)
  case (marked r)
  then show ?thesis
    by (simp add: uses_defs count_where_update_key
          [OF keys_ok_dest(3) [OF ledger_ok_keys [OF assms(1)]]])
      (simp add: set_reservation_status_def)
qed simp_all

lemma commit_uses:
  assumes "ledger_ok st" "CommitCharityReservation rid now st = (st', res)"
  shows "donation_uses k st' = donation_uses k st"
  using assms(2) ledger_ok_keys [OF assms(1)]
proof (cases rule: commit_cases)
  case (settled r d)
  then show ?thesis
    by (auto simp: uses_defs by_key_update_key set_reservation_status_def record_success_use_def
        count_where_update_key [OF keys_ok_dest(3) [OF ledger_ok_keys [OF assms(1)]]])
qed simp_all

lemma release_uses:
  assumes "ledger_ok st" "ReleaseCharityReservation rid cf now st = (st', res)"
  shows "donation_uses k st' = donation_uses k st"
  using assms(2) ledger_ok_keys [OF assms(1)]
proof (cases rule: release_cases)
  case (settled r d)
  then show ?thesis
    by (auto simp: uses_defs by_key_update_key set_reservation_status_def restore_use_def
        count_where_update_key [OF keys_ok_dest(3) [OF ledger_ok_keys [OF assms(1)]]])
qed simp_all

lemma purge_uses:
  "PurgeSettledCharityReservations before st = (st', n) \<Longrightarrow> donation_uses k st' = donation_uses k st"
  by (auto simp: PurgeSettledCharityReservations_def Let_def uses_defs intro!: count_where_delete)

lemma donation_uses_exec:
  assumes "ledger_ok st"
  shows "donation_uses k (ledger_exec x st) = donation_uses k st"
  using assms
  by (cases x) (auto intro: reserve_uses dispatch_uses commit_uses release_uses purge_uses
      prod.collapse [symmetric])

lemma donation_uses_run:
  assumes "ledger_ok st"
  shows "donation_uses k (ledger_run ops st) = donation_uses k st"
  using assms
  by (induction ops arbitrary: st) (simp_all add: ledger_exec_ok donation_uses_exec)

subsection \<open>Life of one reservation\<close>

text \<open>The state machine of a reservation and the fields fixed when it was made.\<close>

inductive status_step :: "reservation_status \<Rightarrow> reservation_status \<Rightarrow> bool" where
  dispatch: "status_step ReservationReserved ReservationDispatched"
| release: "status_step ReservationReserved ReservationReleased"
| commit: "status_step ReservationDispatched ReservationCommitted"

code_pred status_step .

inductive_cases status_step_settledE [elim!]:
  "status_step ReservationCommitted s" "status_step ReservationReleased s"

definition same_terms :: "reservation \<Rightarrow> reservation \<Rightarrow> bool" where
  "same_terms r r' \<longleftrightarrow> r_id r' = r_id r \<and> r_user_id r' = r_user_id r \<and>
     r_donation_id r' = r_donation_id r \<and> r_donor_user_id r' = r_donor_user_id r \<and>
     r_price r' = r_price r \<and> r_reward r' = r_reward r \<and> r_created_at r' = r_created_at r"

lemma same_terms_refl [simp]: "same_terms r r"
  by (simp add: same_terms_def)

lemma same_terms_status [simp]: "same_terms r (set_reservation_status s now r)"
  by (simp add: same_terms_def set_reservation_status_def)

lemma status_of_edit [simp]: "r_status (set_reservation_status s now r) = s"
  by (simp add: set_reservation_status_def)

lemma reservation_step:
  assumes "ledger_ok st" "reservation_row k st = Some r"
  shows "case reservation_row k (ledger_exec x st) of
      None \<Rightarrow> \<not> unsettled r
    | Some r' \<Rightarrow> r' = r \<or> same_terms r r' \<and> status_step (r_status r) (r_status r')"
proof (cases x)
  note kk = ledger_ok_keys [OF assms(1)]
  case (Reserve rid now uid did price reward)
  obtain st' res where D: "ReserveCharityCall rid now uid did price reward st = (st', res)"
    by fastforce
  show ?thesis
  proof (cases res)
    case (Inl e)
    with D Reserve assms(2) show ?thesis using reserve_error by fastforce
  next
    case (Inr r0)
    show ?thesis
      by (rule reserve_okE [OF D [unfolded Inr] kk]) (simp add: Reserve D assms(2))
  qed
next
  note kk = ledger_ok_keys [OF assms(1)]
  case (Dispatch rid now)
  obtain st' res where D: "MarkCharityDispatched rid now st = (st', res)" by fastforce
  from D kk show ?thesis
    by (cases rule: dispatch_cases)
      (use assms(2) in \<open>auto simp: Dispatch D by_key_update_key intro: status_step.intros\<close>)
next
  note kk = ledger_ok_keys [OF assms(1)]
  case (Commit rid now)
  obtain st' res where D: "CommitCharityReservation rid now st = (st', res)" by fastforce
  from D kk show ?thesis
    by (cases rule: commit_cases)
      (use assms(2) in \<open>auto simp: Commit D by_key_update_key intro: status_step.intros\<close>)
next
  note kk = ledger_ok_keys [OF assms(1)]
  case (Release rid cf now)
  obtain st' res where D: "ReleaseCharityReservation rid cf now st = (st', res)" by fastforce
  from D kk show ?thesis
    by (cases rule: release_cases)
      (use assms(2) in \<open>auto simp: Release D by_key_update_key intro: status_step.intros\<close>)
next
  case (Purge before)
  have "keys_distinct r_id (charity_reservations st)"
    by (rule keys_ok_dest(3) [OF ledger_ok_keys [OF assms(1)]])
  with Purge assms(2) show ?thesis
    by (auto simp: PurgeSettledCharityReservations_def Let_def by_key_delete unsettled_def)
qed

subsection \<open>Settling\<close>

text \<open>In a well-formed store the two settling operations cannot fail on the state they are for.\<close>

lemma release_reserved:
  assumes "ledger_ok st" "reservation_row rid st = Some r" "r_status r = ReservationReserved"
  shows "\<exists>st' n. ReleaseCharityReservation rid cf now st = (st', Inr n) \<and> ledger_ok st' \<and>
     reservation_row rid st' = Some (set_reservation_status ReservationReleased now r) \<and>
     (\<forall>k. k \<noteq> rid \<longrightarrow> reservation_row k st' = reservation_row k st) \<and>
     map r_id (charity_reservations st') = map r_id (charity_reservations st)"
proof -
  obtain st' res where D: "ReleaseCharityReservation rid cf now st = (st', res)" by fastforce
  obtain d where d: "donation_row (r_donation_id r) st = Some d"
    using unsettled_rows(1) [OF assms(1,2)] assms(3) by (auto simp: unsettled_def)
  have ok: "is_ok res"
    using D assms(2,3) d keys_ok_dest(2) [OF ledger_ok_keys [OF assms(1)]]
    by (auto simp: ReleaseCharityReservation_def GetCharityReservation_def count_where_only_key
        by_key_update_key Let_def split: if_splits)
  from D ledger_ok_keys [OF assms(1)] show ?thesis
  proof (cases rule: release_cases)
    case (settled r' d')
    then show ?thesis
      using D assms(2) release_preserves [OF assms(1) D] by (auto simp: by_key_update_key)
  qed (use assms(2,3) ok in auto)
qed

lemma commit_dispatched:
  assumes "ledger_ok st" "reservation_row rid st = Some r" "r_status r = ReservationDispatched"
  shows "\<exists>st' r'. CommitCharityReservation rid now st = (st', Inr r') \<and> ledger_ok st' \<and>
     reservation_row rid st' = Some (set_reservation_status ReservationCommitted now r) \<and>
     (\<forall>k. k \<noteq> rid \<longrightarrow> reservation_row k st' = reservation_row k st) \<and>
     map r_id (charity_reservations st') = map r_id (charity_reservations st)"
proof -
  obtain st' res where D: "CommitCharityReservation rid now st = (st', res)" by fastforce
  obtain d where d: "donation_row (r_donation_id r) st = Some d"
    using unsettled_rows(1) [OF assms(1,2)] assms(3) by (auto simp: unsettled_def)
  have ok: "is_ok res"
    using D assms(2,3) d keys_ok_dest(2) [OF ledger_ok_keys [OF assms(1)]]
    by (auto simp: CommitCharityReservation_def GetCharityReservation_def count_where_only_key)
  from D ledger_ok_keys [OF assms(1)] show ?thesis
  proof (cases rule: commit_cases)
    case (settled r' d')
    then show ?thesis
      using D assms(2) commit_preserves [OF assms(1) D] by (auto simp: by_key_update_key)
  qed (use assms(2,3) ok in auto)
qed

subsection \<open>Recovery\<close>

text \<open>What one settled row looks like after recovery.\<close>

definition settled_as :: "reservation \<Rightarrow> reservation_status" where
  "settled_as r = (if r_status r = ReservationReserved then ReservationReleased
     else ReservationCommitted)"

definition recovered :: "(string \<Rightarrow> int) \<Rightarrow> string set \<Rightarrow> store \<Rightarrow> store \<Rightarrow> bool" where
  "recovered clock ids st st' \<longleftrightarrow>
     ledger_ok st' \<and> ledger_money st' = ledger_money st \<and>
     (\<forall>k. donation_uses k st' = donation_uses k st) \<and>
     map r_id (charity_reservations st') = map r_id (charity_reservations st) \<and>
     (\<forall>k. reservation_row k st' = (if k \<in> ids
        then map_option (\<lambda>r. set_reservation_status (settled_as r) (clock k) r) (reservation_row k st)
        else reservation_row k st))"

lemma recovered_empty: "ledger_ok st \<Longrightarrow> recovered clock {} st st"
  by (simp add: recovered_def)

lemma recovered_trans:
  "\<lbrakk>recovered clock {i} st st1; recovered clock ids st1 st2; i \<notin> ids\<rbrakk> \<Longrightarrow>
   recovered clock (insert i ids) st st2"
  by (auto simp: recovered_def)

lemma recover_release:
  assumes "ledger_ok st" "reservation_row i st = Some r" "r_status r = ReservationReserved"
  obtains st1 n where "ReleaseCharityReservation i False (clock i) st = (st1, Inr n)"
    "recovered clock {i} st st1"
proof -
  from release_reserved [OF assms, of False "clock i"] obtain st1 n where
    *: "ReleaseCharityReservation i False (clock i) st = (st1, Inr n)" "ledger_ok st1"
      "reservation_row i st1 = Some (set_reservation_status ReservationReleased (clock i) r)"
      "\<forall>k. k \<noteq> i \<longrightarrow> reservation_row k st1 = reservation_row k st"
      "map r_id (charity_reservations st1) = map r_id (charity_reservations st)" by blast
  then show ?thesis
    using that [OF *(1)] release_money [OF assms(1) *(1)] release_uses [OF assms(1) *(1)] assms(2,3)
    by (simp add: recovered_def settled_as_def)
qed

lemma recover_commit:
  assumes "ledger_ok st" "reservation_row i st = Some r" "r_status r = ReservationDispatched"
  obtains st1 r' where "CommitCharityReservation i (clock i) st = (st1, Inr r')"
    "recovered clock {i} st st1"
proof -
  from commit_dispatched [OF assms, of "clock i"] obtain st1 r' where
    *: "CommitCharityReservation i (clock i) st = (st1, Inr r')" "ledger_ok st1"
      "reservation_row i st1 = Some (set_reservation_status ReservationCommitted (clock i) r)"
      "\<forall>k. k \<noteq> i \<longrightarrow> reservation_row k st1 = reservation_row k st"
      "map r_id (charity_reservations st1) = map r_id (charity_reservations st)" by blast
  then show ?thesis
    using that [OF *(1)] commit_money [OF assms(1) *(1)] commit_uses [OF assms(1) *(1)] assms(2,3)
    by (simp add: recovered_def settled_as_def)
qed

lemma recovered_all_settled:
  assumes "recovered clock {rid. \<exists>r. reservation_row rid st = Some r \<and> unsettled r} st st'"
    and "r \<in> set (charity_reservations st')"
  shows "\<not> unsettled r"
proof -
  have "keys_distinct r_id (charity_reservations st')"
    using assms(1) by (simp add: recovered_def ledger_ok_def keys_ok_def)
  then have r: "reservation_row (r_id r) st' = Some r" by (rule by_key_in_set [OF _ assms(2)])
  have rows: "reservation_row (r_id r) st' =
      (if r_id r \<in> {rid. \<exists>r. reservation_row rid st = Some r \<and> unsettled r}
       then map_option (\<lambda>x. set_reservation_status (settled_as x) (clock (r_id r)) x)
         (reservation_row (r_id r) st)
       else reservation_row (r_id r) st)"
    using assms(1) unfolding recovered_def by blast
  show ?thesis
  proof (cases "\<exists>x. reservation_row (r_id r) st = Some x \<and> unsettled x")
    case True
    then obtain x where "reservation_row (r_id r) st = Some x" "unsettled x" by blast
    with r rows have "r = set_reservation_status (settled_as x) (clock (r_id r)) x" by simp
    then have "r_status r = settled_as x" by (metis status_of_edit)
    then show ?thesis by (simp add: unsettled_def settled_as_def)
  next
    case False
    with r rows show ?thesis by simp
  qed
qed

definition pending_row :: "store \<Rightarrow> string \<times> reservation_status \<Rightarrow> bool" where
  "pending_row st p \<longleftrightarrow> (case reservation_row (fst p) st of None \<Rightarrow> False
     | Some r \<Rightarrow> r_status r = snd p \<and> unsettled r)"

lemma recover_loop_settles:
  assumes "ledger_ok st" "distinct (map fst L)" "\<forall>p \<in> set L. pending_row st p"
  shows "\<exists>st'. recover_loop clock L rel com st =
      (st', rel + count_where (\<lambda>p. snd p = ReservationReserved) L,
       com + count_where (\<lambda>p. snd p = ReservationDispatched) L, None) \<and>
      recovered clock (fst ` set L) st st'"
  using assms
proof (induction L arbitrary: st rel com)
  case (Cons p L)
  obtain i s where p: "p = (i, s)" by fastforce
  obtain r where r: "reservation_row i st = Some r" "r_status r = s" "unsettled r"
    using Cons.prems(3) by (auto simp: p pending_row_def split: option.splits)
  have next_rows: "\<forall>q \<in> set L. pending_row st1 q" if "recovered clock {i} st st1" for st1
  proof
    fix q assume "q \<in> set L"
    then have "fst q \<noteq> i" "pending_row st q" using Cons.prems(2,3) p by auto
    then show "pending_row st1 q" using that by (simp add: recovered_def pending_row_def)
  qed
  have fresh: "i \<notin> fst ` set L" "distinct (map fst L)" using Cons.prems(2) p by auto
  consider "s = ReservationReserved" | "s = ReservationDispatched"
    using r by (auto simp: unsettled_def)
  then show ?case
  proof cases
    case 1
    obtain st1 n where R: "ReleaseCharityReservation i False (clock i) st = (st1, Inr n)"
      "recovered clock {i} st st1" using recover_release [OF Cons.prems(1) r(1)] r(2) 1 by metis
    with Cons.IH [OF _ fresh(2) next_rows [OF R(2)], of "rel + 1" com]
    show ?thesis using 1 recovered_trans [OF R(2) _ fresh(1)]
      by (fastforce simp: p recovered_def [of _ "{i}"])
  next
    case 2
    obtain st1 r' where R: "CommitCharityReservation i (clock i) st = (st1, Inr r')"
      "recovered clock {i} st st1" using recover_commit [OF Cons.prems(1) r(1)] r(2) 2 by metis
    with Cons.IH [OF _ fresh(2) next_rows [OF R(2)], of rel "com + 1"]
    show ?thesis using 2 recovered_trans [OF R(2) _ fresh(1)]
      by (fastforce simp: p recovered_def [of _ "{i}"])
  qed
qed (simp add: recovered_empty)

section \<open>Row-level specification of a reservation\<close>

text \<open>What \<open>ReserveCharityCall\<close> promises, said over the rows themselves: the guards in order,
  and on success exactly three edits.\<close>

definition reserve_spec ::
  "string \<Rightarrow> int \<Rightarrow> int \<Rightarrow> int \<Rightarrow> int \<Rightarrow> int \<Rightarrow> store \<Rightarrow>
   store \<times> (ledger_error, reservation) result" where
  "reserve_spec rid now uid did price reward st =
    (if price < 0 \<or> reward < 0 then (st, Inl ErrNegativeAmount)
     else case donation_row did st of None \<Rightarrow> (st, Inl ErrDonationUnavailable) | Some d \<Rightarrow>
       if d_status d \<noteq> DonationActive \<or> d_deadline d \<le> now \<or> d_remaining_count d \<le> 0
       then (st, Inl ErrDonationUnavailable)
       else case user_row uid st of None \<Rightarrow> (st, Inl ErrInsufficientCredits) | Some u \<Rightarrow>
         if u_credits u < price then (st, Inl ErrInsufficientCredits)
         else if reservation_row rid st \<noteq> None then (st, Inl ErrReservationExists)
         else
           let d' = d\<lparr>d_remaining_count := d_remaining_count d - 1,
                 d_status := (if d_remaining_count d = 1 then DonationExpired else DonationActive),
                 d_updated_at := now\<rparr>;
               u' = u\<lparr>u_credits := u_credits u - price, u_updated_at := now\<rparr>;
               r = \<lparr>r_id = rid, r_user_id = uid, r_donation_id = did,
                 r_donor_user_id = d_source_user_id d, r_price = price, r_reward = reward,
                 r_status = ReservationReserved, r_created_at = now, r_updated_at = now\<rparr>
           in (st\<lparr>donations := update_where (\<lambda>x. d_id x = did) (\<lambda>_. d') (donations st),
                  users := update_where (\<lambda>x. u_id x = uid) (\<lambda>_. u') (users st),
                  charity_reservations := charity_reservations st @ [r]\<rparr>, Inr r))"

lemma update_where_row:
  assumes "keys_distinct key rows" "by_key key k rows = Some r"
  shows "update_where (\<lambda>x. key x = k) f rows = update_where (\<lambda>x. key x = k) (\<lambda>_. f r) rows"
proof (rule update_where_cong)
  fix x assume "x \<in> set rows"
  then show "(if key x = k then f x else x) = (if key x = k then f r else x)"
    using by_key_in_set [OF assms(1), of x] assms(2) by auto
qed

section \<open>A sample store\<close>

text \<open>A consumer with 10 credits, a donor, and a donation with a single use left, priced for
  the examples at 4 credits with a reward of 2.\<close>

definition sample_user :: "int \<Rightarrow> int \<Rightarrow> user" where
  "sample_user i c = \<lparr>u_id = i, u_discord_id = '''', u_username = '''', u_avatar = '''',
     u_is_admin = False, u_disabled = False, u_banned_until = 0, u_auto_banned = False,
     u_ban_reason = '''', u_credits = c, u_last_checkin_day = '''', u_rpm_limit_a = None,
     u_rpm_limit_b = None, u_rpm_limit_c = None, u_donation_credit = 0, u_charity_enabled = True,
     u_lang = '''', u_created_at = 1, u_updated_at = 1, u_level = None, u_leaderboard_anon = False\<rparr>"

definition sample_donation :: "int \<Rightarrow> int \<Rightarrow> donation" where
  "sample_donation i n = \<lparr>d_id = i, d_service = ''general'', d_model = ''m'', d_dify_base_url = '''',
     d_dify_api_key_enc = '''', d_dify_api_key_sha256 = '''', d_source_user_id = Some 2,
     d_source_discord_id = '''', d_source_username = '''', d_source_text = '''', d_deadline = 100,
     d_total_count = n, d_remaining_count = n, d_success_count = 0, d_failure_count = 0,
     d_consecutive_failures = 0, d_rpm_limit = 10, d_status = DonationActive, d_note = '''',
     d_created_at = 1, d_updated_at = 1, d_mapping_json = ''''\<rparr>"

definition sample_store :: store where
  "sample_store = empty_store\<lparr>users := [sample_user 1 10, sample_user 2 0], user_seq := 2,
     donations := [sample_donation 1 1], donation_seq := 1\<rparr>"

lemmas sample_defs = sample_store_def sample_user_def sample_donation_def empty_store_def

lemma sample_store_ok [simp]: "ledger_ok sample_store"
  by (simp add: ledger_ok_def keys_ok_def donation_ok_def sample_defs)

section \<open>Properties\<close>

text \<open>C1: Conservation of credits. Whatever sequence of reserve, dispatch, commit and release
  transactions runs, in any interleaving and with any outcomes, the credits on all accounts
  plus the credits held by unsettled calls plus what committed calls have spent (price less
  the reward minted for the donor) stay the same, and the ledger stays well formed.\<close>

theorem ledger_conserves_credits:
  assumes "ledger_ok st" "list_all call_op ops"
  shows "ledger_money (ledger_run ops st) = ledger_money st \<and> ledger_ok (ledger_run ops st)"
  using ledger_money_run [OF assms] ledger_run_ok [OF assms(1)] by simp

theorem ledger_conserves_credits_witness:
  "ledger_money (ledger_run [Reserve ''a'' 5 1 1 4 2, Dispatch ''a'' 6, Commit ''a'' 7] sample_store)
     = ledger_money sample_store"
  using ledger_conserves_credits [of sample_store
      "[Reserve ''a'' 5 1 1 4 2, Dispatch ''a'' 6, Commit ''a'' 7]"] by simp

text \<open>C3: No oversell. Over any sequence of ledger transactions, purges included, the uses of a
  donation that are free, claimed or delivered are conserved; so the calls delivered since plus
  the calls still in flight never exceed what was free or in flight at the start, and the
  remaining count never becomes negative.\<close>

theorem ledger_never_oversells:
  assumes "ledger_ok st" "donation_row k st = Some d"
    and "donation_row k (ledger_run ops st) = Some d'"
  shows "d_remaining_count d' + d_success_count d' + in_flight k (ledger_run ops st) =
           d_remaining_count d + d_success_count d + in_flight k st \<and>
         0 \<le> d_remaining_count d' \<and>
         d_success_count d' - d_success_count d + in_flight k (ledger_run ops st)
           \<le> d_remaining_count d + in_flight k st"
proof -
  have *: "d_remaining_count d' + d_success_count d' + in_flight k (ledger_run ops st) =
           d_remaining_count d + d_success_count d + in_flight k st"
    using donation_uses_run [OF assms(1), of k ops] assms(2,3) by (simp add: donation_uses_def)
  have "0 \<le> d_remaining_count d'"
    using ledger_ok_donation [OF ledger_run_ok [OF assms(1)] assms(3)] by (simp add: donation_ok_def)
  with * show ?thesis by linarith
qed

lemmas ledger_ops_defs = ReserveCharityCall_def MarkCharityDispatched_def
  CommitCharityReservation_def ReleaseCharityReservation_def GetCharityReservation_def
  PurgeSettledCharityReservations_def Let_def

lemmas table_defs = select_where_def query_row_def update_where_def count_where_def
  delete_where_def column_sum_def

theorem ledger_never_oversells_witness:
  "\<exists>d'. donation_row 1 (ledger_run [Reserve ''a'' 5 1 1 4 2, Reserve ''b'' 6 1 1 4 2] sample_store)
       = Some d' \<and>
     d_success_count d' - 0 + in_flight 1 (ledger_run [Reserve ''a'' 5 1 1 4 2,
       Reserve ''b'' 6 1 1 4 2] sample_store) \<le> 1"
proof -
  let ?st = "ledger_run [Reserve ''a'' 5 1 1 4 2, Reserve ''b'' 6 1 1 4 2] sample_store"
  have d: "donation_row 1 sample_store = Some (sample_donation 1 1)"
    by (simp add: sample_store_def sample_donation_def)
  have "donation_row 1 ?st \<noteq> None"
    by (simp add: ledger_ops_defs sample_defs table_defs routable_def row_edits)
  then obtain d' where d': "donation_row 1 ?st = Some d'" by blast
  have "in_flight 1 sample_store = 0" by (simp add: in_flight_def sample_defs)
  with ledger_never_oversells [OF sample_store_ok d d'] d' show ?thesis
    by (simp add: sample_donation_def)
qed

text \<open>C5: Life of a reservation. One ledger transaction, of whatever kind and on whatever id,
  leaves a reservation as it is, or moves it one step reserved to dispatched, reserved to
  released or dispatched to committed without touching the consumer, donation, donor, price or
  reward fixed at reservation time, or purges it; and only a settled reservation is purged.\<close>

theorem reservation_lifecycle:
  assumes "ledger_ok st" "reservation_row k st = Some r"
  shows "case reservation_row k (ledger_exec x st) of
      None \<Rightarrow> r_status r = ReservationCommitted \<or> r_status r = ReservationReleased
    | Some r' \<Rightarrow> r' = r \<or> same_terms r r' \<and> status_step (r_status r) (r_status r')"
proof -
  have "known_status (r_status r)"
    using ledger_ok_reservation [OF assms] by (simp add: reservation_ok_def)
  then show ?thesis
    using reservation_step [OF assms, of x]
    by (cases "r_status r") (auto simp: unsettled_def split: option.splits)
qed

definition sample_reserved :: store where
  "sample_reserved = fst (ReserveCharityCall ''a'' 5 1 1 4 2 sample_store)"

lemma sample_reserved_ok [simp]: "ledger_ok sample_reserved"
  using ledger_exec_ok [OF sample_store_ok, of "Reserve ''a'' 5 1 1 4 2"]
  by (simp add: sample_reserved_def)

definition sample_reservation :: reservation where
  "sample_reservation = \<lparr>r_id = ''a'', r_user_id = 1, r_donation_id = 1,
     r_donor_user_id = Some 2, r_price = 4, r_reward = 2, r_status = ReservationReserved,
     r_created_at = 5, r_updated_at = 5\<rparr>"

lemma sample_reserved_call:
  "ReserveCharityCall ''a'' 5 1 1 4 2 sample_store = (sample_reserved, Inr sample_reservation)"
  by (simp add: sample_reserved_def sample_reservation_def ledger_ops_defs sample_defs table_defs
      routable_def row_edits)

lemma sample_reserved_rows: "charity_reservations sample_reserved = [sample_reservation]"
  by (simp add: sample_reserved_def sample_reservation_def ledger_ops_defs sample_defs table_defs
      routable_def row_edits)

lemma sample_reserved_row: "reservation_row ''a'' sample_reserved = Some sample_reservation"
  by (simp add: sample_reserved_rows) (simp add: sample_reservation_def)

theorem reservation_lifecycle_witness:
  "\<exists>r. reservation_row ''a'' sample_reserved = Some r \<and>
     (case reservation_row ''a'' (ledger_exec (Dispatch ''a'' 6) sample_reserved) of
        None \<Rightarrow> r_status r = ReservationCommitted \<or> r_status r = ReservationReleased
      | Some r' \<Rightarrow> r' = r \<or> same_terms r r' \<and> status_step (r_status r) (r_status r'))"
  using sample_reserved_row
    reservation_lifecycle [OF sample_reserved_ok sample_reserved_row, of "Dispatch ''a'' 6"] by blast

text \<open>C6: The SQL of \<open>ReserveCharityCall\<close> (guarded updates and row counts inside a transaction)
  computes the row-level specification: the guards decide in this order with these errors, an
  error leaves the store as it was, and a success edits exactly the donation, the consumer and
  the new reservation.\<close>

theorem reserve_implements_spec:
  assumes "keys_ok st"
  shows "ReserveCharityCall rid now uid did price reward st =
         reserve_spec rid now uid did price reward st"
proof -
  note kd = keys_ok_dest [OF assms]
  consider "donation_row did st = None"
    | d where "donation_row did st = Some d" "user_row uid st = None"
    | d u where "donation_row did st = Some d" "user_row uid st = Some u"
    by (cases "donation_row did st"; cases "user_row uid st") auto
  then show ?thesis
  proof cases
    case 1
    then show ?thesis
      by (simp add: ReserveCharityCall_def reserve_spec_def Let_def count_where_key [OF kd(2)])
  next
    case 2
    then show ?thesis
      by (simp add: ReserveCharityCall_def reserve_spec_def Let_def count_where_key [OF kd(2)]
          count_where_key [OF kd(1)] update_where_key_guard [OF kd(2)] by_key_update_key
          routable_def linorder_not_less)
  next
    case 3
    then have "update_where (\<lambda>x. d_id x = did) (claim_use now) (donations st) =
        update_where (\<lambda>x. d_id x = did) (\<lambda>_. claim_use now d) (donations st)"
      "update_where (\<lambda>x. u_id x = uid) (add_credits (- price) now) (users st) =
        update_where (\<lambda>x. u_id x = uid) (\<lambda>_. add_credits (- price) now u) (users st)"
      by (blast intro: update_where_row [OF kd(2)] update_where_row [OF kd(1)])+
    note rows = this
    have "ReserveCharityCall rid now uid did price reward st =
      (if price < 0 \<or> reward < 0 then (st, Inl ErrNegativeAmount)
       else if \<not> routable now d then (st, Inl ErrDonationUnavailable)
       else if u_credits u < price then (st, Inl ErrInsufficientCredits)
       else if reservation_row rid st \<noteq> None then (st, Inl ErrReservationExists)
       else let r = \<lparr>r_id = rid, r_user_id = uid, r_donation_id = did,
              r_donor_user_id = d_source_user_id (claim_use now d), r_price = price,
              r_reward = reward, r_status = ReservationReserved,
              r_created_at = now, r_updated_at = now\<rparr>
         in (st\<lparr>donations := update_where (\<lambda>x. d_id x = did) (claim_use now) (donations st),
              users := update_where (\<lambda>x. u_id x = uid) (add_credits (- price) now) (users st),
              charity_reservations := charity_reservations st @ [r]\<rparr>, Inr r))"
      using 3
      by (simp add: ReserveCharityCall_def Let_def count_where_key [OF kd(2)]
          count_where_key [OF kd(1)] update_where_key_guard [OF kd(2)]
          update_where_key_guard [OF kd(1)] by_key_update_key linorder_not_less)
    with 3 show ?thesis
      by (auto simp: reserve_spec_def Let_def routable_def rows claim_use_def add_credits_def)
  qed
qed

theorem reserve_implements_spec_witness:
  "ReserveCharityCall ''a'' 5 1 1 40 2 sample_store = (sample_store, Inl ErrInsufficientCredits)"
  using reserve_implements_spec [OF ledger_ok_keys [OF sample_store_ok], of "''a''" 5 1 1 40 2]
  by (simp add: reserve_spec_def sample_defs)

text \<open>C7: Releasing undoes reserving. If a call is reserved and then released without a failure
  record before the donation's deadline, the donation is routable again with exactly its old
  counters and status (also when the call had taken the last use and expired the donation), the
  consumer has the old balance, and no other user or donation is touched; only the update stamps
  move.\<close>

theorem release_undoes_reserve:
  assumes "ledger_ok st"
    and "ReserveCharityCall rid now uid did price reward st = (st1, Inr r)"
    and "ReleaseCharityReservation rid False now' st1 = (st2, res)"
    and "donation_row did st = Some d" "now' < d_deadline d"
  shows "res = Inr 0 \<and>
     donations st2 = update_where (\<lambda>x. d_id x = did) (\<lambda>_. d\<lparr>d_updated_at := now'\<rparr>) (donations st) \<and>
     users st2 = update_where (\<lambda>x. u_id x = uid) (\<lambda>x. x\<lparr>u_updated_at := now'\<rparr>) (users st)"
proof -
  note ok1 = reserve_preserves [OF assms(1,2)]
  show ?thesis
  proof (rule reserve_okE [OF assms(2) ledger_ok_keys [OF assms(1)]])
    fix d0 u
    assume d0: "donation_row did st = Some d0" "routable now d0"
      and rid: "reservation_row rid st = None"
      and r: "r = \<lparr>r_id = rid, r_user_id = uid, r_donation_id = did,
          r_donor_user_id = d_source_user_id d0, r_price = price, r_reward = reward,
          r_status = ReservationReserved, r_created_at = now, r_updated_at = now\<rparr>"
      and st1: "st1 = st\<lparr>donations := update_where (\<lambda>d. d_id d = did) (claim_use now) (donations st),
          users := update_where (\<lambda>u. u_id u = uid) (add_credits (- price) now) (users st),
          charity_reservations := charity_reservations st @ [r]\<rparr>"
    have row1: "reservation_row rid st1 = Some r" by (simp add: st1 rid r)
    have d: "d0 = d" "0 \<le> d_remaining_count d"
      using assms(4) d0(1) ledger_ok_donation [OF assms(1,4)] by (auto simp: donation_ok_def)
    have comp: "update_where P f (update_where P g rows) = update_where P (f \<circ> g) rows"
      if "\<And>x. P (g x) = P x" for P f g and rows :: "'x list"
      using that by (induction rows) auto
    have d_back: "restore_use 0 now' (claim_use now d) = d\<lparr>d_updated_at := now'\<rparr>"
      using d0(2) assms(5) d(1) by (auto simp: restore_use_def claim_use_def routable_def)
    have u_back: "add_credits price now' (add_credits (- price) now x) = x\<lparr>u_updated_at := now'\<rparr>" for x
      by (simp add: add_credits_def)
    show ?thesis
      using assms(3) ledger_ok_keys [OF ok1]
    proof (cases rule: release_cases)
      case (settled r' d')
      then have "r' = r" using row1 by simp
      then show ?thesis
        using settled update_where_row [OF keys_ok_dest(2) [OF ledger_ok_keys [OF assms(1)]] assms(4),
            of "restore_use 0 now' \<circ> claim_use now"]
        by (simp add: st1 r comp d_back u_back fun_eq_iff comp_def)
    next
      case (error e)
      then show ?thesis
        using release_reserved [OF ok1 row1, of False now'] assms(3) r by simp
    qed (use row1 r in auto)
  qed
qed

theorem release_undoes_reserve_witness:
  "\<exists>st2. ReleaseCharityReservation ''a'' False 9 sample_reserved = (st2, Inr 0) \<and>
     donation_row 1 st2 = Some ((sample_donation 1 1)\<lparr>d_updated_at := 9\<rparr>)"
proof -
  obtain st2 res where rel: "ReleaseCharityReservation ''a'' False 9 sample_reserved = (st2, res)"
    by fastforce
  have d: "donation_row 1 sample_store = Some (sample_donation 1 1)"
    by (simp add: sample_store_def sample_donation_def)
  show ?thesis
    using release_undoes_reserve [OF sample_store_ok sample_reserved_call rel d] rel
    by (simp add: sample_store_def sample_donation_def)
qed

text \<open>C8: Settling is idempotent and exclusive. Once a commit has succeeded, committing again at
  any later time returns the reservation and changes nothing, and releasing it is refused and
  changes nothing; so the donor is rewarded once and the consumer is not refunded as well. The
  same holds with the roles exchanged.\<close>

theorem settlement_exactly_once:
  assumes "keys_ok st"
  shows "(case CommitCharityReservation rid now st of
        (st1, Inr r) \<Rightarrow> CommitCharityReservation rid now' st1 = (st1, Inr r) \<and>
          ReleaseCharityReservation rid cf now' st1 = (st1, Inl (ErrAlreadyCommitted rid))
      | (st1, Inl e) \<Rightarrow> st1 = st) \<and>
    (case ReleaseCharityReservation rid cf now st of
        (st1, Inr n) \<Rightarrow> ReleaseCharityReservation rid cf' now' st1 = (st1, Inr 0) \<and>
          CommitCharityReservation rid now' st1 = (st1, Inl (ErrAlreadyReleased rid))
      | (st1, Inl e) \<Rightarrow> st1 = st)"
proof -
  obtain st1 c where C: "CommitCharityReservation rid now st = (st1, c)" by fastforce
  obtain st2 n where R: "ReleaseCharityReservation rid cf now st = (st2, n)" by fastforce
  have row: "reservation_row rid st1 = Some r \<and> r_status r = ReservationCommitted" if "c = Inr r" for r
    using C assms that
    by (cases rule: commit_cases) (auto simp: by_key_update_key)
  have row': "\<exists>r. reservation_row rid st2 = Some r \<and> r_status r = ReservationReleased" if "n = Inr m" for m
    using R assms that
    by (cases rule: release_cases) (auto simp: by_key_update_key)
  have "st1 = st" if "c = Inl e" for e using C assms that by (cases rule: commit_cases) auto
  moreover have "st2 = st" if "n = Inl e" for e using R assms that by (cases rule: release_cases) auto
  moreover have "CommitCharityReservation rid now' st1 = (st1, Inr r)"
    "ReleaseCharityReservation rid cf now' st1 = (st1, Inl (ErrAlreadyCommitted rid))" if "c = Inr r" for r
    using row [OF that]
    by (simp_all add: CommitCharityReservation_def ReleaseCharityReservation_def GetCharityReservation_def)
  moreover have "ReleaseCharityReservation rid cf' now' st2 = (st2, Inr 0)"
    "CommitCharityReservation rid now' st2 = (st2, Inl (ErrAlreadyReleased rid))" if "n = Inr m" for m
    using row' [OF that]
    by (auto simp: CommitCharityReservation_def ReleaseCharityReservation_def GetCharityReservation_def)
  ultimately show ?thesis by (simp add: C R split: sum.splits)
qed

theorem settlement_exactly_once_witness:
  "case CommitCharityReservation ''a'' 7 sample_reserved of (st1, Inr r) \<Rightarrow> False | (st1, Inl e) \<Rightarrow>
     st1 = sample_reserved"
  using settlement_exactly_once [OF ledger_ok_keys [OF sample_reserved_ok],
      where rid = "''a''" and now = 7]
  by (simp add: CommitCharityReservation_def GetCharityReservation_def sample_reserved_row
      sample_reservation_def)

lemma pending_list:
  fixes st
  assumes "keys_distinct r_id (charity_reservations st)"
  defines "L \<equiv> map (\<lambda>r. (r_id r, r_status r))
    (sort_key r_created_at (select_where unsettled (charity_reservations st)))"
  shows "distinct (map fst L)" "\<forall>p \<in> set L. pending_row st p"
    "fst ` set L = {rid. \<exists>r. reservation_row rid st = Some r \<and> unsettled r}"
proof -
  have row: "reservation_row (r_id r) st = Some r" if "r \<in> set (charity_reservations st)" for r
    by (rule by_key_in_set [OF assms(1) that])
  have "distinct (map r_id (select_where unsettled (charity_reservations st)))"
    using assms(1) by (simp add: keys_distinct_def select_where_def distinct_map_filter)
  then show "distinct (map fst L)" by (simp add: L_def comp_def distinct_map distinct_sort)
  show "\<forall>p \<in> set L. pending_row st p"
    using row by (auto simp: L_def select_where_def pending_row_def)
  show "fst ` set L = {rid. \<exists>r. reservation_row rid st = Some r \<and> unsettled r}"
  proof (intro set_eqI iffI)
    fix rid assume "rid \<in> fst ` set L"
    then obtain r where "r \<in> set (charity_reservations st)" "unsettled r" "rid = r_id r"
      by (auto simp: L_def select_where_def)
    with row show "rid \<in> {rid. \<exists>r. reservation_row rid st = Some r \<and> unsettled r}" by blast
  next
    fix rid assume "rid \<in> {rid. \<exists>r. reservation_row rid st = Some r \<and> unsettled r}"
    then obtain r where "r \<in> set (charity_reservations st)" "unsettled r" "r_id r = rid"
      by (auto dest: by_key_SomeD)
    then show "rid \<in> fst ` set L" by (force simp: L_def select_where_def)
  qed
qed

lemma pending_counts:
  assumes "s = ReservationReserved \<or> s = ReservationDispatched"
  shows "count_where (\<lambda>p. snd p = s) (map (\<lambda>r. (r_id r, r_status r))
      (sort_key r_created_at (select_where unsettled rows))) = count_where (\<lambda>r. r_status r = s) rows"
proof -
  have "length (filter (\<lambda>r. r_status r = s) (sort_key r_created_at (select_where unsettled rows))) =
      length (filter (\<lambda>r. r_status r = s) (select_where unsettled rows))"
    by (simp add: filter_sort)
  moreover have "filter (\<lambda>r. r_status r = s) (select_where unsettled rows) = filter (\<lambda>r. r_status r = s) rows"
    using assms by (auto simp: select_where_def unsettled_def intro!: filter_cong)
  ultimately show ?thesis by (simp add: count_where_def filter_map comp_def)
qed

text \<open>C9: Recovery is complete. From a well-formed store, startup recovery never fails: it
  releases exactly the reserved and commits exactly the dispatched calls, reports their numbers,
  leaves every settled row alone and no row unsettled, and conserves credits and uses.\<close>

theorem recovery_complete:
  assumes "ledger_ok st"
  shows "\<exists>st'. RecoverCharityReservations clock st =
      (st', count_where (\<lambda>r. r_status r = ReservationReserved) (charity_reservations st),
       count_where (\<lambda>r. r_status r = ReservationDispatched) (charity_reservations st), None) \<and>
     recovered clock {rid. \<exists>r. reservation_row rid st = Some r \<and> unsettled r} st st' \<and>
     (\<forall>r \<in> set (charity_reservations st'). \<not> unsettled r)"
proof -
  let ?L = "map (\<lambda>r. (r_id r, r_status r))
    (sort_key r_created_at (select_where unsettled (charity_reservations st)))"
  note L = pending_list [OF keys_ok_dest(3) [OF ledger_ok_keys [OF assms]]]
  obtain st' where st': "recover_loop clock ?L 0 0 st =
      (st', 0 + count_where (\<lambda>p. snd p = ReservationReserved) ?L,
       0 + count_where (\<lambda>p. snd p = ReservationDispatched) ?L, None)"
    "recovered clock (fst ` set ?L) st st'"
    using recover_loop_settles [OF assms L(1,2), of clock 0 0] by blast
  then have "\<not> unsettled r" if "r \<in> set (charity_reservations st')" for r
    using recovered_all_settled that unfolding L(3) by blast
  with st' show ?thesis
    unfolding RecoverCharityReservations_def by (simp add: pending_counts L(3) [symmetric])
qed

theorem recovery_complete_witness:
  "\<exists>st'. RecoverCharityReservations (\<lambda>_. 9) sample_reserved = (st', 1, 0, None)"
  using recovery_complete [OF sample_reserved_ok, of "\<lambda>_. 9"]
  by (auto simp: sample_reserved_rows sample_reservation_def)

end
