(* ===== verification/Settlement.thy ===== *)
theory Settlement
  imports Ledger
begin

text \<open>
  The online recovery worker of \<^verbatim>\<open>handler/charity_settlement.go\<close>: a bounded queue and pending set of
  reservation ids, drained by one goroutine that settles each id from its durable state. The
  worker talks to the store through three calls (read the status, release, commit); they are the
  interface \<open>settlement_store\<close>, interpreted below on the ledger. The parts of the code that run
  under the mutex are the atomic steps; what the goroutine still has to process is its program
  counter \<open>w_todo\<close>.
\<close>

section \<open>One settlement attempt\<close>

datatype settle_error =
    ErrBusy
  | ErrContextDone
  | ErrLedger ledger_error
  | ErrInvalidDurableStatus reservation_status

text \<open>\<open>settleCurrentStateOnce\<close> against the store interface. \<open>busy\<close> says that SQLite reported lock
  contention for this attempt, which rolls the transaction back.\<close>

definition settle_once ::
  "('i \<Rightarrow> 's \<Rightarrow> reservation_status option) \<Rightarrow> ('i \<Rightarrow> int \<Rightarrow> 's \<Rightarrow> 's \<times> ledger_error option) \<Rightarrow>
   ('i \<Rightarrow> int \<Rightarrow> 's \<Rightarrow> 's \<times> ledger_error option) \<Rightarrow> bool \<Rightarrow> int \<Rightarrow> 'i \<Rightarrow> 's \<Rightarrow> 's \<times> settle_error option" where
  "settle_once status release commit busy now i s =
    (if busy then (s, Some ErrBusy)
     else case status i s of
       None \<Rightarrow> (s, None)
     | Some ReservationReserved \<Rightarrow> map_prod id (map_option ErrLedger) (release i now s)
     | Some ReservationDispatched \<Rightarrow> map_prod id (map_option ErrLedger) (commit i now s)
     | Some ReservationCommitted \<Rightarrow> (s, None)
     | Some ReservationReleased \<Rightarrow> (s, None)
     | Some other \<Rightarrow> (s, Some (ErrInvalidDurableStatus other)))"

text \<open>\<open>settleCurrentState\<close>: attempts are retried while the store is busy. The list holds, for each
  attempt that the context's budget leaves room for, whether the store is busy and the time.\<close>

fun settle_retry ::
  "(bool \<Rightarrow> int \<Rightarrow> 's \<Rightarrow> 's \<times> settle_error option) \<Rightarrow> (bool \<times> int) list \<Rightarrow> 's \<Rightarrow>
   's \<times> settle_error option" where
  "settle_retry once [] s = (s, Some ErrContextDone)"
| "settle_retry once ((busy, now) # rest) s =
    (case once busy now s of
       (s1, None) \<Rightarrow> (s1, None)
     | (s1, Some e) \<Rightarrow> if e \<noteq> ErrBusy then (s1, Some e)
                      else if rest = [] then (s1, Some ErrBusy)
                      else settle_retry once rest s1)"

section \<open>The store interface\<close>

definition settled_status :: "reservation_status option \<Rightarrow> bool" where
  "settled_status s \<longleftrightarrow> s = None \<or> s = Some ReservationCommitted \<or> s = Some ReservationReleased"

locale settlement_store =
  fixes status :: "'i \<Rightarrow> 's \<Rightarrow> reservation_status option"
    and release commit :: "'i \<Rightarrow> int \<Rightarrow> 's \<Rightarrow> 's \<times> ledger_error option"
    and inv :: "'s \<Rightarrow> bool"
  assumes known: "inv s \<Longrightarrow> status i s \<noteq> Some (ReservationOther x)"
    and release_law: "\<lbrakk>inv s; status i s = Some ReservationReserved\<rbrakk> \<Longrightarrow>
      \<exists>s'. release i now s = (s', None) \<and> inv s' \<and> status i s' = Some ReservationReleased \<and>
        (\<forall>j. j \<noteq> i \<longrightarrow> status j s' = status j s)"
    and commit_law: "\<lbrakk>inv s; status i s = Some ReservationDispatched\<rbrakk> \<Longrightarrow>
      \<exists>s'. commit i now s = (s', None) \<and> inv s' \<and> status i s' = Some ReservationCommitted \<and>
        (\<forall>j. j \<noteq> i \<longrightarrow> status j s' = status j s)"
begin

lemma once_settles:
  assumes "inv s"
  shows "\<exists>s'. settle_once status release commit False now i s = (s', None) \<and> inv s' \<and>
    settled_status (status i s') \<and> (\<forall>j. j \<noteq> i \<longrightarrow> status j s' = status j s)"
proof (cases "status i s")
  case None
  then show ?thesis using assms by (simp add: settle_once_def settled_status_def)
next
  case (Some x)
  show ?thesis
  proof (cases x)
    case ReservationReserved
    with release_law [OF assms, of i now] Some show ?thesis
      by (auto simp: settle_once_def settled_status_def)
  next
    case ReservationDispatched
    with commit_law [OF assms, of i now] Some show ?thesis
      by (auto simp: settle_once_def settled_status_def)
  next
    case (ReservationOther y)
    with known [OF assms] Some show ?thesis by blast
  qed (use Some assms in \<open>auto simp: settle_once_def settled_status_def\<close>)
qed

lemma once_busy: "settle_once status release commit True now i s = (s, Some ErrBusy)"
  by (simp add: settle_once_def)

lemma retry_settles:
  assumes "inv s"
  shows "\<exists>s' e. settle_retry (\<lambda>busy now. settle_once status release commit busy now i) attempts s = (s', e) \<and>
    inv s' \<and> (\<forall>j. j \<noteq> i \<longrightarrow> status j s' = status j s) \<and>
    (if \<exists>a \<in> set attempts. \<not> fst a then e = None \<and> settled_status (status i s')
     else s' = s \<and> e \<noteq> None)"
  using assms
proof (induction attempts arbitrary: s)
  case (Cons a rest)
  obtain busy now where a: "a = (busy, now)" by fastforce
  show ?case
  proof (cases busy)
    case True
    then show ?thesis using Cons a by (auto simp: once_busy)
  next
    case False
    then show ?thesis using once_settles [OF Cons.prems, of now i] a by auto
  qed
qed simp

lemma once_idempotent:
  assumes "inv s"
  shows "settle_once status release commit False now' i
      (fst (settle_once status release commit False now i s)) =
    (fst (settle_once status release commit False now i s), None)"
proof -
  obtain s' where s': "settle_once status release commit False now i s = (s', None)"
    "settled_status (status i s')" using once_settles [OF assms] by blast
  then show ?thesis by (auto simp: settle_once_def settled_status_def)
qed

end

section \<open>The ledger implements the interface\<close>

definition reservation_status_of :: "string \<Rightarrow> store \<Rightarrow> reservation_status option" where
  "reservation_status_of rid st = map_option r_status (GetCharityReservation rid st)"

definition error_of :: "'s \<times> ('e, 'a) result \<Rightarrow> 's \<times> 'e option" where
  "error_of p = (fst p, case snd p of Inl e \<Rightarrow> Some e | Inr _ \<Rightarrow> None)"

definition release_unused :: "string \<Rightarrow> int \<Rightarrow> store \<Rightarrow> store \<times> ledger_error option" where
  "release_unused rid now st = error_of (ReleaseCharityReservation rid False now st)"

definition commit_used :: "string \<Rightarrow> int \<Rightarrow> store \<Rightarrow> store \<times> ledger_error option" where
  "commit_used rid now st = error_of (CommitCharityReservation rid now st)"

definition settleCurrentStateOnce ::
  "bool \<Rightarrow> int \<Rightarrow> string \<Rightarrow> store \<Rightarrow> store \<times> settle_error option" where
  "settleCurrentStateOnce = settle_once reservation_status_of release_unused commit_used"

definition settleCurrentState ::
  "(bool \<times> int) list \<Rightarrow> string \<Rightarrow> store \<Rightarrow> store \<times> settle_error option" where
  "settleCurrentState attempts rid =
     settle_retry (\<lambda>busy now. settleCurrentStateOnce busy now rid) attempts"

interpretation ledger: settlement_store reservation_status_of release_unused commit_used ledger_ok
proof
  fix st i x
  assume ok: "ledger_ok st"
  show "reservation_status_of i st \<noteq> Some (ReservationOther x)"
    using ledger_ok_reservation [OF ok, of i]
    by (auto simp: reservation_status_of_def GetCharityReservation_def reservation_ok_def)
next
  fix st i now
  assume ok: "ledger_ok st" and r: "reservation_status_of i st = Some ReservationReserved"
  obtain r where r: "reservation_row i st = Some r" "r_status r = ReservationReserved"
    using r by (auto simp: reservation_status_of_def GetCharityReservation_def)
  show "\<exists>s'. release_unused i now st = (s', None) \<and> ledger_ok s' \<and>
      reservation_status_of i s' = Some ReservationReleased \<and>
      (\<forall>j. j \<noteq> i \<longrightarrow> reservation_status_of j s' = reservation_status_of j st)"
    using release_reserved [OF ok r, of False now]
    by (auto simp: release_unused_def error_of_def reservation_status_of_def
        GetCharityReservation_def)
next
  fix st i now
  assume ok: "ledger_ok st" and r: "reservation_status_of i st = Some ReservationDispatched"
  obtain r where r: "reservation_row i st = Some r" "r_status r = ReservationDispatched"
    using r by (auto simp: reservation_status_of_def GetCharityReservation_def)
  show "\<exists>s'. commit_used i now st = (s', None) \<and> ledger_ok s' \<and>
      reservation_status_of i s' = Some ReservationCommitted \<and>
      (\<forall>j. j \<noteq> i \<longrightarrow> reservation_status_of j s' = reservation_status_of j st)"
    using commit_dispatched [OF ok r, of now]
    by (auto simp: commit_used_def error_of_def reservation_status_of_def
        GetCharityReservation_def)
qed

section \<open>The worker\<close>

text \<open>\<open>w_pending\<close> is the Go map from id to "currently queued" (an association list with distinct
  keys), \<open>w_queue\<close> the buffered channel of capacity \<open>queueSize\<close>, \<open>w_todo\<close> the ids the goroutine has
  still to process in the current turn of its loop.\<close>

record worker =
  w_queue_size :: nat
  w_pending :: "(string \<times> bool) list"
  w_queue :: "string list"
  w_todo :: "string list"
  w_cancelled :: bool

definition newCharitySettlementWorker :: "nat \<Rightarrow> worker" where
  "newCharitySettlementWorker queueSize = \<lparr>w_queue_size = queueSize, w_pending = [], w_queue = [],
     w_todo = [], w_cancelled = False\<rparr>"

definition pending_set :: "string \<Rightarrow> bool \<Rightarrow> (string \<times> bool) list \<Rightarrow> (string \<times> bool) list" where
  "pending_set rid queued p = update_where (\<lambda>x. fst x = rid) (\<lambda>x. (fst x, queued)) p"

definition pending_delete :: "string \<Rightarrow> (string \<times> bool) list \<Rightarrow> (string \<times> bool) list" where
  "pending_delete rid p = delete_where (\<lambda>x. fst x = rid) p"

abbreviation pending_lookup :: "string \<Rightarrow> worker \<Rightarrow> bool option" where
  "pending_lookup rid w \<equiv> map_of (w_pending w) rid"

definition wake :: "string \<Rightarrow> worker \<Rightarrow> worker \<times> bool" where
  "wake rid w =
    (if rid = [] then (w, False)
     else if w_cancelled w then (w, False)
     else if pending_lookup rid w \<noteq> None then (w, True)
     else if w_queue_size w \<le> length (w_pending w) then (w, False)
     else
       let w1 = w\<lparr>w_pending := w_pending w @ [(rid, False)]\<rparr> in
       if length (w_queue w1) < w_queue_size w1
       then (w1\<lparr>w_queue := w_queue w1 @ [rid], w_pending := pending_set rid True (w_pending w1)\<rparr>, True)
       else (w1\<lparr>w_pending := pending_delete rid (w_pending w1)\<rparr>, False))"

text \<open>The locked part of \<open>processQueued\<close>, after the id has been received from the channel.\<close>

definition take_queued :: "worker \<Rightarrow> worker" where
  "take_queued w = (case w_queue w of
     [] \<Rightarrow> w
   | rid # rest \<Rightarrow>
      let w1 = w\<lparr>w_queue := rest\<rparr> in
      case pending_lookup rid w1 of
        Some True \<Rightarrow> w1\<lparr>w_pending := pending_set rid False (w_pending w1), w_todo := [rid]\<rparr>
      | _ \<Rightarrow> w1)"

text \<open>The locked part of \<open>retryPending\<close>: a snapshot of the ids that are pending and not queued.\<close>

definition retry_snapshot :: "worker \<Rightarrow> worker" where
  "retry_snapshot w = w\<lparr>w_todo := map fst (filter (\<lambda>x. \<not> snd x) (w_pending w))\<rparr>"

text \<open>\<open>process\<close> on the first id of the current turn: settle it against the store, and drop it from
  the pending map unless the attempt failed. A cancelled worker stops the turn.\<close>

definition process_todo :: "(bool \<times> int) list \<Rightarrow> worker \<times> store \<Rightarrow> worker \<times> store" where
  "process_todo attempts ws = (case w_todo (fst ws) of
     [] \<Rightarrow> ws
   | rid # rest \<Rightarrow>
      if w_cancelled (fst ws) then ((fst ws)\<lparr>w_todo := []\<rparr>, snd ws)
      else (case settleCurrentState attempts rid (snd ws) of
        (st1, Some e) \<Rightarrow> ((fst ws)\<lparr>w_todo := rest\<rparr>, st1)
      | (st1, None) \<Rightarrow>
          ((fst ws)\<lparr>w_todo := rest, w_pending := pending_delete rid (w_pending (fst ws))\<rparr>, st1)))"

definition discoverStale :: "int \<Rightarrow> int \<Rightarrow> worker \<Rightarrow> store \<Rightarrow> worker" where
  "discoverStale reservedBefore dispatchedBefore w st =
    fold (\<lambda>rid w. fst (wake rid w))
      (ListStaleCharityReservationIDs reservedBefore dispatchedBefore (int (w_queue_size w)) st) w"

definition shutdown :: "worker \<Rightarrow> worker" where
  "shutdown w = w\<lparr>w_cancelled := True\<rparr>"

text \<open>The goroutine's loop and its environment: handlers wake ids and run ledger transactions
  between any two steps of the worker; the worker starts a turn only when the last one is done.\<close>

inductive worker_step :: "worker \<times> store \<Rightarrow> worker \<times> store \<Rightarrow> bool" where
  wake: "worker_step (w, st) (fst (wake rid w), st)"
| ledger: "worker_step (w, st) (w, ledger_exec x st)"
| take_queued: "\<lbrakk>w_todo w = []; \<not> w_cancelled w\<rbrakk> \<Longrightarrow> worker_step (w, st) (take_queued w, st)"
| retry: "\<lbrakk>w_todo w = []; \<not> w_cancelled w\<rbrakk> \<Longrightarrow> worker_step (w, st) (retry_snapshot w, st)"
| discover: "\<lbrakk>w_todo w = []; \<not> w_cancelled w\<rbrakk> \<Longrightarrow>
    worker_step (w, st) (discoverStale rb db w st, st)"
| process: "worker_step ws (process_todo attempts ws)"
| shutdown: "worker_step (w, st) (shutdown w, st)"

inductive_cases worker_stepE [elim]: "worker_step ws ws'"

inductive worker_reach :: "nat \<Rightarrow> store \<Rightarrow> worker \<times> store \<Rightarrow> bool" for queueSize st where
  start: "worker_reach queueSize st (newCharitySettlementWorker queueSize, st)"
| step: "\<lbrakk>worker_reach queueSize st ws; worker_step ws ws'\<rbrakk> \<Longrightarrow> worker_reach queueSize st ws'"

subsection \<open>Worker invariant\<close>

text \<open>Both memories are bounded; the queue holds exactly the ids marked as queued, once each; and
  what the goroutine is working on is pending and not queued, so that deleting it from the map
  after a success never orphans a queued id.\<close>

definition worker_ok :: "worker \<Rightarrow> bool" where
  "worker_ok w \<longleftrightarrow>
     distinct (map fst (w_pending w)) \<and> length (w_pending w) \<le> w_queue_size w \<and>
     distinct (w_queue w) \<and>
     (\<forall>rid. rid \<in> set (w_queue w) \<longleftrightarrow> (rid, True) \<in> set (w_pending w)) \<and>
     distinct (w_todo w) \<and> (\<forall>rid \<in> set (w_todo w). (rid, False) \<in> set (w_pending w))"

lemma set_pending_set: "set (pending_set rid b p) =
    {x \<in> set p. fst x \<noteq> rid} \<union> (if rid \<in> fst ` set p then {(rid, b)} else {})"
  by (force simp: pending_set_def set_update_where)

lemma map_fst_pending_set [simp]: "map fst (pending_set rid b p) = map fst p"
  by (simp add: pending_set_def)

lemma length_pending_set [simp]: "length (pending_set rid b p) = length p"
  by (simp add: pending_set_def)

lemma set_pending_delete: "set (pending_delete rid p) = {x \<in> set p. fst x \<noteq> rid}"
  by (simp add: pending_delete_def)

lemma distinct_pending_delete: "distinct (map fst p) \<Longrightarrow> distinct (map fst (pending_delete rid p))"
  by (simp add: pending_delete_def delete_where_def distinct_map_filter)

lemma length_pending_delete: "length (pending_delete rid p) \<le> length p"
  by (simp add: pending_delete_def delete_where_def)

lemma queue_bounded: "worker_ok w \<Longrightarrow> length (w_queue w) \<le> length (w_pending w)"
proof -
  assume ok: "worker_ok w"
  then have "set (w_queue w) \<subseteq> set (map fst (w_pending w))"
    by (force simp: worker_ok_def)
  then have "card (set (w_queue w)) \<le> card (set (map fst (w_pending w)))"
    by (intro card_mono) simp_all
  with ok show ?thesis by (simp add: worker_ok_def distinct_card [symmetric])
    (metis distinct_card length_map list.set_map)
qed

lemma new_worker_ok: "worker_ok (newCharitySettlementWorker n)"
  by (simp add: worker_ok_def newCharitySettlementWorker_def)

lemma wake_ok:
  assumes "worker_ok w"
  shows "worker_ok (fst (wake rid w))"
proof (cases "rid = [] \<or> w_cancelled w \<or> pending_lookup rid w \<noteq> None \<or>
    w_queue_size w \<le> length (w_pending w)")
  case True
  with assms show ?thesis by (auto simp: wake_def)
next
  case False
  then have new: "rid \<notin> fst ` set (w_pending w)" by (simp add: map_of_eq_None_iff)
  have room: "length (w_queue w) < w_queue_size w" using queue_bounded [OF assms] False by simp
  have "rid \<notin> set (w_queue w)" using assms new by (force simp: worker_ok_def)
  with False room assms new show ?thesis
    by (auto simp: wake_def Let_def worker_ok_def set_pending_set)
qed

lemma pending_unique: "\<lbrakk>distinct (map fst p); (k, x) \<in> set p; (k, y) \<in> set p\<rbrakk> \<Longrightarrow> x = y"
  by (metis map_of_eq_Some_iff option.inject)

lemma take_queued_ok:
  assumes "worker_ok w" "w_todo w = []"
  shows "worker_ok (take_queued w)"
proof (cases "w_queue w")
  case Nil
  with assms show ?thesis by (simp add: take_queued_def)
next
  case (Cons rid rest)
  then have "(rid, True) \<in> set (w_pending w)" "rid \<notin> set rest" "distinct rest"
    using assms(1) by (auto simp: worker_ok_def)
  moreover from this have "pending_lookup rid w = Some True"
    using assms(1) by (simp add: worker_ok_def)
  ultimately show ?thesis
    using assms Cons by (auto simp: take_queued_def worker_ok_def set_pending_set Let_def image_iff)
      (metis fst_conv list.set_intros(2) set_ConsD)+
qed

lemma retry_snapshot_ok: "worker_ok w \<Longrightarrow> worker_ok (retry_snapshot w)"
  by (auto simp: worker_ok_def retry_snapshot_def distinct_map_filter)

lemma process_todo_ok:
  assumes "worker_ok (fst ws)"
  shows "worker_ok (fst (process_todo attempts ws))"
proof (cases "w_todo (fst ws)")
  case Nil
  with assms show ?thesis by (simp add: process_todo_def)
next
  case (Cons rid rest)
  have "(rid, True) \<notin> set (w_pending (fst ws))"
    using assms Cons pending_unique [of "w_pending (fst ws)" rid True False]
    by (auto simp: worker_ok_def)
  with assms Cons show ?thesis
    using length_pending_delete [of rid "w_pending (fst ws)"]
    by (cases "settleCurrentState attempts rid (snd ws)")
      (auto simp: process_todo_def worker_ok_def set_pending_delete distinct_pending_delete
        split: option.splits)
qed

lemma discover_ok: "worker_ok w \<Longrightarrow> worker_ok (discoverStale rb db w st)"
proof -
  have "worker_ok w \<Longrightarrow> worker_ok (fold (\<lambda>rid w. fst (wake rid w)) ids w)" for ids
    by (induction ids arbitrary: w) (simp_all add: wake_ok)
  then show "worker_ok w \<Longrightarrow> worker_ok (discoverStale rb db w st)"
    by (simp add: discoverStale_def)
qed

lemma settleCurrentState_ok:
  assumes "ledger_ok st" "settleCurrentState attempts rid st = (st', e)"
  shows "ledger_ok st'" "j \<noteq> rid \<Longrightarrow> reservation_status_of j st' = reservation_status_of j st"
    "e = None \<Longrightarrow> settled_status (reservation_status_of rid st')"
    "e \<noteq> None \<Longrightarrow> st' = st \<and> (\<forall>a \<in> set attempts. fst a)"
proof -
  obtain s' e' where *: "settleCurrentState attempts rid st = (s', e')" "ledger_ok s'"
    "\<forall>j. j \<noteq> rid \<longrightarrow> reservation_status_of j s' = reservation_status_of j st"
    "if \<exists>a \<in> set attempts. \<not> fst a then e' = None \<and> settled_status (reservation_status_of rid s')
     else s' = st \<and> e' \<noteq> None"
    using ledger.retry_settles [OF assms(1), where attempts = attempts and i = rid]
    unfolding settleCurrentState_def settleCurrentStateOnce_def by blast
  then show "ledger_ok st'" "j \<noteq> rid \<Longrightarrow> reservation_status_of j st' = reservation_status_of j st"
    "e = None \<Longrightarrow> settled_status (reservation_status_of rid st')"
    "e \<noteq> None \<Longrightarrow> st' = st \<and> (\<forall>a \<in> set attempts. fst a)"
    using assms(2) by (auto split: if_splits)
qed

lemma process_todo_ledger:
  assumes "ledger_ok (snd ws)"
  shows "ledger_ok (snd (process_todo attempts ws))"
  using settleCurrentState_ok(1) [OF assms]
  by (auto simp: process_todo_def assms split: list.splits prod.splits option.splits)

lemma shutdown_ok: "worker_ok w \<Longrightarrow> worker_ok (shutdown w)"
  by (simp add: worker_ok_def shutdown_def)

lemma worker_step_ok:
  assumes "worker_step ws ws'" "worker_ok (fst ws)" "ledger_ok (snd ws)"
  shows "worker_ok (fst ws') \<and> ledger_ok (snd ws')"
  using assms
proof cases
  case (process attempts)
  then show ?thesis using assms(2,3) by (simp add: process_todo_ok process_todo_ledger)
qed (auto simp: wake_ok ledger_exec_ok take_queued_ok retry_snapshot_ok discover_ok shutdown_ok)

lemma worker_reach_ok:
  assumes "worker_reach n st ws" "ledger_ok st"
  shows "worker_ok (fst ws) \<and> ledger_ok (snd ws)"
  using assms(1)
proof induction
  case start
  with assms(2) show ?case by (simp add: new_worker_ok)
next
  case (step ws ws')
  then show ?case using worker_step_ok by blast
qed

subsection \<open>Progress\<close>

text \<open>One turn of the loop on a queued id, and the turns it takes to empty the queue. \<open>sched rid\<close>
  are the attempts that the timeout leaves for \<open>rid\<close>.\<close>

definition worker_turn :: "(string \<Rightarrow> (bool \<times> int) list) \<Rightarrow> worker \<times> store \<Rightarrow> worker \<times> store" where
  "worker_turn sched ws =
    (let w1 = take_queued (fst ws)
     in case w_todo w1 of [] \<Rightarrow> (w1, snd ws) | rid # _ \<Rightarrow> process_todo (sched rid) (w1, snd ws))"

fun worker_turns :: "nat \<Rightarrow> (string \<Rightarrow> (bool \<times> int) list) \<Rightarrow> worker \<times> store \<Rightarrow> worker \<times> store" where
  "worker_turns 0 sched ws = ws"
| "worker_turns (Suc n) sched ws = worker_turns n sched (worker_turn sched ws)"

lemma worker_turn_settles:
  assumes "worker_ok w" "w_todo w = []" "\<not> w_cancelled w" "ledger_ok st"
    and "w_queue w = rid # rest" "\<exists>a \<in> set (sched rid). \<not> fst a"
  shows "\<exists>w' st'. worker_turn sched (w, st) = (w', st') \<and> worker_ok w' \<and> w_todo w' = [] \<and>
    \<not> w_cancelled w' \<and> ledger_ok st' \<and> w_queue w' = rest \<and>
    fst ` set (w_pending w') = fst ` set (w_pending w) - {rid} \<and>
    settled_status (reservation_status_of rid st') \<and>
    (\<forall>j. j \<noteq> rid \<longrightarrow> reservation_status_of j st' = reservation_status_of j st)"
proof -
  have "rid \<in> set (w_queue w)" by (simp add: assms(5))
  then have "(rid, True) \<in> set (w_pending w)" using assms(1) unfolding worker_ok_def by blast
  then have look: "pending_lookup rid w = Some True" using assms(1) by (simp add: worker_ok_def)
  define w1 where "w1 = take_queued w"
  have w1: "w1 = w\<lparr>w_queue := rest, w_pending := pending_set rid False (w_pending w), w_todo := [rid]\<rparr>"
    using look by (simp add: w1_def take_queued_def assms(5))
  obtain st' e where s: "settleCurrentState (sched rid) rid st = (st', e)" by fastforce
  have e: "e = None" using settleCurrentState_ok(4) [OF assms(4) s] assms(6) by blast
  note post = settleCurrentState_ok [OF assms(4) s]
  have w': "worker_turn sched (w, st) =
      (w1\<lparr>w_todo := [], w_pending := pending_delete rid (w_pending w1)\<rparr>, st')"
    using s e assms(3) by (simp add: worker_turn_def w1_def [symmetric])
      (simp add: w1 process_todo_def)
  moreover have "worker_ok (fst (worker_turn sched (w, st)))"
    using process_todo_ok [of "(w1, st)" "sched rid"] take_queued_ok [OF assms(1,2)]
    by (simp add: worker_turn_def w1_def [symmetric]) (simp add: w1)
  ultimately show ?thesis
    using post e assms(3)
    by (auto simp: w1 set_pending_delete set_pending_set)
qed

lemma worker_turns_settle:
  assumes "worker_ok w" "w_todo w = []" "\<not> w_cancelled w" "ledger_ok st"
    and "\<And>rid. rid \<in> set (w_queue w) \<Longrightarrow> \<exists>a \<in> set (sched rid). \<not> fst a"
  shows "\<exists>w' st'. worker_turns (length (w_queue w)) sched (w, st) = (w', st') \<and> worker_ok w' \<and>
    w_queue w' = [] \<and> ledger_ok st' \<and>
    fst ` set (w_pending w') = fst ` set (w_pending w) - set (w_queue w) \<and>
    (\<forall>j. j \<notin> set (w_queue w) \<longrightarrow> reservation_status_of j st' = reservation_status_of j st) \<and>
    (\<forall>rid \<in> set (w_queue w). settled_status (reservation_status_of rid st'))"
  using assms
proof (induction "w_queue w" arbitrary: w st)
  case Nil
  then show ?case by simp
next
  case (Cons rid rest)
  have ne: "\<exists>a \<in> set (sched rid). \<not> fst a"
    by (rule Cons.prems(5)) (simp flip: Cons.hyps(2))
  obtain w1 st1 where t: "worker_turn sched (w, st) = (w1, st1)" "worker_ok w1" "w_todo w1 = []"
    "\<not> w_cancelled w1" "ledger_ok st1" "w_queue w1 = rest"
    "fst ` set (w_pending w1) = fst ` set (w_pending w) - {rid}"
    "settled_status (reservation_status_of rid st1)"
    "\<forall>j. j \<noteq> rid \<longrightarrow> reservation_status_of j st1 = reservation_status_of j st"
    using worker_turn_settles [of w st rid rest sched, OF Cons.prems(1-4) Cons.hyps(2) [symmetric] ne]
    by blast
  have "rid \<notin> set rest" using Cons.prems(1) Cons.hyps(2) [symmetric] by (simp add: worker_ok_def)
  moreover obtain w' st' where "worker_turns (length rest) sched (w1, st1) = (w', st')" "worker_ok w'"
    "w_queue w' = []" "ledger_ok st'"
    "fst ` set (w_pending w') = fst ` set (w_pending w1) - set rest"
    "\<forall>j. j \<notin> set rest \<longrightarrow> reservation_status_of j st' = reservation_status_of j st1"
    "\<forall>rid \<in> set rest. settled_status (reservation_status_of rid st')"
    using Cons.hyps(1) [of w1 st1, OF t(6) [symmetric] t(2-5)] Cons.prems(5) Cons.hyps(2) [symmetric] t(6)
    by auto
  ultimately show ?case
    using t Cons.hyps(2) [symmetric] by auto
qed

lemma wake_new:
  assumes "rid \<noteq> []" "\<not> w_cancelled w" "rid \<notin> fst ` set (w_pending w)" "worker_ok w"
    and "length (w_pending w) < w_queue_size w"
  shows "fst (wake rid w) = w\<lparr>w_pending := w_pending w @ [(rid, True)], w_queue := w_queue w @ [rid]\<rparr>"
proof -
  have "pending_set rid True (w_pending w) = w_pending w"
    unfolding pending_set_def using assms(3) by (intro update_where_none) force
  then have "pending_set rid True (w_pending w @ [(rid, False)]) = w_pending w @ [(rid, True)]"
    by (simp add: pending_set_def update_where_def)
  moreover have "length (w_queue w) < w_queue_size w"
    using queue_bounded [OF assms(4)] assms(5) by simp
  moreover have "pending_lookup rid w = None" using assms(3) by (simp add: map_of_eq_None_iff)
  ultimately show ?thesis using assms by (simp add: wake_def)
qed

lemma wake_all:
  assumes "\<not> w_cancelled w" "worker_ok w" "distinct ids" "[] \<notin> set ids"
    and "fst ` set (w_pending w) \<inter> set ids = {}"
    and "length (w_pending w) + length ids \<le> w_queue_size w"
  shows "fold (\<lambda>rid w. fst (wake rid w)) ids w =
    w\<lparr>w_pending := w_pending w @ map (\<lambda>i. (i, True)) ids, w_queue := w_queue w @ ids\<rparr>"
  using assms
proof (induction ids arbitrary: w)
  case (Cons i ids)
  have w1: "fst (wake i w) = w\<lparr>w_pending := w_pending w @ [(i, True)], w_queue := w_queue w @ [i]\<rparr>"
    using Cons.prems by (intro wake_new) auto
  moreover have "worker_ok (fst (wake i w))" by (rule wake_ok [OF Cons.prems(2)])
  ultimately show ?case using Cons.prems Cons.IH [of "fst (wake i w)"] by auto
qed simp

lemma stale_ids:
  assumes "keys_ok st"
  shows "distinct (ListStaleCharityReservationIDs rb db limit st)"
    and "length (ListStaleCharityReservationIDs rb db limit st) \<le> nat limit"
    and "set (ListStaleCharityReservationIDs rb db limit st) \<subseteq>
      r_id ` {r \<in> set (charity_reservations st). unsettled r}"
proof -
  let ?rows = "sort_key r_updated_at (sort_key r_id
    (select_where (\<lambda>r. r_status r = ReservationReserved \<and> r_updated_at r \<le> rb
        \<or> r_status r = ReservationDispatched \<and> r_updated_at r \<le> db) (charity_reservations st)))"
  have "distinct (map r_id (select_where (\<lambda>r. r_status r = ReservationReserved \<and> r_updated_at r \<le> rb
      \<or> r_status r = ReservationDispatched \<and> r_updated_at r \<le> db) (charity_reservations st)))"
    using keys_ok_dest(3) [OF assms]
    by (simp add: keys_distinct_def select_where_def distinct_map_filter)
  then have "distinct (map r_id ?rows)" by (simp add: distinct_map distinct_sort)
  then show "distinct (ListStaleCharityReservationIDs rb db limit st)"
    by (simp add: ListStaleCharityReservationIDs_def)
  show "length (ListStaleCharityReservationIDs rb db limit st) \<le> nat limit"
    by (simp add: ListStaleCharityReservationIDs_def)
  have "set (take (nat limit) (map r_id ?rows)) \<subseteq> r_id ` set ?rows"
    using set_take_subset [of "nat limit" "map r_id ?rows"] by simp
  also have "\<dots> \<subseteq> r_id ` {r \<in> set (charity_reservations st). unsettled r}"
    by (auto simp: select_where_def unsettled_def)
  finally show "set (ListStaleCharityReservationIDs rb db limit st) \<subseteq>
      r_id ` {r \<in> set (charity_reservations st). unsettled r}"
    by (simp add: ListStaleCharityReservationIDs_def)
qed

lemma wake_size [simp]: "w_queue_size (fst (wake rid w)) = w_queue_size w"
  by (simp add: wake_def Let_def)

lemma fold_wake_size [simp]: "w_queue_size (fold (\<lambda>rid w. fst (wake rid w)) ids w) = w_queue_size w"
  by (induction ids arbitrary: w) simp_all

lemma worker_step_size:
  assumes "worker_step ws ws'"
  shows "w_queue_size (fst ws') = w_queue_size (fst ws)"
  using assms
  by cases (auto simp: take_queued_def retry_snapshot_def discoverStale_def
      process_todo_def shutdown_def Let_def split: list.splits option.splits bool.splits prod.splits)

lemma worker_reach_size: "worker_reach n st ws \<Longrightarrow> w_queue_size (fst ws) = n"
  by (induction rule: worker_reach.induct)
    (simp_all add: newCharitySettlementWorker_def worker_step_size)

section \<open>Properties\<close>

text \<open>Settling from the durable state. On a well-formed store that is not busy, one settlement
  attempt never fails, brings the reservation (reserved, dispatched, settled or absent) to a
  settled state, leaves every other reservation's status alone, conserves credits, and a second
  attempt changes nothing.\<close>

theorem settle_current_state_once:
  assumes "ledger_ok st"
  shows "\<exists>st'. settleCurrentStateOnce False now rid st = (st', None) \<and> ledger_ok st' \<and>
    ledger_money st' = ledger_money st \<and>
    settled_status (reservation_status_of rid st') \<and>
    (\<forall>j. j \<noteq> rid \<longrightarrow> reservation_status_of j st' = reservation_status_of j st) \<and>
    settleCurrentStateOnce False now' rid st' = (st', None)"
proof -
  obtain st' where *: "settleCurrentStateOnce False now rid st = (st', None)" "ledger_ok st'"
    "settled_status (reservation_status_of rid st')"
    "\<forall>j. j \<noteq> rid \<longrightarrow> reservation_status_of j st' = reservation_status_of j st"
    using ledger.once_settles [OF assms, of now rid] unfolding settleCurrentStateOnce_def by blast
  have "ledger_money (fst (settleCurrentStateOnce False now rid st)) = ledger_money st"
    using release_money [OF assms prod.collapse [symmetric]]
      commit_money [OF assms prod.collapse [symmetric]]
    by (auto simp: settleCurrentStateOnce_def settle_once_def release_unused_def commit_used_def
        error_of_def split: option.splits reservation_status.splits)
  with * ledger.once_idempotent [OF assms, of now' rid now] show ?thesis
    by (simp add: settleCurrentStateOnce_def)
qed

theorem settle_current_state_once_witness:
  "\<exists>st'. settleCurrentStateOnce False 9 ''a'' sample_reserved = (st', None) \<and>
     settled_status (reservation_status_of ''a'' st') \<and>
     settleCurrentStateOnce False 10 ''a'' st' = (st', None)"
  using settle_current_state_once [OF sample_reserved_ok, where now = 9 and rid = "''a''" and now' = 10]
  by blast



text \<open>Progress of online recovery. When the worker is idle and the store answers at least once
  within each attempt's budget, one scan for stale reservations followed by one turn of the loop
  for each id found settles all of them and empties the worker's memory; everything else keeps
  its status.\<close>

theorem stale_scan_settles:
  fixes w :: worker and st :: store and rb db :: int
  defines "ids \<equiv> ListStaleCharityReservationIDs rb db (int (w_queue_size w)) st"
  assumes "w_pending w = []" "w_queue w = []" "w_todo w = []" "\<not> w_cancelled w" "ledger_ok st"
    and "[] \<notin> set ids" "\<And>rid. rid \<in> set ids \<Longrightarrow> \<exists>a \<in> set (sched rid). \<not> fst a"
  shows "\<exists>w' st'. worker_turns (length ids) sched (discoverStale rb db w st, st) = (w', st') \<and>
    w_pending w' = [] \<and> w_queue w' = [] \<and> ledger_ok st' \<and>
    (\<forall>rid \<in> set ids. settled_status (reservation_status_of rid st')) \<and>
    (\<forall>rid. rid \<notin> set ids \<longrightarrow> reservation_status_of rid st' = reservation_status_of rid st)"
proof -
  note ids = stale_ids [OF ledger_ok_keys [OF assms(6)]]
  have ok: "worker_ok w" using assms(2-4) by (simp add: worker_ok_def)
  have dist: "distinct ids" and len: "length ids \<le> w_queue_size w"
    using ids(1,2) [of rb db "int (w_queue_size w)"] by (simp_all add: ids_def)
  define w1 where "w1 = w\<lparr>w_pending := map (\<lambda>i. (i, True)) ids, w_queue := ids\<rparr>"
  have w1: "discoverStale rb db w st = w1"
    using wake_all [OF assms(5) ok dist assms(7)] len assms(2,3)
    by (simp add: discoverStale_def ids_def [symmetric] w1_def)
  have "worker_ok w1" using discover_ok [OF ok, of rb db st] w1 by simp
  then obtain w' st' where "worker_turns (length ids) sched (w1, st) = (w', st')" "w_queue w' = []"
    "ledger_ok st'" "fst ` set (w_pending w') = fst ` set (w_pending w1) - set ids"
    "\<forall>j. j \<notin> set ids \<longrightarrow> reservation_status_of j st' = reservation_status_of j st"
    "\<forall>rid \<in> set ids. settled_status (reservation_status_of rid st')"
    using worker_turns_settle [of w1 st sched] assms(4-6,8) by (auto simp: w1_def)
  moreover have "fst ` set (w_pending w1) = set ids" by (auto simp: w1_def image_iff)
  ultimately show ?thesis using w1 by auto
qed

theorem stale_scan_settles_witness:
  "\<exists>w' st'. worker_turns (length (ListStaleCharityReservationIDs 50 50 4 sample_reserved))
       (\<lambda>_. [(True, 60), (False, 61)])
       (discoverStale 50 50 (newCharitySettlementWorker 4) sample_reserved, sample_reserved) = (w', st') \<and>
     w_pending w' = [] \<and> settled_status (reservation_status_of ''a'' st')"
proof -
  have ids: "ListStaleCharityReservationIDs 50 50 (int (w_queue_size (newCharitySettlementWorker 4)))
      sample_reserved = [''a'']"
    by (simp add: ListStaleCharityReservationIDs_def sample_reserved_rows sample_reservation_def
        select_where_def newCharitySettlementWorker_def)
  have "w_pending (newCharitySettlementWorker 4) = []" "w_queue (newCharitySettlementWorker 4) = []"
    "w_todo (newCharitySettlementWorker 4) = []" "\<not> w_cancelled (newCharitySettlementWorker 4)"
    by (simp_all add: newCharitySettlementWorker_def)
  note scan = stale_scan_settles [OF this sample_reserved_ok, of 50 50 "\<lambda>_. [(True, 60), (False, 61)]",
      unfolded ids]
  have "w_queue_size (newCharitySettlementWorker 4) = 4" by (simp add: newCharitySettlementWorker_def)
  then show ?thesis using scan ids by (simp; blast)
qed

end
