(* ===== verification/GoStrings.thy ===== *)
theory GoStrings
  imports Prelude "HOL-Library.Sublist"
begin

text \<open>
  The functions of Go's \<^verbatim>\<open>strings\<close> and \<^verbatim>\<open>strconv\<close> packages that the modelled code uses, on byte
  strings (a \<open>char\<close> is one byte of the UTF-8 text): prefix tests, \<open>TrimSpace\<close> with all of Unicode's
  white space, \<open>IndexByte\<close>, and decimal \<open>Itoa\<close>/\<open>Atoi\<close>.
\<close>

section \<open>Trimming\<close>

definition ascii_space :: "char \<Rightarrow> bool" where
  "ascii_space c \<longleftrightarrow> c \<in> {CHR 0x09, CHR 0x0A, CHR 0x0B, CHR 0x0C, CHR 0x0D, CHR 0x20}"

text \<open>The two- and three-byte encodings of the white space of \<^verbatim>\<open>unicode.IsSpace\<close>: U+0085, U+00A0,
  U+1680, U+2000 to U+200A, U+2028, U+2029, U+202F, U+205F and U+3000.\<close>

definition space2 :: "char \<Rightarrow> char \<Rightarrow> bool" where
  "space2 a b \<longleftrightarrow> a = CHR 0xC2 \<and> (b = CHR 0x85 \<or> b = CHR 0xA0)"

definition space3 :: "char \<Rightarrow> char \<Rightarrow> char \<Rightarrow> bool" where
  "space3 a b c \<longleftrightarrow>
     a = CHR 0xE1 \<and> b = CHR 0x9A \<and> c = CHR 0x80 \<or>
     a = CHR 0xE2 \<and> b = CHR 0x80 \<and>
       c \<in> {CHR 0x80, CHR 0x81, CHR 0x82, CHR 0x83, CHR 0x84, CHR 0x85, CHR 0x86, CHR 0x87,
            CHR 0x88, CHR 0x89, CHR 0x8A, CHR 0xA8, CHR 0xA9, CHR 0xAF} \<or>
     a = CHR 0xE2 \<and> b = CHR 0x81 \<and> c = CHR 0x9F \<or>
     a = CHR 0xE3 \<and> b = CHR 0x80 \<and> c = CHR 0x80"

text \<open>Bytes taken by a white-space rune at the front of a string, and (on the reversed string) at
  its end; 0 when there is none.\<close>

definition lead_space :: "string \<Rightarrow> nat" where
  "lead_space s = (case s of [] \<Rightarrow> 0 | a # t \<Rightarrow>
     if ascii_space a then 1
     else case t of [] \<Rightarrow> 0 | b # u \<Rightarrow>
       if space2 a b then 2
       else case u of [] \<Rightarrow> 0 | c # _ \<Rightarrow> if space3 a b c then 3 else 0)"

definition trail_space_rev :: "string \<Rightarrow> nat" where
  "trail_space_rev s = (case s of [] \<Rightarrow> 0 | c # t \<Rightarrow>
     if ascii_space c then 1
     else case t of [] \<Rightarrow> 0 | b # u \<Rightarrow>
       if space2 b c then 2
       else case u of [] \<Rightarrow> 0 | a # _ \<Rightarrow> if space3 a b c then 3 else 0)"

function strip :: "(string \<Rightarrow> nat) \<Rightarrow> string \<Rightarrow> string" where
  "strip f s = (if s = [] \<or> f s = 0 then s else strip f (drop (f s) s))"
  by pat_completeness auto
termination by (relation "measure (\<lambda>(f, s). length s)") (auto simp: diff_less)

declare strip.simps [simp del]

definition trim_left :: "string \<Rightarrow> string" where
  "trim_left s = strip lead_space s"

definition trim_right :: "string \<Rightarrow> string" where
  "trim_right s = rev (strip trail_space_rev (rev s))"

definition TrimSpace :: "string \<Rightarrow> string" where
  "TrimSpace s = trim_right (trim_left s)"

lemma strip_fixed: "s = [] \<or> f s = 0 \<Longrightarrow> strip f s = s"
  by (subst strip.simps) auto

lemma strip_step: "\<not> (s = [] \<or> f s = 0) \<Longrightarrow> strip f s = strip f (drop (f s) s)"
  by (subst strip.simps) auto

lemma strip_suffix: "suffix (strip f s) s"
proof (induction f s rule: strip.induct)
  case (1 f s)
  show ?case
  proof (cases "s = [] \<or> f s = 0")
    case True then show ?thesis by (simp add: strip_fixed)
  next
    case False
    then have "suffix (strip f (drop (f s) s)) s"
      by (rule suffix_order.trans [OF 1 suffix_drop])
    moreover have "strip f s = strip f (drop (f s) s)" using strip_step [of s f] False by blast
    ultimately show ?thesis by simp
  qed
qed

lemma strip_done: "strip f s = [] \<or> f (strip f s) = 0"
proof (induction f s rule: strip.induct)
  case (1 f s)
  show ?case
  proof (cases "s = [] \<or> f s = 0")
    case True then show ?thesis by (auto simp: strip_fixed)
  next
    case False
    moreover have "strip f s = strip f (drop (f s) s)" using strip_step [of s f] False by blast
    ultimately show ?thesis using 1 by simp
  qed
qed

lemma lead_space_prefix: "\<lbrakk>prefix t s; 0 < lead_space t\<rbrakk> \<Longrightarrow> lead_space s = lead_space t"
  by (auto simp: lead_space_def prefix_def split: list.splits if_splits)

lemma trim_right_prefix: "prefix (trim_right s) s"
  using strip_suffix [of trail_space_rev "rev s"]
  by (simp add: trim_right_def suffix_to_prefix)

lemma trim_left_suffix: "suffix (trim_left s) s"
  by (simp add: trim_left_def strip_suffix)

lemma TrimSpace_ends:
  "TrimSpace s = [] \<or> lead_space (TrimSpace s) = 0 \<and> trail_space_rev (rev (TrimSpace s)) = 0"
proof -
  have "trim_left s = [] \<or> lead_space (trim_left s) = 0"
    unfolding trim_left_def by (rule strip_done)
  moreover have "TrimSpace s = [] \<or> trail_space_rev (rev (TrimSpace s)) = 0"
    unfolding TrimSpace_def trim_right_def
    using strip_done [of trail_space_rev "rev (trim_left s)"] by auto
  moreover have "prefix (TrimSpace s) (trim_left s)"
    unfolding TrimSpace_def by (rule trim_right_prefix)
  ultimately show ?thesis
    using lead_space_prefix [of "TrimSpace s" "trim_left s"] by (cases "trim_left s") auto
qed

lemma TrimSpace_idem [simp]: "TrimSpace (TrimSpace s) = TrimSpace s"
  using TrimSpace_ends [of s]
  by (auto simp: TrimSpace_def [of "TrimSpace s"] trim_left_def trim_right_def strip_fixed)

lemma TrimSpace_Nil [simp]: "TrimSpace [] = []"
  by (simp add: TrimSpace_def trim_left_def trim_right_def strip_fixed)

lemma TrimSpace_infix: "sublist (TrimSpace s) s"
proof -
  have "prefix (TrimSpace s) (trim_left s)" "suffix (trim_left s) s"
    unfolding TrimSpace_def by (rule trim_right_prefix, rule trim_left_suffix)
  then show ?thesis
    by (meson prefix_imp_sublist suffix_imp_sublist sublist_order.order.trans)
qed

section \<open>Decimal numbers\<close>

definition digit :: "nat \<Rightarrow> char" where
  "digit n = char_of (48 + n)"

fun itoa :: "nat \<Rightarrow> string" where
  "itoa n = (if n < 10 then [digit n] else itoa (n div 10) @ [digit (n mod 10)])"

declare itoa.simps [simp del]

definition is_digit :: "char \<Rightarrow> bool" where
  "is_digit c \<longleftrightarrow> 48 \<le> (of_char c :: nat) \<and> (of_char c :: nat) \<le> 57"

definition dec_value :: "string \<Rightarrow> nat" where
  "dec_value s = fold (\<lambda>c n. 10 * n + (of_char c - 48)) s 0"

lemma of_char_digit: "n < 10 \<Longrightarrow> of_char (digit n) = (48 + n :: nat)"
  by (simp add: digit_def)

lemma is_digit_digit: "n < 10 \<Longrightarrow> is_digit (digit n)"
  by (simp add: is_digit_def of_char_digit)

lemma dec_value_itoa: "dec_value (itoa n) = n"
proof (induction n rule: itoa.induct)
  case (1 n)
  show ?case
  proof (cases "n < 10")
    case True then show ?thesis by (subst itoa.simps) (simp add: dec_value_def of_char_digit)
  next
    case False
    then have "dec_value (itoa (n div 10)) = n div 10" using 1 by blast
    with False show ?thesis by (subst itoa.simps) (simp add: dec_value_def of_char_digit)
  qed
qed

lemma itoa_digits: "\<forall>c \<in> set (itoa n). is_digit c"
proof (induction n rule: itoa.induct)
  case (1 n)
  then show ?case by (subst itoa.simps) (auto simp: is_digit_digit)
qed

lemma itoa_not_Nil [simp]: "itoa n \<noteq> []"
  by (subst itoa.simps) auto

lemma itoa_inject [simp]: "itoa m = itoa n \<longleftrightarrow> m = n"
  by (metis dec_value_itoa)

text \<open>\<open>strconv.Atoi\<close>: an optional sign and at least one digit, within 64 bits.\<close>

definition atoi_unsigned :: "string \<Rightarrow> int option" where
  "atoi_unsigned s = (if s \<noteq> [] \<and> list_all is_digit s then Some (int (dec_value s)) else None)"

definition Atoi :: "string \<Rightarrow> int option" where
  "Atoi s =
    (let v = (case s of [] \<Rightarrow> None | c # t \<Rightarrow>
        if c = CHR ''-'' then map_option uminus (atoi_unsigned t)
        else if c = CHR ''+'' then atoi_unsigned t else atoi_unsigned s)
     in case v of None \<Rightarrow> None
        | Some n \<Rightarrow> if - (2 ^ 63) \<le> n \<and> n < 2 ^ 63 then Some n else None)"

definition Itoa :: "int \<Rightarrow> string" where
  "Itoa n = (if n < 0 then CHR ''-'' # itoa (nat (- n)) else itoa (nat n))"

lemma Atoi_Itoa: "\<lbrakk>- (2 ^ 63) \<le> n; n < 2 ^ 63\<rbrakk> \<Longrightarrow> Atoi (Itoa n) = Some n"
proof -
  assume n: "- (2 ^ 63) \<le> n" "n < 2 ^ 63"
  have u: "atoi_unsigned (itoa m) = Some (int m)" for m
    using itoa_digits [of m] by (simp add: atoi_unsigned_def dec_value_itoa list_all_iff)
  show ?thesis
  proof (cases "n < 0")
    case True
    with n show ?thesis by (simp add: Atoi_def Itoa_def u)
  next
    case False
    obtain c t where ct: "itoa (nat n) = c # t" by (cases "itoa (nat n)") auto
    have "is_digit c" using itoa_digits [of "nat n"] ct by simp
    then have "c \<noteq> CHR ''-''" "c \<noteq> CHR ''+''" by (auto simp: is_digit_def)
    with False n ct show ?thesis using u [of "nat n"] by (simp add: Atoi_def Itoa_def)
  qed
qed

section \<open>Searching\<close>

text \<open>\<open>strings.Index\<close> with a one-byte pattern.\<close>

fun index_byte :: "char \<Rightarrow> string \<Rightarrow> nat option" where
  "index_byte c [] = None"
| "index_byte c (x # xs) = (if x = c then Some 0 else map_option Suc (index_byte c xs))"

lemma index_byte_None: "index_byte c s = None \<longleftrightarrow> c \<notin> set s"
  by (induction s) auto

lemma index_byte_Some:
  "index_byte c s = Some i \<Longrightarrow> i < length s \<and> s ! i = c \<and> c \<notin> set (take i s)"
  by (induction s arbitrary: i) (auto split: if_splits)

lemma index_byte_append: "c \<notin> set s \<Longrightarrow> index_byte c (s @ c # t) = Some (length s)"
  by (induction s) auto

section \<open>Searching\<close>

text \<open>\<open>strings.LastIndex\<close>.\<close>

fun last_index :: "string \<Rightarrow> string \<Rightarrow> nat option" where
  "last_index sub [] = (if sub = [] then Some 0 else None)"
| "last_index sub (c # s) = (case last_index sub s of
     Some n \<Rightarrow> Some (Suc n)
   | None \<Rightarrow> if prefix sub (c # s) then Some 0 else None)"

lemma last_index_occurs:
  "last_index sub s = Some n \<Longrightarrow> n + length sub \<le> length s \<and> take (length sub) (drop n s) = sub"
proof (induction s arbitrary: n)
  case (Cons c s)
  show ?case
  proof (cases "last_index sub s")
    case None
    then have "prefix sub (c # s)" "n = 0" using Cons.prems by (auto split: if_split_asm)
    then show ?thesis using prefix_length_le [of sub "c # s"] by (auto simp: prefix_def)
  next
    case (Some m)
    then show ?thesis using Cons.IH [OF Some] Cons.prems by auto
  qed
qed (simp split: if_split_asm)

lemma last_index_absent: "a \<notin> set s \<Longrightarrow> last_index (a # sub) s = None"
  by (induction s) (auto simp: prefix_def)

lemma last_index_at:
  assumes "sub \<noteq> []" "last_index sub (tl (sub @ t)) = None"
  shows "last_index sub (s @ sub @ t) = Some (length s)"
proof (induction s)
  case Nil
  show ?case using assms by (cases sub) auto
qed simp

lemma last_index_skip:
  "\<lbrakk>a \<notin> set p; last_index (a # sub) s = None\<rbrakk> \<Longrightarrow> last_index (a # sub) (p @ s) = None"
  by (induction p) (auto simp: prefix_def)

end
