(* ===== verification/Contracts.thy ===== *)
theory Contracts
  imports GoStrings
begin

text \<open>
  The service contracts of \<^verbatim>\<open>translator/contracts.go\<close> and \<^verbatim>\<open>translator/translator.go\<close>: how the messages of an
  OpenAI request become the input variables of a Dify App, and the check that an App accepts
  those variables. A Go \<open>map[string]string\<close> is an association list with distinct keys, in the
  order in which the code creates the keys. The slot layouts of the chat services share the
  interface \<open>slot_layout\<close>, interpreted on the 22-slot and the 403-slot template.
\<close>

section \<open>Messages\<close>

record message =
  m_role :: string
  m_content :: string
  m_images :: "string list"

text \<open>The JSON forms of a message's content that \<open>Message.UnmarshalJSON\<close> accepts: a string, or
  parts with a type, a text and an optional image URL. The JSON decoder itself is a library.\<close>

record content_part =
  cp_type :: string
  cp_text :: string
  cp_image_url :: "string option"

datatype raw_content = RawString string | RawParts "content_part list" | RawOther

fun part_text :: "content_part list \<Rightarrow> string" where
  "part_text [] = []"
| "part_text (p # ps) = (if cp_type p = ''text'' then cp_text p else []) @ part_text ps"

fun part_images :: "content_part list \<Rightarrow> string list" where
  "part_images [] = []"
| "part_images (p # ps) =
    (if cp_type p = ''image_url'' then
       (case cp_image_url p of Some u \<Rightarrow> if u \<noteq> [] then [u] else [] | None \<Rightarrow> [])
     else []) @ part_images ps"

definition UnmarshalMessage :: "string \<Rightarrow> raw_content \<Rightarrow> message option" where
  "UnmarshalMessage role raw = (case raw of
     RawString s \<Rightarrow> Some \<lparr>m_role = role, m_content = s, m_images = []\<rparr>
   | RawParts ps \<Rightarrow> Some \<lparr>m_role = role, m_content = part_text ps, m_images = part_images ps\<rparr>
   | RawOther \<Rightarrow> None)"

type_synonym inputs = "(string \<times> string) list"

definition set_input :: "string \<Rightarrow> string \<Rightarrow> inputs \<Rightarrow> inputs" where
  "set_input k v m = (if k \<in> fst ` set m then update_where (\<lambda>x. fst x = k) (\<lambda>x. (k, v)) m
     else m @ [(k, v)])"

definition get_input :: "inputs \<Rightarrow> string \<Rightarrow> string" where
  "get_input m k = (case map_of m k of None \<Rightarrow> [] | Some v \<Rightarrow> v)"

section \<open>Services\<close>

datatype contract_error =
    ErrUnsupportedService string
  | ErrLayout string
  | ErrEmpty nat string
  | ErrRole nat string
  | ErrTooFewMessages
  | ErrTooManyMessages nat
  | ErrNoSlot nat string
  | ErrRequestUrl
  | ErrNoImage
  | ErrTooManyImages nat

text \<open>\<^verbatim>\<open>sillytavern-SP\<close>, a middle dot, and the Chinese name of the fill-table service, in UTF-8.\<close>

definition svc_fill_table :: string where
  "svc_fill_table = ''sillytavern-SP'' @ [CHR 0xC2, CHR 0xB7, CHR 0xE6, CHR 0x95, CHR 0xB0,
     CHR 0xE6, CHR 0x8D, CHR 0xAE, CHR 0xE5, CHR 0xBA, CHR 0x93] @ ''-'' @
     [CHR 0xE5, CHR 0xA1, CHR 0xAB, CHR 0xE8, CHR 0xA1, CHR 0xA8]"

definition serviceNames :: "string list" where
  "serviceNames = [''general'', ''custom'', ''website-summary'', ''image-processing'',
     ''sillytavern-main-trimmed'', ''sillytavern-main-200'', ''sillytavern-main-v1'', svc_fill_table]"

definition IsSupportedService :: "string \<Rightarrow> bool" where
  "IsSupportedService name \<longleftrightarrow> list_ex (\<lambda>s. s = name) serviceNames"

subsection \<open>Single-turn services\<close>

definition translateGeneral :: "message list \<Rightarrow> (contract_error, inputs) result" where
  "translateGeneral messages = (case messages of
     [m] \<Rightarrow> if m_role m \<noteq> ''user'' then Inl (ErrLayout ''general'')
       else let content = TrimSpace (m_content m) in
         if content = [] then Inl (ErrEmpty 0 ''user_0'') else Inr [(''user_0'', content)]
   | _ \<Rightarrow> Inl (ErrLayout ''general''))"

definition translateCustom :: "message list \<Rightarrow> (contract_error, inputs) result" where
  "translateCustom messages =
    (let inputs = [(''system_prompt'', []), (''user_0'', [])];
         filled = (case messages of
           [m] \<Rightarrow> if m_role m \<noteq> ''user'' then Inl (ErrLayout ''custom'')
             else Inr (set_input ''user_0'' (TrimSpace (m_content m)) inputs)
         | [s, u] \<Rightarrow> if m_role s \<noteq> ''system'' \<or> m_role u \<noteq> ''user'' then Inl (ErrLayout ''custom'')
             else Inr (set_input ''user_0'' (TrimSpace (m_content u))
                    (set_input ''system_prompt'' (TrimSpace (m_content s)) inputs))
         | _ \<Rightarrow> Inl (ErrLayout ''custom''))
     in case filled of Inl e \<Rightarrow> Inl e
        | Inr m \<Rightarrow> if get_input m ''user_0'' = [] then Inl (ErrEmpty 0 ''user_0'') else Inr m)"

definition translateWebsiteSummary :: "message list \<Rightarrow> (contract_error, inputs) result" where
  "translateWebsiteSummary messages =
    (let inputs = [(''request_url'', []), (''request_instruction'', [])];
         filled = (case messages of
           [m] \<Rightarrow> if m_role m \<noteq> ''user'' then Inl (ErrLayout ''website-summary'')
             else Inr (set_input ''request_url'' (TrimSpace (m_content m)) inputs)
         | [s, u] \<Rightarrow> if m_role s \<noteq> ''system'' \<or> m_role u \<noteq> ''user''
             then Inl (ErrLayout ''website-summary'')
             else Inr (set_input ''request_url'' (TrimSpace (m_content u))
                    (set_input ''request_instruction'' (TrimSpace (m_content s)) inputs))
         | _ \<Rightarrow> Inl (ErrLayout ''website-summary''))
     in case filled of Inl e \<Rightarrow> Inl e
        | Inr m \<Rightarrow> let u = get_input m ''request_url'' in
            if u = [] \<or> \<not> (prefix ''http://'' u \<or> prefix ''https://'' u) then Inl ErrRequestUrl
            else Inr m)"

definition translateImageProcessing ::
  "message list \<Rightarrow> (contract_error, inputs \<times> string list) result" where
  "translateImageProcessing messages =
    (let inputs = [(''system_prompt'', []), (''user_request'', [])];
         images = concat (map m_images messages);
         filled = (case messages of
           [m] \<Rightarrow> if m_role m \<noteq> ''user'' then Inl (ErrLayout ''image-processing'')
             else Inr (set_input ''user_request'' (TrimSpace (m_content m)) inputs)
         | [s, u] \<Rightarrow> if m_role s \<noteq> ''system'' \<or> m_role u \<noteq> ''user''
             then Inl (ErrLayout ''image-processing'')
             else Inr (set_input ''user_request'' (TrimSpace (m_content u))
                    (set_input ''system_prompt'' (TrimSpace (m_content s)) inputs))
         | _ \<Rightarrow> Inl (ErrLayout ''image-processing''))
     in case filled of Inl e \<Rightarrow> Inl e
        | Inr m \<Rightarrow>
            if get_input m ''user_request'' = [] then Inl (ErrEmpty 0 ''user_request'')
            else if images = [] then Inl ErrNoImage
            else if 10 < length images then Inl (ErrTooManyImages (length images))
            else Inr (m, images))"

subsection \<open>Fill-table service\<close>

definition fill_table_slots :: "(string \<times> string) list" where
  "fill_table_slots = [(''assistant'', ''assistant_0''), (''user'', ''user_1''),
     (''assistant'', ''assistant_1''), (''user'', ''user_2''), (''assistant'', ''assistant_2''),
     (''user'', ''user_3''), (''assistant'', ''assistant_prefill'')]"

fun fill_table_loop :: "nat \<Rightarrow> (string \<times> string) list \<Rightarrow> message list \<Rightarrow> inputs \<Rightarrow>
    (contract_error, inputs) result" where
  "fill_table_loop j ((role, key) # slots) (m # rest) inputs =
    (if m_role m \<noteq> role then Inl (ErrRole j role)
     else let content = TrimSpace (m_content m) in
       if content = [] then Inl (ErrEmpty j key)
       else fill_table_loop (j + 1) slots rest (set_input key content inputs))"
| "fill_table_loop j slots rest inputs = Inr inputs"

definition boolToInt :: "bool \<Rightarrow> nat" where
  "boolToInt b = (if b then 1 else 0)"

definition translateShujukuFilling :: "message list \<Rightarrow> (contract_error, inputs) result" where
  "translateShujukuFilling messages =
    (let inputs = map (\<lambda>k. (k, [])) [''system_prompt'', ''user_0'', ''assistant_0'', ''user_1'',
           ''assistant_1'', ''user_2'', ''assistant_2'', ''user_3'', ''assistant_prefill'']
     in case messages of
       [] \<Rightarrow> Inl (ErrLayout svc_fill_table)
     | s # rest \<Rightarrow>
        if m_role s \<noteq> ''system'' then Inl (ErrLayout svc_fill_table)
        else let inputs1 = set_input ''system_prompt'' (TrimSpace (m_content s)) inputs in
        if get_input inputs1 ''system_prompt'' = [] then Inl (ErrEmpty 0 ''system_prompt'')
        else (case rest of
          [] \<Rightarrow> Inl (ErrLayout svc_fill_table)
        | r0 # rest1 \<Rightarrow>
           let hasUser0 = (m_role r0 = ''user'');
               inputs2 = (if hasUser0 then set_input ''user_0'' (TrimSpace (m_content r0)) inputs1
                          else inputs1);
               rest2 = (if hasUser0 then rest1 else rest)
           in if length rest2 \<noteq> length fill_table_slots then Inl (ErrLayout svc_fill_table)
              else fill_table_loop (1 + boolToInt hasUser0) fill_table_slots rest2 inputs2))"

subsection \<open>Slot layouts\<close>

definition slotNames :: "string list" where
  "slotNames = [''system_prompt'', ''user_0'',
     ''assistant_1'', ''user_1'', ''assistant_2'', ''user_2'', ''assistant_3'', ''user_3'',
     ''assistant_4'', ''user_4'', ''assistant_5'', ''user_5'', ''assistant_6'', ''user_6'',
     ''assistant_7'', ''user_7'', ''assistant_8'', ''user_8'', ''assistant_9'', ''user_9'',
     ''assistant_10'', ''user_10'']"

definition slotRole :: "string \<Rightarrow> string" where
  "slotRole name = (if name = ''system_prompt'' then ''system''
     else if prefix ''user_'' name then ''user'' else ''assistant'')"

definition pair_names :: "nat \<Rightarrow> string list" where
  "pair_names i = [''assistant_'' @ itoa i, ''user_'' @ itoa i]"

definition generateSlotNames200 :: "string list" where
  "generateSlotNames200 = [''system_prompt'', ''user_0''] @
     concat (map pair_names [1..<201]) @ [''assistant_prefill'']"

definition slotNames200 :: "string list" where
  "slotNames200 = generateSlotNames200"

text \<open>The inner loop: advance to the next slot whose role is the message's.\<close>

function next_slot :: "string list \<Rightarrow> string \<Rightarrow> nat \<Rightarrow> nat" where
  "next_slot names role idx =
    (if idx < length names \<and> slotRole (names ! idx) \<noteq> role then next_slot names role (idx + 1)
     else idx)"
  by pat_completeness auto
termination by (relation "measure (\<lambda>(names, role, idx). length names - idx)") auto

declare next_slot.simps [simp del]

fun fill_slots :: "string list \<Rightarrow> message list \<Rightarrow> nat \<Rightarrow> nat \<Rightarrow> inputs \<Rightarrow>
    (contract_error, inputs) result" where
  "fill_slots names [] mi idx inputs = Inr inputs"
| "fill_slots names (m # rest) mi idx inputs =
    (let i = next_slot names (m_role m) idx in
     if length names \<le> i then Inl (ErrNoSlot mi (m_role m))
     else fill_slots names rest (mi + 1) (i + 1)
            (set_input (names ! i) (TrimSpace (m_content m)) inputs))"

text \<open>\<open>TranslateToSlots\<close> and \<open>TranslateToSlots200\<close> are the same code on two layouts.\<close>

definition translate_to_slots :: "string list \<Rightarrow> message list \<Rightarrow> (contract_error, inputs) result" where
  "translate_to_slots names messages = (case messages of
     [] \<Rightarrow> Inl ErrTooFewMessages
   | m # rest \<Rightarrow>
      if length names < length messages then Inl (ErrTooManyMessages (length messages))
      else
        let inputs = map (\<lambda>name. (name, [])) names in
        if m_role m = ''system''
        then fill_slots names rest 1 1 (set_input ''system_prompt'' (TrimSpace (m_content m)) inputs)
        else fill_slots names messages 0 0 inputs)"

definition TranslateToSlots :: "message list \<Rightarrow> (contract_error, inputs) result" where
  "TranslateToSlots messages = translate_to_slots slotNames messages"

definition TranslateToSlots200 :: "message list \<Rightarrow> (contract_error, inputs) result" where
  "TranslateToSlots200 messages = translate_to_slots slotNames200 messages"

subsection \<open>Dispatch\<close>

definition no_images :: "(contract_error, inputs) result \<Rightarrow> (contract_error, inputs \<times> string list) result" where
  "no_images r = map_sum id (\<lambda>m. (m, [])) r"

definition TranslateForService ::
  "string \<Rightarrow> message list \<Rightarrow> (contract_error, inputs \<times> string list) result" where
  "TranslateForService service messages =
    (if service = ''general'' then no_images (translateGeneral messages)
     else if service = ''custom'' then no_images (translateCustom messages)
     else if service = ''website-summary'' then no_images (translateWebsiteSummary messages)
     else if service = ''image-processing'' then translateImageProcessing messages
     else if service = ''sillytavern-main-trimmed'' then no_images (TranslateToSlots messages)
     else if service = ''sillytavern-main-200'' then no_images (TranslateToSlots200 messages)
     else if service = ''sillytavern-main-v1'' then no_images (TranslateToSlots200 messages)
     else if service = svc_fill_table then no_images (translateShujukuFilling messages)
     else Inl (ErrUnsupportedService service))"

section \<open>Model names\<close>

definition ServiceOfModel :: "string \<Rightarrow> string" where
  "ServiceOfModel model =
    (if prefix ''['' model then
       (case index_byte (CHR '']'') model of
          Some idx \<Rightarrow> if 1 < idx then take (idx - 1) (drop 1 model) else []
        | None \<Rightarrow> [])
     else [])"

section \<open>Contract variables and the App check\<close>

record contract_vars =
  cv_required :: "string list"
  cv_optional :: "string list"

definition ContractVarsFor :: "string \<Rightarrow> contract_vars" where
  "ContractVarsFor service =
    (if service = ''general'' then \<lparr>cv_required = [''user_0''], cv_optional = []\<rparr>
     else if service = ''website-summary'' then
       \<lparr>cv_required = [''request_url''], cv_optional = [''request_instruction'']\<rparr>
     else if service = ''image-processing'' then
       \<lparr>cv_required = [''user_request'', ''input_image_list''], cv_optional = [''system_prompt'']\<rparr>
     else if service = ''sillytavern-main-trimmed'' then
       \<lparr>cv_required = [], cv_optional = [''system_prompt'', ''user_0'',
          ''assistant_1'', ''user_1'', ''assistant_2'', ''user_2'',
          ''assistant_3'', ''user_3'', ''assistant_4'', ''user_4'',
          ''assistant_5'', ''user_5'', ''assistant_6'', ''user_6'',
          ''assistant_7'', ''user_7'', ''assistant_8'', ''user_8'',
          ''assistant_9'', ''user_9'', ''assistant_10'', ''user_10'']\<rparr>
     else if service = ''sillytavern-main-200'' then \<lparr>cv_required = [], cv_optional = slotNames200\<rparr>
     else if service = ''sillytavern-main-v1'' then \<lparr>cv_required = [], cv_optional = slotNames200\<rparr>
     else if service = svc_fill_table then
       \<lparr>cv_required = [''system_prompt'', ''assistant_0'', ''user_1'', ''assistant_1'', ''user_2'',
          ''assistant_2'', ''user_3'', ''assistant_prefill''], cv_optional = [''user_0'']\<rparr>
     else \<lparr>cv_required = [''user_0''], cv_optional = [''system_prompt'']\<rparr>)"

record app_param_check =
  pc_compatible :: bool
  pc_missing :: "string list"
  pc_uncovered :: "string list"
  pc_extra :: "string list"

text \<open>\<open>appParams\<close> is a Go map from a variable to whether the App requires it; it is walked in some
  order, the list's.\<close>

definition CheckAppParams :: "string \<Rightarrow> (string \<times> bool) list \<Rightarrow> app_param_check" where
  "CheckAppParams service appParams =
    (let cv = ContractVarsFor service;
         covered = (\<lambda>v. v \<in> set (cv_required cv) \<or> v \<in> set (cv_optional cv));
         missing = filter (\<lambda>v. map_of appParams v = None) (cv_required cv);
         uncovered = map fst (filter (\<lambda>x. \<not> covered (fst x) \<and> snd x) appParams);
         extra = map fst (filter (\<lambda>x. \<not> covered (fst x) \<and> \<not> snd x) appParams)
     in \<lparr>pc_compatible = (missing = [] \<and> uncovered = []), pc_missing = missing,
         pc_uncovered = uncovered, pc_extra = extra\<rparr>)"

section \<open>Slot layouts: the interface\<close>

lemma next_slot_fixed:
  "\<not> (idx < length names \<and> slotRole (names ! idx) \<noteq> role) \<Longrightarrow> next_slot names role idx = idx"
  by (subst next_slot.simps) auto

lemma next_slot_step:
  "idx < length names \<and> slotRole (names ! idx) \<noteq> role \<Longrightarrow>
   next_slot names role idx = next_slot names role (idx + 1)"
  by (subst next_slot.simps) auto

text \<open>The loop stops at the first slot of the role, or behind the last slot.\<close>

lemma next_slot_props:
  "idx \<le> length names \<Longrightarrow>
   idx \<le> next_slot names role idx \<and> next_slot names role idx \<le> length names \<and>
   (\<forall>k. idx \<le> k \<and> k < next_slot names role idx \<longrightarrow> slotRole (names ! k) \<noteq> role) \<and>
   (next_slot names role idx < length names \<longrightarrow>
      slotRole (names ! next_slot names role idx) = role)"
proof (induction names role idx rule: next_slot.induct)
  case (1 names role idx)
  show ?case
  proof (cases "idx < length names \<and> slotRole (names ! idx) \<noteq> role")
    case True
    then have step: "next_slot names role idx = next_slot names role (idx + 1)"
      by (rule next_slot_step)
    have IH: "idx + 1 \<le> next_slot names role (idx + 1) \<and>
        next_slot names role (idx + 1) \<le> length names \<and>
        (\<forall>k. idx + 1 \<le> k \<and> k < next_slot names role (idx + 1) \<longrightarrow> slotRole (names ! k) \<noteq> role) \<and>
        (next_slot names role (idx + 1) < length names \<longrightarrow>
          slotRole (names ! next_slot names role (idx + 1)) = role)"
      using 1(1) [OF True] True by simp
    have "slotRole (names ! k) \<noteq> role" if "idx \<le> k" "k < next_slot names role (idx + 1)" for k
      using IH True that by (cases "k = idx") auto
    with IH show ?thesis unfolding step by auto
  next
    case False
    with 1(2) show ?thesis by (auto simp: next_slot_fixed)
  qed
qed

lemma subseq_Cons_absent: "x \<notin> set ys \<Longrightarrow> \<not> subseq (x # xs) ys"
  by (induction ys) auto

lemma subseq_Cons_first: "x \<notin> set us \<Longrightarrow> subseq (x # xs) (us @ x # vs) = subseq xs vs"
  by (induction us) auto

lemma drop_split: "\<lbrakk>idx \<le> i; i < length names\<rbrakk> \<Longrightarrow>
    drop idx names = take (i - idx) (drop idx names) @ names ! i # drop (i + 1) names"
  by (metis Cons_nth_drop_Suc Suc_eq_plus1 append_take_drop_id drop_drop le_add_diff_inverse2)

lemma next_slot_absent:
  assumes "idx \<le> i" "\<forall>k. idx \<le> k \<and> k < i \<longrightarrow> slotRole (names ! k) \<noteq> role" "i \<le> length names"
  shows "role \<notin> slotRole ` set (take (i - idx) (drop idx names))"
proof -
  have "slotRole x \<noteq> role" if "x \<in> set (take (i - idx) (drop idx names))" for x
  proof -
    from that obtain k where "k < i - idx" "x = names ! (idx + k)"
      using assms(1,3) by (auto simp: in_set_conv_nth)
    then show ?thesis using assms(2) by simp
  qed
  then show ?thesis by blast
qed

lemma set_input_nth:
  assumes "map fst m = names" "distinct names" "i < length names"
  shows "set_input (names ! i) v m = m[i := (names ! i, v)]"
proof (rule nth_equalityI)
  have len: "length m = length names" using assms(1) by (metis length_map)
  have key: "fst (m ! k) = names ! k" if "k < length names" for k
    using assms(1) len that by (metis nth_map)
  have "names ! i \<in> fst ` set m" using assms(1,3) by (metis list.set_map nth_mem)
  then have upd: "set_input (names ! i) v m =
      map (\<lambda>x. if fst x = names ! i then (names ! i, v) else x) m"
    by (simp add: set_input_def update_where_def)
  then show "length (set_input (names ! i) v m) = length (m[i := (names ! i, v)])" by simp
  fix k assume "k < length (set_input (names ! i) v m)"
  then have "k < length names" using upd len by simp
  then show "set_input (names ! i) v m ! k = m[i := (names ! i, v)] ! k"
    using upd len key assms(2,3) by (auto simp: nth_list_update nth_eq_iff_index_eq)
qed

definition rendered :: "inputs \<Rightarrow> (string \<times> string) list" where
  "rendered m = filter (\<lambda>p. snd p \<noteq> []) (map (\<lambda>(k, v). (slotRole k, v)) m)"

definition spoken :: "message list \<Rightarrow> (string \<times> string) list" where
  "spoken ms = filter (\<lambda>p. snd p \<noteq> []) (map (\<lambda>m. (m_role m, TrimSpace (m_content m))) ms)"

lemma rendered_append [simp]: "rendered (a @ b) = rendered a @ rendered b"
  by (simp add: rendered_def)

lemma rendered_empty: "(\<And>x. x \<in> set m \<Longrightarrow> snd x = []) \<Longrightarrow> rendered m = []"
  by (auto simp: rendered_def filter_empty_conv)

lemma fill_slots_accepts:
  "idx \<le> length names \<Longrightarrow>
   (\<exists>m. fill_slots names ms mi idx inputs = Inr m) \<longleftrightarrow>
   subseq (map m_role ms) (map slotRole (drop idx names))"
proof (induction ms arbitrary: mi idx inputs)
  case (Cons m ms)
  define i where "i = next_slot names (m_role m) idx"
  note props = next_slot_props [OF Cons.prems, of "m_role m", folded i_def]
  show ?case
  proof (cases "i < length names")
    case True
    have "map slotRole (drop idx names) = map slotRole (take (i - idx) (drop idx names)) @
        m_role m # map slotRole (drop (i + 1) names)"
      using drop_split [of idx i names] props True by (metis list.simps(9) map_append)
    moreover have "m_role m \<notin> set (map slotRole (take (i - idx) (drop idx names)))"
      using next_slot_absent [of idx i names "m_role m"] props by simp
    ultimately have "subseq (map m_role (m # ms)) (map slotRole (drop idx names)) =
        subseq (map m_role ms) (map slotRole (drop (i + 1) names))"
      by (simp add: subseq_Cons_first)
    then show ?thesis
      using True Cons.IH [of "i + 1"] by (simp add: i_def [symmetric] Let_def)
  next
    case False
    then have "i = length names" using props by simp
    then have "m_role m \<notin> set (map slotRole (drop idx names))"
      using next_slot_absent [of idx i names "m_role m"] props by simp
    then have "\<not> subseq (m_role m # map m_role ms) (map slotRole (drop idx names))"
      by (rule subseq_Cons_absent)
    then show ?thesis using False by (simp add: i_def [symmetric] Let_def)
  qed
qed simp

lemma fill_slots_renders:
  "\<lbrakk>fill_slots names ms mi idx inputs = Inr m; map fst inputs = names; distinct names;
    idx \<le> length names; \<And>x. x \<in> set (drop idx inputs) \<Longrightarrow> snd x = []\<rbrakk> \<Longrightarrow>
   map fst m = names \<and> take idx m = take idx inputs \<and> rendered (drop idx m) = spoken ms"
proof (induction ms arbitrary: mi idx inputs)
  case Nil
  then show ?case by (simp add: rendered_empty spoken_def)
next
  case (Cons a ms)
  define i where "i = next_slot names (m_role a) idx"
  define v where "v = TrimSpace (m_content a)"
  note props = next_slot_props [OF Cons.prems(4), of "m_role a", folded i_def]
  have i: "i < length names" and
    rec: "fill_slots names ms (mi + 1) (i + 1) (inputs[i := (names ! i, v)]) = Inr m"
    using Cons.prems(1) set_input_nth [OF Cons.prems(2,3)]
    by (auto simp: Let_def i_def [symmetric] v_def split: if_splits)
  have len: "length inputs = length names" using Cons.prems(2) by (metis length_map)
  have keys: "map fst (inputs[i := (names ! i, v)]) = names"
    using Cons.prems(2) i by (simp add: map_update list_update_id)
  have "snd x = []" if "x \<in> set (drop (i + 1) (inputs[i := (names ! i, v)]))" for x
    using that Cons.prems(5) [of x] props
      set_drop_subset_set_drop [of idx "i + 1" inputs] by auto
  with Cons.IH [OF rec keys Cons.prems(3)] i have
    IH: "map fst m = names" "take (i + 1) m = take (i + 1) (inputs[i := (names ! i, v)])"
      "rendered (drop (i + 1) m) = spoken ms" by auto
  have take_idx: "take idx m = take idx inputs"
    using arg_cong [OF IH(2), of "take idx"] props by (simp add: min_def)
  have split: "drop idx m = drop idx (take (i + 1) m) @ drop (i + 1) m"
    using props by (metis append_take_drop_id drop_append diff_is_0_eq drop0 le_SucI Suc_eq_plus1
        IH(1) i length_map length_take min.absorb2 Suc_leI)
  have "drop idx (take (i + 1) (inputs[i := (names ! i, v)])) =
      drop idx (take i inputs) @ [(names ! i, v)]"
    using props i len by (simp add: take_Suc_conv_app_nth)
  moreover have "rendered (drop idx (take i inputs)) = []"
    using Cons.prems(5) by (intro rendered_empty) (metis drop_take in_set_takeD)
  moreover have "rendered [(names ! i, v)] = spoken [a]"
    using props i by (simp add: rendered_def spoken_def v_def)
  moreover have "spoken (a # ms) = spoken [a] @ spoken ms" by (simp add: spoken_def)
  ultimately have "rendered (drop idx m) = spoken (a # ms)"
    using split IH(2,3) by (metis append_Nil rendered_append)
  with IH(1) take_idx show ?case by simp
qed

locale slot_layout =
  fixes names :: "string list"
  assumes first: "names \<noteq> []" "names ! 0 = ''system_prompt''"
    and unique: "distinct names"
    and one_system: "\<And>i. \<lbrakk>0 < i; i < length names\<rbrakk> \<Longrightarrow> slotRole (names ! i) \<noteq> ''system''"
begin

lemma accepts:
  "(\<exists>m. translate_to_slots names ms = Inr m) \<longleftrightarrow>
   ms \<noteq> [] \<and> subseq (map m_role ms) (map slotRole names)"
proof (cases ms)
  case Nil
  then show ?thesis by (simp add: translate_to_slots_def)
next
  case (Cons m rest)
  have too_long: "\<not> subseq (map m_role ms) (map slotRole names)" if "length names < length ms"
    using that list_emb_length by fastforce
  have names: "names = ''system_prompt'' # drop 1 names"
    using first by (cases names) auto
  have "subseq (map m_role ms) (map slotRole names) =
      subseq (map m_role rest) (map slotRole (drop 1 names))" if "m_role m = ''system''"
    using that Cons by (subst names) (simp add: slotRole_def)
  then show ?thesis
    using Cons too_long fill_slots_accepts [of 1 names rest] fill_slots_accepts [of 0 names ms] first
    by (auto simp: translate_to_slots_def Let_def Suc_le_eq)
qed

lemma renders:
  assumes "translate_to_slots names ms = Inr m"
  shows "map fst m = names \<and> rendered m = spoken ms"
proof -
  obtain a rest where ms: "ms = a # rest" using assms by (cases ms) (auto simp: translate_to_slots_def)
  let ?empty = "map (\<lambda>name. (name, [])) names :: inputs"
  have keys: "map fst ?empty = names" by (simp add: comp_def)
  show ?thesis
  proof (cases "m_role a = ''system''")
    case True
    define v where "v = TrimSpace (m_content a)"
    have "0 < length names" using first by simp
    then have set0: "set_input ''system_prompt'' v ?empty = ?empty[0 := (''system_prompt'', v)]"
      using set_input_nth [OF keys unique, of 0 v] first by simp
    have call: "fill_slots names rest 1 1 (?empty[0 := (''system_prompt'', v)]) = Inr m"
      using assms True ms set0 by (auto simp: translate_to_slots_def Let_def v_def split: if_splits)
    have *: "map fst m = names \<and> take 1 m = take 1 (?empty[0 := (''system_prompt'', v)]) \<and>
        rendered (drop 1 m) = spoken rest"
      by (rule fill_slots_renders [OF call])
        (use first unique keys in \<open>auto simp: map_update comp_def list_update_same_conv Suc_le_eq
          dest: in_set_dropD\<close>)
    moreover have "take 1 (?empty[0 := (''system_prompt'', v)]) = [(''system_prompt'', v)]"
      using first by (cases names) auto
    moreover have "rendered m = rendered (take 1 m) @ rendered (drop 1 m)"
      by (metis append_take_drop_id rendered_append)
    ultimately show ?thesis using True ms by (simp add: rendered_def spoken_def v_def slotRole_def)
  next
    case False
    then have call: "fill_slots names ms 0 0 ?empty = Inr m"
      using assms ms by (auto simp: translate_to_slots_def Let_def split: if_splits)
    have "snd x = []" if "x \<in> set (drop 0 ?empty)" for x using that by auto
    from fill_slots_renders [OF call keys unique _ this] show ?thesis by simp
  qed
qed

end

subsection \<open>The two templates\<close>

lemma prefill_not_number: "itoa i \<noteq> ''prefill''"
proof
  assume "itoa i = ''prefill''"
  then have "is_digit (CHR ''p'')" using itoa_digits [of i] by simp
  then show False by (simp add: is_digit_def)
qed

lemma itoa_zero: "itoa i = ''0'' \<Longrightarrow> i = 0"
  using dec_value_itoa [of i] by (simp add: dec_value_def)

lemma pair_names_distinct: "distinct (concat (map pair_names [m..<n]))"
proof (induction n)
  case (Suc n)
  show ?case
  proof (cases "m \<le> n")
    case True
    have "set (concat (map pair_names [m..<n])) \<inter> set (pair_names n) = {}"
      by (auto simp: pair_names_def)
    with True Suc show ?thesis by (simp add: pair_names_def [of n])
  qed simp
qed simp

lemma slotNames200_eq:
  "slotNames200 = ''system_prompt'' # ''user_0'' # concat (map pair_names [1..<201]) @
     [''assistant_prefill'']"
  unfolding slotNames200_def generateSlotNames200_def by simp

lemma length_slotNames200: "length slotNames200 = 403"
proof -
  have "length (concat (map pair_names [1..<n])) = 2 * (n - 1)" for n
    by (induction n) (auto simp: pair_names_def)
  then show ?thesis unfolding slotNames200_eq by simp
qed

lemma in_pair_names:
  assumes "x \<in> set (concat (map pair_names [1..<n]))"
  obtains i where "0 < i" "x = ''assistant_'' @ itoa i" | i where "0 < i" "x = ''user_'' @ itoa i"
  using assms by (auto simp: pair_names_def)

lemma slotNames200_distinct: "distinct slotNames200"
proof -
  let ?pairs = "concat (map pair_names [1..<201])"
  have "''user_0'' \<notin> set ?pairs"
  proof
    assume "''user_0'' \<in> set ?pairs"
    then show False by (rule in_pair_names) (auto dest: itoa_zero [OF sym])
  qed
  moreover have "''system_prompt'' \<notin> set ?pairs"
  proof
    assume "''system_prompt'' \<in> set ?pairs"
    then show False by (rule in_pair_names) auto
  qed
  moreover have "''assistant_prefill'' \<notin> set ?pairs"
  proof
    assume "''assistant_prefill'' \<in> set ?pairs"
    then show False by (rule in_pair_names) (auto simp: prefill_not_number [symmetric])
  qed
  ultimately show ?thesis
    unfolding slotNames200_eq distinct.simps distinct_append using pair_names_distinct by simp
qed

lemma nth_in_tl: "\<lbrakk>0 < i; i < length xs\<rbrakk> \<Longrightarrow> xs ! i \<in> set (tl xs)"
  by (cases xs; cases i) auto

lemma slotRole_pair:
  "slotRole (''assistant_'' @ s) = ''assistant''" "slotRole (''user_'' @ s) = ''user''"
  by (simp_all add: slotRole_def)

lemma slotNames200_roles:
  assumes "x \<in> set (tl slotNames200)"
  shows "slotRole x \<noteq> ''system''"
proof -
  have "x = ''user_0'' \<or> x = ''assistant_prefill'' \<or> x \<in> set (concat (map pair_names [1..<201]))"
    using assms unfolding slotNames200_eq list.sel set_append list.set by blast
  then show ?thesis
  proof (elim disjE)
    assume "x \<in> set (concat (map pair_names [1..<201]))"
    then show ?thesis
      by (rule in_pair_names) (use slotRole_pair in \<open>simp_all only:\<close>, simp_all)
  qed (simp_all add: slotRole_def)
qed

interpretation trimmed: slot_layout slotNames
proof
  show "slotRole (slotNames ! i) \<noteq> ''system''" if "0 < i" "i < length slotNames" for i
    using nth_in_tl [OF that] by (auto simp: slotNames_def slotRole_def)
qed (simp_all add: slotNames_def)

interpretation pairs200: slot_layout slotNames200
proof
  show "slotRole (slotNames200 ! i) \<noteq> ''system''" if "0 < i" "i < length slotNames200" for i
    by (rule slotNames200_roles [OF nth_in_tl [OF that]])
  show "distinct slotNames200" by (rule slotNames200_distinct)
  show "slotNames200 \<noteq> []" "slotNames200 ! 0 = ''system_prompt''"
    unfolding slotNames200_eq by simp_all
qed

section \<open>Every service against its contract\<close>

definition trimmed_values :: "inputs \<Rightarrow> bool" where
  "trimmed_values m \<longleftrightarrow> list_all (\<lambda>x. TrimSpace (snd x) = snd x) m"

text \<open>What a translation must deliver for the variables the contract declares. The image list is
  sent as files, not as a text input.\<close>

definition meets_contract :: "string \<Rightarrow> inputs \<Rightarrow> string list \<Rightarrow> bool" where
  "meets_contract service m images \<longleftrightarrow>
     (let cv = ContractVarsFor service in
      set (map fst m) = (set (cv_required cv) \<union> set (cv_optional cv)) - {''input_image_list''} \<and>
      list_all (\<lambda>v. v = ''input_image_list'' \<or> get_input m v \<noteq> []) (cv_required cv) \<and>
      (if ''input_image_list'' \<in> set (cv_required cv) then images \<noteq> [] \<and> length images \<le> 10
       else images = []) \<and>
      trimmed_values m)"

lemma trimmed_set_input:
  "trimmed_values m \<Longrightarrow> trimmed_values (set_input k (TrimSpace v) m)"
  by (auto simp: trimmed_values_def set_input_def list_all_iff set_update_where)

lemma trimmed_fill_slots:
  "\<lbrakk>fill_slots names ms mi idx inputs = Inr m; trimmed_values inputs\<rbrakk> \<Longrightarrow> trimmed_values m"
  by (induction ms arbitrary: mi idx inputs)
    (auto simp: Let_def trimmed_set_input split: if_splits)

lemma trimmed_to_slots:
  assumes "translate_to_slots names ms = Inr m"
  shows "trimmed_values m"
proof -
  have e: "trimmed_values (map (\<lambda>name. (name, [])) names)"
    by (simp add: trimmed_values_def list_all_iff)
  then show ?thesis
    using assms trimmed_set_input [OF e]
    by (auto simp: translate_to_slots_def Let_def intro: trimmed_fill_slots
        split: list.splits if_splits)
qed

lemma general_contract:
  "translateGeneral ms = Inr m \<Longrightarrow> meets_contract ''general'' m []"
  by (auto simp: translateGeneral_def meets_contract_def ContractVarsFor_def Let_def get_input_def
      trimmed_values_def split: list.splits if_splits)

lemma custom_contract:
  "translateCustom ms = Inr m \<Longrightarrow> meets_contract ''custom'' m []"
  by (auto simp: translateCustom_def meets_contract_def ContractVarsFor_def Let_def get_input_def
      trimmed_values_def set_input_def update_where_def svc_fill_table_def
      split: list.splits if_splits)

lemma website_contract:
  "translateWebsiteSummary ms = Inr m \<Longrightarrow> meets_contract ''website-summary'' m []"
  by (auto simp: translateWebsiteSummary_def meets_contract_def ContractVarsFor_def Let_def
      get_input_def trimmed_values_def set_input_def update_where_def split: list.splits if_splits)

lemma image_contract:
  "translateImageProcessing ms = Inr (m, images) \<Longrightarrow> meets_contract ''image-processing'' m images"
  by (auto simp: translateImageProcessing_def meets_contract_def ContractVarsFor_def Let_def
      get_input_def trimmed_values_def set_input_def update_where_def
      split: list.splits if_splits)

lemma no_image_slot: "''input_image_list'' \<notin> set slotNames200"
proof
  assume "''input_image_list'' \<in> set slotNames200"
  then have "''input_image_list'' \<in> set (concat (map pair_names [1..<201]))"
    unfolding slotNames200_eq by auto
  then show False by (rule in_pair_names) auto
qed

lemma image_list_not_optional: "''input_image_list'' \<notin> set (cv_optional (ContractVarsFor service))"
  using no_image_slot by (simp add: ContractVarsFor_def)

lemma slots_contract:
  assumes "service = ''sillytavern-main-trimmed'' \<and> TranslateToSlots ms = Inr m \<or>
    (service = ''sillytavern-main-200'' \<or> service = ''sillytavern-main-v1'') \<and>
      TranslateToSlots200 ms = Inr m"
  shows "meets_contract service m []"
proof -
  note no_image_slot
  moreover have "''input_image_list'' \<notin> set slotNames" by (simp add: slotNames_def)
  moreover have "map fst m = (if service = ''sillytavern-main-trimmed'' then slotNames else slotNames200)"
    using assms trimmed.renders pairs200.renders
    by (auto simp: TranslateToSlots_def TranslateToSlots200_def)
  moreover have "trimmed_values m"
    using assms trimmed_to_slots by (auto simp: TranslateToSlots_def TranslateToSlots200_def)
  moreover have "cv_required (ContractVarsFor service) = []"
    "cv_optional (ContractVarsFor service) =
      (if service = ''sillytavern-main-trimmed'' then slotNames else slotNames200)"
    using assms by (auto simp: ContractVarsFor_def slotNames_def svc_fill_table_def)
  ultimately show ?thesis by (simp add: meets_contract_def Let_def flip: set_map)
qed

lemma fill_table_contract:
  "translateShujukuFilling ms = Inr m \<Longrightarrow> meets_contract svc_fill_table m []"
  apply (auto simp: translateShujukuFilling_def Let_def fill_table_slots_def length_Suc_conv
      split: list.splits if_splits)
  apply (auto simp: meets_contract_def ContractVarsFor_def Let_def
      get_input_def trimmed_values_def set_input_def update_where_def svc_fill_table_def)
  done

lemma translation_contract:
  assumes "TranslateForService service ms = Inr (m, images)"
  shows "meets_contract service m images"
  using assms general_contract custom_contract website_contract image_contract
    slots_contract [of service ms m] fill_table_contract
  by (auto simp: TranslateForService_def no_images_def map_sum_def split: if_splits sum.splits)

section \<open>Properties\<close>

text \<open>C14: Slot translation is faithful. If a conversation is accepted by the 22-slot or the
  403-slot template, every template variable is set, and reading the non-empty variables in
  template order gives the non-empty messages of the conversation: same roles, same trimmed
  texts, same order, nothing dropped or invented.\<close>

theorem slot_translation_faithful:
  "(case TranslateToSlots ms of Inl e \<Rightarrow> True
    | Inr m \<Rightarrow> map fst m = slotNames \<and> rendered m = spoken ms) \<and>
   (case TranslateToSlots200 ms of Inl e \<Rightarrow> True
    | Inr m \<Rightarrow> map fst m = slotNames200 \<and> rendered m = spoken ms)"
  using trimmed.renders pairs200.renders
  by (auto simp: TranslateToSlots_def TranslateToSlots200_def split: sum.splits)

text \<open>Slot translation is complete. The greedy scan accepts a conversation exactly when it is
  not empty and its roles can be placed, in order, on slots of those roles at all; no other
  assignment of messages to slots would accept more.\<close>

theorem slot_translation_complete:
  "((\<exists>m. TranslateToSlots ms = Inr m) \<longleftrightarrow>
      ms \<noteq> [] \<and> subseq (map m_role ms) (map slotRole slotNames)) \<and>
   ((\<exists>m. TranslateToSlots200 ms = Inr m) \<longleftrightarrow>
      ms \<noteq> [] \<and> subseq (map m_role ms) (map slotRole slotNames200))"
  unfolding TranslateToSlots_def TranslateToSlots200_def
  using trimmed.accepts pairs200.accepts by blast

text \<open>C15: Translations meet the declared contract. For every service, a successful translation
  sets exactly the text variables that \<open>ContractVarsFor\<close> declares for it (the set that a user's App
  was checked against when it was bound), none of the required ones empty, all values trimmed;
  images are delivered exactly for the service that requires them, one to ten of them.\<close>

theorem translation_meets_contract:
  assumes "TranslateForService service ms = Inr (m, images)"
  shows "meets_contract service m images"
  by (rule translation_contract [OF assms])

theorem translation_meets_contract_witness:
  "meets_contract ''custom'' [(''system_prompt'', ''S''), (''user_0'', ''hi'')] []"
  by (rule translation_meets_contract [of _ "[\<lparr>m_role = ''system'', m_content = ''S'', m_images = []\<rparr>,
        \<lparr>m_role = ''user'', m_content = '' hi'', m_images = []\<rparr>]"])
    code_simp

text \<open>The binding check is sound. If \<open>CheckAppParams\<close> finds an App compatible with a service,
  then every request that translates for this service sends every variable the App requires,
  and the App knows every variable the contract requires; and the check is exact: it says
  compatible just when these two inclusions hold.\<close>

theorem binding_check_sound:
  assumes "distinct (map fst app)"
  shows "(pc_compatible (CheckAppParams service app) \<longleftrightarrow>
      set (cv_required (ContractVarsFor service)) \<subseteq> set (map fst app) \<and>
      {v. (v, True) \<in> set app} \<subseteq>
        set (cv_required (ContractVarsFor service)) \<union> set (cv_optional (ContractVarsFor service))) \<and>
    (pc_compatible (CheckAppParams service app) \<longrightarrow>
      (\<forall>ms m images. TranslateForService service ms = Inr (m, images) \<longrightarrow>
        {v. (v, True) \<in> set app} \<subseteq>
          set (map fst m) \<union> (if images = [] then {} else {''input_image_list''})))"
    (is "?exact \<and> ?sound")
proof
  let ?cv = "ContractVarsFor service"
  have missing: "filter (\<lambda>v. map_of app v = None) (cv_required ?cv) = [] \<longleftrightarrow>
      set (cv_required ?cv) \<subseteq> set (map fst app)"
    by (auto simp: filter_empty_conv map_of_eq_None_iff image_iff)
  have "map fst (filter (\<lambda>x. \<not> (fst x \<in> set (cv_required ?cv) \<or> fst x \<in> set (cv_optional ?cv)) \<and> snd x)
      app) = [] \<longleftrightarrow> {v. (v, True) \<in> set app} \<subseteq> set (cv_required ?cv) \<union> set (cv_optional ?cv)"
    by (auto simp: filter_empty_conv)
  with missing show exact: ?exact
    by (simp add: CheckAppParams_def Let_def)
  show ?sound
  proof (intro impI allI)
    fix ms m images
    assume ok: "pc_compatible (CheckAppParams service app)"
      and t: "TranslateForService service ms = Inr (m, images)"
    have "set (map fst m) = (set (cv_required ?cv) \<union> set (cv_optional ?cv)) - {''input_image_list''}"
      "''input_image_list'' \<in> set (cv_required ?cv) \<Longrightarrow> images \<noteq> []"
      using translation_contract [OF t] by (auto simp: meets_contract_def Let_def split: if_splits)
    then show "{v. (v, True) \<in> set app} \<subseteq>
        set (map fst m) \<union> (if images = [] then {} else {''input_image_list''})"
      using exact ok image_list_not_optional [of service] by auto
  qed
qed

theorem binding_check_sound_witness:
  "pc_compatible (CheckAppParams ''general'' [(''user_0'', True), (''lang'', False)])"
  using binding_check_sound [of "[(''user_0'', True), (''lang'', False)]" "''general''"]
  by (auto simp: ContractVarsFor_def)

end
