(* ===== verification/Limiters.thy ===== *)
theory Limiters
  imports Prelude "HOL-Library.Sublist"
begin

text \<open>
  The in-memory limiters of \<^verbatim>\<open>handler/\<close>: the per-user probe limiter, the per-donation lease, the
  three-class RPM counters, the per-IP throttle and the login throttle. Each method runs under
  one mutex and is an atomic function on the limiter's state; the clock is an argument. Go's
  \<open>time.Time\<close> is an \<open>int\<close> in nanoseconds, \<open>Unix()\<close> its floor in seconds. The probe limiter and
  the donation lease share the interface \<open>sliding_window\<close>.
\<close>

definition second :: int where
  "second = 1000000000"

definition unix :: "int \<Rightarrow> int" where
  "unix t = t div second"

lemma unix_mono: "s \<le> t \<Longrightarrow> unix s \<le> unix t"
  by (simp add: unix_def second_def zdiv_mono1)

section \<open>The sliding-window interface\<close>

text \<open>A run of a limiter together with the log of what it granted for one key: \<open>step\<close> returns the
  granted item, \<open>withdraw\<close> says which earlier items an operation gives back.\<close>

fun limiter_run ::
  "('o \<Rightarrow> 's \<Rightarrow> 's \<times> 'e option) \<Rightarrow> ('o \<Rightarrow> 'e \<Rightarrow> bool) \<Rightarrow> 'o list \<Rightarrow> 's \<Rightarrow> 'e list \<Rightarrow> 's \<times> 'e list" where
  "limiter_run step withdraw [] s h = (s, h)"
| "limiter_run step withdraw (x # xs) s h =
    (let (s1, r) = step x s; h1 = filter (\<lambda>e. \<not> withdraw x e) h
     in limiter_run step withdraw xs s1 (case r of None \<Rightarrow> h1 | Some e \<Rightarrow> h1 @ [e]))"

locale sliding_window =
  fixes step :: "'o \<Rightarrow> 's \<Rightarrow> 's \<times> 'e option"
    and log :: "'s \<Rightarrow> 'e list"
    and at :: "'e \<Rightarrow> int"
    and clock :: "'o \<Rightarrow> int"
    and withdraw :: "'o \<Rightarrow> 'e \<Rightarrow> bool"
    and allowed :: "'o \<Rightarrow> bool"
    and inv :: "'s \<Rightarrow> bool"
    and window :: int
    and cap :: nat
  assumes inv_law: "\<lbrakk>step x s = (s', r); allowed x; inv s\<rbrakk> \<Longrightarrow> inv s'"
    and log_law: "\<lbrakk>step x s = (s', r); allowed x; inv s\<rbrakk> \<Longrightarrow>
      subseq (filter (\<lambda>e. \<not> withdraw x e) (filter (\<lambda>e. clock x - window < at e) (log s)) @
        (case r of None \<Rightarrow> [] | Some e \<Rightarrow> [e])) (filter (\<lambda>e. clock x - window < at e) (log s'))"
    and grant_law: "\<lbrakk>step x s = (s', Some e); allowed x; inv s\<rbrakk> \<Longrightarrow>
      at e = clock x \<and> length (filter (\<lambda>e. clock x - window < at e) (log s)) < cap"
    and window_pos: "0 < window"
begin

definition agrees :: "int \<Rightarrow> 's \<Rightarrow> 'e list \<Rightarrow> bool" where
  "agrees now s h \<longleftrightarrow> inv s \<and>
     (\<forall>c \<ge> now - window. subseq (filter (\<lambda>e. c < at e) h) (filter (\<lambda>e. c < at e) (log s))) \<and>
     (\<forall>e \<in> set h. at e \<le> now) \<and>
     (\<forall>x. length (filter (\<lambda>e. x - window < at e \<and> at e \<le> x) h) \<le> cap)"

lemma agrees_start: "inv s \<Longrightarrow> agrees now s []"
  by (simp add: agrees_def)

lemma length_filter_mono: "(\<And>e. e \<in> set h \<Longrightarrow> P e \<Longrightarrow> Q e) \<Longrightarrow> length (filter P h) \<le> length (filter Q h)"
  by (induction h) auto

lemma agrees_step:
  assumes "agrees now s h" "now \<le> clock x" "step x s = (s', r)" "allowed x"
  shows "agrees (clock x) s'
    (case r of None \<Rightarrow> filter (\<lambda>e. \<not> withdraw x e) h | Some e \<Rightarrow> filter (\<lambda>e. \<not> withdraw x e) h @ [e])"
    (is "agrees _ _ ?h")
proof -
  let ?kept = "filter (\<lambda>e. \<not> withdraw x e) h"
  let ?new = "case r of None \<Rightarrow> [] | Some e \<Rightarrow> [e]"
  have inv: "inv s" using assms(1) by (simp add: agrees_def)
  have h: "?h = ?kept @ ?new" by (simp split: option.split)
  have at_r: "at e = clock x" if "r = Some e" for e
    using grant_law [OF _ assms(4) inv] assms(3) that by blast
  have "subseq (filter (\<lambda>e. c < at e) ?h) (filter (\<lambda>e. c < at e) (log s'))"
    if c: "clock x - window \<le> c" for c
  proof -
    have narrow: "filter (\<lambda>e. c < at e) l = filter (\<lambda>e. c < at e) (filter (\<lambda>e. clock x - window < at e) l)"
      for l :: "'e list" using c by (auto intro!: filter_cong)
    have "subseq (filter (\<lambda>e. c < at e) h) (filter (\<lambda>e. c < at e) (log s))"
      using assms(1,2) c by (simp add: agrees_def)
    then have "subseq (filter (\<lambda>e. \<not> withdraw x e) (filter (\<lambda>e. c < at e) h))
        (filter (\<lambda>e. \<not> withdraw x e) (filter (\<lambda>e. c < at e) (log s)))"
      by (rule subseq_filter)
    then have "subseq (filter (\<lambda>e. c < at e) ?h)
        (filter (\<lambda>e. \<not> withdraw x e) (filter (\<lambda>e. c < at e) (log s)) @ filter (\<lambda>e. c < at e) ?new)"
      unfolding h by (simp add: conj_commute)
    also have "filter (\<lambda>e. \<not> withdraw x e) (filter (\<lambda>e. c < at e) (log s)) @ filter (\<lambda>e. c < at e) ?new =
        filter (\<lambda>e. c < at e)
          (filter (\<lambda>e. \<not> withdraw x e) (filter (\<lambda>e. clock x - window < at e) (log s)) @ ?new)"
      using c by (auto intro!: filter_cong)
    also have "subseq \<dots> (filter (\<lambda>e. c < at e) (filter (\<lambda>e. clock x - window < at e) (log s')))"
      by (rule subseq_filter [OF log_law [OF assms(3,4) inv]])
    finally show ?thesis using narrow [of "log s'"] by simp
  qed
  moreover have "\<forall>e \<in> set ?h. at e \<le> clock x"
    using assms(1,2) at_r by (fastforce simp: agrees_def split: option.splits)
  moreover have "length (filter (\<lambda>e. y - window < at e \<and> at e \<le> y) ?h) \<le> cap" for y
  proof (cases "\<exists>e. r = Some e \<and> y - window < at e \<and> at e \<le> y")
    case False
    then have "filter (\<lambda>e. y - window < at e \<and> at e \<le> y) ?h =
        filter (\<lambda>e. y - window < at e \<and> at e \<le> y) ?kept" by (auto split: option.split)
    also have "length \<dots> \<le> length (filter (\<lambda>e. y - window < at e \<and> at e \<le> y) h)"
      unfolding filter_filter by (rule length_filter_mono) blast
    finally show ?thesis using assms(1) by (simp add: agrees_def le_trans)
  next
    case True
    then obtain e where e: "r = Some e" "y - window < clock x" "clock x \<le> y" using at_r by auto
    have "length (filter (\<lambda>e. y - window < at e \<and> at e \<le> y) ?kept) \<le>
        length (filter (\<lambda>e. clock x - window < at e) h)"
      using e(3) by (auto intro!: length_filter_mono)
    also have "\<dots> \<le> length (filter (\<lambda>e. clock x - window < at e) (log s))"
      using assms(1,2) list_emb_length [of "(=)" "filter (\<lambda>e. clock x - window < at e) h"]
      by (simp add: agrees_def)
    also have "\<dots> < cap" using grant_law [OF _ assms(4) inv] assms(3) e(1) by blast
    finally show ?thesis using e(1) by simp
  qed
  ultimately show ?thesis using inv_law [OF assms(3,4) inv] by (simp add: agrees_def)
qed

lemma agrees_run:
  assumes "agrees now s h" "sorted (now # map clock ops)" "list_all allowed ops"
    and "limiter_run step withdraw ops s h = (s', h')"
  shows "\<exists>now'. agrees now' s' h'"
  using assms
proof (induction ops arbitrary: now s h)
  case (Cons x ops)
  obtain s1 r where st: "step x s = (s1, r)" by fastforce
  have "agrees (clock x) s1 (case r of None \<Rightarrow> filter (\<lambda>e. \<not> withdraw x e) h
      | Some e \<Rightarrow> filter (\<lambda>e. \<not> withdraw x e) h @ [e])"
    using agrees_step [OF Cons.prems(1) _ st] Cons.prems(2,3) by simp
  from Cons.IH [OF this] Cons.prems(2-4) st show ?case by (simp add: Let_def)
qed auto

text \<open>The promise to the client: in any window, no more grants than the cap.\<close>

lemma window_bound:
  assumes "inv s" "sorted (map clock ops)" "list_all allowed ops"
    and "limiter_run step withdraw ops s [] = (s', h)"
  shows "length (filter (\<lambda>e. x - window < at e \<and> at e \<le> x) h) \<le> cap"
proof (cases ops)
  case Nil
  with assms(4) show ?thesis by simp
next
  case (Cons a rest)
  then have "sorted (clock a # map clock ops)" using assms(2) by simp
  with agrees_run [OF agrees_start [OF assms(1)] _ assms(3,4)] show ?thesis
    by (auto simp: agrees_def)
qed

end

section \<open>Probe limiter\<close>

record probe_limiter =
  pl_hits :: "(int \<times> int list) list"
  pl_window_sec :: int
  pl_last_sweep :: "int option"

definition newProbeLimiter :: probe_limiter where
  "newProbeLimiter = \<lparr>pl_hits = [], pl_window_sec = 60, pl_last_sweep = None\<rparr>"

definition defaultProbeLimitPerUser :: int where
  "defaultProbeLimitPerUser = 5"

definition minute :: int where
  "minute = 60 * second"

text \<open>\<open>lastSweep\<close> is Go's zero time until the first sweep, more than a minute before any clock.\<close>

definition maybeSweepLocked :: "int \<Rightarrow> probe_limiter \<Rightarrow> probe_limiter" where
  "maybeSweepLocked now l =
    (if length (pl_hits l) < 1024 \<or> (case pl_last_sweep l of None \<Rightarrow> False | Some t \<Rightarrow> now - t < minute)
     then l
     else
       let cutoff = unix now - pl_window_sec l in
       l\<lparr>pl_hits := filter (\<lambda>x. snd x \<noteq> [])
              (map (\<lambda>x. (fst x, filter (\<lambda>t. cutoff < t) (snd x))) (pl_hits l)),
         pl_last_sweep := Some now\<rparr>)"

definition probe_allow :: "int \<Rightarrow> int \<Rightarrow> int \<Rightarrow> probe_limiter \<Rightarrow> probe_limiter \<times> bool" where
  "probe_allow userID limit now l =
    (let lim = (if limit \<le> 0 then defaultProbeLimitPerUser else limit);
         cutoff = unix now - pl_window_sec l;
         keep = filter (\<lambda>t. cutoff < t) (map_get [] userID (pl_hits l))
     in if lim \<le> int (length keep) then
          (l\<lparr>pl_hits := (if keep \<noteq> [] then map_put userID keep (pl_hits l)
                          else map_del userID (pl_hits l))\<rparr>, False)
        else
          (maybeSweepLocked now (l\<lparr>pl_hits := map_put userID (keep @ [unix now]) (pl_hits l)\<rparr>), True))"

section \<open>Donation lease\<close>

record rpm_record =
  rr_id :: "64 word"
  rr_at :: int

record donation_limiter =
  dl_windows :: "(int \<times> rpm_record list) list"
  dl_next_id :: "64 word"

definition newDonationRateLimiter :: donation_limiter where
  "newDonationRateLimiter = \<lparr>dl_windows = [], dl_next_id = 0\<rparr>"

text \<open>\<open>acquire\<close> returns the id its release closure has captured.\<close>

definition acquire :: "int \<Rightarrow> int \<Rightarrow> int \<Rightarrow> donation_limiter \<Rightarrow> donation_limiter \<times> 64 word option" where
  "acquire donationID rpmLimit now l =
    (let lim = (if rpmLimit \<le> 0 then 10 else rpmLimit);
         cutoff = now - 60 * second;
         keep = filter (\<lambda>r. cutoff < rr_at r) (map_get [] donationID (dl_windows l))
     in if lim \<le> int (length keep) then (l\<lparr>dl_windows := map_put donationID keep (dl_windows l)\<rparr>, None)
        else let next = dl_next_id l + 1 in
          (l\<lparr>dl_next_id := next,
             dl_windows := map_put donationID (keep @ [\<lparr>rr_id = next, rr_at = now\<rparr>]) (dl_windows l)\<rparr>,
           Some next))"

fun remove_first_id :: "64 word \<Rightarrow> rpm_record list \<Rightarrow> rpm_record list" where
  "remove_first_id i [] = []"
| "remove_first_id i (r # rs) = (if rr_id r = i then rs else r # remove_first_id i rs)"

definition release_lease :: "int \<Rightarrow> 64 word \<Rightarrow> donation_limiter \<Rightarrow> donation_limiter" where
  "release_lease donationID i l =
    (let records = map_get [] donationID (dl_windows l) in
     if \<exists>r \<in> set records. rr_id r = i
     then l\<lparr>dl_windows := map_put donationID (remove_first_id i records) (dl_windows l)\<rparr>
     else l)"

section \<open>Three-class RPM counters\<close>

datatype rpm_class = RpmClassA | RpmClassB | RpmClassC

record rate_limiter =
  rl_hits :: "((rpm_class \<times> int) \<times> int list) list"
  rl_window_sec :: int

definition newRateLimiter :: "int \<Rightarrow> rate_limiter" where
  "newRateLimiter windowSec = \<lparr>rl_hits = [], rl_window_sec = windowSec\<rparr>"

text \<open>The array of three Go maps is one map on (class, user); a missing entry is the empty list.\<close>

definition rl_get :: "rpm_class \<Rightarrow> int \<Rightarrow> rate_limiter \<Rightarrow> int list" where
  "rl_get c userID l = map_get [] (c, userID) (rl_hits l)"

definition countRecentLocked :: "rpm_class \<Rightarrow> int \<Rightarrow> int \<Rightarrow> rate_limiter \<Rightarrow> rate_limiter \<times> int" where
  "countRecentLocked c userID now l =
    (let cutoff = unix now - rl_window_sec l;
         keep = filter (\<lambda>t. cutoff < t) (rl_get c userID l)
     in (l\<lparr>rl_hits := (if keep = [] then map_del (c, userID) (rl_hits l)
                        else map_put (c, userID) keep (rl_hits l))\<rparr>, int (length keep)))"

fun check_classes :: "rpm_class list \<Rightarrow> int \<Rightarrow> int \<Rightarrow> (rpm_class \<Rightarrow> int) \<Rightarrow> rate_limiter \<Rightarrow>
    rate_limiter \<times> rpm_class option" where
  "check_classes [] userID now limits l = (l, None)"
| "check_classes (c # cs) userID now limits l =
    (let (l1, n) = countRecentLocked c userID now l in
     if limits c \<le> n then (l1, Some c) else check_classes cs userID now limits l1)"

text \<open>\<open>check\<close>: \<open>None\<close> is allowed, \<open>Some c\<close> the first violated class.\<close>

definition rate_check :: "int \<Rightarrow> int \<Rightarrow> (rpm_class \<Rightarrow> int) \<Rightarrow> rate_limiter \<Rightarrow>
    rate_limiter \<times> rpm_class option" where
  "rate_check userID now limits l = check_classes [RpmClassA, RpmClassB, RpmClassC] userID now limits l"

definition rate_record :: "rpm_class \<Rightarrow> int \<Rightarrow> int \<Rightarrow> rate_limiter \<Rightarrow> rate_limiter" where
  "rate_record c userID now l =
    (let l1 = fst (countRecentLocked c userID now l)
     in l1\<lparr>rl_hits := map_put (c, userID) (rl_get c userID l1 @ [unix now]) (rl_hits l1)\<rparr>)"

section \<open>Per-IP throttle\<close>

record ip_throttle =
  it_hits :: "(string \<times> int list) list"
  it_block_until :: "(string \<times> int) list"
  it_rpm :: int
  it_penalty :: int
  it_window_sec :: int

definition newIPThrottle :: "int \<Rightarrow> int \<Rightarrow> int \<Rightarrow> ip_throttle" where
  "newIPThrottle rpm penaltySec windowSec = \<lparr>it_hits = [], it_block_until = [], it_rpm = rpm,
     it_penalty = penaltySec, it_window_sec = windowSec\<rparr>"

definition ip_allow :: "string \<Rightarrow> int \<Rightarrow> ip_throttle \<Rightarrow> ip_throttle \<times> bool" where
  "ip_allow ip now t =
    (if it_rpm t \<le> 0 then (t, True)
     else
       let nowSec = unix now; cutoff = nowSec - it_window_sec t;
           blocked = (case map_of (it_block_until t) ip of None \<Rightarrow> False | Some u \<Rightarrow> nowSec < u)
       in if blocked then (t, False)
       else
         let t1 = (if map_of (it_block_until t) ip \<noteq> None
                   then t\<lparr>it_block_until := map_del ip (it_block_until t), it_hits := map_del ip (it_hits t)\<rparr>
                   else t);
             keep = filter (\<lambda>ts. cutoff < ts) (map_get [] ip (it_hits t1)) @ [nowSec]
         in if it_rpm t1 < int (length keep)
            then (t1\<lparr>it_block_until := map_put ip (nowSec + it_penalty t1) (it_block_until t1),
                     it_hits := map_del ip (it_hits t1)\<rparr>, False)
            else (t1\<lparr>it_hits := map_put ip keep (it_hits t1)\<rparr>, True))"

definition retryAfterSec :: "string \<Rightarrow> int \<Rightarrow> ip_throttle \<Rightarrow> int" where
  "retryAfterSec ip now t = (case map_of (it_block_until t) ip of
     Some u \<Rightarrow> if 0 < u - unix now then u - unix now else 1
   | None \<Rightarrow> 1)"

definition ip_purge :: "int \<Rightarrow> ip_throttle \<Rightarrow> ip_throttle" where
  "ip_purge now t =
    (let nowSec = unix now; cutoff = nowSec - it_window_sec t
     in t\<lparr>it_block_until := filter (\<lambda>x. nowSec < snd x) (it_block_until t),
          it_hits := filter (\<lambda>x. \<exists>ts \<in> set (snd x). cutoff < ts) (it_hits t)\<rparr>)"

section \<open>Login throttle\<close>

text \<open>A missing lock is Go's zero time, which no clock is before.\<close>

record fail_window =
  fw_times :: "int list"
  fw_locked_until :: "int option"

record login_throttle =
  lt_fails :: "(string \<times> fail_window) list"
  lt_max_failures :: int
  lt_window :: int
  lt_lock_dur :: int

definition before_lock :: "int \<Rightarrow> fail_window \<Rightarrow> bool" where
  "before_lock now w \<longleftrightarrow> (case fw_locked_until w of None \<Rightarrow> False | Some u \<Rightarrow> now < u)"

definition login_locked :: "string \<Rightarrow> int \<Rightarrow> login_throttle \<Rightarrow> bool" where
  "login_locked key now t =
    (case map_of (lt_fails t) key of None \<Rightarrow> False | Some w \<Rightarrow> before_lock now w)"

definition login_fail :: "string \<Rightarrow> int \<Rightarrow> login_throttle \<Rightarrow> login_throttle \<times> bool" where
  "login_fail key now t =
    (let w = (case map_of (lt_fails t) key of None \<Rightarrow> \<lparr>fw_times = [], fw_locked_until = None\<rparr>
              | Some w \<Rightarrow> w);
         cutoff = now - lt_window t;
         times = filter (\<lambda>ts. cutoff < ts) (fw_times w) @ [now]
     in if lt_max_failures t \<le> int (length times)
        then (t\<lparr>lt_fails := map_put key
                  \<lparr>fw_times = [], fw_locked_until = Some (now + lt_lock_dur t)\<rparr> (lt_fails t)\<rparr>, True)
        else (t\<lparr>lt_fails := map_put key (w\<lparr>fw_times := times\<rparr>) (lt_fails t)\<rparr>, False))"

definition login_succeed :: "string \<Rightarrow> login_throttle \<Rightarrow> login_throttle" where
  "login_succeed key t = t\<lparr>lt_fails := map_del key (lt_fails t)\<rparr>"

definition login_purge :: "int \<Rightarrow> login_throttle \<Rightarrow> login_throttle" where
  "login_purge now t = t\<lparr>lt_fails := filter (\<lambda>x. before_lock now (snd x) \<or>
     (\<exists>ts \<in> set (fw_times (snd x)). now - lt_window t < ts)) (lt_fails t)\<rparr>"

section \<open>The limiters implement the interface\<close>

subsection \<open>Probes of one user\<close>

text \<open>An operation is one call of \<open>allow\<close>: user, limit and clock. All users share the map, so calls
  for other users and the sweeps they trigger are part of a run.\<close>

type_synonym probe_op = "int \<times> int \<times> int"

definition probe_step :: "int \<Rightarrow> probe_op \<Rightarrow> probe_limiter \<Rightarrow> probe_limiter \<times> int option" where
  "probe_step userID x l = (case x of (u, limit, now) \<Rightarrow>
     let (l1, ok) = probe_allow u limit now l
     in (l1, if ok \<and> u = userID then Some (unix now) else None))"

definition effective_probe_limit :: "int \<Rightarrow> int" where
  "effective_probe_limit limit = (if limit \<le> 0 then defaultProbeLimitPerUser else limit)"

definition probe_inv :: "probe_limiter \<Rightarrow> bool" where
  "probe_inv l \<longleftrightarrow> pl_window_sec l = 60 \<and> distinct (map fst (pl_hits l))"

lemma swept_get:
  assumes "distinct (map fst m)"
  shows "map_get [] k (filter (\<lambda>x. snd x \<noteq> []) (map (\<lambda>x. (fst x, filter P (snd x))) m)) =
    filter P (map_get [] k m)"
  using assms
proof (induction m)
  case (Cons a m)
  have "map_of m (fst a) = None" using Cons.prems by (simp add: map_of_eq_None_iff image_image)
  moreover have "map_get [] (fst a) (filter (\<lambda>x. snd x \<noteq> []) (map (\<lambda>x. (fst x, filter P (snd x))) m)) =
      filter P (map_get [] (fst a) m)" if "k = fst a"
    using Cons that by simp
  ultimately show ?case using Cons by (cases a) (auto simp: map_get_def split: if_splits)
qed (simp add: map_get_def)

lemma sweep_inv: "probe_inv l \<Longrightarrow> probe_inv (maybeSweepLocked now l)"
  by (auto simp: probe_inv_def maybeSweepLocked_def Let_def comp_def distinct_map_filter
      intro!: distinct_map_filter)

lemma sweep_log:
  "probe_inv l \<Longrightarrow> filter (\<lambda>t. unix now - 60 < t) (map_get [] k (pl_hits (maybeSweepLocked now l))) =
     filter (\<lambda>t. unix now - 60 < t) (map_get [] k (pl_hits l))"
  by (auto simp: probe_inv_def maybeSweepLocked_def Let_def swept_get)

lemma probe_allow_inv:
  "probe_inv l \<Longrightarrow> probe_inv (fst (probe_allow u limit now l))"
  by (auto simp: probe_allow_def Let_def intro!: sweep_inv) (simp_all add: probe_inv_def)

interpretation probes: sliding_window "probe_step userID" "\<lambda>l. map_get [] userID (pl_hits l)" id
  "\<lambda>(u, limit, now). unix now" "\<lambda>_ _. False"
  "\<lambda>(u, limit, now). u = userID \<longrightarrow> effective_probe_limit limit \<le> int cap" probe_inv 60 cap
  for userID cap
proof
  fix x l l' r
  assume step: "probe_step userID x l = (l', r)"
    and ok: "case x of (u, limit, now) \<Rightarrow> u = userID \<longrightarrow> effective_probe_limit limit \<le> int cap"
    and inv: "probe_inv l"
  obtain u limit now where x: "x = (u, limit, now)" by (cases x)
  show "probe_inv l'"
    using probe_allow_inv [OF inv, of u limit now] step
    by (auto simp: probe_step_def x split: prod.splits)
  let ?l1 = "l\<lparr>pl_hits := map_put u (filter (\<lambda>t. unix now - 60 < t) (map_get [] u (pl_hits l)) @
      [unix now]) (pl_hits l)\<rparr>"
  have w: "pl_window_sec l = 60" using inv by (simp add: probe_inv_def)
  have inv1: "probe_inv ?l1" using inv by (simp add: probe_inv_def)
  show "subseq (filter (\<lambda>e. \<not> False) (filter (\<lambda>e. (case x of (u, limit, now) \<Rightarrow> unix now) - 60 < id e)
        (map_get [] userID (pl_hits l))) @ (case r of None \<Rightarrow> [] | Some e \<Rightarrow> [e]))
      (filter (\<lambda>e. (case x of (u, limit, now) \<Rightarrow> unix now) - 60 < id e) (map_get [] userID (pl_hits l')))"
    using step sweep_log [OF inv1, of now userID]
    by (auto simp: x probe_step_def probe_allow_def Let_def w split: if_splits)
next
  fix x l l' e
  assume step: "probe_step userID x l = (l', Some e)"
    and ok: "case x of (u, limit, now) \<Rightarrow> u = userID \<longrightarrow> effective_probe_limit limit \<le> int cap"
    and inv: "probe_inv l"
  then show "id e = (case x of (u, limit, now) \<Rightarrow> unix now) \<and>
      length (filter (\<lambda>e. (case x of (u, limit, now) \<Rightarrow> unix now) - 60 < id e)
        (map_get [] userID (pl_hits l))) < cap"
    by (auto simp: probe_step_def probe_allow_def Let_def probe_inv_def effective_probe_limit_def
        split: if_splits prod.splits)
qed simp

subsection \<open>Leases of one donation\<close>

datatype lease_op = Acquire int int int | ReleaseLease int "64 word" int

fun lease_clock :: "lease_op \<Rightarrow> int" where
  "lease_clock (Acquire d lim now) = now"
| "lease_clock (ReleaseLease d i now) = now"

definition lease_step :: "int \<Rightarrow> lease_op \<Rightarrow> donation_limiter \<Rightarrow> donation_limiter \<times> rpm_record option" where
  "lease_step donationID x l = (case x of
     Acquire d lim now \<Rightarrow> let (l1, r) = acquire d lim now l in
       (l1, if d = donationID then map_option (\<lambda>i. \<lparr>rr_id = i, rr_at = now\<rparr>) r else None)
   | ReleaseLease d i now \<Rightarrow> (release_lease d i l, None))"

fun lease_withdraw :: "int \<Rightarrow> lease_op \<Rightarrow> rpm_record \<Rightarrow> bool" where
  "lease_withdraw donationID (Acquire d lim now) e = False"
| "lease_withdraw donationID (ReleaseLease d i now) e = (d = donationID \<and> rr_id e = i)"

fun lease_allowed :: "int \<Rightarrow> nat \<Rightarrow> lease_op \<Rightarrow> bool" where
  "lease_allowed donationID cap (Acquire d lim now) =
     (d = donationID \<longrightarrow> (if lim \<le> 0 then 10 else lim) \<le> int cap)"
| "lease_allowed donationID cap (ReleaseLease d i now) = True"

lemma remove_first_keeps:
  "subseq (filter (\<lambda>e. rr_id e \<noteq> i) l) (remove_first_id i l)"
  by (induction l) (auto intro: subseq_filter_left)

lemma filter_conj_subseq: "subseq (filter (\<lambda>e. P e \<and> Q e) l) (filter P l)"
  by (induction l) auto

lemma withdrawn_first:
  "subseq (filter (\<lambda>e. P e \<and> rr_id e \<noteq> i) l) (filter P (remove_first_id i l))"
  by (induction l) (auto intro: filter_conj_subseq)

interpretation leases: sliding_window "lease_step donationID"
  "\<lambda>l. map_get [] donationID (dl_windows l)" rr_at lease_clock "lease_withdraw donationID"
  "lease_allowed donationID cap" "\<lambda>_. True" "60 * second" cap
  for donationID cap
proof
  fix x l l' r
  assume step: "lease_step donationID x l = (l', r)" and ok: "lease_allowed donationID cap x"
  show "subseq (filter (\<lambda>e. \<not> lease_withdraw donationID x e)
        (filter (\<lambda>e. lease_clock x - 60 * second < rr_at e) (map_get [] donationID (dl_windows l))) @
        (case r of None \<Rightarrow> [] | Some e \<Rightarrow> [e]))
      (filter (\<lambda>e. lease_clock x - 60 * second < rr_at e) (map_get [] donationID (dl_windows l')))"
  proof (cases x)
    case (Acquire d lim now)
    then show ?thesis
      using step by (auto simp: lease_step_def acquire_def Let_def second_def split: if_splits)
  next
    case (ReleaseLease d i now)
    then show ?thesis
      using step by (auto simp: lease_step_def release_lease_def Let_def
          intro: withdrawn_first filter_conj_subseq)
  qed
next
  fix x l l' e
  assume "lease_step donationID x l = (l', Some e)" "lease_allowed donationID cap x"
  then show "rr_at e = lease_clock x \<and>
      length (filter (\<lambda>e. lease_clock x - 60 * second < rr_at e)
        (map_get [] donationID (dl_windows l))) < cap"
    by (cases x) (auto simp: lease_step_def acquire_def Let_def split: if_splits)
qed (simp_all add: second_def)

section \<open>Three-class counters against the full history\<close>

text \<open>The specification keeps every recorded hit for ever and counts those inside the window; the
  code prunes as it goes.\<close>

type_synonym hit = "rpm_class \<times> int \<times> int"

definition hit_times :: "rpm_class \<Rightarrow> int \<Rightarrow> hit list \<Rightarrow> int list" where
  "hit_times c u h = map (\<lambda>x. snd (snd x)) (filter (\<lambda>x. fst x = c \<and> fst (snd x) = u) h)"

datatype rate_op = RateRecord rpm_class int int | RateCheck int int "rpm_class \<Rightarrow> int"

fun rate_clock :: "rate_op \<Rightarrow> int" where
  "rate_clock (RateRecord c u now) = now"
| "rate_clock (RateCheck u now limits) = now"

fun rate_results :: "rate_op list \<Rightarrow> rate_limiter \<Rightarrow> rpm_class option list" where
  "rate_results [] l = []"
| "rate_results (RateRecord c u now # ops) l = rate_results ops (rate_record c u now l)"
| "rate_results (RateCheck u now limits # ops) l =
    (let (l1, v) = rate_check u now limits l in v # rate_results ops l1)"

definition window_count :: "int \<Rightarrow> rpm_class \<Rightarrow> int \<Rightarrow> int \<Rightarrow> hit list \<Rightarrow> int" where
  "window_count w c u now h = int (length (filter (\<lambda>t. unix now - w < t) (hit_times c u h)))"

fun rate_spec :: "int \<Rightarrow> rate_op list \<Rightarrow> hit list \<Rightarrow> rpm_class option list" where
  "rate_spec w [] h = []"
| "rate_spec w (RateRecord c u now # ops) h = rate_spec w ops (h @ [(c, u, unix now)])"
| "rate_spec w (RateCheck u now limits # ops) h =
    List.find (\<lambda>c. limits c \<le> window_count w c u now h) [RpmClassA, RpmClassB, RpmClassC]
      # rate_spec w ops h"

definition rate_rel :: "int \<Rightarrow> int \<Rightarrow> rate_limiter \<Rightarrow> hit list \<Rightarrow> bool" where
  "rate_rel w now l h \<longleftrightarrow> rl_window_sec l = w \<and>
     (\<forall>c u cut. unix now - w \<le> cut \<longrightarrow>
        filter (\<lambda>t. cut < t) (rl_get c u l) = filter (\<lambda>t. cut < t) (hit_times c u h))"

lemma count_recent_rel:
  assumes "rate_rel w now l h" "now \<le> now'"
  shows "rate_rel w now' (fst (countRecentLocked c u now' l)) h \<and>
    snd (countRecentLocked c u now' l) = window_count w c u now' h"
proof -
  have le: "unix now - w \<le> unix now' - w" using unix_mono [OF assms(2)] by simp
  have keep: "filter (\<lambda>t. unix now' - w < t) (rl_get c u l) =
      filter (\<lambda>t. unix now' - w < t) (hit_times c u h)"
    using assms(1) le by (simp add: rate_rel_def)
  have narrow: "filter (\<lambda>t. cut < t) (filter (\<lambda>t. unix now' - w < t) xs) = filter (\<lambda>t. cut < t) xs"
    if "unix now' - w \<le> cut" for cut xs using that by (auto intro!: filter_cong)
  have get: "rl_get c' u' (fst (countRecentLocked c u now' l)) =
      (if c' = c \<and> u' = u then filter (\<lambda>t. unix now' - w < t) (rl_get c u l) else rl_get c' u' l)" for c' u'
    using assms(1) by (auto simp: countRecentLocked_def Let_def rl_get_def rate_rel_def)
  show ?thesis
    using assms(1) le keep narrow
    by (auto simp: rate_rel_def get) (simp_all add: countRecentLocked_def Let_def window_count_def)
qed

lemma check_classes_rel:
  assumes "rate_rel w now l h" "now \<le> now'"
  shows "rate_rel w now' (fst (check_classes cs u now' limits l)) h \<and>
    snd (check_classes cs u now' limits l) = List.find (\<lambda>c. limits c \<le> window_count w c u now' h) cs"
  using assms
proof (induction cs arbitrary: l now)
  case Nil
  then show ?case using unix_mono [of now now'] by (force simp: rate_rel_def)
next
  case (Cons c cs)
  obtain l1 n where 1: "countRecentLocked c u now' l = (l1, n)" by fastforce
  with count_recent_rel [OF Cons.prems, of c u] Cons.IH [of now' l1]
  show ?case by simp
qed

lemma record_rel:
  assumes "rate_rel w now l h" "now \<le> now'"
  shows "rate_rel w now' (rate_record c u now' l) (h @ [(c, u, unix now')])"
proof -
  have "rate_rel w now' (fst (countRecentLocked c u now' l)) h"
    using count_recent_rel [OF assms] by blast
  then show ?thesis
    by (auto simp: rate_record_def Let_def rate_rel_def rl_get_def hit_times_def)
qed

lemma rate_refines:
  assumes "rate_rel w now l h" "sorted (now # map rate_clock ops)"
  shows "rate_results ops l = rate_spec w ops h"
  using assms
proof (induction ops arbitrary: now l h)
  case (Cons x ops)
  show ?case
  proof (cases x)
    case (RateRecord c u t)
    with Cons.IH [OF record_rel [OF Cons.prems(1), of t c u]] Cons.prems(2) show ?thesis by simp
  next
    case (RateCheck u t limits)
    have le: "now \<le> t" using Cons.prems(2) RateCheck by simp
    have "rate_rel w t (fst (rate_check u t limits l)) h \<and> snd (rate_check u t limits l) =
        List.find (\<lambda>c. limits c \<le> window_count w c u t h) [RpmClassA, RpmClassB, RpmClassC]"
      unfolding rate_check_def by (rule check_classes_rel [OF Cons.prems(1) le])
    with Cons.IH [of t "fst (rate_check u t limits l)" h] Cons.prems(2) RateCheck
    show ?thesis by (simp add: Let_def split_def)
  qed
qed simp

section \<open>Throttles under interleaving\<close>

datatype ip_op = IpAllow string int | IpPurge int

fun ip_clock :: "ip_op \<Rightarrow> int" where
  "ip_clock (IpAllow ip now) = now"
| "ip_clock (IpPurge now) = now"

text \<open>Answers given to one address in a run.\<close>

fun ip_answers :: "string \<Rightarrow> ip_op list \<Rightarrow> ip_throttle \<Rightarrow> bool list" where
  "ip_answers ip [] t = []"
| "ip_answers ip (IpAllow j now # ops) t =
    (let (t1, ok) = ip_allow j now t in (if j = ip then [ok] else []) @ ip_answers ip ops t1)"
| "ip_answers ip (IpPurge now # ops) t = ip_answers ip ops (ip_purge now t)"

lemma ip_allow_frame:
  "ip \<noteq> j \<Longrightarrow> map_of (it_block_until (fst (ip_allow j now t))) ip = map_of (it_block_until t) ip"
  by (auto simp: ip_allow_def Let_def split: option.splits)

lemma ip_allow_rpm [simp]: "it_rpm (fst (ip_allow j now t)) = it_rpm t"
  by (auto simp: ip_allow_def Let_def split: option.splits)

lemma map_of_filter_value:
  "\<lbrakk>map_of m k = Some v; P v\<rbrakk> \<Longrightarrow> map_of (filter (\<lambda>x. P (snd x)) m) k = Some v"
  by (induction m) (auto split: if_splits)

lemma ip_blocked_denies:
  assumes "0 < it_rpm t" "map_of (it_block_until t) ip = Some u" "\<forall>x \<in> set ops. unix (ip_clock x) < u"
  shows "True \<notin> set (ip_answers ip ops t)"
  using assms
proof (induction ops arbitrary: t)
  case (Cons x ops)
  show ?case
  proof (cases x)
    case (IpAllow j now)
    show ?thesis
    proof (cases "j = ip")
      case True
      then have "ip_allow j now t = (t, False)"
        using Cons.prems IpAllow by (simp add: ip_allow_def)
      with Cons IpAllow True show ?thesis by simp
    next
      case False
      with Cons IpAllow ip_allow_frame [of ip j now t] show ?thesis by (simp add: Let_def split_def)
    qed
  next
    case (IpPurge now)
    then have "map_of (it_block_until (ip_purge now t)) ip = Some u"
      using Cons.prems by (auto simp: ip_purge_def Let_def intro!: map_of_filter_value)
    moreover have "it_rpm (ip_purge now t) = it_rpm t" by (simp add: ip_purge_def Let_def)
    ultimately show ?thesis using Cons IpPurge by simp
  qed
qed simp

datatype login_op = LoginFail string int | LoginSucceed string | LoginPurge int

fun login_exec :: "login_op \<Rightarrow> login_throttle \<Rightarrow> login_throttle" where
  "login_exec (LoginFail k now) t = fst (login_fail k now t)"
| "login_exec (LoginSucceed k) t = login_succeed k t"
| "login_exec (LoginPurge now) t = login_purge now t"

fun login_quiet :: "string \<Rightarrow> int \<Rightarrow> int \<Rightarrow> login_op \<Rightarrow> bool" where
  "login_quiet key from until (LoginFail k now) = (from \<le> now \<and> now < until)"
| "login_quiet key from until (LoginSucceed k) = (k \<noteq> key)"
| "login_quiet key from until (LoginPurge now) = (from \<le> now \<and> now < until)"

definition locked_at_least :: "string \<Rightarrow> int \<Rightarrow> login_throttle \<Rightarrow> bool" where
  "locked_at_least key until t \<longleftrightarrow> (case map_of (lt_fails t) key of None \<Rightarrow> False
     | Some w \<Rightarrow> (case fw_locked_until w of None \<Rightarrow> False | Some u \<Rightarrow> until \<le> u))"

lemma locked_at_leastE:
  assumes "locked_at_least key until t"
  obtains w u where "map_of (lt_fails t) key = Some w" "fw_locked_until w = Some u" "until \<le> u"
  using assms by (auto simp: locked_at_least_def split: option.splits)

lemma login_exec_locked:
  assumes "locked_at_least key until t" "login_quiet key from until x" "until = from + lt_lock_dur t"
  shows "locked_at_least key until (login_exec x t) \<and> lt_lock_dur (login_exec x t) = lt_lock_dur t"
proof (rule locked_at_leastE [OF assms(1)])
  fix w u assume w: "map_of (lt_fails t) key = Some w" "fw_locked_until w = Some u" "until \<le> u"
  show ?thesis
  proof (cases x)
    case (LoginFail k now)
    with w assms show ?thesis by (auto simp: login_fail_def Let_def locked_at_least_def)
  next
    case (LoginSucceed k)
    with w assms show ?thesis by (auto simp: login_succeed_def locked_at_least_def)
  next
    case (LoginPurge now)
    then have "before_lock now w" using w assms(2) by (auto simp: before_lock_def)
    then have "map_of (filter (\<lambda>x. before_lock now (snd x) \<or>
        (\<exists>ts \<in> set (fw_times (snd x)). now - lt_window t < ts)) (lt_fails t)) key = Some w"
      by (intro map_of_filter_value [OF w(1)]) blast
    with LoginPurge w show ?thesis by (simp add: login_purge_def locked_at_least_def)
  qed
qed

lemma login_run_locked:
  assumes "locked_at_least key until t" "list_all (login_quiet key from until) ops"
    and "until = from + lt_lock_dur t"
  shows "locked_at_least key until (fold login_exec ops t)"
  using assms
proof (induction ops arbitrary: t)
  case (Cons x ops)
  have "locked_at_least key until (login_exec x t)" "lt_lock_dur (login_exec x t) = lt_lock_dur t"
    using login_exec_locked [OF Cons.prems(1) _ Cons.prems(3)] Cons.prems(2) by simp_all
  then show ?case using Cons.IH [of "login_exec x t"] Cons.prems(2,3) by simp
qed simp

section \<open>Properties\<close>

text \<open>Probe cap. However probes of many users and the memory sweeps interleave, as long as the
  clock does not run backwards and the limit in force for a user never exceeds \<open>cap\<close>, at most
  \<open>cap\<close> of the user's probes are admitted in any 60 second window.\<close>

theorem probe_cap:
  assumes "sorted (map (\<lambda>(u, limit, now). unix now) ops)"
    and "list_all (\<lambda>(u, limit, now). u = userID \<longrightarrow> effective_probe_limit limit \<le> int cap) ops"
    and "limiter_run (probe_step userID) (\<lambda>_ _. False) ops newProbeLimiter [] = (l, admitted)"
  shows "length (filter (\<lambda>t. x - 60 < t \<and> t \<le> x) admitted) \<le> cap"
  using probes.window_bound [OF _ assms] by (simp add: probe_inv_def newProbeLimiter_def)

theorem probe_cap_witness:
  "length (filter (\<lambda>t. 70 - 60 < t \<and> t \<le> 70) (snd (limiter_run (probe_step 1) (\<lambda>_ _. False)
     [(1, 1, 20 * second), (2, 9, 30 * second), (1, 1, 40 * second)] newProbeLimiter []))) \<le> 1"
proof -
  obtain l h where r: "limiter_run (probe_step 1) (\<lambda>_ _. False)
      [(1, 1, 20 * second), (2, 9, 30 * second), (1, 1, 40 * second)] newProbeLimiter [] = (l, h)"
    by fastforce
  have "length (filter (\<lambda>t. 70 - 60 < t \<and> t \<le> 70) h) \<le> 1"
    by (rule probe_cap [OF _ _ r])
      (simp_all add: unix_def second_def effective_probe_limit_def)
  with r show ?thesis by simp
qed

text \<open>Donation lease cap. However acquisitions and releases for many donations interleave, at
  most \<open>cap\<close> leases of a donation that were not given back fall into any 60 second window, when
  its limit (10 for an unset one) is at most \<open>cap\<close>; also if lease ids wrap around 64 bits.\<close>

theorem lease_cap:
  assumes "sorted (map lease_clock ops)" "list_all (lease_allowed donationID cap) ops"
    and "limiter_run (lease_step donationID) (lease_withdraw donationID) ops l0 [] = (l, leases)"
  shows "length (filter (\<lambda>r. x - 60 * second < rr_at r \<and> rr_at r \<le> x) leases) \<le> cap"
  using leases.window_bound [OF TrueI assms] .

theorem lease_cap_witness:
  "length (filter (\<lambda>r. 9 - 60 * second < rr_at r \<and> rr_at r \<le> 9) (snd (limiter_run (lease_step 1)
     (lease_withdraw 1) [Acquire 1 1 5, ReleaseLease 1 1 6, Acquire 1 1 7, Acquire 1 1 8]
     newDonationRateLimiter []))) \<le> 1"
proof -
  obtain l h where r: "limiter_run (lease_step 1) (lease_withdraw 1)
      [Acquire 1 1 5, ReleaseLease 1 1 6, Acquire 1 1 7, Acquire 1 1 8] newDonationRateLimiter [] = (l, h)"
    by fastforce
  have "length (filter (\<lambda>r. 9 - 60 * second < rr_at r \<and> rr_at r \<le> 9) h) \<le> 1"
    by (rule lease_cap [OF _ _ r]) simp_all
  with r show ?thesis by simp
qed

text \<open>C16: The three-class limiter counts exactly. For every sequence of checks and records with a
  clock that does not run backwards, the answers (admitted, or the first violated class) are those
  of the specification that keeps every hit for ever and counts the ones inside the window: the
  pruning and the deletion of empty entries are never observable.\<close>

theorem rate_limiter_refines_history:
  assumes "sorted (map rate_clock ops)"
  shows "rate_results ops (newRateLimiter w) = rate_spec w ops []"
proof (cases ops)
  case (Cons x rest)
  have "rate_rel w (rate_clock x) (newRateLimiter w) []"
    by (simp add: rate_rel_def newRateLimiter_def rl_get_def map_get_def hit_times_def)
  then show ?thesis using rate_refines [of w "rate_clock x" "newRateLimiter w" "[]" ops] assms Cons
    by simp
qed simp

theorem rate_limiter_refines_history_witness:
  "rate_results [RateRecord RpmClassC 1 (5 * second), RateCheck 1 (6 * second) (\<lambda>_. 1)]
     (newRateLimiter 60) = [Some RpmClassC]"
  by (subst rate_limiter_refines_history)
    (simp_all add: second_def window_count_def hit_times_def unix_def)

text \<open>A penalty is served in full. Once an address crosses the cap of the per-IP throttle, every
  further attempt before the end of the penalty is denied, whatever other addresses and the purge
  job do in between; and the first attempt after it starts a fresh window and is admitted.\<close>

theorem ip_penalty_served:
  assumes "0 < it_rpm t" "ip_allow ip now t = (t1, False)"
    and "case map_of (it_block_until t) ip of None \<Rightarrow> True | Some u \<Rightarrow> u \<le> unix now"
    and "\<forall>x \<in> set ops. unix (ip_clock x) < unix now + it_penalty t"
  shows "True \<notin> set (ip_answers ip ops t1) \<and>
    (\<forall>later. unix now + it_penalty t \<le> unix later \<longrightarrow> snd (ip_allow ip later t1))"
proof -
  have t1: "map_of (it_block_until t1) ip = Some (unix now + it_penalty t)" "it_rpm t1 = it_rpm t"
    using assms(1-3) by (auto simp: ip_allow_def Let_def split: option.splits if_splits)
  have "snd (ip_allow ip later t1)" if "unix now + it_penalty t \<le> unix later" for later
    using t1 assms(1) that by (simp add: ip_allow_def Let_def)
  with ip_blocked_denies [OF _ t1(1) assms(4)] t1(2) assms(1) show ?thesis by simp
qed

theorem ip_penalty_served_witness:
  "True \<notin> set (ip_answers ''a'' [IpAllow ''b'' (8 * second), IpAllow ''a'' (9 * second)]
     (fst (ip_allow ''a'' (6 * second) (fst (ip_allow ''a'' (5 * second) (newIPThrottle 1 30 60))))))"
proof -
  let ?t = "fst (ip_allow ''a'' (5 * second) (newIPThrottle 1 30 60))"
  have t: "?t = \<lparr>it_hits = [(''a'', [5])], it_block_until = [], it_rpm = 1, it_penalty = 30,
      it_window_sec = 60\<rparr>"
    by (simp add: ip_allow_def newIPThrottle_def Let_def unix_def second_def map_get_def map_put_def)
  obtain t1 where t1: "ip_allow ''a'' (6 * second) ?t = (t1, False)"
    unfolding t by (simp add: ip_allow_def Let_def unix_def second_def map_get_def)
  have "True \<notin> set (ip_answers ''a'' [IpAllow ''b'' (8 * second), IpAllow ''a'' (9 * second)] t1)"
    using ip_penalty_served [OF _ t1, of "[IpAllow ''b'' (8 * second), IpAllow ''a'' (9 * second)]"]
    unfolding t by (simp add: unix_def second_def)
  then show ?thesis unfolding t1 fst_conv .
qed

text \<open>A login lock-out holds. A failure locks a key exactly when the failures inside the window
  reach the maximum, and then the key stays locked for the whole lock time, whatever failures of
  any key, purges, and successes of other keys happen meanwhile.\<close>

theorem login_lock_holds:
  assumes "login_fail key now t = (t1, locked)"
    and "list_all (login_quiet key now (now + lt_lock_dur t)) ops"
  shows "(locked \<longleftrightarrow> lt_max_failures t \<le> 1 + int (length (filter (\<lambda>ts. now - lt_window t < ts)
            (case map_of (lt_fails t) key of None \<Rightarrow> [] | Some w \<Rightarrow> fw_times w)))) \<and>
    (locked \<longrightarrow> (\<forall>later < now + lt_lock_dur t. login_locked key later (fold login_exec ops t1)))"
proof
  show "locked \<longleftrightarrow> lt_max_failures t \<le> 1 + int (length (filter (\<lambda>ts. now - lt_window t < ts)
            (case map_of (lt_fails t) key of None \<Rightarrow> [] | Some w \<Rightarrow> fw_times w)))"
    using assms(1) by (auto simp: login_fail_def Let_def split: if_splits option.splits)
  show "locked \<longrightarrow> (\<forall>later < now + lt_lock_dur t. login_locked key later (fold login_exec ops t1))"
  proof (intro impI allI)
    fix later assume locked "later < now + lt_lock_dur t"
    then have "t1 = t\<lparr>lt_fails := map_put key
        \<lparr>fw_times = [], fw_locked_until = Some (now + lt_lock_dur t)\<rparr> (lt_fails t)\<rparr>"
      using assms(1) unfolding login_fail_def Let_def by (simp split: if_splits)
    then have "locked_at_least key (now + lt_lock_dur t) t1" "lt_lock_dur t1 = lt_lock_dur t"
      by (simp_all add: locked_at_least_def)
    then have "locked_at_least key (now + lt_lock_dur t) (fold login_exec ops t1)"
      using login_run_locked [OF _ assms(2)] by metis
    then obtain w u where "map_of (lt_fails (fold login_exec ops t1)) key = Some w"
      "fw_locked_until w = Some u" "now + lt_lock_dur t \<le> u" by (rule locked_at_leastE)
    with \<open>later < now + lt_lock_dur t\<close> show "login_locked key later (fold login_exec ops t1)"
      by (simp add: login_locked_def before_lock_def)
  qed
qed

theorem login_lock_holds_witness:
  "login_locked ''k'' 20 (fold login_exec [LoginFail ''k'' 12, LoginPurge 15]
     (fst (login_fail ''k'' 10 \<lparr>lt_fails = [], lt_max_failures = 1, lt_window = 5, lt_lock_dur = 30\<rparr>)))"
proof -
  let ?t = "\<lparr>lt_fails = [], lt_max_failures = 1, lt_window = 5, lt_lock_dur = 30\<rparr>"
  obtain t1 where t1: "login_fail ''k'' 10 ?t = (t1, True)"
    by (simp add: login_fail_def Let_def)
  have "\<forall>later < 10 + lt_lock_dur ?t. login_locked ''k'' later
      (fold login_exec [LoginFail ''k'' 12, LoginPurge 15] t1)"
    using login_lock_holds [OF t1, of "[LoginFail ''k'' 12, LoginPurge 15]"] by simp
  then have "login_locked ''k'' 20 (fold login_exec [LoginFail ''k'' 12, LoginPurge 15] t1)" by simp
  then show ?thesis unfolding t1 fst_conv .
qed

end
