(* ===== verification/Diagnostic.thy ===== *)
theory Diagnostic
  imports GoStrings
begin

text \<open>
  The boundary for untrusted diagnostics, \<^verbatim>\<open>diagnostic/diagnostic.go\<close>, with the part of Go's
  \<^verbatim>\<open>unicode/utf8\<close> it rests on. A rune is represented by the bytes of its UTF-8 encoding, so
  decoding finds how many bytes the rune at the front of a string takes and \<open>AppendRune\<close> is append.
\<close>

section \<open>UTF-8\<close>

abbreviation byte :: "char \<Rightarrow> nat" where "byte c \<equiv> of_char c"

definition in_range :: "nat \<Rightarrow> nat \<Rightarrow> char \<Rightarrow> bool" where
  "in_range lo hi c \<longleftrightarrow> lo \<le> byte c \<and> byte c \<le> hi"

definition is_cont :: "char \<Rightarrow> bool" where
  "is_cont c \<longleftrightarrow> in_range 0x80 0xBF c"

text \<open>The well-formed sequences of two, three and four bytes.\<close>

definition seq2 :: "char \<Rightarrow> char \<Rightarrow> bool" where
  "seq2 a b \<longleftrightarrow> in_range 0xC2 0xDF a \<and> is_cont b"

definition seq3 :: "char \<Rightarrow> char \<Rightarrow> char \<Rightarrow> bool" where
  "seq3 a b c \<longleftrightarrow> (if byte a = 0xE0 then in_range 0xA0 0xBF b
     else if byte a = 0xED then in_range 0x80 0x9F b
     else in_range 0xE1 0xEF a \<and> is_cont b) \<and> is_cont c"

definition seq4 :: "char \<Rightarrow> char \<Rightarrow> char \<Rightarrow> char \<Rightarrow> bool" where
  "seq4 a b c d \<longleftrightarrow> (if byte a = 0xF0 then in_range 0x90 0xBF b
     else if byte a = 0xF4 then in_range 0x80 0x8F b
     else in_range 0xF1 0xF3 a \<and> is_cont b) \<and> is_cont c \<and> is_cont d"

text \<open>The size of the well-formed rune at the front, 0 when there is none (\<open>DecodeRuneInString\<close>
  returns \<open>RuneError\<close> with size 1, or 0 for the empty string).\<close>

fun rune_len :: "string \<Rightarrow> nat" where
  "rune_len (a # b # c # d # s) = (if byte a < 0x80 then 1 else if seq2 a b then 2
     else if seq3 a b c then 3 else if seq4 a b c d then 4 else 0)"
| "rune_len [a, b, c] = (if byte a < 0x80 then 1 else if seq2 a b then 2
     else if seq3 a b c then 3 else 0)"
| "rune_len [a, b] = (if byte a < 0x80 then 1 else if seq2 a b then 2 else 0)"
| "rune_len [a] = (if byte a < 0x80 then 1 else 0)"
| "rune_len [] = 0"

definition RuneStart :: "char \<Rightarrow> bool" where
  "RuneStart c \<longleftrightarrow> \<not> is_cont c"

function ValidString :: "string \<Rightarrow> bool" where
  "ValidString s = (if s = [] then True else if rune_len s = 0 then False
     else ValidString (drop (rune_len s) s))"
  by pat_completeness auto
termination by (relation "measure length") auto

declare ValidString.simps [simp del]

lemma rune_len_le: "rune_len s \<le> length s"
  by (cases s rule: rune_len.cases) simp_all

lemma rune_len_append: "0 < rune_len s \<Longrightarrow> rune_len (s @ t) = rune_len s"
proof (cases s rule: rune_len.cases)
  case (2 a b c) then show "0 < rune_len s \<Longrightarrow> ?thesis"
    by (cases t) (simp_all split: if_splits)
next
  case (3 a b) then show "0 < rune_len s \<Longrightarrow> ?thesis"
    by (cases t rule: rune_len.cases) (simp_all split: if_splits)
next
  case (4 a) then show "0 < rune_len s \<Longrightarrow> ?thesis"
    by (cases t rule: rune_len.cases) (simp_all split: if_splits)
qed simp_all

lemma rune_len_take: "0 < rune_len s \<Longrightarrow> rune_len (take (rune_len s) s) = rune_len s"
  by (cases s rule: rune_len.cases) (simp_all split: if_splits)

lemma seq_cont:
  "seq2 a b \<Longrightarrow> is_cont b" "seq3 a b c \<Longrightarrow> is_cont b \<and> is_cont c"
  "seq4 a b c d \<Longrightarrow> is_cont b \<and> is_cont c \<and> is_cont d"
  by (auto simp: seq2_def seq3_def seq4_def is_cont_def in_range_def split: if_split_asm)

lemma rune_cont:
  assumes "0 < i" "i < rune_len s"
  shows "is_cont (s ! i)"
proof -
  have i: "i = 1 \<or> i = 2 \<or> i = 3" using assms by (cases s rule: rune_len.cases) (auto split: if_splits)
  show ?thesis
  proof (cases s rule: rune_len.cases)
    case (1 a b c d t)
    then show ?thesis using assms i seq_cont [of a b] seq_cont(2) [of a b c] seq_cont(3) [of a b c d]
      by (auto split: if_splits)
  next
    case (2 a b c)
    then show ?thesis using assms i seq_cont [of a b] seq_cont(2) [of a b c]
      by (auto split: if_splits)
  next
    case (3 a b)
    then show ?thesis using assms i seq_cont [of a b] by (auto split: if_splits)
  qed (use assms in \<open>auto split: if_splits\<close>)
qed

lemma ValidString_Nil [simp]: "ValidString []"
  by (simp add: ValidString.simps)

lemma ValidString_rune: "0 < rune_len s \<Longrightarrow> ValidString s = ValidString (drop (rune_len s) s)"
  by (subst ValidString.simps) auto

lemma ValidString_append: "\<lbrakk>ValidString s; ValidString t\<rbrakk> \<Longrightarrow> ValidString (s @ t)"
proof (induction s rule: ValidString.induct)
  case (1 s)
  show ?case
  proof (cases "s = []")
    case False
    then have r: "0 < rune_len s" using "1.prems"(1) by (subst (asm) ValidString.simps) (auto split: if_splits)
    then have "ValidString (drop (rune_len s) s @ t)"
      using 1 False by (simp add: ValidString_rune [OF r])
    then show ?thesis
      using r rune_len_append [OF r, of t] rune_len_le [of s]
      by (simp add: ValidString_rune [of "s @ t"])
  qed (use "1.prems" in simp)
qed

lemma ValidString_single: "0 < rune_len s \<Longrightarrow> ValidString (take (rune_len s) s)"
  using ValidString_rune [of "take (rune_len s) s"] by (simp add: rune_len_take)

text \<open>Cutting a valid string in front of a rune start leaves it valid.\<close>

lemma ValidString_take:
  "\<lbrakk>ValidString s; n = length s \<or> n < length s \<and> RuneStart (s ! n) \<or> n = 0\<rbrakk> \<Longrightarrow> ValidString (take n s)"
proof (induction s arbitrary: n rule: ValidString.induct)
  case (1 s)
  show ?case
  proof (cases "s = [] \<or> n = 0")
    case True then show ?thesis by auto
  next
    case False
    then have r: "0 < rune_len s" using "1.prems"(1) by (subst (asm) ValidString.simps) (auto split: if_splits)
    have "rune_len s \<le> n"
      using rune_cont [of n s] "1.prems"(2) False rune_len_le [of s] by (force simp: RuneStart_def)
    moreover have "ValidString (take (n - rune_len s) (drop (rune_len s) s))"
    proof (rule "1.IH")
      show "ValidString (drop (rune_len s) s)" using "1.prems"(1) r by (simp add: ValidString_rune)
      show "n - rune_len s = length (drop (rune_len s) s) \<or>
        n - rune_len s < length (drop (rune_len s) s) \<and> RuneStart (drop (rune_len s) s ! (n - rune_len s)) \<or>
        n - rune_len s = 0"
        using "1.prems"(2) \<open>rune_len s \<le> n\<close> rune_len_le [of s] False by auto
    qed (use False r in auto)
    moreover have "take n s = take (rune_len s) s @ take (n - rune_len s) (drop (rune_len s) s)"
      using \<open>rune_len s \<le> n\<close> by (metis le_add_diff_inverse take_add)
    ultimately show ?thesis using ValidString_single [OF r] by (simp add: ValidString_append)
  qed
qed

section \<open>The boundary\<close>

definition MaxBytes :: nat where "MaxBytes = 4096"

definition TruncationMarker :: string where
  "TruncationMarker = [CHR 0xE2, CHR 0x80, CHR 0xA6] @ ''[truncated]''"

definition replacement_rune :: string where
  "replacement_rune = [CHR 0xEF, CHR 0xBF, CHR 0xBD]"

text \<open>The length of the run of invalid bytes at the front, each at a position where no rune
  begins.\<close>

fun invalid_run :: "string \<Rightarrow> nat" where
  "invalid_run [] = 0"
| "invalid_run (b # bs) = (if bs \<noteq> [] \<and> rune_len bs = 0 then 1 + invalid_run bs else 1)"

text \<open>Backing up to a rune start: the loops on \<open>end\<close>.\<close>

fun back_to_start :: "string \<Rightarrow> nat \<Rightarrow> nat" where
  "back_to_start s 0 = 0"
| "back_to_start s (Suc n) =
     (if Suc n < length s \<and> \<not> RuneStart (s ! Suc n) then back_to_start s n else Suc n)"

definition markerPrefix :: "nat \<Rightarrow> string" where
  "markerPrefix maxBytes = (let n = min maxBytes (length TruncationMarker)
     in take (back_to_start TruncationMarker n) TruncationMarker)"

definition truncate_output :: "nat \<Rightarrow> string \<Rightarrow> string" where
  "truncate_output maxBytes output =
    (if maxBytes \<le> length TruncationMarker then markerPrefix maxBytes
     else let n = min (maxBytes - length TruncationMarker) (length output)
          in take (back_to_start output n) output @ TruncationMarker)"

definition flatten_rune :: "string \<Rightarrow> string" where
  "flatten_rune r = (if r = [CHR 0x0D] \<or> r = [CHR 0x0A] \<or> r = [CHR 0x09] then '' '' else r)"

definition next_rune :: "string \<Rightarrow> string" where
  "next_rune s = (if rune_len s = 0 then replacement_rune else flatten_rune (take (rune_len s) s))"

definition next_size :: "string \<Rightarrow> nat" where
  "next_size s = (if rune_len s = 0 then invalid_run s else rune_len s)"

lemma next_size_pos: "s \<noteq> [] \<Longrightarrow> 0 < next_size s"
  by (cases s) (auto simp: next_size_def)

function bound_loop :: "nat \<Rightarrow> string \<Rightarrow> string \<Rightarrow> string" where
  "bound_loop maxBytes output value =
    (if value = [] then output
     else let r = next_rune value in
       if maxBytes < length output + length r then truncate_output maxBytes output
       else bound_loop maxBytes (output @ r) (drop (next_size value) value))"
  by pat_completeness auto
termination
  by (relation "measure (\<lambda>(m, out, v). length v)") (auto simp: next_size_pos diff_less)

declare bound_loop.simps [simp del]

definition effective_limit :: "int \<Rightarrow> nat" where
  "effective_limit maxBytes = (if maxBytes \<le> 0 \<or> int MaxBytes < maxBytes then MaxBytes else nat maxBytes)"

definition contains_break :: "string \<Rightarrow> bool" where
  "contains_break s \<longleftrightarrow> list_ex (\<lambda>c. c = CHR 0x0D \<or> c = CHR 0x0A \<or> c = CHR 0x09) s"

definition BoundTo :: "string \<Rightarrow> int \<Rightarrow> string" where
  "BoundTo value maxBytes =
    (let m = effective_limit maxBytes
     in if value = [] then value
        else if length value \<le> m \<and> ValidString value \<and> \<not> contains_break value then value
        else bound_loop m [] value)"

definition Bound :: "string \<Rightarrow> string" where
  "Bound value = BoundTo value (int MaxBytes)"

section \<open>The loop's invariant\<close>

text \<open>Well-formed, on one line and within the limit.\<close>

definition bounded_line :: "nat \<Rightarrow> string \<Rightarrow> bool" where
  "bounded_line m s \<longleftrightarrow> length s \<le> m \<and> ValidString s \<and> \<not> contains_break s"

lemma contains_break_append [simp]:
  "contains_break (s @ t) \<longleftrightarrow> contains_break s \<or> contains_break t"
  by (simp add: contains_break_def)

lemma contains_break_take: "contains_break (take n s) \<Longrightarrow> contains_break s"
  by (auto simp: contains_break_def list_ex_iff dest: in_set_takeD)

lemma ValidString_ascii: "byte c < 0x80 \<Longrightarrow> ValidString (c # s) = ValidString s"
proof -
  assume "byte c < 0x80"
  then have "rune_len (c # s) = 1" by (cases "c # s" rule: rune_len.cases) auto
  then show ?thesis using ValidString_rune [of "c # s"] by simp
qed

lemma ValidString_three: "seq3 a b c \<Longrightarrow> \<not> seq2 a b \<Longrightarrow> \<not> byte a < 0x80 \<Longrightarrow>
    ValidString (a # b # c # s) = ValidString s"
proof -
  assume "seq3 a b c" "\<not> seq2 a b" "\<not> byte a < 0x80"
  then have "rune_len (a # b # c # s) = 3" by (cases s) auto
  then show ?thesis using ValidString_rune [of "a # b # c # s"] by simp
qed

lemma ValidString_eval:
  "ValidString TruncationMarker" "ValidString replacement_rune" "ValidString '' ''"
  "\<not> contains_break TruncationMarker" "\<not> contains_break replacement_rune" "\<not> contains_break '' ''"
  by (simp_all add: TruncationMarker_def replacement_rune_def contains_break_def ValidString_ascii
      ValidString_three seq2_def seq3_def in_range_def is_cont_def)

lemma back_to_start_le: "back_to_start s n \<le> n"
  by (induction n) auto

lemma back_to_start_cut:
  "n \<le> length s \<Longrightarrow> back_to_start s n = length s \<or>
     back_to_start s n < length s \<and> RuneStart (s ! back_to_start s n) \<or> back_to_start s n = 0"
  by (induction n) auto

lemma bounded_line_cut:
  assumes "ValidString s" "\<not> contains_break s" "n \<le> length s"
  shows "ValidString (take (back_to_start s n) s)" "\<not> contains_break (take (back_to_start s n) s)"
    "length (take (back_to_start s n) s) \<le> n"
proof -
  show "ValidString (take (back_to_start s n) s)"
    by (rule ValidString_take [OF assms(1) back_to_start_cut [OF assms(3)]])
  show "\<not> contains_break (take (back_to_start s n) s)"
    using assms(2) contains_break_take by blast
  show "length (take (back_to_start s n) s) \<le> n"
    using back_to_start_le [of s n] by simp
qed

lemma truncate_bounded:
  assumes "ValidString output" "\<not> contains_break output"
  shows "bounded_line m (truncate_output m output)"
proof (cases "m \<le> length TruncationMarker")
  case True
  then show ?thesis
    using bounded_line_cut [of TruncationMarker m] ValidString_eval
    by (simp add: truncate_output_def markerPrefix_def Let_def bounded_line_def)
next
  case False
  then show ?thesis
    using bounded_line_cut [OF assms, of "min (m - length TruncationMarker) (length output)"]
      ValidString_eval(1,4)
    by (auto simp: truncate_output_def Let_def bounded_line_def intro: ValidString_append)
qed

lemma contains_break_rune:
  assumes "0 < rune_len s" "contains_break (take (rune_len s) s)"
  shows "\<exists>c. take (rune_len s) s = [c] \<and> (c = CHR 0x0D \<or> c = CHR 0x0A \<or> c = CHR 0x09)"
proof -
  obtain i where i: "i < rune_len s" "s ! i = CHR 0x0D \<or> s ! i = CHR 0x0A \<or> s ! i = CHR 0x09"
    using assms(2) rune_len_le [of s] by (force simp: contains_break_def list_ex_iff in_set_conv_nth)
  have "\<not> is_cont (s ! i)" using i(2) by (auto simp: is_cont_def in_range_def)
  then have "i = 0" using rune_cont [of i s] i(1) by auto
  then obtain c t where s: "s = c # t" "c = CHR 0x0D \<or> c = CHR 0x0A \<or> c = CHR 0x09"
    using i rune_len_le [of s] by (cases s) auto
  then have "rune_len s = 1" by (cases t rule: rune_len.cases) auto
  with s show ?thesis by simp
qed

lemma next_rune_ok: "ValidString (next_rune s) \<and> \<not> contains_break (next_rune s)"
proof (cases "rune_len s = 0")
  case True then show ?thesis by (simp add: next_rune_def ValidString_eval)
next
  case False
  then show ?thesis
    using ValidString_single [of s] contains_break_rune [of s] ValidString_eval
    by (auto simp: next_rune_def flatten_rune_def)
qed

lemma bound_loop_bounded:
  "bounded_line m out \<Longrightarrow> bounded_line m (bound_loop m out v)"
proof (induction m out v rule: bound_loop.induct)
  case (1 m out v)
  show ?case
  proof (cases "v = []")
    case True then show ?thesis using 1 by (simp add: bound_loop.simps)
  next
    case False
    show ?thesis
    proof (cases "m < length out + length (next_rune v)")
      case True
      with False show ?thesis
        using truncate_bounded "1.prems" by (subst bound_loop.simps) (simp add: bounded_line_def)
    next
      case fits: False
      have "bounded_line m (out @ next_rune v)"
        using "1.prems" fits next_rune_ok [of v]
        by (simp add: bounded_line_def ValidString_append)
      then show ?thesis
        using "1.IH" False fits by (subst bound_loop.simps) (simp add: Let_def)
    qed
  qed
qed

section \<open>Property\<close>

text \<open>C18: The diagnostic boundary. Whatever bytes come in and whatever limit is asked for, the
  result is valid UTF-8, has no CR, LF or TAB and is at most the effective limit long (4096 bytes
  when the limit is not between 1 and 4096); a value that already satisfies this is unchanged, so
  applying the boundary twice is applying it once.\<close>

theorem diagnostic_boundary:
  "length (BoundTo v n) \<le> effective_limit n \<and> effective_limit n \<le> 4096 \<and>
   ValidString (BoundTo v n) \<and> \<not> contains_break (BoundTo v n) \<and>
   (BoundTo v n = v \<longleftrightarrow> length v \<le> effective_limit n \<and> ValidString v \<and> \<not> contains_break v) \<and>
   BoundTo (BoundTo v n) n = BoundTo v n"
proof -
  have ok: "bounded_line (effective_limit n) (BoundTo v n)" for v
    using bound_loop_bounded [of "effective_limit n" "[]" v]
    by (auto simp: BoundTo_def Let_def bounded_line_def contains_break_def)
  have same: "BoundTo v n = v" if "bounded_line (effective_limit n) v" for v
    using that by (simp add: BoundTo_def Let_def bounded_line_def)
  have "effective_limit n \<le> 4096" by (simp add: effective_limit_def MaxBytes_def nat_le_iff)
  then show ?thesis
    using ok [of v] same [OF ok [of v]] same [of v] unfolding bounded_line_def by metis
qed

end
