(* ===== verification/NetAddr.thy ===== *)
theory NetAddr
  imports GoStrings "HOL-Library.Word"
begin

text \<open>
  What the program uses of Go's \<^verbatim>\<open>net/netip\<close> and \<^verbatim>\<open>net\<close>: addresses with their classification,
  CIDR prefixes, the parser of textual addresses and \<open>SplitHostPort\<close>. An IPv4 address is a 32-bit
  word, an IPv6 address a 128-bit word with a zone; \<open>NoAddr\<close> is the zero \<open>Addr\<close>.
\<close>

unbundle bit_operations_syntax

section \<open>Addresses\<close>

datatype addr = NoAddr | V4 "32 word" | V6 "128 word" string

text \<open>\<open>Addr.WithZone("")\<close> and \<open>Addr.Unmap\<close>.\<close>

fun without_zone :: "addr \<Rightarrow> addr" where
  "without_zone (V6 w z) = V6 w []"
| "without_zone a = a"

fun Unmap :: "addr \<Rightarrow> addr" where
  "Unmap (V6 w z) = (if drop_bit 32 w = 0xFFFF then V4 (ucast w) else V6 w z)"
| "Unmap a = a"

text \<open>Both together: what every check of the program is applied to.\<close>

definition plain_addr :: "addr \<Rightarrow> addr" where
  "plain_addr a = Unmap (without_zone a)"

definition in_prefix :: "nat \<Rightarrow> 'a::len word \<Rightarrow> 'a word \<Rightarrow> bool" where
  "in_prefix n p w \<longleftrightarrow> drop_bit (LENGTH('a) - n) (w XOR p) = 0"

fun IsValid :: "addr \<Rightarrow> bool" where
  "IsValid NoAddr = False"
| "IsValid _ = True"

fun IsLoopback :: "addr \<Rightarrow> bool" where
  "IsLoopback (V4 w) = in_prefix 8 0x7F000000 w"
| "IsLoopback (V6 w z) = (w = 1)"
| "IsLoopback NoAddr = False"

fun IsMulticast :: "addr \<Rightarrow> bool" where
  "IsMulticast (V4 w) = in_prefix 4 0xE0000000 w"
| "IsMulticast (V6 w z) = in_prefix 8 0xFF000000000000000000000000000000 w"
| "IsMulticast NoAddr = False"

fun IsLinkLocalUnicast :: "addr \<Rightarrow> bool" where
  "IsLinkLocalUnicast (V4 w) = in_prefix 16 0xA9FE0000 w"
| "IsLinkLocalUnicast (V6 w z) = in_prefix 10 0xFE800000000000000000000000000000 w"
| "IsLinkLocalUnicast NoAddr = False"

fun IsPrivate :: "addr \<Rightarrow> bool" where
  "IsPrivate (V4 w) = (in_prefix 8 0x0A000000 w \<or> in_prefix 12 0xAC100000 w \<or> in_prefix 16 0xC0A80000 w)"
| "IsPrivate (V6 w z) = in_prefix 7 0xFC000000000000000000000000000000 w"
| "IsPrivate NoAddr = False"

fun IsGlobalUnicast :: "addr \<Rightarrow> bool" where
  "IsGlobalUnicast NoAddr = False"
| "IsGlobalUnicast (V4 w) = (w \<noteq> 0 \<and> w \<noteq> 0xFFFFFFFF \<and> \<not> IsLoopback (V4 w) \<and>
     \<not> IsMulticast (V4 w) \<and> \<not> IsLinkLocalUnicast (V4 w))"
| "IsGlobalUnicast (V6 w z) = (V6 w z \<noteq> V6 0 [] \<and> \<not> IsLoopback (V6 w z) \<and>
     \<not> IsMulticast (V6 w z) \<and> \<not> IsLinkLocalUnicast (V6 w z))"

text \<open>A CIDR prefix of either family; \<open>Contains\<close> is false across families and for a zone.\<close>

datatype cidr = P4 nat "32 word" | P6 nat "128 word"

fun Contains :: "cidr \<Rightarrow> addr \<Rightarrow> bool" where
  "Contains (P4 n p) (V4 w) = in_prefix n p w"
| "Contains (P6 n p) (V6 w z) = (z = [] \<and> in_prefix n p w)"
| "Contains _ _ = False"

section \<open>Text\<close>

definition lower_byte :: "char \<Rightarrow> char" where
  "lower_byte c = (let n = of_char c :: nat in if 65 \<le> n \<and> n \<le> 90 then char_of (n + 32) else c)"

text \<open>\<open>strings.ToLower\<close> on ASCII text.\<close>

definition ToLower :: "string \<Rightarrow> string" where
  "ToLower = map lower_byte"

definition TrimSuffix :: "string \<Rightarrow> string \<Rightarrow> string" where
  "TrimSuffix s suf = (if suffix suf s then take (length s - length suf) s else s)"

text \<open>Four decimal fields without leading zeros, each below 256.\<close>

fun split_on :: "char \<Rightarrow> string \<Rightarrow> string list" where
  "split_on c [] = [[]]"
| "split_on c (x # xs) = (if x = c then [] # split_on c xs
     else case split_on c xs of [] \<Rightarrow> [[x]] | f # fs \<Rightarrow> (x # f) # fs)"

definition octet :: "string \<Rightarrow> nat option" where
  "octet f = (if f \<noteq> [] \<and> list_all is_digit f \<and> (length f = 1 \<or> hd f \<noteq> CHR ''0'') \<and> dec_value f \<le> 255
     then Some (dec_value f) else None)"

definition parseIPv4Fields :: "string \<Rightarrow> nat list option" where
  "parseIPv4Fields s = (let fs = map octet (split_on CHR ''.'' s)
     in if length fs = 4 \<and> list_all (\<lambda>f. f \<noteq> None) fs then Some (map the fs) else None)"

text \<open>The big-endian number of a list of bytes.\<close>

definition of_bytes :: "nat list \<Rightarrow> int" where
  "of_bytes bs = fold (\<lambda>b n. 256 * n + int b) bs 0"

definition parseIPv4 :: "string \<Rightarrow> addr" where
  "parseIPv4 s = (case parseIPv4Fields s of None \<Rightarrow> NoAddr | Some bs \<Rightarrow> V4 (word_of_int (of_bytes bs)))"

definition hex_digit :: "char \<Rightarrow> nat option" where
  "hex_digit c = (let n = of_char c :: nat in
     if 48 \<le> n \<and> n \<le> 57 then Some (n - 48)
     else if 97 \<le> n \<and> n \<le> 102 then Some (n - 87)
     else if 65 \<le> n \<and> n \<le> 70 then Some (n - 55) else None)"

text \<open>The hexadecimal digits at the front, their value and the rest.\<close>

fun hex_group :: "string \<Rightarrow> nat \<Rightarrow> nat \<Rightarrow> nat \<times> nat \<times> string" where
  "hex_group [] off acc = (off, acc, [])"
| "hex_group (c # s) off acc = (case hex_digit c of None \<Rightarrow> (off, acc, c # s)
     | Some v \<Rightarrow> hex_group s (off + 1) (16 * acc + v))"

lemma hex_group_rest: "length (snd (snd (hex_group s off acc))) \<le> length s"
  by (induction s off acc rule: hex_group.induct) (auto split: option.split)

lemma hex_group_off:
  "hex_group s off acc = (off', acc', s') \<Longrightarrow> off' + length s' = off + length s"
  by (induction s off acc rule: hex_group.induct) (auto split: option.splits)

text \<open>The loop over the groups of an IPv6 address: the bytes so far, the position of the ellipsis,
  the text left. \<open>None\<close> is a syntax error.\<close>

function ipv6_loop :: "nat list \<Rightarrow> nat option \<Rightarrow> string \<Rightarrow> (nat list \<times> nat option \<times> string) option" where
  "ipv6_loop bs ell s =
    (if 16 \<le> length bs then Some (bs, ell, s)
     else case hex_group s 0 0 of (off, acc, rest) \<Rightarrow>
       if off = 0 \<or> 4 < off then None
       else if take 1 rest = ''.'' then
         (if ell = None \<and> length bs \<noteq> 12 then None
          else if 16 < length bs + 4 then None
          else case parseIPv4Fields s of None \<Rightarrow> None | Some v4 \<Rightarrow> Some (bs @ v4, ell, []))
       else
         let bs1 = bs @ [acc div 256, acc mod 256] in
         if rest = [] then Some (bs1, ell, [])
         else if take 1 rest \<noteq> '':'' \<or> length rest = 1 then None
         else if rest ! 1 = CHR '':'' then
           (if ell \<noteq> None then None
            else if length rest = 2 then Some (bs1, Some (length bs1), [])
            else ipv6_loop bs1 (Some (length bs1)) (drop 2 rest))
         else ipv6_loop bs1 ell (drop 1 rest))"
  by pat_completeness auto
termination
proof (relation "measure (\<lambda>(bs, ell, s). length s)")
qed (auto dest!: hex_group_off [OF sym])

declare ipv6_loop.simps [simp del]

definition ipv6_groups :: "string \<Rightarrow> nat list option" where
  "ipv6_groups s =
    (if s = ''::'' then Some (replicate 16 0)
     else
       let start = (if prefix ''::'' s then ipv6_loop [] (Some 0) (drop 2 s) else ipv6_loop [] None s)
       in case start of None \<Rightarrow> None
        | Some (bs, ell, rest) \<Rightarrow>
            if rest \<noteq> [] then None
            else if length bs < 16 then (case ell of None \<Rightarrow> None
              | Some e \<Rightarrow> Some (take e bs @ replicate (16 - length bs) 0 @ drop e bs))
            else if ell \<noteq> None then None else Some bs)"

definition parseIPv6 :: "string \<Rightarrow> addr" where
  "parseIPv6 s =
    (let parts = (case index_byte CHR ''%'' s of None \<Rightarrow> Some (s, [])
       | Some i \<Rightarrow> if drop (i + 1) s = [] then None else Some (take i s, drop (i + 1) s))
     in case parts of None \<Rightarrow> NoAddr
      | Some (body, zone) \<Rightarrow> (case ipv6_groups body of None \<Rightarrow> NoAddr
          | Some bs \<Rightarrow> V6 (word_of_int (of_bytes bs)) zone))"

text \<open>\<open>netip.ParseAddr\<close>, \<open>NoAddr\<close> being the error: the first of the three characters decides.\<close>

definition ParseAddr :: "string \<Rightarrow> addr" where
  "ParseAddr s = (case filter (\<lambda>c. c \<in> set ''.:%'') s of [] \<Rightarrow> NoAddr
     | c # _ \<Rightarrow> if c = CHR ''.'' then parseIPv4 s else if c = CHR '':'' then parseIPv6 s else NoAddr)"

text \<open>\<open>net.SplitHostPort\<close>, \<open>None\<close> being the error.\<close>

definition SplitHostPort :: "string \<Rightarrow> (string \<times> string) option" where
  "SplitHostPort hp = (case last_index '':'' hp of None \<Rightarrow> None
     | Some i \<Rightarrow>
        let port = drop (i + 1) hp in
        if take 1 hp = ''['' then
          (case index_byte CHR '']'' hp of None \<Rightarrow> None
           | Some e \<Rightarrow> if e + 1 \<noteq> i then None
               else if CHR ''['' \<in> set (drop 1 hp) \<or> CHR '']'' \<in> set (drop (e + 1) hp) then None
               else Some (drop 1 (take e hp), port))
        else
          let host = take i hp in
          if CHR '':'' \<in> set host \<or> CHR ''['' \<in> set hp \<or> CHR '']'' \<in> set hp then None
          else Some (host, port))"

section \<open>Prefixes as ranges\<close>

lemma xor_zero_iff: "a XOR b = 0 \<longleftrightarrow> a = b" for a b :: "'a::len word"
proof
  assume "a XOR b = 0"
  moreover have "(a XOR b) XOR b = a" by (simp add: xor.assoc)
  ultimately show "a = b" by simp
qed simp

lemma in_prefix_drop: "in_prefix n p w \<longleftrightarrow> drop_bit (LENGTH('a) - n) w = drop_bit (LENGTH('a) - n) p"
  for p w :: "'a::len word"
  by (simp add: in_prefix_def drop_bit_xor xor_zero_iff)

lemma uint_drop_bit: "uint (drop_bit k v) = uint v div 2 ^ k" for v :: "'a::len word"
  by (metis drop_bit_eq_div unsigned_drop_bit_eq unsigned_take_bit_eq take_bit_length_eq)

lemma div_range: "0 < t \<Longrightarrow> w div t = q \<longleftrightarrow> t * q \<le> w \<and> w \<le> t * q + (t - 1)" for t w q :: int
proof -
  assume t: "0 < t"
  have w: "w = t * (w div t) + w mod t" "0 \<le> w mod t" "w mod t < t" using t by simp_all
  show ?thesis
  proof
    assume "t * q \<le> w \<and> w \<le> t * q + (t - 1)"
    then show "w div t = q" by (intro int_div_pos_eq [of w t q "w - t * q"]) auto
  qed (use w in auto)
qed

text \<open>An aligned prefix is the range of numbers from its address.\<close>

definition within :: "int \<Rightarrow> int \<Rightarrow> int \<Rightarrow> bool" where
  "within lo hi n \<longleftrightarrow> lo \<le> n \<and> n \<le> hi"

lemma in_prefix_range:
  fixes p w :: "'a::len word"
  assumes "2 ^ (LENGTH('a) - n) dvd uint p"
  shows "in_prefix n p w \<longleftrightarrow> within (uint p) (uint p + (2 ^ (LENGTH('a) - n) - 1)) (uint w)"
proof -
  define t :: int where "t = 2 ^ (LENGTH('a) - n)"
  have t: "0 < t" by (simp add: t_def)
  obtain q where q: "uint p = t * q" using assms by (auto simp: t_def)
  have "in_prefix n p w \<longleftrightarrow> uint w div t = q"
    unfolding in_prefix_drop word_uint_eq_iff uint_drop_bit
    using q t by (simp add: t_def)
  then show ?thesis using div_range [OF t, of "uint w" q] by (simp add: q t_def within_def)
qed

end
