(* ===== verification/Egress.thy ===== *)
theory Egress
  imports NetAddr
begin

text \<open>
  The egress guard of \<^verbatim>\<open>dify/egress.go\<close>: which origins a user may name as a Dify server and which
  addresses the gateway is willing to dial. \<open>url.Parse\<close> (\<open>ne_parse_url\<close>), the resolver and the
  dialer are parameters, in the record \<open>net_env\<close>; host names are ASCII text, which
  \<open>normalizeHTTPOrigin\<close> enforces.
\<close>

section \<open>URLs\<close>

text \<open>The fields of a parsed URL that are read: the host part is raw (\<open>host:port\<close>), the path is
  \<open>EscapedPath()\<close>.\<close>

record url =
  url_scheme :: string
  url_has_user :: bool
  url_host :: string
  url_path :: string
  url_raw_query :: string
  url_fragment :: string

text \<open>\<open>url.splitHostPort\<close>: a colon followed by digits only starts a port.\<close>

definition url_split :: "string \<Rightarrow> string \<times> string" where
  "url_split h =
    (let (host, port) = (case last_index '':'' h of None \<Rightarrow> (h, [])
       | Some i \<Rightarrow> if list_all is_digit (drop (i + 1) h) then (take i h, drop (i + 1) h) else (h, []))
     in if prefix ''['' host \<and> suffix '']'' host then (drop 1 (take (length host - 1) host), port)
        else (host, port))"

definition Hostname :: "url \<Rightarrow> string" where "Hostname u = fst (url_split (url_host u))"
definition Port :: "url \<Rightarrow> string" where "Port u = snd (url_split (url_host u))"

record net_env =
  ne_parse_url :: "string \<Rightarrow> url option"
  ne_lookup :: "string \<Rightarrow> addr list option"
  ne_connect :: "addr \<Rightarrow> string \<Rightarrow> bool"

text \<open>\<open>strings.TrimRight(s, "/")\<close> and the host part of a normalized URL in brackets when it is an
  IPv6 literal.\<close>

definition trim_slashes :: "string \<Rightarrow> string" where
  "trim_slashes s = rev (dropWhile (\<lambda>c. c = CHR ''/'') (rev s))"

definition bracketed :: "string \<Rightarrow> string" where
  "bracketed h = (if CHR '':'' \<in> set h then ''['' @ h @ '']'' else h)"

datatype egress_error =
    ErrURL | ErrScheme | ErrNoHost | ErrCredentials | ErrPath | ErrHostname | ErrNotAscii | ErrPort
  | ErrLocalHost | ErrNonPublic

text \<open>The normalized origin, with the host and port it is made of. A percent sign, which only the
  zone of an IPv6 literal can contain, is escaped by \<open>URL.String\<close>.\<close>

definition origin_text :: "string \<Rightarrow> string \<Rightarrow> string" where
  "origin_text scheme host = scheme @ ''://'' @ concat (map (\<lambda>c. if c = CHR ''%'' then ''%25'' else [c]) host)"

definition normalizeHTTPOrigin :: "net_env \<Rightarrow> string \<Rightarrow> (egress_error, string \<times> url) result" where
  "normalizeHTTPOrigin env raw = (case ne_parse_url env (TrimSpace raw) of
     None \<Rightarrow> Inl ErrURL
   | Some u \<Rightarrow>
      if url_scheme u \<noteq> ''http'' \<and> url_scheme u \<noteq> ''https'' then Inl ErrScheme
      else if url_host u = [] \<or> Hostname u = [] then Inl ErrNoHost
      else if url_has_user u \<or> url_raw_query u \<noteq> [] \<or> url_fragment u \<noteq> [] then Inl ErrCredentials
      else if trim_slashes (url_path u) \<noteq> [] \<and> trim_slashes (url_path u) \<noteq> ''/v1'' then Inl ErrPath
      else if list_ex (\<lambda>c. of_char c = (0::nat) \<or> of_char c = (13::nat) \<or> of_char c = (10::nat) \<or>
          of_char c = (9::nat) \<or> c \<in> set [CHR '' '', CHR ''/'', CHR 0x5C, CHR ''@'']) (Hostname u)
      then Inl ErrHostname
      else if list_ex (\<lambda>c. (127::nat) < of_char c) (Hostname u) then Inl ErrNotAscii
      else if Port u \<noteq> [] \<and> (case Atoi (Port u) of None \<Rightarrow> True | Some n \<Rightarrow> n < 1 \<or> 65535 < n)
      then Inl ErrPort
      else
        let h0 = ToLower (TrimSuffix (Hostname u) ''.'')
        in if h0 = [] then Inl ErrHostname
           else
             let host = bracketed h0 @ (if Port u \<noteq> [] then '':'' @ Port u else [])
             in Inr (origin_text (ToLower (url_scheme u)) host,
                     \<lparr>url_scheme = ToLower (url_scheme u), url_has_user = False, url_host = host,
                      url_path = [], url_raw_query = [], url_fragment = []\<rparr>))"

definition effectivePort :: "url \<Rightarrow> string" where
  "effectivePort u = (if Port u \<noteq> [] then Port u else if url_scheme u = ''https'' then ''443'' else ''80'')"

definition originKey :: "string \<Rightarrow> string \<Rightarrow> string \<Rightarrow> string" where
  "originKey scheme host port =
     ToLower scheme @ ''://'' @ bracketed (ToLower (TrimSuffix host ''.'')) @ '':'' @ port"

section \<open>The policy\<close>

record egress_policy =
  ep_allowed :: "string list"
  ep_self_ips :: "addr list"
  ep_self_origins :: "string list"
  ep_self_ports :: "int list"

definition empty_policy :: egress_policy where
  "empty_policy = \<lparr>ep_allowed = [], ep_self_ips = [], ep_self_origins = [], ep_self_ports = []\<rparr>"

fun NewEgressPolicy :: "net_env \<Rightarrow> string list \<Rightarrow> egress_policy \<Rightarrow> (egress_error, egress_policy) result" where
  "NewEgressPolicy env [] p = Inr p"
| "NewEgressPolicy env (e # es) p =
    (if TrimSpace e = [] then NewEgressPolicy env es p
     else case normalizeHTTPOrigin env (TrimSpace e) of Inl err \<Rightarrow> Inl err
     | Inr (origin, _) \<Rightarrow> NewEgressPolicy env es (p\<lparr>ep_allowed := List.insert origin (ep_allowed p)\<rparr>))"

definition additionallyBlocked :: "cidr list" where
  "additionallyBlocked = [
     P4 8 0, P4 10 0x64400000, P4 24 0xC0000000, P4 24 0xC0000200, P4 24 0xC0586300,
     P4 15 0xC6120000, P4 24 0xC6336400, P4 24 0xCB007100, P4 4 0xF0000000,
     P6 96 0x0064FF9B000000000000000000000000, P6 48 0x0064FF9B000100000000000000000000,
     P6 32 0x20010000000000000000000000000000, P6 32 0x20010DB8000000000000000000000000,
     P6 16 0x20020000000000000000000000000000]"

definition blocked :: "addr \<Rightarrow> bool" where
  "blocked a0 = (let a = plain_addr a0 in
     \<not> IsValid a \<or> \<not> IsGlobalUnicast a \<or> IsPrivate a \<or> IsLoopback a \<or> IsLinkLocalUnicast a \<or>
     list_ex (\<lambda>p. Contains p a) additionallyBlocked)"

definition isLoopbackHost :: "string \<Rightarrow> bool" where
  "isLoopbackHost host \<longleftrightarrow> host = ''localhost'' \<or> suffix ''.localhost'' host \<or> suffix ''.local'' host"

definition ValidateBaseURL :: "net_env \<Rightarrow> egress_policy \<Rightarrow> string \<Rightarrow> (egress_error, string) result" where
  "ValidateBaseURL env p raw = (case normalizeHTTPOrigin env raw of Inl e \<Rightarrow> Inl e
   | Inr (origin, u) \<Rightarrow>
      let allowed = (origin \<in> set (ep_allowed p));
          hostname = ToLower (TrimSuffix (Hostname u) ''.'');
          a = ParseAddr (Hostname u)
      in if isLoopbackHost hostname \<and> \<not> allowed then Inl ErrLocalHost
         else if a \<noteq> NoAddr \<and> blocked a \<and> \<not> allowed then Inl ErrNonPublic
         else Inr origin)"

section \<open>The gateway's own sites\<close>

definition add_ip :: "addr \<Rightarrow> egress_policy \<Rightarrow> egress_policy" where
  "add_ip a p = p\<lparr>ep_self_ips := List.insert a (ep_self_ips p)\<rparr>"

definition self_origin :: "string \<Rightarrow> string \<Rightarrow> string \<Rightarrow> string" where
  "self_origin hostPort port scheme = scheme @ ''://'' @ hostPort @ '':'' @
     (if port \<noteq> [] then port else if scheme = ''http'' then ''80'' else ''443'')"

definition addSelfHost :: "net_env \<Rightarrow> string \<Rightarrow> bool \<Rightarrow> egress_policy \<Rightarrow> egress_policy" where
  "addSelfHost env raw0 isSite p =
    (let raw = TrimSpace raw0;
         parsed = (case ne_parse_url env raw of
             Some u \<Rightarrow> if url_scheme u = [] \<or> Hostname u = [] then ne_parse_url env (''http://'' @ raw) else Some u
           | None \<Rightarrow> ne_parse_url env (''http://'' @ raw))
     in if raw = [] then p
        else case parsed of None \<Rightarrow> p | Some u \<Rightarrow>
          let hostname = ToLower (TrimSuffix (Hostname u) ''.'');
              p1 = (if isLoopbackHost hostname then p
                    else if ParseAddr hostname \<noteq> NoAddr then add_ip (Unmap (ParseAddr hostname)) p
                    else case ne_lookup env hostname of None \<Rightarrow> p
                      | Some as \<Rightarrow> fold (\<lambda>a. add_ip (plain_addr a)) as p);
              schemes = (if isSite then [ToLower (url_scheme u)] else [''http'', ''https''])
          in if hostname = [] then p
             else p1\<lparr>ep_self_origins := fold (\<lambda>s. List.insert (self_origin (bracketed hostname) (Port u) s))
                    schemes (ep_self_origins p1)\<rparr>)"

definition listenPort :: "string \<Rightarrow> int option" where
  "listenPort listenAddr = (case SplitHostPort listenAddr of None \<Rightarrow> None | Some (_, port) \<Rightarrow> Atoi port)"

definition AddSelfOrigins :: "net_env \<Rightarrow> string \<Rightarrow> string \<Rightarrow> string \<Rightarrow> egress_policy \<Rightarrow> egress_policy" where
  "AddSelfOrigins env siteBaseURL adminHost listenAddr p =
    (let p1 = add_ip (V6 1 []) (add_ip (V4 0x7F000001) p);
         p2 = (case SplitHostPort listenAddr of None \<Rightarrow> p1
           | Some (host, _) \<Rightarrow> if ParseAddr host \<noteq> NoAddr then add_ip (Unmap (ParseAddr host)) p1 else p1);
         p3 = (case listenPort listenAddr of None \<Rightarrow> p2
           | Some n \<Rightarrow> if 1 \<le> n \<and> n \<le> 65535 then p2\<lparr>ep_self_ports := List.insert n (ep_self_ports p2)\<rparr>
               else p2)
     in addSelfHost env adminHost False (addSelfHost env siteBaseURL True p3))"

section \<open>Dialing\<close>

definition originAllowedForDial :: "egress_policy \<Rightarrow> string \<Rightarrow> string \<Rightarrow> string \<Rightarrow> bool" where
  "originAllowedForDial p scheme host port =
    (let key = originKey scheme host port in
     if key \<in> set (ep_allowed p) then True
     else if scheme = ''http'' \<and> port = ''80'' \<or> scheme = ''https'' \<and> port = ''443''
     then TrimSuffix key ('':'' @ port) \<in> set (ep_allowed p) else False)"

definition isSelfTarget :: "egress_policy \<Rightarrow> addr \<Rightarrow> int \<Rightarrow> bool" where
  "isSelfTarget p a port \<longleftrightarrow> a \<in> set (ep_self_ips p) \<and> port \<in> set (ep_self_ports p)"

definition isSelfOrigin :: "egress_policy \<Rightarrow> string \<Rightarrow> string \<Rightarrow> string \<Rightarrow> bool" where
  "isSelfOrigin p scheme host port \<longleftrightarrow> originKey scheme host port \<in> set (ep_self_origins p)"

datatype dial_outcome =
    DialBadAddress | DialUnexpected | DialUnresolved | DialNoAddresses | DialBlocked addr
  | FakeRefused addr int | DialFailed | Connected addr

text \<open>The attempts are the addresses a connection was really tried to, in order.\<close>

fun dial_loop :: "net_env \<Rightarrow> string \<Rightarrow> addr list \<Rightarrow> addr list \<times> dial_outcome" where
  "dial_loop env port [] = ([], DialFailed)"
| "dial_loop env port (a # as) = (let b = plain_addr a in
     if ne_connect env b port then ([b], Connected b)
     else case dial_loop env port as of (tried, out) \<Rightarrow> (b # tried, out))"

definition resolved :: "net_env \<Rightarrow> string \<Rightarrow> addr list option" where
  "resolved env host = (if ParseAddr host \<noteq> NoAddr then Some [ParseAddr host] else ne_lookup env host)"

definition port_number :: "string \<Rightarrow> int" where
  "port_number port = (case Atoi port of None \<Rightarrow> 0 | Some n \<Rightarrow> n)"

text \<open>\<open>strings.EqualFold\<close> on ASCII text.\<close>

definition EqualFold :: "string \<Rightarrow> string \<Rightarrow> bool" where
  "EqualFold s t \<longleftrightarrow> ToLower s = ToLower t"

definition dialContext ::
  "net_env \<Rightarrow> egress_policy \<Rightarrow> string \<Rightarrow> string \<Rightarrow> string \<Rightarrow> string \<Rightarrow> addr list \<times> dial_outcome" where
  "dialContext env p scheme expectedHost expectedPort address =
    (case SplitHostPort address of None \<Rightarrow> ([], DialBadAddress)
     | Some (host, port) \<Rightarrow>
        if \<not> EqualFold (TrimSuffix host ''.'') (TrimSuffix expectedHost ''.'') \<or> port \<noteq> expectedPort
        then ([], DialUnexpected)
        else case resolved env host of None \<Rightarrow> ([], DialUnresolved)
        | Some [] \<Rightarrow> ([], DialNoAddresses)
        | Some (a # as) \<Rightarrow>
           let allowed = originAllowedForDial p scheme host port;
               portNum = port_number port;
               self = (list_ex (\<lambda>x. isSelfTarget p (plain_addr x) portNum) (a # as) \<or>
                       isSelfOrigin p scheme host port)
           in case List.find (\<lambda>x. blocked (plain_addr x) \<and> \<not> allowed) (a # as) of
                Some bad \<Rightarrow> ([], DialBlocked (plain_addr bad))
              | None \<Rightarrow> if self then ([], FakeRefused (plain_addr a) portNum)
                  else dial_loop env port (a # as))"

text \<open>\<open>newHTTPClient\<close>: the dialer of the client for a stored origin. Redirects are refused and
  environment proxies ignored, so this is the only way out.\<close>

definition newHTTPClient_dial ::
  "net_env \<Rightarrow> egress_policy \<Rightarrow> string \<Rightarrow> string \<Rightarrow> addr list \<times> dial_outcome" where
  "newHTTPClient_dial env p origin address = (case normalizeHTTPOrigin env origin of
     Inl e \<Rightarrow> ([], DialUnexpected)
   | Inr (_, u) \<Rightarrow> dialContext env p (ToLower (url_scheme u)) (Hostname u) (effectivePort u) address)"

section \<open>The blocked addresses are the special-use ranges\<close>

definition ip4 :: "nat \<Rightarrow> nat \<Rightarrow> nat \<Rightarrow> nat \<Rightarrow> int" where
  "ip4 a b c d = of_bytes [a, b, c, d]"

text \<open>First and last address of every IPv4 range that is not dialled.\<close>

definition special_ranges4 :: "(int \<times> int) list" where
  "special_ranges4 = [
     (ip4 0 0 0 0, ip4 0 255 255 255), (ip4 10 0 0 0, ip4 10 255 255 255),
     (ip4 100 64 0 0, ip4 100 127 255 255), (ip4 127 0 0 0, ip4 127 255 255 255),
     (ip4 169 254 0 0, ip4 169 254 255 255), (ip4 172 16 0 0, ip4 172 31 255 255),
     (ip4 192 0 0 0, ip4 192 0 0 255), (ip4 192 0 2 0, ip4 192 0 2 255),
     (ip4 192 88 99 0, ip4 192 88 99 255), (ip4 192 168 0 0, ip4 192 168 255 255),
     (ip4 198 18 0 0, ip4 198 19 255 255), (ip4 198 51 100 0, ip4 198 51 100 255),
     (ip4 203 0 113 0, ip4 203 0 113 255), (ip4 224 0 0 0, ip4 255 255 255 255)]"

text \<open>The same for IPv6, from the first 16-bit groups of an address.\<close>

definition ip6 :: "nat \<Rightarrow> nat \<Rightarrow> nat \<Rightarrow> int" where
  "ip6 a b c = (int a * 2 ^ 32 + int b * 2 ^ 16 + int c) * 2 ^ 80"

definition special_ranges6 :: "(int \<times> int) list" where
  "special_ranges6 = [
     (0, 1),
     (ip6 0x64 0xFF9B 0, ip6 0x64 0xFF9B 0 + 0xFFFFFFFF), (ip6 0x64 0xFF9B 1, ip6 0x64 0xFF9B 2 - 1),
     (ip6 0x2001 0 0, ip6 0x2001 1 0 - 1), (ip6 0x2001 0xDB8 0, ip6 0x2001 0xDB9 0 - 1),
     (ip6 0x2002 0 0, ip6 0x2003 0 0 - 1), (ip6 0xFC00 0 0, ip6 0xFE00 0 0 - 1),
     (ip6 0xFE80 0 0, ip6 0xFEC0 0 0 - 1), (ip6 0xFF00 0 0, ip6 0xFFFF 0xFFFF 0xFFFF + (2 ^ 80 - 1))]"

definition in_ranges :: "(int \<times> int) list \<Rightarrow> int \<Rightarrow> bool" where
  "in_ranges rs n \<longleftrightarrow> list_ex (\<lambda>(lo, hi). within lo hi n) rs"

lemma blocked_v4: "blocked (V4 w) \<longleftrightarrow> in_ranges special_ranges4 (uint w)"
proof -
  have "uint w < 4294967296" using uint_lt2p [of w] by simp
  then have m: "within 3758096384 4294967295 (uint w) \<longleftrightarrow>
      within 3758096384 4026531839 (uint w) \<or> within 4026531840 4294967295 (uint w)"
    and z: "w = 0xFFFFFFFF \<Longrightarrow> within 4026531840 4294967295 (uint w)" "w = 0 \<Longrightarrow> within 0 16777215 (uint w)"
    by (auto simp: within_def)
  show ?thesis
    by (simp add: in_ranges_def special_ranges4_def ip4_def of_bytes_def m
        blocked_def plain_addr_def additionallyBlocked_def in_prefix_range) (use z in blast)
qed

lemma blocked_v6: "blocked (V6 w z) \<longleftrightarrow>
  (if drop_bit 32 w = 0xFFFF then in_ranges special_ranges4 (uint (ucast w :: 32 word))
   else in_ranges special_ranges6 (uint w))"
proof (cases "drop_bit 32 w = 0xFFFF")
  case True
  have "blocked (V6 w z) = blocked (V4 (ucast w))"
    by (simp add: blocked_def plain_addr_def True)
  then show ?thesis by (simp add: True blocked_v4)
next
  case False
  have "within 0 1 n \<longleftrightarrow> n = 0 \<or> n = 1" for n :: int
    by (auto simp: within_def)
  then have m: "within 0 1 (uint w) \<longleftrightarrow> w = 0 \<or> w = 1"
    by (simp add: word_uint_eq_iff)
  show ?thesis
    by (simp add: False in_ranges_def special_ranges6_def ip6_def m
        blocked_def plain_addr_def additionallyBlocked_def in_prefix_range) blast
qed

section \<open>What is dialled\<close>

lemma dial_loop_tried:
  "dial_loop env port as = (tried, out) \<Longrightarrow>
   set tried \<subseteq> plain_addr ` set as \<and> (as \<noteq> [] \<longrightarrow> tried \<noteq> []) \<and>
   (\<forall>a. out = Connected a \<longrightarrow> a \<in> set tried \<and> ne_connect env a port)"
proof (induction as arbitrary: tried out)
  case (Cons a as)
  obtain t0 o0 where r: "dial_loop env port as = (t0, o0)" by (cases "dial_loop env port as")
  from Cons.IH [OF r] Cons.prems r show ?case by (auto simp: Let_def split: if_splits)
qed simp

definition may_dial :: "net_env \<Rightarrow> egress_policy \<Rightarrow> string \<Rightarrow> string \<Rightarrow> string \<Rightarrow> addr list \<Rightarrow> bool" where
  "may_dial env p scheme host port as \<longleftrightarrow> as \<noteq> [] \<and> \<not> isSelfOrigin p scheme host port \<and>
     (\<forall>a \<in> set as. \<not> isSelfTarget p (plain_addr a) (port_number port) \<and>
        (blocked a \<longrightarrow> originAllowedForDial p scheme host port))"

lemma plain_idem [simp]: "plain_addr (plain_addr a) = plain_addr a"
  by (cases a) (auto simp: plain_addr_def)

lemma blocked_plain [simp]: "blocked (plain_addr a) = blocked a"
  by (simp add: blocked_def)

lemma dialContext_tried:
  assumes "dialContext env p scheme eh ep address = (tried, out)"
  shows "(tried \<noteq> [] \<longleftrightarrow> (\<exists>host as. SplitHostPort address = Some (host, ep) \<and>
        EqualFold (TrimSuffix host ''.'') (TrimSuffix eh ''.'') \<and> resolved env host = Some as \<and>
        may_dial env p scheme host ep as)) \<and>
    (\<forall>host as. SplitHostPort address = Some (host, ep) \<longrightarrow> resolved env host = Some as \<longrightarrow>
        set tried \<subseteq> plain_addr ` set as) \<and>
    (\<forall>a. out = Connected a \<longrightarrow> a \<in> set tried)"
proof (cases "SplitHostPort address")
  case None
  then show ?thesis using assms by (simp add: dialContext_def)
next
  case (Some hp)
  obtain host port where hp: "hp = (host, port)" by (cases hp)
  show ?thesis
  proof (cases "EqualFold (TrimSuffix host ''.'') (TrimSuffix eh ''.'') \<and> port = ep")
    case False
    then show ?thesis using assms by (auto simp: dialContext_def Some hp)
  next
    case True
    show ?thesis
    proof (cases "resolved env host")
      case None
      then show ?thesis using assms True by (simp add: dialContext_def Some hp)
    next
      case res: (Some as)
      show ?thesis
      proof (cases "may_dial env p scheme host ep as")
        case False
        then have "tried = []" "\<forall>a. out \<noteq> Connected a"
          using assms True
          by (auto simp: dialContext_def Some hp res Let_def may_dial_def list_ex_iff find_None_iff
              split: list.splits option.splits if_splits)
        then show ?thesis using False True by (simp add: Some hp res)
      next
        case ok: True
        obtain a as' where as: "as = a # as'" using ok by (cases as) (auto simp: may_dial_def)
        have "List.find (\<lambda>x. blocked (plain_addr x) \<and> \<not> originAllowedForDial p scheme host ep) as = None"
          using ok by (auto simp: find_None_iff may_dial_def)
        then have "dial_loop env ep as = (tried, out)"
          using assms True ok
          by (simp add: dialContext_def Some hp res as Let_def may_dial_def list_ex_iff split: option.splits)
        from dial_loop_tried [OF this] show ?thesis using ok True as by (auto simp: Some hp res)
      qed
    qed
  qed
qed

lemma add_ip_fields [simp]:
  "set (ep_self_ips (add_ip a p)) = insert a (set (ep_self_ips p))"
  "ep_self_ports (add_ip a p) = ep_self_ports p" "ep_allowed (add_ip a p) = ep_allowed p"
  by (simp_all add: add_ip_def)

lemma fold_add_ip:
  "set (ep_self_ips p) \<subseteq> set (ep_self_ips (fold (\<lambda>a. add_ip (f a)) as p)) \<and>
   ep_self_ports (fold (\<lambda>a. add_ip (f a)) as p) = ep_self_ports p"
proof (induction as arbitrary: p)
  case (Cons a as)
  show ?case using Cons.IH [of "add_ip (f a) p"] by auto
qed simp

lemma addSelfHost_grows:
  "set (ep_self_ips p) \<subseteq> set (ep_self_ips (addSelfHost env raw b p)) \<and>
   ep_self_ports (addSelfHost env raw b p) = ep_self_ports p"
  using fold_add_ip [of p plain_addr]
  by (auto simp: addSelfHost_def Let_def split: option.splits)

text \<open>The addresses that are the gateway whatever the names resolve to.\<close>

definition own_addresses :: "string \<Rightarrow> addr set" where
  "own_addresses listenAddr = {V4 0x7F000001, V6 1 []} \<union>
     (case SplitHostPort listenAddr of None \<Rightarrow> {}
      | Some (host, _) \<Rightarrow> if ParseAddr host \<noteq> NoAddr then {Unmap (ParseAddr host)} else {})"

lemma AddSelfOrigins_own:
  assumes "listenPort listenAddr = Some n" "1 \<le> n" "n \<le> 65535" "a \<in> own_addresses listenAddr"
  shows "isSelfTarget (AddSelfOrigins env site admin listenAddr p) a n"
proof -
  obtain host port where hp: "SplitHostPort listenAddr = Some (host, port)"
    using assms(1) by (auto simp: listenPort_def split: option.splits)
  let ?p2 = "if ParseAddr host \<noteq> NoAddr then add_ip (Unmap (ParseAddr host)) (add_ip (V6 1 []) (add_ip (V4 0x7F000001) p))
     else add_ip (V6 1 []) (add_ip (V4 0x7F000001) p)"
  let ?p3 = "?p2\<lparr>ep_self_ports := List.insert n (ep_self_ports ?p2)\<rparr>"
  have "AddSelfOrigins env site admin listenAddr p = addSelfHost env admin False (addSelfHost env site True ?p3)"
    using assms(1-3) by (simp add: AddSelfOrigins_def Let_def hp)
  moreover have "a \<in> set (ep_self_ips ?p3)" "n \<in> set (ep_self_ports ?p3)"
    using assms(4) by (auto simp: own_addresses_def hp split: if_splits)
  ultimately show ?thesis
    using addSelfHost_grows [of ?p3 env site True]
      addSelfHost_grows [of "addSelfHost env site True ?p3" env admin False]
    by (auto simp: isSelfTarget_def)
qed

section \<open>Properties\<close>

text \<open>C20: The egress guard. A connection is tried exactly when the dialled host and port are those of
  the stored origin, the host resolves, it is no origin of the gateway itself, no answer of the
  resolver is the gateway's own listener, and, unless the operator allowlisted the origin, no
  answer at all is a blocked address; then only answers of the resolver are tried and the
  connection returned is one of them.\<close>

theorem egress_guard:
  assumes "dialContext env p scheme eh ep address = (tried, out)"
  shows "(tried \<noteq> [] \<longleftrightarrow> (\<exists>host as. SplitHostPort address = Some (host, ep) \<and>
        EqualFold (TrimSuffix host ''.'') (TrimSuffix eh ''.'') \<and> resolved env host = Some as \<and> as \<noteq> [] \<and>
        \<not> isSelfOrigin p scheme host ep \<and>
        list_all (\<lambda>a. \<not> isSelfTarget p (plain_addr a) (port_number ep)) as \<and>
        (originAllowedForDial p scheme host ep \<or> list_all (\<lambda>a. \<not> blocked a) as))) \<and>
    (\<forall>host as. SplitHostPort address = Some (host, ep) \<longrightarrow> resolved env host = Some as \<longrightarrow>
        set tried \<subseteq> plain_addr ` set as) \<and>
    (\<forall>a. out = Connected a \<longrightarrow> a \<in> set tried)"
proof -
  have "may_dial env p scheme host ep as \<longleftrightarrow> as \<noteq> [] \<and> \<not> isSelfOrigin p scheme host ep \<and>
      list_all (\<lambda>a. \<not> isSelfTarget p (plain_addr a) (port_number ep)) as \<and>
      (originAllowedForDial p scheme host ep \<or> list_all (\<lambda>a. \<not> blocked a) as)" for host as
    by (auto simp: may_dial_def list_all_iff)
  then show ?thesis using dialContext_tried [OF assms] by simp
qed

definition sample_env :: net_env where
  "sample_env = \<lparr>ne_parse_url = \<lambda>_. None,
     ne_lookup = \<lambda>h. if h = ''evil.example'' then Some [V4 0x08080808, V4 0x0A000001] else Some [V4 0x08080808],
     ne_connect = \<lambda>_ _. True\<rparr>"

theorem egress_guard_witness:
  "fst (dialContext sample_env empty_policy ''https'' ''evil.example'' ''443'' ''evil.example:443'') = [] \<and>
   fst (dialContext sample_env empty_policy ''https'' ''x.example'' ''443'' ''x.example:443'') \<noteq> []"
proof -
  note G = egress_guard [OF prod.collapse [symmetric], of sample_env empty_policy "''https''"]
  have "blocked (V4 0x0A000001)" "\<not> blocked (V4 0x08080808)"
    by (simp_all add: blocked_v4 in_ranges_def special_ranges4_def ip4_def of_bytes_def within_def)
  moreover have "SplitHostPort ''evil.example:443'' = Some (''evil.example'', ''443'')"
    "SplitHostPort ''x.example:443'' = Some (''x.example'', ''443'')"
    "resolved sample_env ''evil.example'' = Some [V4 0x08080808, V4 0x0A000001]"
    "resolved sample_env ''x.example'' = Some [V4 0x08080808]"
    by code_simp+
  ultimately show ?thesis
    using G [of "''evil.example''" "''443''" "''evil.example:443''"]
      G [of "''x.example''" "''443''" "''x.example:443''"]
    by (simp add: originAllowedForDial_def Let_def empty_policy_def isSelfOrigin_def isSelfTarget_def EqualFold_def)
qed

text \<open>The gateway never calls itself. Once its own sites are registered with a listener on port
  \<open>n\<close>, no dial to that port is tried when any answer is a loopback or listening address, in plain
  or IPv4-mapped form, whatever the allowlist says; the caller sees a refused connection or an
  error.\<close>

theorem own_listener_unreachable:
  assumes "listenPort listenAddr = Some n" "1 \<le> n" "n \<le> 65535" "port_number ep = n"
    and "SplitHostPort address = Some (host, ep)" "resolved env host = Some as"
    and "a \<in> set as" "plain_addr a \<in> own_addresses listenAddr"
  shows "\<exists>out. dialContext env (AddSelfOrigins env' site admin listenAddr p) scheme eh ep address = ([], out) \<and>
    (\<forall>c. out \<noteq> Connected c)"
proof -
  let ?p = "AddSelfOrigins env' site admin listenAddr p"
  obtain tried out where d: "dialContext env ?p scheme eh ep address = (tried, out)"
    by (cases "dialContext env ?p scheme eh ep address")
  have "isSelfTarget ?p (plain_addr a) (port_number ep)"
    using AddSelfOrigins_own [OF assms(1-3,8)] assms(4) by simp
  then have "\<not> may_dial env ?p scheme host ep as" using assms(7) by (auto simp: may_dial_def)
  then have "tried = []" using dialContext_tried [OF d] assms(5,6) by auto
  then show ?thesis using d dialContext_tried [OF d] by auto
qed

theorem own_listener_unreachable_witness:
  "\<exists>out. dialContext sample_env (AddSelfOrigins sample_env ''https://a.example'' ''b.example'' '':8080''
       (empty_policy\<lparr>ep_allowed := [''http://127.0.0.1:8080'']\<rparr>)) ''http'' ''127.0.0.1'' ''8080''
       ''127.0.0.1:8080'' = ([], out) \<and> (\<forall>c. out \<noteq> Connected c)"
  by (rule own_listener_unreachable [of "'':8080''" 8080 _ _ "''127.0.0.1''" _ "[V4 0x7F000001]" "V4 0x7F000001"])
    (simp_all add: own_addresses_def plain_addr_def, code_simp+)

text \<open>What is blocked. An IPv4 address is blocked exactly when it lies in one of the special-use
  ranges (written out in dotted decimal); an IPv6 address is blocked exactly when it maps such an
  IPv4 address or lies in one of the special-use IPv6 ranges; zones make no difference.\<close>

theorem blocked_special_use:
  "blocked NoAddr \<and> (blocked (V4 w) \<longleftrightarrow> in_ranges special_ranges4 (uint w)) \<and>
   (blocked (V6 x z) \<longleftrightarrow> in_ranges special_ranges6 (uint x) \<and> uint x div 2 ^ 32 \<noteq> 0xFFFF \<or>
      uint x div 2 ^ 32 = 0xFFFF \<and> in_ranges special_ranges4 (uint x mod 2 ^ 32))"
proof -
  have "(drop_bit 32 x = 0xFFFF) = (uint x div 2 ^ 32 = 0xFFFF)"
    by (simp add: word_uint_eq_iff uint_drop_bit)
  moreover have "uint (ucast x :: 32 word) = uint x mod 2 ^ 32"
    by (simp add: unsigned_ucast_eq take_bit_eq_mod)
  moreover have "blocked NoAddr" by (simp add: blocked_def plain_addr_def)
  ultimately show ?thesis by (auto simp: blocked_v4 blocked_v6)
qed

end
