(* ===== verification/Settings.thy ===== *)
theory Settings
  imports Schema GoStrings
begin

text \<open>
  The settings table, \<^verbatim>\<open>db/settings.go\<close>: a key-value map with an upsert, read through getters that
  fall back to a default when a value is unset or does not parse.
\<close>

definition GetSetting :: "string \<Rightarrow> store \<Rightarrow> string" where
  "GetSetting key st = (case map_of (settings st) key of None \<Rightarrow> [] | Some v \<Rightarrow> v)"

definition GetSettingString :: "string \<Rightarrow> string \<Rightarrow> store \<Rightarrow> string" where
  "GetSettingString key fallback st = (if GetSetting key st = [] then fallback else GetSetting key st)"

text \<open>A parsed value of at least \<open>least\<close>, otherwise the default.\<close>

definition setting_at_least :: "int \<Rightarrow> string \<Rightarrow> int \<Rightarrow> store \<Rightarrow> int" where
  "setting_at_least least key fallback st = (if GetSetting key st = [] then fallback
     else case Atoi (GetSetting key st) of None \<Rightarrow> fallback
       | Some n \<Rightarrow> if n < least then fallback else n)"

definition GetSettingInt :: "string \<Rightarrow> int \<Rightarrow> store \<Rightarrow> int" where
  "GetSettingInt = setting_at_least 1"

definition GetSettingIntAllowZero :: "string \<Rightarrow> int \<Rightarrow> store \<Rightarrow> int" where
  "GetSettingIntAllowZero = setting_at_least 0"

definition SetSetting :: "string \<Rightarrow> string \<Rightarrow> store \<Rightarrow> store" where
  "SetSetting key v st = st\<lparr>settings := map_put key v (settings st)\<rparr>"

definition SetSettings :: "(string \<times> string) list \<Rightarrow> store \<Rightarrow> store" where
  "SetSettings updates st = fold (\<lambda>(k, v). SetSetting k v) updates st"

definition CountRecentErrors :: "int \<Rightarrow> string \<Rightarrow> int \<Rightarrow> store \<Rightarrow> int" where
  "CountRecentErrors userID errorCode since st = count_where
     (\<lambda>l. l_user_id l = userID \<and> l_error_code l = errorCode \<and> since \<le> l_started_at l) (request_logs st)"

lemma GetSetting_set: "GetSetting k (SetSetting j v st) = (if k = j then v else GetSetting k st)"
  by (simp add: GetSetting_def SetSetting_def)

lemma GetSettings_set:
  "GetSetting k (SetSettings updates st) =
     (case map_of (rev updates) k of None \<Rightarrow> GetSetting k st | Some v \<Rightarrow> v)"
proof (induction updates arbitrary: st)
  case (Cons u us)
  have "SetSettings (u # us) st = SetSettings us (SetSetting (fst u) (snd u) st)"
    by (simp add: SetSettings_def split_def)
  then show ?case
    using Cons.IH [of "SetSetting (fst u) (snd u) st"]
    by (auto simp: GetSetting_set map_add_def split: option.splits)
qed (simp add: SetSettings_def)

text \<open>A number that was written is read back, when it is one the getter accepts.\<close>

lemma setting_roundtrip:
  assumes "least \<le> n" "- (2 ^ 63) \<le> n" "n < 2 ^ 63"
  shows "setting_at_least least k d (SetSetting k (Itoa n) st) = n"
proof -
  have "Itoa n \<noteq> []" by (simp add: Itoa_def)
  then show ?thesis using assms by (simp add: setting_at_least_def GetSetting_set Atoi_Itoa)
qed

end
