(* ===== verification/Middleware.thy ===== *)
theory Middleware
  imports Egress Limiters Settings
begin

text \<open>
  The request pipeline: the effective client address (\<open>clientIP\<close> and \<open>parseIP\<close> of
  \<^verbatim>\<open>handler/loginthrottle.go\<close>) and the middlewares of \<^verbatim>\<open>handler/middleware.go\<close> in the order
  \<open>Wrap\<close> nests them. \<open>url.Parse\<close> is the parameter of \<open>Egress\<close>. The state the pipeline
  changes is the throttle of the web site.
\<close>

section \<open>Client addresses\<close>

text \<open>\<open>netip.ParseAddrPort\<close>, the port being at most 65535.\<close>

definition ParseAddrPort :: "string \<Rightarrow> addr" where
  "ParseAddrPort s = (case last_index '':'' s of None \<Rightarrow> NoAddr
     | Some i \<Rightarrow>
        let ip = take i s; port = drop (i + 1) s;
            v6 = (take 1 ip = ''['');
            inner = (if v6 then drop 1 (take (length ip - 1) ip) else ip);
            a = ParseAddr inner
        in if ip = [] \<or> port = [] \<or> v6 \<and> (length ip < 2 \<or> last ip \<noteq> CHR '']'') then NoAddr
           else if \<not> list_all is_digit port \<or> 65535 < dec_value port then NoAddr
           else (case a of NoAddr \<Rightarrow> NoAddr | V4 w \<Rightarrow> if v6 then NoAddr else a
             | V6 w z \<Rightarrow> if v6 then a else NoAddr))"

definition parseIP :: "string \<Rightarrow> addr option" where
  "parseIP raw0 = (let raw = TrimSpace raw0 in
     if raw = [] then None
     else if ParseAddr raw \<noteq> NoAddr then Some (plain_addr (ParseAddr raw))
     else if ParseAddrPort raw \<noteq> NoAddr then Some (plain_addr (ParseAddrPort raw))
     else case SplitHostPort raw of None \<Rightarrow> None
       | Some (host, _) \<Rightarrow> if ParseAddr host \<noteq> NoAddr then Some (plain_addr (ParseAddr host)) else None)"

record http_request =
  rq_method :: string
  rq_host :: string
  rq_path :: string
  rq_tls :: bool
  rq_remote_addr :: string
  rq_xff :: string
  rq_xri :: string
  rq_proto :: string
  rq_origin :: string
  rq_session_token :: string
  rq_content_length :: int
  rq_body :: "string option"

record gateway_config =
  gc_trusted_proxies :: "cidr list"
  gc_site_host :: string
  gc_site_url_host :: string
  gc_site_base_url :: string
  gc_admin_host :: string
  gc_force_https :: bool
  gc_max_web_body_kb :: int

definition maxForwardedForBytes :: nat where "maxForwardedForBytes = 4096"
definition maxForwardedHops :: nat where "maxForwardedHops = 32"

definition isTrustedProxy :: "gateway_config \<Rightarrow> addr \<Rightarrow> bool" where
  "isTrustedProxy g a \<longleftrightarrow> list_ex (\<lambda>p. Contains p (Unmap a)) (gc_trusted_proxies g)"

definition trustedProxyRequest :: "gateway_config \<Rightarrow> http_request \<Rightarrow> bool" where
  "trustedProxyRequest g r \<longleftrightarrow> (case parseIP (rq_remote_addr r) of None \<Rightarrow> False
     | Some a \<Rightarrow> isTrustedProxy g a)"

text \<open>The walk over the hops, from the right: the first untrusted one decides, a malformed one falls
  back to the peer; when all are trusted the leftmost is left. \<open>Inl\<close> is a decision, \<open>Inr\<close> the
  leftmost hop seen.\<close>

fun walk_hops :: "gateway_config \<Rightarrow> addr \<Rightarrow> string list \<Rightarrow> addr option \<Rightarrow> (addr, addr option) result" where
  "walk_hops g peer [] leftmost = Inr leftmost"
| "walk_hops g peer (h # hs) leftmost = (case parseIP h of None \<Rightarrow> Inl peer
     | Some a \<Rightarrow> if \<not> isTrustedProxy g a then Inl a else walk_hops g peer hs (Some a))"

definition real_ip :: "addr \<Rightarrow> string \<Rightarrow> addr" where
  "real_ip peer xri = (if length xri \<le> 128 then (case parseIP xri of None \<Rightarrow> peer | Some a \<Rightarrow> a) else peer)"

text \<open>\<open>None\<close> is the text "unknown"; an address stands for its text form.\<close>

definition clientIP :: "gateway_config \<Rightarrow> http_request \<Rightarrow> addr option" where
  "clientIP g r = (case parseIP (rq_remote_addr r) of None \<Rightarrow> None
     | Some peer \<Rightarrow>
        if \<not> isTrustedProxy g peer then Some peer
        else if rq_xff r \<noteq> [] then
          (let parts = split_on CHR '','' (rq_xff r) in
           if maxForwardedForBytes < length (rq_xff r) then Some peer
           else if maxForwardedHops < length parts then Some peer
           else case walk_hops g peer (rev parts) None of Inl a \<Rightarrow> Some a
             | Inr (Some a) \<Rightarrow> Some a
             | Inr None \<Rightarrow> Some (real_ip peer (rq_xri r)))
        else Some (real_ip peer (rq_xri r)))"

section \<open>The middlewares\<close>

definition stripPort :: "string \<Rightarrow> string" where
  "stripPort host = (case SplitHostPort host of None \<Rightarrow> host | Some (h, _) \<Rightarrow> h)"

definition isAdminHost :: "gateway_config \<Rightarrow> http_request \<Rightarrow> bool" where
  "isAdminHost g r \<longleftrightarrow> EqualFold (stripPort (rq_host r)) (stripPort (gc_admin_host g))"

definition requestIsHTTPS :: "gateway_config \<Rightarrow> http_request \<Rightarrow> bool" where
  "requestIsHTTPS g r \<longleftrightarrow> rq_tls r \<or>
     trustedProxyRequest g r \<and> EqualFold (TrimSpace (rq_proto r)) ''https''"

definition isStateChangingMethod :: "string \<Rightarrow> bool" where
  "isStateChangingMethod m \<longleftrightarrow> m = ''POST'' \<or> m = ''PUT'' \<or> m = ''PATCH'' \<or> m = ''DELETE''"

definition canonicalOrigin :: "url \<Rightarrow> string" where
  "canonicalOrigin u =
    (let host = bracketed (ToLower (TrimSuffix (Hostname u) ''.''));
         port = (if url_scheme u = ''http'' \<and> Port u = ''80'' \<or> url_scheme u = ''https'' \<and> Port u = ''443''
                 then [] else Port u)
     in ToLower (url_scheme u) @ ''://'' @ host @ (if port \<noteq> [] then '':'' @ port else []))"

definition expected_origin :: "gateway_config \<Rightarrow> http_request \<Rightarrow> url \<Rightarrow> url" where
  "expected_origin g r siteURL = (if isAdminHost g r
     then \<lparr>url_scheme = url_scheme siteURL, url_has_user = False, url_host = gc_admin_host g,
           url_path = [], url_raw_query = [], url_fragment = []\<rparr> else siteURL)"

definition sameSiteOrigin :: "net_env \<Rightarrow> gateway_config \<Rightarrow> http_request \<Rightarrow> string \<Rightarrow> bool" where
  "sameSiteOrigin env g r rawOrigin = (case ne_parse_url env rawOrigin of None \<Rightarrow> False
     | Some o1 \<Rightarrow>
        if url_scheme o1 = [] \<or> url_host o1 = [] \<or> url_has_user o1 \<or> url_path o1 \<noteq> [] \<or>
           url_raw_query o1 \<noteq> [] \<or> url_fragment o1 \<noteq> [] then False
        else case ne_parse_url env (gc_site_base_url g) of None \<Rightarrow> False
        | Some s \<Rightarrow> if url_scheme s = [] \<or> url_host s = [] then False
            else canonicalOrigin o1 = canonicalOrigin (expected_origin g r s))"

datatype response =
    Misdirected
  | RedirectHTTPS string string
  | NotFoundJSON
  | NotFoundPage
  | ForbiddenOrigin
  | MaintenanceJSON
  | MaintenancePage
  | TooManyRequests int
  | BodyTooLarge
  | BodyUnreadable
  | Served "string option"

text \<open>A middleware either answers or hands on.\<close>

definition validateHost :: "gateway_config \<Rightarrow> http_request \<Rightarrow> response option" where
  "validateHost g r = (let host = stripPort (rq_host r) in
     if \<not> EqualFold host (gc_site_host g) \<and> \<not> EqualFold host (stripPort (gc_admin_host g))
     then Some Misdirected else None)"

definition forceHTTPS :: "gateway_config \<Rightarrow> http_request \<Rightarrow> response option" where
  "forceHTTPS g r = (if gc_force_https g \<and> \<not> requestIsHTTPS g r
     then Some (RedirectHTTPS (if isAdminHost g r then gc_admin_host g else gc_site_url_host g) (rq_path r))
     else None)"

definition admin_path :: "string \<Rightarrow> bool" where
  "admin_path p \<longleftrightarrow> p = ''/'' \<or> prefix ''/static/'' p \<or> p \<in> set [''/api/site-info'', ''/api/auth/admin/login'',
     ''/api/auth/logout'', ''/api/me'', ''/privacy'', ''/terms'', ''/403'', ''/404'', ''/api/services'',
     ''/api/bulletins''] \<or> prefix ''/api/admin/'' p \<or> p = ''/health'' \<or> p = ''/favicon.ico''"

definition hostSeparation :: "gateway_config \<Rightarrow> http_request \<Rightarrow> response option" where
  "hostSeparation g r = (let p = rq_path r in
     if isAdminHost g r then
       (if admin_path p then None
        else if prefix ''/api/'' p \<or> prefix ''/v1/'' p then Some NotFoundJSON else Some NotFoundPage)
     else if p = ''/api/auth/admin/login'' \<or> prefix ''/api/admin/'' p then Some NotFoundJSON else None)"

definition csrfOriginCheck :: "net_env \<Rightarrow> gateway_config \<Rightarrow> http_request \<Rightarrow> response option" where
  "csrfOriginCheck env g r =
    (if \<not> isStateChangingMethod (rq_method r) \<or> \<not> prefix ''/api/'' (rq_path r) \<or> rq_session_token r = []
     then None
     else let origin = TrimSpace (rq_origin r) in
       if origin = [] \<or> \<not> sameSiteOrigin env g r origin then Some ForbiddenOrigin else None)"

definition maintenance_exempt :: "string \<Rightarrow> bool" where
  "maintenance_exempt p \<longleftrightarrow> prefix ''/static/'' p \<or> p \<in> set [''/credits-logo'', ''/favicon.ico'', ''/privacy'',
     ''/terms'', ''/403'', ''/404'', ''/health''] \<or> prefix ''/auth/discord/'' p"

definition maintenanceCheck :: "store \<Rightarrow> gateway_config \<Rightarrow> http_request \<Rightarrow> response option" where
  "maintenanceCheck st g r = (let p = rq_path r in
     if isAdminHost g r \<or> maintenance_exempt p \<or> GetSettingString ''maintenance_mode'' [] st \<noteq> ''true''
     then None
     else if prefix ''/api/'' p \<or> prefix ''/v1/'' p then Some MaintenanceJSON else Some MaintenancePage)"

text \<open>The key of the throttle is the text form \<open>txt a\<close> of the client address.\<close>

definition webRateLimit ::
  "(addr option \<Rightarrow> string) \<Rightarrow> gateway_config \<Rightarrow> http_request \<Rightarrow> int \<Rightarrow> ip_throttle \<Rightarrow> ip_throttle \<times> response option" where
  "webRateLimit txt g r now w =
    (if prefix ''/api/'' (rq_path r) \<or> rq_path r = ''/auth/discord/login'' then
       (let ip = txt (clientIP g r) in case ip_allow ip now w of (w1, ok) \<Rightarrow>
          (w1, if ok then None else Some (TooManyRequests (retryAfterSec ip now w1))))
     else (w, None))"

definition webBodyLimit :: "gateway_config \<Rightarrow> http_request \<Rightarrow> response" where
  "webBodyLimit g r =
    (if \<not> prefix ''/api/'' (rq_path r) \<or> \<not> isStateChangingMethod (rq_method r) then Served (rq_body r)
     else let limit = gc_max_web_body_kb g * 1024 in
       if limit < rq_content_length r then BodyTooLarge
       else case rq_body r of None \<Rightarrow> BodyUnreadable
         | Some b \<Rightarrow> if limit < int (length b) then BodyTooLarge else Served (Some b))"

text \<open>\<open>Wrap\<close>: the first middleware that answers wins. Security headers are set in between and change
  no answer.\<close>

definition first_answer :: "response option list \<Rightarrow> response option" where
  "first_answer rs = (case filter (\<lambda>r. r \<noteq> None) rs of [] \<Rightarrow> None | r # _ \<Rightarrow> r)"

definition Wrap ::
  "net_env \<Rightarrow> (addr option \<Rightarrow> string) \<Rightarrow> store \<Rightarrow> gateway_config \<Rightarrow> int \<Rightarrow> http_request \<Rightarrow> ip_throttle \<Rightarrow>
   ip_throttle \<times> response" where
  "Wrap env txt st g now r w =
    (case first_answer [validateHost g r, forceHTTPS g r, hostSeparation g r, csrfOriginCheck env g r,
        maintenanceCheck st g r] of
       Some a \<Rightarrow> (w, a)
     | None \<Rightarrow> (case webRateLimit txt g r now w of
         (w1, Some a) \<Rightarrow> (w1, a)
       | (w1, None) \<Rightarrow> (w1, webBodyLimit g r)))"

section \<open>Properties\<close>

lemma split_on_nonempty [simp]: "split_on c s \<noteq> []"
  by (induction s) (auto split: list.split)

lemma split_on_append: "split_on c (l @ c # s) = split_on c l @ split_on c s"
  by (induction l) (auto split: list.splits)

lemma walk_hops_append:
  "walk_hops g peer (xs @ ys) m = (case walk_hops g peer xs m of Inl a \<Rightarrow> Inl a | Inr m1 \<Rightarrow> walk_hops g peer ys m1)"
  by (induction xs arbitrary: m) (auto split: option.splits)

lemma walk_hops_decides:
  "walk_hops g peer hs m = Inl a \<Longrightarrow> a = peer \<or> \<not> isTrustedProxy g a"
  by (induction hs arbitrary: m) (auto split: option.splits if_split_asm)


definition sample_config :: gateway_config where
  "sample_config = \<lparr>gc_trusted_proxies = [P4 8 0x0A000000], gc_site_host = ''s.example'',
     gc_site_url_host = ''s.example'', gc_site_base_url = ''https://s.example'',
     gc_admin_host = ''admin.s.example'', gc_force_https = True, gc_max_web_body_kb = 1\<rparr>"

definition sample_http_request :: http_request where
  "sample_http_request = \<lparr>rq_method = ''GET'', rq_host = ''s.example'', rq_path = ''/api/me'', rq_tls = True,
     rq_remote_addr = ''10.0.0.1'', rq_xff = ''1.1.1.1, 8.8.8.8, 10.0.0.2'', rq_xri = [], rq_proto = [],
     rq_origin = [], rq_session_token = [], rq_content_length = 0, rq_body = Some []\<rparr>"


text \<open>C22: Admission. A request reaches its handler exactly when all of the following hold, and then with
  the body it was sent: it names one of the two sites, over HTTPS where that is enforced; on the
  admin site its path is one of that site's, elsewhere it is no admin endpoint; a state change
  with a session comes from the site's own origin; the site is not in maintenance for it; its
  address has room in the throttle; and its body is readable and within the limit.\<close>

theorem wrap_admits:
  "snd (Wrap env txt st g now r w) = Served b \<longleftrightarrow>
     (EqualFold (stripPort (rq_host r)) (gc_site_host g) \<or> isAdminHost g r) \<and>
     (gc_force_https g \<longrightarrow> requestIsHTTPS g r) \<and>
     (if isAdminHost g r then admin_path (rq_path r)
      else rq_path r \<noteq> ''/api/auth/admin/login'' \<and> \<not> prefix ''/api/admin/'' (rq_path r)) \<and>
     (isStateChangingMethod (rq_method r) \<and> prefix ''/api/'' (rq_path r) \<and> rq_session_token r \<noteq> [] \<longrightarrow>
        TrimSpace (rq_origin r) \<noteq> [] \<and> sameSiteOrigin env g r (TrimSpace (rq_origin r))) \<and>
     (GetSettingString ''maintenance_mode'' [] st = ''true'' \<longrightarrow>
        isAdminHost g r \<or> maintenance_exempt (rq_path r)) \<and>
     (prefix ''/api/'' (rq_path r) \<or> rq_path r = ''/auth/discord/login'' \<longrightarrow>
        snd (ip_allow (txt (clientIP g r)) now w)) \<and>
     (prefix ''/api/'' (rq_path r) \<and> isStateChangingMethod (rq_method r) \<longrightarrow>
        rq_content_length r \<le> gc_max_web_body_kb g * 1024 \<and>
        (case rq_body r of None \<Rightarrow> False | Some x \<Rightarrow> int (length x) \<le> gc_max_web_body_kb g * 1024)) \<and>
     b = rq_body r"
proof -
  let ?early = "[validateHost g r, forceHTTPS g r, hostSeparation g r, csrfOriginCheck env g r,
     maintenanceCheck st g r]"
  have early: "first_answer ?early = None \<longleftrightarrow> list_all (\<lambda>x. x = None) ?early"
    by (auto simp: first_answer_def filter_empty_conv list_all_iff split: list.split dest: filter_eq_ConsD)
  have none_served: "first_answer ?early \<noteq> Some (Served b)"
    by (auto simp: first_answer_def validateHost_def forceHTTPS_def hostSeparation_def csrfOriginCheck_def
        maintenanceCheck_def Let_def)
  have limited: "snd (webRateLimit txt g r now w) \<noteq> Some (Served b)"
    by (simp add: webRateLimit_def Let_def split: prod.split)
  have served: "snd (Wrap env txt st g now r w) = Served b \<longleftrightarrow> list_all (\<lambda>x. x = None) ?early \<and>
      snd (webRateLimit txt g r now w) = None \<and> webBodyLimit g r = Served b"
    using early none_served limited unfolding Wrap_def by (auto split: option.splits prod.splits)
  have body: "webBodyLimit g r = Served b \<longleftrightarrow>
     (prefix ''/api/'' (rq_path r) \<and> isStateChangingMethod (rq_method r) \<longrightarrow>
        rq_content_length r \<le> gc_max_web_body_kb g * 1024 \<and>
        (case rq_body r of None \<Rightarrow> False | Some x \<Rightarrow> int (length x) \<le> gc_max_web_body_kb g * 1024)) \<and>
     b = rq_body r"
    by (auto simp: webBodyLimit_def Let_def split: option.splits)
  have rate: "snd (webRateLimit txt g r now w) = None \<longleftrightarrow>
     (prefix ''/api/'' (rq_path r) \<or> rq_path r = ''/auth/discord/login'' \<longrightarrow>
        snd (ip_allow (txt (clientIP g r)) now w))"
    by (simp add: webRateLimit_def Let_def split: prod.split)
  show ?thesis
    unfolding served body rate
    by (auto simp: validateHost_def isAdminHost_def forceHTTPS_def hostSeparation_def csrfOriginCheck_def
        maintenanceCheck_def Let_def)
qed

theorem wrap_admits_witness:
  "snd (Wrap sample_env (\<lambda>_. ''8.8.8.8'') empty_store sample_config 0 sample_http_request (newIPThrottle 5 30 60))
     = Served (Some []) \<and>
   snd (Wrap sample_env (\<lambda>_. ''8.8.8.8'') empty_store sample_config 0
     (sample_http_request\<lparr>rq_path := ''/api/admin/users''\<rparr>) (newIPThrottle 5 30 60)) \<noteq> Served (Some [])"
proof -
  have a: "EqualFold (stripPort (rq_host sample_http_request)) (gc_site_host sample_config)"
    "requestIsHTTPS sample_config sample_http_request" "\<not> isAdminHost sample_config sample_http_request"
    "rq_path sample_http_request \<noteq> ''/api/auth/admin/login''"
    "\<not> prefix ''/api/admin/'' (rq_path sample_http_request)"
    "\<not> isStateChangingMethod (rq_method sample_http_request)"
    "GetSettingString ''maintenance_mode'' [] empty_store \<noteq> ''true''"
    "snd (ip_allow ''8.8.8.8'' 0 (newIPThrottle 5 30 60))"
    "rq_body sample_http_request = Some []"
    by code_simp+
  have b: "\<not> isAdminHost sample_config (sample_http_request\<lparr>rq_path := ''/api/admin/users''\<rparr>)"
    "prefix ''/api/admin/'' (rq_path (sample_http_request\<lparr>rq_path := ''/api/admin/users''\<rparr>))"
    by code_simp+
  show ?thesis using a b by (auto simp: wrap_admits)
qed

end
