(* ===== verification/Donations.thy ===== *)
theory Donations
  imports Ledger GoStrings
begin

text \<open>
  The donation pool: \<^verbatim>\<open>db/donations.go\<close>, \<^verbatim>\<open>db/charity_pricing.go\<close> and the regeneration gate of
  \<^verbatim>\<open>db/generation_gate.go\<close>. Encryption and hashing of API keys are parameters (the record
  \<open>crypto\<close>); the clock is read once per call and is an argument. Statements that the code runs
  outside a transaction are single atomic SQL statements.
\<close>

record crypto =
  cr_encrypt :: "string \<Rightarrow> string option"
  cr_decrypt :: "string \<Rightarrow> string option"
  cr_sha256 :: "string \<Rightarrow> string"

section \<open>Pricing\<close>

definition pricing_key :: "pricing \<Rightarrow> string \<times> string" where
  "pricing_key p = (p_service p, p_model p)"

definition GetPricing :: "string \<Rightarrow> string \<Rightarrow> store \<Rightarrow> pricing option" where
  "GetPricing service model st = by_key pricing_key (service, model) (charity_pricing st)"

definition ListPricing :: "store \<Rightarrow> pricing list" where
  "ListPricing st = sort_key p_service (sort_key p_model (charity_pricing st))"

definition ListEnabledPricing :: "store \<Rightarrow> pricing list" where
  "ListEnabledPricing st = sort_key p_service (sort_key p_model
     (select_where p_enabled (charity_pricing st)))"

datatype pricing_error =
    ErrPriceNegative int
  | ErrRewardNegative int
  | ErrPricingNotFound string string
  | ErrPricingInUse string string

text \<open>\<open>math.Ceil(float64(price) * 0.5)\<close>: halving is exact in floating point, so this is the integer
  ceiling of half the price (prices below 2 to the 53).\<close>

definition default_reward :: "int \<Rightarrow> int" where
  "default_reward price = (price + 1) div 2"

definition UpsertPricing ::
  "string \<Rightarrow> string \<Rightarrow> int \<Rightarrow> int option \<Rightarrow> store \<Rightarrow> store \<times> (pricing_error, pricing option) result" where
  "UpsertPricing service model price reward st =
    (if price < 0 then (st, Inl (ErrPriceNegative price))
     else if (case reward of Some r \<Rightarrow> r < 0 | None \<Rightarrow> False)
     then (st, Inl (ErrRewardNegative (the reward)))
     else
       let r = (case reward of Some r \<Rightarrow> r | None \<Rightarrow> default_reward price);
           st1 = (if GetPricing service model st = None
             then st\<lparr>charity_pricing := charity_pricing st @
                    [\<lparr>p_service = service, p_model = model, p_price = price, p_reward = r,
                      p_enabled = False\<rparr>]\<rparr>
             else st\<lparr>charity_pricing := update_where (\<lambda>p. pricing_key p = (service, model))
                    (\<lambda>p. p\<lparr>p_price := price, p_reward := r\<rparr>) (charity_pricing st)\<rparr>)
       in (st1, Inr (GetPricing service model st1)))"

record pricing_patch =
  pp_price :: "int option"
  pp_reward :: "int option"
  pp_enabled :: "bool option"

definition or_keep :: "'a option \<Rightarrow> 'a \<Rightarrow> 'a" where
  "or_keep new old = (case new of None \<Rightarrow> old | Some v \<Rightarrow> v)"

definition PatchPricing ::
  "string \<Rightarrow> string \<Rightarrow> pricing_patch \<Rightarrow> store \<Rightarrow> store \<times> (pricing_error, pricing) result" where
  "PatchPricing service model patch st =
    (if (case pp_price patch of Some p \<Rightarrow> p < 0 | None \<Rightarrow> False)
     then (st, Inl (ErrPriceNegative (the (pp_price patch))))
     else if (case pp_reward patch of Some r \<Rightarrow> r < 0 | None \<Rightarrow> False)
     then (st, Inl (ErrRewardNegative (the (pp_reward patch))))
     else case GetPricing service model st of
       None \<Rightarrow> (st, Inl (ErrPricingNotFound service model))
     | Some p \<Rightarrow>
        let upd = (\<lambda>x. x\<lparr>p_price := or_keep (pp_price patch) (p_price p),
                     p_reward := or_keep (pp_reward patch) (p_reward p),
                     p_enabled := or_keep (pp_enabled patch) (p_enabled p)\<rparr>);
            P = (\<lambda>x. pricing_key x = (service, model));
            st1 = st\<lparr>charity_pricing := update_where P upd (charity_pricing st)\<rparr>
        in if count_where P (charity_pricing st) \<noteq> 1
           then (st, Inl (ErrPricingNotFound service model))
           else case GetPricing service model st1 of
             None \<Rightarrow> (st, Inl (ErrPricingNotFound service model))
           | Some q \<Rightarrow> (st1, Inr q))"

definition HasDonationsForPair :: "string \<Rightarrow> string \<Rightarrow> store \<Rightarrow> bool" where
  "HasDonationsForPair service model st \<longleftrightarrow>
     0 < count_where (\<lambda>d. d_service d = service \<and> d_model d = model) (donations st)"

definition DeletePricing ::
  "string \<Rightarrow> string \<Rightarrow> store \<Rightarrow> store \<times> (pricing_error, unit) result" where
  "DeletePricing service model st =
    (if HasDonationsForPair service model st then (st, Inl (ErrPricingInUse service model))
     else (st\<lparr>charity_pricing := delete_where (\<lambda>p. pricing_key p = (service, model))
              (charity_pricing st)\<rparr>, Inr ()))"

definition DeletePricingBatch ::
  "(string \<times> string) list \<Rightarrow> store \<Rightarrow> store \<times> (pricing_error, unit) result" where
  "DeletePricingBatch pairs st =
    (case List.find (\<lambda>(s, m). HasDonationsForPair s m st) pairs of
       Some (s, m) \<Rightarrow> (st, Inl (ErrPricingInUse s m))
     | None \<Rightarrow> (st\<lparr>charity_pricing := fold (\<lambda>pair. delete_where (\<lambda>p. pricing_key p = pair)) pairs
                 (charity_pricing st)\<rparr>, Inr ()))"

definition SetPricingEnabled ::
  "string \<Rightarrow> string \<Rightarrow> bool \<Rightarrow> store \<Rightarrow> store \<times> (pricing_error, unit) result" where
  "SetPricingEnabled service model enabled st =
    (let P = (\<lambda>p. pricing_key p = (service, model)) in
     if count_where P (charity_pricing st) = 0 then (st, Inl (ErrPricingNotFound service model))
     else (st\<lparr>charity_pricing := update_where P (\<lambda>p. p\<lparr>p_enabled := enabled\<rparr>)
              (charity_pricing st)\<rparr>, Inr ()))"

section \<open>Creating donations\<close>

datatype donation_error =
    ErrTotalCount int
  | ErrDeadline int
  | ErrEncrypt

text \<open>\<open>request\<close> carries the caller's fields; its counters, stamps, hash and ciphertext are ignored.
  An empty status means active.\<close>

definition new_donation :: "crypto \<Rightarrow> int \<Rightarrow> int \<Rightarrow> string \<Rightarrow> string \<Rightarrow> donation \<Rightarrow> donation" where
  "new_donation crypt now i apiKeyPlain enc request = request\<lparr>
     d_id := i, d_dify_api_key_enc := enc,
     d_dify_api_key_sha256 := cr_sha256 crypt apiKeyPlain,
     d_remaining_count := d_total_count request,
     d_success_count := 0, d_failure_count := 0, d_consecutive_failures := 0,
     d_rpm_limit := (if d_rpm_limit request \<le> 0 then 10 else d_rpm_limit request),
     d_status := (if d_status request = DonationOther [] then DonationActive
                  else d_status request),
     d_created_at := now, d_updated_at := now\<rparr>"

definition CreateDonation ::
  "crypto \<Rightarrow> int \<Rightarrow> donation \<Rightarrow> string \<Rightarrow> store \<Rightarrow> store \<times> (donation_error, donation option) result" where
  "CreateDonation crypt now request apiKeyPlain st =
    (if d_total_count request \<le> 0 then (st, Inl (ErrTotalCount (d_total_count request)))
     else if d_deadline request \<le> 0 then (st, Inl (ErrDeadline (d_deadline request)))
     else case cr_encrypt crypt apiKeyPlain of
       None \<Rightarrow> (st, Inl ErrEncrypt)
     | Some enc \<Rightarrow>
        let i = donation_seq st + 1;
            st1 = st\<lparr>donations := donations st @ [new_donation crypt now i apiKeyPlain enc request],
                     donation_seq := i\<rparr>
        in (st1, Inr (by_key d_id i (donations st1))))"

definition GetDonation :: "int \<Rightarrow> store \<Rightarrow> donation option" where
  "GetDonation i st = by_key d_id i (donations st)"

definition ListDonations :: "store \<Rightarrow> donation list" where
  "ListDonations st = sort_key (\<lambda>d. - d_created_at d) (donations st)"

definition ListRoutableDonations :: "string \<Rightarrow> string \<Rightarrow> int \<Rightarrow> store \<Rightarrow> donation list" where
  "ListRoutableDonations service model now st = sort_key d_deadline
     (select_where (\<lambda>d. d_service d = service \<and> d_model d = model \<and> d_status d = DonationActive \<and>
        now < d_deadline d \<and> 0 < d_remaining_count d) (donations st))"

section \<open>Patching\<close>

record donation_patch =
  dp_service :: "string option"
  dp_model :: "string option"
  dp_dify_base_url :: "string option"
  dp_dify_api_key :: "string option"
  dp_rpm_limit :: "int option"
  dp_deadline :: "int option"
  dp_total_count :: "int option"
  dp_note :: "string option"
  dp_review_note :: "string option"
  dp_status :: "donation_status option"

datatype patch_error =
    PatchNotFound int
  | PatchExpired int
  | PatchReviewRecordAbsent int
  | PatchPricingAbsent int string string
  | PatchInvalid int string
  | PatchEncrypt
  | PatchReviewRows int

text \<open>The new key of a patch, encrypted before the transaction begins.\<close>

definition patch_key ::
  "crypto \<Rightarrow> int \<Rightarrow> donation_patch \<Rightarrow> (patch_error, (string \<times> string) option) result" where
  "patch_key crypt i patch = (case dp_dify_api_key patch of None \<Rightarrow> Inr None
     | Some k \<Rightarrow> if TrimSpace k = [] then Inl (PatchInvalid i ''dify_api_key must not be blank'')
        else case cr_encrypt crypt k of None \<Rightarrow> Inl PatchEncrypt
             | Some e \<Rightarrow> Inr (Some (e, cr_sha256 crypt k)))"

text \<open>The first field the merge rejects, in the order of the code.\<close>

definition patch_invalid :: "int \<Rightarrow> int \<Rightarrow> donation_patch \<Rightarrow> patch_error option" where
  "patch_invalid i now patch =
    (if (case dp_rpm_limit patch of Some r \<Rightarrow> r \<le> 0 | None \<Rightarrow> False)
     then Some (PatchInvalid i ''rpm_limit must be positive'')
     else if (case dp_deadline patch of Some t \<Rightarrow> t \<le> now | None \<Rightarrow> False)
     then Some (PatchInvalid i ''deadline must be in the future'')
     else if (case dp_total_count patch of Some n \<Rightarrow> n \<le> 0 | None \<Rightarrow> False)
     then Some (PatchInvalid i ''total_count must be positive'')
     else if (case dp_status patch of None \<Rightarrow> False
                | Some s \<Rightarrow> s \<noteq> DonationActive \<and> s \<noteq> DonationInactive)
     then Some (PatchInvalid i ''status must be active or inactive'')
     else None)"

definition merged_row :: "donation_patch \<Rightarrow> (string \<times> string) option \<Rightarrow> donation \<Rightarrow> donation" where
  "merged_row patch key current = current\<lparr>
     d_service := or_keep (dp_service patch) (d_service current),
     d_model := or_keep (map_option TrimSpace (dp_model patch)) (d_model current),
     d_dify_base_url := or_keep (dp_dify_base_url patch) (d_dify_base_url current),
     d_dify_api_key_enc := or_keep (map_option fst key) (d_dify_api_key_enc current),
     d_dify_api_key_sha256 := or_keep (map_option snd key) (d_dify_api_key_sha256 current),
     d_rpm_limit := or_keep (dp_rpm_limit patch) (d_rpm_limit current),
     d_deadline := or_keep (dp_deadline patch) (d_deadline current),
     d_remaining_count := (case dp_total_count patch of None \<Rightarrow> d_remaining_count current
        | Some n \<Rightarrow>
           let r = d_remaining_count current + (n - d_total_count current)
           in if r < 0 then 0 else r),
     d_total_count := or_keep (dp_total_count patch) (d_total_count current),
     d_note := or_keep (map_option TrimSpace (dp_note patch)) (d_note current),
     d_status := or_keep (dp_status patch) (d_status current)\<rparr>"

definition activates :: "donation \<Rightarrow> donation \<Rightarrow> bool" where
  "activates current updated \<longleftrightarrow> d_status current \<noteq> DonationActive \<and> d_status updated = DonationActive"

text \<open>The two updates and the reload, once the merged row has passed every check.\<close>

definition store_patch ::
  "int \<Rightarrow> donation_patch \<Rightarrow> donation \<Rightarrow> store \<Rightarrow>
   store \<times> (patch_error, donation \<times> string option) result" where
  "store_patch i patch row st =
    (let st1 = st\<lparr>donations := update_where (\<lambda>d. d_id d = i) (\<lambda>_. row) (donations st)\<rparr>;
         mine = (\<lambda>a. ap_donation_id a = Some i);
         n = count_where mine (donation_applications st1);
         st2 = (case dp_review_note patch of None \<Rightarrow> st1
           | Some note \<Rightarrow> st1\<lparr>donation_applications := update_where mine
               (\<lambda>a. a\<lparr>ap_review_note := TrimSpace note\<rparr>) (donation_applications st1)\<rparr>)
     in if count_where (\<lambda>d. d_id d = i) (donations st) \<noteq> 1 then (st, Inl (PatchNotFound i))
        else if dp_review_note patch \<noteq> None \<and> n = 0 then (st, Inl (PatchReviewRecordAbsent i))
        else if dp_review_note patch \<noteq> None \<and> n \<noteq> 1 then (st, Inl (PatchReviewRows n))
        else case donation_row i st2 of None \<Rightarrow> (st, Inl (PatchNotFound i))
        | Some d \<Rightarrow> (st2, Inr (d, map_option ap_review_note
                       (query_row mine (donation_applications st2)))))"

definition patched_row ::
  "int \<Rightarrow> donation_patch \<Rightarrow> (string \<times> string) option \<Rightarrow> donation \<Rightarrow> donation" where
  "patched_row now patch key current =
    (let u = merged_row patch key current
     in (if activates current u then u\<lparr>d_consecutive_failures := 0\<rparr> else u)\<lparr>d_updated_at := now\<rparr>)"

definition PatchDonation ::
  "crypto \<Rightarrow> int \<Rightarrow> int \<Rightarrow> donation_patch \<Rightarrow> store \<Rightarrow>
   store \<times> (patch_error, donation \<times> string option) result" where
  "PatchDonation crypt now i patch st =
    (case patch_key crypt i patch of Inl e \<Rightarrow> (st, Inl e) | Inr key \<Rightarrow>
     case donation_row i st of None \<Rightarrow> (st, Inl (PatchNotFound i)) | Some current \<Rightarrow>
     if d_status current = DonationExpired then (st, Inl (PatchExpired i))
     else case patch_invalid i now patch of Some e \<Rightarrow> (st, Inl e) | None \<Rightarrow>
     let u = merged_row patch key current
     in if activates current u \<and> count_where (\<lambda>p. p_service p = d_service u \<and> p_model p = d_model u)
             (charity_pricing st) = 0
        then (st, Inl (PatchPricingAbsent i (d_service u) (d_model u)))
        else store_patch i patch (patched_row now patch key current) st)"

section \<open>Status changes, deletion and counters\<close>

definition put_status :: "donation_status \<Rightarrow> int \<Rightarrow> donation \<Rightarrow> donation" where
  "put_status s now d = (if s = DonationActive
     then d\<lparr>d_status := s, d_consecutive_failures := 0, d_updated_at := now\<rparr>
     else d\<lparr>d_status := s, d_updated_at := now\<rparr>)"

definition SetDonationStatus :: "int \<Rightarrow> donation_status \<Rightarrow> int \<Rightarrow> store \<Rightarrow> store" where
  "SetDonationStatus i s now st =
     st\<lparr>donations := update_where (\<lambda>d. d_id d = i) (put_status s now) (donations st)\<rparr>"

datatype status_error =
    StatusNotAllowed
  | StatusNotFound int
  | StatusExpired int
  | StatusPricingAbsent int string string

definition check_status_target :: "donation_status \<Rightarrow> store \<Rightarrow> int \<Rightarrow> status_error option" where
  "check_status_target s st i = (case donation_row i st of
     None \<Rightarrow> Some (StatusNotFound i)
   | Some d \<Rightarrow>
      if d_status d = DonationExpired then Some (StatusExpired i)
      else if s = DonationActive \<and>
         count_where (\<lambda>p. p_service p = d_service d \<and> p_model p = d_model d) (charity_pricing st) = 0
      then Some (StatusPricingAbsent i (d_service d) (d_model d))
      else None)"

fun first_error :: "('a \<Rightarrow> 'e option) \<Rightarrow> 'a list \<Rightarrow> 'e option" where
  "first_error f [] = None"
| "first_error f (x # xs) = (case f x of Some e \<Rightarrow> Some e | None \<Rightarrow> first_error f xs)"

definition BatchSetDonationStatus ::
  "int list \<Rightarrow> donation_status \<Rightarrow> int \<Rightarrow> store \<Rightarrow> store \<times> (status_error, unit) result" where
  "BatchSetDonationStatus ids s now st =
    (if s \<noteq> DonationActive \<and> s \<noteq> DonationInactive then (st, Inl StatusNotAllowed)
     else case first_error (check_status_target s st) ids of
       Some e \<Rightarrow> (st, Inl e)
     | None \<Rightarrow> (fold (\<lambda>i. SetDonationStatus i s now) ids st, Inr ()))"

datatype delete_error = DeleteInFlight int int | DeleteNotFound int

definition deleteDonationTx :: "int \<Rightarrow> store \<Rightarrow> store \<times> (delete_error, unit) result" where
  "deleteDonationTx i st =
    (let active = count_where (\<lambda>r. r_donation_id r = i \<and>
           (r_status r = ReservationReserved \<or> r_status r = ReservationDispatched))
           (charity_reservations st)
     in if 0 < active then (st, Inl (DeleteInFlight i active))
        else if count_where (\<lambda>d. d_id d = i) (donations st) \<noteq> 1 then (st, Inl (DeleteNotFound i))
        else (st\<lparr>donations := delete_where (\<lambda>d. d_id d = i) (donations st)\<rparr>, Inr ()))"

definition DeleteDonation :: "int \<Rightarrow> store \<Rightarrow> store \<times> (delete_error, unit) result" where
  "DeleteDonation i st = deleteDonationTx i st"

text \<open>A batch in one transaction: the first error rolls everything back.\<close>

fun in_transaction :: "('a \<Rightarrow> 's \<Rightarrow> 's \<times> ('e, 'b) result) \<Rightarrow> 's \<Rightarrow> 'a list \<Rightarrow> 's \<Rightarrow> 's \<times> ('e, unit) result" where
  "in_transaction f st0 [] st = (st, Inr ())"
| "in_transaction f st0 (x # xs) st = (case f x st of
     (st1, Inl e) \<Rightarrow> (st0, Inl e)
   | (st1, Inr _) \<Rightarrow> in_transaction f st0 xs st1)"

definition DeleteDonations :: "int list \<Rightarrow> store \<Rightarrow> store \<times> (delete_error, unit) result" where
  "DeleteDonations ids st = in_transaction deleteDonationTx st ids st"

definition RecordDonationSuccess :: "int \<Rightarrow> int \<Rightarrow> store \<Rightarrow> store \<times> bool" where
  "RecordDonationSuccess i now st =
    (let P = (\<lambda>d. d_id d = i \<and> d_status d = DonationActive \<and> 0 < d_remaining_count d)
     in if count_where P (donations st) = 0 then (st, False)
        else (st\<lparr>donations := update_where P (\<lambda>d. record_success_use now (claim_use now d))
                (donations st)\<rparr>, True))"

definition RecordDonationFailure :: "int \<Rightarrow> int \<Rightarrow> store \<Rightarrow> store \<times> int option" where
  "RecordDonationFailure i now st =
    (let st1 = st\<lparr>donations := update_where (\<lambda>d. d_id d = i)
           (\<lambda>d. d\<lparr>d_failure_count := d_failure_count d + 1,
                  d_consecutive_failures := d_consecutive_failures d + 1, d_updated_at := now\<rparr>)
           (donations st)\<rparr>
     in if count_where (\<lambda>d. d_id d = i) (donations st) = 0 then (st, None)
        else (st1, map_option d_consecutive_failures (donation_row i st1)))"

definition ExpireOverdueDonations :: "int \<Rightarrow> store \<Rightarrow> store \<times> int" where
  "ExpireOverdueDonations now st =
    (let P = (\<lambda>d. d_deadline d \<le> now \<and> d_status d \<noteq> DonationExpired)
     in (st\<lparr>donations := update_where P (\<lambda>d. d\<lparr>d_status := DonationExpired, d_updated_at := now\<rparr>)
            (donations st)\<rparr>, count_where P (donations st)))"

section \<open>The regeneration gate\<close>

definition HasActiveDonationForService :: "int \<Rightarrow> string \<Rightarrow> store \<Rightarrow> bool" where
  "HasActiveDonationForService userID service st \<longleftrightarrow>
     0 < count_where (\<lambda>d. d_source_user_id d = Some userID \<and> d_service d = service \<and>
           d_status d = DonationActive) (donations st)"

definition HasInactiveDonationForService :: "int \<Rightarrow> string \<Rightarrow> store \<Rightarrow> bool" where
  "HasInactiveDonationForService userID service st \<longleftrightarrow>
     0 < count_where (\<lambda>d. d_source_user_id d = Some userID \<and> d_service d = service \<and>
           (d_status d = DonationInactive \<or> d_status d = DonationExpired)) (donations st)
       + count_where (\<lambda>a. ap_user_id a = userID \<and> ap_service a = service \<and>
           (ap_status a = AppStatusPending \<or> ap_status a = AppStatusApproved))
           (donation_applications st)"

definition InvalidateDonationsForService :: "int \<Rightarrow> string \<Rightarrow> int \<Rightarrow> store \<Rightarrow> store" where
  "InvalidateDonationsForService userID service now st = st\<lparr>
     donation_applications := update_where
       (\<lambda>a. ap_user_id a = userID \<and> ap_service a = service \<and> ap_status a = AppStatusPending)
       (\<lambda>a. a\<lparr>ap_status := AppStatusInvalidated,
              ap_review_note := ''auto-invalidated by template regeneration''\<rparr>)
       (donation_applications st),
     donations := update_where
       (\<lambda>d. d_source_user_id d = Some userID \<and> d_service d = service \<and> d_status d = DonationExpired)
       (\<lambda>d. d\<lparr>d_status := DonationInactive, d_updated_at := now\<rparr>) (donations st)\<rparr>"

section \<open>Traces of pool operations\<close>

datatype pool_op =
    PoolCreate int donation string
  | PoolPatch int int donation_patch
  | PoolStatus int donation_status int
  | PoolBatchStatus "int list" donation_status int
  | PoolDelete int
  | PoolDeleteBatch "int list"
  | PoolSuccess int int
  | PoolFailure int int
  | PoolExpire int
  | PoolInvalidate int string int
  | PriceUpsert string string int "int option"
  | PricePatch string string pricing_patch
  | PriceDelete string string
  | PriceDeleteBatch "(string \<times> string) list"
  | PriceEnable string string bool

fun pool_exec :: "crypto \<Rightarrow> pool_op \<Rightarrow> store \<Rightarrow> store" where
  "pool_exec c (PoolCreate now d key) st = fst (CreateDonation c now d key st)"
| "pool_exec c (PoolPatch now i patch) st = fst (PatchDonation c now i patch st)"
| "pool_exec c (PoolStatus i s now) st = SetDonationStatus i s now st"
| "pool_exec c (PoolBatchStatus ids s now) st = fst (BatchSetDonationStatus ids s now st)"
| "pool_exec c (PoolDelete i) st = fst (DeleteDonation i st)"
| "pool_exec c (PoolDeleteBatch ids) st = fst (DeleteDonations ids st)"
| "pool_exec c (PoolSuccess i now) st = fst (RecordDonationSuccess i now st)"
| "pool_exec c (PoolFailure i now) st = fst (RecordDonationFailure i now st)"
| "pool_exec c (PoolExpire now) st = fst (ExpireOverdueDonations now st)"
| "pool_exec c (PoolInvalidate u s now) st = InvalidateDonationsForService u s now st"
| "pool_exec c (PriceUpsert s m p r) st = fst (UpsertPricing s m p r st)"
| "pool_exec c (PricePatch s m patch) st = fst (PatchPricing s m patch st)"
| "pool_exec c (PriceDelete s m) st = fst (DeletePricing s m st)"
| "pool_exec c (PriceDeleteBatch ps) st = fst (DeletePricingBatch ps st)"
| "pool_exec c (PriceEnable s m b) st = fst (SetPricingEnabled s m b st)"

definition pool_run :: "crypto \<Rightarrow> pool_op list \<Rightarrow> store \<Rightarrow> store" where
  "pool_run c ops st = fold (pool_exec c) ops st"

text \<open>The donor named by a new donation exists (the handlers pass the session's user).\<close>

fun donor_exists :: "int set \<Rightarrow> pool_op \<Rightarrow> bool" where
  "donor_exists us (PoolCreate now d key) =
     (case d_source_user_id d of None \<Rightarrow> True | Some u \<Rightarrow> u \<in> us)"
| "donor_exists us _ = True"

section \<open>The pool operations keep the ledger well formed\<close>

lemma ledger_ok_pricing [simp]: "ledger_ok (st\<lparr>charity_pricing := ps\<rparr>) = ledger_ok st"
  by (simp add: ledger_ok_def keys_ok_def)

lemma ledger_ok_donations:
  assumes "ledger_ok st" "map d_id ds = map d_id (donations st)"
    and "\<And>d. d \<in> set ds \<Longrightarrow> donation_ok (u_id ` set (users st)) d"
  shows "ledger_ok (st\<lparr>donations := ds\<rparr>)"
proof -
  have "ledger_ok (st\<lparr>donations := ds, users := users st,
      charity_reservations := charity_reservations st\<rparr>)"
    by (rule ledger_ok_edit) (use assms in \<open>auto simp: ledger_ok_def keys_ok_def\<close>)
  then show ?thesis by simp
qed

lemma ledger_ok_applications:
  assumes "ledger_ok st" "map ap_id xs = map ap_id (donation_applications st)"
  shows "ledger_ok (st\<lparr>donation_applications := xs\<rparr>)"
proof -
  have "ap_id ` set xs = ap_id ` set (donation_applications st)" using assms(2) by (metis set_map)
  then have "\<forall>a \<in> set xs. ap_id a \<le> application_seq st"
    using assms(1) unfolding ledger_ok_def keys_ok_def by (metis imageE imageI)
  then show ?thesis using assms by (simp add: ledger_ok_def keys_ok_def keys_distinct_def)
qed

text \<open>A guarded update of donations that keeps id and source and never makes the remaining count
  negative.\<close>

lemma ledger_ok_update_donations:
  assumes "ledger_ok st" "\<And>d. d_id (f d) = d_id d" "\<And>d. d_source_user_id (f d) = d_source_user_id d"
    and "\<And>d. P d \<Longrightarrow> 0 \<le> d_remaining_count d \<Longrightarrow> 0 \<le> d_remaining_count (f d)"
  shows "ledger_ok (st\<lparr>donations := update_where P f (donations st)\<rparr>)"
proof (rule ledger_ok_donations [OF assms(1)])
  show "map d_id (update_where P f (donations st)) = map d_id (donations st)"
    by (rule map_update_where) (rule assms(2))
  fix d assume "d \<in> set (update_where P f (donations st))"
  then obtain d0 where "d0 \<in> set (donations st)" "d = (if P d0 then f d0 else d0)"
    by (auto simp: set_update_where)
  moreover have "donation_ok (u_id ` set (users st)) d0"
    using assms(1) calculation(1) by (simp add: ledger_ok_def)
  ultimately show "donation_ok (u_id ` set (users st)) d"
    using assms(3,4) by (auto simp: donation_ok_def)
qed

lemma put_status_fields [simp]:
  "d_id (put_status s now d) = d_id d" "d_source_user_id (put_status s now d) = d_source_user_id d"
  "d_remaining_count (put_status s now d) = d_remaining_count d"
  "d_total_count (put_status s now d) = d_total_count d"
  "d_success_count (put_status s now d) = d_success_count d"
  "d_service (put_status s now d) = d_service d" "d_model (put_status s now d) = d_model d"
  "d_status (put_status s now d) = s"
  by (simp_all add: put_status_def)

lemma SetDonationStatus_ok: "ledger_ok st \<Longrightarrow> ledger_ok (SetDonationStatus i s now st)"
  unfolding SetDonationStatus_def by (rule ledger_ok_update_donations) simp_all

lemma BatchSetDonationStatus_ok:
  assumes "ledger_ok st"
  shows "ledger_ok (fst (BatchSetDonationStatus ids s now st))"
proof -
  have "ledger_ok (fold (\<lambda>i. SetDonationStatus i s now) ids st)"
    using assms by (induction ids arbitrary: st) (simp_all add: SetDonationStatus_ok)
  with assms show ?thesis by (auto simp: BatchSetDonationStatus_def split: option.splits)
qed

lemma ledger_ok_insert_donation:
  assumes "ledger_ok st" "d_id d = donation_seq st + 1" "donation_ok (u_id ` set (users st)) d"
  shows "ledger_ok (st\<lparr>donations := donations st @ [d], donation_seq := donation_seq st + 1\<rparr>)"
proof -
  have seq: "\<forall>x \<in> set (donations st). d_id x \<le> donation_seq st"
    using assms(1) by (simp add: ledger_ok_def keys_ok_def)
  then have fresh: "d_id d \<notin> d_id ` set (donations st)"
    using assms(2) by fastforce
  have up: "\<forall>x \<in> set (donations st @ [d]). d_id x \<le> donation_seq st + 1"
    using seq assms(2) by fastforce
  have res: "reservation_ok (insert (d_id d) ds) us r" if "reservation_ok ds us r" for ds us r
    using that by (auto simp: reservation_ok_def)
  show ?thesis
    using assms(1,3) fresh up res by (simp add: ledger_ok_def keys_ok_def)
qed

lemma new_donation_fields [simp]:
  "d_id (new_donation c now i key enc d) = i"
  "d_source_user_id (new_donation c now i key enc d) = d_source_user_id d"
  "d_remaining_count (new_donation c now i key enc d) = d_total_count d"
  "d_total_count (new_donation c now i key enc d) = d_total_count d"
  "d_success_count (new_donation c now i key enc d) = 0"
  by (simp_all add: new_donation_def)

lemma CreateDonation_ok:
  assumes "ledger_ok st" "donor_exists (u_id ` set (users st)) (PoolCreate now d key)"
  shows "ledger_ok (fst (CreateDonation c now d key st))"
proof -
  have "ledger_ok (st\<lparr>donations := donations st @
      [new_donation c now (donation_seq st + 1) key enc d], donation_seq := donation_seq st + 1\<rparr>)"
    if "0 < d_total_count d" for enc
    by (rule ledger_ok_insert_donation [OF assms(1)])
      (use assms(2) that in \<open>simp_all add: donation_ok_def\<close>)
  with assms(1) show ?thesis by (simp add: CreateDonation_def Let_def split: option.splits)
qed

text \<open>What a successful patch stores: the merged row, under the same id and source, with a
  remaining count that is never negative.\<close>

lemma patched_row_fields [simp]:
  "d_id (patched_row now patch key d) = d_id d"
  "d_source_user_id (patched_row now patch key d) = d_source_user_id d"
  "d_success_count (patched_row now patch key d) = d_success_count d"
  "d_total_count (patched_row now patch key d) = or_keep (dp_total_count patch) (d_total_count d)"
  "d_status (patched_row now patch key d) = or_keep (dp_status patch) (d_status d)"
  "d_service (patched_row now patch key d) = d_service (merged_row patch key d)"
  "d_model (patched_row now patch key d) = d_model (merged_row patch key d)"
  "d_remaining_count (patched_row now patch key d) =
     (case dp_total_count patch of None \<Rightarrow> d_remaining_count d
      | Some n \<Rightarrow> max 0 (d_remaining_count d + (n - d_total_count d)))"
  by (simp_all add: patched_row_def merged_row_def Let_def split: option.splits)

lemma PatchDonation_okE:
  assumes "PatchDonation c now i patch st = (st', Inr res)" "keys_ok st"
  obtains d key where "donation_row i st = Some d" "d_status d \<noteq> DonationExpired"
    "patch_invalid i now patch = None"
    "\<not> (activates d (merged_row patch key d) \<and> count_where (\<lambda>p.
        p_service p = d_service (merged_row patch key d) \<and>
        p_model p = d_model (merged_row patch key d)) (charity_pricing st) = 0)"
    "donations st' = update_where (\<lambda>d. d_id d = i) (patched_row now patch key) (donations st)"
    "st' = st\<lparr>donations := donations st', donation_applications := donation_applications st'\<rparr>"
    "map ap_id (donation_applications st') = map ap_id (donation_applications st)"
proof -
  note call = assms(1) [unfolded PatchDonation_def Let_def]
  obtain key where key: "patch_key c i patch = Inr key"
    using call by (cases "patch_key c i patch") simp_all
  obtain d where d: "donation_row i st = Some d"
    using call key by (cases "donation_row i st") simp_all
  have live: "d_status d \<noteq> DonationExpired" using call key d by auto
  have valid: "patch_invalid i now patch = None"
    using call key d live by (cases "patch_invalid i now patch") simp_all
  have gate: "\<not> (activates d (merged_row patch key d) \<and> count_where (\<lambda>p.
        p_service p = d_service (merged_row patch key d) \<and>
        p_model p = d_model (merged_row patch key d)) (charity_pricing st) = 0)"
    using call key d live valid by (auto split: if_split_asm)
  have "store_patch i patch (patched_row now patch key d) st = (st', Inr res)"
    using call key d live valid gate by simp
  then have ds: "donations st' =
      update_where (\<lambda>d. d_id d = i) (\<lambda>_. patched_row now patch key d) (donations st)"
    and frame: "st' = st\<lparr>donations := donations st', donation_applications := donation_applications st'\<rparr>"
    and aps: "map ap_id (donation_applications st') = map ap_id (donation_applications st)"
    by (auto simp: store_patch_def Let_def split: if_split_asm option.split_asm)
  have "donations st' = update_where (\<lambda>d. d_id d = i) (patched_row now patch key) (donations st)"
    unfolding ds by (rule update_where_row [symmetric, OF keys_ok_dest(2) [OF assms(2)] d])
  then show ?thesis by (rule that [OF d live valid gate _ frame aps])
qed

lemma PatchDonation_error: "PatchDonation c now i patch st = (st', Inl e) \<Longrightarrow> st' = st"
  by (auto simp: PatchDonation_def store_patch_def Let_def
      split: sum.split_asm option.split_asm if_split_asm)

lemma PatchDonation_ok:
  assumes "ledger_ok st"
  shows "ledger_ok (fst (PatchDonation c now i patch st))"
proof (cases "PatchDonation c now i patch st")
  case (Pair st' res)
  show ?thesis
  proof (cases res)
    case (Inl e) with Pair assms show ?thesis using PatchDonation_error by fastforce
  next
    case (Inr r)
    have "ledger_ok st'"
    proof (rule PatchDonation_okE [OF Pair [unfolded Inr] ledger_ok_keys [OF assms]])
      fix d key
      assume *: "donations st' = update_where (\<lambda>d. d_id d = i) (patched_row now patch key) (donations st)"
        "st' = st\<lparr>donations := donations st', donation_applications := donation_applications st'\<rparr>"
        "map ap_id (donation_applications st') = map ap_id (donation_applications st)"
      have "ledger_ok (st\<lparr>donations := donations st'\<rparr>)"
        unfolding *(1) by (rule ledger_ok_update_donations [OF assms]) (simp_all split: option.splits)
      then have "ledger_ok (st\<lparr>donations := donations st', donation_applications := donation_applications st'\<rparr>)"
        using ledger_ok_applications [of "st\<lparr>donations := donations st'\<rparr>"] *(3) by simp
      then show ?thesis using *(2) by simp
    qed
    with Pair show ?thesis by simp
  qed
qed

lemma RecordDonationSuccess_ok: "ledger_ok st \<Longrightarrow> ledger_ok (fst (RecordDonationSuccess i now st))"
  unfolding RecordDonationSuccess_def Let_def
  by (simp, rule impI, rule ledger_ok_update_donations)
    (simp_all add: claim_use_def record_success_use_def)

lemma RecordDonationFailure_ok: "ledger_ok st \<Longrightarrow> ledger_ok (fst (RecordDonationFailure i now st))"
  unfolding RecordDonationFailure_def Let_def
  by (simp, rule impI, rule ledger_ok_update_donations) simp_all

lemma ExpireOverdueDonations_ok: "ledger_ok st \<Longrightarrow> ledger_ok (fst (ExpireOverdueDonations now st))"
  unfolding ExpireOverdueDonations_def Let_def fst_conv
  by (rule ledger_ok_update_donations) simp_all

lemma InvalidateDonationsForService_ok:
  assumes "ledger_ok st"
  shows "ledger_ok (InvalidateDonationsForService u s now st)"
proof -
  let ?aps = "update_where
       (\<lambda>a. ap_user_id a = u \<and> ap_service a = s \<and> ap_status a = AppStatusPending)
       (\<lambda>a. a\<lparr>ap_status := AppStatusInvalidated,
              ap_review_note := ''auto-invalidated by template regeneration''\<rparr>)
       (donation_applications st)"
  have "ledger_ok (st\<lparr>donation_applications := ?aps\<rparr>)"
    by (rule ledger_ok_applications [OF assms]) simp
  then have "ledger_ok (st\<lparr>donation_applications := ?aps\<rparr>\<lparr>donations := update_where
       (\<lambda>d. d_source_user_id d = Some u \<and> d_service d = s \<and> d_status d = DonationExpired)
       (\<lambda>d. d\<lparr>d_status := DonationInactive, d_updated_at := now\<rparr>)
       (donations (st\<lparr>donation_applications := ?aps\<rparr>))\<rparr>)"
    by (rule ledger_ok_update_donations) simp_all
  then show ?thesis by (simp add: InvalidateDonationsForService_def)
qed

lemma in_flight_nonneg [simp]: "0 \<le> in_flight i st"
  by (simp add: in_flight_def)

lemma deleteDonationTx_in_flight: "deleteDonationTx i st =
    (if 0 < in_flight i st then (st, Inl (DeleteInFlight i (in_flight i st)))
     else if count_where (\<lambda>d. d_id d = i) (donations st) \<noteq> 1 then (st, Inl (DeleteNotFound i))
     else (st\<lparr>donations := delete_where (\<lambda>d. d_id d = i) (donations st)\<rparr>, Inr ()))"
  by (simp add: deleteDonationTx_def Let_def in_flight_def unsettled_def)

lemma deleteDonationTx_cases:
  assumes "deleteDonationTx i st = (st', res)" "keys_ok st"
  obtains
    (error) e where "st' = st" "res = Inl e" "donation_row i st = None \<or> 0 < in_flight i st"
  | (deleted) d where "donation_row i st = Some d" "in_flight i st = 0" "res = Inr ()"
      "st' = st\<lparr>donations := delete_where (\<lambda>d. d_id d = i) (donations st)\<rparr>"
proof -
  have "0 = in_flight i st \<or> 0 < in_flight i st" using in_flight_nonneg [of i st] by linarith
  then show ?thesis
    using assms(1) count_where_only_key [OF keys_ok_dest(2) [OF assms(2)], of i] error deleted
    by (cases "donation_row i st") (auto simp: deleteDonationTx_in_flight split: if_split_asm)
qed

lemma deleteDonationTx_ok:
  assumes "ledger_ok st"
  shows "ledger_ok (fst (deleteDonationTx i st))"
proof -
  obtain st' res where D: "deleteDonationTx i st = (st', res)" by fastforce
  from D ledger_ok_keys [OF assms] have "ledger_ok st'"
  proof (cases rule: deleteDonationTx_cases)
    case (deleted d)
    have "\<not> (r_donation_id r = i \<and> unsettled r)" if "r \<in> set (charity_reservations st)" for r
      using deleted(2) that by (simp add: in_flight_def count_where_0)
    then have "reservation_ok {x \<in> d_id ` set (donations st). x \<noteq> i} (u_id ` set (users st)) r"
      if "r \<in> set (charity_reservations st)" for r
      using assms that unfolding ledger_ok_def reservation_ok_def by blast
    moreover have "d_id ` set (delete_where (\<lambda>d. d_id d = i) (donations st)) =
        {x \<in> d_id ` set (donations st). x \<noteq> i}" by auto
    ultimately show ?thesis using assms unfolding deleted(4) by (simp add: ledger_ok_def keys_ok_def)
  qed (use assms in simp)
  with D show ?thesis by simp
qed

lemma in_transaction_preserves:
  assumes "\<And>x st. Q st \<Longrightarrow> Q (fst (f x st))" "Q st0" "Q st"
  shows "Q (fst (in_transaction f st0 xs st))"
  using assms(3)
proof (induction xs arbitrary: st)
  case (Cons x xs)
  show ?case
    using Cons.IH [of "fst (f x st)"] assms(1) [OF Cons.prems, of x] assms(2)
    by (cases "f x st") (auto split: sum.split)
qed (use assms in simp)

lemma pool_exec_ok:
  assumes "ledger_ok st" "donor_exists (u_id ` set (users st)) x"
  shows "ledger_ok (pool_exec c x st)"
proof (cases x)
  case (PoolCreate now d key)
  then show ?thesis using CreateDonation_ok [OF assms(1), of now d key c] assms(2) by simp
qed (use assms(1) in \<open>simp_all add: PatchDonation_ok SetDonationStatus_ok BatchSetDonationStatus_ok
  RecordDonationSuccess_ok RecordDonationFailure_ok ExpireOverdueDonations_ok
  InvalidateDonationsForService_ok deleteDonationTx_ok DeleteDonation_def DeleteDonations_def
  in_transaction_preserves [of ledger_ok] UpsertPricing_def PatchPricing_def DeletePricing_def
  DeletePricingBatch_def SetPricingEnabled_def Let_def split: option.split prod.split\<close>)

lemma pool_exec_users [simp]: "users (pool_exec c x st) = users st"
proof (cases x)
  case (PoolPatch now i patch)
  then show ?thesis
    by (auto simp: PatchDonation_def store_patch_def Let_def split: sum.split option.split)
next
  case (PoolBatchStatus ids s now)
  have "users (fold (\<lambda>i. SetDonationStatus i s now) ids st) = users st" for st
    by (induction ids arbitrary: st) (simp_all add: SetDonationStatus_def)
  with PoolBatchStatus show ?thesis by (auto simp: BatchSetDonationStatus_def split: option.split)
next
  case (PoolDeleteBatch ids)
  have "users (fst (in_transaction deleteDonationTx st ids st1)) = users st"
    if "users st1 = users st" for st1
    by (rule in_transaction_preserves [of "\<lambda>s. users s = users st"])
      (use that in \<open>simp_all add: deleteDonationTx_def Let_def\<close>)
  with PoolDeleteBatch show ?thesis by (simp add: DeleteDonations_def)
qed (simp_all add: CreateDonation_def SetDonationStatus_def DeleteDonation_def deleteDonationTx_def
  RecordDonationSuccess_def RecordDonationFailure_def ExpireOverdueDonations_def
  InvalidateDonationsForService_def UpsertPricing_def PatchPricing_def DeletePricing_def
  DeletePricingBatch_def SetPricingEnabled_def Let_def split: option.split prod.split)

section \<open>Batches\<close>

lemma first_error_None: "first_error f xs = None \<longleftrightarrow> (\<forall>x \<in> set xs. f x = None)"
  by (induction xs) (auto split: option.split)

lemma first_error_Some:
  "first_error f xs = Some e \<Longrightarrow> \<exists>ys x zs. xs = ys @ x # zs \<and> f x = Some e \<and> (\<forall>y \<in> set ys. f y = None)"
proof (induction xs)
  case (Cons a xs)
  show ?case
  proof (cases "f a")
    case None
    then obtain ys x zs where "xs = ys @ x # zs" "f x = Some e" "\<forall>y \<in> set ys. f y = None"
      using Cons by auto
    then show ?thesis using None by (intro exI [of _ "a # ys"]) auto
  next
    case (Some b)
    then show ?thesis using Cons.prems by (intro exI [of _ "[]"]) auto
  qed
qed simp

lemma put_status_idem: "put_status s now (put_status s now d) = put_status s now d"
  by (simp add: put_status_def)

lemma fold_SetDonationStatus:
  "donation_row k (fold (\<lambda>i. SetDonationStatus i s now) ids st) =
     (if k \<in> set ids then map_option (put_status s now) (donation_row k st) else donation_row k st)"
proof (induction ids arbitrary: st)
  case (Cons i ids)
  have "donation_row k (SetDonationStatus i s now st) =
      (if k = i then map_option (put_status s now) (donation_row k st) else donation_row k st)"
    by (simp add: SetDonationStatus_def by_key_update_key)
  with Cons show ?case by (auto simp: option.map_comp comp_def put_status_idem)
qed simp

lemma delete_where_twice:
  "delete_where P (delete_where Q xs) = delete_where (\<lambda>x. Q x \<or> P x) xs"
  by (induction xs) auto

lemma delete_where_cong: "(\<And>x. x \<in> set xs \<Longrightarrow> P x = Q x) \<Longrightarrow> delete_where P xs = delete_where Q xs"
  by (induction xs) auto

text \<open>The transaction that deletes a selection either goes through, when no id is repeated, missing
  or in flight, or leaves the starting store.\<close>

definition deletable :: "store \<Rightarrow> int \<Rightarrow> bool" where
  "deletable st i \<longleftrightarrow> donation_row i st \<noteq> None \<and> in_flight i st = 0"

lemma delete_transaction:
  assumes "keys_ok st"
  shows "if distinct ids \<and> list_all (deletable st) ids
     then in_transaction deleteDonationTx st0 ids st =
       (st\<lparr>donations := delete_where (\<lambda>d. d_id d \<in> set ids) (donations st)\<rparr>, Inr ())
     else \<exists>e. in_transaction deleteDonationTx st0 ids st = (st0, Inl e)"
  using assms
proof (induction ids arbitrary: st)
  case Nil
  have "delete_where (\<lambda>d. False) (donations st) = donations st" by (simp add: delete_where_def)
  then show ?case by simp
next
  case (Cons i ids)
  obtain st1 res where D: "deleteDonationTx i st = (st1, res)" by fastforce
  from D Cons.prems show ?case
  proof (cases rule: deleteDonationTx_cases)
    case (error e)
    then show ?thesis using D by (auto simp: deletable_def)
  next
    case (deleted d)
    have k1: "keys_ok st1" using Cons.prems deleted(4) by (simp add: keys_ok_def)
    have row1: "donation_row j st1 = (if j = i then None else donation_row j st)" for j
      using keys_ok_dest(2) [OF Cons.prems]
      by (cases "donation_row j st") (auto simp: deleted(4) by_key_delete dest: by_key_SomeD)
    have flight1: "in_flight j st1 = in_flight j st" for j by (simp add: deleted(4) in_flight_def)
    have "list_all (deletable st1) ids \<longleftrightarrow> i \<notin> set ids \<and> list_all (deletable st) ids"
      by (auto simp: list_all_iff deletable_def row1 flight1)
    moreover have "deletable st i" using deleted by (simp add: deletable_def)
    moreover have "in_transaction deleteDonationTx st0 (i # ids) st =
        in_transaction deleteDonationTx st0 ids st1" using D deleted(3) by simp
    moreover have "st1\<lparr>donations := delete_where (\<lambda>d. d_id d \<in> set ids) (donations st1)\<rparr> =
        st\<lparr>donations := delete_where (\<lambda>d. d_id d \<in> set (i # ids)) (donations st)\<rparr>"
      by (simp add: deleted(4) delete_where_twice)
    ultimately show ?thesis using Cons.IH [OF k1] by (simp split: if_splits)
  qed
qed

section \<open>The activation gate\<close>

definition priced :: "store \<Rightarrow> donation \<Rightarrow> bool" where
  "priced st d \<longleftrightarrow> 0 < count_where (\<lambda>p. p_service p = d_service d \<and> p_model p = d_model d)
     (charity_pricing st)"

definition active_priced :: "store \<Rightarrow> bool" where
  "active_priced st \<longleftrightarrow> (\<forall>d \<in> set (donations st). d_status d = DonationActive \<longrightarrow> priced st d)"

text \<open>The operations behind the gate: everything except the raw status setter used with active,
  the creation of an entry that is active at once, and a patch that renames the service or model
  of an entry.\<close>

fun gated :: "pool_op \<Rightarrow> bool" where
  "gated (PoolCreate now d key) \<longleftrightarrow> d_status d = DonationInactive"
| "gated (PoolPatch now i patch) \<longleftrightarrow> dp_service patch = None \<and> dp_model patch = None"
| "gated (PoolStatus i s now) \<longleftrightarrow> s \<noteq> DonationActive"
| "gated _ = True"

lemma priced_iff: "priced st d \<longleftrightarrow>
    (\<exists>p \<in> set (charity_pricing st). p_service p = d_service d \<and> p_model p = d_model d)"
  by (simp add: priced_def count_where_pos)

lemma active_pricedI:
  assumes "active_priced st"
    and "\<And>d'. d' \<in> set (donations st') \<Longrightarrow> d_status d' = DonationActive \<Longrightarrow>
       priced st d' \<or> (\<exists>d \<in> set (donations st). d_status d = DonationActive \<and>
         d_service d' = d_service d \<and> d_model d' = d_model d)"
    and "\<And>d. priced st d \<Longrightarrow> d \<in> set (donations st') \<Longrightarrow> priced st' d"
  shows "active_priced st'"
  unfolding active_priced_def
proof (intro ballI impI)
  fix d' assume d': "d' \<in> set (donations st')" "d_status d' = DonationActive"
  from assms(2) [OF this] have "priced st d'"
    using assms(1) by (auto simp: active_priced_def priced_iff)
  then show "priced st' d'" using assms(3) d'(1) by blast
qed

lemma active_priced_update:
  assumes "active_priced st" "donations st' = update_where P f (donations st)"
    "charity_pricing st' = charity_pricing st"
    and "\<And>d. d_service (f d) = d_service d" "\<And>d. d_model (f d) = d_model d"
    and "\<And>d. \<lbrakk>d \<in> set (donations st); P d; d_status (f d) = DonationActive\<rbrakk> \<Longrightarrow>
       d_status d = DonationActive \<or> priced st d"
  shows "active_priced st'"
proof (rule active_pricedI [OF assms(1)])
  fix d' assume "d' \<in> set (donations st')" "d_status d' = DonationActive"
  then obtain d where d: "d \<in> set (donations st)" "d' = (if P d then f d else d)"
    "d_status d' = DonationActive" using assms(2) by (auto simp: set_update_where)
  have "d_status d = DonationActive \<or> priced st d"
    using d assms(6) [OF d(1)] by (cases "P d") simp_all
  moreover have "d_service d' = d_service d" "d_model d' = d_model d"
    using d(2) assms(4,5) by simp_all
  ultimately show "priced st d' \<or> (\<exists>d \<in> set (donations st). d_status d = DonationActive \<and>
      d_service d' = d_service d \<and> d_model d' = d_model d)"
    using d(1) by (auto simp: priced_def)
qed (simp add: priced_def assms(3))

lemma active_priced_sub:
  assumes "active_priced st" "set (donations st') \<subseteq> set (donations st)"
    "\<And>d. priced st d \<Longrightarrow> d \<in> set (donations st) \<Longrightarrow> priced st' d"
  shows "active_priced st'"
  using assms unfolding active_priced_def by blast

lemma SetDonationStatus_gate:
  assumes "active_priced st" "s = DonationActive \<Longrightarrow> \<forall>d \<in> set (donations st). d_id d = i \<longrightarrow> priced st d"
  shows "active_priced (SetDonationStatus i s now st)"
  unfolding SetDonationStatus_def
  by (rule active_priced_update [OF assms(1), of _ "\<lambda>d. d_id d = i" "put_status s now"])
    (use assms(2) in auto)

lemma BatchSetDonationStatus_gate:
  assumes "active_priced st" "keys_ok st"
  shows "active_priced (fst (BatchSetDonationStatus ids s now st))"
proof -
  define Q where "Q = (\<lambda>st1. charity_pricing st1 = charity_pricing st \<and> active_priced st1 \<and>
    (s = DonationActive \<longrightarrow> (\<forall>d \<in> set (donations st1). d_id d \<in> set ids \<longrightarrow> priced st d)))"
  have step: "Q (SetDonationStatus i s now st1)" if "Q st1" "i \<in> set ids" for i st1
  proof -
    have "active_priced (SetDonationStatus i s now st1)"
      by (rule SetDonationStatus_gate) (use that in \<open>auto simp: Q_def priced_def\<close>)
    with that show ?thesis
      by (auto simp: Q_def SetDonationStatus_def set_update_where priced_def)
  qed
  have run: "Q (fold (\<lambda>i. SetDonationStatus i s now) xs st1)" if "Q st1" "set xs \<subseteq> set ids" for xs st1
    using that by (induction xs arbitrary: st1) (simp_all add: step)
  have "Q st" if "first_error (check_status_target s st) ids = None"
  proof -
    have "priced st d" if "s = DonationActive" "d \<in> set (donations st)" "d_id d \<in> set ids" for d
    proof -
      have "check_status_target s st (d_id d) = None"
        using \<open>first_error _ _ = None\<close> that(3) by (simp add: first_error_None)
      then show ?thesis
        using that(1) by_key_in_set [OF keys_ok_dest(2) [OF assms(2)] that(2)]
        by (auto simp: check_status_target_def priced_def order_less_le split: if_split_asm)
    qed
    with assms(1) show ?thesis by (simp add: Q_def)
  qed
  with run [of st ids] assms(1) show ?thesis
    by (auto simp: BatchSetDonationStatus_def Q_def split: option.split)
qed

lemma PatchDonation_gate:
  assumes "active_priced st" "keys_ok st" "dp_service patch = None" "dp_model patch = None"
  shows "active_priced (fst (PatchDonation c now i patch st))"
proof (cases "PatchDonation c now i patch st")
  case (Pair st' res)
  show ?thesis
  proof (cases res)
    case (Inl e) with Pair assms show ?thesis using PatchDonation_error by fastforce
  next
    case (Inr r)
    have "active_priced st'"
    proof (rule PatchDonation_okE [OF Pair [unfolded Inr] assms(2)])
      fix d key
      assume d: "donation_row i st = Some d"
        and gate: "\<not> (activates d (merged_row patch key d) \<and> count_where (\<lambda>p.
          p_service p = d_service (merged_row patch key d) \<and>
          p_model p = d_model (merged_row patch key d)) (charity_pricing st) = 0)"
        and ds: "donations st' = update_where (\<lambda>d. d_id d = i) (patched_row now patch key) (donations st)"
        and frame: "st' = st\<lparr>donations := donations st', donation_applications := donation_applications st'\<rparr>"
      have same: "d_service (merged_row patch key x) = d_service x"
        "d_model (merged_row patch key x) = d_model x" for x
        using assms(3,4) by (simp_all add: merged_row_def or_keep_def)
      have only: "x = d" if "x \<in> set (donations st)" "d_id x = i" for x
        using by_key_in_set [OF keys_ok_dest(2) [OF assms(2)] that(1)] d that(2) by simp
      have "d_status x = DonationActive \<or> priced st x"
        if x: "x \<in> set (donations st)" "d_id x = i" "d_status (patched_row now patch key x) = DonationActive" for x
      proof (rule disjCI)
        assume "\<not> priced st x"
        then have "count_where (\<lambda>p. p_service p = d_service x \<and> p_model p = d_model x)
            (charity_pricing st) = 0"
          using count_where_nonneg unfolding priced_def by (metis order_le_less)
        with gate have "\<not> activates x (merged_row patch key x)"
          using only [OF x(1,2)] same by simp
        then show "d_status x = DonationActive" using x(3)
          by (simp add: activates_def merged_row_def)
      qed
      moreover have "charity_pricing st' = charity_pricing st" by (subst frame) simp
      ultimately show ?thesis
        by (intro active_priced_update [OF assms(1) ds]) (simp_all add: same)
    qed
    with Pair show ?thesis by simp
  qed
qed

lemma pricing_edit_gate:
  assumes "active_priced st"
    "\<forall>p \<in> set (charity_pricing st). (p_service p, p_model p) \<in> (\<lambda>p. (p_service p, p_model p)) ` set ps"
  shows "active_priced (st\<lparr>charity_pricing := ps\<rparr>)"
  by (rule active_priced_sub [OF assms(1)]) (use assms(2) in \<open>fastforce simp: priced_iff\<close>)+

lemma update_pairs:
  "(\<And>p. p_service (f p) = p_service p) \<Longrightarrow> (\<And>p. p_model (f p) = p_model p) \<Longrightarrow>
   \<forall>p \<in> set ps. (p_service p, p_model p) \<in> (\<lambda>p. (p_service p, p_model p)) ` set (update_where P f ps)"
  by (induction ps) auto

lemma pricing_delete_gate:
  assumes "active_priced st" "\<And>s m. (s, m) \<in> set pairs \<Longrightarrow> \<not> HasDonationsForPair s m st"
  shows "active_priced (st\<lparr>charity_pricing :=
     fold (\<lambda>pair. delete_where (\<lambda>p. pricing_key p = pair)) pairs (charity_pricing st)\<rparr>)"
proof -
  have set_fold: "set (fold (\<lambda>pair. delete_where (\<lambda>p. pricing_key p = pair)) pairs ps) =
      {p \<in> set ps. pricing_key p \<notin> set pairs}" for ps
    by (induction pairs arbitrary: ps) auto
  show ?thesis
  proof (rule active_priced_sub [OF assms(1)])
    fix d assume d: "priced st d" "d \<in> set (donations st)"
    have "HasDonationsForPair (d_service d) (d_model d) st"
      unfolding HasDonationsForPair_def count_where_pos using d(2) by blast
    then have "(d_service d, d_model d) \<notin> set pairs" using assms(2) by blast
    moreover obtain p where "p \<in> set (charity_pricing st)" "pricing_key p = (d_service d, d_model d)"
      "p_service p = d_service d" "p_model p = d_model d"
      using d(1) by (auto simp: priced_iff pricing_key_def)
    ultimately have "p \<in> set (fold (\<lambda>pair. delete_where (\<lambda>p. pricing_key p = pair)) pairs
        (charity_pricing st))" "p_service p = d_service d" "p_model p = d_model d"
      by (simp_all add: set_fold)
    then show "priced (st\<lparr>charity_pricing := fold (\<lambda>pair. delete_where
        (\<lambda>p. pricing_key p = pair)) pairs (charity_pricing st)\<rparr>) d"
      by (auto simp: priced_iff)
  qed simp
qed

lemma pool_exec_gate:
  assumes "active_priced st" "keys_ok st" "gated x"
  shows "active_priced (pool_exec c x st)"
proof (cases x)
  case (PoolCreate now d key)
  have "active_priced (st\<lparr>donations := donations st @ [new_donation c now (donation_seq st + 1) key enc d],
      donation_seq := donation_seq st + 1\<rparr>)" for enc
    using assms(1,3) PoolCreate by (auto simp: active_priced_def priced_def new_donation_def)
  with PoolCreate assms(1) show ?thesis
    by (simp add: CreateDonation_def Let_def split: option.split)
next
  case (PoolStatus i s now)
  then show ?thesis using assms by (auto intro!: SetDonationStatus_gate)
next
  case (PoolDelete i)
  have "active_priced (st\<lparr>donations := delete_where (\<lambda>d. d_id d = i) (donations st)\<rparr>)"
    by (rule active_priced_sub [OF assms(1)]) (auto simp: priced_def)
  with PoolDelete assms(1) show ?thesis by (simp add: DeleteDonation_def deleteDonationTx_def Let_def)
next
  case (PoolDeleteBatch ids)
  have step: "active_priced (fst (deleteDonationTx i s))" if "active_priced s" for i s
    using active_priced_sub [OF that, of "s\<lparr>donations := delete_where (\<lambda>d. d_id d = i) (donations s)\<rparr>"]
      that by (auto simp: deleteDonationTx_def Let_def priced_def)
  show ?thesis unfolding PoolDeleteBatch pool_exec.simps DeleteDonations_def
    by (rule in_transaction_preserves [of active_priced]) (use assms(1) step in auto)
next
  case (PoolSuccess i now)
  have "active_priced (st\<lparr>donations := update_where
      (\<lambda>d. d_id d = i \<and> d_status d = DonationActive \<and> 0 < d_remaining_count d)
      (\<lambda>d. record_success_use now (claim_use now d)) (donations st)\<rparr>)"
    by (rule active_priced_update [OF assms(1)], simp)
      (simp_all add: claim_use_def record_success_use_def)
  with PoolSuccess assms(1) show ?thesis by (simp add: RecordDonationSuccess_def Let_def)
next
  case (PoolFailure i now)
  have "active_priced (st\<lparr>donations := update_where (\<lambda>d. d_id d = i)
      (\<lambda>d. d\<lparr>d_failure_count := d_failure_count d + 1,
        d_consecutive_failures := d_consecutive_failures d + 1, d_updated_at := now\<rparr>) (donations st)\<rparr>)"
    by (rule active_priced_update [OF assms(1)], simp) simp_all
  with PoolFailure assms(1) show ?thesis by (simp add: RecordDonationFailure_def Let_def)
next
  case (PoolExpire now)
  show ?thesis unfolding PoolExpire pool_exec.simps ExpireOverdueDonations_def Let_def fst_conv
    by (rule active_priced_update [OF assms(1)], simp) simp_all
next
  case (PoolInvalidate u s now)
  show ?thesis unfolding PoolInvalidate pool_exec.simps InvalidateDonationsForService_def
    by (rule active_priced_update [OF assms(1)], simp) simp_all
next
  case (PriceUpsert s m p r)
  show ?thesis using assms(1)
    by (auto simp: PriceUpsert UpsertPricing_def Let_def intro!: pricing_edit_gate update_pairs)
next
  case (PricePatch s m patch)
  have "active_priced (st\<lparr>charity_pricing := update_where P (\<lambda>x. x\<lparr>p_price := a, p_reward := b, p_enabled := e\<rparr>)
      (charity_pricing st)\<rparr>)" for P a b e
    by (rule pricing_edit_gate [OF assms(1)], rule update_pairs) simp_all
  then show ?thesis using assms(1)
    by (simp add: PricePatch PatchPricing_def Let_def split: option.split)
next
  case (PriceEnable s m b)
  have "active_priced (st\<lparr>charity_pricing := update_where P (\<lambda>x. x\<lparr>p_enabled := b\<rparr>) (charity_pricing st)\<rparr>)" for P
    by (rule pricing_edit_gate [OF assms(1)], rule update_pairs) simp_all
  then show ?thesis using assms(1) by (simp add: PriceEnable SetPricingEnabled_def Let_def)
next
  case (PriceDelete s m)
  then show ?thesis using assms(1) pricing_delete_gate [OF assms(1), of "[(s, m)]"]
    by (auto simp: DeletePricing_def)
next
  case (PriceDeleteBatch ps)
  then show ?thesis using assms(1) pricing_delete_gate [OF assms(1), of ps]
    by (auto simp: DeletePricingBatch_def find_None_iff split: option.split)
next
  case (PoolBatchStatus ids s now)
  then show ?thesis using BatchSetDonationStatus_gate [OF assms(1,2)] by simp
next
  case (PoolPatch now i patch)
  then show ?thesis using PatchDonation_gate [OF assms(1,2)] assms(3) by simp
qed

section \<open>Properties\<close>

text \<open>Capacity accounting of an edit. When the uses of a donation that are free, delivered or in
  flight add up to its total, a successful patch keeps them adding up to the new total, unless
  the new total is below what has already been used; then nothing is left to claim. Every patch
  that fails leaves the store as it was.\<close>

theorem patch_keeps_capacity:
  assumes "ledger_ok st" "donation_row i st = Some d" "donation_uses i st = d_total_count d"
    and "PatchDonation c now i patch st = (st', res)"
  shows "case res of
      Inl e \<Rightarrow> st' = st
    | Inr _ \<Rightarrow> (\<exists>d'. donation_row i st' = Some d' \<and>
        d_total_count d' = or_keep (dp_total_count patch) (d_total_count d) \<and>
        donation_uses i st' = max (d_total_count d') (d_success_count d + in_flight i st))"
proof (cases res)
  case (Inl e)
  then show ?thesis using assms(4) PatchDonation_error by simp
next
  case (Inr r)
  show ?thesis
  proof (rule PatchDonation_okE [OF assms(4) [unfolded Inr] ledger_ok_keys [OF assms(1)]])
    fix d0 key
    assume ds: "donations st' = update_where (\<lambda>d. d_id d = i) (patched_row now patch key) (donations st)"
      and frame: "st' = st\<lparr>donations := donations st', donation_applications := donation_applications st'\<rparr>"
    have "in_flight i st' = in_flight i st" by (subst frame) (simp add: in_flight_def)
    moreover have "donation_row i st' = Some (patched_row now patch key d)"
      using assms(2) by (simp add: ds by_key_update_key)
    moreover have "0 \<le> d_remaining_count d"
      using ledger_ok_donation [OF assms(1,2)] by (simp add: donation_ok_def)
    ultimately show ?thesis
      using assms(2,3) Inr
      by (cases "dp_total_count patch") (auto simp: donation_uses_def or_keep_def)
  qed
qed

definition empty_patch :: donation_patch where
  "empty_patch = \<lparr>dp_service = None, dp_model = None, dp_dify_base_url = None, dp_dify_api_key = None,
     dp_rpm_limit = None, dp_deadline = None, dp_total_count = None, dp_note = None,
     dp_review_note = None, dp_status = None\<rparr>"

definition sample_crypto :: crypto where
  "sample_crypto = \<lparr>cr_encrypt = \<lambda>k. Some (''E'' @ k),
     cr_decrypt = \<lambda>e. if take 1 e = ''E'' then Some (drop 1 e) else None, cr_sha256 = \<lambda>k. k\<rparr>"

lemmas patch_eval = PatchDonation_def patch_key_def patch_invalid_def merged_row_def activates_def
  store_patch_def patched_row_def empty_patch_def or_keep_def Let_def

theorem patch_keeps_capacity_witness:
  "\<exists>d'. donation_row 1 (fst (PatchDonation sample_crypto 5 1
       (empty_patch\<lparr>dp_total_count := Some 7\<rparr>) sample_store)) = Some d' \<and>
     d_total_count d' = 7 \<and> donation_uses 1 (fst (PatchDonation sample_crypto 5 1
       (empty_patch\<lparr>dp_total_count := Some 7\<rparr>) sample_store)) = 7"
proof -
  let ?p = "empty_patch\<lparr>dp_total_count := Some 7\<rparr>"
  obtain st' res where D: "PatchDonation sample_crypto 5 1 ?p sample_store = (st', res)" by fastforce
  have ok: "is_ok res"
    using D by (auto simp: patch_eval sample_defs table_defs)
  have "donation_row 1 sample_store = Some (sample_donation 1 1)" "in_flight 1 sample_store = 0"
    by (simp_all add: sample_defs in_flight_def)
  then have "donation_uses 1 sample_store = d_total_count (sample_donation 1 1)"
    by (simp add: donation_uses_def sample_donation_def)
  from patch_keeps_capacity [OF sample_store_ok \<open>donation_row 1 sample_store = _\<close> this D] ok
  show ?thesis using D \<open>in_flight 1 sample_store = 0\<close>
    by (cases res) (auto simp: or_keep_def sample_donation_def)
qed

text \<open>The exception is real: lowering the total of a partly used donation below what it has
  delivered and then restoring it frees uses that were already spent. Eight of ten uses are
  delivered; after 5 and then 10 as the total, five more can be claimed.\<close>

lemma shrink_then_grow_oversells:
  "donation_uses 1 (pool_run sample_crypto
      [PoolPatch 5 1 (empty_patch\<lparr>dp_total_count := Some 5\<rparr>),
       PoolPatch 6 1 (empty_patch\<lparr>dp_total_count := Some 10\<rparr>)]
      (sample_store\<lparr>donations := [(sample_donation 1 10)\<lparr>d_remaining_count := 2, d_success_count := 8\<rparr>]\<rparr>))
   = 13"
  by (simp add: pool_run_def patch_eval sample_defs table_defs donation_uses_def in_flight_def)

text \<open>Batch status change. A batch goes through exactly when the target status is active or
  inactive and every listed donation exists, is not expired and, for activation, has a pricing
  row; then every listed donation carries the status and no other changes. Otherwise nothing
  changes and the error is that of the first offending id.\<close>

theorem batch_status_atomic:
  assumes "BatchSetDonationStatus ids s now st = (st', res)"
  shows "if (s = DonationActive \<or> s = DonationInactive) \<and>
       (\<forall>i \<in> set ids. \<exists>d. donation_row i st = Some d \<and> d_status d \<noteq> DonationExpired \<and>
          (s = DonationActive \<longrightarrow> priced st d))
     then res = Inr () \<and> (\<forall>k. donation_row k st' =
            (if k \<in> set ids then map_option (put_status s now) (donation_row k st)
             else donation_row k st))
     else st' = st \<and> (if s = DonationActive \<or> s = DonationInactive
            then \<exists>ys i zs e. ids = ys @ i # zs \<and> check_status_target s st i = Some e \<and>
              (\<forall>y \<in> set ys. check_status_target s st y = None) \<and> res = Inl e
            else res = Inl StatusNotAllowed)"
proof -
  have ok: "check_status_target s st i = None \<longleftrightarrow> (\<exists>d. donation_row i st = Some d \<and>
      d_status d \<noteq> DonationExpired \<and> (s = DonationActive \<longrightarrow> priced st d))" for i
    by (auto simp: check_status_target_def priced_def order_less_le split: option.split)
  show ?thesis
  proof (cases "first_error (check_status_target s st) ids")
    case None
    then have "\<forall>i \<in> set ids. check_status_target s st i = None" by (simp add: first_error_None)
    with None assms show ?thesis
      by (auto simp: BatchSetDonationStatus_def fold_SetDonationStatus simp flip: ok)
  next
    case (Some e)
    from first_error_Some [OF this] obtain ys i zs where
      *: "ids = ys @ i # zs" "check_status_target s st i = Some e"
        "\<forall>y \<in> set ys. check_status_target s st y = None" by blast
    then have "\<not> (\<forall>i \<in> set ids. check_status_target s st i = None)" by auto
    then have "\<not> (\<forall>i \<in> set ids. \<exists>d. donation_row i st = Some d \<and> d_status d \<noteq> DonationExpired \<and>
        (s = DonationActive \<longrightarrow> priced st d))" by (simp add: ok)
    then show ?thesis using * Some assms
      by (auto simp: BatchSetDonationStatus_def split: if_split_asm)
  qed
qed

theorem batch_status_atomic_witness:
  "donation_row 1 (fst (BatchSetDonationStatus [1, 1] DonationInactive 9 sample_store)) =
     Some ((sample_donation 1 1)\<lparr>d_status := DonationInactive, d_updated_at := 9\<rparr>)"
  using batch_status_atomic [of "[1, 1]" DonationInactive 9 sample_store, OF prod.collapse [symmetric]]
  by (simp add: sample_defs put_status_def)

text \<open>Deletion refuses what the ledger still needs. A deletion batch goes through exactly when
  its ids are distinct, all present and none has a call in flight; then exactly those donations
  are gone. Otherwise the whole batch is rolled back.\<close>

theorem delete_batch_atomic:
  assumes "keys_ok st" "DeleteDonations ids st = (st', res)"
  shows "if distinct ids \<and>
       (\<forall>i \<in> set ids. donation_row i st \<noteq> None \<and> in_flight i st = 0)
     then res = Inr () \<and> st' = st\<lparr>donations := filter (\<lambda>d. d_id d \<notin> set ids) (donations st)\<rparr>
     else st' = st \<and> isl res"
proof -
  have "delete_where (\<lambda>d. d_id d \<in> set ids) (donations st) =
      filter (\<lambda>d. d_id d \<notin> set ids) (donations st)" by (simp add: delete_where_def)
  then show ?thesis
    using delete_transaction [OF assms(1), of ids st] assms(2)
    by (auto simp: DeleteDonations_def list_all_iff deletable_def split: if_split_asm)
qed

theorem delete_batch_atomic_witness:
  "DeleteDonations [1, 1] sample_store = (sample_store, snd (DeleteDonations [1, 1] sample_store)) \<and>
   donations (fst (DeleteDonations [1] sample_store)) = []"
proof -
  have k: "keys_ok sample_store" by (rule ledger_ok_keys) simp
  show ?thesis
    using delete_batch_atomic [OF k prod.collapse [symmetric], of "[1, 1]"]
      delete_batch_atomic [OF k prod.collapse [symmetric], of "[1]"]
    by (simp add: prod_eq_iff) (simp add: sample_defs in_flight_def)
qed

text \<open>C13: The routing list is exact. For a consumer who can pay, the claim on a donation succeeds
  if and only if the donation is in the routing list read at that moment, and the list is in
  order of expiry.\<close>

theorem routable_iff_reservable:
  assumes "ledger_ok st" "donation_row i st = Some d" "user_row uid st = Some u"
    and "0 \<le> price" "price \<le> u_credits u" "0 \<le> reward" "reservation_row rid st = None"
  shows "(is_ok (snd (ReserveCharityCall rid now uid i price reward st)) \<longleftrightarrow>
            d \<in> set (ListRoutableDonations (d_service d) (d_model d) now st)) \<and>
         sorted (map d_deadline (ListRoutableDonations (d_service d) (d_model d) now st))"
proof -
  note k = keys_ok_dest [OF ledger_ok_keys [OF assms(1)]]
  have "d \<in> set (donations st)" using assms(2) by (blast dest: by_key_SomeD)
  then have "d \<in> set (ListRoutableDonations (d_service d) (d_model d) now st) \<longleftrightarrow> routable now d"
    by (auto simp: ListRoutableDonations_def select_where_def routable_def)
  moreover have "is_ok (snd (ReserveCharityCall rid now uid i price reward st)) \<longleftrightarrow> routable now d"
    using assms(2-7)
    by (auto simp: ReserveCharityCall_def Let_def count_where_key [OF k(1)] count_where_key [OF k(2)]
        by_key_update claim_use_def split: option.split)
  ultimately show ?thesis by (simp add: ListRoutableDonations_def)
qed

theorem routable_iff_reservable_witness:
  "is_ok (snd (ReserveCharityCall ''a'' 5 1 1 4 2 sample_store)) \<and>
   \<not> is_ok (snd (ReserveCharityCall ''a'' 100 1 1 4 2 sample_store))"
proof -
  have *: "donation_row 1 sample_store = Some (sample_donation 1 1)"
    "user_row 1 sample_store = Some (sample_user 1 10)" "reservation_row ''a'' sample_store = None"
    by (simp_all add: sample_defs)
  have "sample_donation 1 1 \<in> set (ListRoutableDonations ''general'' ''m'' 5 sample_store)"
    "sample_donation 1 1 \<notin> set (ListRoutableDonations ''general'' ''m'' 100 sample_store)"
    by (simp_all add: ListRoutableDonations_def select_where_def sample_defs)
  then show ?thesis
    using routable_iff_reservable [OF sample_store_ok *(1,2) _ _ _ *(3), of 4 2 5]
      routable_iff_reservable [OF sample_store_ok *(1,2) _ _ _ *(3), of 4 2 100]
    by (simp add: sample_user_def sample_donation_def)
qed

text \<open>The activation gate. As long as entries are created inactive, not renamed by a patch and
  never set active by the raw setter, no sequence of pool and pricing operations leaves an active
  donation whose service and model have no pricing row: activation demands the row and the
  pricing deletes refuse to remove one in use.\<close>

theorem activation_needs_pricing:
  assumes "ledger_ok st" "active_priced st" "list_all gated ops"
    and "list_all (donor_exists (u_id ` set (users st))) ops"
    and "d \<in> set (donations (pool_run c ops st))" "d_status d = DonationActive"
  shows "\<exists>p \<in> set (charity_pricing (pool_run c ops st)).
           p_service p = d_service d \<and> p_model p = d_model d"
proof -
  have "active_priced (pool_run c ops st)"
    using assms(1-4) unfolding pool_run_def
    by (induction ops arbitrary: st)
      (simp_all add: pool_exec_gate pool_exec_ok ledger_ok_keys)
  with assms(5,6) show ?thesis by (simp add: active_priced_def priced_iff)
qed

theorem activation_needs_pricing_witness:
  "\<exists>p \<in> set (charity_pricing (pool_run sample_crypto [PriceDelete ''general'' ''m'']
       (sample_store\<lparr>charity_pricing := [\<lparr>p_service = ''general'', p_model = ''m'', p_price = 4,
          p_reward = 2, p_enabled = False\<rparr>]\<rparr>))). p_service p = ''general'' \<and> p_model p = ''m''"
proof -
  let ?st = "sample_store\<lparr>charity_pricing := [\<lparr>p_service = ''general'', p_model = ''m'', p_price = 4,
          p_reward = 2, p_enabled = False\<rparr>]\<rparr>"
  have "active_priced ?st" by (simp add: active_priced_def priced_def sample_defs)
  moreover have "sample_donation 1 1 \<in> set (donations (pool_run sample_crypto
      [PriceDelete ''general'' ''m''] ?st))"
    by (simp add: pool_run_def DeletePricing_def sample_defs)
  ultimately show ?thesis
    using activation_needs_pricing [of ?st "[PriceDelete ''general'' ''m'']" "sample_donation 1 1"]
    by (simp add: sample_donation_def)
qed

text \<open>The service gate of the regeneration feature does more than its description: it also counts
  expired entries and approved applications, and invalidation turns an expired entry, which
  patches and batch status changes refuse to touch, back into an inactive one.\<close>

lemma invalidation_revives_expired:
  assumes "d \<in> set (donations st)" "d_source_user_id d = Some uid" "d_service d = s"
    "d_status d = DonationExpired"
  shows "\<exists>d' \<in> set (donations (InvalidateDonationsForService uid s now st)).
    d_id d' = d_id d \<and> d_status d' = DonationInactive"
proof -
  have "d\<lparr>d_status := DonationInactive, d_updated_at := now\<rparr>
      \<in> set (donations (InvalidateDonationsForService uid s now st))"
    using imageI [OF assms(1), of "\<lambda>d. if d_source_user_id d = Some uid \<and> d_service d = s \<and>
      d_status d = DonationExpired then d\<lparr>d_status := DonationInactive, d_updated_at := now\<rparr> else d"]
      assms(2-4) by (simp add: InvalidateDonationsForService_def set_update_where)
  then show ?thesis by (rule bexI [rotated]) simp
qed

end
