(* ===== verification/Applications.thy ===== *)
theory Applications
  imports Donations
begin

text \<open>
  Donation applications, \<^verbatim>\<open>db/donation_applications.go\<close>: members submit them, reviewers approve or
  reject them, an approval creates an inactive donation and links the application to it. The
  transactions return the store they commit; on an error the caller rolls back, so the store of
  the result is the one before.
\<close>

section \<open>Submitting and reading\<close>

datatype review_error =
    ErrPendingApplicationLimit
  | ErrForeignKey
  | ErrApplicationEncrypt
  | ErrApplicationDecrypt
  | ReviewNotFound int
  | ReviewStatus int app_status
  | ApplicationDeadline int int
  | ErrApplicationUser
  | ErrApplicationRow
  | ErrLinkChanged int

definition GetApplication :: "int \<Rightarrow> store \<Rightarrow> application option" where
  "GetApplication i st = application_row i st"

definition CountPendingByUser :: "int \<Rightarrow> store \<Rightarrow> int" where
  "CountPendingByUser userID st =
     count_where (\<lambda>a. ap_user_id a = userID \<and> ap_status a = AppStatusPending) (donation_applications st)"

record application_request =
  aq_user_id :: int
  aq_service :: string
  aq_model :: string
  aq_dify_base_url :: string
  aq_dify_api_key :: string
  aq_total_count :: int
  aq_deadline :: int
  aq_rpm_limit :: int
  aq_note :: string

definition new_application :: "int \<Rightarrow> string \<Rightarrow> int \<Rightarrow> application_request \<Rightarrow> application" where
  "new_application i enc now q = \<lparr>ap_id = i, ap_user_id = aq_user_id q, ap_service = aq_service q,
     ap_model = aq_model q, ap_dify_base_url = aq_dify_base_url q, ap_dify_api_key_enc = enc,
     ap_total_count = aq_total_count q, ap_deadline = aq_deadline q,
     ap_rpm_limit = (if aq_rpm_limit q \<le> 0 then 10 else aq_rpm_limit q), ap_note = aq_note q,
     ap_status = AppStatusPending, ap_reviewer_id = None, ap_review_note = [], ap_donation_id = None,
     ap_created_at = now, ap_mapping_json = []\<rparr>"

definition CreateDonationApplicationWithLimit ::
  "crypto \<Rightarrow> int \<Rightarrow> application_request \<Rightarrow> int \<Rightarrow> store \<Rightarrow>
   store \<times> (review_error, application option) result" where
  "CreateDonationApplicationWithLimit crypt now q pendingLimit st =
    (case cr_encrypt crypt (aq_dify_api_key q) of None \<Rightarrow> (st, Inl ErrApplicationEncrypt)
     | Some enc \<Rightarrow>
        if \<not> (pendingLimit < 0 \<or> CountPendingByUser (aq_user_id q) st < pendingLimit)
        then (st, Inl ErrPendingApplicationLimit)
        else if user_row (aq_user_id q) st = None then (st, Inl ErrForeignKey)
        else
          let i = application_seq st + 1;
              st1 = st\<lparr>donation_applications := donation_applications st @ [new_application i enc now q],
                       application_seq := i\<rparr>
          in (st1, Inr (GetApplication i st1)))"

definition CreateDonationApplication ::
  "crypto \<Rightarrow> int \<Rightarrow> application_request \<Rightarrow> store \<Rightarrow>
   store \<times> (review_error, application option) result" where
  "CreateDonationApplication crypt now q = CreateDonationApplicationWithLimit crypt now q (-1)"

definition update_applications ::
  "(application \<Rightarrow> bool) \<Rightarrow> (application \<Rightarrow> application) \<Rightarrow> store \<Rightarrow> store" where
  "update_applications P f st =
     st\<lparr>donation_applications := update_where P f (donation_applications st)\<rparr>"

definition SetApplicationMapping :: "int \<Rightarrow> string \<Rightarrow> store \<Rightarrow> store" where
  "SetApplicationMapping i mapping =
     update_applications (\<lambda>a. ap_id a = i) (\<lambda>a. a\<lparr>ap_mapping_json := mapping\<rparr>)"

definition UpdateDonationReviewNote :: "int \<Rightarrow> string \<Rightarrow> store \<Rightarrow> store" where
  "UpdateDonationReviewNote donationID note =
     update_applications (\<lambda>a. ap_donation_id a = Some donationID) (\<lambda>a. a\<lparr>ap_review_note := note\<rparr>)"

definition ListApplicationsByUser :: "int \<Rightarrow> store \<Rightarrow> application list" where
  "ListApplicationsByUser userID st = sort_key (\<lambda>a. - ap_created_at a)
     (select_where (\<lambda>a. ap_user_id a = userID) (donation_applications st))"

text \<open>The inner join drops an application without a user row; name and Discord id come from it.\<close>

definition ListPendingApplications :: "store \<Rightarrow> (application \<times> string \<times> string) list" where
  "ListPendingApplications st = sort_key (\<lambda>(a, _). - ap_created_at a)
     (List.map_filter (\<lambda>a. map_option (\<lambda>u. (a, u_username u, u_discord_id u)) (user_row (ap_user_id a) st))
       (select_where (\<lambda>a. ap_status a = AppStatusPending) (donation_applications st)))"

text \<open>An empty status, a user id or a time of at most 0 and an empty service mean no filter.\<close>

definition application_filter ::
  "app_status option \<Rightarrow> int \<Rightarrow> string \<Rightarrow> int \<Rightarrow> int \<Rightarrow> application \<Rightarrow> bool" where
  "application_filter status userID service since until a \<longleftrightarrow>
     (case status of None \<Rightarrow> True | Some s \<Rightarrow> ap_status a = s) \<and>
     (0 < userID \<longrightarrow> ap_user_id a = userID) \<and> (service \<noteq> [] \<longrightarrow> ap_service a = service) \<and>
     (0 < since \<longrightarrow> since \<le> ap_created_at a) \<and> (0 < until \<longrightarrow> ap_created_at a \<le> until)"

definition clamp_limit :: "int \<Rightarrow> int" where
  "clamp_limit limit = (let l = (if limit \<le> 0 then 100 else limit) in if 500 < l then 500 else l)"

definition ListApplicationsFiltered ::
  "app_status option \<Rightarrow> int \<Rightarrow> string \<Rightarrow> int \<Rightarrow> int \<Rightarrow> int \<Rightarrow> int \<Rightarrow> store \<Rightarrow>
   (application \<times> (string \<times> string) option) list \<times> int" where
  "ListApplicationsFiltered status userID service since until limit offset st =
    (let P = application_filter status userID service since until;
         rows = sort_key (\<lambda>a. - ap_created_at a) (select_where P (donation_applications st));
         named = (\<lambda>a. (a, map_option (\<lambda>u. (u_username u, u_discord_id u)) (user_row (ap_user_id a) st)))
     in (map named (take (nat (clamp_limit limit)) (drop (nat offset) rows)),
         count_where P (donation_applications st)))"

definition GetReviewNotesByDonationIDs :: "int list \<Rightarrow> store \<Rightarrow> (int \<times> string) list" where
  "GetReviewNotesByDonationIDs ids st = List.map_filter
     (\<lambda>a. case ap_donation_id a of Some d \<Rightarrow> if d \<in> set ids then Some (d, ap_review_note a) else None
        | None \<Rightarrow> None) (donation_applications st)"

section \<open>Reviews\<close>

record approve_fields =
  af_service :: string
  af_model :: string
  af_dify_base_url :: string
  af_dify_api_key :: string
  af_total_count :: int
  af_deadline :: int
  af_rpm_limit :: int

definition no_changes :: approve_fields where
  "no_changes = \<lparr>af_service = [], af_model = [], af_dify_base_url = [], af_dify_api_key = [],
     af_total_count = 0, af_deadline = 0, af_rpm_limit = 0\<rparr>"

definition if_set :: "string \<Rightarrow> string \<Rightarrow> string" where
  "if_set new old = (if new \<noteq> [] then new else old)"

definition if_pos :: "int \<Rightarrow> int \<Rightarrow> int" where
  "if_pos new old = (if 0 < new then new else old)"

definition applicationReviewStateError :: "int \<Rightarrow> store \<Rightarrow> review_error" where
  "applicationReviewStateError i st = (case application_row i st of
     None \<Rightarrow> ReviewNotFound i | Some a \<Rightarrow> ReviewStatus i (ap_status a))"

definition claim_review ::
  "app_status \<Rightarrow> int \<Rightarrow> int \<Rightarrow> string \<Rightarrow> store \<Rightarrow> store option" where
  "claim_review s i reviewer note st =
    (let P = (\<lambda>a. ap_id a = i \<and> ap_status a = AppStatusPending)
     in if count_where P (donation_applications st) \<noteq> 1 then None
        else Some (update_applications P
          (\<lambda>a. a\<lparr>ap_status := s, ap_reviewer_id := Some reviewer, ap_review_note := note\<rparr>) st))"

text \<open>The new ciphertext (the reviewer's key encrypted, or the application's own) and the plaintext.\<close>

definition review_key :: "crypto \<Rightarrow> approve_fields \<Rightarrow> application \<Rightarrow> string option" where
  "review_key crypt m app = (if af_dify_api_key m \<noteq> [] then cr_encrypt crypt (af_dify_api_key m)
     else Some (ap_dify_api_key_enc app))"

definition review_plain :: "crypto \<Rightarrow> approve_fields \<Rightarrow> application \<Rightarrow> string option" where
  "review_plain crypt m app = (if af_dify_api_key m = [] then cr_decrypt crypt (ap_dify_api_key_enc app)
     else Some (af_dify_api_key m))"

definition approved_donation ::
  "crypto \<Rightarrow> int \<Rightarrow> int \<Rightarrow> approve_fields \<Rightarrow> application \<Rightarrow> user \<Rightarrow> string \<Rightarrow> string \<Rightarrow> donation" where
  "approved_donation crypt now did m app u enc plain =
    (let total = if_pos (af_total_count m) (ap_total_count app)
     in \<lparr>d_id = did, d_service = if_set (af_service m) (ap_service app),
         d_model = if_set (af_model m) (ap_model app),
         d_dify_base_url = if_set (af_dify_base_url m) (ap_dify_base_url app),
         d_dify_api_key_enc = enc,
         d_dify_api_key_sha256 = (if plain \<noteq> [] then cr_sha256 crypt plain else []),
         d_source_user_id = Some (ap_user_id app), d_source_discord_id = u_discord_id u,
         d_source_username = u_username u, d_source_text = [],
         d_deadline = if_pos (af_deadline m) (ap_deadline app),
         d_total_count = total, d_remaining_count = total, d_success_count = 0, d_failure_count = 0,
         d_consecutive_failures = 0, d_rpm_limit = if_pos (af_rpm_limit m) (ap_rpm_limit app),
         d_status = DonationInactive, d_note = ap_note app, d_created_at = now, d_updated_at = now,
         d_mapping_json = ap_mapping_json app\<rparr>)"

text \<open>The insertion of the donation and the guarded link.\<close>

definition link_donation ::
  "int \<Rightarrow> application \<Rightarrow> donation \<Rightarrow> store \<Rightarrow> (review_error, store \<times> application \<times> donation) result" where
  "link_donation i app d st1 =
    (let Q = (\<lambda>a. ap_id a = i \<and> ap_status a = AppStatusApproved \<and> ap_donation_id a = None);
         st2 = st1\<lparr>donations := donations st1 @ [d], donation_seq := donation_seq st1 + 1\<rparr>
     in if count_where Q (donation_applications st2) \<noteq> 1 then Inl (ErrLinkChanged i)
        else Inr (update_applications Q (\<lambda>a. a\<lparr>ap_donation_id := Some (d_id d)\<rparr>) st2,
                  app\<lparr>ap_donation_id := Some (d_id d)\<rparr>, d))"

definition approveApplicationTx ::
  "crypto \<Rightarrow> int \<Rightarrow> int \<Rightarrow> approve_fields \<Rightarrow> string \<Rightarrow> int \<Rightarrow> store \<Rightarrow>
   store \<times> (review_error, application \<times> donation) result" where
  "approveApplicationTx crypt now reviewer m note i st =
    (case claim_review AppStatusApproved i reviewer note st of
       None \<Rightarrow> (st, Inl (applicationReviewStateError i st))
     | Some st1 \<Rightarrow> (case application_row i st1 of None \<Rightarrow> (st, Inl ErrApplicationRow) | Some app \<Rightarrow>
       (case review_key crypt m app of None \<Rightarrow> (st, Inl ErrApplicationEncrypt) | Some enc \<Rightarrow>
        let deadline = if_pos (af_deadline m) (ap_deadline app)
        in if deadline \<le> now then (st, Inl (ApplicationDeadline i deadline))
        else (case review_plain crypt m app of None \<Rightarrow> (st, Inl ErrApplicationDecrypt) | Some plain \<Rightarrow>
        (case user_row (ap_user_id app) st1 of None \<Rightarrow> (st, Inl ErrApplicationUser) | Some u \<Rightarrow>
        (case link_donation i app
            (approved_donation crypt now (donation_seq st1 + 1) m app u enc plain) st1 of
           Inl e \<Rightarrow> (st, Inl e)
         | Inr (st2, app1, d) \<Rightarrow> (st2, Inr (app1, d))))))))"

definition ApproveApplication ::
  "crypto \<Rightarrow> int \<Rightarrow> int \<Rightarrow> int \<Rightarrow> approve_fields \<Rightarrow> string \<Rightarrow> store \<Rightarrow>
   store \<times> (review_error, application \<times> donation) result" where
  "ApproveApplication crypt now i reviewer m note st = approveApplicationTx crypt now reviewer m note i st"

definition ApproveApplications ::
  "crypto \<Rightarrow> int \<Rightarrow> int list \<Rightarrow> int \<Rightarrow> string \<Rightarrow> store \<Rightarrow> store \<times> (review_error, unit) result" where
  "ApproveApplications crypt now ids reviewer note st =
     in_transaction (approveApplicationTx crypt now reviewer no_changes note) st ids st"

definition rejectApplicationTx ::
  "int \<Rightarrow> string \<Rightarrow> int \<Rightarrow> store \<Rightarrow> store \<times> (review_error, application) result" where
  "rejectApplicationTx reviewer note i st =
    (case claim_review AppStatusRejected i reviewer note st of
       None \<Rightarrow> (st, Inl (applicationReviewStateError i st))
     | Some st1 \<Rightarrow> (case application_row i st1 of
         None \<Rightarrow> (st, Inl ErrApplicationRow) | Some app \<Rightarrow> (st1, Inr app)))"

definition RejectApplication ::
  "int \<Rightarrow> int \<Rightarrow> string \<Rightarrow> store \<Rightarrow> store \<times> (review_error, application) result" where
  "RejectApplication i reviewer note st = rejectApplicationTx reviewer note i st"

definition RejectApplications ::
  "int list \<Rightarrow> int \<Rightarrow> string \<Rightarrow> store \<Rightarrow> store \<times> (review_error, unit) result" where
  "RejectApplications ids reviewer note st =
     in_transaction (rejectApplicationTx reviewer note) st ids st"

section \<open>The outcome of a review\<close>

lemma claim_reviewE:
  assumes "claim_review s i reviewer note st = Some st1" "keys_ok st"
  obtains a where "application_row i st = Some a" "ap_status a = AppStatusPending"
    "st1 = update_applications (\<lambda>a. ap_id a = i)
       (\<lambda>a. a\<lparr>ap_status := s, ap_reviewer_id := Some reviewer, ap_review_note := note\<rparr>) st"
    "application_row i st1 =
       Some (a\<lparr>ap_status := s, ap_reviewer_id := Some reviewer, ap_review_note := note\<rparr>)"
proof -
  let ?P = "\<lambda>a. ap_id a = i \<and> ap_status a = AppStatusPending"
  have D: "keys_distinct ap_id (donation_applications st)" using assms(2) by (simp add: keys_ok_def)
  have c: "count_where ?P (donation_applications st) = 1"
    "st1 = update_applications ?P
       (\<lambda>a. a\<lparr>ap_status := s, ap_reviewer_id := Some reviewer, ap_review_note := note\<rparr>) st"
    using assms(1) by (auto simp: claim_review_def Let_def split: if_split_asm)
  then obtain a where a: "a \<in> set (donation_applications st)" "ap_id a = i" "ap_status a = AppStatusPending"
    using count_where_pos [of ?P "donation_applications st"] by auto
  have row: "application_row i st = Some a" using by_key_in_set [OF D a(1)] a(2) by simp
  have P: "?P x = (ap_id x = i)" if "x \<in> set (donation_applications st)" for x
    using by_key_in_set [OF D that] a(3) row by auto
  have st1: "st1 = update_applications (\<lambda>a. ap_id a = i)
       (\<lambda>a. a\<lparr>ap_status := s, ap_reviewer_id := Some reviewer, ap_review_note := note\<rparr>) st"
    unfolding c(2) update_applications_def
    by (intro arg_cong [of _ _ "\<lambda>xs. st\<lparr>donation_applications := xs\<rparr>"] update_where_cong) (simp add: P)
  then have "application_row i st1 =
      Some (a\<lparr>ap_status := s, ap_reviewer_id := Some reviewer, ap_review_note := note\<rparr>)"
    using row by (simp add: update_applications_def by_key_update_key)
  with row a(3) st1 show thesis by (rule that)
qed

lemma claim_review_None:
  assumes "keys_ok st"
  shows "claim_review s i reviewer note st = None \<longleftrightarrow>
    (case application_row i st of None \<Rightarrow> True | Some a \<Rightarrow> ap_status a \<noteq> AppStatusPending)"
proof -
  have D: "keys_distinct ap_id (donation_applications st)" using assms by (simp add: keys_ok_def)
  have "count_where (\<lambda>a. ap_id a = i \<and> ap_status a = AppStatusPending) (donation_applications st) =
      (case application_row i st of None \<Rightarrow> 0 | Some a \<Rightarrow> if ap_status a = AppStatusPending then 1 else 0)"
    using count_where_key [OF D, of i "\<lambda>a. ap_status a = AppStatusPending"] by simp
  then show ?thesis by (auto simp: claim_review_def Let_def split: option.splits if_split_asm)
qed

definition reviewed :: "app_status \<Rightarrow> int \<Rightarrow> string \<Rightarrow> application \<Rightarrow> application" where
  "reviewed s reviewer note a = a\<lparr>ap_status := s, ap_reviewer_id := Some reviewer, ap_review_note := note\<rparr>"

lemma reviewed_fields [simp]:
  "ap_id (reviewed s r n a) = ap_id a" "ap_user_id (reviewed s r n a) = ap_user_id a"
  "ap_status (reviewed s r n a) = s" "ap_donation_id (reviewed s r n a) = ap_donation_id a"
  "ap_deadline (reviewed s r n a) = ap_deadline a" "ap_total_count (reviewed s r n a) = ap_total_count a"
  "ap_dify_api_key_enc (reviewed s r n a) = ap_dify_api_key_enc a"
  "ap_reviewer_id (reviewed s r n a) = Some r"
  by (simp_all add: reviewed_def)

lemma reviewed_key [simp]:
  "review_key c m (reviewed s r n a) = review_key c m a"
  "review_plain c m (reviewed s r n a) = review_plain c m a"
  by (simp_all add: review_key_def review_plain_def)

lemma approve_error: "approveApplicationTx c now reviewer m note i st = (st', Inl e) \<Longrightarrow> st' = st"
  by (auto simp: approveApplicationTx_def Let_def split: option.splits if_split_asm sum.splits)

lemma reject_error: "rejectApplicationTx reviewer note i st = (st', Inl e) \<Longrightarrow> st' = st"
  by (auto simp: rejectApplicationTx_def split: option.splits)

text \<open>A successful approval: the application was pending and unlinked, and one donation was added.\<close>

lemma approve_okE:
  assumes "approveApplicationTx c now reviewer m note i st = (st', Inr (app, d))" "keys_ok st"
  obtains a u enc plain where "application_row i st = Some a" "ap_status a = AppStatusPending"
    "ap_donation_id a = None" "user_row (ap_user_id a) st = Some u"
    "now < if_pos (af_deadline m) (ap_deadline a)"
    "app = (reviewed AppStatusApproved reviewer note a)\<lparr>ap_donation_id := Some (donation_seq st + 1)\<rparr>"
    "d = approved_donation c now (donation_seq st + 1) m (reviewed AppStatusApproved reviewer note a) u enc plain"
    "st' = st\<lparr>donations := donations st @ [d], donation_seq := donation_seq st + 1,
       donation_applications := update_where (\<lambda>x. ap_id x = i)
         (\<lambda>x. (reviewed AppStatusApproved reviewer note x)\<lparr>ap_donation_id := Some (donation_seq st + 1)\<rparr>)
         (donation_applications st)\<rparr>"
    "review_key c m a = Some enc" "review_plain c m a = Some plain"
proof -
  obtain st1 where st1: "claim_review AppStatusApproved i reviewer note st = Some st1"
    using assms(1) by (auto simp: approveApplicationTx_def split: option.splits)
  from claim_reviewE [OF st1 assms(2)] obtain a where a: "application_row i st = Some a"
    "ap_status a = AppStatusPending"
    "st1 = update_applications (\<lambda>a. ap_id a = i) (reviewed AppStatusApproved reviewer note) st"
    "application_row i st1 = Some (reviewed AppStatusApproved reviewer note a)"
    unfolding reviewed_def by blast
  let ?app = "reviewed AppStatusApproved reviewer note a"
  have same: "users st1 = users st" "donations st1 = donations st" "donation_seq st1 = donation_seq st"
    by (simp_all add: a(3) update_applications_def)
  obtain enc plain u st2 app1 d1 where R: "if_pos (af_deadline m) (ap_deadline ?app) > now"
    "user_row (ap_user_id ?app) st1 = Some u"
    "link_donation i ?app (approved_donation c now (donation_seq st1 + 1) m ?app u enc plain) st1 =
       Inr (st', app, d)"
    "review_key c m ?app = Some enc" "review_plain c m ?app = Some plain"
    using assms(1) unfolding approveApplicationTx_def
    by (simp add: st1 a(4) Let_def split: option.splits if_split_asm sum.splits prod.splits)
  let ?Q = "\<lambda>a. ap_id a = i \<and> ap_status a = AppStatusApproved \<and> ap_donation_id a = None"
  have D1: "keys_distinct ap_id (donation_applications st1)"
    using assms(2) by (simp add: a(3) update_applications_def keys_ok_def)
  have Q1: "count_where ?Q (donation_applications st1) = 1"
    using R(3) by (simp add: link_donation_def Let_def split: if_split_asm)
  then have un: "ap_donation_id a = None"
    using count_where_key [OF D1, of i "\<lambda>a. ap_status a = AppStatusApproved \<and> ap_donation_id a = None"]
    by (simp add: a(4) split: if_split_asm)
  have d: "d = approved_donation c now (donation_seq st + 1) m ?app u enc plain"
    "d_id d = donation_seq st + 1" "app = ?app\<lparr>ap_donation_id := Some (donation_seq st + 1)\<rparr>"
    using R(3) Q1 by (auto simp: link_donation_def Let_def same approved_donation_def)
  have "?Q x = (ap_id x = i)" if "x \<in> set (donation_applications st1)" for x
    using by_key_in_set [OF D1 that] a(4) un by auto
  then have "update_where ?Q (\<lambda>x. x\<lparr>ap_donation_id := Some (donation_seq st + 1)\<rparr>) (donation_applications st1) =
      update_where (\<lambda>x. ap_id x = i) (\<lambda>x. x\<lparr>ap_donation_id := Some (donation_seq st + 1)\<rparr>)
        (donation_applications st1)"
    by (intro update_where_cong) simp
  also have "\<dots> = update_where (\<lambda>x. ap_id x = i)
      (\<lambda>x. (reviewed AppStatusApproved reviewer note x)\<lparr>ap_donation_id := Some (donation_seq st + 1)\<rparr>)
      (donation_applications st)"
    by (simp add: a(3) update_applications_def update_where_def)
  finally have apps: "update_where ?Q (\<lambda>x. x\<lparr>ap_donation_id := Some (donation_seq st + 1)\<rparr>)
      (donation_applications st1) = \<dots>" .
  have "st' = st\<lparr>donations := donations st @ [d], donation_seq := donation_seq st + 1,
      donation_applications := update_where (\<lambda>x. ap_id x = i)
        (\<lambda>x. (reviewed AppStatusApproved reviewer note x)\<lparr>ap_donation_id := Some (donation_seq st + 1)\<rparr>)
        (donation_applications st)\<rparr>"
    using R(3) Q1 apps
    by (auto simp: link_donation_def Let_def same d(2) update_applications_def a(3) approved_donation_def)
  moreover have "review_key c m a = Some enc" "review_plain c m a = Some plain"
    using R(4,5) by simp_all
  ultimately show thesis using that [OF a(1,2) un _ _ d(3,1)] R(1,2) by (simp add: same)
qed

lemma approve_succeeds:
  assumes "keys_ok st" "application_row i st = Some a" "ap_status a = AppStatusPending"
    "ap_donation_id a = None" "user_row (ap_user_id a) st = Some u"
    "now < if_pos (af_deadline m) (ap_deadline a)"
    "review_key c m a = Some enc" "review_plain c m a = Some plain"
  shows "\<exists>st' app d. approveApplicationTx c now reviewer m note i st = (st', Inr (app, d))"
proof -
  obtain st1 where st1: "claim_review AppStatusApproved i reviewer note st = Some st1"
    using claim_review_None [OF assms(1), of AppStatusApproved i reviewer "note"] assms(2,3)
    by (cases "claim_review AppStatusApproved i reviewer note st") auto
  from claim_reviewE [OF st1 assms(1)] assms(2)
  have a: "st1 = update_applications (\<lambda>a. ap_id a = i) (reviewed AppStatusApproved reviewer note) st"
    "application_row i st1 = Some (reviewed AppStatusApproved reviewer note a)"
    unfolding reviewed_def by auto
  let ?Q = "\<lambda>a. ap_id a = i \<and> ap_status a = AppStatusApproved \<and> ap_donation_id a = None"
  have D1: "keys_distinct ap_id (donation_applications st1)"
    using assms(1) by (simp add: a(1) update_applications_def keys_ok_def)
  have "count_where ?Q (donation_applications st1) = 1"
    using count_where_key [OF D1, of i "\<lambda>a. ap_status a = AppStatusApproved \<and> ap_donation_id a = None"]
    by (simp add: a(2) assms(4))
  moreover have "users st1 = users st" by (simp add: a(1) update_applications_def)
  moreover have "review_key c m (reviewed AppStatusApproved reviewer note a) = Some enc"
    "review_plain c m (reviewed AppStatusApproved reviewer note a) = Some plain"
    using assms(7,8) by (simp_all add: review_key_def review_plain_def split: if_splits)
  ultimately show ?thesis
    using assms(5,6) by (simp add: approveApplicationTx_def st1 a(2) link_donation_def Let_def)
qed

section \<open>Invariants\<close>

lemma ledger_ok_update_applications:
  "\<lbrakk>ledger_ok st; \<And>a. ap_id (f a) = ap_id a\<rbrakk> \<Longrightarrow> ledger_ok (update_applications P f st)"
  unfolding update_applications_def by (rule ledger_ok_applications) simp_all

lemma CreateDonationApplication_ok:
  assumes "ledger_ok st"
  shows "ledger_ok (fst (CreateDonationApplicationWithLimit c now q lim st))"
proof -
  have "\<forall>a \<in> set (donation_applications st). ap_id a \<le> application_seq st"
    using assms by (simp add: ledger_ok_def keys_ok_def)
  then have "ledger_ok (st\<lparr>donation_applications := donation_applications st @
      [new_application (application_seq st + 1) enc now q], application_seq := application_seq st + 1\<rparr>)" for enc
    using assms by (fastforce simp: ledger_ok_def keys_ok_def new_application_def)
  with assms show ?thesis
    by (simp add: CreateDonationApplicationWithLimit_def Let_def split: option.split)
qed

text \<open>An application belongs to an existing user (the foreign key) and asks for no negative number of
  uses (the handler checks the submission).\<close>

definition applicants_ok :: "store \<Rightarrow> bool" where
  "applicants_ok st \<longleftrightarrow> (\<forall>a \<in> set (donation_applications st).
     0 \<le> ap_total_count a \<and> ap_user_id a \<in> u_id ` set (users st))"

lemma approve_ledger_ok:
  assumes "ledger_ok st" "applicants_ok st"
  shows "ledger_ok (fst (approveApplicationTx c now reviewer m note i st))"
proof (cases "approveApplicationTx c now reviewer m note i st")
  case (Pair st' res)
  show ?thesis
  proof (cases res)
    case (Inl e)
    then show ?thesis using approve_error assms(1) Pair by fastforce
  next
    case (Inr p)
    obtain app d where p: "p = (app, d)" by (cases p)
    from Pair have "approveApplicationTx c now reviewer m note i st = (st', Inr (app, d))" by (simp add: Inr p)
    then obtain a u enc plain where A: "application_row i st = Some a" "ap_status a = AppStatusPending"
        "ap_donation_id a = None" "user_row (ap_user_id a) st = Some u"
        "now < if_pos (af_deadline m) (ap_deadline a)"
        "app = (reviewed AppStatusApproved reviewer note a)\<lparr>ap_donation_id := Some (donation_seq st + 1)\<rparr>"
      and d: "d = approved_donation c now (donation_seq st + 1) m
          (reviewed AppStatusApproved reviewer note a) u enc plain"
      and st': "st' = st\<lparr>donations := donations st @ [d], donation_seq := donation_seq st + 1,
         donation_applications := update_where (\<lambda>x. ap_id x = i)
           (\<lambda>x. (reviewed AppStatusApproved reviewer note x)\<lparr>ap_donation_id := Some (donation_seq st + 1)\<rparr>)
           (donation_applications st)\<rparr>"
      and keys: "review_key c m a = Some enc" "review_plain c m a = Some plain" by (rule approve_okE [OF _ ledger_ok_keys [OF assms(1)]])
    have "0 \<le> ap_total_count a" using assms(2) by_key_SomeD [OF A(1)] by (simp add: applicants_ok_def)
    then have "donation_ok (u_id ` set (users st)) d"
      using by_key_SomeD [OF A(4)]
      by (auto simp: d donation_ok_def approved_donation_def Let_def if_pos_def image_iff eq_commute)
    then have "ledger_ok (st\<lparr>donations := donations st @ [d], donation_seq := donation_seq st + 1\<rparr>)"
      using ledger_ok_insert_donation [OF assms(1)] by (simp add: d approved_donation_def Let_def)
    from ledger_ok_applications [OF this] show ?thesis by (simp add: Pair st')
  qed
qed

text \<open>Links between applications and donations: a pending application has none, an approved one has
  one, no two applications share one, and a donation that still exists belongs to the applicant.\<close>

definition link_ok :: "store \<Rightarrow> application \<Rightarrow> bool" where
  "link_ok st a \<longleftrightarrow> (ap_status a = AppStatusPending \<longrightarrow> ap_donation_id a = None) \<and>
     (ap_status a = AppStatusApproved \<longrightarrow> ap_donation_id a \<noteq> None) \<and>
     (\<forall>k. ap_donation_id a = Some k \<longrightarrow> k \<le> donation_seq st \<and>
        (\<forall>d \<in> set (donations st). d_id d = k \<longrightarrow> d_source_user_id d = Some (ap_user_id a)))"

definition unshared :: "application list \<Rightarrow> bool" where
  "unshared xs \<longleftrightarrow> (\<forall>a \<in> set xs. \<forall>b \<in> set xs.
     ap_donation_id a \<noteq> None \<and> ap_donation_id a = ap_donation_id b \<longrightarrow> ap_id a = ap_id b)"

definition links_ok :: "store \<Rightarrow> bool" where
  "links_ok st \<longleftrightarrow> (\<forall>a \<in> set (donation_applications st). link_ok st a) \<and>
     unshared (donation_applications st)"

text \<open>What the invariant looks at in a row.\<close>

definition source_view :: "donation \<Rightarrow> int \<times> int option" where
  "source_view d = (d_id d, d_source_user_id d)"

definition link_view :: "application \<Rightarrow> int \<times> int \<times> int option" where
  "link_view a = (ap_id a, ap_user_id a, ap_donation_id a)"

lemma unshared_sub:
  assumes "unshared xs" "link_view ` set ys \<subseteq> link_view ` set xs"
  shows "unshared ys"
  unfolding unshared_def
proof (intro ballI impI, elim conjE)
  fix a b assume ab: "a \<in> set ys" "b \<in> set ys" "ap_donation_id a \<noteq> None" "ap_donation_id a = ap_donation_id b"
  obtain x where x: "x \<in> set xs" "link_view a = link_view x" using assms(2) ab(1) by blast
  obtain y where y: "y \<in> set xs" "link_view b = link_view y" using assms(2) ab(2) by blast
  have v: "ap_id a = ap_id x" "ap_donation_id x = ap_donation_id a" "ap_id b = ap_id y"
    "ap_donation_id y = ap_donation_id b" using x(2) y(2) by (simp_all add: link_view_def)
  show "ap_id a = ap_id b"
    unfolding v(1,3)
    by (rule assms(1) [unfolded unshared_def, rule_format, OF x(1) y(1)]) (simp add: v(2,4) ab(3,4) flip: ab(4))
qed

lemma link_ok_sub:
  assumes "link_ok st a" "source_view ` set (donations st') \<subseteq> source_view ` set (donations st)"
    "donation_seq st \<le> donation_seq st'"
  shows "link_ok st' a"
proof -
  have "d_source_user_id d = Some (ap_user_id a)"
    if d: "d \<in> set (donations st')" "ap_donation_id a = Some (d_id d)" for d
  proof -
    obtain x where x: "x \<in> set (donations st)" "source_view d = source_view x" using assms(2) d(1) by blast
    then show ?thesis using assms(1) d(2) by (simp add: link_ok_def source_view_def)
  qed
  then show ?thesis using assms(1,3) by (auto simp: link_ok_def)
qed

lemma links_ok_frame:
  assumes "links_ok st" "set (donation_applications st') \<subseteq> set (donation_applications st)"
    "source_view ` set (donations st') \<subseteq> source_view ` set (donations st)"
    "donation_seq st \<le> donation_seq st'"
  shows "links_ok st'"
proof -
  have "link_view ` set (donation_applications st') \<subseteq> link_view ` set (donation_applications st)"
    using assms(2) by blast
  then show ?thesis
    using assms link_ok_sub [OF _ assms(3,4)] unshared_sub unfolding links_ok_def by blast
qed

lemma links_ok_rows:
  assumes "links_ok st" "\<And>a. link_view (f a) = link_view a"
    "\<And>a. P a \<Longrightarrow> link_ok st a \<Longrightarrow> link_ok st (f a)"
  shows "links_ok (update_applications P f st)"
proof -
  have "link_ok (update_applications P f st) a \<longleftrightarrow> link_ok st a" for a
    by (simp add: link_ok_def update_applications_def)
  moreover have "link_view ` set (update_where P f (donation_applications st)) \<subseteq>
      link_view ` set (donation_applications st)"
    using assms(2) by (auto simp: set_update_where)
  ultimately show ?thesis
    using assms(1,3) unshared_sub unfolding links_ok_def
    by (auto simp: update_applications_def set_update_where)
qed

lemma unshared_link:
  assumes "unshared xs" "\<And>x k. x \<in> set xs \<Longrightarrow> ap_donation_id x = Some k \<Longrightarrow> k \<le> s"
    "\<And>x. ap_id (f x) = ap_id x" "\<And>x. ap_donation_id (f x) = Some (s + 1)"
  shows "unshared (update_where (\<lambda>x. ap_id x = i) f xs)"
  unfolding unshared_def
proof (intro ballI impI, elim conjE)
  fix x y
  assume xy: "x \<in> set (update_where (\<lambda>x. ap_id x = i) f xs)" "y \<in> set (update_where (\<lambda>x. ap_id x = i) f xs)"
    and same: "ap_donation_id x \<noteq> None" "ap_donation_id x = ap_donation_id y"
  obtain x0 y0 where rows: "x0 \<in> set xs" "x = (if ap_id x0 = i then f x0 else x0)"
    "y0 \<in> set xs" "y = (if ap_id y0 = i then f y0 else y0)"
    using xy by (auto simp: set_update_where)
  consider "ap_id x0 = i" "ap_id y0 = i" | "(ap_id x0 = i) \<noteq> (ap_id y0 = i)" | "ap_id x0 \<noteq> i" "ap_id y0 \<noteq> i"
    by blast
  then show "ap_id x = ap_id y"
  proof cases
    case 2
    then have "ap_donation_id x0 = Some (s + 1) \<or> ap_donation_id y0 = Some (s + 1)"
      using rows(2,4) same assms(4) by (metis (full_types))
    then have "s + 1 \<le> s" using assms(2) rows(1,3) by blast
    then show ?thesis by simp
  next
    case 3
    have "ap_id x0 = ap_id y0"
      by (rule assms(1) [unfolded unshared_def, rule_format, OF rows(1,3)]) (use same rows 3 in simp)
    with 3 rows show ?thesis by simp
  qed (use rows assms(3) in simp)
qed

lemma unshared_append:
  assumes "unshared xs" "ap_donation_id a = None"
  shows "unshared (xs @ [a])"
  unfolding unshared_def
proof (intro ballI impI, elim conjE)
  fix x y assume xy: "x \<in> set (xs @ [a])" "y \<in> set (xs @ [a])"
    "ap_donation_id x \<noteq> None" "ap_donation_id x = ap_donation_id y"
  then have "x \<noteq> a" "y \<noteq> a" using assms(2) by metis+
  then have "x \<in> set xs" "y \<in> set xs" using xy(1,2) by simp_all
  then show "ap_id x = ap_id y" by (rule assms(1) [unfolded unshared_def, rule_format]) (rule conjI [OF xy(3,4)])
qed

definition reviews_ok :: "store \<Rightarrow> bool" where
  "reviews_ok st \<longleftrightarrow> ledger_ok st \<and> applicants_ok st \<and> links_ok st"

lemma reviews_ok_rows:
  assumes "reviews_ok st" "\<And>a. link_view (f a) = link_view a" "\<And>a. ap_total_count (f a) = ap_total_count a"
    "\<And>a. P a \<Longrightarrow> link_ok st a \<Longrightarrow> link_ok st (f a)"
  shows "reviews_ok (update_applications P f st)"
proof -
  have f: "ap_id (f a) = ap_id a" "ap_user_id (f a) = ap_user_id a" for a
    using assms(2) [of a] by (simp_all add: link_view_def)
  have "applicants_ok (update_applications P f st)"
    using assms(1) by (auto simp: reviews_ok_def applicants_ok_def update_applications_def set_update_where f assms(3))
  then show ?thesis
    using assms(1) links_ok_rows [OF _ assms(2,4)] ledger_ok_update_applications [OF _ f(1)]
    by (simp add: reviews_ok_def)
qed

lemma create_reviews_ok:
  assumes "reviews_ok st" "0 \<le> aq_total_count q"
  shows "reviews_ok (fst (CreateDonationApplicationWithLimit c now q lim st))"
proof -
  let ?a = "\<lambda>enc. new_application (application_seq st + 1) enc now q"
  let ?st = "\<lambda>enc. st\<lparr>donation_applications := donation_applications st @ [?a enc],
    application_seq := application_seq st + 1\<rparr>"
  have "links_ok (?st enc)" for enc
  proof -
    have "link_ok (?st enc) a = link_ok st a" for a by (simp add: link_ok_def)
    moreover have "link_ok st (?a enc)" by (simp add: link_ok_def new_application_def)
    moreover have "unshared (donation_applications st @ [?a enc])"
      using assms(1) by (intro unshared_append) (simp_all add: reviews_ok_def links_ok_def new_application_def)
    ultimately show ?thesis using assms(1) by (simp add: reviews_ok_def links_ok_def)
  qed
  moreover have "applicants_ok (?st enc)" if "user_row (aq_user_id q) st \<noteq> None" for enc
    using assms that by (auto simp: reviews_ok_def applicants_ok_def new_application_def by_key_None)
  ultimately show ?thesis
    using assms(1) CreateDonationApplication_ok [of st c now q lim]
    by (auto simp: reviews_ok_def CreateDonationApplicationWithLimit_def Let_def split: option.splits)
qed

lemma reject_reviews_ok:
  assumes "reviews_ok st"
  shows "reviews_ok (fst (rejectApplicationTx reviewer note i st))"
proof (cases "claim_review AppStatusRejected i reviewer note st")
  case (Some st1)
  have K: "keys_ok st" using assms by (simp add: reviews_ok_def ledger_ok_def)
  from claim_reviewE [OF Some K] have
    st1: "st1 = update_applications (\<lambda>a. ap_id a = i) (reviewed AppStatusRejected reviewer note) st"
    unfolding reviewed_def by metis
  have "reviews_ok st1" unfolding st1
    by (rule reviews_ok_rows [OF assms])
      (simp_all add: link_view_def link_ok_def)
  with assms show ?thesis by (simp add: rejectApplicationTx_def Some split: option.split)
qed (use assms in \<open>simp add: rejectApplicationTx_def\<close>)

lemma approve_reviews_ok:
  assumes "reviews_ok st"
  shows "reviews_ok (fst (approveApplicationTx c now reviewer m note i st))"
proof (cases "approveApplicationTx c now reviewer m note i st")
  case (Pair st' res)
  have L: "ledger_ok st" "applicants_ok st" "links_ok st" using assms by (simp_all add: reviews_ok_def)
  show ?thesis
  proof (cases res)
    case (Inl e)
    then show ?thesis using approve_error assms Pair by fastforce
  next
    case (Inr p)
    obtain app d where p: "p = (app, d)" by (cases p)
    let ?k = "donation_seq st + 1"
    from Pair have "approveApplicationTx c now reviewer m note i st = (st', Inr (app, d))" by (simp add: Inr p)
    then obtain a u enc plain where A: "application_row i st = Some a" "ap_status a = AppStatusPending"
        "ap_donation_id a = None" "user_row (ap_user_id a) st = Some u"
        "now < if_pos (af_deadline m) (ap_deadline a)"
        "app = (reviewed AppStatusApproved reviewer note a)\<lparr>ap_donation_id := Some ?k\<rparr>"
      and d: "d = approved_donation c now ?k m (reviewed AppStatusApproved reviewer note a) u enc plain"
      and st': "st' = st\<lparr>donations := donations st @ [d], donation_seq := ?k,
         donation_applications := update_where (\<lambda>x. ap_id x = i)
           (\<lambda>x. (reviewed AppStatusApproved reviewer note x)\<lparr>ap_donation_id := Some ?k\<rparr>)
           (donation_applications st)\<rparr>"
      and keys: "review_key c m a = Some enc" "review_plain c m a = Some plain" by (rule approve_okE [OF _ ledger_ok_keys [OF L(1)]])
    have mine: "x = a" if "x \<in> set (donation_applications st)" "ap_id x = i" for x
      using by_key_in_set [of ap_id "donation_applications st" x] that A(1) ledger_ok_keys [OF L(1)]
      by (simp add: keys_ok_def)
    have dv: "d_id d = ?k" "d_source_user_id d = Some (ap_user_id a)"
      by (simp_all add: d approved_donation_def Let_def)
    have old: "k \<le> donation_seq st" if "x \<in> set (donation_applications st)" "ap_donation_id x = Some k" for x k
      using L(3) that by (auto simp: links_ok_def link_ok_def)
    have seq: "d_id x \<noteq> ?k" if "x \<in> set (donations st)" for x
      using L(1) that by (fastforce simp: ledger_ok_def keys_ok_def)
    have kept: "link_ok st' x" if "x \<in> set (donation_applications st)" for x
      using L(3) that old [OF that] by (auto simp: links_ok_def link_ok_def st' dv(1))
    have new: "link_ok st' ((reviewed AppStatusApproved reviewer note a)\<lparr>ap_donation_id := Some ?k\<rparr>)"
      using seq dv by (auto simp: link_ok_def st')
    have "unshared (donation_applications st')"
      using unshared_link [of "donation_applications st" "donation_seq st"] L(3) old
      by (simp add: st' links_ok_def)
    then have "links_ok st'"
      using kept new mine by (auto simp: links_ok_def st' set_update_where)
    moreover have "applicants_ok st'"
    proof -
      have "ap_total_count (reviewed s r n x) = ap_total_count x" for s r n x by simp
      then show ?thesis using L(2) by (auto simp: applicants_ok_def st' set_update_where)
    qed
    moreover have "ledger_ok st'" using approve_ledger_ok [OF L(1,2), of c now reviewer m "note" i] by (simp add: Pair)
    ultimately show ?thesis by (simp add: Pair reviews_ok_def)
  qed
qed

section \<open>Sequences of application operations\<close>

datatype application_op =
    AppCreate int application_request int
  | AppMapping int string
  | AppNote int string
  | AppApprove int int int approve_fields string
  | AppApproveBatch int "int list" int string
  | AppReject int int string
  | AppRejectBatch "int list" int string

fun application_exec :: "crypto \<Rightarrow> application_op \<Rightarrow> store \<Rightarrow> store" where
  "application_exec c (AppCreate now q lim) st = fst (CreateDonationApplicationWithLimit c now q lim st)"
| "application_exec c (AppMapping i mapping) st = SetApplicationMapping i mapping st"
| "application_exec c (AppNote i n) st = UpdateDonationReviewNote i n st"
| "application_exec c (AppApprove now i r m n) st = fst (ApproveApplication c now i r m n st)"
| "application_exec c (AppApproveBatch now ids r n) st = fst (ApproveApplications c now ids r n st)"
| "application_exec c (AppReject i r n) st = fst (RejectApplication i r n st)"
| "application_exec c (AppRejectBatch ids r n) st = fst (RejectApplications ids r n st)"

fun total_submitted :: "application_op \<Rightarrow> bool" where
  "total_submitted (AppCreate now q lim) \<longleftrightarrow> 0 \<le> aq_total_count q"
| "total_submitted _ \<longleftrightarrow> True"

lemma application_exec_ok:
  assumes "reviews_ok st" "total_submitted x"
  shows "reviews_ok (application_exec c x st)"
proof (cases x)
  case (AppMapping i mapping)
  have "reviews_ok (update_applications P (\<lambda>a. a\<lparr>ap_mapping_json := mapping\<rparr>) st)" for P
    by (rule reviews_ok_rows [OF assms(1)]) (simp_all add: link_view_def link_ok_def)
  with AppMapping show ?thesis by (simp add: SetApplicationMapping_def)
next
  case (AppNote i n)
  have "reviews_ok (update_applications P (\<lambda>a. a\<lparr>ap_review_note := n\<rparr>) st)" for P
    by (rule reviews_ok_rows [OF assms(1)]) (simp_all add: link_view_def link_ok_def)
  with AppNote show ?thesis by (simp add: UpdateDonationReviewNote_def)
qed (use assms in \<open>simp_all add: create_reviews_ok approve_reviews_ok reject_reviews_ok
  ApproveApplication_def ApproveApplications_def RejectApplication_def RejectApplications_def
  in_transaction_preserves [of reviews_ok]\<close>)

text \<open>Pending applications of a user over a review.\<close>

lemma pending_update:
  assumes "\<And>a. P a \<Longrightarrow> ap_user_id (f a) = ap_user_id a"
    "\<And>a. P a \<Longrightarrow> ap_status (f a) = AppStatusPending \<Longrightarrow> ap_status a = AppStatusPending"
  shows "CountPendingByUser u (update_applications P f st) \<le> CountPendingByUser u st"
proof -
  have "count_where (\<lambda>a. ap_user_id a = u \<and> ap_status a = AppStatusPending) (update_where P f xs) \<le>
      count_where (\<lambda>a. ap_user_id a = u \<and> ap_status a = AppStatusPending) xs" for xs
    using assms by (induction xs) auto
  then show ?thesis by (simp add: CountPendingByUser_def update_applications_def)
qed

lemma claim_pending:
  assumes "claim_review s i r n st = Some st1" "s \<noteq> AppStatusPending"
  shows "CountPendingByUser u st1 \<le> CountPendingByUser u st"
proof -
  let ?f = "\<lambda>a. a\<lparr>ap_status := s, ap_reviewer_id := Some r, ap_review_note := n\<rparr>"
  have "st1 = update_applications (\<lambda>a. ap_id a = i \<and> ap_status a = AppStatusPending) ?f st"
    using assms(1) by (simp add: claim_review_def Let_def split: if_split_asm)
  moreover have "CountPendingByUser u (update_applications (\<lambda>a. ap_id a = i \<and> ap_status a = AppStatusPending) ?f st)
      \<le> CountPendingByUser u st"
    using assms(2) by (intro pending_update) simp_all
  ultimately show ?thesis by simp
qed

lemma link_pending:
  assumes "link_donation i app d st1 = Inr (st2, app1, d1)"
  shows "CountPendingByUser u st2 \<le> CountPendingByUser u st1"
proof -
  let ?Q = "\<lambda>a. ap_id a = i \<and> ap_status a = AppStatusApproved \<and> ap_donation_id a = None"
  let ?f = "\<lambda>a. a\<lparr>ap_donation_id := Some (d_id d)\<rparr>"
  have "st2 = update_applications ?Q ?f
      (st1\<lparr>donations := donations st1 @ [d], donation_seq := donation_seq st1 + 1\<rparr>)"
    using assms by (auto simp: link_donation_def Let_def split: if_split_asm)
  moreover have "CountPendingByUser u (update_applications ?Q ?f
      (st1\<lparr>donations := donations st1 @ [d], donation_seq := donation_seq st1 + 1\<rparr>)) \<le>
      CountPendingByUser u (st1\<lparr>donations := donations st1 @ [d], donation_seq := donation_seq st1 + 1\<rparr>)"
    by (intro pending_update) simp_all
  ultimately show ?thesis by (simp add: CountPendingByUser_def)
qed

lemma approve_pending: "CountPendingByUser u (fst (approveApplicationTx c now r m n i st)) \<le> CountPendingByUser u st"
proof (cases "approveApplicationTx c now r m n i st")
  case (Pair st' res)
  show ?thesis
  proof (cases res)
    case (Inl e)
    then show ?thesis using Pair approve_error by fastforce
  next
    case (Inr p)
    obtain st1 app d app1 d1 where "claim_review AppStatusApproved i r n st = Some st1"
      "link_donation i app d st1 = Inr (st', app1, d1)"
      using Pair unfolding Inr approveApplicationTx_def Let_def
      by (auto split: option.split_asm if_split_asm sum.split_asm)
    from order_trans [OF link_pending [OF this(2)] claim_pending [OF this(1)]]
    show ?thesis by (simp add: Pair)
  qed
qed

lemma reject_pending: "CountPendingByUser u (fst (rejectApplicationTx r n i st)) \<le> CountPendingByUser u st"
  unfolding rejectApplicationTx_def
  using claim_pending [of AppStatusRejected i r n st _ u] by (auto split: option.splits)

lemma in_transaction_decreases:
  fixes g :: "'s \<Rightarrow> int"
  assumes "\<And>x s. g (fst (f x s)) \<le> g s" "g s \<le> g s0"
  shows "g (fst (in_transaction f s0 xs s)) \<le> g s0"
  using assms(2)
proof (induction xs arbitrary: s)
  case (Cons x xs)
  then show ?case using assms(1) [of x s] Cons.IH [of "fst (f x s)"]
    by (cases "f x s") (auto split: sum.split)
qed simp

section \<open>Properties\<close>

text \<open>A review happens once. Approving succeeds exactly when the application is pending, its key
  can be encrypted and decrypted and its effective deadline lies ahead. It then creates one new
  inactive donation of the applicant with the reviewed terms and all its uses unspent, links it,
  and touches no other application; every later review of it is refused. On an error nothing
  changes.\<close>

theorem application_reviewed_once:
  assumes "reviews_ok st" "ApproveApplication c now i reviewer m note st = (st', res)"
  shows "((\<exists>p. res = Inr p) \<longleftrightarrow> (\<exists>a. application_row i st = Some a \<and> ap_status a = AppStatusPending \<and>
        review_key c m a \<noteq> None \<and> review_plain c m a \<noteq> None \<and>
        now < if_pos (af_deadline m) (ap_deadline a))) \<and>
    (case res of Inl e \<Rightarrow> st' = st
     | Inr (app, d) \<Rightarrow> donations st' = donations st @ [d] \<and> donation_row (d_id d) st = None \<and>
        d_status d = DonationInactive \<and> d_source_user_id d = Some (ap_user_id app) \<and>
        d_remaining_count d = d_total_count d \<and>
        d_total_count d = if_pos (af_total_count m) (ap_total_count app) \<and> now < d_deadline d \<and>
        application_row i st' = Some app \<and> ap_status app = AppStatusApproved \<and>
        ap_reviewer_id app = Some reviewer \<and> ap_donation_id app = Some (d_id d) \<and>
        (\<forall>j. j \<noteq> i \<longrightarrow> application_row j st' = application_row j st) \<and> users st' = users st \<and>
        (\<forall>now' r' m' n'. ApproveApplication c now' i r' m' n' st' = (st', Inl (ReviewStatus i AppStatusApproved)) \<and>
           RejectApplication i r' n' st' = (st', Inl (ReviewStatus i AppStatusApproved))))"
proof -
  have K: "keys_ok st" and L: "links_ok st" "applicants_ok st" "ledger_ok st"
    using assms(1) by (simp_all add: reviews_ok_def ledger_ok_def)
  have K': "keys_ok st'"
    using approve_reviews_ok [OF assms(1), of c now reviewer m "note" i] assms(2)
    by (simp add: ApproveApplication_def reviews_ok_def ledger_ok_def)
  have tx: "approveApplicationTx c now reviewer m note i st = (st', res)"
    using assms(2) by (simp add: ApproveApplication_def)
  have ok: "\<exists>p. res = Inr p" if a: "application_row i st = Some a" "ap_status a = AppStatusPending"
      "review_key c m a \<noteq> None" "review_plain c m a \<noteq> None" "now < if_pos (af_deadline m) (ap_deadline a)" for a
  proof -
    have S: "a \<in> set (donation_applications st)" using by_key_SomeD [OF a(1)] by simp
    have un: "ap_donation_id a = None" using L(1) S a(2) by (simp add: links_ok_def link_ok_def)
    have "user_row (ap_user_id a) st \<noteq> None" using L(2) S by (simp add: applicants_ok_def by_key_None)
    then obtain u enc plain where "user_row (ap_user_id a) st = Some u" "review_key c m a = Some enc"
      "review_plain c m a = Some plain" using a(3,4) by blast
    from approve_succeeds [OF K a(1,2) un this(1) a(5) this(2,3), of reviewer "note"] tx show ?thesis
      by auto
  qed
  show ?thesis
  proof (cases res)
    case (Inl e)
    then show ?thesis using ok approve_error tx by auto
  next
    case (Inr p)
    obtain app d where p: "p = (app, d)" by (cases p)
    from tx have "approveApplicationTx c now reviewer m note i st = (st', Inr (app, d))" by (simp add: Inr p)
    then obtain a u enc plain where A: "application_row i st = Some a" "ap_status a = AppStatusPending"
        "ap_donation_id a = None" "user_row (ap_user_id a) st = Some u"
        "now < if_pos (af_deadline m) (ap_deadline a)"
        "app = (reviewed AppStatusApproved reviewer note a)\<lparr>ap_donation_id := Some (donation_seq st + 1)\<rparr>"
      and d: "d = approved_donation c now (donation_seq st + 1) m (reviewed AppStatusApproved reviewer note a) u enc plain"
      and st': "st' = st\<lparr>donations := donations st @ [d], donation_seq := donation_seq st + 1,
         donation_applications := update_where (\<lambda>x. ap_id x = i)
           (\<lambda>x. (reviewed AppStatusApproved reviewer note x)\<lparr>ap_donation_id := Some (donation_seq st + 1)\<rparr>)
           (donation_applications st)\<rparr>"
      and keys: "review_key c m a = Some enc" "review_plain c m a = Some plain" by (rule approve_okE [OF _ K])
    have row: "application_row i st' = Some app"
      using A(1) by (simp add: st' by_key_update_key A(6))
    have fresh: "donation_row (donation_seq st + 1) st = None"
      using L(3) by (fastforce simp: by_key_None ledger_ok_def keys_ok_def)
    have refused: "claim_review s i r' n' st' = None" for s r' n'
      using claim_review_None [OF K', of s i r' n'] row A(6) by simp
    have dv: "d_id d = donation_seq st + 1" "d_status d = DonationInactive"
      "d_source_user_id d = Some (ap_user_id app)" "d_remaining_count d = d_total_count d"
      "d_total_count d = if_pos (af_total_count m) (ap_total_count app)" "now < d_deadline d"
      using A(5) by (simp_all add: d approved_donation_def Let_def A(6))
    have av: "ap_status app = AppStatusApproved" "ap_reviewer_id app = Some reviewer"
      "ap_donation_id app = Some (d_id d)" by (simp_all add: A(6) dv(1))
    have others: "application_row j st' = application_row j st" if "j \<noteq> i" for j
      using that by (simp add: st' by_key_update_key)
    have "donations st' = donations st @ [d]" "users st' = users st" by (simp_all add: st')
    then show ?thesis
      using A(1,2,5) keys row fresh dv av others
      by (simp add: Inr p ApproveApplication_def approveApplicationTx_def RejectApplication_def
        rejectApplicationTx_def applicationReviewStateError_def refused)
  qed
qed

text \<open>The sample store with one pending application.\<close>

definition sample_request :: application_request where
  "sample_request = \<lparr>aq_user_id = 2, aq_service = ''general'', aq_model = ''m'', aq_dify_base_url = ''u'',
     aq_dify_api_key = ''k'', aq_total_count = 3, aq_deadline = 100, aq_rpm_limit = 0, aq_note = []\<rparr>"

definition sample_applied :: store where
  "sample_applied = application_exec sample_crypto (AppCreate 5 sample_request 3) sample_store"

lemma sample_applied_ok: "reviews_ok sample_applied"
proof -
  have "donation_applications sample_store = []" by (simp add: sample_store_def empty_store_def)
  then have "reviews_ok sample_store"
    by (simp add: reviews_ok_def applicants_ok_def links_ok_def unshared_def)
  then show ?thesis
    unfolding sample_applied_def by (rule application_exec_ok) (simp add: sample_request_def)
qed

lemma sample_applied_row:
  "application_row 1 sample_applied = Some (new_application 1 ''Ek'' 5 sample_request)"
  by (simp add: sample_applied_def CreateDonationApplicationWithLimit_def sample_crypto_def
      CountPendingByUser_def sample_store_def empty_store_def sample_user_def sample_request_def
      Let_def new_application_def)

theorem application_reviewed_once_witness:
  "\<exists>p. snd (ApproveApplication sample_crypto 7 1 9 no_changes ''ok'' sample_applied) = Inr p"
proof -
  have "\<exists>a. application_row 1 sample_applied = Some a \<and> ap_status a = AppStatusPending \<and>
        review_key sample_crypto no_changes a \<noteq> None \<and> review_plain sample_crypto no_changes a \<noteq> None \<and>
        7 < if_pos (af_deadline no_changes) (ap_deadline a)"
    by (simp add: sample_applied_row new_application_def no_changes_def review_key_def review_plain_def
        sample_crypto_def if_pos_def sample_request_def)
  then show ?thesis
    using application_reviewed_once [OF sample_applied_ok prod.collapse [symmetric],
        of sample_crypto 7 1 9 no_changes "''ok''"] by blast
qed

text \<open>A submission of the user that runs with a limit of at most \<open>L\<close>.\<close>

fun limited :: "int \<Rightarrow> int \<Rightarrow> application_op \<Rightarrow> bool" where
  "limited u L (AppCreate now q lim) \<longleftrightarrow> (aq_user_id q = u \<longrightarrow> 0 \<le> lim \<and> lim \<le> L)"
| "limited u L _ \<longleftrightarrow> True"

lemma application_exec_pending:
  assumes "limited u L x"
  shows "CountPendingByUser u (application_exec c x st) \<le> max (CountPendingByUser u st) L"
proof (cases x)
  case (AppCreate now q lim)
  then show ?thesis using assms
    by (auto simp: CreateDonationApplicationWithLimit_def CountPendingByUser_def new_application_def
        Let_def split: option.splits)
next
  case (AppMapping i mapping)
  have "CountPendingByUser u (SetApplicationMapping i mapping st) \<le> CountPendingByUser u st"
    unfolding SetApplicationMapping_def by (rule pending_update) simp_all
  with AppMapping show ?thesis by simp
next
  case (AppNote i n)
  have "CountPendingByUser u (UpdateDonationReviewNote i n st) \<le> CountPendingByUser u st"
    unfolding UpdateDonationReviewNote_def by (rule pending_update) simp_all
  with AppNote show ?thesis by simp
next
  case (AppApprove now i r m n)
  then show ?thesis using approve_pending [of u c now r m n i st] by (simp add: ApproveApplication_def)
next
  case (AppReject i r n)
  then show ?thesis using reject_pending [of u r n i st] by (simp add: RejectApplication_def)
next
  case (AppApproveBatch now ids r n)
  have "CountPendingByUser u (fst (ApproveApplications c now ids r n st)) \<le> CountPendingByUser u st"
    unfolding ApproveApplications_def by (rule in_transaction_decreases) (simp_all add: approve_pending)
  with AppApproveBatch show ?thesis by simp
next
  case (AppRejectBatch ids r n)
  have "CountPendingByUser u (fst (RejectApplications ids r n st)) \<le> CountPendingByUser u st"
    unfolding RejectApplications_def by (rule in_transaction_decreases) (simp_all add: reject_pending)
  with AppRejectBatch show ?thesis by simp
qed

text \<open>C19: The cap on open applications. Whatever creations, reviews, batches and edits interleave, as
  long as the submissions of a user run with limits of at most \<open>L\<close> (none of them unlimited), the
  user never has more than \<open>L\<close> pending applications, or as many as there were at the start.\<close>

theorem pending_limit_holds:
  assumes "list_all (limited u L) ops"
  shows "CountPendingByUser u (fold (application_exec c) ops st) \<le> max (CountPendingByUser u st) L"
  using assms
proof (induction ops arbitrary: st)
  case (Cons x ops)
  have "CountPendingByUser u (application_exec c x st) \<le> max (CountPendingByUser u st) L"
    using application_exec_pending Cons.prems by simp
  moreover have "CountPendingByUser u (fold (application_exec c) ops (application_exec c x st)) \<le>
      max (CountPendingByUser u (application_exec c x st)) L"
    using Cons.IH Cons.prems by simp
  ultimately show ?case by simp
qed simp

theorem pending_limit_holds_witness:
  "CountPendingByUser 2 (fold (application_exec sample_crypto) [AppCreate 5 sample_request 1,
     AppCreate 6 sample_request 1, AppReject 1 9 [], AppCreate 7 sample_request 1] sample_store) \<le> 1"
proof -
  have "CountPendingByUser 2 sample_store = 0"
    by (simp add: CountPendingByUser_def sample_store_def empty_store_def)
  then show ?thesis
    using pending_limit_holds [of 2 1 "[AppCreate 5 sample_request 1, AppCreate 6 sample_request 1,
        AppReject 1 9 [], AppCreate 7 sample_request 1]" sample_crypto sample_store] by simp
qed

text \<open>With sound links a donation has at most one application, so an edit of its review note never
  meets the error for several rows.\<close>

lemma one_review_note:
  assumes "reviews_ok st"
  shows "count_where (\<lambda>a. ap_donation_id a = Some k) (donation_applications st) \<le> 1"
proof -
  have "count_where (\<lambda>a. ap_donation_id a = Some k) xs \<le> 1" if "keys_distinct ap_id xs" "unshared xs" for xs
    using that
  proof (induction xs)
    case (Cons x xs)
    have U: "unshared xs" by (rule unshared_sub [OF Cons.prems(2)]) auto
    show ?case
    proof (cases "ap_donation_id x = Some k")
      case True
      have "ap_donation_id y \<noteq> Some k" if y: "y \<in> set xs" for y
      proof
        assume "ap_donation_id y = Some k"
        with True have "ap_id x = ap_id y"
          using Cons.prems(2) [unfolded unshared_def, rule_format, of x y] y by simp
        with Cons.prems(1) y show False by (auto simp: keys_distinct_Cons)
      qed
      then have "count_where (\<lambda>a. ap_donation_id a = Some k) xs = 0" by (simp add: count_where_0)
      then show ?thesis using True by simp
    qed (use Cons U in simp)
  qed simp
  then show ?thesis using assms by (simp add: reviews_ok_def links_ok_def ledger_ok_def keys_ok_def)
qed

end
