(* ===== verification/Activity.thy ===== *)
theory Activity
  imports Schema GoStrings
begin

text \<open>
  Daily activity, \<^verbatim>\<open>db/activity.go\<close>: one row per user and UTC day in \<open>user_activity_daily\<close>, one
  site-wide row per day in \<open>site_activity_daily\<close>. The site row of the current day is maintained
  incrementally by every event; a completed day is rebuilt from the user rows, suppressed below
  five users and frozen. Times are Unix seconds and a day is the second it starts at.
\<close>

definition activityK :: int where "activityK = 5"
definition activityDaySeconds :: int where "activityDaySeconds = 86400"
definition ActivityRetentionDays :: int where "ActivityRetentionDays = 400"

definition utcDay :: "int \<Rightarrow> int" where
  "utcDay t = t div activityDaySeconds * activityDaySeconds"

record activity_delta =
  ad_attempts :: int
  ad_success :: int
  ad_console :: int
  ad_checkins :: int
  ad_games :: int

definition no_activity :: activity_delta where
  "no_activity = \<lparr>ad_attempts = 0, ad_success = 0, ad_console = 0, ad_checkins = 0, ad_games = 0\<rparr>"

section \<open>Recording\<close>

definition ua_key :: "user_activity \<Rightarrow> int \<times> int" where
  "ua_key a = (ua_day a, ua_user_id a)"

definition empty_activity :: "int \<Rightarrow> int \<Rightarrow> user_activity" where
  "empty_activity day uid = \<lparr>ua_day = day, ua_user_id = uid, ua_api_attempts = 0,
     ua_api_successes = 0, ua_console_actions = 0, ua_checkins = 0, ua_game_rounds = 0,
     ua_updated_at = 0\<rparr>"

text \<open>The scan of a user's row, zero when there is none.\<close>

definition activity_row :: "int \<Rightarrow> int \<Rightarrow> store \<Rightarrow> user_activity" where
  "activity_row day uid st = (case by_key ua_key (day, uid) (user_activity_daily st) of
     None \<Rightarrow> empty_activity day uid | Some a \<Rightarrow> a)"

definition add_activity :: "activity_delta \<Rightarrow> int \<Rightarrow> user_activity \<Rightarrow> user_activity" where
  "add_activity d at a = a\<lparr>
     ua_api_attempts := ua_api_attempts a + ad_attempts d,
     ua_api_successes := ua_api_successes a + ad_success d,
     ua_console_actions := ua_console_actions a + ad_console d,
     ua_checkins := ua_checkins a + ad_checkins d,
     ua_game_rounds := ua_game_rounds a + ad_games d,
     ua_updated_at := at\<rparr>"

definition upsert_activity :: "int \<Rightarrow> int \<Rightarrow> activity_delta \<Rightarrow> int \<Rightarrow> store \<Rightarrow> store" where
  "upsert_activity day uid d at st = st\<lparr>user_activity_daily :=
     (if by_key ua_key (day, uid) (user_activity_daily st) = None
      then user_activity_daily st @ [add_activity d at (empty_activity day uid)]
      else update_where (\<lambda>a. ua_key a = (day, uid)) (add_activity d at) (user_activity_daily st))\<rparr>"

definition empty_site_row :: "int \<Rightarrow> site_activity" where
  "empty_site_row day = \<lparr>sa_day = day, sa_new_users = Some 0, sa_product_active = Some 0,
     sa_successful_api_active = Some 0, sa_attempted_api_active = Some 0, sa_console_active = Some 0,
     sa_checkin_only_active = Some 0, sa_api_attempts = Some 0, sa_api_successes = Some 0,
     sa_game_active = Some 0, sa_wau = Some 0, sa_active_28d = Some 0, sa_engaged_28d = Some 0,
     sa_finalized_at = 0\<rparr>"

abbreviation site_row :: "int \<Rightarrow> store \<Rightarrow> site_activity option" where
  "site_row day st \<equiv> by_key sa_day day (site_activity_daily st)"

definition ensureOpenSiteDayTx :: "int \<Rightarrow> store \<Rightarrow> store" where
  "ensureOpenSiteDayTx day st = (if site_row day st = None
     then st\<lparr>site_activity_daily := site_activity_daily st @ [empty_site_row day]\<rparr> else st)"

definition coalesce0 :: "int option \<Rightarrow> int" where
  "coalesce0 v = (case v of None \<Rightarrow> 0 | Some n \<Rightarrow> n)"

text \<open>An update of the open row of a day.\<close>

definition update_open_day :: "int \<Rightarrow> (site_activity \<Rightarrow> site_activity) \<Rightarrow> store \<Rightarrow> store" where
  "update_open_day day f st = st\<lparr>site_activity_daily :=
     update_where (\<lambda>r. sa_day r = day \<and> sa_finalized_at r = 0) f (site_activity_daily st)\<rparr>"

definition boolDelta :: "bool \<Rightarrow> bool \<Rightarrow> int" where
  "boolDelta old new = (if \<not> old \<and> new then 1 else if old \<and> \<not> new then -1 else 0)"

definition product_active :: "user_activity \<Rightarrow> bool" where
  "product_active a \<longleftrightarrow> 0 < ua_api_successes a \<or> 0 < ua_console_actions a \<or> 0 < ua_game_rounds a"

definition bump_site :: "user_activity \<Rightarrow> user_activity \<Rightarrow> activity_delta \<Rightarrow> site_activity \<Rightarrow> site_activity" where
  "bump_site old new d r = r\<lparr>
     sa_attempted_api_active := Some (coalesce0 (sa_attempted_api_active r)
       + boolDelta (0 < ua_api_attempts old) (0 < ua_api_attempts new)),
     sa_successful_api_active := Some (coalesce0 (sa_successful_api_active r)
       + boolDelta (0 < ua_api_successes old) (0 < ua_api_successes new)),
     sa_console_active := Some (coalesce0 (sa_console_active r)
       + boolDelta (0 < ua_console_actions old) (0 < ua_console_actions new)),
     sa_game_active := Some (coalesce0 (sa_game_active r)
       + boolDelta (0 < ua_game_rounds old) (0 < ua_game_rounds new)),
     sa_product_active := Some (coalesce0 (sa_product_active r)
       + boolDelta (product_active old) (product_active new)),
     sa_checkin_only_active := Some (coalesce0 (sa_checkin_only_active r)
       + boolDelta (0 < ua_checkins old \<and> \<not> product_active old)
           (0 < ua_checkins new \<and> \<not> product_active new)),
     sa_api_attempts := Some (coalesce0 (sa_api_attempts r) + ad_attempts d),
     sa_api_successes := Some (coalesce0 (sa_api_successes r) + ad_success d)\<rparr>"

definition recordActivityTx :: "int \<Rightarrow> int \<Rightarrow> activity_delta \<Rightarrow> store \<Rightarrow> store" where
  "recordActivityTx userID at d st =
    (case user_row userID st of None \<Rightarrow> st | Some u \<Rightarrow>
     if u_is_admin u then st
     else
       let day = utcDay at;
           old = activity_row day userID st;
           st1 = upsert_activity day userID d at st
       in if u_disabled u then st1
          else update_open_day day (bump_site old (add_activity d at old) d)
                 (ensureOpenSiteDayTx day st1))"

definition recordNewUserTx :: "int \<Rightarrow> store \<Rightarrow> store" where
  "recordNewUserTx createdAt st = update_open_day (utcDay createdAt)
     (\<lambda>r. r\<lparr>sa_new_users := Some (coalesce0 (sa_new_users r) + 1)\<rparr>)
     (ensureOpenSiteDayTx (utcDay createdAt) st)"

definition RecordConsoleAction :: "int \<Rightarrow> int \<Rightarrow> store \<Rightarrow> store" where
  "RecordConsoleAction userID at = recordActivityTx userID at (no_activity\<lparr>ad_console := 1\<rparr>)"

definition boolInt :: "bool \<Rightarrow> int" where "boolInt b = (if b then 1 else 0)"

text \<open>\<open>MAX(0, COALESCE(column, 0) + delta)\<close>.\<close>

definition add_clamped :: "int option \<Rightarrow> int \<Rightarrow> int option" where
  "add_clamped v delta = Some (max 0 (coalesce0 v + delta))"

definition adjust_site :: "user_activity \<Rightarrow> int \<Rightarrow> bool \<Rightarrow> site_activity \<Rightarrow> site_activity" where
  "adjust_site a direction includeRegistration r = r\<lparr>
     sa_new_users := add_clamped (sa_new_users r) (if includeRegistration then direction else 0),
     sa_product_active := add_clamped (sa_product_active r) (direction * boolInt (product_active a)),
     sa_successful_api_active := add_clamped (sa_successful_api_active r)
       (direction * boolInt (0 < ua_api_successes a)),
     sa_attempted_api_active := add_clamped (sa_attempted_api_active r)
       (direction * boolInt (0 < ua_api_attempts a)),
     sa_console_active := add_clamped (sa_console_active r)
       (direction * boolInt (0 < ua_console_actions a)),
     sa_game_active := add_clamped (sa_game_active r) (direction * boolInt (0 < ua_game_rounds a)),
     sa_checkin_only_active := add_clamped (sa_checkin_only_active r)
       (direction * boolInt (0 < ua_checkins a \<and> \<not> product_active a)),
     sa_api_attempts := add_clamped (sa_api_attempts r) (direction * ua_api_attempts a),
     sa_api_successes := add_clamped (sa_api_successes r) (direction * ua_api_successes a)\<rparr>"

definition adjustOpenSiteForUserTx :: "int \<Rightarrow> int \<Rightarrow> int \<Rightarrow> bool \<Rightarrow> store \<Rightarrow> store" where
  "adjustOpenSiteForUserTx userID day direction includeRegistration st =
     update_open_day day (adjust_site (activity_row day userID st) direction includeRegistration)
       (ensureOpenSiteDayTx day st)"

section \<open>Rebuilding a day from the user rows\<close>

text \<open>The join with \<open>users\<close> and its filter: a row counts when its user exists, is not the
  administrator and is not disabled.\<close>

definition counted :: "store \<Rightarrow> int \<Rightarrow> bool" where
  "counted st uid \<longleftrightarrow> (case user_row uid st of None \<Rightarrow> False
     | Some u \<Rightarrow> \<not> u_is_admin u \<and> \<not> u_disabled u)"

definition site_sum :: "(user_activity \<Rightarrow> int) \<Rightarrow> int \<Rightarrow> store \<Rightarrow> int" where
  "site_sum f day st = column_sum (\<lambda>a. if ua_day a = day \<and> counted st (ua_user_id a) then f a else 0)
     (user_activity_daily st)"

definition registrations :: "int \<Rightarrow> store \<Rightarrow> int" where
  "registrations day st = count_where (\<lambda>u. \<not> u_is_admin u \<and> \<not> u_disabled u \<and> day \<le> u_created_at u \<and>
     u_created_at u < day + activityDaySeconds) (users st)"

definition product_rows :: "int \<Rightarrow> int \<Rightarrow> store \<Rightarrow> user_activity list" where
  "product_rows since until st = select_where (\<lambda>a. since \<le> ua_day a \<and> ua_day a \<le> until \<and>
     product_active a \<and> counted st (ua_user_id a)) (user_activity_daily st)"

definition rollingProductUsersTx :: "int \<Rightarrow> int \<Rightarrow> store \<Rightarrow> int" where
  "rollingProductUsersTx since until st =
     int (length (remdups (map ua_user_id (product_rows since until st))))"

definition engaged_users :: "int \<Rightarrow> int \<Rightarrow> store \<Rightarrow> int" where
  "engaged_users since until st = (let rows = product_rows since until st in
     int (length (filter (\<lambda>uid. 3 \<le> length (filter (\<lambda>a. ua_user_id a = uid) rows))
       (remdups (map ua_user_id rows)))))"

definition checkin_only_row :: "user_activity \<Rightarrow> bool" where
  "checkin_only_row a \<longleftrightarrow> 0 < ua_checkins a \<and> ua_api_successes a = 0 \<and> ua_console_actions a = 0 \<and>
     ua_game_rounds a = 0"

definition suppress :: "int \<Rightarrow> int option" where
  "suppress v = (if v < activityK then None else Some v)"

definition suppressValue :: "int option \<Rightarrow> int option" where
  "suppressValue v = (case v of None \<Rightarrow> None | Some n \<Rightarrow> if n < activityK then None else Some n)"

definition rebuild_values :: "int \<Rightarrow> int \<Rightarrow> bool \<Rightarrow> store \<Rightarrow> site_activity \<Rightarrow> site_activity" where
  "rebuild_values day finalizedAt doSuppress st r =
    (let out = (if doSuppress then suppress else Some);
         attempted = site_sum (\<lambda>a. boolInt (0 < ua_api_attempts a)) day st;
         successful = site_sum (\<lambda>a. boolInt (0 < ua_api_successes a)) day st;
         attempts = site_sum ua_api_attempts day st;
         successes = site_sum ua_api_successes day st
     in r\<lparr>sa_new_users := out (registrations day st),
          sa_product_active := out (site_sum (\<lambda>a. boolInt (product_active a)) day st),
          sa_successful_api_active := out successful,
          sa_attempted_api_active := out attempted,
          sa_console_active := out (site_sum (\<lambda>a. boolInt (0 < ua_console_actions a)) day st),
          sa_checkin_only_active := out (site_sum (\<lambda>a. boolInt (checkin_only_row a)) day st),
          sa_api_attempts := (if doSuppress \<and> attempted < activityK then None else Some attempts),
          sa_api_successes := (if doSuppress \<and> successful < activityK then None else Some successes),
          sa_game_active := out (site_sum (\<lambda>a. boolInt (0 < ua_game_rounds a)) day st),
          sa_wau := out (rollingProductUsersTx (day - 6 * activityDaySeconds) day st),
          sa_active_28d := out (rollingProductUsersTx (day - 27 * activityDaySeconds) day st),
          sa_engaged_28d := out (engaged_users (day - 27 * activityDaySeconds) day st),
          sa_finalized_at := finalizedAt\<rparr>)"

definition rebuildSiteDayTx :: "int \<Rightarrow> int \<Rightarrow> bool \<Rightarrow> store \<Rightarrow> store" where
  "rebuildSiteDayTx day finalizedAt doSuppress st =
    (let st1 = ensureOpenSiteDayTx day st
     in st1\<lparr>site_activity_daily := update_where (\<lambda>r. sa_day r = day)
              (rebuild_values day finalizedAt doSuppress st) (site_activity_daily st1)\<rparr>)"

definition finalizeCompletedActivityDaysTx :: "int \<Rightarrow> store \<Rightarrow> store" where
  "finalizeCompletedActivityDaysTx now st =
    fold (\<lambda>day. rebuildSiteDayTx day now True)
      (sort (map sa_day (select_where (\<lambda>r. sa_finalized_at r = 0 \<and> sa_day r < utcDay now)
        (site_activity_daily st)))) st"

definition MaintainActivity :: "int \<Rightarrow> store \<Rightarrow> store" where
  "MaintainActivity now st =
    (let today = utcDay now;
         st1 = rebuildSiteDayTx today 0 False (finalizeCompletedActivityDaysTx now st);
         cutoff = today - (ActivityRetentionDays - 1) * activityDaySeconds
     in st1\<lparr>user_activity_daily := delete_where (\<lambda>a. ua_day a < cutoff) (user_activity_daily st1),
            site_activity_daily := delete_where (\<lambda>r. sa_day r < cutoff) (site_activity_daily st1)\<rparr>)"

definition ListUserActivity :: "int \<Rightarrow> store \<Rightarrow> user_activity list" where
  "ListUserActivity userID st =
     sort_key ua_day (select_where (\<lambda>a. ua_user_id a = userID) (user_activity_daily st))"

section \<open>Statistics\<close>

record activity_summary =
  registered_total :: "int option"
  sum_dau :: "int option"
  sum_wau :: "int option"
  sum_active_28d :: "int option"
  sum_engaged_28d :: "int option"
  attempted_28d :: "int option"
  console_28d :: "int option"
  checkin_only_28d :: "int option"

record activity_activation =
  eligible_registrations :: "int option"
  act_configured :: "int option"
  first_success_within_7d :: "int option"

record activity_stats =
  as_summary :: activity_summary
  as_by_day :: "site_activity list"
  as_activation :: activity_activation

text \<open>The row of the current, still open day as it is shown.\<close>

definition mask_open_day :: "site_activity \<Rightarrow> site_activity" where
  "mask_open_day v = (let attempted = suppressValue (sa_attempted_api_active v);
      successful = suppressValue (sa_successful_api_active v)
    in v\<lparr>sa_new_users := suppressValue (sa_new_users v),
         sa_product_active := suppressValue (sa_product_active v),
         sa_successful_api_active := successful,
         sa_attempted_api_active := attempted,
         sa_console_active := suppressValue (sa_console_active v),
         sa_game_active := suppressValue (sa_game_active v),
         sa_checkin_only_active := suppressValue (sa_checkin_only_active v),
         sa_api_attempts := (if attempted = None then None else sa_api_attempts v),
         sa_api_successes := (if successful = None then None else sa_api_successes v),
         sa_wau := suppressValue (sa_wau v),
         sa_active_28d := suppressValue (sa_active_28d v),
         sa_engaged_28d := suppressValue (sa_engaged_28d v)\<rparr>)"

definition absent_day :: "int \<Rightarrow> site_activity" where
  "absent_day day = \<lparr>sa_day = day, sa_new_users = None, sa_product_active = None,
     sa_successful_api_active = None, sa_attempted_api_active = None, sa_console_active = None,
     sa_checkin_only_active = None, sa_api_attempts = None, sa_api_successes = None,
     sa_game_active = None, sa_wau = None, sa_active_28d = None, sa_engaged_28d = None,
     sa_finalized_at = 0\<rparr>"

text \<open>The loop \<open>for day := since; day <= until; day += 86400\<close>.\<close>

function days_between :: "int \<Rightarrow> int \<Rightarrow> int list" where
  "days_between since until =
     (if since \<le> until then since # days_between (since + activityDaySeconds) until else [])"
  by pat_completeness auto
termination
  by (relation "measure (\<lambda>(s, u). nat (u + 1 - s))") (auto simp: activityDaySeconds_def)

declare days_between.simps [simp del]

text \<open>Per-user totals over the window, one entry per counted user.\<close>

definition window_users :: "int \<Rightarrow> int \<Rightarrow> store \<Rightarrow> int list" where
  "window_users since until st = remdups (map ua_user_id (select_where
     (\<lambda>a. since \<le> ua_day a \<and> ua_day a \<le> until \<and> counted st (ua_user_id a)) (user_activity_daily st)))"

definition window_total :: "(user_activity \<Rightarrow> int) \<Rightarrow> int \<Rightarrow> int \<Rightarrow> store \<Rightarrow> int \<Rightarrow> int" where
  "window_total f since until st uid = column_sum f (select_where
     (\<lambda>a. since \<le> ua_day a \<and> ua_day a \<le> until \<and> ua_user_id a = uid) (user_activity_daily st))"

definition count_window :: "(int \<Rightarrow> bool) \<Rightarrow> int \<Rightarrow> int \<Rightarrow> store \<Rightarrow> int" where
  "count_window P since until st = count_where P (window_users since until st)"

definition activityLaunchAt :: "store \<Rightarrow> int option" where
  "activityLaunchAt st = (case map_of (settings st) ''internal_activity_launch_at'' of
     None \<Rightarrow> None | Some raw \<Rightarrow> Atoi raw)"

definition activated_by :: "int \<Rightarrow> store \<Rightarrow> user \<Rightarrow> app_config \<Rightarrow> bool" where
  "activated_by cohortEnd st u ac \<longleftrightarrow> c_user_id ac = u_id u \<and> c_created_at ac < cohortEnd \<and>
     (\<exists>a \<in> set (user_activity_daily st). ua_user_id a = u_id u \<and> 0 < ua_api_successes a \<and>
        utcDay (u_created_at u) \<le> ua_day a \<and> utcDay (c_created_at ac) \<le> ua_day a \<and>
        ua_day a \<le> utcDay (u_created_at u) + 6 * activityDaySeconds \<and> ua_day a < cohortEnd)"

text \<open>What is reported for a day: the stored row, masked when the day is still open, or nothing.\<close>

definition day_view :: "int \<Rightarrow> int \<Rightarrow> int \<Rightarrow> store \<Rightarrow> int \<Rightarrow> site_activity" where
  "day_view since until now st day = (case site_row day st of
     None \<Rightarrow> absent_day day
   | Some r \<Rightarrow> if since \<le> day \<and> day \<le> until
       then (if utcDay now \<le> until \<and> day = utcDay now then mask_open_day r else r)
       else absent_day day)"

definition ActivityStats :: "int \<Rightarrow> int \<Rightarrow> int \<Rightarrow> store \<Rightarrow> store \<times> activity_stats option" where
  "ActivityStats since until now st =
    (let st1 = MaintainActivity now st;
         view = day_view since until now st1;
         last = view until;
         windowSince = until - 27 * activityDaySeconds;
         total = (\<lambda>f. window_total f windowSince until st1);
         sup_count = (\<lambda>P. suppress (count_window P windowSince until st1))
     in case activityLaunchAt st1 of None \<Rightarrow> (st1, None) | Some launchAt \<Rightarrow>
        let cohortStart = max since (utcDay launchAt);
            cohortEnd = until + activityDaySeconds;
            cohort = (if cohortStart \<le> until then select_where (\<lambda>u. \<not> u_is_admin u \<and> \<not> u_disabled u \<and>
              cohortStart \<le> u_created_at u \<and> u_created_at u < cohortEnd \<and> launchAt \<le> u_created_at u)
              (users st1) else [])
        in (st1, Some \<lparr>
          as_summary = \<lparr>
            registered_total = suppress (count_where (\<lambda>u. \<not> u_is_admin u \<and> \<not> u_disabled u) (users st1)),
            sum_dau = sa_product_active last, sum_wau = sa_wau last,
            sum_active_28d = sa_active_28d last, sum_engaged_28d = sa_engaged_28d last,
            attempted_28d = sup_count (\<lambda>uid. 0 < total ua_api_attempts uid),
            console_28d = sup_count (\<lambda>uid. 0 < total ua_console_actions uid),
            checkin_only_28d = sup_count (\<lambda>uid. 0 < total ua_checkins uid \<and>
              total ua_api_successes uid = 0 \<and> total ua_console_actions uid = 0 \<and>
              total ua_game_rounds uid = 0)\<rparr>,
          as_by_day = map view (days_between since until),
          as_activation = \<lparr>
            eligible_registrations = suppress (int (length cohort)),
            act_configured = suppress (count_where
              (\<lambda>u. \<exists>ac \<in> set (app_configs st1). c_user_id ac = u_id u \<and> c_created_at ac < cohortEnd) cohort),
            first_success_within_7d = suppress (count_where
              (\<lambda>u. \<exists>ac \<in> set (app_configs st1). activated_by cohortEnd st1 u ac) cohort)\<rparr>\<rparr>))"

section \<open>Backfill at startup\<close>

definition setting_or_ignore :: "string \<Rightarrow> string \<Rightarrow> store \<Rightarrow> store" where
  "setting_or_ignore k v st = (if map_of (settings st) k = None
     then st\<lparr>settings := settings st @ [(k, v)]\<rparr> else st)"

definition backfill_group :: "store \<Rightarrow> (int \<times> int) \<Rightarrow> request_log list" where
  "backfill_group st key = select_where (\<lambda>l. (utcDay (l_started_at l), l_user_id l) = key)
     (request_logs st)"

definition backfill_upsert :: "int \<Rightarrow> int \<times> int \<Rightarrow> store \<Rightarrow> store" where
  "backfill_upsert now key st =
    (let logs = backfill_group st key;
         attempts = int (length logs);
         successes = count_where (\<lambda>l. l_status l = ''success'' \<and> l_error_code l \<noteq> ''debug_dry_run'') logs;
         put = (\<lambda>a. a\<lparr>ua_api_attempts := attempts, ua_api_successes := successes, ua_updated_at := now\<rparr>)
     in st\<lparr>user_activity_daily :=
       (if by_key ua_key key (user_activity_daily st) = None
        then user_activity_daily st @ [put (empty_activity (fst key) (snd key))]
        else update_where (\<lambda>a. ua_key a = key) put (user_activity_daily st))\<rparr>)"

definition backfill_keys :: "store \<Rightarrow> (int \<times> int) list" where
  "backfill_keys st = remdups (map (\<lambda>l. (utcDay (l_started_at l), l_user_id l))
     (select_where (\<lambda>l. case user_row (l_user_id l) st of None \<Rightarrow> False | Some u \<Rightarrow> \<not> u_is_admin u)
        (request_logs st)))"

definition idle_row :: "user_activity \<Rightarrow> bool" where
  "idle_row a \<longleftrightarrow> ua_api_attempts a = 0 \<and> ua_api_successes a = 0 \<and> ua_console_actions a = 0 \<and>
     ua_checkins a = 0 \<and> ua_game_rounds a = 0"

text \<open>The seeding statement does not name \<open>game_active\<close>, which is left null.\<close>

definition seed_site_day :: "int \<Rightarrow> store \<Rightarrow> store" where
  "seed_site_day day st = (if site_row day st = None
     then st\<lparr>site_activity_daily := site_activity_daily st @
            [(empty_site_row day)\<lparr>sa_game_active := None\<rparr>]\<rparr> else st)"

definition backfill :: "int \<Rightarrow> store \<Rightarrow> store" where
  "backfill now st =
    (let st1 = st\<lparr>user_activity_daily := map (\<lambda>a. a\<lparr>ua_api_attempts := 0, ua_api_successes := 0,
           ua_console_actions := 0, ua_checkins := 0, ua_game_rounds := 0, ua_updated_at := now\<rparr>)
           (user_activity_daily st)\<rparr>;
         st2 = fold (backfill_upsert now) (backfill_keys st1) st1;
         st3 = st2\<lparr>user_activity_daily := delete_where idle_row (user_activity_daily st2)\<rparr>;
         days = remdups (map ua_day (user_activity_daily st3) @
           map (\<lambda>u. utcDay (u_created_at u)) (select_where (\<lambda>u. \<not> u_is_admin u) (users st3)))
     in fold seed_site_day days st3)"

definition initializeActivity :: "int \<Rightarrow> store \<Rightarrow> store" where
  "initializeActivity now st =
    (let st1 = setting_or_ignore ''internal_activity_launch_at'' (Itoa now) st;
         st2 = (if map_of (settings st1) ''internal_activity_backfill_v1'' = None
           then setting_or_ignore ''internal_activity_backfill_v1'' ''1'' (backfill now st1) else st1)
     in MaintainActivity now st2)"

section \<open>Exactness of the incremental counters\<close>

definition open_view :: "int \<Rightarrow> store \<Rightarrow> site_activity" where
  "open_view day st = (case site_row day st of None \<Rightarrow> empty_site_row day | Some r \<Rightarrow> r)"

text \<open>The counters of a site row are what a rebuild of its day would compute.\<close>

definition exact_row :: "store \<Rightarrow> int \<Rightarrow> site_activity \<Rightarrow> bool" where
  "exact_row st day r \<longleftrightarrow>
     sa_new_users r = Some (registrations day st) \<and>
     sa_product_active r = Some (site_sum (\<lambda>a. boolInt (product_active a)) day st) \<and>
     sa_successful_api_active r = Some (site_sum (\<lambda>a. boolInt (0 < ua_api_successes a)) day st) \<and>
     sa_attempted_api_active r = Some (site_sum (\<lambda>a. boolInt (0 < ua_api_attempts a)) day st) \<and>
     sa_console_active r = Some (site_sum (\<lambda>a. boolInt (0 < ua_console_actions a)) day st) \<and>
     sa_game_active r = Some (site_sum (\<lambda>a. boolInt (0 < ua_game_rounds a)) day st) \<and>
     sa_checkin_only_active r =
       Some (site_sum (\<lambda>a. boolInt (0 < ua_checkins a \<and> \<not> product_active a)) day st) \<and>
     sa_api_attempts r = Some (site_sum ua_api_attempts day st) \<and>
     sa_api_successes r = Some (site_sum ua_api_successes day st)"

definition exact_on :: "int \<Rightarrow> store \<Rightarrow> bool" where
  "exact_on day st \<longleftrightarrow> sa_finalized_at (open_view day st) = 0 \<and> exact_row st day (open_view day st)"

definition activity_ok :: "store \<Rightarrow> bool" where
  "activity_ok st \<longleftrightarrow> keys_distinct ua_key (user_activity_daily st) \<and>
     keys_distinct u_id (users st) \<and>
     (\<forall>a \<in> set (user_activity_daily st). 0 \<le> ua_api_attempts a \<and> 0 \<le> ua_api_successes a \<and>
        0 \<le> ua_console_actions a \<and> 0 \<le> ua_checkins a \<and> 0 \<le> ua_game_rounds a)"

definition delta_ok :: "activity_delta \<Rightarrow> bool" where
  "delta_ok d \<longleftrightarrow> 0 \<le> ad_attempts d \<and> 0 \<le> ad_success d \<and> 0 \<le> ad_console d \<and>
     0 \<le> ad_checkins d \<and> 0 \<le> ad_games d"

subsection \<open>The pieces\<close>

lemma add_activity_key [simp]: "ua_key (add_activity d at a) = ua_key a"
  by (simp add: add_activity_def ua_key_def)

lemma empty_activity_key [simp]: "ua_key (empty_activity day uid) = (day, uid)"
  by (simp add: empty_activity_def ua_key_def)

lemma empty_site_row_simps [simp]:
  "sa_day (empty_site_row day) = day" "sa_finalized_at (empty_site_row day) = 0"
  by (simp_all add: empty_site_row_def)

lemma bump_site_simps [simp]:
  "sa_day (bump_site old new d r) = sa_day r"
  "sa_finalized_at (bump_site old new d r) = sa_finalized_at r"
  by (simp_all add: bump_site_def)

lemma adjust_site_simps [simp]:
  "sa_day (adjust_site a dir incl r) = sa_day r"
  "sa_finalized_at (adjust_site a dir incl r) = sa_finalized_at r"
  by (simp_all add: adjust_site_def)

lemma open_view_day [simp]: "sa_day (open_view day st) = day"
  by (auto simp: open_view_def dest: by_key_SomeD split: option.split)

lemma site_row_ensure [simp]:
  "site_row k (ensureOpenSiteDayTx day st) = (if k = day then Some (open_view day st) else site_row k st)"
  by (auto simp: ensureOpenSiteDayTx_def open_view_def split: option.split)

lemma ensure_frame [simp]:
  "users (ensureOpenSiteDayTx day st) = users st"
  "user_activity_daily (ensureOpenSiteDayTx day st) = user_activity_daily st"
  by (simp_all add: ensureOpenSiteDayTx_def)

lemma update_open_frame [simp]:
  "users (update_open_day day f st) = users st"
  "user_activity_daily (update_open_day day f st) = user_activity_daily st"
  by (simp_all add: update_open_day_def)

lemma open_view_update:
  assumes "\<And>r. sa_day (f r) = sa_day r"
  shows "open_view k (update_open_day day f (ensureOpenSiteDayTx day st)) =
     (if k = day \<and> sa_finalized_at (open_view day st) = 0 then f (open_view day st)
      else open_view k st)"
proof -
  let ?s = "ensureOpenSiteDayTx day st"
  have row: "site_row k (update_open_day day f ?s) =
      map_option (\<lambda>r. if sa_day r = day \<and> sa_finalized_at r = 0 then f r else r) (site_row k ?s)"
    unfolding update_open_day_def by (simp add: by_key_update [of sa_day f] assms)
  show ?thesis
  proof (cases "k = day")
    case True
    with row have "site_row k (update_open_day day f ?s) =
        Some (if sa_finalized_at (open_view day st) = 0 then f (open_view day st) else open_view day st)"
      by simp
    with True show ?thesis by (simp add: open_view_def [of _ "update_open_day day f ?s"])
  next
    case False
    have "site_row k (update_open_day day f ?s) = site_row k st"
      using row False by (cases "site_row k st") (auto dest: by_key_SomeD)
    with False show ?thesis by (simp add: open_view_def)
  qed
qed

lemma site_sum_cong:
  assumes "user_activity_daily st' = user_activity_daily st" "users st' = users st"
  shows "site_sum f day st' = site_sum f day st" "registrations day st' = registrations day st"
    "counted st' uid = counted st uid"
  using assms by (simp_all add: site_sum_def registrations_def counted_def)

lemma exact_row_cong:
  assumes "user_activity_daily st' = user_activity_daily st" "users st' = users st"
  shows "exact_row st' day r = exact_row st day r"
  by (simp add: exact_row_def site_sum_cong [OF assms])

lemma site_sum_nonneg:
  "(\<And>a. a \<in> set (user_activity_daily st) \<Longrightarrow> 0 \<le> f a) \<Longrightarrow> 0 \<le> site_sum f day st"
  unfolding site_sum_def by (rule column_sum_nonneg) simp

lemma activity_row_ok:
  assumes "activity_ok st"
  shows "0 \<le> ua_api_attempts (activity_row day uid st)" "0 \<le> ua_api_successes (activity_row day uid st)"
    "0 \<le> ua_console_actions (activity_row day uid st)" "0 \<le> ua_checkins (activity_row day uid st)"
    "0 \<le> ua_game_rounds (activity_row day uid st)"
  using assms
  by (auto simp: activity_row_def activity_ok_def empty_activity_def dest: by_key_SomeD
      split: option.split)

text \<open>An upsert changes a sum over the counted rows of a day by the change of one row.\<close>

lemma counted_frame [simp]: "counted (st\<lparr>user_activity_daily := rows\<rparr>) = counted st"
  by (simp add: counted_def fun_eq_iff)

lemma site_sum_upsert:
  assumes "keys_distinct ua_key (user_activity_daily st)" "f (empty_activity d0 uid) = 0"
  shows "site_sum f day (upsert_activity d0 uid d at st) = site_sum f day st +
     (if day = d0 \<and> counted st uid
      then f (add_activity d at (activity_row d0 uid st)) - f (activity_row d0 uid st) else 0)"
proof -
  let ?g = "\<lambda>a. if ua_day a = day \<and> counted st (ua_user_id a) then f a else 0"
  have day_uid: "ua_day (add_activity d at a) = ua_day a" "ua_user_id (add_activity d at a) = ua_user_id a"
    "ua_day (empty_activity d0 uid) = d0" "ua_user_id (empty_activity d0 uid) = uid" for a
    by (simp_all add: add_activity_def empty_activity_def)
  show ?thesis
  proof (cases "by_key ua_key (d0, uid) (user_activity_daily st)")
    case None
    then show ?thesis using assms(2)
      by (auto simp: site_sum_def upsert_activity_def activity_row_def day_uid)
  next
    case (Some a)
    then have a: "ua_day a = d0" "ua_user_id a = uid"
      by (auto simp: ua_key_def dest: by_key_SomeD)
    show ?thesis
      using column_sum_update_key [OF assms(1), of "add_activity d at" ?g "(d0, uid)"] Some a
      by (simp add: site_sum_def upsert_activity_def activity_row_def day_uid)
  qed
qed

lemma site_sum_include:
  assumes "keys_distinct ua_key (user_activity_daily st0)"
    and "user_activity_daily st = user_activity_daily st0" "f (empty_activity day uid) = 0"
    and "\<And>k. counted st k = (if k = uid then True else counted st0 k)" "\<not> counted st0 uid"
  shows "site_sum f day st = site_sum f day st0 + f (activity_row day uid st0)"
proof -
  have "column_sum (\<lambda>a. if ua_key a = (day, uid) then f a else 0) rows =
      (case by_key ua_key (day, uid) rows of None \<Rightarrow> 0 | Some a \<Rightarrow> f a)"
    if "keys_distinct ua_key rows" for rows
    using that
  proof (induction rows)
    case (Cons a rows)
    have "by_key ua_key (ua_key a) rows = None" using Cons.prems by (simp add: by_key_None)
    with Cons show ?case by (auto split: option.splits)
  qed simp
  then have one: "column_sum (\<lambda>a. if ua_key a = (day, uid) then f a else 0) (user_activity_daily st0)
      = f (activity_row day uid st0)"
    using assms(1,3) by (auto simp: activity_row_def split: option.split)
  have "column_sum (\<lambda>a. if ua_day a = day \<and> counted st (ua_user_id a) then f a else 0) rows =
      column_sum (\<lambda>a. if ua_day a = day \<and> counted st0 (ua_user_id a) then f a else 0) rows +
      column_sum (\<lambda>a. if ua_key a = (day, uid) then f a else 0) rows" for rows
    using assms(4,5) by (induction rows) (auto simp: ua_key_def)
  with one show ?thesis by (simp add: site_sum_def assms(2))
qed

lemma exact_upsert:
  assumes "exact_row st day r" "keys_distinct ua_key (user_activity_daily st)"
    and "day \<noteq> d0 \<or> \<not> counted st uid"
  shows "exact_row (upsert_activity d0 uid d at st) day r"
proof -
  have "registrations day (upsert_activity d0 uid d at st) = registrations day st"
    by (simp add: registrations_def upsert_activity_def)
  moreover have "site_sum f day (upsert_activity d0 uid d at st) = site_sum f day st"
    if "f (empty_activity d0 uid) = 0" for f
    using site_sum_upsert [of st f d0 uid day d at, OF assms(2) that] assms(3) by auto
  ultimately show ?thesis
    using assms(1)
    by (simp add: exact_row_def empty_activity_def boolInt_def product_active_def)
qed

lemma bump_exact:
  assumes "exact_row st day r" "keys_distinct ua_key (user_activity_daily st)" "counted st uid"
  shows "exact_row (upsert_activity day uid d at st) day
    (bump_site (activity_row day uid st) (add_activity d at (activity_row day uid st)) d r)"
proof -
  let ?st = "upsert_activity day uid d at st"
  have reg: "registrations day ?st = registrations day st"
    by (simp add: registrations_def upsert_activity_def)
  have sums: "site_sum f day ?st = site_sum f day st +
      (f (add_activity d at (activity_row day uid st)) - f (activity_row day uid st))"
    if "f (empty_activity day uid) = 0" for f
    using site_sum_upsert [of st f day uid day d at, OF assms(2) that] assms(3) by simp
  have delta: "boolDelta p q = boolInt q - boolInt p" for p q
    by (simp add: boolDelta_def boolInt_def)
  note e = assms(1) [unfolded exact_row_def]
  show ?thesis
    unfolding exact_row_def reg bump_site_def
    by (simp add: e sums delta coalesce0_def)
      (simp add: e sums empty_activity_def boolInt_def product_active_def add_activity_def)
qed

lemma upsert_ok:
  assumes "activity_ok st" "delta_ok d"
  shows "activity_ok (upsert_activity day uid d at st)"
proof -
  have "0 \<le> ua_api_attempts x \<and> 0 \<le> ua_api_successes x \<and> 0 \<le> ua_console_actions x \<and>
      0 \<le> ua_checkins x \<and> 0 \<le> ua_game_rounds x"
    if "x = add_activity d at a" "a = empty_activity day uid \<or> a \<in> set (user_activity_daily st)" for x a
    using that assms by (auto simp: add_activity_def activity_ok_def delta_ok_def empty_activity_def)
  then show ?thesis
    using assms(1)
    by (auto simp: activity_ok_def upsert_activity_def set_update_where by_key_None split: if_split_asm)
qed

lemma activity_ok_frame:
  assumes "user_activity_daily st' = user_activity_daily st" "users st' = users st"
  shows "activity_ok st' = activity_ok st"
  by (simp add: activity_ok_def assms)

lemma upsert_frame [simp]:
  "users (upsert_activity day uid d at st) = users st"
  "site_activity_daily (upsert_activity day uid d at st) = site_activity_daily st"
  by (simp_all add: upsert_activity_def)

lemma open_view_upsert [simp]: "open_view k (upsert_activity day uid d at st) = open_view k st"
  by (simp add: open_view_def)

lemma record_users [simp]: "users (recordActivityTx uid at d st) = users st"
  by (simp add: recordActivityTx_def Let_def split: option.split)

lemma record_ok:
  assumes "activity_ok st" "delta_ok d"
  shows "activity_ok (recordActivityTx uid at d st)"
  using assms(1) upsert_ok [OF assms]
  by (simp add: recordActivityTx_def Let_def activity_ok_frame [of "update_open_day _ _ _" "upsert_activity _ _ _ _ _"]
      split: option.split)

lemma record_exact:
  assumes "exact_on day st" "activity_ok st"
  shows "exact_on day (recordActivityTx uid at d st)"
proof (cases "user_row uid st")
  case None
  with assms show ?thesis by (simp add: recordActivityTx_def)
next
  case (Some u)
  define d0 where "d0 = utcDay at"
  let ?st1 = "upsert_activity d0 uid d at st"
  let ?old = "activity_row d0 uid st"
  let ?f = "bump_site ?old (add_activity d at ?old) d"
  let ?st2 = "update_open_day d0 ?f (ensureOpenSiteDayTx d0 ?st1)"
  have keys: "keys_distinct ua_key (user_activity_daily st)" using assms(2) by (simp add: activity_ok_def)
  have view: "sa_finalized_at (open_view day st) = 0" "exact_row st day (open_view day st)"
    using assms(1) by (simp_all add: exact_on_def)
  consider (admin) "u_is_admin u" | (disabled) "\<not> u_is_admin u" "u_disabled u"
    | (counted) "\<not> u_is_admin u" "\<not> u_disabled u" by blast
  then show ?thesis
  proof cases
    case admin with assms Some show ?thesis by (simp add: recordActivityTx_def)
  next
    case disabled
    then have "\<not> counted st uid" using Some by (simp add: counted_def)
    then have "exact_on day ?st1"
      using view exact_upsert [OF view(2) keys] by (simp add: exact_on_def)
    then show ?thesis using Some disabled by (simp add: recordActivityTx_def d0_def Let_def)
  next
    case counted
    then have c: "counted st uid" using Some by (simp add: counted_def)
    have v: "open_view day ?st2 = (if day = d0 then ?f (open_view day st) else open_view day st)"
      using open_view_update [of ?f day d0 ?st1] view(1) by (cases "day = d0") simp_all
    have "exact_row ?st1 day (open_view day ?st2)"
      using exact_upsert [OF view(2) keys, of d0 uid d at]
        bump_exact [OF view(2) keys c, of d at] unfolding v by (cases "day = d0") simp_all
    then have "exact_row ?st2 day (open_view day ?st2)"
      by (subst exact_row_cong [of _ ?st1]) simp_all
    moreover have "sa_finalized_at (open_view day ?st2) = 0" using view(1) by (auto simp: v)
    ultimately have "exact_on day ?st2" by (simp add: exact_on_def)
    then show ?thesis using Some counted by (simp add: recordActivityTx_def d0_def Let_def)
  qed
qed

text \<open>Adjusting a row for a user who enters (\<open>1\<close>) or leaves (\<open>-1\<close>) the counted population.\<close>

lemma adjust_exact:
  assumes "exact_row st day r" "activity_ok st'"
    and "\<And>f. f (empty_activity day uid) = 0 \<Longrightarrow> site_sum f day st' = site_sum f day st + direction * f a"
    and "registrations day st' = registrations day st + (if incl then direction else 0)"
  shows "exact_row st' day (adjust_site a direction incl r)"
proof -
  note e = assms(1) [unfolded exact_row_def]
  have nn: "0 \<le> site_sum f day st'" if "\<And>a. a \<in> set (user_activity_daily st') \<Longrightarrow> 0 \<le> f a" for f
    using site_sum_nonneg that by blast
  have rows: "a \<in> set (user_activity_daily st') \<Longrightarrow> 0 \<le> ua_api_attempts a \<and> 0 \<le> ua_api_successes a" for a
    using assms(2) by (simp add: activity_ok_def)
  have clamp: "add_clamped (Some x) y = Some (x + y)" if "0 \<le> x + y" for x y
    using that by (simp add: add_clamped_def coalesce0_def)
  have S: "add_clamped (Some (site_sum f day st)) (direction * f a) = Some (site_sum f day st')"
    if "f (empty_activity day uid) = 0" "\<And>a. a \<in> set (user_activity_daily st') \<Longrightarrow> 0 \<le> f a" for f
    using clamp nn [of f] assms(3) [of f] that by simp
  have B: "add_clamped (Some (site_sum (\<lambda>a. boolInt (P a)) day st)) (direction * boolInt (P a)) =
      Some (site_sum (\<lambda>a. boolInt (P a)) day st')" if "\<not> P (empty_activity day uid)" for P
    using S [of "\<lambda>a. boolInt (P a)"] that by (simp add: boolInt_def)
  have R: "add_clamped (Some (registrations day st)) (if incl then direction else 0) =
      Some (registrations day st')"
  proof -
    have "0 \<le> registrations day st'" by (simp add: registrations_def)
    then show ?thesis using clamp [of "registrations day st"] assms(4) by simp
  qed
  have empty: "\<not> product_active (empty_activity day uid)" "ua_api_successes (empty_activity day uid) = 0"
    "ua_api_attempts (empty_activity day uid) = 0" "ua_console_actions (empty_activity day uid) = 0"
    "ua_game_rounds (empty_activity day uid) = 0" "ua_checkins (empty_activity day uid) = 0"
    by (simp_all add: product_active_def empty_activity_def)
  show ?thesis
    unfolding exact_row_def adjust_site_def
    by (simp add: e R B [of product_active] B [of "\<lambda>a. 0 < ua_api_successes a"]
      B [of "\<lambda>a. 0 < ua_api_attempts a"] B [of "\<lambda>a. 0 < ua_console_actions a"]
      B [of "\<lambda>a. 0 < ua_game_rounds a"] B [of "\<lambda>a. 0 < ua_checkins a \<and> \<not> product_active a"]
      S [of ua_api_attempts] S [of ua_api_successes] rows empty)
qed

subsection \<open>Rebuilds\<close>

lemma rebuild_values_simps [simp]:
  "sa_day (rebuild_values day fin hide st r) = sa_day r"
  "sa_finalized_at (rebuild_values day fin hide st r) = fin"
  by (simp_all add: rebuild_values_def Let_def)

lemma rebuild_frame [simp]:
  "users (rebuildSiteDayTx day fin hide st) = users st"
  "user_activity_daily (rebuildSiteDayTx day fin hide st) = user_activity_daily st"
  by (simp_all add: rebuildSiteDayTx_def Let_def ensureOpenSiteDayTx_def)

lemma site_row_rebuild:
  "site_row k (rebuildSiteDayTx day fin hide st) =
     (if k = day then Some (rebuild_values day fin hide st (open_view day st)) else site_row k st)"
  by (simp add: rebuildSiteDayTx_def Let_def by_key_update_key)

lemma finalize_frame [simp]:
  "users (finalizeCompletedActivityDaysTx now st) = users st"
  "user_activity_daily (finalizeCompletedActivityDaysTx now st) = user_activity_daily st"
proof -
  have "users (fold (\<lambda>day. rebuildSiteDayTx day now True) ds st) = users st \<and>
    user_activity_daily (fold (\<lambda>day. rebuildSiteDayTx day now True) ds st) = user_activity_daily st"
    for ds by (induction ds arbitrary: st) simp_all
  then show "users (finalizeCompletedActivityDaysTx now st) = users st"
    "user_activity_daily (finalizeCompletedActivityDaysTx now st) = user_activity_daily st"
    by (simp_all add: finalizeCompletedActivityDaysTx_def)
qed

definition pending_days :: "int \<Rightarrow> store \<Rightarrow> int set" where
  "pending_days now st = {sa_day r |r. r \<in> set (site_activity_daily st) \<and>
     sa_finalized_at r = 0 \<and> sa_day r < utcDay now}"

lemma site_row_rebuilds:
  "site_row k (fold (\<lambda>day. rebuildSiteDayTx day now True) ds st) =
     (if k \<in> set ds then Some (rebuild_values k now True st (open_view k st)) else site_row k st)"
proof (induction ds arbitrary: st)
  case (Cons d ds)
  let ?st1 = "rebuildSiteDayTx d now True st"
  have same: "rebuild_values k now True ?st1 = rebuild_values k now True st" for k
    by (simp add: fun_eq_iff rebuild_values_def Let_def site_sum_cong [of ?st1 st]
        rollingProductUsersTx_def engaged_users_def product_rows_def)
  have "rebuild_values k now True st (rebuild_values k now True st r) = rebuild_values k now True st r" for k r
    by (simp add: rebuild_values_def Let_def)
  then show ?case
    using Cons.IH [of ?st1] by (auto simp: same site_row_rebuild open_view_def [of _ ?st1] open_view_def)
qed simp

lemma finalize_row:
  "site_row k (finalizeCompletedActivityDaysTx now st) =
     (if k \<in> pending_days now st then Some (rebuild_values k now True st (open_view k st))
      else site_row k st)"
proof -
  have "set (sort (map sa_day (select_where (\<lambda>r. sa_finalized_at r = 0 \<and> sa_day r < utcDay now)
      (site_activity_daily st)))) = pending_days now st"
    by (auto simp: pending_days_def select_where_def)
  then show ?thesis
    by (simp add: finalizeCompletedActivityDaysTx_def site_row_rebuilds)
qed

lemma pending_before_today: "k \<in> pending_days now st \<Longrightarrow> k < utcDay now"
  by (auto simp: pending_days_def)

lemma finalize_exact:
  "exact_on day (finalizeCompletedActivityDaysTx now st) = exact_on day st" if "utcDay now \<le> day"
proof -
  have "day \<notin> pending_days now st" using that pending_before_today by fastforce
  then show ?thesis
    by (simp add: exact_on_def open_view_def finalize_row exact_row_cong
        [of "finalizeCompletedActivityDaysTx now st" st])
qed

lemma checkin_only_same:
  assumes "activity_ok st"
  shows "site_sum (\<lambda>a. boolInt (checkin_only_row a)) day st =
    site_sum (\<lambda>a. boolInt (0 < ua_checkins a \<and> \<not> product_active a)) day st"
proof -
  have "checkin_only_row a \<longleftrightarrow> 0 < ua_checkins a \<and> \<not> product_active a"
    if "a \<in> set (user_activity_daily st)" for a
    using assms that unfolding activity_ok_def checkin_only_row_def product_active_def by force
  then show ?thesis
    unfolding site_sum_def column_sum_def
    by (intro arg_cong [of _ _ sum_list] map_cong) simp_all
qed

lemma rebuild_exact:
  assumes "activity_ok st"
  shows "exact_on day (rebuildSiteDayTx day 0 False st)"
proof -
  let ?st1 = "rebuildSiteDayTx day 0 False st"
  have "open_view day ?st1 = rebuild_values day 0 False st (open_view day st)"
    by (simp add: open_view_def [of day ?st1] site_row_rebuild)
  then show ?thesis
    by (simp add: exact_on_def exact_row_cong [of ?st1 st])
      (simp add: exact_row_def rebuild_values_def Let_def checkin_only_same [OF assms])
qed

text \<open>Retention removes whole days, so a surviving day keeps its sums.\<close>

lemma retention_sum:
  assumes "cutoff \<le> day" "users st' = users st"
    "user_activity_daily st' = delete_where (\<lambda>a. ua_day a < cutoff) (user_activity_daily st)"
  shows "site_sum f day st' = site_sum f day st"
proof -
  have "counted st' = counted st" by (simp add: counted_def assms(2) fun_eq_iff)
  moreover have "column_sum (\<lambda>a. if ua_day a = day \<and> counted st (ua_user_id a) then f a else 0)
      (delete_where (\<lambda>a. ua_day a < cutoff) rows) =
    column_sum (\<lambda>a. if ua_day a = day \<and> counted st (ua_user_id a) then f a else 0) rows" for rows
    using assms(1) by (induction rows) auto
  ultimately show ?thesis by (simp add: site_sum_def assms(3))
qed

lemma delete_site_row:
  "cutoff \<le> k \<Longrightarrow> by_key sa_day k (delete_where (\<lambda>r. sa_day r < cutoff) rows) = by_key sa_day k rows"
  by (induction rows) auto

lemma maintain_exact:
  assumes "activity_ok st"
  shows "exact_on (utcDay now) (MaintainActivity now st)"
proof -
  let ?day = "utcDay now"
  let ?st0 = "finalizeCompletedActivityDaysTx now st"
  let ?st1 = "rebuildSiteDayTx ?day 0 False ?st0"
  let ?st2 = "MaintainActivity now st"
  let ?cut = "?day - (ActivityRetentionDays - 1) * activityDaySeconds"
  have ok: "activity_ok ?st0" using assms by (subst activity_ok_frame [of _ st]) simp_all
  have cut: "?cut \<le> ?day" by (simp add: ActivityRetentionDays_def activityDaySeconds_def)
  have fields: "users ?st2 = users ?st1"
    "user_activity_daily ?st2 = delete_where (\<lambda>a. ua_day a < ?cut) (user_activity_daily ?st1)"
    "site_row ?day ?st2 = site_row ?day ?st1"
    using delete_site_row [OF cut] by (simp_all add: MaintainActivity_def Let_def)
  have "site_sum f ?day ?st2 = site_sum f ?day ?st1" for f
    by (rule retention_sum [OF cut fields(1,2)])
  moreover have "registrations ?day ?st2 = registrations ?day ?st1"
    by (simp only: registrations_def fields(1))
  ultimately have "exact_row ?st2 ?day r = exact_row ?st1 ?day r" for r
    by (simp only: exact_row_def)
  moreover have "open_view ?day ?st2 = open_view ?day ?st1"
    by (simp only: open_view_def fields(3))
  ultimately show ?thesis using rebuild_exact [OF ok, of ?day] by (simp only: exact_on_def)
qed

lemma maintain_ok: "activity_ok st \<Longrightarrow> activity_ok (MaintainActivity now st)"
  by (auto simp: MaintainActivity_def Let_def activity_ok_def)

section \<open>Suppression\<close>

definition hidden_or_many :: "int option \<Rightarrow> bool" where
  "hidden_or_many v \<longleftrightarrow> (case v of None \<Rightarrow> True | Some n \<Rightarrow> activityK \<le> n)"

text \<open>No published count of people is below the threshold, and request totals are published only
  when the number of people behind them is.\<close>

definition k_anonymous :: "site_activity \<Rightarrow> bool" where
  "k_anonymous r \<longleftrightarrow>
     hidden_or_many (sa_new_users r) \<and> hidden_or_many (sa_product_active r) \<and>
     hidden_or_many (sa_successful_api_active r) \<and> hidden_or_many (sa_attempted_api_active r) \<and>
     hidden_or_many (sa_console_active r) \<and> hidden_or_many (sa_checkin_only_active r) \<and>
     hidden_or_many (sa_game_active r) \<and> hidden_or_many (sa_wau r) \<and>
     hidden_or_many (sa_active_28d r) \<and> hidden_or_many (sa_engaged_28d r) \<and>
     (sa_attempted_api_active r = None \<longrightarrow> sa_api_attempts r = None) \<and>
     (sa_successful_api_active r = None \<longrightarrow> sa_api_successes r = None)"

definition frozen_ok :: "store \<Rightarrow> bool" where
  "frozen_ok st \<longleftrightarrow> (\<forall>r \<in> set (site_activity_daily st). sa_finalized_at r \<noteq> 0 \<longrightarrow> k_anonymous r)"

lemma hidden_suppress [simp]: "hidden_or_many (suppress v)"
  by (simp add: hidden_or_many_def suppress_def)

lemma suppress_None: "suppress v = None \<longleftrightarrow> v < activityK"
  by (simp add: suppress_def)

lemma hidden_suppressValue [simp]: "hidden_or_many (suppressValue v)"
  by (simp add: hidden_or_many_def suppressValue_def split: option.split)

lemma hidden_None [simp]: "hidden_or_many None"
  by (simp add: hidden_or_many_def)

lemma k_anonymous_mask [simp]: "k_anonymous (mask_open_day r)"
  by (simp add: k_anonymous_def mask_open_day_def Let_def)

lemma k_anonymous_absent [simp]: "k_anonymous (absent_day day)"
  by (simp add: k_anonymous_def absent_day_def)

lemma k_anonymous_rebuild [simp]: "k_anonymous (rebuild_values day fin True st r)"
  by (simp add: k_anonymous_def rebuild_values_def Let_def suppress_None)

lemma frozen_ensure: "frozen_ok st \<Longrightarrow> frozen_ok (ensureOpenSiteDayTx day st)"
  by (auto simp: frozen_ok_def ensureOpenSiteDayTx_def)

lemma frozen_update_open:
  assumes "frozen_ok st" "\<And>r. sa_finalized_at (f r) = sa_finalized_at r"
  shows "frozen_ok (update_open_day day f st)"
  using assms by (auto simp: frozen_ok_def update_open_day_def set_update_where)

lemma frozen_frame:
  "site_activity_daily st' = site_activity_daily st \<Longrightarrow> frozen_ok st' = frozen_ok st"
  by (simp add: frozen_ok_def)

lemma frozen_record: "frozen_ok st \<Longrightarrow> frozen_ok (recordActivityTx uid at d st)"
  by (auto simp: recordActivityTx_def Let_def frozen_frame [of "upsert_activity _ _ _ _ _" st]
      intro!: frozen_update_open frozen_ensure split: option.split)

lemma frozen_new_user: "frozen_ok st \<Longrightarrow> frozen_ok (recordNewUserTx at st)"
  unfolding recordNewUserTx_def by (intro frozen_update_open frozen_ensure) simp_all

lemma frozen_adjust: "frozen_ok st \<Longrightarrow> frozen_ok (adjustOpenSiteForUserTx uid day dir incl st)"
  unfolding adjustOpenSiteForUserTx_def by (intro frozen_update_open frozen_ensure) simp_all

lemma frozen_rebuild:
  assumes "frozen_ok st" "hide \<or> fin = 0"
  shows "frozen_ok (rebuildSiteDayTx day fin hide st)"
  using frozen_ensure [OF assms(1), of day] assms(2)
  by (auto simp: frozen_ok_def rebuildSiteDayTx_def Let_def set_update_where)

lemma frozen_finalize: "frozen_ok st \<Longrightarrow> frozen_ok (finalizeCompletedActivityDaysTx now st)"
proof -
  have "frozen_ok st \<Longrightarrow> frozen_ok (fold (\<lambda>day. rebuildSiteDayTx day now True) ds st)" for ds
    by (induction ds arbitrary: st) (simp_all add: frozen_rebuild)
  then show "frozen_ok st \<Longrightarrow> frozen_ok (finalizeCompletedActivityDaysTx now st)"
    by (simp add: finalizeCompletedActivityDaysTx_def)
qed

lemma frozen_maintain:
  assumes "frozen_ok st"
  shows "frozen_ok (MaintainActivity now st)"
  using frozen_rebuild [OF frozen_finalize [OF assms, of now], of False 0 "utcDay now"]
  by (auto simp: MaintainActivity_def Let_def frozen_ok_def)

lemma site_row_maintain:
  "site_row k (MaintainActivity now st) =
     (if k < utcDay now - (ActivityRetentionDays - 1) * activityDaySeconds then None
      else site_row k (rebuildSiteDayTx (utcDay now) 0 False (finalizeCompletedActivityDaysTx now st)))"
proof -
  have "by_key sa_day k (delete_where (\<lambda>r. sa_day r < c) rows) =
      (if k < c then None else by_key sa_day k rows)" for c and rows :: "site_activity list"
    by (induction rows) auto
  then show ?thesis by (simp add: MaintainActivity_def Let_def)
qed

lemma maintained_day_anonymous:
  assumes "frozen_ok st" "site_row k (MaintainActivity now st) = Some r" "k \<noteq> utcDay now"
    and "\<And>r. r \<in> set (site_activity_daily st) \<Longrightarrow> sa_day r \<le> utcDay now"
  shows "k_anonymous r"
proof -
  have row: "site_row k (finalizeCompletedActivityDaysTx now st) = Some r"
    using assms(2,3) by (simp add: site_row_maintain site_row_rebuild split: if_split_asm)
  show ?thesis
  proof (cases "k \<in> pending_days now st")
    case True with row show ?thesis by (auto simp: finalize_row)
  next
    case False
    then have r: "site_row k st = Some r" using row by (simp add: finalize_row)
    then have "r \<in> set (site_activity_daily st)" "sa_day r = k" by (auto dest: by_key_SomeD)
    then have "sa_finalized_at r \<noteq> 0"
      using False assms(3) assms(4) [of r] by (force simp: pending_days_def)
    then show ?thesis using assms(1) \<open>r \<in> _\<close> by (simp add: frozen_ok_def)
  qed
qed

section \<open>Property\<close>

text \<open>C17: Published statistics are k-anonymous. Whatever range is asked for, every day of the
  report, the current one included, hides each count of people below five and hides request
  totals whose people are hidden, and the summary and activation counts are hidden below five as
  well. The hypotheses are that frozen days were suppressed when they were frozen and that no
  site row is dated after today.\<close>

theorem activity_report_k_anonymous:
  assumes "frozen_ok st" "\<And>r. r \<in> set (site_activity_daily st) \<Longrightarrow> sa_day r \<le> utcDay now"
    and "ActivityStats since until now st = (st', Some stats)"
  shows "(\<forall>v \<in> set (as_by_day stats). k_anonymous v) \<and>
    list_all hidden_or_many [registered_total (as_summary stats), sum_dau (as_summary stats),
      sum_wau (as_summary stats), sum_active_28d (as_summary stats),
      sum_engaged_28d (as_summary stats), attempted_28d (as_summary stats),
      console_28d (as_summary stats), checkin_only_28d (as_summary stats),
      eligible_registrations (as_activation stats), act_configured (as_activation stats),
      first_success_within_7d (as_activation stats)]"
proof -
  let ?view = "day_view since until now (MaintainActivity now st)"
  have view: "k_anonymous (?view day)" for day
    using maintained_day_anonymous [OF assms(1) _ _ assms(2), of day]
    by (auto simp: day_view_def split: option.split)
  from assms(3) have
    days: "as_by_day stats = map ?view (days_between since until)"
    and last: "sum_dau (as_summary stats) = sa_product_active (?view until)"
      "sum_wau (as_summary stats) = sa_wau (?view until)"
      "sum_active_28d (as_summary stats) = sa_active_28d (?view until)"
      "sum_engaged_28d (as_summary stats) = sa_engaged_28d (?view until)"
    and rest: "list_all hidden_or_many [registered_total (as_summary stats),
      attempted_28d (as_summary stats), console_28d (as_summary stats),
      checkin_only_28d (as_summary stats), eligible_registrations (as_activation stats),
      act_configured (as_activation stats), first_success_within_7d (as_activation stats)]"
    unfolding ActivityStats_def Let_def
    by (auto split: option.split_asm)
  show ?thesis
    using view rest by (simp add: days last) (simp add: k_anonymous_def)
qed

definition sample_activity_store :: store where
  "sample_activity_store = empty_store\<lparr>
     user_activity_daily := [(empty_activity 0 1)\<lparr>ua_api_attempts := 3\<rparr>],
     site_activity_daily := [(empty_site_row 0)\<lparr>sa_attempted_api_active := Some 1,
       sa_api_attempts := Some 3\<rparr>],
     settings := [(''internal_activity_launch_at'', ''0'')]\<rparr>"

theorem activity_report_k_anonymous_witness:
  "\<exists>stats. snd (ActivityStats 0 86400 86401 sample_activity_store) = Some stats \<and>
     (\<forall>v \<in> set (as_by_day stats). k_anonymous v)"
proof -
  let ?st = "sample_activity_store"
  have "settings (MaintainActivity 86401 ?st) = settings ?st"
  proof -
    have "settings (rebuildSiteDayTx d f h s) = settings s" for d f h s
      by (simp add: rebuildSiteDayTx_def Let_def ensureOpenSiteDayTx_def)
    then have "settings (fold (\<lambda>d. rebuildSiteDayTx d f True) ds s) = settings s" for f ds s
      by (induction ds arbitrary: s) simp_all
    then show ?thesis
      by (simp add: MaintainActivity_def finalizeCompletedActivityDaysTx_def Let_def
          rebuildSiteDayTx_def ensureOpenSiteDayTx_def)
  qed
  then have "activityLaunchAt (MaintainActivity 86401 ?st) = Some 0"
    by (simp add: activityLaunchAt_def sample_activity_store_def) (code_simp)
  then obtain stats where S: "ActivityStats 0 86400 86401 ?st =
      (MaintainActivity 86401 ?st, Some stats)"
    by (simp add: ActivityStats_def Let_def)
  have "frozen_ok ?st" "\<And>r. r \<in> set (site_activity_daily ?st) \<Longrightarrow> sa_day r \<le> utcDay 86401"
    by (auto simp: frozen_ok_def sample_activity_store_def utcDay_def activityDaySeconds_def)
  from activity_report_k_anonymous [OF this S] S show ?thesis by auto
qed

end
