(* ===== verification/Logs.thy ===== *)
theory Logs
  imports Activity Diagnostic
begin

text \<open>
  Request logs (\<^verbatim>\<open>db/logs.go\<close>), the administrator's alerts (\<^verbatim>\<open>db/alerts.go\<close>) and the parser
  that attributes old alerts to a user (\<^verbatim>\<open>db/legacy_alert_subject.go\<close>).
\<close>

section \<open>Request logs\<close>

text \<open>\<open>RequestLogRetention\<close>, 30 days, in seconds.\<close>

definition request_log_retention :: int where "request_log_retention = 2592000"

definition requestLogCutoff :: "int \<Rightarrow> int" where
  "requestLogCutoff now = now - request_log_retention"

record log_entry =
  le_user_id :: int
  le_model :: string
  le_service :: string
  le_started_at :: int
  le_ended_at :: int
  le_status :: string
  le_error_code :: string
  le_http_status :: int
  le_error_detail :: string
  le_donation_id :: int
  le_credits_consumed :: int
  le_anti_abuse_info :: string

definition log_row :: "int \<Rightarrow> log_entry \<Rightarrow> request_log" where
  "log_row i e = \<lparr>l_id = i, l_user_id = le_user_id e, l_model = le_model e, l_service = le_service e,
     l_started_at = le_started_at e, l_ended_at = le_ended_at e, l_status = le_status e,
     l_error_code = Bound (le_error_code e),
     l_donation_id = (if 0 < le_donation_id e then Some (le_donation_id e) else None),
     l_http_status = le_http_status e, l_error_detail = Bound (le_error_detail e),
     l_credits_consumed = le_credits_consumed e, l_anti_abuse_info = le_anti_abuse_info e\<rparr>"

text \<open>One transaction: the row, and the attempt on the day the call started.\<close>

definition addRequestLogFull :: "log_entry \<Rightarrow> store \<Rightarrow> store \<times> int" where
  "addRequestLogFull e st =
    (let i = request_log_seq st + 1;
         st1 = st\<lparr>request_logs := request_logs st @ [log_row i e], request_log_seq := i\<rparr>;
         success = (if le_status e = ''success'' \<and> Bound (le_error_code e) \<noteq> ''debug_dry_run'' then 1 else 0)
     in (recordActivityTx (le_user_id e) (le_started_at e)
           (no_activity\<lparr>ad_attempts := 1, ad_success := success\<rparr>) st1, i))"

definition listRequestLogsForUserAt :: "int \<Rightarrow> int \<Rightarrow> int \<Rightarrow> store \<Rightarrow> request_log list" where
  "listRequestLogsForUserAt userID limit now st =
     take (nat (if limit \<le> 0 \<or> 500 < limit then 100 else limit)) (sort_key (\<lambda>l. - l_started_at l)
       (select_where (\<lambda>l. l_user_id l = userID \<and> requestLogCutoff now \<le> l_started_at l)
         (request_logs st)))"

definition exportRequestLogsAt :: "int \<Rightarrow> int \<Rightarrow> store \<Rightarrow> request_log list" where
  "exportRequestLogsAt userID now st = sort_key (\<lambda>l. - l_started_at l)
     (select_where (\<lambda>l. l_user_id l = userID \<and> requestLogCutoff now \<le> l_started_at l)
       (request_logs st))"

record log_filter =
  lf_user_id :: "int option"
  lf_service :: string
  lf_model :: string
  lf_status :: string
  lf_since :: int
  lf_until :: int

definition clampLogFilterToRetention :: "log_filter \<Rightarrow> int \<Rightarrow> log_filter" where
  "clampLogFilterToRetention f now =
     (if lf_since f < requestLogCutoff now then f\<lparr>lf_since := requestLogCutoff now\<rparr> else f)"

definition logFilterWhereAt :: "log_filter \<Rightarrow> int \<Rightarrow> request_log \<Rightarrow> bool" where
  "logFilterWhereAt f0 now l \<longleftrightarrow>
    (let f = clampLogFilterToRetention f0 now in
     (case lf_user_id f of None \<Rightarrow> True | Some u \<Rightarrow> l_user_id l = u) \<and>
     (lf_service f = [] \<or> l_service l = lf_service f) \<and>
     (lf_model f = [] \<or> l_model l = lf_model f) \<and>
     (lf_status f = [] \<or> l_status l = lf_status f) \<and>
     (\<not> 0 < lf_since f \<or> lf_since f \<le> l_started_at l) \<and>
     (\<not> 0 < lf_until f \<or> l_started_at l \<le> lf_until f))"

text \<open>An admin row is the log row with the user's name from the left join.\<close>

definition admin_log :: "store \<Rightarrow> request_log \<Rightarrow> request_log \<times> string" where
  "admin_log st l = (l, case user_row (l_user_id l) st of None \<Rightarrow> '''' | Some u \<Rightarrow> u_username u)"

definition listRequestLogs ::
  "(request_log \<Rightarrow> bool) \<Rightarrow> int \<Rightarrow> int \<Rightarrow> store \<Rightarrow> (request_log \<times> string) list" where
  "listRequestLogs P limit offset st =
    (let rows = map (admin_log st) (sort_key (\<lambda>l. - l_started_at l) (select_where P (request_logs st)))
     in if 0 < limit then take (nat limit) (drop (nat offset) rows) else rows)"

definition listAllRequestLogsAt ::
  "log_filter \<Rightarrow> int \<Rightarrow> int \<Rightarrow> int \<Rightarrow> store \<Rightarrow> (request_log \<times> string) list \<times> int" where
  "listAllRequestLogsAt f limit offset now st =
    (let P = logFilterWhereAt f now
     in (listRequestLogs P (if limit \<le> 0 then 100 else limit) (if offset < 0 then 0 else offset) st,
         count_where P (request_logs st)))"

definition exportAllRequestLogsAt :: "log_filter \<Rightarrow> int \<Rightarrow> store \<Rightarrow> (request_log \<times> string) list" where
  "exportAllRequestLogsAt f now st = listRequestLogs (logFilterWhereAt f now) 0 0 st"

record hour_stat =
  hs_hour_unix :: int
  hs_total :: int
  hs_success :: int
  hs_error :: int

definition hour_of :: "int \<Rightarrow> int" where "hour_of t = t div 3600 * 3600"

definition logStatsByHourAt :: "log_filter \<Rightarrow> int \<Rightarrow> store \<Rightarrow> hour_stat list" where
  "logStatsByHourAt f now st =
    (let rows = select_where (logFilterWhereAt f now) (request_logs st);
         group = (\<lambda>h. select_where (\<lambda>l. hour_of (l_started_at l) = h) rows)
     in map (\<lambda>h. \<lparr>hs_hour_unix = h, hs_total = int (length (group h)),
               hs_success = count_where (\<lambda>l. l_status l = ''success'') (group h),
               hs_error = count_where (\<lambda>l. l_status l = ''error'') (group h)\<rparr>)
          (sort (remdups (map (\<lambda>l. hour_of (l_started_at l)) rows))))"

definition alerts_of_logs :: "(request_log \<Rightarrow> bool) \<Rightarrow> store \<Rightarrow> admin_alert \<Rightarrow> bool" where
  "alerts_of_logs P st a \<longleftrightarrow> (case a_request_log_id a of None \<Rightarrow> False
     | Some i \<Rightarrow> list_ex (\<lambda>l. P l \<and> l_id l = i) (request_logs st))"

definition PurgeExpiredRequestLogs :: "int \<Rightarrow> store \<Rightarrow> store \<times> int \<times> int" where
  "PurgeExpiredRequestLogs now st =
    (let P = (\<lambda>l. l_started_at l < now - request_log_retention)
     in (st\<lparr>admin_alerts := delete_where (alerts_of_logs P st) (admin_alerts st),
            request_logs := delete_where P (request_logs st)\<rparr>,
         count_where P (request_logs st), count_where (alerts_of_logs P st) (admin_alerts st)))"

section \<open>Alerts\<close>

definition pref_row :: "string \<Rightarrow> store \<Rightarrow> alert_pref option" where
  "pref_row t st = by_key pr_event_type t (alert_prefs st)"

definition IsAlertShownInCenter :: "string \<Rightarrow> store \<Rightarrow> bool" where
  "IsAlertShownInCenter t st = (case pref_row t st of None \<Rightarrow> True | Some p \<Rightarrow> pr_show_in_center p)"

definition IsAlertEmailEnabled :: "string \<Rightarrow> store \<Rightarrow> bool" where
  "IsAlertEmailEnabled t st = (case pref_row t st of None \<Rightarrow> True | Some p \<Rightarrow> pr_email_enabled p)"

record alert_request =
  ar_type :: string
  ar_message :: string
  ar_request_log_id :: "int option"
  ar_donation_id :: "int option"
  ar_subject_user_id :: "int option"

definition alert_row :: "int \<Rightarrow> int \<Rightarrow> alert_request \<Rightarrow> admin_alert" where
  "alert_row i now a = \<lparr>a_id = i, a_type = ar_type a, a_message = Bound (ar_message a),
     a_request_log_id = ar_request_log_id a, a_donation_id = ar_donation_id a,
     a_subject_user_id = ar_subject_user_id a, a_created_at = now\<rparr>"

definition AddAdminAlert :: "alert_request \<Rightarrow> int \<Rightarrow> store \<Rightarrow> store" where
  "AddAdminAlert a now st =
    (let i = admin_alert_seq st + 1;
         st1 = st\<lparr>admin_alerts := admin_alerts st @ [alert_row i now a], admin_alert_seq := i\<rparr>
     in if \<not> IsAlertShownInCenter (ar_type a) st then st
        else case ar_subject_user_id a of
          Some u \<Rightarrow> if user_row u st = None then st else st1
        | None \<Rightarrow> st1)"

definition EnsureAlertPrefs :: "string list \<Rightarrow> int \<Rightarrow> store \<Rightarrow> store" where
  "EnsureAlertPrefs types now st = fold (\<lambda>t st. if pref_row t st = None
     then st\<lparr>alert_prefs := alert_prefs st @ [\<lparr>pr_event_type = t, pr_show_in_center = True,
            pr_email_enabled = True, pr_updated_at = now\<rparr>]\<rparr> else st) types st"

definition SetAlertPref :: "string \<Rightarrow> bool \<Rightarrow> bool \<Rightarrow> int \<Rightarrow> store \<Rightarrow> store \<times> bool" where
  "SetAlertPref t show_in email now st =
    (if pref_row t st = None then (st, False)
     else (st\<lparr>alert_prefs := update_where (\<lambda>p. pr_event_type p = t)
              (\<lambda>p. p\<lparr>pr_show_in_center := show_in, pr_email_enabled := email, pr_updated_at := now\<rparr>)
              (alert_prefs st)\<rparr>, True))"

text \<open>A batch of partial updates in one transaction; an unknown type rolls all of it back.\<close>

fun set_prefs_loop :: "int \<Rightarrow> (string \<times> bool option \<times> bool option) list \<Rightarrow> store \<Rightarrow> store option" where
  "set_prefs_loop now [] st = Some st"
| "set_prefs_loop now ((t, shown, email) # rest) st =
    (if pref_row t st = None then None
     else set_prefs_loop now rest (st\<lparr>alert_prefs := update_where (\<lambda>p. pr_event_type p = t)
       (\<lambda>p. p\<lparr>pr_show_in_center := (case shown of None \<Rightarrow> pr_show_in_center p | Some b \<Rightarrow> b),
              pr_email_enabled := (case email of None \<Rightarrow> pr_email_enabled p | Some b \<Rightarrow> b),
              pr_updated_at := now\<rparr>) (alert_prefs st)\<rparr>))"

definition SetAlertPrefs ::
  "(string \<times> bool option \<times> bool option) list \<Rightarrow> int \<Rightarrow> store \<Rightarrow> store \<times> bool" where
  "SetAlertPrefs updates now st = (case set_prefs_loop now updates st of
     None \<Rightarrow> (st, False) | Some st1 \<Rightarrow> (st1, True))"

definition ListAdminAlerts :: "int \<Rightarrow> int \<Rightarrow> store \<Rightarrow> (admin_alert \<times> int option) list \<times> int" where
  "ListAdminAlerts limit offset st =
    (let owner = (\<lambda>a. case a_request_log_id a of None \<Rightarrow> None
           | Some i \<Rightarrow> map_option l_user_id (by_key l_id i (request_logs st)))
     in (take (nat (if limit \<le> 0 then 100 else limit)) (drop (nat (if offset < 0 then 0 else offset))
           (map (\<lambda>a. (a, owner a)) (sort_key (\<lambda>a. - a_created_at a) (admin_alerts st)))),
         int (length (admin_alerts st))))"

definition DeleteAdminAlerts :: "int list \<Rightarrow> store \<Rightarrow> store \<times> int" where
  "DeleteAdminAlerts ids st =
    (st\<lparr>admin_alerts := delete_where (\<lambda>a. a_id a \<in> set ids) (admin_alerts st)\<rparr>,
     count_where (\<lambda>a. a_id a \<in> set ids) (admin_alerts st))"

section \<open>The subject of an old alert\<close>

text \<open>The two separators and the marker, in UTF-8.\<close>

definition banned_separator :: string where
  "banned_separator = [CHR 0xEF, CHR 0xBC, CHR 0x89, CHR 0xE5, CHR 0x9B, CHR 0xA0, CHR '' '']"

definition abuse_separator :: string where
  "abuse_separator = [CHR 0xEF, CHR 0xBC, CHR 0x89, CHR 0xE5, CHR 0x9C, CHR 0xA8, CHR '' '']"

definition id_marker :: string where
  "id_marker = [CHR 0xEF, CHR 0xBC, CHR 0x88, CHR ''I'', CHR ''D'', CHR 0xEF, CHR 0xBC, CHR 0x9A]"

definition subject_separator :: "string \<Rightarrow> string option" where
  "subject_separator alertType = (if alertType = ''user_auto_banned'' then Some banned_separator
     else if alertType = ''debug_abuse'' then Some abuse_separator else None)"

definition legacyAlertSubjectID :: "string \<Rightarrow> string \<Rightarrow> int option" where
  "legacyAlertSubjectID alertType message =
    (case subject_separator alertType of None \<Rightarrow> None | Some separator \<Rightarrow>
     case last_index separator message of None \<Rightarrow> None | Some separatorAt \<Rightarrow>
     let front = take separatorAt message in
     case last_index id_marker front of None \<Rightarrow> None | Some markerAt \<Rightarrow>
     let token = drop (markerAt + length id_marker) front
     in if token = [] \<or> \<not> list_all is_digit token then None
        else let v = dec_value token
          in if 2 ^ 63 \<le> v \<or> v = 0 then None else Some (int v))"

lemma digits_not_EF: "list_all is_digit s \<Longrightarrow> CHR 0xEF \<notin> set s"
  by (auto simp: list_all_iff is_digit_def)

lemma marker_at: "list_all is_digit t \<Longrightarrow> last_index id_marker (s @ id_marker @ t) = Some (length s)"
proof -
  assume "list_all is_digit t"
  then have "CHR 0xEF \<notin> set t" by (rule digits_not_EF)
  then have "last_index id_marker (CHR 0x9A # t) = None"
    unfolding id_marker_def by (intro last_index_absent) simp
  then have "last_index id_marker (tl (id_marker @ t)) = None"
    by (simp add: id_marker_def)
  then show ?thesis by (intro last_index_at) (simp_all add: id_marker_def)
qed

lemma separator_at:
  assumes "subject_separator ty = Some sep" "last_index sep t = None"
  shows "last_index sep (s @ sep @ t) = Some (length s)"
proof -
  have "sep = banned_separator \<or> sep = abuse_separator"
    using assms(1) by (auto simp: subject_separator_def split: if_split_asm)
  then have "last_index sep (tl (sep @ t)) = None"
    using assms(2) by (auto simp: banned_separator_def abuse_separator_def)
  moreover have "sep \<noteq> []"
    using \<open>sep = _ \<or> _\<close> by (auto simp: banned_separator_def abuse_separator_def)
  ultimately show ?thesis by (intro last_index_at)
qed

text \<open>Attribution of old alerts. An alert of one of the two mailer types whose text is a user
  name, the id and a body that does not repeat the separator is attributed to exactly that id,
  whatever the (untrusted) name contains: a name that imitates the id token cannot redirect the
  deletion of alerts to another user.\<close>

theorem legacy_subject_not_forgeable:
  assumes "subject_separator ty = Some sep" "last_index sep body = None" "0 < n" "n < 2 ^ 63"
  shows "legacyAlertSubjectID ty (name @ id_marker @ itoa n @ sep @ body) = Some (int n)"
proof -
  have digits: "list_all is_digit (itoa n)" using itoa_digits [of n] by (simp add: list_all_iff)
  have sep: "last_index sep ((name @ id_marker @ itoa n) @ sep @ body) =
      Some (length (name @ id_marker @ itoa n))"
    by (rule separator_at [OF assms(1,2)])
  have "last_index id_marker (name @ id_marker @ itoa n) = Some (length name)"
    by (rule marker_at [OF digits])
  then show ?thesis
    using assms(1,3,4) sep digits by (simp add: legacyAlertSubjectID_def dec_value_itoa)
qed

theorem legacy_subject_not_forgeable_witness:
  "legacyAlertSubjectID ''debug_abuse''
     ((''eve'' @ id_marker @ ''7'') @ id_marker @ itoa 12 @ abuse_separator @ ''5 minutes'') = Some 12"
proof -
  have "last_index abuse_separator ''5 minutes'' = None"
    by (simp add: abuse_separator_def last_index_absent)
  then show ?thesis
    using legacy_subject_not_forgeable [of "''debug_abuse''" abuse_separator "''5 minutes''" 12
        "''eve'' @ id_marker @ ''7''"] by (simp add: subject_separator_def)
qed

end
