(* ===== verification/Users.thy ===== *)
theory Users
  imports Logs Ledger
begin

text \<open>
  Accounts, \<^verbatim>\<open>db/users.go\<close>: registration, bans, balances, the daily check-in and the deletion of
  an account with everything that refers to it.
\<close>

definition AdminDiscordID :: string where "AdminDiscordID = ''__admin__''"

text \<open>A freshly inserted row, with the column defaults.\<close>

definition new_user :: "int \<Rightarrow> string \<Rightarrow> string \<Rightarrow> string \<Rightarrow> bool \<Rightarrow> int \<Rightarrow> user" where
  "new_user i discordID username avatar admin now = \<lparr>u_id = i, u_discord_id = discordID,
     u_username = username, u_avatar = avatar, u_is_admin = admin, u_disabled = False,
     u_banned_until = 0, u_auto_banned = False, u_ban_reason = '''', u_credits = 0,
     u_last_checkin_day = '''', u_rpm_limit_a = None, u_rpm_limit_b = None, u_rpm_limit_c = None,
     u_donation_credit = 0, u_charity_enabled = False, u_lang = '''', u_created_at = now,
     u_updated_at = now, u_level = None, u_leaderboard_anon = False\<rparr>"

definition IsBanned :: "int \<Rightarrow> user \<Rightarrow> bool" where
  "IsBanned now u \<longleftrightarrow> u_disabled u \<or> (0 < u_banned_until u \<and> now < u_banned_until u)"

definition GetUserByID :: "int \<Rightarrow> store \<Rightarrow> user option" where
  "GetUserByID i st = by_key u_id i (users st)"

definition GetUserByDiscordID :: "string \<Rightarrow> store \<Rightarrow> user option" where
  "GetUserByDiscordID d st = by_key u_discord_id d (users st)"

definition insert_user :: "user \<Rightarrow> store \<Rightarrow> store" where
  "insert_user u st = st\<lparr>users := users st @ [u], user_seq := u_id u\<rparr>"

definition CreateUser :: "string \<Rightarrow> string \<Rightarrow> string \<Rightarrow> int \<Rightarrow> store \<Rightarrow> store \<times> user option" where
  "CreateUser discordID username avatar now st =
    (if GetUserByDiscordID discordID st \<noteq> None then (st, None)
     else let i = user_seq st + 1;
              st1 = recordNewUserTx now
                (insert_user (new_user i discordID username avatar False now) st)
          in (st1, GetUserByID i st1))"

definition update_user :: "int \<Rightarrow> (user \<Rightarrow> user) \<Rightarrow> store \<Rightarrow> store" where
  "update_user i f st = st\<lparr>users := update_where (\<lambda>u. u_id u = i) f (users st)\<rparr>"

definition EnsureAdminUser :: "string \<Rightarrow> int \<Rightarrow> store \<Rightarrow> store \<times> user option" where
  "EnsureAdminUser username now st =
    (case GetUserByDiscordID AdminDiscordID st of
       None \<Rightarrow>
        let i = user_seq st + 1;
            st1 = insert_user (new_user i AdminDiscordID username '''' True now) st
        in (st1, GetUserByID i st1)
     | Some u \<Rightarrow>
        if u_username u \<noteq> username \<or> \<not> u_is_admin u
        then (update_user (u_id u)
                (\<lambda>x. x\<lparr>u_username := username, u_is_admin := True, u_updated_at := now\<rparr>) st,
              Some (u\<lparr>u_username := username, u_is_admin := True\<rparr>))
        else (st, Some u))"

section \<open>Bans\<close>

text \<open>Updates with \<open>AND is_admin=0\<close>.\<close>

definition update_member :: "int \<Rightarrow> (user \<Rightarrow> user) \<Rightarrow> store \<Rightarrow> store" where
  "update_member i f st = st\<lparr>users := update_where (\<lambda>u. u_id u = i \<and> \<not> u_is_admin u) f (users st)\<rparr>"

definition BanUser :: "int \<Rightarrow> int \<Rightarrow> string \<Rightarrow> int \<Rightarrow> store \<Rightarrow> store" where
  "BanUser i until reason now = update_member i
     (\<lambda>u. u\<lparr>u_banned_until := until, u_ban_reason := reason, u_updated_at := now\<rparr>)"

text \<open>\<open>reason\<close> is the fixed text of the statement.\<close>

definition AutoBanUser :: "string \<Rightarrow> int \<Rightarrow> int \<Rightarrow> int \<Rightarrow> store \<Rightarrow> store" where
  "AutoBanUser reason i until now = update_member i
     (\<lambda>u. u\<lparr>u_banned_until := until, u_auto_banned := True, u_ban_reason := reason,
            u_updated_at := now\<rparr>)"

definition unban :: "int \<Rightarrow> user \<Rightarrow> user" where
  "unban now u = u\<lparr>u_banned_until := 0, u_disabled := False, u_auto_banned := False,
     u_ban_reason := '''', u_updated_at := now\<rparr>"

definition unbanUserAt :: "int \<Rightarrow> int \<Rightarrow> store \<Rightarrow> store" where
  "unbanUserAt i now st =
    (case query_row (\<lambda>u. u_id u = i \<and> \<not> u_is_admin u) (users st) of
       None \<Rightarrow> st
     | Some u \<Rightarrow>
        let st1 = (if u_disabled u then finalizeCompletedActivityDaysTx now st else st);
            st2 = update_member i (unban now) st1;
            day = utcDay now
        in if u_disabled u
           then adjustOpenSiteForUserTx i day 1 (utcDay (u_created_at u) = day) st2
           else st2)"

definition set_disabled :: "bool \<Rightarrow> string \<Rightarrow> int \<Rightarrow> user \<Rightarrow> user" where
  "set_disabled disabled reason now u = u\<lparr>u_disabled := disabled, u_ban_reason := reason,
     u_updated_at := now\<rparr>"

definition setUserDisabledAt :: "int \<Rightarrow> bool \<Rightarrow> string \<Rightarrow> int \<Rightarrow> store \<Rightarrow> store" where
  "setUserDisabledAt i disabled reason now st =
    (case user_row i st of
       None \<Rightarrow> st
     | Some u \<Rightarrow>
        let changes = (\<not> u_is_admin u \<and> u_disabled u \<noteq> disabled);
            st1 = (if changes then finalizeCompletedActivityDaysTx now st else st);
            st2 = update_user i (set_disabled disabled reason now) st1;
            day = utcDay now
        in if changes
           then adjustOpenSiteForUserTx i day (if disabled then -1 else 1)
                  (utcDay (u_created_at u) = day) st2
           else st2)"

section \<open>Balances, settings of a user, lists\<close>

definition SetUserLang :: "int \<Rightarrow> string \<Rightarrow> int \<Rightarrow> store \<Rightarrow> store" where
  "SetUserLang i lang now = update_user i (\<lambda>u. u\<lparr>u_lang := lang, u_updated_at := now\<rparr>)"

definition ListUsers :: "store \<Rightarrow> user list" where
  "ListUsers st = sort_key (\<lambda>u. - u_created_at u) (select_where (\<lambda>u. \<not> u_is_admin u) (users st))"

definition SetUserCredits :: "int \<Rightarrow> int \<Rightarrow> int \<Rightarrow> store \<Rightarrow> store" where
  "SetUserCredits i credits now = update_user i (\<lambda>u. u\<lparr>u_credits := credits, u_updated_at := now\<rparr>)"

definition AdjustUserCredits :: "int \<Rightarrow> int \<Rightarrow> int \<Rightarrow> store \<Rightarrow> store \<times> int option" where
  "AdjustUserCredits i delta now st =
    (if count_where (\<lambda>u. u_id u = i) (users st) = 0 then (st, None)
     else let st1 = update_user i (add_credits delta now) st
          in (st1, map_option u_credits (user_row i st1)))"

definition SetUserDonationCredit :: "int \<Rightarrow> int \<Rightarrow> int \<Rightarrow> store \<Rightarrow> store" where
  "SetUserDonationCredit i v now =
     update_user i (\<lambda>u. u\<lparr>u_donation_credit := v, u_updated_at := now\<rparr>)"

definition AdjustUserDonationCredit :: "int \<Rightarrow> int \<Rightarrow> int \<Rightarrow> store \<Rightarrow> store \<times> int option" where
  "AdjustUserDonationCredit i delta now st =
    (if count_where (\<lambda>u. u_id u = i) (users st) = 0 then (st, None)
     else let st1 = update_user i (\<lambda>u. u\<lparr>u_donation_credit := u_donation_credit u + delta,
                 u_updated_at := now\<rparr>) st
          in (st1, map_option u_donation_credit (user_row i st1)))"

definition SetUserRPMLimits ::
  "int \<Rightarrow> int option \<Rightarrow> int option \<Rightarrow> int option \<Rightarrow> int \<Rightarrow> store \<Rightarrow> store" where
  "SetUserRPMLimits i a b c now = update_member i
     (\<lambda>u. u\<lparr>u_rpm_limit_a := a, u_rpm_limit_b := b, u_rpm_limit_c := c, u_updated_at := now\<rparr>)"

definition SetUserLevel :: "int \<Rightarrow> int option \<Rightarrow> int \<Rightarrow> store \<Rightarrow> store" where
  "SetUserLevel i level now = update_member i (\<lambda>u. u\<lparr>u_level := level, u_updated_at := now\<rparr>)"

definition UpdateUserProfile :: "int \<Rightarrow> string \<Rightarrow> string \<Rightarrow> int \<Rightarrow> store \<Rightarrow> store" where
  "UpdateUserProfile i username avatar now =
     update_user i (\<lambda>u. u\<lparr>u_username := username, u_avatar := avatar, u_updated_at := now\<rparr>)"

definition SetUserCharityEnabled :: "int \<Rightarrow> bool \<Rightarrow> int \<Rightarrow> store \<Rightarrow> store" where
  "SetUserCharityEnabled i b now = update_user i (\<lambda>u. u\<lparr>u_charity_enabled := b, u_updated_at := now\<rparr>)"

datatype balance_field = BalanceCredits | BalanceDonationCredit
datatype balance_action = BalanceSet | BalanceAdd | BalanceSub
datatype balance_error = UnsupportedField string | UnsupportedAction string | NegativeAmount

definition parse_field :: "string \<Rightarrow> balance_field option" where
  "parse_field f = (if f = ''credits'' then Some BalanceCredits
     else if f = ''donation_credit'' then Some BalanceDonationCredit else None)"

definition parse_action :: "string \<Rightarrow> balance_action option" where
  "parse_action a = (if a = ''set'' then Some BalanceSet else if a = ''add'' then Some BalanceAdd
     else if a = ''sub'' then Some BalanceSub else None)"

definition new_balance :: "balance_action \<Rightarrow> int \<Rightarrow> int \<Rightarrow> int" where
  "new_balance action amount old = (case action of BalanceSet \<Rightarrow> amount
     | BalanceAdd \<Rightarrow> old + amount | BalanceSub \<Rightarrow> old - amount)"

definition edit_balance :: "balance_field \<Rightarrow> balance_action \<Rightarrow> int \<Rightarrow> int \<Rightarrow> user \<Rightarrow> user" where
  "edit_balance field action amount now u = (case field of
     BalanceCredits \<Rightarrow> u\<lparr>u_credits := new_balance action amount (u_credits u), u_updated_at := now\<rparr>
   | BalanceDonationCredit \<Rightarrow>
       u\<lparr>u_donation_credit := new_balance action amount (u_donation_credit u), u_updated_at := now\<rparr>)"

fun balance_loop :: "(user \<Rightarrow> user) \<Rightarrow> int list \<Rightarrow> int \<Rightarrow> store \<Rightarrow> store \<times> int" where
  "balance_loop f [] updated st = (st, updated)"
| "balance_loop f (i # ids) updated st =
    (case user_row i st of
       None \<Rightarrow> balance_loop f ids updated st
     | Some u \<Rightarrow> if u_is_admin u then balance_loop f ids updated st
        else balance_loop f ids
          (if 0 < count_where (\<lambda>u. u_id u = i \<and> \<not> u_is_admin u) (users st) then updated + 1 else updated)
          (update_member i f st))"

definition BatchUpdateUserBalance ::
  "int list \<Rightarrow> string \<Rightarrow> string \<Rightarrow> int \<Rightarrow> int \<Rightarrow> store \<Rightarrow> store \<times> (balance_error, int) result" where
  "BatchUpdateUserBalance ids field action amount now st =
    (case parse_field field of None \<Rightarrow> (st, Inl (UnsupportedField field)) | Some f \<Rightarrow>
     case parse_action action of None \<Rightarrow> (st, Inl (UnsupportedAction action)) | Some a \<Rightarrow>
     if amount < 0 then (st, Inl NegativeAmount)
     else case balance_loop (edit_balance f a amount now) ids 0 st of (st1, n) \<Rightarrow> (st1, Inr n))"

section \<open>Check-in\<close>

datatype checkin_status = CheckinApplied | CheckinAlready | CheckinCapped

text \<open>\<open>None\<close> is the missing row. The day of the check-in is the caller's (it may be in another time
  zone); the activity is recorded on the UTC day of \<open>now\<close>.\<close>

definition ApplyUserCheckin ::
  "int \<Rightarrow> string \<Rightarrow> int \<Rightarrow> int \<Rightarrow> bool \<Rightarrow> int \<Rightarrow> store \<Rightarrow> store \<times> (checkin_status \<times> int \<times> int) option" where
  "ApplyUserCheckin i day bonus cap bypassCap now st =
    (case user_row i st of None \<Rightarrow> (st, None) | Some u \<Rightarrow>
     if u_last_checkin_day u = day then (st, Some (CheckinAlready, 0, u_credits u))
     else if \<not> bypassCap \<and> cap \<le> u_credits u then (st, Some (CheckinCapped, 0, u_credits u))
     else
       let newCredits = u_credits u + bonus
       in (recordActivityTx i now (no_activity\<lparr>ad_checkins := 1\<rparr>)
             (update_user i (\<lambda>x. x\<lparr>u_last_checkin_day := day, u_credits := newCredits,
                u_updated_at := now\<rparr>) st),
           Some (CheckinApplied, bonus, newCredits)))"

section \<open>Deleting an account\<close>

datatype delete_user_error = UserNotFound int | AdministratorKept | CallsInFlight int

definition subject_alert :: "int \<Rightarrow> store \<Rightarrow> admin_alert \<Rightarrow> bool" where
  "subject_alert i st a \<longleftrightarrow> a_subject_user_id a = None \<and>
     a_id a \<in> set (map a_id (select_where (\<lambda>b. a_subject_user_id b = None \<and>
       (a_type b = ''user_auto_banned'' \<or> a_type b = ''debug_abuse'') \<and>
       legacyAlertSubjectID (a_type b) (a_message b) = Some i) (admin_alerts st)))"

definition delete_alerts :: "int \<Rightarrow> store \<Rightarrow> store" where
  "delete_alerts i st =
    (let st1 = st\<lparr>admin_alerts := delete_where (\<lambda>a. a_subject_user_id a = Some i) (admin_alerts st)\<rparr>
     in st1\<lparr>admin_alerts := delete_where (subject_alert i st1) (admin_alerts st1)\<rparr>)"

definition anonymize_reservation :: "int \<Rightarrow> reservation \<Rightarrow> reservation" where
  "anonymize_reservation i r = r\<lparr>r_user_id := (if r_user_id r = i then 0 else r_user_id r),
     r_donor_user_id := (if r_donor_user_id r = Some i then None else r_donor_user_id r)\<rparr>"

text \<open>Settled reservations between the user and nobody else go; in the others the user is replaced by
  0 (consumer) or null (donor).\<close>

definition forget_reservations :: "int \<Rightarrow> store \<Rightarrow> store" where
  "forget_reservations i st =
    (let rs1 = delete_where (\<lambda>r. r_user_id r = i \<and> (r_donor_user_id r = None \<or> r_donor_user_id r = Some i)
                 \<or> r_donor_user_id r = Some i \<and> r_user_id r = 0) (charity_reservations st);
         rs2 = update_where (\<lambda>r. r_user_id r = i) (\<lambda>r. r\<lparr>r_user_id := 0\<rparr>) rs1;
         rs3 = update_where (\<lambda>r. r_donor_user_id r = Some i) (\<lambda>r. r\<lparr>r_donor_user_id := None\<rparr>) rs2
     in st\<lparr>charity_reservations := rs3\<rparr>)"

definition forget_review :: "int \<Rightarrow> store \<Rightarrow> store" where
  "forget_review i st =
    (let st1 = st\<lparr>admin_alerts := delete_where (alerts_of_logs (\<lambda>l. l_user_id l = i) st) (admin_alerts st)\<rparr>
     in st1\<lparr>donation_applications := update_where (\<lambda>a. ap_reviewer_id a = Some i)
          (\<lambda>a. a\<lparr>ap_reviewer_id := None\<rparr>) (donation_applications st1)\<rparr>)"

definition delete_owned :: "int \<Rightarrow> store \<Rightarrow> store" where
  "delete_owned i st = st\<lparr>
     sessions := delete_where (\<lambda>x. s_user_id x = i) (sessions st),
     app_configs := delete_where (\<lambda>x. c_user_id x = i) (app_configs st),
     caller_keys := delete_where (\<lambda>x. k_user_id x = i) (caller_keys st),
     request_logs := delete_where (\<lambda>x. l_user_id x = i) (request_logs st),
     user_activity_daily := delete_where (\<lambda>x. ua_user_id x = i) (user_activity_daily st),
     donation_applications := delete_where (\<lambda>x. ap_user_id x = i) (donation_applications st),
     game_rounds := delete_where (\<lambda>x. g_user_id x = i) (game_rounds st),
     game_bests := delete_where (\<lambda>x. b_user_id x = i) (game_bests st),
     service_generations := delete_where (\<lambda>x. sg_user_id x = i) (service_generations st),
     donations := update_where (\<lambda>d. d_source_user_id d = Some i)
       (\<lambda>d. d\<lparr>d_source_user_id := None, d_source_discord_id := '''', d_source_username := ''''\<rparr>)
       (donations st)\<rparr>"

text \<open>The statements before the in-flight check, and those after it up to the user row itself.\<close>

definition before_erasure :: "int \<Rightarrow> int \<Rightarrow> store \<Rightarrow> store" where
  "before_erasure i now st = finalizeCompletedActivityDaysTx now (delete_alerts i st)"

definition erase_user :: "int \<Rightarrow> int \<Rightarrow> user \<Rightarrow> store \<Rightarrow> store" where
  "erase_user i now u st1 =
    (let st2 = forget_review i (forget_reservations i st1);
         day = utcDay now
     in delete_owned i (if u_disabled u then st2
          else adjustOpenSiteForUserTx i day (-1) (utcDay (u_created_at u) = day) st2))"

definition deleteUserAt :: "int \<Rightarrow> int \<Rightarrow> store \<Rightarrow> store \<times> (delete_user_error, unit) result" where
  "deleteUserAt i now st =
    (case user_row i st of None \<Rightarrow> (st, Inl (UserNotFound i)) | Some u \<Rightarrow>
     if u_is_admin u then (st, Inl AdministratorKept)
     else
       let st1 = before_erasure i now st;
           active = count_where (\<lambda>r. (r_user_id r = i \<or> r_donor_user_id r = Some i) \<and>
             (r_status r = ReservationReserved \<or> r_status r = ReservationDispatched))
             (charity_reservations st1);
           st2 = erase_user i now u st1;
           P = (\<lambda>x. u_id x = i \<and> \<not> u_is_admin x)
       in if 0 < active then (st, Inl (CallsInFlight active))
          else if count_where P (users st2) \<noteq> 1 then (st, Inl (UserNotFound i))
          else (st2\<lparr>users := delete_where P (users st2)\<rparr>, Inr ()))"

section \<open>Frames\<close>

text \<open>The activity statements touch only their own tables.\<close>

lemma ensure_only: "ensureOpenSiteDayTx day st =
    st\<lparr>site_activity_daily := site_activity_daily (ensureOpenSiteDayTx day st)\<rparr>"
  by (simp add: ensureOpenSiteDayTx_def)

lemma update_open_only: "update_open_day day f st =
    st\<lparr>site_activity_daily := site_activity_daily (update_open_day day f st)\<rparr>"
  by (simp add: update_open_day_def)

lemma adjust_only: "adjustOpenSiteForUserTx i day dir incl st =
    st\<lparr>site_activity_daily := site_activity_daily (adjustOpenSiteForUserTx i day dir incl st)\<rparr>"
  by (simp add: adjustOpenSiteForUserTx_def update_open_day_def ensureOpenSiteDayTx_def)

lemma new_user_only: "recordNewUserTx at st =
    st\<lparr>site_activity_daily := site_activity_daily (recordNewUserTx at st)\<rparr>"
  by (simp add: recordNewUserTx_def update_open_day_def ensureOpenSiteDayTx_def)

lemma rebuild_only: "rebuildSiteDayTx day fin hide st =
    st\<lparr>site_activity_daily := site_activity_daily (rebuildSiteDayTx day fin hide st)\<rparr>"
  by (simp add: rebuildSiteDayTx_def Let_def ensureOpenSiteDayTx_def)

lemma site_only_trans:
  assumes "x = y\<lparr>site_activity_daily := site_activity_daily x\<rparr>"
    "y = st\<lparr>site_activity_daily := site_activity_daily y\<rparr>"
  shows "x = st\<lparr>site_activity_daily := site_activity_daily (x :: store)\<rparr>"
proof -
  have "y\<lparr>site_activity_daily := site_activity_daily x\<rparr> =
      (st\<lparr>site_activity_daily := site_activity_daily y\<rparr>)\<lparr>site_activity_daily := site_activity_daily x\<rparr>"
    by (rule arg_cong [OF assms(2)])
  then show ?thesis by (rule trans [OF assms(1), THEN trans]) simp
qed

lemma finalize_only: "finalizeCompletedActivityDaysTx now st =
    st\<lparr>site_activity_daily := site_activity_daily (finalizeCompletedActivityDaysTx now st)\<rparr>"
proof -
  have "fold (\<lambda>day. rebuildSiteDayTx day now True) ds st = st\<lparr>site_activity_daily :=
      site_activity_daily (fold (\<lambda>day. rebuildSiteDayTx day now True) ds st)\<rparr>" for ds
  proof (induction ds arbitrary: st)
    case (Cons d ds)
    show ?case
      using site_only_trans [OF Cons.IH [of "rebuildSiteDayTx d now True st"] rebuild_only] by simp
  qed simp
  then show ?thesis by (simp add: finalizeCompletedActivityDaysTx_def)
qed

section \<open>Deletion\<close>

text \<open>No row mentions the user any more.\<close>

definition forgotten :: "int \<Rightarrow> store \<Rightarrow> bool" where
  "forgotten i st \<longleftrightarrow>
     i \<notin> u_id ` set (users st) \<and> i \<notin> s_user_id ` set (sessions st) \<and>
     i \<notin> c_user_id ` set (app_configs st) \<and> i \<notin> k_user_id ` set (caller_keys st) \<and>
     i \<notin> l_user_id ` set (request_logs st) \<and> i \<notin> ua_user_id ` set (user_activity_daily st) \<and>
     i \<notin> g_user_id ` set (game_rounds st) \<and> i \<notin> b_user_id ` set (game_bests st) \<and>
     i \<notin> sg_user_id ` set (service_generations st) \<and>
     i \<notin> ap_user_id ` set (donation_applications st) \<and>
     Some i \<notin> ap_reviewer_id ` set (donation_applications st) \<and>
     Some i \<notin> d_source_user_id ` set (donations st) \<and>
     i \<notin> r_user_id ` set (charity_reservations st) \<and>
     Some i \<notin> r_donor_user_id ` set (charity_reservations st) \<and>
     Some i \<notin> a_subject_user_id ` set (admin_alerts st) \<and>
     (\<forall>a \<in> set (admin_alerts st). a_subject_user_id a = None \<and>
        (a_type a = ''user_auto_banned'' \<or> a_type a = ''debug_abuse'') \<longrightarrow>
        legacyAlertSubjectID (a_type a) (a_message a) \<noteq> Some i)"

lemma delete_where_update_disjoint:
  "(\<And>r. \<not> P (f r)) \<Longrightarrow> r \<in> set (update_where P f rows) \<Longrightarrow> \<not> P r"
  by (auto simp: set_update_where split: if_split_asm)

lemma delete_alerts_gone:
  assumes "a \<in> set (admin_alerts (delete_alerts i st))"
  shows "a_subject_user_id a \<noteq> Some i \<and> (a_subject_user_id a = None \<and>
     (a_type a = ''user_auto_banned'' \<or> a_type a = ''debug_abuse'') \<longrightarrow>
     legacyAlertSubjectID (a_type a) (a_message a) \<noteq> Some i)"
  using assms by (auto simp: delete_alerts_def Let_def subject_alert_def select_where_def)

lemma forget_reservations_gone:
  assumes "i \<noteq> 0" "r \<in> set (charity_reservations (forget_reservations i st))"
  shows "r_user_id r \<noteq> i \<and> r_donor_user_id r \<noteq> Some i"
  using assms by (auto simp: forget_reservations_def Let_def set_update_where split: if_split_asm)

text \<open>The state the last statement starts from, as one edit of the store.\<close>

definition erased :: "int \<Rightarrow> int \<Rightarrow> user \<Rightarrow> store \<Rightarrow> store" where
  "erased i now u st = erase_user i now u (before_erasure i now st)"

lemmas erased_defs = erased_def erase_user_def before_erasure_def

lemma alerts_of_logs_frame [simp]:
  "alerts_of_logs P (st\<lparr>charity_reservations := x1\<rparr>) = alerts_of_logs P st"
  "alerts_of_logs P (st\<lparr>site_activity_daily := x2\<rparr>) = alerts_of_logs P st"
  "alerts_of_logs P (st\<lparr>admin_alerts := x3\<rparr>) = alerts_of_logs P st"
  by (simp_all add: alerts_of_logs_def fun_eq_iff split: option.split)

lemma erased_only: "\<exists>X. erased i now u st = delete_owned i
    ((forget_review i (forget_reservations i (delete_alerts i st)))\<lparr>site_activity_daily := X\<rparr>)"
proof -
  let ?st0 = "delete_alerts i st"
  have move: "forget_review i (forget_reservations i (s\<lparr>site_activity_daily := A\<rparr>)) =
      (forget_review i (forget_reservations i s))\<lparr>site_activity_daily := A\<rparr>" for s A
    by (simp add: forget_review_def forget_reservations_def Let_def)
  obtain A where A: "finalizeCompletedActivityDaysTx now ?st0 = ?st0\<lparr>site_activity_daily := A\<rparr>"
    using finalize_only by blast
  let ?st2 = "(forget_review i (forget_reservations i ?st0))\<lparr>site_activity_daily := A\<rparr>"
  obtain B where B: "adjustOpenSiteForUserTx i (utcDay now) (-1)
      (utcDay (u_created_at u) = utcDay now) ?st2 = ?st2\<lparr>site_activity_daily := B\<rparr>"
    using adjust_only by blast
  show ?thesis
  proof (cases "u_disabled u")
    case True
    then have "erased i now u st = delete_owned i ?st2" by (simp add: erased_defs Let_def A move)
    then show ?thesis by blast
  next
    case False
    then have "erased i now u st = delete_owned i (?st2\<lparr>site_activity_daily := B\<rparr>)"
      unfolding erased_defs Let_def A move B by simp
    then show ?thesis by auto
  qed
qed

lemma erased_fields:
  "users (erased i now u st) = users st" "user_seq (erased i now u st) = user_seq st"
  "donation_seq (erased i now u st) = donation_seq st"
  "application_seq (erased i now u st) = application_seq st"
  "sessions (erased i now u st) = delete_where (\<lambda>x. s_user_id x = i) (sessions st)"
  "app_configs (erased i now u st) = delete_where (\<lambda>x. c_user_id x = i) (app_configs st)"
  "caller_keys (erased i now u st) = delete_where (\<lambda>x. k_user_id x = i) (caller_keys st)"
  "request_logs (erased i now u st) = delete_where (\<lambda>x. l_user_id x = i) (request_logs st)"
  "user_activity_daily (erased i now u st) =
     delete_where (\<lambda>x. ua_user_id x = i) (user_activity_daily st)"
  "game_rounds (erased i now u st) = delete_where (\<lambda>x. g_user_id x = i) (game_rounds st)"
  "game_bests (erased i now u st) = delete_where (\<lambda>x. b_user_id x = i) (game_bests st)"
  "service_generations (erased i now u st) =
     delete_where (\<lambda>x. sg_user_id x = i) (service_generations st)"
  "donation_applications (erased i now u st) = delete_where (\<lambda>x. ap_user_id x = i)
     (update_where (\<lambda>a. ap_reviewer_id a = Some i) (\<lambda>a. a\<lparr>ap_reviewer_id := None\<rparr>)
        (donation_applications st))"
  "donations (erased i now u st) = update_where (\<lambda>d. d_source_user_id d = Some i)
       (\<lambda>d. d\<lparr>d_source_user_id := None, d_source_discord_id := [], d_source_username := []\<rparr>)
       (donations st)"
  "charity_reservations (erased i now u st) = charity_reservations (forget_reservations i st)"
  "admin_alerts (erased i now u st) = delete_where (alerts_of_logs (\<lambda>l. l_user_id l = i) st)
     (admin_alerts (delete_alerts i st))"
proof -
  obtain X where X: "erased i now u st = delete_owned i
    ((forget_review i (forget_reservations i (delete_alerts i st)))\<lparr>site_activity_daily := X\<rparr>)"
    using erased_only by blast
  note defs = X delete_owned_def forget_review_def forget_reservations_def delete_alerts_def Let_def
  show "users (erased i now u st) = users st" "user_seq (erased i now u st) = user_seq st"
    "donation_seq (erased i now u st) = donation_seq st"
    "application_seq (erased i now u st) = application_seq st"
    "sessions (erased i now u st) = delete_where (\<lambda>x. s_user_id x = i) (sessions st)"
    "app_configs (erased i now u st) = delete_where (\<lambda>x. c_user_id x = i) (app_configs st)"
    "caller_keys (erased i now u st) = delete_where (\<lambda>x. k_user_id x = i) (caller_keys st)"
    "request_logs (erased i now u st) = delete_where (\<lambda>x. l_user_id x = i) (request_logs st)"
    "user_activity_daily (erased i now u st) =
       delete_where (\<lambda>x. ua_user_id x = i) (user_activity_daily st)"
    "game_rounds (erased i now u st) = delete_where (\<lambda>x. g_user_id x = i) (game_rounds st)"
    "game_bests (erased i now u st) = delete_where (\<lambda>x. b_user_id x = i) (game_bests st)"
    "service_generations (erased i now u st) =
       delete_where (\<lambda>x. sg_user_id x = i) (service_generations st)"
    by (simp_all add: defs)
  show "donation_applications (erased i now u st) = delete_where (\<lambda>x. ap_user_id x = i)
     (update_where (\<lambda>a. ap_reviewer_id a = Some i) (\<lambda>a. a\<lparr>ap_reviewer_id := None\<rparr>)
        (donation_applications st))" by (simp add: defs)
  show "donations (erased i now u st) = update_where (\<lambda>d. d_source_user_id d = Some i)
       (\<lambda>d. d\<lparr>d_source_user_id := None, d_source_discord_id := [], d_source_username := []\<rparr>)
       (donations st)" by (simp add: defs)
  show "charity_reservations (erased i now u st) = charity_reservations (forget_reservations i st)"
    by (simp add: defs)
  show "admin_alerts (erased i now u st) = delete_where (alerts_of_logs (\<lambda>l. l_user_id l = i) st)
     (admin_alerts (delete_alerts i st))"
    by (simp add: defs)
qed

lemma deleteUserAt_cases:
  assumes "deleteUserAt i now st = (st', res)" "keys_ok st"
  obtains
    (error) e where "st' = st" "res = Inl e"
  | (deleted) u where "user_row i st = Some u" "\<not> u_is_admin u"
      "\<And>r. r \<in> set (charity_reservations st) \<Longrightarrow> unsettled r \<Longrightarrow>
         r_user_id r \<noteq> i \<and> r_donor_user_id r \<noteq> Some i"
      "res = Inr ()"
      "st' = (erased i now u st)\<lparr>users := delete_where (\<lambda>x. u_id x = i) (users st)\<rparr>"
proof (cases "user_row i st")
  case None
  with assms(1) show ?thesis by (intro error [of "UserNotFound i"]) (simp_all add: deleteUserAt_def)
next
  case (Some u)
  let ?active = "count_where (\<lambda>r. (r_user_id r = i \<or> r_donor_user_id r = Some i) \<and>
             (r_status r = ReservationReserved \<or> r_status r = ReservationDispatched))
             (charity_reservations st)"
  let ?P = "\<lambda>x. u_id x = i \<and> \<not> u_is_admin x"
  have rs: "charity_reservations (before_erasure i now st) = charity_reservations st"
    unfolding before_erasure_def by (subst finalize_only) (simp add: delete_alerts_def Let_def)
  have call: "(if u_is_admin u then (st, Inl AdministratorKept)
     else if 0 < ?active then (st, Inl (CallsInFlight ?active))
     else if count_where ?P (users st) \<noteq> 1 then (st, Inl (UserNotFound i))
     else ((erased i now u st)\<lparr>users := delete_where ?P (users st)\<rparr>, Inr ())) = (st', res)"
    using assms(1) unfolding deleteUserAt_def Some option.case Let_def rs erased_def [symmetric] erased_fields(1) .
  show ?thesis
  proof (cases "u_is_admin u \<or> 0 < ?active")
    case True
    then have "st' = st \<and> (\<exists>e. Inl e = res)" using call by (cases "u_is_admin u") auto
    then show ?thesis using error by blast
  next
    case False
    have "0 \<le> ?active" by (rule count_where_nonneg)
    with False have zero: "?active = 0" by linarith
    have only: "x = u" if "x \<in> set (users st)" "u_id x = i" for x
      using by_key_in_set [OF keys_ok_dest(1) [OF assms(2)] that(1)] Some that(2) by simp
    have P: "count_where ?P (users st) = 1"
      using count_where_key [OF keys_ok_dest(1) [OF assms(2)], of i "\<lambda>x. \<not> u_is_admin x"] Some False
      by simp
    have D: "delete_where ?P (users st) = delete_where (\<lambda>x. u_id x = i) (users st)"
      unfolding delete_where_def by (rule filter_cong) (use only False in auto)
    have st': "st' = (erased i now u st)\<lparr>users := delete_where (\<lambda>x. u_id x = i) (users st)\<rparr>" "res = Inr ()"
      using call False P D by simp_all
    have idle: "r_user_id r \<noteq> i \<and> r_donor_user_id r \<noteq> Some i"
      if "r \<in> set (charity_reservations st)" "unsettled r" for r
      using zero that unfolding count_where_0 unsettled_def by blast
    show ?thesis by (rule deleted [OF Some _ idle st'(2,1)]) (use False in simp)
  qed
qed

text \<open>Deleting keeps the ledger well formed: nothing unsettled mentioned the user.\<close>

lemma deleteUserAt_ok:
  assumes "ledger_ok st" "deleteUserAt i now st = (st', res)"
  shows "ledger_ok st'"
  using assms(2) ledger_ok_keys [OF assms(1)]
proof (cases rule: deleteUserAt_cases)
  case (deleted u)
  note k = ledger_ok_keys [OF assms(1)]
  let ?us = "u_id ` set (users st)"
  have us: "u_id ` set (users st') = {x \<in> ?us. x \<noteq> i}"
    by (auto simp: deleted(5))
  have ds: "donations st' = donations (erased i now u st)" by (simp add: deleted(5))
  have dids: "map d_id (donations st') = map d_id (donations st)"
    unfolding ds erased_fields(14) by (rule map_update_where) simp
  then have dset: "d_id ` set (donations st') = d_id ` set (donations st)" by (metis set_map)
  have dok: "donation_ok {x \<in> ?us. x \<noteq> i} d" if d_in: "d \<in> set (donations st')" for d
  proof -
    obtain d0 where "d0 \<in> set (donations st)" "d = (if d_source_user_id d0 = Some i
        then d0\<lparr>d_source_user_id := None, d_source_discord_id := [], d_source_username := []\<rparr> else d0)"
      using d_in unfolding ds erased_fields(14) set_update_where image_iff by blast
    moreover have "donation_ok ?us d0" using assms(1) calculation(1) by (simp add: ledger_ok_def)
    ultimately show ?thesis by (auto simp: donation_ok_def split: option.splits)
  qed
  have rs: "charity_reservations st' = charity_reservations (forget_reservations i st)"
    by (simp add: deleted(5) erased_fields)
  have rok: "reservation_ok (d_id ` set (donations st)) {x \<in> ?us. x \<noteq> i} r"
    if r_in: "r \<in> set (charity_reservations st')" for r
  proof -
    obtain r0 where r0: "r0 \<in> set (charity_reservations st)" "r = anonymize_reservation i r0"
      using r_in unfolding rs forget_reservations_def Let_def
      by (auto simp: set_update_where anonymize_reservation_def)
    have "reservation_ok (d_id ` set (donations st)) ?us r0"
      using assms(1) r0(1) by (simp add: ledger_ok_def)
    moreover have "unsettled r0 \<Longrightarrow> r_user_id r0 \<noteq> i \<and> r_donor_user_id r0 \<noteq> Some i"
      by (rule deleted(3) [OF r0(1)])
    ultimately show ?thesis
      by (auto simp: r0(2) anonymize_reservation_def reservation_ok_def unsettled_def split: option.splits)
  qed
  have "keys_distinct r_id (charity_reservations st')"
    using keys_ok_dest(3) [OF k] by (simp add: rs forget_reservations_def Let_def)
  moreover have "keys_distinct d_id (donations st')"
    using keys_ok_dest(2) [OF k] dids by (simp add: keys_distinct_def)
  moreover have "keys_distinct ap_id (donation_applications st')"
    using keys_ok_dest(4) [OF k] by (simp add: deleted(5) erased_fields)
  moreover have "\<forall>d \<in> set (donations st'). d_id d \<le> donation_seq st'"
    using k dset by (auto simp: deleted(5) erased_fields keys_ok_def set_update_where)
  moreover have "\<forall>a \<in> set (donation_applications st'). ap_id a \<le> application_seq st'"
    using k by (auto simp: deleted(5) erased_fields keys_ok_def set_update_where)
  moreover have "keys_distinct u_id (users st')"
    "\<forall>x \<in> set (users st'). 0 < u_id x \<and> u_id x \<le> user_seq st'"
    using k by (auto simp: deleted(5) erased_fields keys_ok_def)
  ultimately have "keys_ok st'" by (simp add: keys_ok_def)
  then show ?thesis using dok rok by (simp add: ledger_ok_def us dset)
qed (use assms in simp)

lemma deleteUserAt_forgets:
  assumes "ledger_ok st" "deleteUserAt i now st = (st', Inr ())"
  shows "forgotten i st'"
  using assms(2) ledger_ok_keys [OF assms(1)]
proof (cases rule: deleteUserAt_cases)
  case (deleted u)
  have "i \<noteq> 0"
    using by_key_SomeD [OF deleted(1)] assms(1) by (auto simp: ledger_ok_def keys_ok_def)
  then have r: "r_user_id r \<noteq> i \<and> r_donor_user_id r \<noteq> Some i"
    if "r \<in> set (charity_reservations st')" for r
    using forget_reservations_gone that by (simp add: deleted(5) erased_fields)
  have a: "a_subject_user_id a \<noteq> Some i \<and> (a_subject_user_id a = None \<and>
     (a_type a = ''user_auto_banned'' \<or> a_type a = ''debug_abuse'') \<longrightarrow>
     legacyAlertSubjectID (a_type a) (a_message a) \<noteq> Some i)" if "a \<in> set (admin_alerts st')" for a
    by (rule delete_alerts_gone [of _ _ st]) (use that in \<open>simp add: deleted(5) erased_fields\<close>)
  have "i \<notin> r_user_id ` set (charity_reservations st')"
    "Some i \<notin> r_donor_user_id ` set (charity_reservations st')"
    "Some i \<notin> a_subject_user_id ` set (admin_alerts st')" using r a by (metis imageE)+
  moreover have "Some i \<notin> d_source_user_id ` set (donations st')"
    "Some i \<notin> ap_reviewer_id ` set (donation_applications st')"
    by (auto simp: deleted(5) erased_fields set_update_where dest!: sym [of "Some i"] split: if_split_asm)
  ultimately show ?thesis
    using a by (simp add: forgotten_def) (auto simp: deleted(5) erased_fields set_update_where)
qed simp

section \<open>Account operations keep the ledger well formed\<close>

lemma ledger_ok_site [simp]: "ledger_ok (st\<lparr>site_activity_daily := x\<rparr>) = ledger_ok st"
  and ledger_ok_activity [simp]: "ledger_ok (st\<lparr>user_activity_daily := y\<rparr>) = ledger_ok st"
  by (simp_all add: ledger_ok_def keys_ok_def)

lemma ledger_ok_only_site:
  assumes "x = st\<lparr>site_activity_daily := site_activity_daily x\<rparr>"
  shows "ledger_ok x = ledger_ok st"
  by (subst assms) simp

lemma record_only: "recordActivityTx i at d st = st\<lparr>
    user_activity_daily := user_activity_daily (recordActivityTx i at d st),
    site_activity_daily := site_activity_daily (recordActivityTx i at d st)\<rparr>"
  by (simp add: recordActivityTx_def Let_def upsert_activity_def update_open_day_def
      ensureOpenSiteDayTx_def split: option.split)

lemma ledger_ok_record [simp]: "ledger_ok (recordActivityTx i at d st) = ledger_ok st"
  by (subst record_only) simp

lemma ledger_ok_finalize [simp]: "ledger_ok (finalizeCompletedActivityDaysTx now st) = ledger_ok st"
  by (rule ledger_ok_only_site [OF finalize_only])

lemma ledger_ok_adjust [simp]: "ledger_ok (adjustOpenSiteForUserTx i day dir incl st) = ledger_ok st"
  by (rule ledger_ok_only_site [OF adjust_only])

lemma ledger_ok_new_user [simp]: "ledger_ok (recordNewUserTx at st) = ledger_ok st"
  by (rule ledger_ok_only_site [OF new_user_only])

lemma ledger_ok_users:
  assumes "ledger_ok st" "map u_id us = map u_id (users st)"
  shows "ledger_ok (st\<lparr>users := us\<rparr>)"
proof -
  have "ledger_ok (st\<lparr>donations := donations st, users := us,
      charity_reservations := charity_reservations st\<rparr>)"
    by (rule ledger_ok_edit) (use assms in \<open>auto simp: ledger_ok_def keys_ok_def\<close>)
  then show ?thesis by simp
qed

lemma ledger_ok_update_user:
  "\<lbrakk>ledger_ok st; \<And>u. u_id (f u) = u_id u\<rbrakk> \<Longrightarrow> ledger_ok (update_user i f st)"
  unfolding update_user_def by (rule ledger_ok_users) simp_all

lemma ledger_ok_update_member:
  "\<lbrakk>ledger_ok st; \<And>u. u_id (f u) = u_id u\<rbrakk> \<Longrightarrow> ledger_ok (update_member i f st)"
  unfolding update_member_def by (rule ledger_ok_users) simp_all

lemma ledger_ok_insert_user:
  assumes "ledger_ok st" "u_id u = user_seq st + 1" "0 \<le> user_seq st"
  shows "ledger_ok (insert_user u st)"
proof -
  have ids: "\<forall>x \<in> set (users st). 0 < u_id x \<and> u_id x \<le> user_seq st"
    using assms(1) by (simp add: ledger_ok_def keys_ok_def)
  then have "u_id u \<notin> u_id ` set (users st)" using assms(2) by fastforce
  moreover have "donation_ok us d \<Longrightarrow> donation_ok (insert k us) d" for us d k
    by (auto simp: donation_ok_def split: option.splits)
  moreover have "reservation_ok ds us r \<Longrightarrow> reservation_ok ds (insert k us) r" for ds us r k
    by (auto simp: reservation_ok_def split: option.splits)
  moreover have "0 < u_id u \<and> (\<forall>x \<in> set (users st). 0 < u_id x \<and> u_id x \<le> u_id u)"
    using ids assms(2,3) by fastforce
  moreover have "keys_distinct u_id (users st)" "keys_distinct d_id (donations st)"
    "keys_distinct r_id (charity_reservations st)" "keys_distinct ap_id (donation_applications st)"
    using keys_ok_dest [OF ledger_ok_keys [OF assms(1)]] by simp_all
  ultimately show ?thesis
    using assms(1) by (simp add: insert_user_def ledger_ok_def keys_ok_def)
qed

section \<open>Account operations keep the open day exact\<close>

datatype account_op =
    AccCreate string string string int
  | AccRecord int int activity_delta
  | AccCheckin int string int int bool int
  | AccDisable int bool string int
  | AccUnban int int
  | AccDelete int int

fun account_exec :: "account_op \<Rightarrow> store \<Rightarrow> store" where
  "account_exec (AccCreate d n a now) st = fst (CreateUser d n a now st)"
| "account_exec (AccRecord i at d) st = recordActivityTx i at d st"
| "account_exec (AccCheckin i day bonus cap bypass now) st =
     fst (ApplyUserCheckin i day bonus cap bypass now st)"
| "account_exec (AccDisable i b reason now) st = setUserDisabledAt i b reason now st"
| "account_exec (AccUnban i now) st = unbanUserAt i now st"
| "account_exec (AccDelete i now) st = fst (deleteUserAt i now st)"

definition account_run :: "account_op list \<Rightarrow> store \<Rightarrow> store" where
  "account_run ops st = fold account_exec ops st"

text \<open>Operations that happen on the given day; a record may be for an earlier day, as the log of a
  call that ran over midnight is.\<close>

fun on_day :: "int \<Rightarrow> account_op \<Rightarrow> bool" where
  "on_day day (AccCreate d n a now) \<longleftrightarrow> utcDay now = day"
| "on_day day (AccRecord i at d) \<longleftrightarrow> delta_ok d"
| "on_day day (AccCheckin i cday bonus cap bypass now) \<longleftrightarrow> True"
| "on_day day (AccDisable i b reason now) \<longleftrightarrow> utcDay now = day"
| "on_day day (AccUnban i now) \<longleftrightarrow> utcDay now = day"
| "on_day day (AccDelete i now) \<longleftrightarrow> utcDay now = day"

text \<open>Activity rows belong to existing users (the foreign key).\<close>

definition accounts_ok :: "store \<Rightarrow> bool" where
  "accounts_ok st \<longleftrightarrow> ledger_ok st \<and> activity_ok st \<and> 0 \<le> user_seq st \<and>
     (\<forall>a \<in> set (user_activity_daily st). ua_user_id a \<in> u_id ` set (users st))"

lemma exact_on_cong:
  assumes "user_activity_daily st' = user_activity_daily st" "users st' = users st"
    "site_activity_daily st' = site_activity_daily st"
  shows "exact_on day st' = exact_on day st"
  by (simp add: exact_on_def exact_row_cong [OF assms(1,2)] open_view_def assms(3))

lemma day_window: "utcDay now \<le> t \<and> t < utcDay now + activityDaySeconds \<longleftrightarrow> utcDay t = utcDay now"
proof -
  define q where "q = now div 86400"
  define p where "p = t div 86400"
  have "t = p * 86400 + t mod 86400" "0 \<le> t mod 86400" "t mod 86400 < 86400"
    by (simp_all add: p_def)
  then have "(q * 86400 \<le> t \<and> t < q * 86400 + 86400) = (p = q)" by linarith
  then show ?thesis by (simp add: utcDay_def activityDaySeconds_def q_def p_def)
qed

text \<open>A user who enters or leaves the counted population, activity rows unchanged.\<close>

lemma toggle_exact:
  assumes "exact_on day st" "activity_ok st" "activity_ok st'"
    and "user_activity_daily st' = user_activity_daily st" "site_activity_daily st' = site_activity_daily st"
    and "\<And>k. counted st' k = (if k = i then b else counted st k)" "counted st i = (\<not> b)"
    and "registrations day st' = registrations day st + (if incl then (if b then 1 else -1) else 0)"
  shows "exact_on day (adjustOpenSiteForUserTx i day (if b then 1 else -1) incl st')"
proof -
  let ?dir = "if b then 1 else -1 :: int"
  have row: "activity_row day i st' = activity_row day i st"
    by (simp add: activity_row_def assms(4))
  have keys: "keys_distinct ua_key (user_activity_daily st)" using assms(2) by (simp add: activity_ok_def)
  have sums: "site_sum f day st' = site_sum f day st + ?dir * f (activity_row day i st')"
    if "f (empty_activity day i) = 0" for f
  proof (cases b)
    case True
    then show ?thesis
      using site_sum_include [of st st' f day i, OF keys assms(4) that] assms(6,7) row by simp
  next
    case False
    then show ?thesis
      using site_sum_include [of st' st f day i, OF _ assms(4) [symmetric] that] keys assms(4,6,7) row
      by auto
  qed
  have "exact_row st day (open_view day st)" "sa_finalized_at (open_view day st) = 0"
    using assms(1) by (simp_all add: exact_on_def)
  moreover have view: "open_view day st' = open_view day st" by (simp add: open_view_def assms(5))
  ultimately have ex: "exact_row st' day (adjust_site (activity_row day i st') ?dir incl (open_view day st'))"
    and fin: "sa_finalized_at (open_view day st') = 0"
    using adjust_exact [OF _ assms(3) sums assms(8)] by simp_all
  have "open_view day (adjustOpenSiteForUserTx i day ?dir incl st') =
      adjust_site (activity_row day i st') ?dir incl (open_view day st')"
    unfolding adjustOpenSiteForUserTx_def using fin by (subst open_view_update) simp_all
  then show ?thesis
    using ex fin exact_row_cong [of "adjustOpenSiteForUserTx i day ?dir incl st'" st']
    by (simp add: exact_on_def adjustOpenSiteForUserTx_def)
qed

lemma registrations_update:
  assumes "keys_distinct u_id (users st)" "user_row i st = Some u"
    and "\<And>u. u_id (f u) = u_id u" "u_created_at (f u) = u_created_at u"
    and "\<not> u_is_admin u" "u_is_admin (f u) = u_is_admin u" "u_disabled (f u) \<noteq> u_disabled u"
  shows "registrations (utcDay now) (st\<lparr>users := update_where (\<lambda>u. u_id u = i) f (users st)\<rparr>) =
     registrations (utcDay now) st +
       (if utcDay (u_created_at u) = utcDay now then (if u_disabled u then 1 else -1) else 0)"
proof -
  have w: "utcDay now \<le> u_created_at u \<and> u_created_at u < utcDay now + activityDaySeconds \<longleftrightarrow>
      utcDay (u_created_at u) = utcDay now" by (rule day_window)
  let ?Q = "\<lambda>u. \<not> u_is_admin u \<and> \<not> u_disabled u \<and> utcDay now \<le> u_created_at u \<and>
      u_created_at u < utcDay now + activityDaySeconds"
  have "count_where ?Q (update_where (\<lambda>u. u_id u = i) f (users st)) =
      count_where ?Q (users st) - (if ?Q u then 1 else 0) + (if ?Q (f u) then 1 else 0)"
    using count_where_update_key [of u_id "users st" f ?Q i, OF assms(1,3)] by (simp add: assms(2))
  moreover have "?Q u \<longleftrightarrow> \<not> u_disabled u \<and> utcDay (u_created_at u) = utcDay now"
    "?Q (f u) \<longleftrightarrow> u_disabled u \<and> utcDay (u_created_at u) = utcDay now"
    using assms(4-7) w by auto
  ultimately show ?thesis by (simp add: registrations_def)
qed

lemma exact_only_site:
  assumes "x = st\<lparr>site_activity_daily := site_activity_daily x\<rparr>"
  shows "users x = users st" "user_activity_daily x = user_activity_daily st"
    "activity_ok x = activity_ok st" "counted x = counted st" "registrations day x = registrations day st"
proof -
  show u: "users x = users st" "user_activity_daily x = user_activity_daily st"
    by (subst assms, simp)+
  show "activity_ok x = activity_ok st" by (rule activity_ok_frame [OF u(2,1)])
  show "counted x = counted st" "registrations day x = registrations day st"
    using site_sum_cong [OF u(2,1)] by (simp_all add: fun_eq_iff)
qed

lemmas finalize_same = exact_only_site [OF finalize_only]

text \<open>The disabled flag of a member is flipped on the day \<open>now\<close> falls on.\<close>

lemma flip_disabled_exact:
  assumes "exact_on (utcDay now) st" "activity_ok st" "user_row i st = Some u" "\<not> u_is_admin u"
    and "\<And>u. u_id (f u) = u_id u" "u_is_admin (f u) = u_is_admin u" "u_created_at (f u) = u_created_at u"
    and "u_disabled (f u) = (\<not> u_disabled u)"
  shows "exact_on (utcDay now) (adjustOpenSiteForUserTx i (utcDay now) (if u_disabled u then 1 else -1)
     (utcDay (u_created_at u) = utcDay now) (update_user i f (finalizeCompletedActivityDaysTx now st)))"
proof -
  let ?st1 = "finalizeCompletedActivityDaysTx now st"
  let ?st2 = "update_user i f ?st1"
  have keys: "keys_distinct u_id (users ?st1)" using assms(2) by (simp add: activity_ok_def)
  have row: "user_row i ?st1 = Some u" using assms(3) by simp
  have C: "counted ?st2 k = (if k = i then u_disabled u else counted ?st1 k)" for k
    using row assms(4,6,8)
    by (simp add: counted_def update_user_def by_key_update_key assms(5) split: option.split)
  have R: "registrations (utcDay now) ?st2 = registrations (utcDay now) ?st1 +
      (if utcDay (u_created_at u) = utcDay now then (if u_disabled u then 1 else -1) else 0)"
    unfolding update_user_def using registrations_update [OF keys row assms(5,7,4,6)] assms(8) by simp
  have E: "exact_on (utcDay now) ?st1" using assms(1) finalize_exact [of now "utcDay now" st] by simp
  have K: "activity_ok ?st1" using assms(2) finalize_same(3) by simp
  show ?thesis
  proof (rule toggle_exact [OF E K _ _ _ C _ R])
    show "activity_ok ?st2" using K by (simp add: activity_ok_def update_user_def assms(5))
    show "counted ?st1 i = (\<not> u_disabled u)" using row assms(4) by (simp add: counted_def)
  qed (simp_all add: update_user_def)
qed

lemma CreateUser_exact:
  assumes "exact_on (utcDay now) st" "accounts_ok st"
  shows "exact_on (utcDay now) (fst (CreateUser d n a now st))"
proof (cases "GetUserByDiscordID d st = None")
  case True
  let ?day = "utcDay now"
  let ?u = "new_user (user_seq st + 1) d n a False now"
  let ?st1 = "insert_user ?u st"
  let ?f = "\<lambda>r. r\<lparr>sa_new_users := Some (coalesce0 (sa_new_users r) + 1)\<rparr>"
  have ids: "\<forall>x \<in> set (users st). u_id x \<le> user_seq st"
    using assms(2) by (simp add: accounts_ok_def ledger_ok_def keys_ok_def)
  then have fresh: "u_id ?u \<notin> u_id ` set (users st)" by (auto simp: new_user_def)
  have owner: "ua_user_id x \<noteq> u_id ?u" if "x \<in> set (user_activity_daily st)" for x
    using assms(2) fresh that unfolding accounts_ok_def by metis
  have "counted ?st1 (ua_user_id x) = counted st (ua_user_id x)"
    if "x \<in> set (user_activity_daily st)" for x
    using owner [OF that] by (simp add: counted_def insert_user_def split: option.split)
  then have sums: "site_sum f ?day ?st1 = site_sum f ?day st" for f
    unfolding site_sum_def column_sum_def
    by (intro arg_cong [of _ _ sum_list]) (simp add: insert_user_def)
  have "?day \<le> now \<and> now < ?day + activityDaySeconds" using day_window [of now now] by simp
  then have reg: "registrations ?day ?st1 = registrations ?day st + 1"
    by (simp add: registrations_def insert_user_def new_user_def)
  have ex: "exact_row st ?day (open_view ?day st)" "sa_finalized_at (open_view ?day st) = 0"
    using assms(1) by (simp_all add: exact_on_def)
  have view: "open_view ?day ?st1 = open_view ?day st" by (simp add: open_view_def insert_user_def)
  have "exact_row ?st1 ?day (?f (open_view ?day st))"
    using ex(1) by (simp add: exact_row_def sums reg coalesce0_def)
  moreover have "open_view ?day (recordNewUserTx now ?st1) = ?f (open_view ?day st)"
    unfolding recordNewUserTx_def using ex(2) view by (subst open_view_update) simp_all
  ultimately have "exact_on ?day (recordNewUserTx now ?st1)"
    using ex(2) exact_row_cong [of "recordNewUserTx now ?st1" ?st1]
    by (simp add: exact_on_def recordNewUserTx_def)
  then show ?thesis using True by (simp add: CreateUser_def Let_def)
qed (use assms in \<open>simp add: CreateUser_def\<close>)

text \<open>An edit that leaves the counted population alone.\<close>

lemma users_update_user: "users (update_user i f st) = update_where (\<lambda>u. u_id u = i) f (users st)"
  by (simp add: update_user_def)

lemma steady_exact:
  assumes "\<And>u. u_id (f u) = u_id u"
    and "\<And>x. x \<in> set (users st) \<Longrightarrow> u_id x = i \<Longrightarrow> u_is_admin (f x) = u_is_admin x \<and>
       u_disabled (f x) = u_disabled x \<and> u_created_at (f x) = u_created_at x"
  shows "exact_on day (update_user i f st) = exact_on day st"
proof -
  let ?st = "update_user i f st"
  have same: "user_activity_daily ?st = user_activity_daily st"
    "site_activity_daily ?st = site_activity_daily st" by (simp_all add: update_user_def)
  have "counted ?st k = counted st k" for k
  proof (cases "user_row k st")
    case None then show ?thesis by (auto simp: counted_def update_user_def by_key_update_key assms(1))
  next
    case (Some x)
    then show ?thesis using assms(2) [of x] by_key_SomeD [OF Some]
      by (auto simp: counted_def update_user_def by_key_update_key assms(1))
  qed
  then have sums: "site_sum g d ?st = site_sum g d st" for g d by (simp add: site_sum_def same)
  have reg: "registrations d ?st = registrations d st" for d
    unfolding registrations_def count_where_eq_sum users_update_user
    by (rule column_sum_same) (use assms(2) in simp)
  show ?thesis by (simp add: exact_on_def exact_row_def sums reg open_view_def same)
qed

lemma unban_exact:
  assumes "exact_on (utcDay now) st" "activity_ok st"
  shows "exact_on (utcDay now) (unbanUserAt i now st)"
proof (cases "user_row i st")
  case None
  then have "query_row (\<lambda>u. u_id u = i \<and> \<not> u_is_admin u) (users st) = None"
    by (auto simp: query_row_def find_None_iff by_key_None)
  with assms show ?thesis by (simp add: unbanUserAt_def)
next
  case (Some u)
  have only: "x = u" if "x \<in> set (users st)" "u_id x = i" for x
    using assms(2) by_key_in_set [of u_id "users st" x] Some that by (simp add: activity_ok_def)
  show ?thesis
  proof (cases "u_is_admin u")
    case True
    then have "query_row (\<lambda>u. u_id u = i \<and> \<not> u_is_admin u) (users st) = None"
      using only by (auto simp: query_row_def find_None_iff)
    with assms show ?thesis by (simp add: unbanUserAt_def)
  next
    case False
    have row: "query_row (\<lambda>x. u_id x = i \<and> \<not> u_is_admin x) (users st) = Some u"
    proof -
      have "u \<in> set (users st)" "u_id u = i" using Some by (auto dest: by_key_SomeD)
      with False obtain y where y: "query_row (\<lambda>x. u_id x = i \<and> \<not> u_is_admin x) (users st) = Some y"
        by (metis (mono_tags, lifting) find_None_iff option.exhaust query_row_def)
      then have "y \<in> set (users st)" "u_id y = i"
        unfolding query_row_def find_Some_iff by auto
      with y only show ?thesis by simp
    qed
    have member: "update_member i (unban now) s = update_user i (unban now) s" if "users s = users st" for s
      unfolding update_member_def update_user_def that
      by (intro arg_cong [of _ _ "\<lambda>us. s\<lparr>users := us\<rparr>"] update_where_cong) (use only False in auto)
    show ?thesis
    proof (cases "u_disabled u")
      case True
      then show ?thesis
        using flip_disabled_exact [OF assms Some False, of "unban now"] row
        by (simp add: unbanUserAt_def Let_def member unban_def)
    next
      case enabled: False
      have "exact_on day (update_user i (unban now) st) = exact_on day st" for day
        by (rule steady_exact) (use only enabled in \<open>auto simp: unban_def\<close>)
      then show ?thesis
        using assms(1) row enabled by (simp add: unbanUserAt_def Let_def member)
    qed
  qed
qed

lemma disable_exact:
  assumes "exact_on (utcDay now) st" "activity_ok st"
  shows "exact_on (utcDay now) (setUserDisabledAt i b reason now st)"
proof (cases "user_row i st")
  case None
  with assms show ?thesis by (simp add: setUserDisabledAt_def)
next
  case (Some u)
  have only: "x = u" if "x \<in> set (users st)" "u_id x = i" for x
    using assms(2) by_key_in_set [of u_id "users st" x] Some that by (simp add: activity_ok_def)
  consider (admin) "u_is_admin u" | (same) "\<not> u_is_admin u" "u_disabled u = b"
    | (flip) "\<not> u_is_admin u" "u_disabled u = (\<not> b)" by blast
  then show ?thesis
  proof cases
    case flip
    then show ?thesis
      using flip_disabled_exact [OF assms Some flip(1), of "set_disabled b reason now"] Some
      by (cases b) (simp_all add: setUserDisabledAt_def Let_def set_disabled_def)
  next
    case same
    have "exact_on (utcDay now) (update_user i (set_disabled b reason now) st) = exact_on (utcDay now) st"
      by (rule steady_exact) (use only same in \<open>auto simp: set_disabled_def\<close>)
    with assms(1) Some same show ?thesis by (simp add: setUserDisabledAt_def Let_def)
  next
    case admin
    have "exact_row (update_user i (set_disabled b reason now) st) d r = exact_row st d r"
      and "counted (update_user i (set_disabled b reason now) st) k = counted st k" for d r k
    proof -
      let ?st = "update_user i (set_disabled b reason now) st"
      have c: "counted ?st k = counted st k" for k
        using Some admin by (auto simp: counted_def update_user_def by_key_update_key set_disabled_def
            split: option.split)
      have "registrations d ?st = registrations d st" for d
        unfolding registrations_def count_where_eq_sum users_update_user
        by (rule column_sum_same) (use only admin in \<open>simp add: set_disabled_def\<close>)
      then show "exact_row ?st d r = exact_row st d r"
        by (simp add: exact_row_def site_sum_def c) (simp add: update_user_def)
      show "counted ?st k = counted st k" by (rule c)
    qed
    then have "exact_on (utcDay now) (update_user i (set_disabled b reason now) st) = exact_on (utcDay now) st"
      by (simp add: exact_on_def open_view_def) (simp add: update_user_def)
    with assms(1) Some admin show ?thesis by (simp add: setUserDisabledAt_def Let_def)
  qed
qed

lemma checkin_exact:
  assumes "exact_on day st" "activity_ok st"
  shows "exact_on day (fst (ApplyUserCheckin i cday bonus cap bypass now st))"
proof (cases "user_row i st")
  case None
  with assms show ?thesis by (simp add: ApplyUserCheckin_def)
next
  case (Some u)
  let ?f = "\<lambda>x. x\<lparr>u_last_checkin_day := cday, u_credits := u_credits u + bonus, u_updated_at := now\<rparr>"
  have "exact_on day (update_user i ?f st) = exact_on day st" by (rule steady_exact) simp_all
  moreover have "activity_ok (update_user i ?f st)"
    using assms(2) by (simp add: activity_ok_def update_user_def)
  ultimately have "exact_on day (recordActivityTx i now (no_activity\<lparr>ad_checkins := 1\<rparr>) (update_user i ?f st))"
    using assms(1) by (simp add: record_exact)
  with assms(1) Some show ?thesis by (simp add: ApplyUserCheckin_def Let_def)
qed

lemma before_erasure_rows:
  "users (before_erasure i now st) = users st"
  "user_activity_daily (before_erasure i now st) = user_activity_daily st"
  by (simp_all add: before_erasure_def delete_alerts_def Let_def)

lemma before_erasure_exact:
  assumes "exact_on (utcDay now) st"
  shows "exact_on (utcDay now) (before_erasure i now st)"
proof -
  have "exact_on (utcDay now) (delete_alerts i st) = exact_on (utcDay now) st"
    by (rule exact_on_cong) (simp_all add: delete_alerts_def Let_def)
  then show ?thesis using assms finalize_exact [of now "utcDay now" "delete_alerts i st"]
    by (simp add: before_erasure_def)
qed

lemma registrations_without:
  assumes "keys_distinct u_id (users st)" "user_row i st = Some u" "\<not> u_is_admin u"
    and "users st' = delete_where (\<lambda>x. u_id x = i) (users st)"
  shows "registrations (utcDay now) st' = registrations (utcDay now) st +
    (if u_disabled u \<or> utcDay (u_created_at u) \<noteq> utcDay now then 0 else -1)"
  using assms day_window [of now "u_created_at u"]
  by (auto simp: registrations_def count_where_delete_key)

lemma site_sum_without:
  assumes "\<not> counted st i" "counted st' = counted st"
    and "user_activity_daily st' = delete_where (\<lambda>x. ua_user_id x = i) (user_activity_daily st)"
  shows "site_sum f d st' = site_sum f d st"
  using assms by (simp add: site_sum_def column_sum_delete_zero del: store.simps)

lemma erased_site_row:
  assumes "G = before_erasure i now st" "mid = G\<lparr>users := delete_where (\<lambda>x. u_id x = i) (users st)\<rparr>"
  shows "site_activity_daily (erased i now u st) = site_activity_daily (if u_disabled u then mid
    else adjustOpenSiteForUserTx i (utcDay now) (-1) (utcDay (u_created_at u) = utcDay now) mid)"
proof -
  let ?S = "forget_review i (forget_reservations i G)"
  have S: "site_activity_daily ?S = site_activity_daily G" "user_activity_daily ?S = user_activity_daily G"
    by (simp_all add: forget_review_def forget_reservations_def Let_def)
  have "site_activity_daily (adjustOpenSiteForUserTx i d (-1) b ?S) =
      site_activity_daily (adjustOpenSiteForUserTx i d (-1) b mid)" for d b
    by (simp add: assms(2) adjustOpenSiteForUserTx_def update_open_day_def ensureOpenSiteDayTx_def
        activity_row_def S)
  then show ?thesis
    by (simp add: assms erased_def erase_user_def Let_def delete_owned_def S(1) [unfolded assms(1)])
qed

lemma delete_exact:
  assumes "exact_on (utcDay now) st" "accounts_ok st"
  shows "exact_on (utcDay now) (fst (deleteUserAt i now st))"
proof (cases "deleteUserAt i now st")
  case (Pair st' res)
  have L: "ledger_ok st" and K: "activity_ok st" using assms(2) by (simp_all add: accounts_ok_def)
  let ?day = "utcDay now"
  from Pair ledger_ok_keys [OF L] have "exact_on ?day st'"
  proof (cases rule: deleteUserAt_cases)
    case (deleted u)
    let ?G = "before_erasure i now st"
    let ?incl = "utcDay (u_created_at u) = ?day"
    let ?mid = "?G\<lparr>users := delete_where (\<lambda>x. u_id x = i) (users st)\<rparr>"
    note G = before_erasure_rows [of i now st]
    have EG: "exact_on ?day ?G" by (rule before_erasure_exact [OF assms(1)])
    have st': "users st' = users ?mid"
      "user_activity_daily st' = delete_where (\<lambda>x. ua_user_id x = i) (user_activity_daily ?mid)"
      by (simp_all add: deleted(5) erased_fields G)
    have site: "site_activity_daily st' = site_activity_daily (if u_disabled u then ?mid
        else adjustOpenSiteForUserTx i ?day (-1) ?incl ?mid)"
      by (simp add: deleted(5) erased_site_row [OF refl refl])
    have row: "by_key u_id k (delete_where (\<lambda>x. u_id x = i) (users st)) =
        (if k = i then None else user_row k st)" for k
      using keys_ok_dest(1) [OF ledger_ok_keys [OF L]]
      by (cases "user_row k st") (auto simp: by_key_delete dest: by_key_SomeD)
    have C: "counted ?mid k = (if k = i then False else counted ?G k)" for k
      by (simp add: counted_def row G)
    have cst: "counted st' = counted ?mid" by (simp add: counted_def st' fun_eq_iff)
    have sums: "site_sum f ?day st' = site_sum f ?day ?mid" for f
      by (rule site_sum_without [OF _ cst st'(2)]) (simp add: C)
    have reg: "registrations d st' = registrations d ?mid" for d by (simp add: registrations_def st'(1))
    have final: "exact_on ?day st'" if "exact_on ?day x" "users x = users ?mid"
      "user_activity_daily x = user_activity_daily ?mid" "site_activity_daily x = site_activity_daily st'" for x
    proof -
      have "exact_row st' ?day r = exact_row x ?day r" for r
        using exact_row_cong [OF that(3,2)] by (simp add: exact_row_def sums reg)
      then show ?thesis using that(1,4) by (simp add: exact_on_def open_view_def)
    qed
    have regs: "registrations ?day ?mid = registrations ?day ?G +
        (if u_disabled u \<or> \<not> ?incl then 0 else -1)"
      by (rule registrations_without [where i = i])
        (use keys_ok_dest(1) [OF ledger_ok_keys [OF L]] deleted(1,2) in \<open>simp_all add: G\<close>)
    have KG: "activity_ok ?G" using K by (simp add: activity_ok_def G)
    have Kmid: "activity_ok ?mid" using K by (simp add: activity_ok_def G)
    show ?thesis
    proof (cases "u_disabled u")
      case True
      have "\<not> counted ?G i" using True deleted(1) by (simp add: counted_def G)
      then have "counted ?mid k = counted ?G k" for k using C [of k] by auto
      moreover have "registrations ?day ?mid = registrations ?day ?G" using regs True by simp
      ultimately have "exact_row ?mid ?day r = exact_row ?G ?day r" for r
        by (simp add: exact_row_def site_sum_def)
      then have "exact_on ?day ?mid" using EG by (simp add: exact_on_def open_view_def)
      then show ?thesis by (rule final) (simp_all add: site True)
    next
      case False
      have "exact_on ?day (adjustOpenSiteForUserTx i ?day (if False then 1 else -1) ?incl ?mid)"
      proof (rule toggle_exact [OF EG KG Kmid _ _ C])
        show "counted ?G i = (\<not> False)" using False deleted(1,2) by (simp add: counted_def G)
        show "registrations ?day ?mid = registrations ?day ?G + (if ?incl then if False then 1 else - 1 else 0)"
          using regs False by simp
      qed simp_all
      then have "exact_on ?day (adjustOpenSiteForUserTx i ?day (-1) ?incl ?mid)" by simp
      then show ?thesis
        by (rule final) (simp_all add: site False adjustOpenSiteForUserTx_def)
    qed
  qed (use assms(1) in simp)
  with Pair show ?thesis by simp
qed

section \<open>Sequences of account operations\<close>

lemma accounts_okI:
  assumes "ledger_ok st" "activity_ok st" "0 \<le> user_seq st"
    and "\<And>a. a \<in> set (user_activity_daily st) \<Longrightarrow> ua_user_id a \<in> u_id ` set (users st)"
  shows "accounts_ok st"
  using assms by (simp add: accounts_ok_def)

lemma record_owners:
  assumes "a \<in> set (user_activity_daily (recordActivityTx i at d st))"
    and "\<And>a. a \<in> set (user_activity_daily st) \<Longrightarrow> ua_user_id a \<in> u_id ` set (users st)"
  shows "ua_user_id a \<in> u_id ` set (users st)"
proof (cases "user_row i st")
  case None
  with assms show ?thesis by (simp add: recordActivityTx_def)
next
  case (Some u)
  then have i: "i \<in> u_id ` set (users st)" by (force dest: by_key_SomeD)
  have uid: "ua_user_id (add_activity d at x) = ua_user_id x" for x by (simp add: add_activity_def)
  have "ua_user_id a = i \<or> (\<exists>x \<in> set (user_activity_daily st). ua_user_id a = ua_user_id x)"
    using assms(1) Some
    by (auto simp: recordActivityTx_def Let_def upsert_activity_def set_update_where uid empty_activity_def
        split: if_split_asm)
  then show ?thesis using i assms(2) by auto
qed

lemma edit_accounts_ok:
  assumes "accounts_ok st" "\<And>u. u_id (f u) = u_id u"
  shows "accounts_ok (update_user i f st)" "accounts_ok (update_member i f st)"
  using assms ledger_ok_update_user [of st f i] ledger_ok_update_member [of st f i]
  by (simp_all add: accounts_ok_def activity_ok_def) (simp_all add: update_user_def update_member_def)

lemma site_accounts_ok:
  assumes "x = st\<lparr>site_activity_daily := site_activity_daily x\<rparr>"
  shows "accounts_ok x = accounts_ok st"
proof -
  have "user_seq x = user_seq st" by (subst assms) simp
  then show ?thesis
    unfolding accounts_ok_def exact_only_site(1,2,3) [OF assms] ledger_ok_only_site [OF assms] by simp
qed

lemma finalize_accounts_ok [simp]: "accounts_ok (finalizeCompletedActivityDaysTx now st) = accounts_ok st"
  by (rule site_accounts_ok [OF finalize_only])

lemma adjust_accounts_ok [simp]: "accounts_ok (adjustOpenSiteForUserTx i day dir incl st) = accounts_ok st"
  by (rule site_accounts_ok [OF adjust_only])

lemma record_accounts_ok:
  assumes "accounts_ok st" "delta_ok d"
  shows "accounts_ok (recordActivityTx i at d st)"
proof (rule accounts_okI)
  show "0 \<le> user_seq (recordActivityTx i at d st)"
    by (subst record_only) (use assms in \<open>simp add: accounts_ok_def\<close>)
  show "ua_user_id a \<in> u_id ` set (users (recordActivityTx i at d st))"
    if "a \<in> set (user_activity_daily (recordActivityTx i at d st))" for a
    using record_owners [OF that] assms(1) by (simp add: accounts_ok_def)
qed (use assms record_ok in \<open>simp_all add: accounts_ok_def\<close>)

lemma create_accounts_ok:
  assumes "accounts_ok st"
  shows "accounts_ok (fst (CreateUser d n a now st))"
proof -
  let ?u = "new_user (user_seq st + 1) d n a False now"
  have u: "u_id ?u = user_seq st + 1" by (simp add: new_user_def)
  have L: "ledger_ok (insert_user ?u st)"
    by (rule ledger_ok_insert_user [OF _ u]) (use assms in \<open>simp_all add: accounts_ok_def\<close>)
  then have "keys_distinct u_id (users (insert_user ?u st))" by (simp add: ledger_ok_def keys_ok_def)
  then have "accounts_ok (insert_user ?u st)"
    using assms L u by (auto simp: accounts_ok_def activity_ok_def insert_user_def)
  then have "accounts_ok (recordNewUserTx now (insert_user ?u st))"
    by (simp only: site_accounts_ok [OF new_user_only])
  with assms show ?thesis by (simp add: CreateUser_def Let_def)
qed

lemma delete_accounts_ok:
  assumes "accounts_ok st"
  shows "accounts_ok (fst (deleteUserAt i now st))"
proof (cases "deleteUserAt i now st")
  case (Pair st' res)
  have L: "ledger_ok st" using assms by (simp add: accounts_ok_def)
  from Pair ledger_ok_keys [OF L] have "accounts_ok st'"
  proof (cases rule: deleteUserAt_cases)
    case (deleted u)
    then show ?thesis
      using assms deleteUserAt_ok [OF L Pair]
      by (auto simp: accounts_ok_def activity_ok_def erased_fields)
  qed (use assms in simp)
  with Pair show ?thesis by simp
qed

lemma account_exec_ok:
  assumes "accounts_ok st" "on_day day x"
  shows "accounts_ok (account_exec x st)"
proof (cases x)
  case (AccCheckin i cday bonus cap bypass now)
  have "delta_ok (no_activity\<lparr>ad_checkins := 1\<rparr>)" by (simp add: delta_ok_def no_activity_def)
  then show ?thesis
    using assms edit_accounts_ok(1) [OF assms(1)]
    by (auto simp: AccCheckin ApplyUserCheckin_def Let_def intro!: record_accounts_ok split: option.split)
next
  case (AccDisable i b reason now)
  then show ?thesis
    using assms edit_accounts_ok(1) [of st "set_disabled True reason now"]
      edit_accounts_ok(1) [of st "set_disabled False reason now"]
      edit_accounts_ok(1) [of "finalizeCompletedActivityDaysTx now st" "set_disabled True reason now"]
      edit_accounts_ok(1) [of "finalizeCompletedActivityDaysTx now st" "set_disabled False reason now"]
    by (cases b) (simp_all add: setUserDisabledAt_def Let_def set_disabled_def split: option.split)
next
  case (AccUnban i now)
  then show ?thesis
    using assms edit_accounts_ok(2) [of st "unban now"]
      edit_accounts_ok(2) [of "finalizeCompletedActivityDaysTx now st" "unban now"]
    by (simp add: unbanUserAt_def Let_def unban_def split: option.split)
qed (use assms in \<open>simp_all add: record_accounts_ok create_accounts_ok delete_accounts_ok\<close>)

lemma account_exec_exact:
  assumes "exact_on day st" "accounts_ok st" "on_day day x"
  shows "exact_on day (account_exec x st)"
proof -
  have K: "activity_ok st" using assms(2) by (simp add: accounts_ok_def)
  show ?thesis
  proof (cases x)
    case (AccCreate d n a now)
    then show ?thesis using assms CreateUser_exact [of now st d n a] by simp
  next
    case (AccDisable i b reason now)
    then show ?thesis using assms disable_exact [of now st i b reason] K by simp
  next
    case (AccUnban i now)
    then show ?thesis using assms unban_exact [of now st i] K by simp
  next
    case (AccDelete i now)
    then show ?thesis using assms delete_exact [of now st i] by simp
  qed (use assms K in \<open>simp_all add: record_exact checkin_exact\<close>)
qed

section \<open>Properties\<close>





text \<open>A series of check-in requests of one user with the same day, and their answers.\<close>

fun checkin_requests ::
  "int \<Rightarrow> string \<Rightarrow> (int \<times> int \<times> bool \<times> int) list \<Rightarrow> store \<Rightarrow> store \<times> (checkin_status \<times> int \<times> int) list" where
  "checkin_requests i day [] st = (st, [])"
| "checkin_requests i day ((bonus, cap, bypass, now) # rs) st =
    (case ApplyUserCheckin i day bonus cap bypass now st of
       (st1, None) \<Rightarrow> checkin_requests i day rs st1
     | (st1, Some x) \<Rightarrow> (case checkin_requests i day rs st1 of (st2, xs) \<Rightarrow> (st2, x # xs)))"

lemma checkin_again:
  "\<lbrakk>user_row i st = Some u; u_last_checkin_day u = day; checkin_requests i day rs st = (st', xs)\<rbrakk> \<Longrightarrow>
   st' = st \<and> list_all (\<lambda>x. fst x = CheckinAlready \<and> fst (snd x) = 0) xs"
  by (induction rs arbitrary: xs)
    (auto simp: ApplyUserCheckin_def split: prod.splits)

lemma checkin_applied_row:
  assumes "ApplyUserCheckin i day bonus cap bypass now st = (st1, Some (CheckinApplied, a, c))"
    "user_row i st = Some u"
  shows "\<exists>v. user_row i st1 = Some v \<and> u_last_checkin_day v = day \<and> u_credits v = u_credits u + a"
  using assms by (auto simp: ApplyUserCheckin_def Let_def update_user_def by_key_update_key
      split: if_split_asm)

text \<open>One check-in a day. Over any number of check-in requests with the same day, whatever the
  bonuses, caps, privileges and times, the bonus is awarded at most once: the balance is the old
  one plus what was awarded, and at most one request is answered with an award.\<close>

theorem checkin_at_most_once:
  assumes "user_row i st = Some u" "checkin_requests i day rs st = (st', xs)"
  shows "length (filter (\<lambda>x. fst x = CheckinApplied) xs) \<le> 1 \<and>
    (\<exists>v. user_row i st' = Some v \<and> u_credits v = u_credits u + sum_list (map (fst \<circ> snd) xs))"
  using assms
proof (induction rs arbitrary: st xs)
  case (Cons r rs)
  obtain bonus cap bypass now where r: "r = (bonus, cap, bypass, now)" by (cases r)
  obtain st1 s a c where D: "ApplyUserCheckin i day bonus cap bypass now st = (st1, Some (s, a, c))"
    by (cases "ApplyUserCheckin i day bonus cap bypass now st")
      (use Cons.prems(1) in \<open>auto simp: ApplyUserCheckin_def Let_def split: if_split_asm\<close>)
  obtain ys where ys: "checkin_requests i day rs st1 = (st', ys)" "xs = (s, a, c) # ys"
    using Cons.prems(2) by (auto simp: r D split: prod.splits)
  show ?case
  proof (cases "s = CheckinApplied")
    case True
    then obtain v where v: "user_row i st1 = Some v" "u_last_checkin_day v = day"
      "u_credits v = u_credits u + a" using checkin_applied_row D Cons.prems(1) by blast
    from checkin_again [OF v(1,2) ys(1)] have "st' = st1"
      "list_all (\<lambda>x. fst x = CheckinAlready \<and> fst (snd x) = 0) ys" by simp_all
    moreover have "filter (\<lambda>x. fst x = CheckinApplied) ys = []" "sum_list (map (fst \<circ> snd) ys) = 0"
      using calculation(2) by (induction ys) auto
    ultimately show ?thesis using v by (simp add: ys(2) True comp_def)
  next
    case False
    then have "st1 = st" "a = 0" using D Cons.prems(1)
      by (auto simp: ApplyUserCheckin_def Let_def split: if_splits)
    with Cons.IH [OF Cons.prems(1), of ys] ys False show ?thesis by simp
  qed
qed simp

theorem checkin_at_most_once_witness:
  "\<exists>v. user_row 1 (fst (checkin_requests 1 ''d'' [(5, 100, False, 7), (9, 100, True, 8)] sample_store))
     = Some v \<and> u_credits v = 15"
proof -
  have row: "user_row 1 sample_store = Some (sample_user 1 10)" by (simp add: sample_store_def sample_user_def)
  have "map (fst \<circ> snd) (snd (checkin_requests 1 ''d'' [(5, 100, False, 7), (9, 100, True, 8)] sample_store)) = [5, 0]"
    using row by (simp add: ApplyUserCheckin_def sample_user_def update_user_def by_key_update_key Let_def)
  then show ?thesis
    using checkin_at_most_once [OF row prod.collapse [symmetric],
        of "''d''" "[(5, 100, False, 7), (9, 100, True, 8)]"] by (simp add: sample_user_def)
qed

end
