(* ===== verification/Games.thy ===== *)
theory Games
  imports Complex_Main "HOL-Library.Multiset" Users Settings
begin

text \<open>
  Mini-games, \<^verbatim>\<open>db/games.go\<close>: the fishing engine (species, bait weights, the scale that makes the
  return exact), the roll of a round, buying and settling a round, the leaderboards and the
  retention of rounds. The floating-point numbers of the engine are rationals here: the rounding
  of \<open>float64\<close> is not modelled, that of a payout to whole credits is. The iteration order of the two
  weight maps, which Go leaves open, is a parameter \<open>ord\<close> that rearranges a listing; the three random
  draws of a round are the record \<open>draws\<close>, a failing random source is \<open>None\<close>.
\<close>

section \<open>Species, baits and multipliers\<close>

definition GameIDFishing :: string where "GameIDFishing = ''fishing''"
definition GameRoundsRetention :: int where "GameRoundsRetention = request_log_retention"
definition fixedJunkRate :: rat where "fixedJunkRate = 1 / 5"
definition maxFishMultiplier :: rat where "maxFishMultiplier = 40"

datatype game_error = ErrGamesDisabled | ErrGameDisabled | ErrRoundNotFound | ErrBaitUnknown
  | ErrAdminCannotPlay | ErrCreditsTooLow | ErrEmptyBait | ErrInvalidEconomy | ErrRandomSource
  | ErrPlayerNotFound | ErrRoundInsert

record fishing_species =
  sp_key :: string
  sp_tier :: string
  sp_min_cm :: int
  sp_max_cm :: int

definition species_of :: "string \<Rightarrow> int \<Rightarrow> int \<Rightarrow> string list \<Rightarrow> fishing_species list" where
  "species_of tier lo hi keys = map (\<lambda>k. \<lparr>sp_key = k, sp_tier = tier, sp_min_cm = lo, sp_max_cm = hi\<rparr>) keys"

definition fishingSpeciesList :: "fishing_species list" where
  "fishingSpeciesList =
     species_of ''small'' 5 25 [''whitebait'', ''gudgeon'', ''horse_mouth'', ''smelt'', ''loach''] @
     species_of ''regular'' 15 35 [''crucian'', ''tilapia'', ''yellow_catfish'', ''ayu'', ''stream_carp''] @
     species_of ''big'' 30 80 [''common_carp'', ''snakehead'', ''catfish'', ''mandarin_fish'', ''rainbow_trout''] @
     species_of ''giant'' 60 150 [''grass_carp'', ''silver_carp'', ''bighead_carp'', ''black_carp'', ''japanese_eel''] @
     species_of ''legend'' 100 200 [''yellowcheek'', ''taimen'', ''koi'']"

definition fishingJunkList :: "fishing_species list" where
  "fishingJunkList = species_of ''junk'' 0 0 [''boot'', ''seaweed'', ''plastic_bag'', ''branch'',
     ''old_tire'', ''glasses'', ''phone_case'', ''fry'']"

definition fishingTreasureList :: "fishing_species list" where
  "fishingTreasureList = species_of ''treasure'' 0 0 [''bottle'', ''clover'', ''shell'']"

record bait_spec =
  bs_rtp :: rat
  bs_tiers :: "(string \<times> int) list"
  bs_tres :: "(string \<times> int) list"

definition fishingBaits :: "(string \<times> bait_spec) list" where
  "fishingBaits =
    [(''worm'', \<lparr>bs_rtp = 9 / 10,
        bs_tiers = [(''small'', 500), (''regular'', 340), (''big'', 55), (''giant'', 45), (''legend'', 5)],
        bs_tres = [(''bottle'', 13), (''clover'', 7), (''shell'', 3)]\<rparr>),
     (''lure'', \<lparr>bs_rtp = 9 / 10,
        bs_tiers = [(''small'', 400), (''regular'', 380), (''big'', 90), (''giant'', 80), (''legend'', 12)],
        bs_tres = [(''bottle'', 18), (''clover'', 10), (''shell'', 4)]\<rparr>),
     (''premium'', \<lparr>bs_rtp = 88 / 100,
        bs_tiers = [(''small'', 340), (''regular'', 400), (''big'', 115), (''giant'', 110), (''legend'', 18)],
        bs_tres = [(''bottle'', 22), (''clover'', 13), (''shell'', 5)]\<rparr>)]"

definition fishTierMult :: "string \<Rightarrow> rat \<times> rat" where
  "fishTierMult tier =
    (if tier = ''small'' then (4 / 10, 6 / 10)
     else if tier = ''regular'' then (1, 8 / 10)
     else if tier = ''big'' then (2, 2)
     else if tier = ''giant'' then (5, 6)
     else if tier = ''legend'' then (20, 6666666666666667 / 1000000000000000)
     else (0, 0))"

definition tier_range :: "string \<Rightarrow> (int \<times> int) option" where
  "tier_range tier = map_option (\<lambda>sp. (sp_min_cm sp, sp_max_cm sp))
     (query_row (\<lambda>sp. sp_tier sp = tier) fishingSpeciesList)"

definition fishMultiplierRaw :: "string \<Rightarrow> int \<Rightarrow> rat" where
  "fishMultiplierRaw tier cm =
    (let (base, span) = fishTierMult tier
     in if span \<le> 0 then 0
        else
          let (lo, hi) = (case tier_range tier of None \<Rightarrow> (0, 0) | Some r \<Rightarrow> r);
              f = (if lo < hi then of_int (cm - lo) / of_int (hi - lo) else 0);
              m = base + f * span;
              m' = (if 100 \<le> cm then m * (3 / 2) else m)
          in min maxFishMultiplier m')"

definition expectedTierMultiplier :: "string \<Rightarrow> rat" where
  "expectedTierMultiplier tier =
    (case tier_range tier of None \<Rightarrow> 0
     | Some (lo, hi) \<Rightarrow> if hi < lo then 0
         else sum_list (map (fishMultiplierRaw tier) [lo..hi]) / of_int (hi - lo + 1))"

section \<open>The engine\<close>

record fishing_outcome =
  oc_key :: string
  oc_tier :: string
  oc_prob :: rat

record fishing_engine =
  eng_bait :: bait_spec
  eng_scale :: rat
  eng_outcomes :: "fishing_outcome list"
  eng_junk :: "fishing_species list"
  eng_treasures :: "fishing_species list"
  eng_mult :: "(string \<times> int) list"

text \<open>A configured treasure multiplier; 1 when it is missing or not positive.\<close>

definition treasure_mult :: "(string \<times> int) list \<Rightarrow> string \<Rightarrow> int" where
  "treasure_mult mults key = (if map_get 0 key mults \<le> 0 then 1 else map_get 0 key mults)"

definition buildFishingEngine ::
  "((string \<times> int) list \<Rightarrow> (string \<times> int) list) \<Rightarrow> bait_spec \<Rightarrow> (string \<times> int) list \<Rightarrow>
   (game_error, fishing_engine) result" where
  "buildFishingEngine ord spec mults =
    (let total = sum_list (map snd (bs_tiers spec)) + sum_list (map snd (bs_tres spec));
         prob = (\<lambda>w. (1 - fixedJunkRate) * of_int w / of_int total);
         fish = ord (bs_tiers spec);
         tres = ord (bs_tres spec);
         fishEV = sum_list (map (\<lambda>(tier, w). prob w * expectedTierMultiplier tier) fish);
         treasureEV = sum_list (map (\<lambda>(key, w). prob w * of_int (treasure_mult mults key)) tres);
         scale = (if 0 < fishEV then (bs_rtp spec - treasureEV) / fishEV else 1)
     in if total \<le> 0 then Inl ErrEmptyBait
        else if 0 < fishEV \<and> (scale < 1 / 10 \<or> 3 < scale) then Inl ErrInvalidEconomy
        else Inr \<lparr>eng_bait = spec, eng_scale = scale,
          eng_outcomes = map (\<lambda>(tier, w). \<lparr>oc_key = tier, oc_tier = tier, oc_prob = prob w\<rparr>) fish @
            map (\<lambda>(key, w). \<lparr>oc_key = key, oc_tier = ''treasure'', oc_prob = prob w\<rparr>) tres,
          eng_junk = fishingJunkList, eng_treasures = fishingTreasureList, eng_mult = mults\<rparr>)"

section \<open>The configuration\<close>

record fishing_config =
  fc_enabled :: bool
  fc_worm_price :: int
  fc_lure_price :: int
  fc_premium_price :: int
  fc_rtp :: int
  fc_rtp_premium :: int
  fc_treasure_mult :: "(string \<times> int) list"

definition DefaultFishingConfig :: fishing_config where
  "DefaultFishingConfig = \<lparr>fc_enabled = True, fc_worm_price = 5, fc_lure_price = 10,
     fc_premium_price = 15, fc_rtp = 90, fc_rtp_premium = 88,
     fc_treasure_mult = [(''bottle'', 2), (''clover'', 3), (''shell'', 5)]\<rparr>"

definition FishingConfig :: "store \<Rightarrow> fishing_config" where
  "FishingConfig st =
    (let cfg = DefaultFishingConfig;
         m = fc_treasure_mult cfg;
         mult = (\<lambda>key setting. (key, GetSettingInt setting (map_get 0 key m) st))
     in \<lparr>fc_enabled = (GetSettingString ''game_fishing_enabled''
            (if fc_enabled cfg then ''true'' else ''false'') st = ''true''),
         fc_worm_price = GetSettingInt ''game_fishing_bait_worm_price'' (fc_worm_price cfg) st,
         fc_lure_price = GetSettingInt ''game_fishing_bait_lure_price'' (fc_lure_price cfg) st,
         fc_premium_price = GetSettingInt ''game_fishing_bait_premium_price'' (fc_premium_price cfg) st,
         fc_rtp = GetSettingInt ''game_fishing_rtp'' (fc_rtp cfg) st,
         fc_rtp_premium = GetSettingInt ''game_fishing_rtp_premium'' (fc_rtp_premium cfg) st,
         fc_treasure_mult = [mult ''bottle'' ''game_fishing_treasure_bottle_mult'',
           mult ''clover'' ''game_fishing_treasure_clover_mult'',
           mult ''shell'' ''game_fishing_treasure_shell_mult'']\<rparr>)"

definition GamesMasterEnabled :: "store \<Rightarrow> bool" where
  "GamesMasterEnabled st = (GetSettingString ''games_enabled'' ''true'' st = ''true'')"

definition FishingBaitPrice :: "fishing_config \<Rightarrow> string \<Rightarrow> int" where
  "FishingBaitPrice c bait =
    (if bait = ''worm'' then fc_worm_price c
     else if bait = ''lure'' then fc_lure_price c
     else if bait = ''premium'' then fc_premium_price c else 0)"

definition BaitPriceList :: "fishing_config \<Rightarrow> (string \<times> int) list" where
  "BaitPriceList c = map (\<lambda>k. (k, FishingBaitPrice c k)) [''worm'', ''lure'', ''premium'']"

definition FishingEngine ::
  "((string \<times> int) list \<Rightarrow> (string \<times> int) list) \<Rightarrow> fishing_config \<Rightarrow> string \<Rightarrow>
   (game_error, fishing_engine) result" where
  "FishingEngine ord c bait =
    (case map_of fishingBaits bait of None \<Rightarrow> Inl ErrBaitUnknown
     | Some spec \<Rightarrow> buildFishingEngine ord
         (spec\<lparr>bs_rtp := (if bait = ''premium'' then of_int (fc_rtp_premium c) / 100
            else of_int (fc_rtp c) / 100)\<rparr>) (fc_treasure_mult c))"

section \<open>The roll\<close>

record draws =
  dr_outcome :: "rat option"
  dr_species :: "rat option"
  dr_size :: "rat option"

record catch =
  ct_key :: string
  ct_tier :: string
  ct_size :: int
  ct_credits :: int
  ct_junk :: bool
  ct_treasure :: bool

text \<open>\<open>math.Round\<close> rounds half away from zero. The conversion to \<open>int\<close> in \<open>randInt\<close> truncates a
  non-negative number.\<close>

definition math_round :: "rat \<Rightarrow> int" where
  "math_round x = (if 0 \<le> x then \<lfloor>x + 1 / 2\<rfloor> else \<lceil>x - 1 / 2\<rceil>)"

definition randInt :: "int \<Rightarrow> int \<Rightarrow> rat option \<Rightarrow> int option" where
  "randInt lo hi f = (if hi \<le> lo then Some lo
     else map_option (\<lambda>x. lo + \<lfloor>x * of_int (hi - lo + 1)\<rfloor>) f)"

fun pick_outcome :: "rat \<Rightarrow> fishing_outcome list \<Rightarrow> fishing_outcome option" where
  "pick_outcome rem [] = None"
| "pick_outcome rem (oc # ocs) = (if rem < oc_prob oc then Some oc else pick_outcome (rem - oc_prob oc) ocs)"

definition candidates :: "string \<Rightarrow> fishing_species list" where
  "candidates tier = filter (\<lambda>sp. sp_tier sp = tier) fishingSpeciesList"

definition fish_credits :: "fishing_engine \<Rightarrow> string \<Rightarrow> int \<Rightarrow> int \<Rightarrow> int" where
  "fish_credits e tier cm price =
     max 0 (math_round (fishMultiplierRaw tier cm * eng_scale e * of_int price))"

definition treasure_credits :: "fishing_engine \<Rightarrow> string \<Rightarrow> int \<Rightarrow> int" where
  "treasure_credits e key price = max 0 (math_round (of_int (treasure_mult (eng_mult e) key) * of_int price))"

definition rollFishingOutcome :: "fishing_engine \<Rightarrow> int \<Rightarrow> draws \<Rightarrow> (game_error, catch) result" where
  "rollFishingOutcome e price dr =
    (case dr_outcome dr of None \<Rightarrow> Inl ErrRandomSource
     | Some u \<Rightarrow>
       if u < fixedJunkRate then
         (case randInt 0 (int (length (eng_junk e)) - 1) (dr_species dr) of None \<Rightarrow> Inl ErrRandomSource
          | Some idx \<Rightarrow> Inr \<lparr>ct_key = sp_key (eng_junk e ! nat idx), ct_tier = ''junk'', ct_size = 0,
              ct_credits = 0, ct_junk = True, ct_treasure = False\<rparr>)
       else
         let oc = (case pick_outcome (u - fixedJunkRate) (eng_outcomes e) of
             None \<Rightarrow> last (eng_outcomes e) | Some oc \<Rightarrow> oc)
         in if oc_tier oc = ''treasure'' then
              Inr \<lparr>ct_key = oc_key oc, ct_tier = ''treasure'', ct_size = 0,
                ct_credits = treasure_credits e (oc_key oc) price, ct_junk = False, ct_treasure = True\<rparr>
            else
              let cs = candidates (oc_tier oc)
              in case randInt 0 (int (length cs) - 1) (dr_species dr) of None \<Rightarrow> Inl ErrRandomSource
                 | Some idx \<Rightarrow>
                   let sp = cs ! nat idx
                   in case randInt (sp_min_cm sp) (sp_max_cm sp) (dr_size dr) of None \<Rightarrow> Inl ErrRandomSource
                      | Some cm \<Rightarrow> Inr \<lparr>ct_key = sp_key sp, ct_tier = oc_tier oc, ct_size = cm,
                          ct_credits = fish_credits e (oc_tier oc) cm price,
                          ct_junk = False, ct_treasure = False\<rparr>)"

section \<open>Rounds\<close>

definition StartFishingRound ::
  "string \<Rightarrow> ((string \<times> int) list \<Rightarrow> (string \<times> int) list) \<Rightarrow> draws \<Rightarrow> int \<Rightarrow> string \<Rightarrow> fishing_config \<Rightarrow> int \<Rightarrow>
   store \<Rightarrow> store \<times> (game_error, game_round) result" where
  "StartFishingRound roundID ord dr userID bait cfg now st =
    (let price = FishingBaitPrice cfg bait in
     if \<not> GamesMasterEnabled st then (st, Inl ErrGamesDisabled)
     else if \<not> fc_enabled cfg then (st, Inl ErrGameDisabled)
     else if price \<le> 0 then (st, Inl ErrBaitUnknown)
     else case FishingEngine ord cfg bait of Inl e \<Rightarrow> (st, Inl e)
     | Inr eng \<Rightarrow>
       (case user_row userID st of None \<Rightarrow> (st, Inl ErrPlayerNotFound)
        | Some u \<Rightarrow>
          if u_is_admin u then (st, Inl ErrAdminCannotPlay)
          else
            let P = (\<lambda>u. u_id u = userID \<and> price \<le> u_credits u);
                st1 = st\<lparr>users := update_where P (add_credits (- price) now) (users st)\<rparr>
            in if count_where P (users st) \<noteq> 1 then (st, Inl ErrCreditsTooLow)
               else case rollFishingOutcome eng price dr of Inl e \<Rightarrow> (st, Inl e)
               | Inr c \<Rightarrow>
                 let round = \<lparr>g_id = roundID, g_game_id = GameIDFishing, g_user_id = userID,
                       g_bait_tier = bait, g_price = price, g_status = RoundStarted,
                       g_species_key = ct_key c, g_size_cm = ct_size c, g_is_junk = ct_junk c,
                       g_is_treasure = ct_treasure c, g_credits_won = ct_credits c,
                       g_created_at = now, g_settled_at = 0\<rparr>
                 in if by_key g_id roundID (game_rounds st1) \<noteq> None then (st, Inl ErrRoundInsert)
                    else (recordActivityTx userID now (no_activity\<lparr>ad_games := 1\<rparr>)
                            (st1\<lparr>game_rounds := game_rounds st1 @ [round]\<rparr>), Inr round)))"

definition tierOf :: "game_round \<Rightarrow> string" where
  "tierOf r = (if g_is_junk r then ''junk'' else if g_is_treasure r then ''treasure''
     else case query_row (\<lambda>sp. sp_key sp = g_species_key r) fishingSpeciesList of
            Some sp \<Rightarrow> sp_tier sp | None \<Rightarrow> ''junk'')"

definition creditsInTx :: "int \<Rightarrow> store \<Rightarrow> (game_error, int) result" where
  "creditsInTx userID st = (case user_row userID st of None \<Rightarrow> Inl ErrPlayerNotFound
     | Some u \<Rightarrow> Inr (u_credits u))"

record fishing_result =
  fr_round_id :: string
  fr_bait :: string
  fr_price :: int
  fr_species_key :: string
  fr_tier :: string
  fr_size_cm :: int
  fr_is_junk :: bool
  fr_is_treasure :: bool
  fr_meter :: bool
  fr_credits_won :: int
  fr_credits :: int
  fr_settled :: bool

definition result_of :: "game_round \<Rightarrow> fishing_result" where
  "result_of r = \<lparr>fr_round_id = g_id r, fr_bait = g_bait_tier r, fr_price = g_price r,
     fr_species_key = g_species_key r, fr_tier = tierOf r, fr_size_cm = g_size_cm r,
     fr_is_junk = g_is_junk r, fr_is_treasure = g_is_treasure r,
     fr_meter = (\<not> g_is_junk r \<and> \<not> g_is_treasure r \<and> 100 \<le> g_size_cm r),
     fr_credits_won = g_credits_won r, fr_credits = 0, fr_settled = False\<rparr>"

definition b_key :: "game_best \<Rightarrow> int \<times> string" where
  "b_key b = (b_user_id b, b_game_id b)"

definition keep_best :: "game_round \<Rightarrow> int \<Rightarrow> game_best list \<Rightarrow> game_best list" where
  "keep_best r now rows =
    (let k = (g_user_id r, g_game_id r) in
     if by_key b_key k rows = None
     then rows @ [\<lparr>b_user_id = g_user_id r, b_game_id = g_game_id r, b_species_key = g_species_key r,
            b_size_cm = g_size_cm r, b_caught_at = now\<rparr>]
     else update_where (\<lambda>b. b_key b = k)
       (\<lambda>b. b\<lparr>b_species_key := (if b_size_cm b < g_size_cm r then g_species_key r else b_species_key b),
              b_size_cm := max (b_size_cm b) (g_size_cm r),
              b_caught_at := (if b_size_cm b < g_size_cm r then now else b_caught_at b)\<rparr>) rows)"

text \<open>The result carries whether the round was newly settled.\<close>

definition SettleFishingRound ::
  "int \<Rightarrow> string \<Rightarrow> int \<Rightarrow> store \<Rightarrow> store \<times> (game_error, fishing_result \<times> bool) result" where
  "SettleFishingRound userID roundID now st =
    (case query_row (\<lambda>r. g_id r = roundID \<and> g_user_id r = userID) (game_rounds st) of
       None \<Rightarrow> (st, Inl ErrRoundNotFound)
     | Some r \<Rightarrow>
       let res = result_of r in
       if g_status r = RoundSettled then
         (case creditsInTx userID st of Inl e \<Rightarrow> (st, Inl e)
          | Inr credits \<Rightarrow> (st, Inr (res\<lparr>fr_credits := credits, fr_settled := True\<rparr>, False)))
       else
         let st1 = st\<lparr>game_rounds := update_where (\<lambda>x. g_id x = g_id r \<and> g_status x = RoundStarted)
               (\<lambda>x. x\<lparr>g_status := RoundSettled, g_settled_at := now\<rparr>) (game_rounds st)\<rparr>;
             st2 = (if 0 < g_credits_won r
               then st1\<lparr>users := update_where (\<lambda>u. u_id u = userID) (add_credits (g_credits_won r) now) (users st1)\<rparr>
               else st1);
             st3 = (if \<not> g_is_junk r \<and> \<not> g_is_treasure r \<and> 0 < g_size_cm r
               then st2\<lparr>game_bests := keep_best r now (game_bests st2)\<rparr> else st2)
         in case creditsInTx userID st3 of Inl e \<Rightarrow> (st, Inl e)
            | Inr credits \<Rightarrow> (st3, Inr (res\<lparr>fr_credits := credits\<rparr>, True)))"

definition PurgeExpiredGameRounds :: "int \<Rightarrow> store \<Rightarrow> store \<times> int" where
  "PurgeExpiredGameRounds now st =
    (let P = (\<lambda>r. g_created_at r < now - GameRoundsRetention)
     in (st\<lparr>game_rounds := delete_where P (game_rounds st)\<rparr>, count_where P (game_rounds st)))"

text \<open>The user column is not selected, so the field keeps its zero value.\<close>

definition ListGameRounds :: "int \<Rightarrow> int \<Rightarrow> int \<Rightarrow> store \<Rightarrow> game_round list" where
  "ListGameRounds userID from until st = map (\<lambda>r. r\<lparr>g_user_id := 0\<rparr>) (sort_key g_created_at
     (select_where (\<lambda>r. g_user_id r = userID \<and> from \<le> g_created_at r \<and> g_created_at r \<le> until)
       (game_rounds st)))"

definition ListGameBest :: "int \<Rightarrow> store \<Rightarrow> (string \<times> string \<times> int \<times> int) list" where
  "ListGameBest userID st = map (\<lambda>b. (b_game_id b, b_species_key b, b_size_cm b, b_caught_at b))
     (sort_key b_game_id (select_where (\<lambda>b. b_user_id b = userID) (game_bests st)))"

section \<open>Leaderboards\<close>

record leaderboard_entry =
  le_rank :: int
  le_username :: string
  le_anonymous :: bool
  le_species_key :: string
  le_size_cm :: int
  le_total :: int

definition listed_user :: "store \<Rightarrow> int \<Rightarrow> user option" where
  "listed_user st uid = (case user_row uid st of None \<Rightarrow> None
     | Some u \<Rightarrow> if u_is_admin u \<or> u_disabled u then None else Some u)"

definition shown_name :: "user \<Rightarrow> string" where
  "shown_name u = (if u_leaderboard_anon u then [] else u_username u)"

fun ranked :: "int \<Rightarrow> leaderboard_entry list \<Rightarrow> leaderboard_entry list" where
  "ranked n [] = []"
| "ranked n (e # es) = e\<lparr>le_rank := n\<rparr> # ranked (n + 1) es"

definition board_rounds :: "string \<Rightarrow> int \<Rightarrow> store \<Rightarrow> game_round list" where
  "board_rounds gameID cutoff st = select_where
     (\<lambda>r. g_game_id r = gameID \<and> g_status r = RoundSettled \<and> cutoff \<le> g_created_at r) (game_rounds st)"

definition total_won :: "string \<Rightarrow> int \<Rightarrow> store \<Rightarrow> int \<Rightarrow> int" where
  "total_won gameID cutoff st uid =
     column_sum g_credits_won (select_where (\<lambda>r. g_user_id r = uid) (board_rounds gameID cutoff st))"

definition last_settled :: "string \<Rightarrow> int \<Rightarrow> store \<Rightarrow> int \<Rightarrow> int" where
  "last_settled gameID cutoff st uid = Max (set (map g_settled_at
     (select_where (\<lambda>r. g_user_id r = uid) (board_rounds gameID cutoff st))))"

text \<open>The users of one group each of the grouped query.\<close>

definition board_users :: "string \<Rightarrow> int \<Rightarrow> store \<Rightarrow> int list" where
  "board_users gameID cutoff st = remdups (map g_user_id
     (select_where (\<lambda>r. listed_user st (g_user_id r) \<noteq> None) (board_rounds gameID cutoff st)))"

definition single_entries :: "string \<Rightarrow> store \<Rightarrow> leaderboard_entry list" where
  "single_entries gameID st = concat (map
     (\<lambda>b. case listed_user st (b_user_id b) of None \<Rightarrow> []
        | Some u \<Rightarrow> [\<lparr>le_rank = 0, le_username = shown_name u, le_anonymous = u_leaderboard_anon u,
            le_species_key = b_species_key b, le_size_cm = b_size_cm b, le_total = 0\<rparr>])
     (sort_key (\<lambda>b. - b_size_cm b) (sort_key b_caught_at
        (select_where (\<lambda>b. b_game_id b = gameID) (game_bests st)))))"

definition total_entries :: "string \<Rightarrow> int \<Rightarrow> store \<Rightarrow> leaderboard_entry list" where
  "total_entries gameID cutoff st = concat (map
     (\<lambda>uid. case listed_user st uid of None \<Rightarrow> []
        | Some u \<Rightarrow> [\<lparr>le_rank = 0, le_username = shown_name u, le_anonymous = u_leaderboard_anon u,
            le_species_key = [], le_size_cm = 0, le_total = total_won gameID cutoff st uid\<rparr>])
     (sort_key (\<lambda>uid. - total_won gameID cutoff st uid) (sort_key (last_settled gameID cutoff st)
        (board_users gameID cutoff st))))"

text \<open>The single board's standing counts every better catch; the other one's does not read the
  anonymity switch.\<close>

definition myLeaderboardStanding ::
  "string \<Rightarrow> string \<Rightarrow> int \<Rightarrow> int \<Rightarrow> store \<Rightarrow> (game_error, leaderboard_entry option) result" where
  "myLeaderboardStanding gameID board userID cutoff st =
    (if board = ''single'' then
       (case by_key b_key (userID, gameID) (game_bests st) of None \<Rightarrow> Inr None
        | Some b \<Rightarrow> (case user_row userID st of None \<Rightarrow> Inr None
          | Some u \<Rightarrow> if b_size_cm b = 0 then Inr None
            else Inr (Some \<lparr>le_rank = count_where (\<lambda>x. b_game_id x = gameID \<and> b_size_cm b < b_size_cm x)
                  (game_bests st) + 1,
                le_username = shown_name u, le_anonymous = u_leaderboard_anon u,
                le_species_key = b_species_key b, le_size_cm = b_size_cm b, le_total = 0\<rparr>)))
     else
       let total = total_won gameID cutoff st userID in
       if total \<le> 0 then Inr None
       else case user_row userID st of None \<Rightarrow> Inl ErrPlayerNotFound
       | Some u \<Rightarrow> Inr (Some \<lparr>le_rank = count_where (\<lambda>v. total < total_won gameID cutoff st v)
             (board_users gameID cutoff st) + 1,
           le_username = u_username u, le_anonymous = False, le_species_key = [], le_size_cm = 0,
           le_total = total\<rparr>))"

definition FishingLeaderboard ::
  "string \<Rightarrow> string \<Rightarrow> int \<Rightarrow> int \<Rightarrow> store \<Rightarrow>
   (game_error, leaderboard_entry list \<times> leaderboard_entry option) result" where
  "FishingLeaderboard gameID board userID now st =
    (let cutoff = now - 30 * 24 * 3600;
         entries = ranked 1 (take 20 (if board = ''single'' then single_entries gameID st
           else total_entries gameID cutoff st))
     in case myLeaderboardStanding gameID board userID cutoff st of Inl e \<Rightarrow> Inl e
        | Inr me \<Rightarrow> Inr (entries, me))"

definition SetLeaderboardAnon :: "int \<Rightarrow> bool \<Rightarrow> int \<Rightarrow> store \<Rightarrow> store" where
  "SetLeaderboardAnon userID anon now st = st\<lparr>users := update_where (\<lambda>u. u_id u = userID)
     (\<lambda>u. u\<lparr>u_leaderboard_anon := anon, u_updated_at := now\<rparr>) (users st)\<rparr>"

definition LeaderboardAnon :: "int \<Rightarrow> store \<Rightarrow> bool option" where
  "LeaderboardAnon userID st = map_option u_leaderboard_anon (user_row userID st)"

section \<open>The engine returns what it promises\<close>

definition fish_tiers :: "string list" where
  "fish_tiers = [''small'', ''regular'', ''big'', ''giant'', ''legend'']"

text \<open>The catches of a tier that are equally likely, and an average over equally likely cases.\<close>

definition fish_rolls :: "string \<Rightarrow> (fishing_species \<times> int) list" where
  "fish_rolls tier = concat (map (\<lambda>sp. map (Pair sp) [sp_min_cm sp..sp_max_cm sp]) (candidates tier))"

definition mean :: "('a \<Rightarrow> rat) \<Rightarrow> 'a list \<Rightarrow> rat" where
  "mean g xs = sum_list (map g xs) / of_nat (length xs)"

definition outcome_multiplier :: "fishing_engine \<Rightarrow> fishing_outcome \<Rightarrow> rat" where
  "outcome_multiplier e oc = (if oc_tier oc = ''treasure'' then of_int (treasure_mult (eng_mult e) (oc_key oc))
     else mean (\<lambda>(sp, cm). fishMultiplierRaw (oc_tier oc) cm * eng_scale e) (fish_rolls (oc_tier oc)))"

definition outcome_credits :: "fishing_engine \<Rightarrow> int \<Rightarrow> fishing_outcome \<Rightarrow> rat" where
  "outcome_credits e price oc = (if oc_tier oc = ''treasure'' then of_int (treasure_credits e (oc_key oc) price)
     else mean (\<lambda>(sp, cm). of_int (fish_credits e (oc_tier oc) cm price)) (fish_rolls (oc_tier oc)))"

definition expected :: "(fishing_outcome \<Rightarrow> rat) \<Rightarrow> fishing_engine \<Rightarrow> rat" where
  "expected g e = sum_list (map (\<lambda>oc. oc_prob oc * g oc) (eng_outcomes e))"

lemma math_round_close: "\<bar>of_int (math_round x) - x\<bar> \<le> 1 / 2"
proof (cases "0 \<le> x")
  case True
  then show ?thesis using floor_correct [of "x + 1 / 2"] by (simp only: math_round_def if_True) linarith
next
  case False
  then show ?thesis using ceiling_correct [of "x - 1 / 2"] by (simp only: math_round_def if_False) linarith
qed

lemma math_round_of_int [simp]: "math_round (of_int n) = n"
proof -
  have "\<lfloor>rat_of_int n + 1 / 2\<rfloor> = n" "\<lceil>rat_of_int n - 1 / 2\<rceil> = n" by linarith+
  then show ?thesis by (simp add: math_round_def)
qed

lemma round_max_close:
  assumes "0 \<le> x"
  shows "\<bar>of_int (max 0 (math_round x)) - x\<bar> \<le> 1 / 2"
  using math_round_close [of x] assms by (auto simp: max_def)

lemma tier_range_simps:
  "tier_range ''small'' = Some (5, 25)" "tier_range ''regular'' = Some (15, 35)"
  "tier_range ''big'' = Some (30, 80)" "tier_range ''giant'' = Some (60, 150)"
  "tier_range ''legend'' = Some (100, 200)"
  by code_simp+

lemma fish_tier_facts:
  assumes "tier \<in> set fish_tiers"
  shows "tier_range tier \<noteq> None \<and> fst (the (tier_range tier)) < snd (the (tier_range tier)) \<and>
    0 < fst (fishTierMult tier) \<and> 0 < snd (fishTierMult tier) \<and> tier \<noteq> ''treasure''"
  using assms by (auto simp: fish_tiers_def tier_range_simps fishTierMult_def)

lemma fish_tierE:
  assumes "tier \<in> set fish_tiers"
  obtains lo hi base span where "tier_range tier = Some (lo, hi)" "fishTierMult tier = (base, span)"
    "lo < hi" "0 < base" "0 < span" "tier \<noteq> ''treasure''"
  using fish_tier_facts [OF assms] by (cases "fishTierMult tier") auto

lemma fish_raw_pos:
  assumes "tier \<in> set fish_tiers" "tier_range tier = Some (lo, hi)" "lo \<le> cm"
  shows "0 < fishMultiplierRaw tier cm"
proof -
  obtain base span where b: "fishTierMult tier = (base, span)" "lo < hi" "0 < base" "0 < span"
    using fish_tierE [OF assms(1)] assms(2) by (metis option.inject prod.inject)
  define m where "m = base + rat_of_int (cm - lo) / of_int (hi - lo) * span"
  have "0 \<le> rat_of_int (cm - lo) / of_int (hi - lo)" using assms(3) b(2) by simp
  then have "0 < m" unfolding m_def using b(3,4) by (meson add_pos_nonneg less_imp_le mult_nonneg_nonneg)
  moreover have "fishMultiplierRaw tier cm = min 40 (if 100 \<le> cm then m * (3 / 2) else m)"
    unfolding m_def using b assms(2) by (simp add: fishMultiplierRaw_def Let_def maxFishMultiplier_def)
  ultimately show ?thesis by simp
qed

lemma sum_list_pos_rat:
  fixes xs :: "rat list"
  assumes "xs \<noteq> []" "\<And>x. x \<in> set xs \<Longrightarrow> 0 < x"
  shows "0 < sum_list xs"
proof (cases xs)
  case (Cons y ys)
  have "0 \<le> sum_list ys" using assms(2) Cons by (intro sum_list_nonneg) (simp add: less_imp_le)
  then show ?thesis using assms(2) Cons by (simp add: add_pos_nonneg)
qed (use assms(1) in simp)

lemma expectedTier_pos:
  assumes "tier \<in> set fish_tiers"
  shows "0 < expectedTierMultiplier tier"
proof -
  obtain lo hi where r: "tier_range tier = Some (lo, hi)" "lo < hi" using fish_tierE [OF assms] .
  have "0 < sum_list (map (fishMultiplierRaw tier) [lo..hi])"
    by (rule sum_list_pos_rat) (use r fish_raw_pos [OF assms r(1)] in auto)
  then show ?thesis using r by (simp add: expectedTierMultiplier_def)
qed

lemma candidates_range:
  assumes "sp \<in> set (candidates tier)"
  shows "tier_range tier = Some (sp_min_cm sp, sp_max_cm sp)"
proof -
  have "list_all (\<lambda>sp. tier_range (sp_tier sp) = Some (sp_min_cm sp, sp_max_cm sp)) fishingSpeciesList"
    by code_simp
  then show ?thesis using assms by (auto simp: candidates_def list_all_iff)
qed

lemma candidates_nonempty: "tier \<in> set fish_tiers \<Longrightarrow> candidates tier \<noteq> []"
proof -
  have "list_all (\<lambda>t. candidates t \<noteq> []) fish_tiers" by code_simp
  then show "tier \<in> set fish_tiers \<Longrightarrow> candidates tier \<noteq> []" by (simp add: list_all_iff)
qed

lemma sum_rolls:
  assumes "\<And>sp. sp \<in> set cs \<Longrightarrow> sp_min_cm sp = lo \<and> sp_max_cm sp = hi"
  shows "sum_list (map (\<lambda>(sp, cm). g cm) (concat (map (\<lambda>sp. map (Pair sp) [sp_min_cm sp..sp_max_cm sp]) cs)))
      = of_nat (length cs) * (sum_list (map g [lo..hi]) :: rat)"
    and "length (concat (map (\<lambda>sp. map (Pair sp) [sp_min_cm sp..sp_max_cm sp]) cs)) = length cs * nat (hi - lo + 1)"
  using assms by (induction cs) (simp_all add: algebra_simps comp_def)

lemma mean_fish:
  assumes "tier \<in> set fish_tiers"
  shows "mean (\<lambda>(sp, cm). fishMultiplierRaw tier cm * s) (fish_rolls tier) = expectedTierMultiplier tier * s"
proof -
  obtain lo hi where r: "tier_range tier = Some (lo, hi)" "lo < hi" using fish_tierE [OF assms] .
  have c: "sp_min_cm sp = lo \<and> sp_max_cm sp = hi" if "sp \<in> set (candidates tier)" for sp
    using candidates_range [OF that] r by simp
  define n where "n = rat_of_nat (length (candidates tier))"
  have "0 < n" unfolding n_def using candidates_nonempty [OF assms] by simp
  moreover have "rat_of_nat (length (fish_rolls tier)) = n * of_int (hi - lo + 1)"
    unfolding n_def fish_rolls_def using sum_rolls(2) [OF c] r by simp
  moreover have "sum_list (map (\<lambda>(sp, cm). fishMultiplierRaw tier cm * s) (fish_rolls tier))
      = n * (sum_list (map (fishMultiplierRaw tier) [lo..hi]) * s)"
    using sum_rolls(1) [OF c, where g = "\<lambda>cm. fishMultiplierRaw tier cm * s"]
    by (simp only: n_def fish_rolls_def sum_list_mult_const)
  ultimately show ?thesis using r by (simp add: mean_def expectedTierMultiplier_def)
qed

lemma rolls_in_range:
  "\<lbrakk>(sp, cm) \<in> set (fish_rolls tier); tier_range tier = Some (lo, hi)\<rbrakk> \<Longrightarrow> lo \<le> cm"
  using candidates_range [of sp tier] by (auto simp: fish_rolls_def)

lemma mean_close:
  assumes "\<And>x. x \<in> set xs \<Longrightarrow> \<bar>g x - h x\<bar> \<le> d" "0 \<le> d"
  shows "\<bar>mean g xs - mean h xs\<bar> \<le> d"
proof -
  have "\<bar>sum_list (map g xs) - sum_list (map h xs)\<bar> \<le> of_nat (length xs) * d"
    using assms(1)
  proof (induction xs)
    case (Cons x xs)
    have "\<bar>sum_list (map g xs) - sum_list (map h xs)\<bar> \<le> of_nat (length xs) * d" "\<bar>g x - h x\<bar> \<le> d"
      using Cons by simp_all
    then show ?case by (simp add: algebra_simps)
  qed simp
  then show ?thesis using assms(2)
    by (cases "length xs = 0") (simp_all add: mean_def diff_divide_distrib [symmetric] field_simps)
qed

lemma sum_ord:
  fixes f :: "'a \<Rightarrow> rat"
  shows "mset ys = mset xs \<Longrightarrow> sum_list (map f ys) = sum_list (map f xs)"
  by (metis mset_map sum_mset_sum_list)

text \<open>The weights of a usable bait, and the three baits have such weights.\<close>

definition bait_ok :: "bait_spec \<Rightarrow> bool" where
  "bait_ok spec \<longleftrightarrow> bs_tiers spec \<noteq> [] \<and>
     list_all (\<lambda>(tier, w). tier \<in> set fish_tiers \<and> 0 < w) (bs_tiers spec) \<and>
     list_all (\<lambda>(_, w). 0 \<le> w) (bs_tres spec)"

lemma baits_ok:
  assumes "map_of fishingBaits bait = Some spec"
  shows "bait_ok (spec\<lparr>bs_rtp := r\<rparr>)"
proof -
  have "list_all (\<lambda>(_, spec). bait_ok (spec\<lparr>bs_rtp := 0\<rparr>)) fishingBaits" by code_simp
  then have "bait_ok (spec\<lparr>bs_rtp := 0\<rparr>)" using map_of_SomeD [OF assms] by (auto simp: list_all_iff)
  then show ?thesis by (simp add: bait_ok_def)
qed

text \<open>What building an engine amounts to, in terms of the probability of a unit of weight.\<close>

lemma build_okE:
  assumes ok: "bait_ok spec" and ord: "\<And>xs. mset (ord xs) = mset xs"
    and b: "buildFishingEngine ord spec mults = Inr e"
  obtains p where "0 < p"
    "p * (of_int (sum_list (map snd (bs_tiers spec))) + of_int (sum_list (map snd (bs_tres spec)))) = 4 / 5"
    "eng_outcomes e = map (\<lambda>(t, w). \<lparr>oc_key = t, oc_tier = t, oc_prob = p * of_int w\<rparr>) (ord (bs_tiers spec)) @
       map (\<lambda>(k, w). \<lparr>oc_key = k, oc_tier = ''treasure'', oc_prob = p * of_int w\<rparr>) (ord (bs_tres spec))"
    "eng_mult e = mults" "1 / 10 \<le> eng_scale e" "eng_scale e \<le> 3"
    "eng_scale e * sum_list (map (\<lambda>(t, w). p * of_int w * expectedTierMultiplier t) (ord (bs_tiers spec)))
       + sum_list (map (\<lambda>(k, w). p * of_int w * of_int (treasure_mult mults k)) (ord (bs_tres spec))) = bs_rtp spec"
proof -
  define T where "T = sum_list (map snd (bs_tiers spec)) + sum_list (map snd (bs_tres spec))"
  define p where "p = 4 / 5 / rat_of_int T"
  have prob: "(1 - fixedJunkRate) * of_int w / of_int T = p * of_int w" for w
    by (simp add: p_def fixedJunkRate_def)
  define F where "F = sum_list (map (\<lambda>(t, w). p * of_int w * expectedTierMultiplier t) (ord (bs_tiers spec)))"
  define R where "R = sum_list (map (\<lambda>(k, w). p * of_int w * of_int (treasure_mult mults k)) (ord (bs_tres spec)))"
  have T: "0 < T" using b by (auto simp: buildFishingEngine_def Let_def T_def [symmetric] split: if_splits)
  then have p: "0 < p" by (simp add: p_def)
  have members: "set (ord xs) = set xs" for xs using ord [of xs] by (metis set_mset_mset)
  have "0 < F" unfolding F_def
  proof (rule sum_list_pos_rat)
    show "map (\<lambda>(t, w). p * of_int w * expectedTierMultiplier t) (ord (bs_tiers spec)) \<noteq> []"
      using ok members [of "bs_tiers spec"] by (auto simp: bait_ok_def)
    show "0 < x" if "x \<in> set (map (\<lambda>(t, w). p * of_int w * expectedTierMultiplier t) (ord (bs_tiers spec)))" for x
      using that ok members [of "bs_tiers spec"] p expectedTier_pos by (auto simp: bait_ok_def list_all_iff)
  qed
  moreover have e: "buildFishingEngine ord spec mults =
     (if T \<le> 0 then Inl ErrEmptyBait
      else if 0 < F \<and> ((if 0 < F then (bs_rtp spec - R) / F else 1) < 1 / 10 \<or> 3 < (if 0 < F then (bs_rtp spec - R) / F else 1))
      then Inl ErrInvalidEconomy
      else Inr \<lparr>eng_bait = spec, eng_scale = (if 0 < F then (bs_rtp spec - R) / F else 1),
        eng_outcomes = map (\<lambda>(t, w). \<lparr>oc_key = t, oc_tier = t, oc_prob = p * of_int w\<rparr>) (ord (bs_tiers spec)) @
          map (\<lambda>(k, w). \<lparr>oc_key = k, oc_tier = ''treasure'', oc_prob = p * of_int w\<rparr>) (ord (bs_tres spec)),
        eng_junk = fishingJunkList, eng_treasures = fishingTreasureList, eng_mult = mults\<rparr>)"
    unfolding buildFishingEngine_def Let_def T_def [symmetric] prob F_def R_def ..
  ultimately have "eng_outcomes e = map (\<lambda>(t, w). \<lparr>oc_key = t, oc_tier = t, oc_prob = p * of_int w\<rparr>) (ord (bs_tiers spec)) @
       map (\<lambda>(k, w). \<lparr>oc_key = k, oc_tier = ''treasure'', oc_prob = p * of_int w\<rparr>) (ord (bs_tres spec))"
    "eng_mult e = mults" "eng_scale e = (bs_rtp spec - R) / F" "1 / 10 \<le> eng_scale e" "eng_scale e \<le> 3"
    using b by (auto simp: not_less split: if_splits)
  moreover have "p * (of_int (sum_list (map snd (bs_tiers spec))) + of_int (sum_list (map snd (bs_tres spec)))) = 4 / 5"
    using T by (simp add: p_def T_def flip: of_int_add)
  ultimately show ?thesis using that p \<open>0 < F\<close> by (simp add: F_def [symmetric] R_def [symmetric])
qed

lemma pick_outcome_interval:
  assumes "\<And>oc. oc \<in> set ocs \<Longrightarrow> 0 \<le> oc_prob oc" "0 \<le> rem" "rem < sum_list (map oc_prob ocs)"
  shows "\<exists>i < length ocs. pick_outcome rem ocs = Some (ocs ! i) \<and>
    sum_list (map oc_prob (take i ocs)) \<le> rem \<and> rem < sum_list (map oc_prob (take (Suc i) ocs))"
  using assms
proof (induction ocs arbitrary: rem)
  case (Cons oc ocs)
  show ?case
  proof (cases "rem < oc_prob oc")
    case True
    then show ?thesis using Cons.prems by (intro exI [of _ 0]) simp
  next
    case False
    then obtain i where "i < length ocs" "pick_outcome (rem - oc_prob oc) ocs = Some (ocs ! i)"
      "sum_list (map oc_prob (take i ocs)) \<le> rem - oc_prob oc"
      "rem - oc_prob oc < sum_list (map oc_prob (take (Suc i) ocs))"
      using Cons.IH [of "rem - oc_prob oc"] Cons.prems by auto
    then show ?thesis using False by (intro exI [of _ "Suc i"]) (simp add: algebra_simps)
  qed
qed simp

text \<open>A draw lands on each of the numbers of a range in an interval of the same length.\<close>

lemma randInt_interval:
  assumes "0 \<le> x" "x < 1" "lo \<le> k" "k \<le> hi"
  shows "randInt lo hi (Some x) = Some k \<longleftrightarrow>
     of_int (k - lo) \<le> x * of_int (hi - lo + 1) \<and> x * of_int (hi - lo + 1) < of_int (k - lo) + 1"
proof (cases "hi \<le> lo")
  case True
  then have "hi = lo" "k = lo" using assms by simp_all
  then show ?thesis using assms by (simp add: randInt_def)
next
  case False
  have "lo + \<lfloor>x * of_int (hi - lo + 1)\<rfloor> = k \<longleftrightarrow> \<lfloor>x * of_int (hi - lo + 1)\<rfloor> = k - lo" by linarith
  then show ?thesis using False by (simp add: randInt_def floor_eq_iff)
qed

lemma randInt_in_range:
  assumes "0 \<le> x" "x < 1" "lo \<le> hi"
  shows "\<exists>k. randInt lo hi (Some x) = Some k \<and> lo \<le> k \<and> k \<le> hi"
proof (cases "hi \<le> lo")
  case False
  have "0 \<le> x * of_int (hi - lo + 1)" using assms by simp
  moreover have "x * of_int (hi - lo + 1) < of_int (hi - lo + 1)" using assms by simp
  ultimately have "0 \<le> \<lfloor>x * of_int (hi - lo + 1)\<rfloor>" "\<lfloor>x * of_int (hi - lo + 1)\<rfloor> < hi - lo + 1"
    by (simp, linarith)
  then show ?thesis using False by (simp add: randInt_def)
qed (use assms in \<open>simp add: randInt_def\<close>)

lemma mean_times: "mean g xs * c = mean (\<lambda>x. g x * c) xs"
  by (simp add: mean_def sum_list_mult_const)

lemma outcome_credits_close:
  assumes "oc_tier oc = ''treasure'' \<or> oc_tier oc \<in> set fish_tiers" "0 \<le> eng_scale e" "0 \<le> price"
  shows "\<bar>outcome_credits e price oc - outcome_multiplier e oc * of_int price\<bar> \<le> 1 / 2"
proof (cases "oc_tier oc = ''treasure''")
  case True
  have "0 \<le> treasure_mult (eng_mult e) (oc_key oc) * price" using assms(3) by (simp add: treasure_mult_def)
  then show ?thesis using True
    by (simp add: outcome_credits_def outcome_multiplier_def treasure_credits_def flip: of_int_mult)
next
  case False
  with assms(1) have t: "oc_tier oc \<in> set fish_tiers" by simp
  obtain lo hi where r: "tier_range (oc_tier oc) = Some (lo, hi)" using fish_tierE [OF t] .
  show ?thesis
    unfolding outcome_credits_def outcome_multiplier_def if_not_P [OF False] mean_times
  proof (rule mean_close)
    fix x assume x: "x \<in> set (fish_rolls (oc_tier oc))"
    obtain sp cm where [simp]: "x = (sp, cm)" by (cases x)
    have "0 \<le> fishMultiplierRaw (oc_tier oc) cm * eng_scale e * of_int price"
      using fish_raw_pos [OF t r rolls_in_range [OF _ r]] x assms(2,3) by (simp add: less_imp_le)
    then show "\<bar>(case x of (sp, cm) \<Rightarrow> rat_of_int (fish_credits e (oc_tier oc) cm price)) -
        (case x of (sp, cm) \<Rightarrow> fishMultiplierRaw (oc_tier oc) cm * eng_scale e) * of_int price\<bar> \<le> 1 / 2"
      using round_max_close by (simp add: fish_credits_def)
  qed simp
qed

lemma weighted_close:
  fixes p g h :: "'a \<Rightarrow> rat"
  assumes "\<And>x. x \<in> set xs \<Longrightarrow> 0 \<le> p x \<and> \<bar>g x - h x\<bar> \<le> d"
  shows "\<bar>sum_list (map (\<lambda>x. p x * g x) xs) - sum_list (map (\<lambda>x. p x * h x) xs)\<bar> \<le> sum_list (map p xs) * d"
  using assms
proof (induction xs)
  case (Cons x xs)
  have "\<bar>sum_list (map (\<lambda>x. p x * g x) xs) - sum_list (map (\<lambda>x. p x * h x) xs)\<bar> \<le> sum_list (map p xs) * d"
    using Cons by simp
  moreover have "\<bar>p x * g x - p x * h x\<bar> \<le> p x * d"
    using Cons.prems [of x] by (simp add: abs_mult mult_left_mono flip: right_diff_distrib)
  ultimately show ?case by (simp add: algebra_simps)
qed simp

lemma FishingEngineE:
  assumes "FishingEngine ord c bait = Inr e"
  obtains spec where "bait_ok spec" "buildFishingEngine ord spec (fc_treasure_mult c) = Inr e"
    "bs_rtp spec = of_int (if bait = ''premium'' then fc_rtp_premium c else fc_rtp c) / 100"
proof -
  obtain spec0 where s: "map_of fishingBaits bait = Some spec0"
    using assms by (cases "map_of fishingBaits bait") (auto simp: FishingEngine_def)
  define spec where "spec = spec0\<lparr>bs_rtp := of_int (if bait = ''premium'' then fc_rtp_premium c else fc_rtp c) / 100\<rparr>"
  have "buildFishingEngine ord spec (fc_treasure_mult c) = Inr e"
    using assms s unfolding spec_def by (auto simp: FishingEngine_def split: if_splits)
  moreover have "bait_ok spec" unfolding spec_def by (rule baits_ok [OF s])
  ultimately show ?thesis using that by (simp add: spec_def)
qed

lemma built_engine:
  assumes ok: "bait_ok spec" and ord: "\<And>xs. mset (ord xs) = mset xs"
    and b: "buildFishingEngine ord spec mults = Inr e"
  shows "sum_list (map oc_prob (eng_outcomes e)) = 4 / 5"
    and "oc \<in> set (eng_outcomes e) \<Longrightarrow> 0 \<le> oc_prob oc \<and> (oc_tier oc = ''treasure'' \<or> oc_tier oc \<in> set fish_tiers)"
    and "1 / 10 \<le> eng_scale e" "eng_scale e \<le> 3"
    and "expected (outcome_multiplier e) e = bs_rtp spec"
proof -
  let ?fish = "ord (bs_tiers spec)" and ?tres = "ord (bs_tres spec)"
  obtain p where p: "0 < p"
    and total: "p * (of_int (sum_list (map snd (bs_tiers spec))) + of_int (sum_list (map snd (bs_tres spec)))) = 4 / 5"
    and ocs: "eng_outcomes e = map (\<lambda>(t, w). \<lparr>oc_key = t, oc_tier = t, oc_prob = p * of_int w\<rparr>) ?fish @
       map (\<lambda>(k, w). \<lparr>oc_key = k, oc_tier = ''treasure'', oc_prob = p * of_int w\<rparr>) ?tres"
    and mult: "eng_mult e = mults"
    and scale: "1 / 10 \<le> eng_scale e" "eng_scale e \<le> 3"
    and exact: "eng_scale e * sum_list (map (\<lambda>(t, w). p * of_int w * expectedTierMultiplier t) ?fish)
       + sum_list (map (\<lambda>(k, w). p * of_int w * of_int (treasure_mult (mults) k)) ?tres) = bs_rtp spec"
    by (rule build_okE [OF ok ord b])
  have members: "set (ord xs) = set xs" for xs :: "(string \<times> int) list"
    using ord [of xs] by (metis set_mset_mset)
  have weights: "sum_list (map (\<lambda>(_, w). p * of_int w) (ord xs)) = p * of_int (sum_list (map snd xs))" for xs
  proof -
    have "sum_list (map (\<lambda>(_, w). p * of_int w) (ord xs)) = sum_list (map (\<lambda>(_, w). p * rat_of_int w) xs)"
      using ord by (rule sum_ord)
    also have "\<dots> = p * of_int (sum_list (map snd xs))" by (induction xs) (auto simp: algebra_simps)
    finally show ?thesis .
  qed
  have "sum_list (map oc_prob (eng_outcomes e)) =
      sum_list (map (\<lambda>(_, w). p * of_int w) ?fish) + sum_list (map (\<lambda>(_, w). p * of_int w) ?tres)"
    by (simp add: ocs comp_def split_def)
  then show "sum_list (map oc_prob (eng_outcomes e)) = 4 / 5"
    using total by (simp only: weights distrib_left)
  show "0 \<le> oc_prob oc \<and> (oc_tier oc = ''treasure'' \<or> oc_tier oc \<in> set fish_tiers)"
    if "oc \<in> set (eng_outcomes e)"
    using that ok p by (auto simp: ocs members bait_ok_def list_all_iff less_imp_le)
  have fish: "outcome_multiplier e \<lparr>oc_key = t, oc_tier = t, oc_prob = q\<rparr> = expectedTierMultiplier t * eng_scale e"
    if "(t, w) \<in> set ?fish" for t w q
    using that ok fish_tier_facts [of t] by (auto simp: outcome_multiplier_def mean_fish members bait_ok_def list_all_iff)
  have tres: "outcome_multiplier e \<lparr>oc_key = k, oc_tier = ''treasure'', oc_prob = q\<rparr>
      = of_int (treasure_mult mults k)" for k q
    by (simp add: outcome_multiplier_def mult)
  have "expected (outcome_multiplier e) e =
     sum_list (map (\<lambda>(t, w). p * of_int w * expectedTierMultiplier t * eng_scale e) ?fish) +
     sum_list (map (\<lambda>(k, w). p * of_int w * of_int (treasure_mult (mults) k)) ?tres)"
    unfolding expected_def ocs map_append sum_list_append map_map
    by (intro arg_cong2 [of _ _ _ _ "(+)"] arg_cong [of _ _ sum_list] map_cong)
       (auto simp: fish tres)
  also have "\<dots> = bs_rtp spec"
    unfolding exact [symmetric] by (simp add: split_def sum_list_mult_const mult.commute [of "eng_scale e"])
  finally show "expected (outcome_multiplier e) e = bs_rtp spec" .
  show "1 / 10 \<le> eng_scale e" "eng_scale e \<le> 3" by (fact scale)+
qed

lemma pick_lands:
  assumes "\<And>oc. oc \<in> set ocs \<Longrightarrow> 0 \<le> oc_prob oc" "sum_list (map oc_prob ocs) = 4 / 5"
    and "fixedJunkRate \<le> u \<and> u < 1"
  shows "\<exists>i < length ocs. pick_outcome (u - fixedJunkRate) ocs = Some (ocs ! i) \<and>
    fixedJunkRate + sum_list (map oc_prob (take i ocs)) \<le> u \<and>
    u < fixedJunkRate + sum_list (map oc_prob (take i ocs)) + oc_prob (ocs ! i)"
proof -
  obtain i where "i < length ocs" "pick_outcome (u - fixedJunkRate) ocs = Some (ocs ! i)"
    "sum_list (map oc_prob (take i ocs)) \<le> u - fixedJunkRate"
    "u - fixedJunkRate < sum_list (map oc_prob (take (Suc i) ocs))"
    using pick_outcome_interval [of ocs "u - fixedJunkRate"] assms by (auto simp: fixedJunkRate_def)
  then show ?thesis by (intro exI [of _ i]) (auto simp: take_Suc_conv_app_nth algebra_simps)
qed

text \<open>C24: The advertised return is exact. Whatever order the runtime iterates the weights in, an engine
  that is built has probabilities that, with the junk rate, sum to one; a draw beyond the junk rate
  lands on an outcome in an interval as long as its probability, so the fallback to the last one
  is never needed; the scale stays within its bounds; and the expected multiplier of a round is
  exactly the configured return. In whole credits the expectation differs from the return on the
  price by at most two fifths of a credit.\<close>

theorem fishing_return_exact:
  assumes "\<And>xs. mset (ord xs) = mset xs" "FishingEngine ord c bait = Inr e" "0 \<le> price"
  shows "fixedJunkRate + sum_list (map oc_prob (eng_outcomes e)) = 1 \<and>
    (\<forall>u. fixedJunkRate \<le> u \<and> u < 1 \<longrightarrow> (\<exists>i < length (eng_outcomes e).
       pick_outcome (u - fixedJunkRate) (eng_outcomes e) = Some (eng_outcomes e ! i) \<and>
       fixedJunkRate + sum_list (map oc_prob (take i (eng_outcomes e))) \<le> u \<and>
       u < fixedJunkRate + sum_list (map oc_prob (take i (eng_outcomes e))) + oc_prob (eng_outcomes e ! i))) \<and>
    1 / 10 \<le> eng_scale e \<and> eng_scale e \<le> 3 \<and>
    expected (outcome_multiplier e) e =
      of_int (if bait = ''premium'' then fc_rtp_premium c else fc_rtp c) / 100 \<and>
    \<bar>expected (outcome_credits e price) e -
      of_int (if bait = ''premium'' then fc_rtp_premium c else fc_rtp c) / 100 * of_int price\<bar> \<le> 2 / 5"
proof -
  obtain spec where ok: "bait_ok spec" and b: "buildFishingEngine ord spec (fc_treasure_mult c) = Inr e"
    and rtp: "bs_rtp spec = of_int (if bait = ''premium'' then fc_rtp_premium c else fc_rtp c) / 100"
    by (rule FishingEngineE [OF assms(2)])
  note built = built_engine [OF ok assms(1) b]
  have "\<bar>expected (outcome_credits e price) e - expected (\<lambda>oc. outcome_multiplier e oc * of_int price) e\<bar>
      \<le> sum_list (map oc_prob (eng_outcomes e)) * (1 / 2)"
    unfolding expected_def
    by (rule weighted_close) (use built(2,3) outcome_credits_close assms(3) in auto)
  moreover have "expected (\<lambda>oc. outcome_multiplier e oc * of_int price) e = bs_rtp spec * of_int price"
    unfolding built(5) [symmetric] expected_def by (simp add: mult.assoc flip: sum_list_mult_const)
  ultimately have "\<bar>expected (outcome_credits e price) e - bs_rtp spec * of_int price\<bar> \<le> 2 / 5"
    using built(1) by simp
  moreover have "fixedJunkRate + sum_list (map oc_prob (eng_outcomes e)) = 1"
    using built(1) by (simp add: fixedJunkRate_def)
  ultimately show ?thesis using built(3-5) pick_lands [OF _ built(1)] built(2) unfolding rtp by blast
qed

lemma sum_list_le_rat:
  fixes d :: rat
  shows "(\<And>x. x \<in> set xs \<Longrightarrow> g x \<le> d) \<Longrightarrow> sum_list (map g xs) \<le> of_nat (length xs) * d"
  by (induction xs) (auto simp: algebra_simps add_mono)

lemma expectedTier_le:
  assumes "tier \<in> set fish_tiers"
  shows "expectedTierMultiplier tier \<le> maxFishMultiplier"
proof -
  obtain lo hi where r: "tier_range tier = Some (lo, hi)" "lo < hi" using fish_tierE [OF assms] .
  have "sum_list (map (fishMultiplierRaw tier) [lo..hi]) \<le> of_nat (length [lo..hi]) * maxFishMultiplier"
    by (rule sum_list_le_rat) (auto simp: fishMultiplierRaw_def Let_def maxFishMultiplier_def split: prod.split)
  then show ?thesis using r by (simp add: expectedTierMultiplier_def field_simps)
qed

lemma expected_low_tiers:
  "expectedTierMultiplier ''small'' = 7 / 10" "expectedTierMultiplier ''regular'' = 14 / 10"
  "expectedTierMultiplier ''big'' = 3"
  by code_simp+

theorem fishing_return_exact_witness:
  "\<exists>e. FishingEngine (\<lambda>xs. xs) DefaultFishingConfig ''worm'' = Inr e \<and>
     \<bar>expected (outcome_credits e 5) e - 9 / 2\<bar> \<le> 2 / 5"
proof -
  let ?g = "expectedTierMultiplier ''giant''" and ?l = "expectedTierMultiplier ''legend''"
  have g: "0 < ?g" "?g \<le> 40" "0 < ?l" "?l \<le> 40"
    using expectedTier_pos expectedTier_le by (auto simp: fish_tiers_def maxFishMultiplier_def)
  define S where "S = 991 + 45 * ?g + 5 * ?l"
  have S: "991 < S" "S \<le> 2991" using g by (simp_all add: S_def)
  have "is_ok (FishingEngine (\<lambda>xs. xs) DefaultFishingConfig ''worm'')"
    using S by (simp add: FishingEngine_def fishingBaits_def DefaultFishingConfig_def buildFishingEngine_def Let_def
        fixedJunkRate_def treasure_mult_def map_get_def expected_low_tiers S_def field_simps)
  then obtain e where e: "FishingEngine (\<lambda>xs. xs) DefaultFishingConfig ''worm'' = Inr e"
    by (cases "FishingEngine (\<lambda>xs. xs) DefaultFishingConfig ''worm''") auto
  have "\<bar>expected (outcome_credits e 5) e - 9 / 2\<bar> \<le> 2 / 5"
    using fishing_return_exact [OF _ e, of 5] by (simp add: DefaultFishingConfig_def)
  then show ?thesis using e by blast
qed

section \<open>Balances and records over interleaved rounds\<close>

text \<open>The operations on the game tables between two purges; the configuration is the live one.\<close>

datatype game_op =
    GameStart string draws int string int
  | GameSettle int string int
  | GameAnon int bool int

fun game_exec :: "((string \<times> int) list \<Rightarrow> (string \<times> int) list) \<Rightarrow> game_op \<Rightarrow> store \<Rightarrow> store" where
  "game_exec ord (GameStart rid dr uid bait now) st =
     fst (StartFishingRound rid ord dr uid bait (FishingConfig st) now st)"
| "game_exec ord (GameSettle uid rid now) st = fst (SettleFishingRound uid rid now st)"
| "game_exec ord (GameAnon uid anon now) st = SetLeaderboardAnon uid anon now st"

text \<open>What a round has taken from its player so far, and the credits a player would have without any
  round in the table.\<close>

definition stake :: "game_round \<Rightarrow> int" where
  "stake r = g_price r - (if g_status r = RoundSettled then g_credits_won r else 0)"

definition stakes_of :: "int \<Rightarrow> game_round list \<Rightarrow> int" where
  "stakes_of uid rounds = column_sum (\<lambda>r. if g_user_id r = uid then stake r else 0) rounds"

definition credits_of :: "int \<Rightarrow> store \<Rightarrow> int" where
  "credits_of uid st = (case user_row uid st of None \<Rightarrow> 0 | Some u \<Rightarrow> u_credits u)"

definition fish_caught :: "int \<times> string \<Rightarrow> store \<Rightarrow> game_round set" where
  "fish_caught k st = {r \<in> set (game_rounds st). (g_user_id r, g_game_id r) = k \<and> g_status r = RoundSettled \<and>
     \<not> g_is_junk r \<and> \<not> g_is_treasure r \<and> 0 < g_size_cm r}"

definition is_best :: "game_best option \<Rightarrow> game_round set \<Rightarrow> bool" where
  "is_best b C = (case b of None \<Rightarrow> C = {}
     | Some b \<Rightarrow> (\<exists>r \<in> C. g_species_key r = b_species_key b \<and> g_size_cm r = b_size_cm b) \<and>
         (\<forall>r \<in> C. g_size_cm r \<le> b_size_cm b))"

definition best_exact :: "store \<Rightarrow> bool" where
  "best_exact st \<longleftrightarrow> (\<forall>k. is_best (by_key b_key k (game_bests st)) (fish_caught k st))"

definition games_ok :: "store \<Rightarrow> bool" where
  "games_ok st \<longleftrightarrow> keys_distinct u_id (users st) \<and> keys_distinct g_id (game_rounds st) \<and>
     (\<forall>u \<in> set (users st). 0 \<le> u_credits u) \<and> (\<forall>r \<in> set (game_rounds st). 0 \<le> g_credits_won r) \<and>
     best_exact st"

lemma record_games [simp]:
  "game_rounds (recordActivityTx i t d st) = game_rounds st"
  "game_bests (recordActivityTx i t d st) = game_bests st"
  by (subst record_only, simp)+

lemma add_credits_simps [simp]:
  "u_id (add_credits a now u) = u_id u" "u_credits (add_credits a now u) = u_credits u + a"
  by (simp_all add: add_credits_def)

lemma start_okE:
  assumes "StartFishingRound rid ord dr uid bait cfg now st = (st', Inr r)" "keys_distinct u_id (users st)"
  obtains u where "user_row uid st = Some u" "\<not> u_is_admin u" "g_price r \<le> u_credits u" "0 < g_price r"
    "by_key g_id rid (game_rounds st) = None" "g_id r = rid" "g_user_id r = uid" "g_status r = RoundStarted"
    "0 \<le> g_credits_won r"
    "game_rounds st' = game_rounds st @ [r]" "game_bests st' = game_bests st"
    "users st' = update_where (\<lambda>u. u_id u = uid) (add_credits (- g_price r) now) (users st)"
proof -
  let ?p = "FishingBaitPrice cfg bait"
  obtain u eng c where u: "user_row uid st = Some u" "\<not> u_is_admin u"
    and c: "count_where (\<lambda>u. u_id u = uid \<and> ?p \<le> u_credits u) (users st) = 1" and p: "0 < ?p"
    and roll: "rollFishingOutcome eng ?p dr = Inr c" and fresh: "by_key g_id rid (game_rounds st) = None"
    and r: "r = \<lparr>g_id = rid, g_game_id = GameIDFishing, g_user_id = uid, g_bait_tier = bait, g_price = ?p,
        g_status = RoundStarted, g_species_key = ct_key c, g_size_cm = ct_size c, g_is_junk = ct_junk c,
        g_is_treasure = ct_treasure c, g_credits_won = ct_credits c, g_created_at = now, g_settled_at = 0\<rparr>"
    and st': "st' = recordActivityTx uid now (no_activity\<lparr>ad_games := 1\<rparr>) (st\<lparr>
        users := update_where (\<lambda>u. u_id u = uid \<and> ?p \<le> u_credits u) (add_credits (- ?p) now) (users st),
        game_rounds := game_rounds st @ [r]\<rparr>)"
    using assms(1) by (auto simp: StartFishingRound_def Let_def split: if_splits sum.splits option.splits)
  have afford: "?p \<le> u_credits u"
    using c u(1) count_where_key [OF assms(2), of uid "\<lambda>u. ?p \<le> u_credits u"] by (auto split: if_splits)
  have "0 \<le> ct_credits c"
    using roll by (auto simp: rollFishingOutcome_def Let_def fish_credits_def treasure_credits_def
        split: option.splits if_splits)
  then show ?thesis
    using that [OF u] afford p fresh r st' update_where_key_guard [OF assms(2) u(1), of "\<lambda>u. ?p \<le> u_credits u"]
    by simp
qed

lemma start_error: "StartFishingRound rid ord dr uid bait cfg now st = (st', Inl e) \<Longrightarrow> st' = st"
  by (auto simp: StartFishingRound_def Let_def split: if_splits sum.splits option.splits)

definition settled_at :: "int \<Rightarrow> game_round \<Rightarrow> game_round" where
  "settled_at now r = r\<lparr>g_status := RoundSettled, g_settled_at := now\<rparr>"

lemma settle_cases:
  assumes "SettleFishingRound uid rid now st = (st', res)" "keys_distinct g_id (game_rounds st)"
  obtains "st' = st" "\<forall>x. res \<noteq> Inr (x, True)"
  | r u where "by_key g_id rid (game_rounds st) = Some r" "g_user_id r = uid" "g_status r = RoundStarted"
    "user_row uid st = Some u"
    "game_rounds st' = update_where (\<lambda>x. g_id x = rid) (settled_at now) (game_rounds st)"
    "users st' = (if 0 < g_credits_won r
       then update_where (\<lambda>u. u_id u = uid) (add_credits (g_credits_won r) now) (users st) else users st)"
    "game_bests st' = (if \<not> g_is_junk r \<and> \<not> g_is_treasure r \<and> 0 < g_size_cm r
       then keep_best r now (game_bests st) else game_bests st)"
    "res = Inr ((result_of r)\<lparr>fr_credits := u_credits u + max 0 (g_credits_won r)\<rparr>, True)"
proof (cases "query_row (\<lambda>r. g_id r = rid \<and> g_user_id r = uid) (game_rounds st)")
  case None
  then show ?thesis using that(1) assms(1) by (auto simp: SettleFishingRound_def)
next
  case (Some r)
  then have r: "r \<in> set (game_rounds st)" "g_id r = rid" "g_user_id r = uid"
    by (auto simp: query_row_def find_Some_iff)
  have row: "by_key g_id rid (game_rounds st) = Some r" using by_key_in_set [OF assms(2) r(1)] r(2) by simp
  show ?thesis
  proof (cases "g_status r = RoundSettled \<or> user_row uid st = None")
    case True
    then show ?thesis using that(1) assms(1) Some
      by (auto simp: SettleFishingRound_def Let_def creditsInTx_def table_simps split: option.splits if_splits)
  next
    case False
    then obtain u where u: "user_row uid st = Some u" "g_status r = RoundStarted" "u_id u = uid"
      by (cases "g_status r") (auto dest: by_key_SomeD)
    have "update_where (\<lambda>x. g_id x = rid \<and> g_status x = RoundStarted)
        (\<lambda>x. x\<lparr>g_status := RoundSettled, g_settled_at := now\<rparr>) (game_rounds st)
      = update_where (\<lambda>x. g_id x = rid) (settled_at now) (game_rounds st)"
      using update_where_key_guard [OF assms(2) row, of "\<lambda>x. g_status x = RoundStarted" "settled_at now"] u(2)
      by (simp add: settled_at_def [abs_def])
    with assms(1) Some u r(2) show ?thesis
      by (intro that(2) [OF row r(3) u(2,1)])
        (auto simp: SettleFishingRound_def Let_def creditsInTx_def table_simps max_def split: if_splits)
  qed
qed

lemma settled_at_simps [simp]:
  "g_id (settled_at now r) = g_id r" "g_user_id (settled_at now r) = g_user_id r"
  "g_game_id (settled_at now r) = g_game_id r" "g_status (settled_at now r) = RoundSettled"
  "g_species_key (settled_at now r) = g_species_key r" "g_size_cm (settled_at now r) = g_size_cm r"
  "g_is_junk (settled_at now r) = g_is_junk r" "g_is_treasure (settled_at now r) = g_is_treasure r"
  "g_credits_won (settled_at now r) = g_credits_won r" "g_price (settled_at now r) = g_price r"
  by (simp_all add: settled_at_def)

lemma b_key_simps [simp]:
  "b_key (b\<lparr>b_species_key := s, b_size_cm := n, b_caught_at := t\<rparr>) = b_key b"
  "b_key \<lparr>b_user_id = uid, b_game_id = g, b_species_key = s, b_size_cm = n, b_caught_at = t\<rparr> = (uid, g)"
  by (simp_all add: b_key_def)

lemma set_update_key:
  assumes "keys_distinct key rows" "by_key key k rows = Some r"
  shows "set (update_where (\<lambda>x. key x = k) f rows) = insert (f r) (set rows - {r})"
proof -
  have r: "r \<in> set rows" "key r = k" using by_key_SomeD [OF assms(2)] by auto
  have "(if key y = k then f y else y) = (if y = r then f r else y)" if "y \<in> set rows" for y
    using by_key_in_set [OF assms(1) that] assms(2) r(2) by auto
  then have "(\<lambda>y. if key y = k then f y else y) ` set rows = (\<lambda>y. if y = r then f r else y) ` set rows"
    by (intro image_cong refl)
  also have "\<dots> = insert (f r) (set rows - {r})" using r(1) by auto
  finally show ?thesis by (simp add: set_update_where)
qed

lemma set_swap: "\<not> P r \<Longrightarrow> {x \<in> insert a (S - {r}). P x} = {x \<in> S. P x} \<union> (if P a then {a} else {})"
  by auto

text \<open>Settling a started round adds it to the catches of its player.\<close>

lemma fish_caught_settle:
  assumes "by_key g_id rid rounds = Some r" "keys_distinct g_id rounds" "g_status r = RoundStarted"
    and "game_rounds st = rounds" "game_rounds st' = update_where (\<lambda>x. g_id x = rid) (settled_at now) rounds"
  shows "fish_caught k st' = fish_caught k st \<union>
    (if (g_user_id r, g_game_id r) = k \<and> \<not> g_is_junk r \<and> \<not> g_is_treasure r \<and> 0 < g_size_cm r
     then {settled_at now r} else {})"
proof -
  have s: "set (game_rounds st') = insert (settled_at now r) (set rounds - {r})"
    unfolding assms(5) by (rule set_update_key [OF assms(2,1)])
  let ?P = "\<lambda>x. (g_user_id x, g_game_id x) = k \<and> g_status x = RoundSettled \<and>
     \<not> g_is_junk x \<and> \<not> g_is_treasure x \<and> 0 < g_size_cm x"
  have "\<not> ?P r" using assms(3) by simp
  from set_swap [where P = ?P, OF this, of "settled_at now r" "set rounds"]
  show ?thesis unfolding fish_caught_def s assms(4) settled_at_simps by (simp only: simp_thms)
qed

lemma keep_best_exact:
  assumes "is_best (by_key b_key k bests) C"
  shows "is_best (by_key b_key k (keep_best r now bests))
    (C \<union> (if (g_user_id r, g_game_id r) = k then {settled_at t r} else {}))"
proof (cases "(g_user_id r, g_game_id r) = k")
  case False
  then have "by_key b_key k (keep_best r now bests) = by_key b_key k bests"
    by (simp add: keep_best_def Let_def by_key_update_key split: option.split)
  then show ?thesis using assms False by simp
next
  case True
  show ?thesis
  proof (cases "by_key b_key k bests")
    case None
    then show ?thesis using True assms by (simp add: keep_best_def is_best_def)
  next
    case (Some b)
    then show ?thesis using True assms
      by (auto simp: keep_best_def Let_def by_key_update_key is_best_def max_def)
  qed
qed

lemma fish_caught_frame:
  "fish_caught k (st\<lparr>users := us\<rparr>) = fish_caught k st"
  by (simp add: fish_caught_def)

lemma credits_nonneg_update:
  assumes "\<forall>u \<in> set us. 0 \<le> u_credits u" "\<And>u. u \<in> set us \<Longrightarrow> P u \<Longrightarrow> 0 \<le> u_credits u + a"
  shows "\<forall>u \<in> set (update_where P (add_credits a now) us). 0 \<le> u_credits u"
  using assms by (auto simp: set_update_where)

lemma start_games:
  assumes "games_ok st" "StartFishingRound rid ord dr uid bait cfg now st = (st', Inr r)"
  shows "games_ok st' \<and> credits_of u st' + stakes_of u (game_rounds st') = credits_of u st + stakes_of u (game_rounds st)"
proof -
  have k: "keys_distinct u_id (users st)" "keys_distinct g_id (game_rounds st)" "best_exact st"
    and nn: "\<forall>u \<in> set (users st). 0 \<le> u_credits u" "\<forall>r \<in> set (game_rounds st). 0 \<le> g_credits_won r"
    using assms(1) by (auto simp: games_ok_def)
  obtain x where x: "user_row uid st = Some x" "g_price r \<le> u_credits x"
    and r: "by_key g_id rid (game_rounds st) = None" "g_id r = rid" "g_user_id r = uid" "g_status r = RoundStarted"
      "0 \<le> g_credits_won r"
    and st': "game_rounds st' = game_rounds st @ [r]" "game_bests st' = game_bests st"
      "users st' = update_where (\<lambda>u. u_id u = uid) (add_credits (- g_price r) now) (users st)"
    by (rule start_okE [OF assms(2) k(1)])
  have only: "y = x" if "y \<in> set (users st)" "u_id y = uid" for y
    using by_key_in_set [OF k(1) that(1)] that(2) x(1) by simp
  have "fish_caught j st' = fish_caught j st" for j
    using r(4) by (auto simp: fish_caught_def st'(1))
  then have "best_exact st'" using k(3) st'(2) by (simp add: best_exact_def)
  moreover have "\<forall>u \<in> set (users st'). 0 \<le> u_credits u"
    unfolding st'(3) by (rule credits_nonneg_update [OF nn(1)]) (use only x(2) in auto)
  moreover have "keys_distinct g_id (game_rounds st')"
    using k(2) r(1,2) by (auto simp: st'(1) by_key_None)
  ultimately have "games_ok st'" using k(1) nn(2) r(5) by (simp add: games_ok_def st'(1,3))
  moreover have "credits_of u st' = credits_of u st - (if u = uid then g_price r else 0)"
    using x(1) by (auto simp: credits_of_def st'(3) by_key_update_key split: option.split)
  ultimately show ?thesis using r(3,4) by (simp add: stakes_of_def st'(1) stake_def)
qed

lemma settle_games:
  assumes "games_ok st" "SettleFishingRound uid rid now st = (st', res)"
  shows "games_ok st' \<and> credits_of u st' + stakes_of u (game_rounds st') = credits_of u st + stakes_of u (game_rounds st)"
proof -
  have k: "keys_distinct u_id (users st)" "keys_distinct g_id (game_rounds st)" "best_exact st"
    and nn: "\<forall>u \<in> set (users st). 0 \<le> u_credits u" "\<forall>r \<in> set (game_rounds st). 0 \<le> g_credits_won r"
    using assms(1) by (auto simp: games_ok_def)
  show ?thesis
  proof (cases rule: settle_cases [OF assms(2) k(2)])
    case 1
    then show ?thesis using assms(1) by simp
  next
    case (2 r x)
    have won: "0 \<le> g_credits_won r" using nn(2) by_key_SomeD [OF 2(1)] by blast
    have users: "users st' = update_where (\<lambda>u. u_id u = uid \<and> 0 < g_credits_won r) (add_credits (g_credits_won r) now) (users st)"
      unfolding 2(6) by (auto intro!: update_where_cong update_where_none [symmetric])
    have caught: "fish_caught j st' = fish_caught j st \<union>
      (if (g_user_id r, g_game_id r) = j \<and> \<not> g_is_junk r \<and> \<not> g_is_treasure r \<and> 0 < g_size_cm r
       then {settled_at now r} else {})" for j
      by (rule fish_caught_settle [OF 2(1) k(2) 2(3) refl 2(5)])
    have "is_best (by_key b_key j (game_bests st')) (fish_caught j st')" for j
    proof -
      have "is_best (by_key b_key j (game_bests st)) (fish_caught j st)" using k(3) unfolding best_exact_def by blast
      then show ?thesis using keep_best_exact [of j "game_bests st" "fish_caught j st" r now now]
        unfolding caught 2(7) by (cases "\<not> g_is_junk r \<and> \<not> g_is_treasure r \<and> 0 < g_size_cm r") auto
    qed
    then have "best_exact st'" by (simp add: best_exact_def)
    moreover have "\<forall>u \<in> set (users st'). 0 \<le> u_credits u"
      unfolding users by (rule credits_nonneg_update [OF nn(1)]) (use nn(1) won in auto)
    moreover have "\<forall>r \<in> set (game_rounds st'). 0 \<le> g_credits_won r"
      using nn(2) by (auto simp: 2(5) set_update_where)
    ultimately have "games_ok st'" using k(1,2) by (simp add: games_ok_def 2(5) users)
    moreover have "credits_of u st' = credits_of u st + (if u = uid then g_credits_won r else 0)"
      using 2(4) won by (auto simp: credits_of_def 2(6) by_key_update_key split: option.split)
    moreover have "stakes_of u (game_rounds st') = stakes_of u (game_rounds st) - (if u = uid then g_credits_won r else 0)"
      using 2(1,2,3) by (simp add: stakes_of_def 2(5) column_sum_update_key [OF k(2)] stake_def)
    ultimately show ?thesis by simp
  qed
qed

lemma game_exec_ok:
  assumes "games_ok st"
  shows "games_ok (game_exec ord op st) \<and> credits_of u (game_exec ord op st) + stakes_of u (game_rounds (game_exec ord op st))
     = credits_of u st + stakes_of u (game_rounds st)"
proof (cases op)
  case (GameStart rid dr uid bait now)
  obtain st' res where s: "StartFishingRound rid ord dr uid bait (FishingConfig st) now st = (st', res)"
    by (cases "StartFishingRound rid ord dr uid bait (FishingConfig st) now st")
  show ?thesis
  proof (cases res)
    case (Inl e)
    then show ?thesis using start_error s assms GameStart by fastforce
  next
    case (Inr r)
    then show ?thesis using start_games [OF assms] s GameStart by simp
  qed
next
  case (GameSettle uid rid now)
  then show ?thesis using settle_games [OF assms, of uid rid now] by (cases "SettleFishingRound uid rid now st") simp
next
  case (GameAnon uid anon now)
  then show ?thesis using assms
    by (auto simp: SetLeaderboardAnon_def games_ok_def credits_of_def best_exact_def fish_caught_frame
        table_simps set_update_where split: option.split)
qed

lemma query_owner:
  "keys_distinct g_id rounds \<Longrightarrow> query_row (\<lambda>r. g_id r = rid \<and> g_user_id r = uid) rounds =
     (case by_key g_id rid rounds of None \<Rightarrow> None | Some r \<Rightarrow> if g_user_id r = uid then Some r else None)"
proof (induction rounds)
  case (Cons a rounds)
  have "by_key g_id (g_id a) rounds = None" using Cons.prems by (simp add: by_key_None)
  then show ?case using Cons by (auto simp: query_row_def)
qed (simp add: query_row_def)

lemma result_of_settled [simp]: "result_of (settled_at now r) = result_of r"
  by (simp add: result_of_def tierOf_def settled_at_def)

lemma settle_replay:
  assumes "keys_distinct g_id (game_rounds st)" "SettleFishingRound uid rid now st = (st1, Inr (res, new))"
  shows "SettleFishingRound uid rid later st1 = (st1, Inr (res\<lparr>fr_settled := True\<rparr>, False))"
proof (cases rule: settle_cases [OF assms(2,1)])
  case 1
  have new: "\<not> new" using 1(2) by (cases new) auto
  obtain r where r: "query_row (\<lambda>r. g_id r = rid \<and> g_user_id r = uid) (game_rounds st) = Some r"
    using assms(2) by (cases "query_row (\<lambda>r. g_id r = rid \<and> g_user_id r = uid) (game_rounds st)")
      (simp_all add: SettleFishingRound_def)
  have "g_status r = RoundSettled"
    using assms(2) r new by (auto simp: SettleFishingRound_def Let_def split: if_splits sum.splits)
  then show ?thesis using assms(2) r 1(1) by (auto simp: SettleFishingRound_def Let_def split: sum.splits)
next
  case (2 r u)
  have row: "by_key g_id rid (game_rounds st1) = Some (settled_at now r)"
    using 2(1) by (simp add: 2(5) by_key_update_key)
  have "creditsInTx uid st1 = Inr (u_credits u + max 0 (g_credits_won r))"
    using 2(4) by (simp add: creditsInTx_def 2(6) by_key_update_key)
  then show ?thesis using 2(2,8) assms(1) row
    by (simp add: SettleFishingRound_def query_owner 2(5))
qed

text \<open>C23: Rounds are paid exactly once. Over any interleaving of starts, settlements and switches of
  any players, the credits of a player and what his rounds have taken from him (the prices, less
  the winnings of the settled ones) always add up to the same; nobody's credits fall below zero;
  the record of a player is his largest settled catch; and settling a round again answers as
  before and changes nothing.\<close>

theorem rounds_paid_exactly_once:
  assumes "games_ok st" "st' = fold (game_exec ord) ops st"
  shows "credits_of u st' + stakes_of u (game_rounds st') = credits_of u st + stakes_of u (game_rounds st) \<and>
    (\<forall>x \<in> set (users st'). 0 \<le> u_credits x) \<and> best_exact st' \<and>
    (\<forall>rid now st1 res new later. SettleFishingRound u rid now st' = (st1, Inr (res, new)) \<longrightarrow>
       SettleFishingRound u rid later st1 = (st1, Inr (res\<lparr>fr_settled := True\<rparr>, False)))"
proof -
  have "games_ok st' \<and> credits_of u st' + stakes_of u (game_rounds st') = credits_of u st + stakes_of u (game_rounds st)"
    unfolding assms(2) using assms(1) game_exec_ok [where ord = ord and u = u]
    by (induction ops arbitrary: st) simp_all
  then show ?thesis using settle_replay by (simp add: games_ok_def) blast
qed

definition sample_round :: game_round where
  "sample_round = \<lparr>g_id = ''r'', g_game_id = GameIDFishing, g_user_id = 1, g_bait_tier = ''worm'', g_price = 5,
     g_status = RoundStarted, g_species_key = ''koi'', g_size_cm = 120, g_is_junk = False,
     g_is_treasure = False, g_credits_won = 70, g_created_at = 100, g_settled_at = 0\<rparr>"

definition sample_player :: user where
  "sample_player = \<lparr>u_id = 1, u_discord_id = ''d'', u_username = ''p'', u_avatar = [], u_is_admin = False,
     u_disabled = False, u_banned_until = 0, u_auto_banned = False, u_ban_reason = [], u_credits = 20,
     u_last_checkin_day = [], u_rpm_limit_a = None, u_rpm_limit_b = None, u_rpm_limit_c = None,
     u_donation_credit = 0, u_charity_enabled = True, u_lang = [], u_created_at = 0, u_updated_at = 0,
     u_level = None, u_leaderboard_anon = False\<rparr>"

definition sample_pond :: store where
  "sample_pond = empty_store\<lparr>users := [sample_player], user_seq := 1, game_rounds := [sample_round]\<rparr>"

theorem rounds_paid_exactly_once_witness:
  "credits_of 1 (fold (game_exec (\<lambda>xs. xs)) [GameSettle 1 ''r'' 200, GameSettle 1 ''r'' 300] sample_pond) = 90"
proof -
  let ?st' = "fold (game_exec (\<lambda>xs. xs)) [GameSettle 1 ''r'' 200, GameSettle 1 ''r'' 300] sample_pond"
  have ok: "games_ok sample_pond"
    by (auto simp: games_ok_def sample_pond_def sample_player_def sample_round_def empty_store_def best_exact_def
        is_best_def fish_caught_def)
  have "credits_of 1 sample_pond + stakes_of 1 (game_rounds sample_pond) = 25" by code_simp
  moreover have "stakes_of 1 (game_rounds ?st') = - 65" by code_simp
  ultimately show ?thesis using rounds_paid_exactly_once [OF ok refl, of 1 "\<lambda>xs. xs"
      "[GameSettle 1 ''r'' 200, GameSettle 1 ''r'' 300]"] by linarith
qed

end
