(* ===== verification/System.thy ===== *)
theory System
  imports Applications Games
begin

text \<open>
  The composition of the components that share the store: the call ledger, the donation pool with
  its prices, accounts and their statistics, donation applications and mini-games. A step of the
  system is one operation of one component, in any order; what a component's invariant looks at is
  kept by the operations of the others.
\<close>

section \<open>Steps\<close>

text \<open>What the callers of an operation ensure: the donor of a new donation is a user, the number of
  uses an applicant submits is not negative, counted events are not negative.\<close>

inductive system_step ::
  "crypto \<Rightarrow> ((string \<times> int) list \<Rightarrow> (string \<times> int) list) \<Rightarrow> store \<Rightarrow> store \<Rightarrow> bool"
  for c ord where
  Ledger: "system_step c ord st (ledger_exec x st)"
| Pool: "donor_exists (u_id ` set (users st)) x \<Longrightarrow> system_step c ord st (pool_exec c x st)"
| Account: "on_day day x \<Longrightarrow> system_step c ord st (account_exec x st)"
| Application: "total_submitted x \<Longrightarrow> system_step c ord st (application_exec c x st)"
| Game: "system_step c ord st (game_exec ord x st)"

inductive reachable ::
  "crypto \<Rightarrow> ((string \<times> int) list \<Rightarrow> (string \<times> int) list) \<Rightarrow> store \<Rightarrow> bool"
  for c ord where
  Start: "reachable c ord empty_store"
| Step: "\<lbrakk>reachable c ord st; system_step c ord st st'\<rbrakk> \<Longrightarrow> reachable c ord st'"

inductive_cases system_stepE: "system_step c ord st st'"

definition system_ok :: "store \<Rightarrow> bool" where
  "system_ok st \<longleftrightarrow> accounts_ok st \<and> reviews_ok st"

lemma system_ok_parts:
  "system_ok st \<longleftrightarrow> ledger_ok st \<and> accounts_ok st \<and> applicants_ok st \<and> links_ok st"
  by (auto simp: system_ok_def accounts_ok_def reviews_ok_def)

section \<open>Frames\<close>

text \<open>What keeps the accounts' part, once the ledger is well formed.\<close>

lemma accounts_frame:
  assumes "accounts_ok st" "ledger_ok st'" "user_activity_daily st' = user_activity_daily st"
    "map u_id (users st') = map u_id (users st)" "user_seq st' = user_seq st"
  shows "accounts_ok st'"
proof -
  have "u_id ` set (users st') = u_id ` set (users st)" using assms(4) by (metis set_map)
  then show ?thesis using assms by (simp add: accounts_ok_def activity_ok_def keys_distinct_def)
qed

text \<open>What keeps the applications and their links: rows only disappear, keep their links and are
  never moved to pending or approved; donations of a remaining applicant stay his or are new.\<close>

definition review_frame :: "store \<Rightarrow> store \<Rightarrow> bool" where
  "review_frame st st' \<longleftrightarrow> donation_seq st \<le> donation_seq st' \<and>
     (\<forall>a' \<in> set (donation_applications st'). ap_user_id a' \<in> u_id ` set (users st) \<longrightarrow> ap_user_id a' \<in> u_id ` set (users st')) \<and>
     (\<forall>a' \<in> set (donation_applications st'). \<exists>a \<in> set (donation_applications st).
        link_view a' = link_view a \<and> ap_total_count a' = ap_total_count a \<and>
        (ap_status a' = ap_status a \<or> ap_status a' = AppStatusInvalidated)) \<and>
     (\<forall>d' \<in> set (donations st'). donation_seq st < d_id d' \<or> (\<exists>d \<in> set (donations st). d_id d' = d_id d \<and>
        (\<forall>a' \<in> set (donation_applications st'). d_source_user_id d = Some (ap_user_id a') \<longrightarrow>
           d_source_user_id d' = Some (ap_user_id a'))))"

lemma review_frame_source:
  assumes "review_frame st st'" "d' \<in> set (donations st')" "d_id d' \<le> donation_seq st"
    "a' \<in> set (donation_applications st')"
  obtains d where "d \<in> set (donations st)" "d_id d' = d_id d"
    "d_source_user_id d = Some (ap_user_id a') \<longrightarrow> d_source_user_id d' = Some (ap_user_id a')"
proof -
  have "\<not> donation_seq st < d_id d'" using assms(3) by simp
  then show ?thesis using assms(1,2,4) that unfolding review_frame_def by blast
qed

lemma review_frame_keeps:
  assumes "review_frame st st'" "applicants_ok st" "links_ok st"
  shows "applicants_ok st' \<and> links_ok st'"
proof
  have row: "\<exists>a \<in> set (donation_applications st). link_view a' = link_view a \<and>
      ap_total_count a' = ap_total_count a \<and> (ap_status a' = ap_status a \<or> ap_status a' = AppStatusInvalidated)"
    if "a' \<in> set (donation_applications st')" for a'
    using assms(1) that unfolding review_frame_def by blast
  show "applicants_ok st'"
    unfolding applicants_ok_def
  proof
    fix a' assume a': "a' \<in> set (donation_applications st')"
    obtain a where a: "a \<in> set (donation_applications st)" "link_view a' = link_view a"
      "ap_total_count a' = ap_total_count a" using row [OF a'] by blast
    then have "0 \<le> ap_total_count a'" "ap_user_id a' \<in> u_id ` set (users st)"
      using assms(2) by (simp_all add: applicants_ok_def link_view_def)
    then show "0 \<le> ap_total_count a' \<and> ap_user_id a' \<in> u_id ` set (users st')"
      using assms(1) a' unfolding review_frame_def by blast
  qed
  have "link_view ` set (donation_applications st') \<subseteq> link_view ` set (donation_applications st)"
    using row by blast
  then have "unshared (donation_applications st')"
    using unshared_sub assms(3) unfolding links_ok_def by blast
  moreover have "link_ok st' a'" if a': "a' \<in> set (donation_applications st')" for a'
  proof -
    obtain a where a: "a \<in> set (donation_applications st)" "link_view a' = link_view a"
      "ap_status a' = ap_status a \<or> ap_status a' = AppStatusInvalidated" using row [OF a'] by blast
    have old: "link_ok st a" using assms(3) a(1) by (simp add: links_ok_def)
    have v: "ap_user_id a' = ap_user_id a" "ap_donation_id a' = ap_donation_id a"
      using a(2) by (simp_all add: link_view_def)
    have "d_source_user_id d' = Some (ap_user_id a')"
      if d': "d' \<in> set (donations st')" "ap_donation_id a' = Some (d_id d')" for d'
    proof -
      have "d_id d' \<le> donation_seq st" using old d'(2) v(2) by (simp add: link_ok_def)
      then obtain d where d: "d \<in> set (donations st)" "d_id d' = d_id d"
        "d_source_user_id d = Some (ap_user_id a') \<longrightarrow> d_source_user_id d' = Some (ap_user_id a')"
        by (rule review_frame_source [OF assms(1) d'(1) _ a'])
      have "d_source_user_id d = Some (ap_user_id a')" using old d(1,2) d'(2) v by (simp add: link_ok_def)
      then show ?thesis using d(3) by simp
    qed
    then show ?thesis using old v a(3) assms(1) unfolding review_frame_def link_ok_def by auto
  qed
  ultimately show "links_ok st'" by (simp add: links_ok_def)
qed

text \<open>The usual case: users stay, applications keep their links, donations their sources.\<close>

lemma review_frameI:
  assumes "donation_applications st' = donation_applications st" "donation_seq st' = donation_seq st"
    "u_id ` set (users st) \<subseteq> u_id ` set (users st')"
    "source_view ` set (donations st') \<subseteq> source_view ` set (donations st)"
  shows "review_frame st st'"
proof -
  have "\<exists>d \<in> set (donations st). d_id d' = d_id d \<and> d_source_user_id d' = d_source_user_id d"
    if "d' \<in> set (donations st')" for d'
  proof -
    have "source_view d' \<in> source_view ` set (donations st)" by (rule subsetD [OF assms(4) imageI [OF that]])
    then obtain d where d: "d \<in> set (donations st)" "source_view d' = source_view d" by (elim imageE)
    have "d_id d' = d_id d" "d_source_user_id d' = d_source_user_id d"
      using d(2) by (simp_all add: source_view_def)
    then show ?thesis using d(1) by blast
  qed
  then have "\<forall>d' \<in> set (donations st'). donation_seq st < d_id d' \<or> (\<exists>d \<in> set (donations st). d_id d' = d_id d \<and>
        (\<forall>a' \<in> set (donation_applications st'). d_source_user_id d = Some (ap_user_id a') \<longrightarrow>
           d_source_user_id d' = Some (ap_user_id a')))"
    by metis
  moreover have "\<forall>a' \<in> set (donation_applications st'). \<exists>a \<in> set (donation_applications st).
        link_view a' = link_view a \<and> ap_total_count a' = ap_total_count a \<and>
        (ap_status a' = ap_status a \<or> ap_status a' = AppStatusInvalidated)"
    unfolding assms(1) by blast
  moreover have "\<forall>a' \<in> set (donation_applications st'). ap_user_id a' \<in> u_id ` set (users st) \<longrightarrow>
      ap_user_id a' \<in> u_id ` set (users st')"
    using assms(3) by blast
  ultimately show ?thesis unfolding review_frame_def using assms(2) by simp
qed

lemma review_frame_refl [simp]: "review_frame st st"
  by (rule review_frameI) simp_all

section \<open>Each component keeps the others' part\<close>

subsection \<open>The ledger\<close>

lemma map_user_edit [simp]:
  "map u_id (update_where P (add_credits a now) us) = map u_id us"
  "map u_id (update_where P (reward_donor b now) us) = map u_id us"
  by (simp_all add: reward_donor_def)

lemma map_use_edit [simp]:
  "map source_view (update_where P (claim_use now) ds) = map source_view ds"
  "map source_view (update_where P (record_success_use now) ds) = map source_view ds"
  "map source_view (update_where P (restore_use n now) ds) = map source_view ds"
  by (simp_all add: source_view_def claim_use_def record_success_use_def restore_use_def)

lemma ledger_exec_frame:
  "user_activity_daily (ledger_exec x st) = user_activity_daily st"
  "user_seq (ledger_exec x st) = user_seq st"
  "donation_applications (ledger_exec x st) = donation_applications st"
  "donation_seq (ledger_exec x st) = donation_seq st"
  "map u_id (users (ledger_exec x st)) = map u_id (users st)"
  "map source_view (donations (ledger_exec x st)) = map source_view (donations st)"
  by (cases x; simp add: ReserveCharityCall_def MarkCharityDispatched_def CommitCharityReservation_def
      ReleaseCharityReservation_def PurgeSettledCharityReservations_def Let_def
      split: option.split reservation_status.split)+

lemma ledger_step_ok:
  assumes "system_ok st"
  shows "system_ok (ledger_exec x st)"
proof -
  have l: "ledger_ok (ledger_exec x st)" using assms ledger_exec_ok by (simp add: system_ok_parts)
  have "accounts_ok (ledger_exec x st)"
    by (rule accounts_frame [OF _ l]) (use assms in \<open>simp_all add: system_ok_def ledger_exec_frame\<close>)
  moreover have "review_frame st (ledger_exec x st)"
  proof (rule review_frameI)
    show "u_id ` set (users st) \<subseteq> u_id ` set (users (ledger_exec x st))"
      using ledger_exec_frame(5) [of x st] by (metis set_map subset_refl)
    show "source_view ` set (donations (ledger_exec x st)) \<subseteq> source_view ` set (donations st)"
      using ledger_exec_frame(6) [of x st] by (metis set_map subset_refl)
  qed (simp_all add: ledger_exec_frame)
  ultimately show ?thesis using assms l review_frame_keeps by (simp add: system_ok_parts)
qed

subsection \<open>The pool\<close>

lemma source_frame:
  assumes "donation_seq st \<le> donation_seq st'"
    "source_view ` set (donations st') \<subseteq> source_view ` set (donations st) \<union> {v. donation_seq st < fst v}"
    "u_id ` set (users st) \<subseteq> u_id ` set (users st')"
    "donation_applications st' = update_where P f (donation_applications st)"
    "\<And>a. link_view (f a) = link_view a" "\<And>a. ap_total_count (f a) = ap_total_count a"
    "\<And>a. ap_status (f a) = ap_status a \<or> ap_status (f a) = AppStatusInvalidated"
  shows "review_frame st st'"
proof -
  have "donation_seq st < d_id d' \<or> (\<exists>d \<in> set (donations st). d_id d' = d_id d \<and> d_source_user_id d' = d_source_user_id d)"
    if d': "d' \<in> set (donations st')" for d'
  proof -
    have "source_view d' \<in> source_view ` set (donations st) \<union> {v. donation_seq st < fst v}"
      by (rule subsetD [OF assms(2) imageI [OF d']])
    then consider d where "d \<in> set (donations st)" "source_view d' = source_view d" | "donation_seq st < d_id d'"
      by (auto simp: source_view_def)
    then show ?thesis by cases (simp_all add: source_view_def, blast)
  qed
  then have "\<forall>d' \<in> set (donations st'). donation_seq st < d_id d' \<or> (\<exists>d \<in> set (donations st). d_id d' = d_id d \<and>
        (\<forall>a' \<in> set (donation_applications st'). d_source_user_id d = Some (ap_user_id a') \<longrightarrow>
           d_source_user_id d' = Some (ap_user_id a')))"
    by metis
  moreover have "\<exists>a \<in> set (donation_applications st). link_view a' = link_view a \<and>
      ap_total_count a' = ap_total_count a \<and> (ap_status a' = ap_status a \<or> ap_status a' = AppStatusInvalidated)"
    if m: "a' \<in> set (donation_applications st')" for a'
  proof -
    obtain a where "a \<in> set (donation_applications st)" "a' = (if P a then f a else a)"
      using m unfolding assms(4) set_update_where by blast
    then show ?thesis using assms(5-7) by (intro bexI [of _ a]) auto
  qed
  moreover have "\<forall>a' \<in> set (donation_applications st'). ap_user_id a' \<in> u_id ` set (users st) \<longrightarrow>
      ap_user_id a' \<in> u_id ` set (users st')"
    using assms(3) by blast
  ultimately show ?thesis unfolding review_frame_def using assms(1) by blast
qed

text \<open>A donation of the table stays where it is, with its source, or disappears.\<close>

definition pool_frame :: "store \<Rightarrow> store \<Rightarrow> bool" where
  "pool_frame st st' \<longleftrightarrow> donation_applications st' = donation_applications st \<and>
     donation_seq st' = donation_seq st \<and> users st' = users st \<and> user_seq st' = user_seq st \<and>
     user_activity_daily st' = user_activity_daily st \<and>
     source_view ` set (donations st') \<subseteq> source_view ` set (donations st)"

lemma pool_frame_refl [simp]: "pool_frame st st"
  by (simp add: pool_frame_def)

lemma pool_frame_trans: "\<lbrakk>pool_frame s t; pool_frame t u\<rbrakk> \<Longrightarrow> pool_frame s u"
  unfolding pool_frame_def by (metis subset_trans)

lemma pool_frame_edit:
  "(\<And>d. source_view (f d) = source_view d) \<Longrightarrow> pool_frame st (st\<lparr>donations := update_where P f (donations st)\<rparr>)"
  by (auto simp: pool_frame_def set_update_where)

lemma pool_frame_delete: "pool_frame st (st\<lparr>donations := delete_where P (donations st)\<rparr>)"
  by (auto simp: pool_frame_def)

lemma pool_frame_pricing: "pool_frame st (st\<lparr>charity_pricing := ps\<rparr>)"
  by (simp add: pool_frame_def)

lemma pool_frame_review: "pool_frame st st' \<Longrightarrow> review_frame st st'"
  by (rule review_frameI) (auto simp: pool_frame_def)

lemma put_status_frame: "pool_frame st (SetDonationStatus i s now st)"
  unfolding SetDonationStatus_def by (rule pool_frame_edit) (simp add: source_view_def)

lemma batch_status_frame: "pool_frame st (fst (BatchSetDonationStatus ids s now st))"
proof -
  have "pool_frame st (fold (\<lambda>i. SetDonationStatus i s now) ids st)"
    by (induction ids arbitrary: st) (auto intro: pool_frame_trans put_status_frame)
  then show ?thesis by (auto simp: BatchSetDonationStatus_def split: option.split)
qed

lemma delete_frame: "pool_frame st (fst (deleteDonationTx i st))"
  by (simp add: deleteDonationTx_def Let_def pool_frame_delete)

lemma deletes_frame: "pool_frame st (fst (DeleteDonations ids st))"
  unfolding DeleteDonations_def
  by (rule in_transaction_preserves) (auto intro: pool_frame_trans delete_frame)

lemma counters_frame:
  "pool_frame st (fst (RecordDonationSuccess i now st))"
  "pool_frame st (fst (RecordDonationFailure i now st))"
  "pool_frame st (fst (ExpireOverdueDonations now st))"
  by (auto simp: RecordDonationSuccess_def RecordDonationFailure_def ExpireOverdueDonations_def Let_def
      source_view_def claim_use_def record_success_use_def intro!: pool_frame_edit)

lemma pricing_frame:
  "pool_frame st (fst (UpsertPricing s m p r st))" "pool_frame st (fst (PatchPricing s m patch st))"
  "pool_frame st (fst (DeletePricing s m st))" "pool_frame st (fst (DeletePricingBatch ps st))"
  "pool_frame st (fst (SetPricingEnabled s m b st))"
  by (auto simp: UpsertPricing_def PatchPricing_def DeletePricing_def DeletePricingBatch_def
      SetPricingEnabled_def Let_def pool_frame_pricing split: option.split prod.split)

lemma create_frame: "review_frame st (fst (CreateDonation c now d key st))"
proof -
  have "review_frame st (st\<lparr>donations := donations st @ [new_donation c now (donation_seq st + 1) key enc d],
      donation_seq := donation_seq st + 1\<rparr>)" for enc
    by (rule source_frame [where P = "\<lambda>_. False" and f = "\<lambda>a. a"]) (auto simp: source_view_def update_where_def)
  then show ?thesis by (auto simp: CreateDonation_def Let_def split: option.split)
qed

lemma patch_frame:
  assumes "keys_ok st"
  shows "review_frame st (fst (PatchDonation c now i patch st))"
proof (cases "PatchDonation c now i patch st")
  case (Pair st' res)
  show ?thesis
  proof (cases res)
    case (Inl e)
    then show ?thesis using PatchDonation_error Pair by fastforce
  next
    case (Inr r)
    have aps: "\<exists>n. donation_applications st' = update_where
        (\<lambda>a. ap_donation_id a = Some i \<and> dp_review_note patch \<noteq> None) (\<lambda>a. a\<lparr>ap_review_note := n\<rparr>) (donation_applications st)"
      using Pair by (auto simp: Inr PatchDonation_def store_patch_def Let_def update_where_def
          split: sum.split_asm option.split_asm if_split_asm)
    show ?thesis
    proof (rule PatchDonation_okE [OF Pair [unfolded Inr] assms])
      fix d key
      assume ds: "donations st' = update_where (\<lambda>d. d_id d = i) (patched_row now patch key) (donations st)"
        and fr: "st' = st\<lparr>donations := donations st', donation_applications := donation_applications st'\<rparr>"
      have seq: "donation_seq st' = donation_seq st" "users st' = users st" by (subst fr, simp)+
      obtain n where n: "donation_applications st' = update_where
          (\<lambda>a. ap_donation_id a = Some i \<and> dp_review_note patch \<noteq> None) (\<lambda>a. a\<lparr>ap_review_note := n\<rparr>) (donation_applications st)"
        using aps by blast
      have "review_frame st st'"
        by (rule source_frame [OF _ _ _ n]) (auto simp: seq ds set_update_where source_view_def link_view_def)
      then show ?thesis by (simp add: Pair)
    qed
  qed
qed

lemma invalidate_frame: "review_frame st (InvalidateDonationsForService u s now st)"
  by (rule source_frame [where P = "\<lambda>a. ap_user_id a = u \<and> ap_service a = s \<and> ap_status a = AppStatusPending"
        and f = "\<lambda>a. a\<lparr>ap_status := AppStatusInvalidated, ap_review_note := ''auto-invalidated by template regeneration''\<rparr>"])
    (auto simp: InvalidateDonationsForService_def set_update_where source_view_def link_view_def)

lemma pool_exec_accounts:
  "user_activity_daily (pool_exec c x st) = user_activity_daily st \<and> user_seq (pool_exec c x st) = user_seq st"
proof (cases x)
  case (PoolCreate now d key)
  then show ?thesis by (auto simp: CreateDonation_def Let_def split: option.split)
next
  case (PoolPatch now i patch)
  then show ?thesis by (auto simp: PatchDonation_def store_patch_def Let_def split: sum.split option.split)
next
  case (PoolStatus i s now)
  then show ?thesis using put_status_frame by (simp add: pool_frame_def)
next
  case (PoolBatchStatus ids s now)
  then show ?thesis using batch_status_frame by (simp add: pool_frame_def)
next
  case (PoolDeleteBatch ids)
  then show ?thesis using deletes_frame by (simp add: pool_frame_def)
next
  case (PoolInvalidate u s now)
  then show ?thesis by (simp add: InvalidateDonationsForService_def)
qed (use delete_frame counters_frame pricing_frame in \<open>simp_all add: pool_frame_def DeleteDonation_def\<close>)

lemma pool_exec_frame:
  assumes "keys_ok st"
  shows "review_frame st (pool_exec c x st)"
  using create_frame patch_frame [OF assms] invalidate_frame
  by (cases x) (simp_all add: pool_frame_review put_status_frame batch_status_frame delete_frame deletes_frame
      counters_frame pricing_frame DeleteDonation_def)

lemma pool_step_ok:
  assumes "system_ok st" "donor_exists (u_id ` set (users st)) x"
  shows "system_ok (pool_exec c x st)"
proof -
  have ok: "ledger_ok st" using assms(1) by (simp add: system_ok_parts)
  have l: "ledger_ok (pool_exec c x st)" by (rule pool_exec_ok [OF ok assms(2)])
  have "accounts_ok (pool_exec c x st)"
    by (rule accounts_frame [OF _ l]) (use assms(1) pool_exec_accounts in \<open>simp_all add: system_ok_def\<close>)
  then show ?thesis
    using assms(1) l review_frame_keeps [OF pool_exec_frame [OF ledger_ok_keys [OF ok], of c x]] by (simp add: system_ok_parts)
qed

subsection \<open>Accounts\<close>

definition pool_view :: "store \<Rightarrow> application list \<times> donation list \<times> int" where
  "pool_view st = (donation_applications st, donations st, donation_seq st)"

lemma pool_view_site: "x = st\<lparr>site_activity_daily := site_activity_daily x\<rparr> \<Longrightarrow> pool_view x = pool_view st"
  by (erule ssubst) (simp add: pool_view_def)

lemma pool_view_record [simp]: "pool_view (recordActivityTx i t d st) = pool_view st"
  by (subst record_only) (simp add: pool_view_def)

lemmas pool_view_stats [simp] = pool_view_site [OF finalize_only] pool_view_site [OF adjust_only]
  pool_view_site [OF new_user_only]

lemma pool_view_edit [simp]:
  "pool_view (update_user i f st) = pool_view st" "pool_view (update_member i f st) = pool_view st"
  "pool_view (insert_user u st) = pool_view st"
  by (simp_all add: pool_view_def update_user_def update_member_def insert_user_def)

lemmas stats_users [simp] = exact_only_site(1) [OF finalize_only] exact_only_site(1) [OF adjust_only]
  exact_only_site(1) [OF new_user_only]

lemma ids_edit [simp]:
  "u_id ` set (users (update_user i (set_disabled b reason now) st)) = u_id ` set (users st)"
  "u_id ` set (users (update_member i (unban now) st)) = u_id ` set (users st)"
  by (simp_all add: update_user_def update_member_def set_disabled_def unban_def)

lemma pool_view_review:
  assumes "pool_view st' = pool_view st" "u_id ` set (users st) \<subseteq> u_id ` set (users st')"
  shows "review_frame st st'"
  using assms by (intro review_frameI) (simp_all add: pool_view_def)

lemma deletion_frame:
  assumes "keys_ok st" "deleteUserAt i now st = (st', res)"
  shows "review_frame st st'"
  using assms(2,1)
proof (cases rule: deleteUserAt_cases)
  case (deleted u)
  let ?aps = "donation_applications st" and ?f = "\<lambda>a. a\<lparr>ap_reviewer_id := None\<rparr>"
  have aps: "donation_applications st' =
      delete_where (\<lambda>x. ap_user_id x = i) (update_where (\<lambda>a. ap_reviewer_id a = Some i) ?f ?aps)"
    and ds: "donations st' = update_where (\<lambda>d. d_source_user_id d = Some i)
       (\<lambda>d. d\<lparr>d_source_user_id := None, d_source_discord_id := [], d_source_username := []\<rparr>) (donations st)"
    by (simp_all add: deleted(5) erased_fields)
  have others: "ap_user_id a' \<noteq> i" if "a' \<in> set (donation_applications st')" for a'
    using that by (simp add: aps)
  have "\<exists>a \<in> set ?aps. link_view a' = link_view a \<and> ap_total_count a' = ap_total_count a \<and>
      (ap_status a' = ap_status a \<or> ap_status a' = AppStatusInvalidated)"
    if m: "a' \<in> set (donation_applications st')" for a'
  proof -
    have "a' \<in> set (update_where (\<lambda>a. ap_reviewer_id a = Some i) ?f ?aps)" using m by (simp add: aps)
    then obtain a where "a \<in> set ?aps" "a' = (if ap_reviewer_id a = Some i then ?f a else a)"
      unfolding set_update_where by blast
    then show ?thesis by (intro bexI [of _ a]) (auto simp: link_view_def)
  qed
  moreover have "\<exists>d \<in> set (donations st). d_id d' = d_id d \<and>
        (\<forall>a' \<in> set (donation_applications st'). d_source_user_id d = Some (ap_user_id a') \<longrightarrow>
           d_source_user_id d' = Some (ap_user_id a'))"
    if m: "d' \<in> set (donations st')" for d'
  proof -
    obtain d where "d \<in> set (donations st)" "d' = (if d_source_user_id d = Some i
        then d\<lparr>d_source_user_id := None, d_source_discord_id := [], d_source_username := []\<rparr> else d)"
      using m unfolding ds set_update_where by blast
    then show ?thesis using others by (intro bexI [of _ d]) auto
  qed
  moreover have "donation_seq st' = donation_seq st" by (simp add: deleted(5) erased_fields)
  moreover have "ap_user_id a' \<in> u_id ` set (users st')"
    if "a' \<in> set (donation_applications st')" "ap_user_id a' \<in> u_id ` set (users st)" for a'
    using that others [OF that(1)] by (auto simp: deleted(5))
  ultimately show ?thesis unfolding review_frame_def by (metis order_refl)
qed simp

lemma account_exec_frame:
  assumes "keys_ok st"
  shows "review_frame st (account_exec x st)"
proof (cases x)
  case (AccDelete i now)
  then show ?thesis using deletion_frame [OF assms] by (cases "deleteUserAt i now st") simp
next
  case (AccCreate d n a now)
  have "u_id ` set (users st) \<subseteq> u_id ` set (users (insert_user u st))" for u by (auto simp: insert_user_def)
  then show ?thesis unfolding AccCreate by (intro pool_view_review) (simp_all add: CreateUser_def Let_def)
next
  case (AccRecord i t d)
  then show ?thesis by (intro pool_view_review) simp_all
next
  case (AccCheckin i day bonus cap bypass now)
  then show ?thesis
    by (intro pool_view_review) (simp add: ApplyUserCheckin_def Let_def split: option.split,
        simp add: ApplyUserCheckin_def Let_def update_user_def split: option.split)
next
  case (AccDisable i b reason now)
  then show ?thesis
    by (intro pool_view_review) (simp_all add: setUserDisabledAt_def Let_def split: option.split)
next
  case (AccUnban i now)
  then show ?thesis
    by (intro pool_view_review) (simp_all add: unbanUserAt_def Let_def split: option.split)
qed

lemma account_step_ok:
  assumes "system_ok st" "on_day day x"
  shows "system_ok (account_exec x st)"
proof -
  have a: "accounts_ok (account_exec x st)" using account_exec_ok assms by (simp add: system_ok_def)
  have "keys_ok st" using assms(1) by (simp add: system_ok_parts ledger_ok_keys)
  then show ?thesis using a assms(1) review_frame_keeps [OF account_exec_frame]
    by (simp add: system_ok_parts) (simp add: accounts_ok_def)
qed

subsection \<open>Applications\<close>

definition account_view :: "store \<Rightarrow> user_activity list \<times> user list \<times> int" where
  "account_view st = (user_activity_daily st, users st, user_seq st)"

lemma approve_account_view:
  assumes "keys_ok st"
  shows "account_view (fst (approveApplicationTx c now reviewer m n i st)) = account_view st"
proof (cases "approveApplicationTx c now reviewer m n i st")
  case (Pair st' res)
  show ?thesis
  proof (cases res)
    case (Inl e)
    then show ?thesis using approve_error Pair by fastforce
  next
    case (Inr p)
    obtain app d where p: "p = (app, d)" by (cases p)
    from Pair have "approveApplicationTx c now reviewer m n i st = (st', Inr (app, d))" by (simp add: Inr p)
    then show ?thesis by (rule approve_okE [OF _ assms]) (simp add: Pair account_view_def)
  qed
qed

lemma reject_account_view: "account_view (fst (rejectApplicationTx reviewer n i st)) = account_view st"
  by (simp add: rejectApplicationTx_def claim_review_def Let_def account_view_def update_applications_def
      split: option.split)

lemma application_exec_accounts:
  assumes "reviews_ok st"
  shows "account_view (application_exec c x st) = account_view st"
proof -
  let ?Q = "\<lambda>s. reviews_ok s \<and> account_view s = account_view st"
  have keys: "keys_ok s" if "reviews_ok s" for s using that by (simp add: reviews_ok_def ledger_ok_keys)
  have "?Q (fst (ApproveApplications c now ids r n st))" for now ids r n
    unfolding ApproveApplications_def
    by (rule in_transaction_preserves) (use assms approve_reviews_ok approve_account_view keys in auto)
  moreover have "?Q (fst (RejectApplications ids r n st))" for ids r n
    unfolding RejectApplications_def
    by (rule in_transaction_preserves) (use assms reject_reviews_ok reject_account_view in auto)
  moreover have "account_view (fst (CreateDonationApplicationWithLimit c now q lim st)) = account_view st" for now q lim
    by (simp add: CreateDonationApplicationWithLimit_def Let_def account_view_def split: option.split)
  moreover have "account_view (update_applications P f st) = account_view st" for P f
    by (simp add: update_applications_def account_view_def)
  ultimately show ?thesis
    using approve_account_view [OF keys [OF assms]] reject_account_view
    by (cases x) (simp_all add: SetApplicationMapping_def UpdateDonationReviewNote_def
        ApproveApplication_def RejectApplication_def)
qed

lemma application_step_ok:
  assumes "system_ok st" "total_submitted x"
  shows "system_ok (application_exec c x st)"
proof -
  have r: "reviews_ok st" "accounts_ok st" using assms(1) by (simp_all add: system_ok_def)
  have r': "reviews_ok (application_exec c x st)" by (rule application_exec_ok [OF r(1) assms(2)])
  have "accounts_ok (application_exec c x st)"
    by (rule accounts_frame [OF r(2)])
      (use r' application_exec_accounts [OF r(1), of c x] in \<open>simp_all add: reviews_ok_def account_view_def\<close>)
  with r' show ?thesis by (simp add: system_ok_def)
qed

subsection \<open>Games\<close>

lemma accounts_games [simp]:
  "accounts_ok (st\<lparr>game_rounds := gs\<rparr>) = accounts_ok st" "accounts_ok (st\<lparr>game_bests := bs\<rparr>) = accounts_ok st"
  by (simp_all add: accounts_ok_def activity_ok_def ledger_ok_def keys_ok_def)

lemma accounts_edit:
  assumes "accounts_ok st" "\<And>u. u_id (f u) = u_id u"
  shows "accounts_ok (st\<lparr>users := update_where P f (users st)\<rparr>)"
proof -
  have m: "map u_id (update_where P f (users st)) = map u_id (users st)" by (rule map_update_where) (rule assms(2))
  have "ledger_ok (st\<lparr>users := update_where P f (users st)\<rparr>)"
    by (rule ledger_ok_users [OF _ m]) (use assms(1) in \<open>simp add: accounts_ok_def\<close>)
  then show ?thesis by (rule accounts_frame [OF assms(1)]) (simp_all add: m)
qed

definition game_frame :: "store \<Rightarrow> store \<Rightarrow> bool" where
  "game_frame st st' \<longleftrightarrow> (accounts_ok st \<longrightarrow> accounts_ok st') \<and> pool_view st' = pool_view st \<and>
     u_id ` set (users st') = u_id ` set (users st)"

lemma game_frame_refl [simp]: "game_frame st st"
  by (simp add: game_frame_def)

lemma game_frame_trans: "\<lbrakk>game_frame s t; game_frame t u\<rbrakk> \<Longrightarrow> game_frame s u"
  by (simp add: game_frame_def)

lemma game_frame_steps:
  "game_frame st (st\<lparr>game_rounds := gs\<rparr>)" "game_frame st (st\<lparr>game_bests := bs\<rparr>)"
  "(\<And>u. u_id (f u) = u_id u) \<Longrightarrow> game_frame st (st\<lparr>users := update_where P f (users st)\<rparr>)"
  "delta_ok d \<Longrightarrow> game_frame st (recordActivityTx i t d st)"
  by (simp_all add: game_frame_def record_accounts_ok accounts_edit) (simp_all add: pool_view_def)

lemma start_frame: "game_frame st (fst (StartFishingRound rid ord dr uid bait cfg now st))"
proof -
  have d: "delta_ok (no_activity\<lparr>ad_games := 1\<rparr>)" by (simp add: delta_ok_def no_activity_def)
  let ?st = "\<lambda>p r. st\<lparr>users := update_where (\<lambda>u. u_id u = uid \<and> p \<le> u_credits u) (add_credits (- p) now) (users st),
     game_rounds := game_rounds st @ [r]\<rparr>"
  have "game_frame st (?st p r)" for p r
    by (rule game_frame_trans [OF game_frame_steps(3) game_frame_steps(1)]) simp
  then have "game_frame st (recordActivityTx uid now (no_activity\<lparr>ad_games := 1\<rparr>) (?st p r))" for p r
    by (rule game_frame_trans) (rule game_frame_steps(4) [OF d])
  then show ?thesis
    by (simp add: StartFishingRound_def Let_def split: option.split sum.split)
qed

lemma settle_frame: "game_frame st (fst (SettleFishingRound uid rid now st))"
proof -
  have "game_frame st (st\<lparr>game_rounds := gs, users := update_where P (add_credits a now) (users st)\<rparr>)" for gs P a
  proof -
    have "game_frame (st\<lparr>game_rounds := gs\<rparr>) (st\<lparr>game_rounds := gs\<rparr>\<lparr>users := update_where P (add_credits a now)
        (users (st\<lparr>game_rounds := gs\<rparr>))\<rparr>)"
      by (rule game_frame_steps(3)) simp
    from game_frame_trans [OF game_frame_steps(1) this] show ?thesis by simp
  qed
  moreover have "game_frame st (st\<lparr>game_rounds := gs\<rparr>)" for gs by (rule game_frame_steps(1))
  moreover have "game_frame st (s\<lparr>game_bests := bs\<rparr>)" if "game_frame st s" for s bs
    by (rule game_frame_trans [OF that game_frame_steps(2)])
  ultimately show ?thesis
    by (simp add: SettleFishingRound_def Let_def split: option.split sum.split)
qed

lemma game_exec_frame: "game_frame st (game_exec ord x st)"
proof (cases x)
  case (GameAnon uid anon now)
  then show ?thesis by (simp add: SetLeaderboardAnon_def game_frame_steps(3))
qed (use start_frame settle_frame in simp_all)

lemma game_step_ok:
  assumes "system_ok st"
  shows "system_ok (game_exec ord x st)"
proof -
  have f: "accounts_ok (game_exec ord x st)" "review_frame st (game_exec ord x st)"
    using game_exec_frame [of st ord x] assms by (auto simp: game_frame_def system_ok_def intro!: pool_view_review)
  then show ?thesis using assms review_frame_keeps by (simp add: system_ok_parts) (simp add: accounts_ok_def)
qed

section \<open>Reachable stores\<close>

lemma empty_store_ok: "system_ok empty_store"
  by (simp add: system_ok_def accounts_ok_def reviews_ok_def ledger_ok_def keys_ok_def activity_ok_def
      applicants_ok_def links_ok_def unshared_def empty_store_def)

lemma system_step_ok: "system_step c ord st st' \<Longrightarrow> system_ok st \<Longrightarrow> system_ok st'"
  by (erule system_stepE) (simp_all add: ledger_step_ok pool_step_ok account_step_ok application_step_ok game_step_ok)

lemma reachable_ok: "reachable c ord st \<Longrightarrow> system_ok st"
  by (induction rule: reachable.induct) (auto simp: empty_store_ok intro: system_step_ok)

end
