(* ===== verification/Streaming.thy ===== *)
theory Streaming
  imports Diagnostic
begin

text \<open>
  The two ends of a streamed call. \<^verbatim>\<open>dify/client.go\<close> reads the upstream's event stream: lines within
  a limit, \<^verbatim>\<open>data:\<close> payloads, a budget of bytes. \<^verbatim>\<open>translator/sse.go\<close> turns each upstream event into
  an OpenAI frame. The encoder of Go's \<^verbatim>\<open>encoding/json\<close> is modelled for the values the frames hold;
  decoding an upstream payload into a \<open>stream_event\<close> is a parameter.
\<close>

section \<open>JSON values and their encoding\<close>

datatype json = JNull | JInt int | JStr string | JArr "json list" | JObj "(string \<times> json) list"

definition hex_digit :: "nat \<Rightarrow> char" where
  "hex_digit n = char_of (if n < 10 then 48 + n else 87 + n)"

definition backslash :: char where "backslash = CHR 0x5C"

definition escape_byte :: "char \<Rightarrow> string" where
  "escape_byte c =
    (if c = CHR 0x22 \<or> c = backslash then [backslash, c]
     else if c = CHR 0x08 then backslash # ''b'' else if c = CHR 0x0C then backslash # ''f''
     else if c = CHR 0x0A then backslash # ''n'' else if c = CHR 0x0D then backslash # ''r''
     else if c = CHR 0x09 then backslash # ''t''
     else if byte c < 0x20 \<or> c = CHR ''<'' \<or> c = CHR ''>'' \<or> c = CHR ''&''
     then backslash # ''u00'' @ [hex_digit (byte c div 16), hex_digit (byte c mod 16)]
     else [c])"

text \<open>A rune of two to four bytes: only U+2028 and U+2029 are escaped.\<close>

definition escape_wide :: "string \<Rightarrow> string" where
  "escape_wide r =
    (if r = [CHR 0xE2, CHR 0x80, CHR 0xA8] then backslash # ''u2028''
     else if r = [CHR 0xE2, CHR 0x80, CHR 0xA9] then backslash # ''u2029'' else r)"

function escape :: "string \<Rightarrow> string" where
  "escape s =
    (if s = [] then []
     else if rune_len s = 0 then backslash # ''ufffd'' @ escape (tl s)
     else if rune_len s = 1 then escape_byte (hd s) @ escape (tl s)
     else escape_wide (take (rune_len s) s) @ escape (drop (rune_len s) s))"
  by pat_completeness auto
termination by (relation "measure length") auto

declare escape.simps [simp del]

definition quoted :: "string \<Rightarrow> string" where
  "quoted s = CHR 0x22 # escape s @ [CHR 0x22]"

fun comma_join :: "string list \<Rightarrow> string" where
  "comma_join [] = []"
| "comma_join [x] = x"
| "comma_join (x # xs) = x @ '','' @ comma_join xs"

text \<open>\<open>json.Marshal\<close>: the members of a Go map are written in the order of their keys.\<close>

primrec Marshal :: "json \<Rightarrow> string" where
  "Marshal JNull = ''null''"
| "Marshal (JInt i) = Itoa i"
| "Marshal (JStr s) = quoted s"
| "Marshal (JArr xs) = ''['' @ comma_join (map Marshal xs) @ '']''"
| "Marshal (JObj kvs) = ''{'' @ comma_join (map (\<lambda>(k, v). quoted k @ '':'' @ v)
     (sort_key fst (map (map_prod id Marshal) kvs))) @ ''}''"

section \<open>Upstream events\<close>

record stream_event =
  ev_event :: string
  ev_task_id :: string
  ev_text :: string
  ev_reasoning :: string
  ev_status :: string
  ev_error :: string

section \<open>The converter\<close>

text \<open>\<open>sc_sanitize\<close> is the display policy for upstream error text that the handler supplies.\<close>

record stream_converter =
  sc_chunk_id :: string
  sc_model_name :: string
  sc_created :: int
  sc_first_chunk :: bool
  sc_received_text :: bool
  sc_done :: bool
  sc_failed :: bool
  sc_fail_msg :: string
  sc_sanitize :: "string \<Rightarrow> string"

text \<open>The clock is read in nanoseconds for the id and in seconds for the creation time.\<close>

definition NewStreamConverter ::
  "string \<Rightarrow> (string \<Rightarrow> string) option \<Rightarrow> int \<Rightarrow> int \<Rightarrow> stream_converter" where
  "NewStreamConverter modelName sanitizeError nanos seconds =
    \<lparr>sc_chunk_id = ''chatcmpl-'' @ Itoa (nanos div 1000 mod 1000000000000),
     sc_model_name = modelName, sc_created = seconds, sc_first_chunk = True,
     sc_received_text = False, sc_done = False, sc_failed = False, sc_fail_msg = [],
     sc_sanitize = (case sanitizeError of None \<Rightarrow> (\<lambda>_. ''upstream workflow failed'') | Some f \<Rightarrow> f)\<rparr>"

definition str_member :: "string \<Rightarrow> string \<Rightarrow> (string \<times> json) list" where
  "str_member k v = (if v = [] then [] else [(k, JStr v)])"

definition chunk_delta :: "string \<Rightarrow> string \<Rightarrow> bool \<Rightarrow> json" where
  "chunk_delta content reasoning includeRole = JObj
     ((if includeRole then [(''role'', JStr ''assistant'')] else []) @
      str_member ''content'' content @ str_member ''reasoning_content'' reasoning)"

definition buildStreamChunk ::
  "string \<Rightarrow> string \<Rightarrow> int \<Rightarrow> string \<Rightarrow> string \<Rightarrow> bool \<Rightarrow> string \<Rightarrow> json" where
  "buildStreamChunk cid model created content reasoning includeRole finishReason = JObj
    [(''id'', JStr cid), (''object'', JStr ''chat.completion.chunk''), (''created'', JInt created),
     (''model'', JStr model),
     (''choices'', JArr [JObj
        [(''index'', JInt 0), (''delta'', chunk_delta content reasoning includeRole),
         (''finish_reason'', if finishReason \<noteq> [] then JStr finishReason else JNull)]])]"

definition sse_frame :: "string \<Rightarrow> string" where
  "sse_frame payload = ''data: '' @ payload @ [CHR 0x0A, CHR 0x0A]"

definition formatSSEChunk :: "json \<Rightarrow> string" where
  "formatSSEChunk chunk = sse_frame (Marshal chunk)"

definition error_body :: "string \<Rightarrow> json" where
  "error_body message = JObj [(''error'', JObj [(''message'', JStr message),
     (''type'', JStr ''upstream_error''), (''code'', JStr ''upstream_error'')])]"

definition formatSSEError :: "string \<Rightarrow> string" where
  "formatSSEError message = sse_frame (Marshal (error_body message))"

text \<open>What a call of \<open>Convert\<close> writes is kept as the JSON value of its frame; \<open>SSEMessage.Data\<close> is
  \<open>formatSSEChunk\<close> of it.\<close>

definition converter_chunk :: "string \<Rightarrow> string \<Rightarrow> bool \<Rightarrow> string \<Rightarrow> stream_converter \<Rightarrow> json" where
  "converter_chunk content reasoning includeRole finishReason c =
     buildStreamChunk (sc_chunk_id c) (sc_model_name c) (sc_created c) content reasoning includeRole finishReason"

definition first_nonempty :: "string list \<Rightarrow> string" where
  "first_nonempty ss = (case filter (\<lambda>s. s \<noteq> []) ss of [] \<Rightarrow> [] | s # _ \<Rightarrow> s)"

definition fail_stream :: "string \<Rightarrow> stream_converter \<Rightarrow> stream_converter \<times> json option" where
  "fail_stream msg c = (c\<lparr>sc_done := True, sc_failed := True, sc_fail_msg := msg\<rparr>,
     Some (error_body (''[Dify] '' @ sc_sanitize c (''workflow failed: '' @ msg))))"

definition Convert :: "stream_event \<Rightarrow> stream_converter \<Rightarrow> stream_converter \<times> json option" where
  "Convert evt c =
    (if ev_event evt = ''text_chunk'' then
       if ev_text evt = [] then (c, None)
       else (c\<lparr>sc_received_text := True, sc_first_chunk := False\<rparr>,
             Some (converter_chunk (ev_text evt) [] (sc_first_chunk c) [] c))
     else if ev_event evt = ''reasoning_chunk'' then
       if ev_reasoning evt = [] then (c, None)
       else (c\<lparr>sc_first_chunk := False\<rparr>,
             Some (converter_chunk [] (ev_reasoning evt) (sc_first_chunk c) [] c))
     else if ev_event evt = ''workflow_finished'' then
       if ev_status evt = ''failed''
       then fail_stream (first_nonempty [ev_error evt, ev_text evt, ''workflow failed'']) c
       else (c\<lparr>sc_done := True\<rparr>, Some (converter_chunk [] [] False ''stop'' c))
     else if ev_event evt = ''error'' then
       fail_stream (first_nonempty [ev_error evt, ev_text evt, ''upstream error'']) c
     else (c, None))"

definition Finalize :: "stream_converter \<Rightarrow> json list" where
  "Finalize c = (if sc_done c \<or> \<not> sc_received_text c then []
     else [converter_chunk [] [] False ''stop'' c])"

text \<open>The handlers' use of the converter: every event of a stream, in order.\<close>

fun convert_all :: "stream_event list \<Rightarrow> stream_converter \<Rightarrow> stream_converter \<times> json list" where
  "convert_all [] c = (c, [])"
| "convert_all (e # es) c =
    (case Convert e c of (c1, out) \<Rightarrow>
     case convert_all es c1 of (c2, outs) \<Rightarrow>
       (c2, (case out of None \<Rightarrow> outs | Some m \<Rightarrow> m # outs)))"

section \<open>Reading the upstream stream\<close>

definition DefaultMaxResponseBytes :: int where "DefaultMaxResponseBytes = 32 * 2 ^ 20"
definition maxErrorResponseBytes :: int where "maxErrorResponseBytes = 64 * 2 ^ 10"
definition maxSSELineBytes :: int where "maxSSELineBytes = 10 * 2 ^ 20"

definition responseLimit :: "int \<Rightarrow> int" where
  "responseLimit maxResponseBytes =
     (if maxResponseBytes \<le> 0 then DefaultMaxResponseBytes else maxResponseBytes)"

text \<open>What an error of the transport tells the code: its text, and the answers of \<open>errors.Is\<close> and
  \<open>errors.As\<close> for the classes that are asked for.\<close>

record transport_error =
  te_text :: string
  te_canceled :: bool
  te_deadline :: bool
  te_timeout :: bool
  te_refused :: bool
  te_dns :: bool
  te_net :: bool

datatype read_error = ReadError transport_error | ResponseTooLarge int | ScanError transport_error
  | LineTooLong | InvalidSSEJson string

text \<open>\<open>readLimited\<close> on a body that the transport delivers as these bytes, with the error it ends in.\<close>

definition readLimited :: "string \<Rightarrow> transport_error option \<Rightarrow> int \<Rightarrow> (read_error, string) result" where
  "readLimited body err limit =
    (let read = take (nat (limit + 1)) body in
     case (if int (length body) \<le> limit then err else None) of
       Some e \<Rightarrow> Inl (ReadError e)
     | None \<Rightarrow> if limit < int (length read) then Inl (ResponseTooLarge limit) else Inr read)"

text \<open>The limits of \<open>parseSSEContext\<close>.\<close>

definition sse_budget :: "int \<Rightarrow> int" where
  "sse_budget maxBytes = (if maxBytes \<le> 0 then DefaultMaxResponseBytes else maxBytes)"

definition sse_line_limit :: "int \<Rightarrow> int" where
  "sse_line_limit maxBytes = (let l = min maxSSELineBytes (sse_budget maxBytes)
     in if l < 64 * 2 ^ 10 then 64 * 2 ^ 10 else l)"

text \<open>\<open>bufio.ScanLines\<close>: the lines without their terminator, a last one that is not terminated
  only when it is not empty; then one carriage return is dropped.\<close>

definition not_lf :: "char \<Rightarrow> bool" where "not_lf c \<longleftrightarrow> c \<noteq> CHR 0x0A"

function raw_lines :: "string \<Rightarrow> string list" where
  "raw_lines s = (if s = [] then []
     else takeWhile not_lf s # raw_lines (tl (dropWhile not_lf s)))"
  by pat_completeness auto
termination
proof (relation "measure length")
  fix s :: string
  assume s: "s \<noteq> []"
  have "length (tl (dropWhile P s)) < length s" for P
    using s length_dropWhile_le [of P s] by (cases s; cases "dropWhile P s") auto
  then show "(tl (dropWhile not_lf s), s) \<in> measure length" by simp
qed simp

declare raw_lines.simps [simp del]

definition drop_cr :: "string \<Rightarrow> string" where
  "drop_cr l = (if l \<noteq> [] \<and> last l = CHR 0x0D then butlast l else l)"

text \<open>The scan loop: the events that were sent, and the error the loop ended in, if any. A line that
  does not fit into the scanner's buffer together with its terminator stops the scan; a read error
  shows after the last line. \<open>decode\<close> stands for \<open>json.Unmarshal\<close> into a \<open>StreamEvent\<close>.\<close>

definition sse_payload :: "string \<Rightarrow> string" where
  "sse_payload line = TrimSpace (drop (length ''data:'') line)"

fun sse_loop ::
  "(string \<Rightarrow> (string, 'e) result) \<Rightarrow> int \<Rightarrow> int \<Rightarrow> transport_error option \<Rightarrow> int \<Rightarrow> string list \<Rightarrow>
   'e list \<times> read_error option" where
  "sse_loop decode lineLimit maxBytes err used [] = ([], map_option ScanError err)"
| "sse_loop decode lineLimit maxBytes err used (raw # rest) =
    (if lineLimit \<le> int (length raw) then ([], Some LineTooLong)
     else let line = drop_cr raw; used = used + int (length line) + 1 in
       if maxBytes < used then ([], Some (ResponseTooLarge maxBytes))
       else if \<not> prefix ''data:'' line \<or> sse_payload line = []
       then sse_loop decode lineLimit maxBytes err used rest
       else case decode (sse_payload line) of
         Inl m \<Rightarrow> ([], Some (InvalidSSEJson m))
       | Inr e \<Rightarrow> map_prod (Cons e) id (sse_loop decode lineLimit maxBytes err used rest))"

definition parseSSE ::
  "(string \<Rightarrow> (string, 'e) result) \<Rightarrow> int \<Rightarrow> string \<Rightarrow> transport_error option \<Rightarrow> 'e list \<times> read_error option" where
  "parseSSE decode maxBytes body err =
     sse_loop decode (sse_line_limit maxBytes) (sse_budget maxBytes) err 0 (raw_lines body)"

section \<open>Frames hold no line break\<close>

definition printable :: "string \<Rightarrow> bool" where
  "printable s \<longleftrightarrow> (\<forall>c \<in> set s. 0x20 \<le> byte c)"

lemma printable_simps [simp]:
  "printable []" "printable (c # s) \<longleftrightarrow> 0x20 \<le> byte c \<and> printable s"
  "printable (s @ t) \<longleftrightarrow> printable s \<and> printable t"
  by (auto simp: printable_def)

lemma printable_no_lf: "printable s \<Longrightarrow> CHR 0x0A \<notin> set s"
  by (auto simp: printable_def)

lemma hex_digit_printable: "n < 16 \<Longrightarrow> 0x20 \<le> byte (hex_digit n)"
  by (auto simp: hex_digit_def)

lemma byte_bound: "byte c < 256"
  by (rule nat_of_char_less_256)

lemma escape_byte_printable: "printable (escape_byte c)"
proof -
  have "byte c div 16 < 16" "byte c mod 16 < 16" using byte_bound [of c]
    by (simp_all add: less_mult_imp_div_less)
  then show ?thesis
    by (auto simp: escape_byte_def backslash_def hex_digit_printable)
qed

lemma rune_bytes_printable:
  assumes "1 < rune_len s"
  shows "printable (take (rune_len s) s)"
proof -
  have "0x20 \<le> byte (s ! i)" if i: "i < rune_len s" for i
  proof (cases i)
    case 0
    then show ?thesis using assms
      by (cases s rule: rune_len.cases) (auto split: if_splits)
  next
    case (Suc j)
    then show ?thesis using rune_cont [of i s] i by (auto simp: is_cont_def in_range_def)
  qed
  then show ?thesis
    using rune_len_le [of s] by (auto simp: printable_def in_set_conv_nth)
qed

lemma escape_printable: "printable (escape s)"
proof (induction s rule: escape.induct)
  case (1 s)
  show ?case
  proof (cases "s = [] \<or> rune_len s \<le> 1")
    case True
    then show ?thesis using 1
      by (subst escape.simps) (auto simp: backslash_def escape_byte_printable)
  next
    case False
    then have "printable (escape_wide (take (rune_len s) s))"
      using rune_bytes_printable [of s] by (auto simp: escape_wide_def backslash_def)
    then show ?thesis using 1(3) False by (subst escape.simps) auto
  qed
qed

lemma digits_printable: "list_all (\<lambda>c. 0x20 \<le> byte c) (itoa n)"
  using itoa_digits [of n] by (auto simp: list_all_iff is_digit_def)

lemma Itoa_printable: "printable (Itoa i)"
  using digits_printable by (auto simp: Itoa_def printable_def list_all_iff)

lemma comma_join_printable: "(\<And>s. s \<in> set ss \<Longrightarrow> printable s) \<Longrightarrow> printable (comma_join ss)"
  by (induction ss rule: comma_join.induct) auto

lemma Marshal_printable: "printable (Marshal j)"
proof (induction j)
  case (JObj kvs)
  have "printable (Marshal v)" if "(k, v) \<in> set kvs" for k v
    using that JObj by (force simp: snds.simps)
  then show ?case
    by (auto simp: quoted_def escape_printable intro!: comma_join_printable)
qed (auto simp: quoted_def escape_printable Itoa_printable intro!: comma_join_printable)

section \<open>The parser reads frames back\<close>

lemma raw_lines_line:
  assumes "CHR 0x0A \<notin> set l"
  shows "raw_lines (l @ CHR 0x0A # s) = l # raw_lines s"
proof -
  have l: "takeWhile not_lf (l @ c # s) = l" "dropWhile not_lf (l @ c # s) = c # s"
    if "\<not> not_lf c" "\<forall>x \<in> set l. not_lf x" for c
    using that by (induction l) auto
  have "\<forall>x \<in> set l. not_lf x" using assms by (auto simp: not_lf_def)
  then show ?thesis
    unfolding raw_lines.simps [of "l @ CHR 0x0A # s"]
    by (simp only: l not_lf_def list.sel append_is_Nil_conv list.distinct if_False simp_thms)
qed

lemma raw_lines_Nil [simp]: "raw_lines [] = []"
  by (simp add: raw_lines.simps)

definition solid :: "char \<Rightarrow> bool" where
  "solid c \<longleftrightarrow> \<not> ascii_space c \<and> byte c < 0x80"

lemma solid_not_space:
  assumes "solid c"
  shows "\<not> ascii_space c" "\<not> space2 c x" "\<not> space2 x c" "\<not> space3 c x y" "\<not> space3 x y c"
proof -
  have big: "c \<noteq> d" if "128 \<le> byte d" for d
    using assms that by (auto simp: solid_def)
  have "c \<noteq> CHR 0xC2" "c \<noteq> CHR 0xE1" "c \<noteq> CHR 0xE2" "c \<noteq> CHR 0xE3"
    by (simp_all add: big)
  then show "\<not> space2 c x" "\<not> space3 c x y" by (simp_all add: space2_def space3_def)
  have "c \<noteq> CHR 0x80" "c \<noteq> CHR 0x81" "c \<noteq> CHR 0x82" "c \<noteq> CHR 0x83" "c \<noteq> CHR 0x84" "c \<noteq> CHR 0x85"
    "c \<noteq> CHR 0x86" "c \<noteq> CHR 0x87" "c \<noteq> CHR 0x88" "c \<noteq> CHR 0x89" "c \<noteq> CHR 0x8A" "c \<noteq> CHR 0xA8"
    "c \<noteq> CHR 0xA9" "c \<noteq> CHR 0xAF" "c \<noteq> CHR 0x9F" "c \<noteq> CHR 0xA0"
    by (simp_all add: big)
  then show "\<not> space2 x c" "\<not> space3 x y c" by (simp_all add: space2_def space3_def)
  show "\<not> ascii_space c" using assms by (simp add: solid_def)
qed

lemma TrimSpace_solid:
  assumes "s \<noteq> []" "solid (hd s)" "solid (last s)"
  shows "TrimSpace s = s"
proof -
  have "lead_space s = 0"
    using assms by (cases s) (simp_all add: lead_space_def solid_not_space split: list.split)
  moreover have "trail_space_rev (rev s) = 0"
    using assms by (cases s rule: rev_cases)
      (simp_all add: trail_space_rev_def solid_not_space split: list.split)
  ultimately show ?thesis
    by (simp add: TrimSpace_def trim_left_def trim_right_def strip_fixed)
qed

lemma TrimSpace_blank: "TrimSpace (CHR '' '' # s) = TrimSpace s"
proof -
  have "lead_space (CHR '' '' # s) = 1" by (simp add: lead_space_def ascii_space_def)
  then show ?thesis
    by (simp add: TrimSpace_def trim_left_def strip_step)
qed

definition is_object :: "json \<Rightarrow> bool" where
  "is_object j \<longleftrightarrow> (case j of JObj kvs \<Rightarrow> True | _ \<Rightarrow> False)"

lemma Marshal_object:
  assumes "is_object j"
  shows "Marshal j \<noteq> []" "hd (Marshal j) = CHR ''{''" "last (Marshal j) = CHR ''}''"
  using assms by (auto simp: is_object_def split: json.splits)

lemma Marshal_payload:
  assumes "is_object j"
  shows "sse_payload (''data: '' @ Marshal j) = Marshal j"
proof -
  have "solid (CHR ''{'')" "solid (CHR ''}'')" by (simp_all add: solid_def ascii_space_def)
  then have "TrimSpace (Marshal j) = Marshal j"
    using Marshal_object [OF assms] by (simp add: TrimSpace_solid)
  then show ?thesis by (simp add: sse_payload_def TrimSpace_blank)
qed

lemma raw_lines_frame:
  "raw_lines (formatSSEChunk j @ s) = (''data: '' @ Marshal j) # [] # raw_lines s"
proof -
  have "CHR 0x0A \<notin> set (''data: '' @ Marshal j)"
    using Marshal_printable [of j] by (intro printable_no_lf) simp
  from raw_lines_line [OF this, of "CHR 0x0A # s"] raw_lines_line [of "[]" s]
  show ?thesis by (simp add: formatSSEChunk_def sse_frame_def)
qed

lemma sse_loop_frames:
  assumes "list_all is_object chunks"
    and "list_all (\<lambda>j. int (length (Marshal j)) + 6 < lineLimit) chunks" "0 < lineLimit"
    and "used + int (length (concat (map formatSSEChunk chunks))) \<le> maxBytes"
  shows "sse_loop Inr lineLimit maxBytes None used (raw_lines (concat (map formatSSEChunk chunks))) =
    (map Marshal chunks, None)"
  using assms
proof (induction chunks arbitrary: used)
  case (Cons j chunks)
  have j: "is_object j" and limit: "int (length (Marshal j)) + 6 < lineLimit" using Cons.prems by simp_all
  have cr: "drop_cr (''data: '' @ Marshal j) = ''data: '' @ Marshal j"
    using Marshal_object [OF j] by (simp add: drop_cr_def)
  have len: "length (formatSSEChunk j) = length (Marshal j) + 8"
    by (simp add: formatSSEChunk_def sse_frame_def)
  have room: "used + int (length (Marshal j)) + 8 + int (length (concat (map formatSSEChunk chunks))) \<le> maxBytes"
    using Cons.prems(4) by (simp add: len)
  have rest: "sse_loop Inr lineLimit maxBytes None (used + int (length (Marshal j)) + 8)
      (raw_lines (concat (map formatSSEChunk chunks))) = (map Marshal chunks, None)"
    using Cons.IH Cons.prems(1-3) room by simp
  have blank: "sse_loop Inr lineLimit maxBytes None (used + int (length (Marshal j)) + 7)
      ([] # raw_lines (concat (map formatSSEChunk chunks))) = (map Marshal chunks, None)"
    using rest Cons.prems(3) room by (simp add: drop_cr_def add.assoc)
  have pre: "prefix ''data:'' (''data: '' @ Marshal j)" by simp
  have "sse_loop Inr lineLimit maxBytes None used ((''data: '' @ Marshal j) # [] # raw_lines (concat (map formatSSEChunk chunks)))
      = (Marshal j # map Marshal chunks, None)"
    unfolding sse_loop.simps(2) [of _ _ _ _ _ "''data: '' @ Marshal j"] Let_def cr
    using limit room blank Marshal_payload [OF j] Marshal_object(1) [OF j] pre
    by (simp add: ac_simps del: sse_loop.simps)
  then show ?case by (simp add: raw_lines_frame del: sse_loop.simps)
qed simp

section \<open>What a stream of events becomes\<close>

definition json_member :: "string \<Rightarrow> json \<Rightarrow> json option" where
  "json_member k j = (case j of JObj kvs \<Rightarrow> map_of kvs k | _ \<Rightarrow> None)"

text \<open>A string member of the delta of a chunk's only choice, empty when it has none.\<close>

definition delta_field :: "string \<Rightarrow> json \<Rightarrow> string" where
  "delta_field k j = (case json_member ''choices'' j of Some (JArr [choice]) \<Rightarrow>
     (case Option.bind (json_member ''delta'' choice) (json_member k) of Some (JStr s) \<Rightarrow> s | _ \<Rightarrow> [])
   | _ \<Rightarrow> [])"

definition carries_delta :: "json \<Rightarrow> bool" where
  "carries_delta j \<longleftrightarrow> delta_field ''content'' j \<noteq> [] \<or> delta_field ''reasoning_content'' j \<noteq> []"

definition text_of_event :: "stream_event \<Rightarrow> string" where
  "text_of_event e = (if ev_event e = ''text_chunk'' then ev_text e else [])"

definition reasoning_of_event :: "stream_event \<Rightarrow> string" where
  "reasoning_of_event e = (if ev_event e = ''reasoning_chunk'' then ev_reasoning e else [])"

definition failing_event :: "stream_event \<Rightarrow> bool" where
  "failing_event e \<longleftrightarrow> ev_event e = ''error'' \<or> ev_event e = ''workflow_finished'' \<and> ev_status e = ''failed''"

definition final_event :: "stream_event \<Rightarrow> bool" where
  "final_event e \<longleftrightarrow> ev_event e = ''error'' \<or> ev_event e = ''workflow_finished''"

lemma chunk_fields:
  "delta_field ''content'' (converter_chunk content reasoning r f c) = content"
  "delta_field ''reasoning_content'' (converter_chunk content reasoning r f c) = reasoning"
  "delta_field ''role'' (converter_chunk content reasoning r f c) = (if r then ''assistant'' else [])"
  by (auto simp: delta_field_def converter_chunk_def buildStreamChunk_def json_member_def
      chunk_delta_def str_member_def)

lemma error_fields: "delta_field k (error_body m) = []"
  by (simp add: delta_field_def error_body_def json_member_def)

lemma objects: "is_object (converter_chunk content reasoning r f c)" "is_object (error_body m)"
  by (simp_all add: is_object_def converter_chunk_def buildStreamChunk_def error_body_def)

lemmas converter_simps = Convert_def fail_stream_def chunk_fields error_fields carries_delta_def
  text_of_event_def reasoning_of_event_def failing_event_def final_event_def

lemma convert_all_Cons: "convert_all (e # es) c =
    (fst (convert_all es (fst (Convert e c))),
     (case snd (Convert e c) of None \<Rightarrow> [] | Some m \<Rightarrow> [m]) @ snd (convert_all es (fst (Convert e c))))"
  by (auto split: prod.splits option.splits)

declare convert_all.simps(2) [simp del]
declare convert_all_Cons [simp]

lemma Convert_object: "snd (Convert e c) = Some m \<Longrightarrow> is_object m"
  by (auto simp: Convert_def fail_stream_def objects split: if_splits)

lemma convert_all_objects: "list_all is_object (snd (convert_all evts c))"
  by (induction evts arbitrary: c) (auto simp: Convert_object split: option.splits)

definition fields_of :: "string \<Rightarrow> json option \<Rightarrow> string" where
  "fields_of k m = (case m of None \<Rightarrow> [] | Some j \<Rightarrow> delta_field k j)"

lemma Convert_fields:
  "fields_of ''content'' (snd (Convert e c)) = text_of_event e"
  "fields_of ''reasoning_content'' (snd (Convert e c)) = reasoning_of_event e"
  by (auto simp: fields_of_def converter_simps)

lemma convert_all_text:
  "concat (map (delta_field ''content'') (snd (convert_all evts c))) = concat (map text_of_event evts)"
  "concat (map (delta_field ''reasoning_content'') (snd (convert_all evts c))) =
     concat (map reasoning_of_event evts)"
proof -
  have step: "concat (map (delta_field k) (case m of None \<Rightarrow> [] | Some j \<Rightarrow> [j])) = fields_of k m" for k m
    by (simp add: fields_of_def split: option.split)
  show "concat (map (delta_field ''content'') (snd (convert_all evts c))) = concat (map text_of_event evts)"
    "concat (map (delta_field ''reasoning_content'') (snd (convert_all evts c))) =
     concat (map reasoning_of_event evts)"
    by (induction evts arbitrary: c) (simp_all add: step Convert_fields)
qed

lemma Convert_flags:
  "sc_failed (fst (Convert e c)) \<longleftrightarrow> sc_failed c \<or> failing_event e"
  "sc_done (fst (Convert e c)) \<longleftrightarrow> sc_done c \<or> final_event e"
  by (auto simp: converter_simps)

lemma convert_all_flags:
  "sc_failed (fst (convert_all evts c)) \<longleftrightarrow> sc_failed c \<or> list_ex failing_event evts"
  "sc_done (fst (convert_all evts c)) \<longleftrightarrow> sc_done c \<or> list_ex final_event evts"
  by (induction evts arbitrary: c) (auto simp: Convert_flags)

text \<open>The role is given with the first chunk that carries content or reasoning, and only there.\<close>

lemma Convert_role:
  "case snd (Convert e c) of
     None \<Rightarrow> sc_first_chunk (fst (Convert e c)) = sc_first_chunk c
   | Some m \<Rightarrow> (delta_field ''role'' m \<noteq> []) = (carries_delta m \<and> sc_first_chunk c) \<and>
       sc_first_chunk (fst (Convert e c)) = (sc_first_chunk c \<and> \<not> carries_delta m)"
  by (auto simp: converter_simps)

lemma convert_all_role:
  "filter (\<lambda>j. delta_field ''role'' j \<noteq> []) (snd (convert_all evts c)) =
     (if sc_first_chunk c then take 1 (filter carries_delta (snd (convert_all evts c))) else [])"
proof (induction evts arbitrary: c)
  case (Cons e es)
  show ?case
    using Convert_role [of e c] Cons.IH [of "fst (Convert e c)"]
    by (cases "snd (Convert e c)") auto
qed simp

section \<open>Escaped text reads back\<close>

text \<open>The decoding of a JSON string body as RFC 8259 gives it (without surrogate pairs, which the
  encoder never writes).\<close>

definition hex_value :: "char \<Rightarrow> nat" where
  "hex_value c = (if byte c < 58 then byte c - 48 else byte c - 87)"

definition utf8 :: "nat \<Rightarrow> string" where
  "utf8 n = (if n < 0x80 then [char_of n]
     else if n < 0x800 then [char_of (0xC0 + n div 64), char_of (0x80 + n mod 64)]
     else [char_of (0xE0 + n div 4096), char_of (0x80 + n div 64 mod 64), char_of (0x80 + n mod 64)])"

definition short_escape :: "char \<Rightarrow> char" where
  "short_escape c = (if c = CHR ''n'' then CHR 0x0A else if c = CHR ''r'' then CHR 0x0D
     else if c = CHR ''t'' then CHR 0x09 else if c = CHR ''b'' then CHR 0x08
     else if c = CHR ''f'' then CHR 0x0C else c)"

fun json_text :: "string \<Rightarrow> string option" where
  "json_text [] = Some []"
| "json_text (c # s) =
    (if c \<noteq> backslash then map_option (Cons c) (json_text s)
     else case s of
       u # w # x # y # z # t \<Rightarrow>
         if u = CHR ''u'' then map_option (append (utf8 (4096 * hex_value w + 256 * hex_value x +
             16 * hex_value y + hex_value z))) (json_text t)
         else map_option (Cons (short_escape u)) (json_text (w # x # y # z # t))
     | u # t \<Rightarrow> if u = CHR ''u'' then None else map_option (Cons (short_escape u)) (json_text t)
     | [] \<Rightarrow> None)"

declare json_text.simps(2) [simp del]

lemma json_text_char: "c \<noteq> backslash \<Longrightarrow> json_text (c # s) = map_option (Cons c) (json_text s)"
  by (subst json_text.simps) (simp only: simp_thms if_True)

lemma json_text_plain: "backslash \<notin> set r \<Longrightarrow> json_text (r @ t) = map_option (append r) (json_text t)"
proof (induction r)
  case Nil then show ?case by (cases "json_text t") simp_all
next
  case (Cons c r)
  then have "c \<noteq> backslash" by auto
  then show ?case using Cons by (cases "json_text t") (simp_all add: json_text_char)
qed

lemma json_text_short:
  "u \<noteq> CHR ''u'' \<Longrightarrow> json_text (backslash # u # t) = map_option (Cons (short_escape u)) (json_text t)"
  by (subst json_text.simps) (simp split: list.splits)

lemma json_text_u:
  "json_text (backslash # CHR ''u'' # w # x # y # z # t) =
    map_option (append (utf8 (4096 * hex_value w + 256 * hex_value x + 16 * hex_value y + hex_value z)))
      (json_text t)"
  by (subst json_text.simps) simp

lemma hex_value_digit: "n < 16 \<Longrightarrow> hex_value (hex_digit n) = n"
  by (auto simp: hex_value_def hex_digit_def)

lemma json_text_byte:
  assumes "byte c < 0x80"
  shows "json_text (escape_byte c @ t) = map_option (Cons c) (json_text t)"
proof (cases "byte c < 0x20 \<or> c = CHR ''<'' \<or> c = CHR ''>'' \<or> c = CHR ''&''")
  case True
  define a where "a = hex_digit (byte c div 16)"
  define b where "b = hex_digit (byte c mod 16)"
  have "hex_value a = byte c div 16" "hex_value b = byte c mod 16"
    using byte_bound [of c] by (simp_all add: a_def b_def hex_value_digit less_mult_imp_div_less)
  moreover have "hex_value (CHR ''0'') = 0" by (simp add: hex_value_def)
  ultimately have "json_text (backslash # ''u00'' @ [a, b] @ t) = map_option (append (utf8 (byte c))) (json_text t)"
    using json_text_u [of "CHR ''0''" "CHR ''0''" a b t] by simp
  moreover have "utf8 (byte c) = [c]" using assms by (simp add: utf8_def)
  ultimately have u: "json_text (backslash # ''u00'' @ [a, b] @ t) = map_option (Cons c) (json_text t)"
    by (cases "json_text t") (simp_all)
  have plain: "c \<noteq> CHR 0x22" "c \<noteq> backslash" using True by (auto simp: backslash_def)
  consider "c \<in> {CHR 0x08, CHR 0x0C, CHR 0x0A, CHR 0x0D, CHR 0x09}"
    | "c \<notin> {CHR 0x08, CHR 0x0C, CHR 0x0A, CHR 0x0D, CHR 0x09}" by blast
  then show ?thesis
  proof cases
    case 1
    moreover have "CHR 0x08 \<noteq> backslash" "CHR 0x0C \<noteq> backslash" "CHR 0x0A \<noteq> backslash"
      "CHR 0x0D \<noteq> backslash" "CHR 0x09 \<noteq> backslash" by (simp_all add: backslash_def)
    ultimately show ?thesis
      by (elim insertE emptyE) (simp_all add: escape_byte_def json_text_short short_escape_def)
  next
    case 2
    then have "escape_byte c = backslash # ''u00'' @ [a, b]"
      using plain True by (simp add: escape_byte_def a_def b_def)
    then show ?thesis using u by simp
  qed
next
  case False
  then have "c \<noteq> CHR 0x08" "c \<noteq> CHR 0x0C" "c \<noteq> CHR 0x0A" "c \<noteq> CHR 0x0D" "c \<noteq> CHR 0x09"
    by auto
  then have c: "escape_byte c = (if c = CHR 0x22 \<or> c = backslash then [backslash, c] else [c])"
    using False by (simp only: escape_byte_def if_False simp_thms)
  have "short_escape (CHR 0x22) = CHR 0x22" "short_escape backslash = backslash"
    by (simp_all add: short_escape_def backslash_def)
  moreover have "backslash \<noteq> CHR ''u''" by (simp add: backslash_def)
  ultimately show ?thesis unfolding c by (auto simp: json_text_char json_text_short)
qed

lemma json_text_wide:
  assumes "1 < rune_len s"
  shows "json_text (escape_wide (take (rune_len s) s) @ t) = map_option (append (take (rune_len s) s)) (json_text t)"
proof -
  have esc: "json_text (escape_wide r @ t) = map_option (append r) (json_text t)" if r: "backslash \<notin> set r" for r
  proof (cases "r = [CHR 0xE2, CHR 0x80, CHR 0xA8] \<or> r = [CHR 0xE2, CHR 0x80, CHR 0xA9]")
    case True
    have e: "char_of n = c" if "n = byte c" for n c using that by simp
    have "utf8 0x2028 = [CHR 0xE2, CHR 0x80, CHR 0xA8]" "utf8 0x2029 = [CHR 0xE2, CHR 0x80, CHR 0xA9]"
      unfolding utf8_def by (simp_all, (intro conjI e; simp)+)
    moreover have "hex_value (CHR ''2'') = 2" "hex_value (CHR ''0'') = 0" "hex_value (CHR ''8'') = 8"
      "hex_value (CHR ''9'') = 9" by (simp_all add: hex_value_def)
    ultimately show ?thesis using True
      by (elim disjE) (simp_all add: escape_wide_def json_text_u)
  next
    case False
    then show ?thesis using json_text_plain [OF r] by (simp add: escape_wide_def)
  qed
  have "backslash \<notin> set (take (rune_len s) s)"
  proof
    assume "backslash \<in> set (take (rune_len s) s)"
    then obtain i where i: "i < rune_len s" "s ! i = backslash" by (auto simp: in_set_conv_nth)
    show False
    proof (cases i)
      case 0
      then show ?thesis using i assms
        by (cases s rule: rune_len.cases) (auto split: if_splits simp: backslash_def)
    next
      case (Suc j)
      then show ?thesis using rune_cont [of i s] i by (auto simp: is_cont_def in_range_def backslash_def)
    qed
  qed
  then show ?thesis by (rule esc)
qed

lemma rune_one: "rune_len s = 1 \<Longrightarrow> byte (hd s) < 0x80"
  by (cases s rule: rune_len.cases) (auto split: if_splits)

lemma json_text_escape: "ValidString s \<Longrightarrow> json_text (escape s) = Some s"
proof (induction s rule: escape.induct)
  case (1 s)
  show ?case
  proof (cases "s = []")
    case True then show ?thesis by (simp add: escape.simps)
  next
    case False
    then have r: "0 < rune_len s" using 1(4) by (subst (asm) ValidString.simps) (auto split: if_splits)
    then have rest: "ValidString (drop (rune_len s) s)" using 1(4) by (simp add: ValidString_rune)
    show ?thesis
    proof (cases "rune_len s = 1")
      case True
      then have "json_text (escape (tl s)) = Some (tl s)"
        using 1(2) False rest by (simp add: drop_Suc)
      then show ?thesis
        using False True json_text_byte [OF rune_one [OF True]] by (subst escape.simps) simp
    next
      case wide: False
      then have "json_text (escape (drop (rune_len s) s)) = Some (drop (rune_len s) s)"
        using 1(3) False rest r by simp
      then show ?thesis
        using False wide r json_text_wide [of s] by (subst escape.simps) simp
    qed
  qed
qed

section \<open>The budget\<close>

lemma sse_loop_bound:
  "7 * int (length (fst (sse_loop decode lineLimit maxBytes err used ls))) \<le> max 0 (maxBytes - used)"
proof (induction decode lineLimit maxBytes err used ls rule: sse_loop.induct)
  case (2 decode lineLimit maxBytes err used raw rest)
  define line where "line = drop_cr raw"
  define used' where "used' = used + int (length line) + 1"
  have step: "fst (sse_loop decode lineLimit maxBytes err used (raw # rest)) =
    (if lineLimit \<le> int (length raw) \<or> maxBytes < used' then []
     else if \<not> prefix ''data:'' line \<or> sse_payload line = []
     then fst (sse_loop decode lineLimit maxBytes err used' rest)
     else case decode (sse_payload line) of Inl m \<Rightarrow> []
       | Inr e \<Rightarrow> e # fst (sse_loop decode lineLimit maxBytes err used' rest))"
    by (simp add: Let_def line_def used'_def split: sum.split)
  show ?case
  proof (cases "lineLimit \<le> int (length raw) \<or> maxBytes < used'")
    case True then show ?thesis unfolding step by simp
  next
    case ok: False
    have mono: "max 0 (maxBytes - used') \<le> max 0 (maxBytes - used)" by (simp add: used'_def)
    show ?thesis
    proof (cases "\<not> prefix ''data:'' line \<or> sse_payload line = []")
      case True
      then have "7 * int (length (fst (sse_loop decode lineLimit maxBytes err used' rest))) \<le> max 0 (maxBytes - used')"
        using 2(1) ok by (simp add: line_def used'_def)
      then show ?thesis using mono ok True unfolding step by simp
    next
      case event: False
      then have "6 \<le> length line"
        by (cases "length line \<le> 5") (auto simp: sse_payload_def)
      then have room: "7 + max 0 (maxBytes - used') \<le> max 0 (maxBytes - used)"
        using ok by (simp add: used'_def)
      show ?thesis
      proof (cases "decode (sse_payload line)")
        case (Inl m) then show ?thesis using ok event unfolding step by simp
      next
        case (Inr e)
        then have "7 * int (length (fst (sse_loop decode lineLimit maxBytes err used' rest))) \<le> max 0 (maxBytes - used')"
          using 2(2) ok event by (simp add: line_def used'_def)
        then show ?thesis using room ok event Inr unfolding step by simp
      qed
    qed
  qed
qed simp

section \<open>Properties\<close>

text \<open>C29: Whatever events the upstream sends, the content of the emitted frames is exactly the text
  of the text events, their reasoning content exactly the reasoning of the reasoning events, both in
  order; the assistant role is announced in the first frame that carries either and in no other; and
  the converter reports a failure or the end of the stream exactly when such an event came.\<close>

theorem stream_relay_exact:
  "let c = NewStreamConverter model policy nanos seconds; out = snd (convert_all evts c);
       c' = fst (convert_all evts c) in
   concat (map (delta_field ''content'') out) = concat (map text_of_event evts) \<and>
   concat (map (delta_field ''reasoning_content'') out) = concat (map reasoning_of_event evts) \<and>
   filter (\<lambda>j. delta_field ''role'' j \<noteq> []) out = take 1 (filter carries_delta out) \<and>
   sc_failed c' = list_ex failing_event evts \<and> sc_done c' = list_ex final_event evts"
  unfolding Let_def
  by (simp add: convert_all_text convert_all_role convert_all_flags) (simp add: NewStreamConverter_def)

text \<open>C30: No text that an upstream sends can break out of its frame: the bytes that the gateway
  writes for a stream, read by the gateway's own event-stream parser within its limits, give exactly
  one payload per frame, the JSON text of that frame.\<close>

theorem sse_frames_read_back:
  assumes "out = snd (convert_all evts c)"
    and "list_all (\<lambda>j. int (length (Marshal j)) + 6 < sse_line_limit maxBytes) out"
    and "int (length (concat (map formatSSEChunk out))) \<le> sse_budget maxBytes"
  shows "parseSSE Inr maxBytes (concat (map formatSSEChunk out)) None = (map Marshal out, None)"
  unfolding parseSSE_def using assms convert_all_objects [of evts c]
  by (intro sse_loop_frames) (auto simp: sse_line_limit_def Let_def)

definition sample_event :: "string \<Rightarrow> string \<Rightarrow> stream_event" where
  "sample_event kind txt = \<lparr>ev_event = kind, ev_task_id = [], ev_text = txt, ev_reasoning = [],
     ev_status = [], ev_error = []\<rparr>"

definition sample_converter :: stream_converter where
  "sample_converter = NewStreamConverter ''m'' None 5000 5"

definition sample_frames :: "json list" where
  "sample_frames = snd (convert_all [sample_event ''text_chunk'' [CHR 0x0A, CHR 0x22]] sample_converter)"

text \<open>A text of a line feed and a quote.\<close>

lemma sample_frames_eq:
  "map Marshal sample_frames = [concat [[CHR ''{'', CHR 0x22], ''choices'', [CHR 0x22], '':[{'', [CHR 0x22], ''delta'',
     [CHR 0x22], '':{'', [CHR 0x22], ''content'', [CHR 0x22], '':'', [CHR 0x22, CHR 0x5C, CHR ''n'', CHR 0x5C, CHR 0x22, CHR 0x22],
     '','', [CHR 0x22], ''role'', [CHR 0x22], '':'', [CHR 0x22], ''assistant'', [CHR 0x22], ''},'', [CHR 0x22],
     ''finish_reason'', [CHR 0x22], '':null,'', [CHR 0x22], ''index'', [CHR 0x22], '':0}],'', [CHR 0x22], ''created'',
     [CHR 0x22], '':5,'', [CHR 0x22], ''id'', [CHR 0x22], '':'', [CHR 0x22], ''chatcmpl-5'', [CHR 0x22], '','', [CHR 0x22],
     ''model'', [CHR 0x22], '':'', [CHR 0x22], ''m'', [CHR 0x22], '','', [CHR 0x22], ''object'', [CHR 0x22], '':'', [CHR 0x22],
     ''chat.completion.chunk'', [CHR 0x22], ''}'']]"
  by code_simp

theorem sse_frames_read_back_witness:
  "parseSSE Inr 0 (concat (map formatSSEChunk sample_frames)) None = (map Marshal sample_frames, None) \<and>
   length sample_frames = 1"
proof -
  have "list_all (\<lambda>j. int (length (Marshal j)) + 6 < sse_line_limit 0) sample_frames" by code_simp
  moreover have "int (length (concat (map formatSSEChunk sample_frames))) \<le> sse_budget 0" by code_simp
  ultimately show ?thesis
    using sse_frames_read_back [OF sample_frames_def, of 0] arg_cong [OF sample_frames_eq, of length] by simp
qed

text \<open>The gateway holds at most one event for every seven bytes of its budget: whatever body the
  upstream sends and however it ends, the parser delivers no more than a seventh of the configured
  maximum as events, the rest of the stream being refused.\<close>

theorem sse_events_bounded:
  "7 * int (length (fst (parseSSE decode maxBytes body err))) \<le> sse_budget maxBytes"
proof -
  have "0 \<le> sse_budget maxBytes" by (simp add: sse_budget_def DefaultMaxResponseBytes_def)
  then show ?thesis
    unfolding parseSSE_def
    using sse_loop_bound [of decode "sse_line_limit maxBytes" "sse_budget maxBytes" err 0 "raw_lines body"]
    by simp
qed

text \<open>The JSON encoding of a string loses nothing of well-formed text: decoding the escapes of
  the body that is written gives the text back.\<close>

theorem json_string_roundtrip: "ValidString s \<Longrightarrow> json_text (escape s) = Some s"
  by (rule json_text_escape)

theorem json_string_roundtrip_witness:
  "json_text (escape [CHR 0x0A, CHR 0x22, CHR ''<'', CHR 0xE2, CHR 0x80, CHR 0xA8]) =
     Some [CHR 0x0A, CHR 0x22, CHR ''<'', CHR 0xE2, CHR 0x80, CHR 0xA8]"
proof -
  have "ValidString [CHR 0x0A, CHR 0x22, CHR ''<'', CHR 0xE2, CHR 0x80, CHR 0xA8]" by code_simp
  then show ?thesis by (rule json_string_roundtrip)
qed

end
