(* ===== verification/DifyClient.thy ===== *)
theory DifyClient
  imports Streaming Contracts Egress
begin

text \<open>
  The client of the upstream API, \<^verbatim>\<open>dify/client.go\<close>, and the boundary that keeps upstream detail from
  callers, \<^verbatim>\<open>handler/upstream_error.go\<close>. What the network answers and how \<^verbatim>\<open>encoding/json\<close> decodes a
  body are parameters (record \<open>dify_env\<close>); requests are values, so a call that is not sent is visible.
\<close>

section \<open>Requests, replies and errors\<close>

datatype image_file = RemoteImage string | LocalImage string

datatype input_value = TextInput string | FilesInput "image_file list"

type_synonym workflow_inputs = "(string \<times> input_value) list"

datatype upstream_call = UploadFile string string string string
  | RunWorkflow string workflow_inputs string | FetchParams | StopTask string string

record upstream_request =
  uq_base :: string
  uq_key :: string
  uq_call :: upstream_call

datatype http_reply = NoReply transport_error | Reply int string "transport_error option"

record dify_error =
  dy_code :: string
  dy_message :: string
  dy_status :: int

text \<open>\<open>LocalError\<close> is an error made from a literal text; \<open>BadBaseURL\<close> and \<open>DecodeFailed\<close> carry the text
  of the error they wrap, and \<open>UnexpectedStop\<close> the quoted result.\<close>

datatype dify_client_error = BadBaseURL string | RequestFailed transport_error | ReadFailed read_error
  | Upstream dify_error | DecodeFailed string string | LocalError string | UnexpectedStop string

record blocking_body =
  bb_outputs :: "(string \<times> string) list"
  bb_status :: string
  bb_error :: string

text \<open>The decoders return the text of \<open>json.Unmarshal\<close>'s error, or the fields that the code reads;
  \<open>bb_outputs\<close> has the outputs already printed by \<open>%v\<close>, and \<open>de_params\<close> the (variable, required) pairs of
  the fields that decode, in the order they are walked.\<close>

record dify_env =
  de_net :: net_env
  de_policy :: egress_policy
  de_egress_text :: "egress_error \<Rightarrow> string"
  de_quote :: "string \<Rightarrow> string"
  de_error_body :: "string \<Rightarrow> (string \<times> string) option"
  de_upload :: "string \<Rightarrow> (string, string) result"
  de_event :: "string \<Rightarrow> (string, stream_event) result"
  de_blocking :: "string \<Rightarrow> (string, blocking_body) result"
  de_params :: "string \<Rightarrow> (string, (string \<times> bool) list) result"
  de_stop :: "string \<Rightarrow> (string, string) result"
  de_send :: "upstream_request \<Rightarrow> http_reply"

record dify_client =
  dc_base_url :: string
  dc_api_key :: string
  dc_max_bytes :: int
  dc_init_err :: "egress_error option"

section \<open>Error codes and texts\<close>

definition WorkflowFailedCode :: string where "WorkflowFailedCode = ''workflow_failed''"

definition ProcessMaxBytes :: int where "ProcessMaxBytes = int MaxBytes - 128"

text \<open>\<open>strings.ToLower\<close> as far as the result is compared with ASCII text: besides the ASCII letters only
  U+212A and U+0130 have a lower-case form in ASCII.\<close>

fun lower_ascii :: "string \<Rightarrow> string" where
  "lower_ascii (a # b # c # s) =
    (if a = CHR 0xE2 \<and> b = CHR 0x84 \<and> c = CHR 0xAA then CHR ''k'' # lower_ascii s
     else if a = CHR 0xC4 \<and> b = CHR 0xB0 then CHR ''i'' # lower_ascii (c # s)
     else lower_byte a # lower_ascii (b # c # s))"
| "lower_ascii [a, b] = (if a = CHR 0xC4 \<and> b = CHR 0xB0 then ''i'' else [lower_byte a, lower_byte b])"
| "lower_ascii [a] = [lower_byte a]"
| "lower_ascii [] = []"

definition code_byte :: "char \<Rightarrow> bool" where
  "code_byte c \<longleftrightarrow> 97 \<le> byte c \<and> byte c \<le> 122 \<or> 48 \<le> byte c \<and> byte c \<le> 57 \<or> c = CHR ''_'' \<or> c = CHR ''-''"

text \<open>\<open>ToValidUTF8\<close> puts U+FFFD, which is no code byte, where an invalid byte was; such a byte is no
  code byte either, so leaving it in place gives the same answer.\<close>

definition stableDifyErrorCode :: "string \<Rightarrow> string" where
  "stableDifyErrorCode code0 =
    (if 64 < length code0 then ''upstream_error''
     else let code = lower_ascii (TrimSpace code0) in
       if code = [] then []
       else if 64 < length code then ''upstream_error''
       else if list_all code_byte code then code else ''upstream_error'')"

definition dify_error_text :: "dify_error \<Rightarrow> string" where
  "dify_error_text e =
    (let code = stableDifyErrorCode (dy_code e); message = Bound (dy_message e) in
     if code = [] then BoundTo message ProcessMaxBytes
     else if message = [] then ''['' @ code @ '']''
     else if EqualFold (TrimSpace (dy_code e)) (TrimSpace (dy_message e)) then BoundTo message ProcessMaxBytes
     else BoundTo (''['' @ code @ ''] '' @ message) ProcessMaxBytes)"

definition parseDifyErrorBody :: "dify_env \<Rightarrow> int \<Rightarrow> string \<Rightarrow> dify_error" where
  "parseDifyErrorBody env statusCode body =
    (let (code, m1) = (case de_error_body env body of None \<Rightarrow> ([], [])
           | Some (c, m) \<Rightarrow> (stableDifyErrorCode c, Bound m));
         m2 = (if m1 = [] then Bound body else m1);
         m3 = (if m2 = [] then ''HTTP '' @ Itoa statusCode else m2)
     in \<lparr>dy_code = code, dy_message = m3, dy_status = statusCode\<rparr>)"

fun read_error_text :: "read_error \<Rightarrow> string" where
  "read_error_text (ReadError t) = te_text t"
| "read_error_text (ResponseTooLarge n) = ''Dify response exceeds the '' @ Itoa n @ ''-byte limit''"
| "read_error_text (ScanError t) = ''sse scan error: '' @ te_text t"
| "read_error_text LineTooLong = ''sse scan error: bufio.Scanner: token too long''"
| "read_error_text (InvalidSSEJson m) = ''invalid Dify SSE JSON: '' @ m"

fun error_text :: "dify_client_error \<Rightarrow> string" where
  "error_text (BadBaseURL m) = ''invalid Dify base URL: '' @ m"
| "error_text (RequestFailed t) = ''http request: '' @ te_text t"
| "error_text (ReadFailed r) = read_error_text r"
| "error_text (Upstream e) = dify_error_text e"
| "error_text (DecodeFailed what m) = what @ '': '' @ m"
| "error_text (LocalError m) = m"
| "error_text (UnexpectedStop q) = ''unexpected stop result: '' @ q"

text \<open>\<open>errors.As\<close> for a \<open>DifyError\<close>, and for an error of the transport.\<close>

fun as_dify_error :: "dify_client_error \<Rightarrow> dify_error option" where
  "as_dify_error (Upstream e) = Some e"
| "as_dify_error _ = None"

fun as_transport :: "dify_client_error \<Rightarrow> transport_error option" where
  "as_transport (RequestFailed t) = Some t"
| "as_transport (ReadFailed (ReadError t)) = Some t"
| "as_transport (ReadFailed (ScanError t)) = Some t"
| "as_transport _ = None"

definition transport_is :: "(transport_error \<Rightarrow> bool) \<Rightarrow> dify_client_error option \<Rightarrow> bool" where
  "transport_is P err \<longleftrightarrow> (case Option.bind err as_transport of None \<Rightarrow> False | Some t \<Rightarrow> P t)"

definition is_canceled :: "dify_client_error \<Rightarrow> bool" where
  "is_canceled e \<longleftrightarrow> transport_is te_canceled (Some e)"

definition IsTimeoutError :: "dify_client_error option \<Rightarrow> bool" where
  "IsTimeoutError err = (case err of None \<Rightarrow> False
   | Some e \<Rightarrow> (case as_dify_error e of None \<Rightarrow> False | Some de \<Rightarrow> dy_status de = 524) \<or>
       transport_is (\<lambda>t. te_net t \<and> te_timeout t) err \<or>
       sublist ''unexpected EOF'' (error_text e) \<or> sublist ''connection reset by peer'' (error_text e))"

section \<open>The client\<close>

definition NewClientWithOptions :: "dify_env \<Rightarrow> string \<Rightarrow> string \<Rightarrow> int \<Rightarrow> dify_client" where
  "NewClientWithOptions env baseURL apiKey maxBytes =
    (let limit = (if maxBytes \<le> 0 then DefaultMaxResponseBytes else maxBytes) in
     case ValidateBaseURL (de_net env) (de_policy env) baseURL of
       Inl e \<Rightarrow> \<lparr>dc_base_url = TrimSpace baseURL, dc_api_key = apiKey, dc_max_bytes = limit, dc_init_err = Some e\<rparr>
     | Inr base \<Rightarrow> \<lparr>dc_base_url = base, dc_api_key = apiKey, dc_max_bytes = limit, dc_init_err = None\<rparr>)"

definition newDifyClient :: "dify_env \<Rightarrow> string \<Rightarrow> string \<Rightarrow> int \<Rightarrow> (egress_error, dify_client) result" where
  "newDifyClient env baseURL apiKey maxResponseMB =
    (case ValidateBaseURL (de_net env) (de_policy env) baseURL of Inl e \<Rightarrow> Inl e
     | Inr _ \<Rightarrow> Inr (NewClientWithOptions env baseURL apiKey (maxResponseMB * 2 ^ 20)))"

definition client_ready :: "dify_env \<Rightarrow> dify_client \<Rightarrow> dify_client_error option" where
  "client_ready env c = map_option (\<lambda>e. BadBaseURL (de_egress_text env e)) (dc_init_err c)"

definition client_request :: "dify_client \<Rightarrow> upstream_call \<Rightarrow> upstream_request" where
  "client_request c call = \<lparr>uq_base = dc_base_url c, uq_key = dc_api_key c, uq_call = call\<rparr>"

text \<open>The part every method shares: the client is ready, the request goes out, a reply of another status
  becomes an error, and the body is read within the limit.\<close>

definition roundtrip :: "dify_env \<Rightarrow> dify_client \<Rightarrow> int list \<Rightarrow> upstream_call \<Rightarrow> (dify_client_error, int \<times> string) result" where
  "roundtrip env c okStatus call = (case client_ready env c of Some e \<Rightarrow> Inl e
   | None \<Rightarrow> (case de_send env (client_request c call) of
       NoReply t \<Rightarrow> Inl (RequestFailed t)
     | Reply status body err \<Rightarrow>
         if status \<notin> set okStatus then
           (case readLimited body err maxErrorResponseBytes of Inl e \<Rightarrow> Inl (ReadFailed e)
            | Inr bytes \<Rightarrow> Inl (Upstream (parseDifyErrorBody env status bytes)))
         else (case readLimited body err (responseLimit (dc_max_bytes c)) of Inl e \<Rightarrow> Inl (ReadFailed e)
            | Inr bytes \<Rightarrow> Inr (status, bytes))))"

definition UploadFileContext ::
  "dify_env \<Rightarrow> dify_client \<Rightarrow> string \<Rightarrow> string \<Rightarrow> string \<Rightarrow> string \<Rightarrow> (dify_client_error, string) result" where
  "UploadFileContext env c usr fileName mimeType content =
    (case roundtrip env c [200, 201] (UploadFile usr fileName mimeType content) of Inl e \<Rightarrow> Inl e
     | Inr (_, bytes) \<Rightarrow> (case de_upload env bytes of Inl m \<Rightarrow> Inl (DecodeFailed ''decode upload response'' m)
        | Inr i \<Rightarrow> if i = [] then Inl (LocalError ''upload response missing file id'') else Inr i))"

text \<open>The stream: what the goroutine sends on its two channels, the events and then at most one error.\<close>

definition StreamWorkflowContext ::
  "dify_env \<Rightarrow> dify_client \<Rightarrow> workflow_inputs \<Rightarrow> string \<Rightarrow> stream_event list \<times> dify_client_error option" where
  "StreamWorkflowContext env c inputs usr = (case client_ready env c of Some e \<Rightarrow> ([], Some e)
   | None \<Rightarrow> (case de_send env (client_request c (RunWorkflow ''streaming'' inputs usr)) of
       NoReply t \<Rightarrow> ([], Some (RequestFailed t))
     | Reply status body err \<Rightarrow>
         if status \<noteq> 200 then
           (case readLimited body err maxErrorResponseBytes of Inl e \<Rightarrow> ([], Some (ReadFailed e))
            | Inr bytes \<Rightarrow> ([], Some (Upstream (parseDifyErrorBody env status bytes))))
         else map_prod id (map_option ReadFailed)
                (parseSSE (de_event env) (responseLimit (dc_max_bytes c)) body err)))"

text \<open>The output of a blocking workflow: the key \<^verbatim>\<open>text\<close>, else the first key in byte order.\<close>

definition output_text :: "(string \<times> string) list \<Rightarrow> string option" where
  "output_text outputs = (case map_of outputs ''text'' of Some v \<Rightarrow> Some v
   | None \<Rightarrow> (case sort (map fst outputs) of [] \<Rightarrow> None | k # _ \<Rightarrow> map_of outputs k))"

definition BlockingWorkflowContext ::
  "dify_env \<Rightarrow> dify_client \<Rightarrow> workflow_inputs \<Rightarrow> string \<Rightarrow> (dify_client_error, string) result" where
  "BlockingWorkflowContext env c inputs usr =
    (case roundtrip env c [200] (RunWorkflow ''blocking'' inputs usr) of Inl e \<Rightarrow> Inl e
     | Inr (status, bytes) \<Rightarrow> (case de_blocking env bytes of Inl m \<Rightarrow> Inl (DecodeFailed ''decode response'' m)
        | Inr b \<Rightarrow> if bb_status b = ''failed''
            then Inl (Upstream \<lparr>dy_code = WorkflowFailedCode, dy_message = Bound (bb_error b), dy_status = status\<rparr>)
            else (case output_text (bb_outputs b) of
                None \<Rightarrow> Inl (LocalError ''no output text in workflow response'')
              | Some v \<Rightarrow> Inr v)))"

text \<open>A Go map built by assignment: of two fields with one variable the later one counts.\<close>

definition FetchParametersContext :: "dify_env \<Rightarrow> dify_client \<Rightarrow> (dify_client_error, (string \<times> bool) list) result" where
  "FetchParametersContext env c = (case roundtrip env c [200] FetchParams of Inl e \<Rightarrow> Inl e
   | Inr (_, bytes) \<Rightarrow> (case de_params env bytes of Inl m \<Rightarrow> Inl (DecodeFailed ''decode response'' m)
      | Inr found \<Rightarrow> Inr (fold (\<lambda>(v, r) m. if v = [] then m else map_put v r m) found [])))"

datatype app_status_line = AppUnavailable dify_client_error | AppMatches int | AppMismatch "string list" "string list"

definition CheckApp :: "dify_env \<Rightarrow> dify_client \<Rightarrow> string list \<Rightarrow> app_status_line" where
  "CheckApp env c expected = (case FetchParametersContext env c of Inl e \<Rightarrow> AppUnavailable e
   | Inr variables \<Rightarrow>
      let missing = filter (\<lambda>n. map_of variables n = None) expected;
          unexpected = filter (\<lambda>n. n \<notin> set expected) (map fst variables)
      in if missing = [] \<and> unexpected = [] then AppMatches (int (length expected))
         else AppMismatch missing unexpected)"

definition StopWorkflowContext :: "dify_env \<Rightarrow> dify_client \<Rightarrow> string \<Rightarrow> string \<Rightarrow> dify_client_error option" where
  "StopWorkflowContext env c taskID usr =
    (case roundtrip env c [200] (StopTask taskID usr) of Inl e \<Rightarrow> Some e
     | Inr (_, bytes) \<Rightarrow> (case de_stop env bytes of Inl m \<Rightarrow> Some (DecodeFailed ''decode stop response'' m)
        | Inr r \<Rightarrow> if r = ''success'' then None else Some (UnexpectedStop (de_quote env r))))"

section \<open>The public boundary\<close>

datatype public_message = MsgTimeout | MsgRefused | MsgDNS | MsgWorkflowFailed | MsgRejected
  | MsgUnavailable | MsgNetwork | MsgOther

definition containsAny :: "string \<Rightarrow> string list \<Rightarrow> bool" where
  "containsAny s needles \<longleftrightarrow> list_ex (\<lambda>n. sublist n s) needles"

definition sanitizePublicUpstreamError :: "dify_client_error option \<Rightarrow> string \<Rightarrow> public_message" where
  "sanitizePublicUpstreamError err raw =
    (let m0 = lower_ascii (TrimSpace raw);
         message = (case err of Some e \<Rightarrow> if m0 = [] then lower_ascii (error_text e) else m0 | None \<Rightarrow> m0);
         status = map_option dy_status (Option.bind err as_dify_error)
     in if transport_is te_deadline err \<or> IsTimeoutError err \<or>
           containsAny message [''timeout'', ''timed out'', ''deadline exceeded'', ''unexpected eof'', ''connection reset'']
        then MsgTimeout
        else if transport_is te_refused err \<or>
           containsAny message [''connection refused'', ''actively refused'', ''connectex'']
        then MsgRefused
        else if transport_is te_dns err \<or>
           containsAny message [''no such host'', ''server misbehaving'', ''name resolution'', ''resolve dify host'', ''dns'']
        then MsgDNS
        else if status = Some 200 then MsgWorkflowFailed
        else if (case status of None \<Rightarrow> False | Some s \<Rightarrow> 400 \<le> s \<and> s < 500) then MsgRejected
        else if (case status of None \<Rightarrow> False | Some s \<Rightarrow> 500 \<le> s) then MsgUnavailable
        else if containsAny message [''workflow failed'', ''workflow_finished'', ''status=failed'', ''status failed'']
        then MsgWorkflowFailed
        else if transport_is te_net err \<or>
           containsAny message [''http request'', ''dial tcp'', ''dial udp'', ''connection'', ''network'', ''transport'', ''tls'', ''eof'']
        then MsgNetwork else MsgOther)"

definition publicDifyErrorCode :: "string \<Rightarrow> string" where
  "publicDifyErrorCode code0 = (let code = lower_ascii (TrimSpace code0) in
     if code \<in> set [''invalid_param'', ''app_unavailable'', ''server_overloaded'', ''timeout'', ''internal'',
       ''task_not_found'', ''invalid_request'', ''bad_request'', ''unauthorized'', ''forbidden'', ''not_found'',
       ''rate_limit_exceeded'', ''quota_exceeded'']
     then code else ''upstream_error'')"

definition difyErrorStatus :: "dify_client_error \<Rightarrow> int" where
  "difyErrorStatus err = (case as_dify_error err of
     Some de \<Rightarrow> if 400 \<le> dy_status de \<and> dy_status de < 500 then dy_status de else 502
   | None \<Rightarrow> 502)"

text \<open>The code in the body of \<open>writeDifyError\<close>.\<close>

definition public_error_code :: "dify_client_error \<Rightarrow> string" where
  "public_error_code err = (case as_dify_error err of
     Some de \<Rightarrow> if dy_code de \<noteq> [] then publicDifyErrorCode (dy_code de) else ''upstream_error''
   | None \<Rightarrow> ''upstream_error'')"

end
