(* ===== verification/Relay.thy ===== *)
theory Relay
  imports DifyClient Limiters Logs Settlement
begin

text \<open>
  The last stage of an API call: the request to the upstream and what is relayed to the caller.
  \<^verbatim>\<open>handleStreaming\<close> and \<^verbatim>\<open>handleBlocking\<close> of \<^verbatim>\<open>handler/handler.go\<close> serve a user's own App;
  \<^verbatim>\<open>charityStreaming\<close> and \<^verbatim>\<open>charityBlocking\<close> of \<^verbatim>\<open>handler/donations.go\<close> serve a donated one and settle
  its reservation. A handler maps the gateway's state to a new state and the list of what it wrote.
\<close>

section \<open>The gateway's state\<close>

text \<open>\<open>gw_sent\<close> is not in the code: it records the requests that went to the upstream.\<close>

record gateway =
  gw_store :: store
  gw_limiter :: rate_limiter
  gw_donation_limiter :: donation_limiter
  gw_auth_throttle :: ip_throttle
  gw_worker :: worker
  gw_anti_abuse :: "(string \<times> anti_abuse) list"
  gw_limit_cache :: "(int \<times> (rpm_class \<Rightarrow> int)) list"
  gw_in_flight :: nat
  gw_sent :: "upstream_request list"

text \<open>\<open>cf_text\<close> is the table of the localized public messages, by language; \<open>cf_ban_reason\<close> the fixed text
  that an automatic ban stores.\<close>

record api_config =
  cf_log_detail_max :: int
  cf_response_mb :: int
  cf_max_in_flight :: nat
  cf_debug :: bool
  cf_remote_origins :: "string list"
  cf_ban_reason :: string
  cf_text :: "string \<Rightarrow> public_message \<Rightarrow> string"

text \<open>What goes out on the response: an error with status and code (the gateway's own texts are left
  out), a translated upstream error, a frame of a stream, its terminator, or a completion.\<close>

datatype written = WriteError int string | WriteDifyError int string public_message
  | WriteFrame json | WriteDone | WriteCompletion string string

record call_info =
  ci_user_id :: int
  ci_model :: string
  ci_service :: string
  ci_started_at :: int
  ci_lang :: string

section \<open>Effects shared by the handlers\<close>

definition record_hit :: "rpm_class \<Rightarrow> int \<Rightarrow> int \<Rightarrow> gateway \<Rightarrow> gateway" where
  "record_hit cls userID now g = g\<lparr>gw_limiter := rate_record cls userID now (gw_limiter g)\<rparr>"

definition on_store :: "(store \<Rightarrow> store) \<Rightarrow> gateway \<Rightarrow> gateway" where
  "on_store f g = g\<lparr>gw_store := f (gw_store g)\<rparr>"

definition bound_detail :: "api_config \<Rightarrow> string \<Rightarrow> string" where
  "bound_detail cfg detail = (if 0 < cf_log_detail_max cfg \<and> cf_log_detail_max cfg < int MaxBytes
     then BoundTo detail (cf_log_detail_max cfg) else Bound detail)"

definition logRequestDonation ::
  "api_config \<Rightarrow> call_info \<Rightarrow> int \<Rightarrow> string \<Rightarrow> string \<Rightarrow> int \<Rightarrow> string \<Rightarrow> int \<Rightarrow> int \<Rightarrow> string \<Rightarrow> gateway \<Rightarrow> gateway \<times> int" where
  "logRequestDonation cfg ci now status errorCode httpStatus detail donationID credits info g =
    (let (st, i) = addRequestLogFull \<lparr>le_user_id = ci_user_id ci, le_model = ci_model ci,
           le_service = ci_service ci, le_started_at = unix (ci_started_at ci), le_ended_at = unix now,
           le_status = status, le_error_code = errorCode, le_http_status = httpStatus,
           le_error_detail = bound_detail cfg detail, le_donation_id = donationID,
           le_credits_consumed = credits, le_anti_abuse_info = info\<rparr> (gw_store g)
     in (g\<lparr>gw_store := st\<rparr>, i))"

definition logRequest ::
  "api_config \<Rightarrow> call_info \<Rightarrow> int \<Rightarrow> string \<Rightarrow> string \<Rightarrow> int \<Rightarrow> string \<Rightarrow> string \<Rightarrow> gateway \<Rightarrow> gateway \<times> int" where
  "logRequest cfg ci now status errorCode httpStatus detail info g =
     logRequestDonation cfg ci now status errorCode httpStatus detail 0 0 info g"

abbreviation log_error :: "api_config \<Rightarrow> call_info \<Rightarrow> int \<Rightarrow> string \<Rightarrow> int \<Rightarrow> string \<Rightarrow> gateway \<Rightarrow> gateway" where
  "log_error cfg ci now code http detail g \<equiv> fst (logRequest cfg ci now ''error'' code http detail [] g)"

definition writeDifyError :: "dify_client_error \<Rightarrow> written" where
  "writeDifyError err = WriteDifyError (difyErrorStatus err) (public_error_code err)
     (sanitizePublicUpstreamError (Some err) (error_text err))"

definition statusClientClosedRequest :: int where "statusClientClosedRequest = 499"

definition send_call :: "dify_client \<Rightarrow> upstream_call \<Rightarrow> gateway \<Rightarrow> gateway" where
  "send_call c call g = (if dc_init_err c = None then g\<lparr>gw_sent := gw_sent g @ [client_request c call]\<rparr> else g)"

definition wfReq_User :: "int \<Rightarrow> string" where "wfReq_User userID = ''u'' @ Itoa userID"

definition stopDifyWorkflow :: "dify_client \<Rightarrow> string \<Rightarrow> int \<Rightarrow> gateway \<Rightarrow> gateway" where
  "stopDifyWorkflow c taskID userID g =
     (if taskID = [] then g else send_call c (StopTask taskID (wfReq_User userID)) g)"

section \<open>Streaming\<close>

text \<open>What a handler observes of the two channels and of the request's context. The first wait is a
  select over both channels and the context, so whichever is ready may be taken; \<open>sr_late\<close> is the
  non-blocking look at the error channel (\<open>None\<close> when nothing is ready); \<open>sr_drain\<close> the one after the
  events are over. The flags say whether the context had ended where the code asks, in the order of
  the code, and \<open>sr_ctx_done\<close> whether the relay loop was left through the context.\<close>

datatype first_wait = FirstEvent stream_event | EventsClosed | ErrReady "dify_client_error option" | ContextDone

record stream_run =
  sr_first :: first_wait
  sr_ctx_err :: bool
  sr_late :: "dify_client_error option option"
  sr_ctx_late :: bool
  sr_ctx_empty :: bool
  sr_ctx_started :: bool
  sr_flusher :: bool
  sr_events :: "stream_event list"
  sr_ctx_done :: bool
  sr_ctx_end :: bool
  sr_drain :: "dify_client_error option"
  sr_ctx_text :: string

definition ctx_detail :: "bool \<Rightarrow> string \<Rightarrow> stream_run \<Rightarrow> string" where
  "ctx_detail ended fallback run = (if ended then sr_ctx_text run else fallback)"

definition canceled :: "dify_client_error option \<Rightarrow> bool" where
  "canceled err \<longleftrightarrow> (case err of None \<Rightarrow> False | Some e \<Rightarrow> is_canceled e)"

definition last_task :: "stream_event list \<Rightarrow> string" where
  "last_task es = (case filter (\<lambda>e. ev_task_id e \<noteq> []) es of [] \<Rightarrow> [] | e # rest \<Rightarrow> ev_task_id (last (e # rest)))"

definition stream_policy :: "api_config \<Rightarrow> string \<Rightarrow> string \<Rightarrow> string" where
  "stream_policy cfg lang raw = cf_text cfg lang (sanitizePublicUpstreamError None raw)"

definition stream_error_frame :: "string \<Rightarrow> written" where
  "stream_error_frame message = WriteFrame (error_body (''[Dify] '' @ message))"

text \<open>The four ends of a stream that was relayed: the status, code and detail of its log row, what is
  still written, and whether the transfer is complete.\<close>

definition finish_stream ::
  "api_config \<Rightarrow> string \<Rightarrow> stream_converter \<Rightarrow> dify_client_error option \<Rightarrow>
   (string \<times> string \<times> string) \<times> written list \<times> bool" where
  "finish_stream cfg lang c streamErr =
    (if sc_failed c then
       ((''error'', ''upstream_error'', (case streamErr of
           Some e \<Rightarrow> if sc_fail_msg c = [] then error_text e else sc_fail_msg c | None \<Rightarrow> sc_fail_msg c)), [], False)
     else case streamErr of
       Some e \<Rightarrow> ((''error'', ''upstream_error'', error_text e),
         [stream_error_frame (cf_text cfg lang (sanitizePublicUpstreamError (Some e) (error_text e)))], False)
     | None \<Rightarrow> if \<not> sc_done c then
         ((''error'', ''upstream_stream_cut'', ''stream ended before workflow_finished''),
          [stream_error_frame ''upstream stream ended unexpectedly''], False)
       else ((''success'', [], []), map WriteFrame (Finalize c) @ [WriteDone], True))"

definition handleStreaming ::
  "api_config \<Rightarrow> dify_client \<Rightarrow> workflow_inputs \<Rightarrow> call_info \<Rightarrow> stream_run \<Rightarrow> (nat \<Rightarrow> int) \<Rightarrow> gateway \<Rightarrow>
   gateway \<times> written list" where
  "handleStreaming cfg c inputs ci run now g0 =
    (let u = ci_user_id ci;
         g = send_call c (RunWorkflow ''streaming'' inputs (wfReq_User u)) g0;
         cancel = (\<lambda>detail g. (log_error cfg ci (now 0) ''client_canceled'' statusClientClosedRequest detail g, []));
         fail = (\<lambda>e g. (log_error cfg ci (now 0) ''upstream_error'' (difyErrorStatus e) (error_text e) g, [writeDifyError e]));
         empty = (case sr_late run of
             Some err \<Rightarrow> if sr_ctx_late run \<or> canceled err
               then cancel (ctx_detail (sr_ctx_late run) ''client disconnected'' run) g
               else (case err of Some e \<Rightarrow> fail e g
                 | None \<Rightarrow> (log_error cfg ci (now 0) ''upstream_empty_stream'' 502
                     ''upstream returned an empty stream'' g, [WriteError 502 ''upstream_error'']))
           | None \<Rightarrow> (log_error cfg ci (now 0) ''upstream_empty_stream'' 502
               ''upstream returned an empty stream'' g, [WriteError 502 ''upstream_error'']))
     in case sr_first run of
       ContextDone \<Rightarrow> cancel (sr_ctx_text run) g
     | EventsClosed \<Rightarrow> empty
     | ErrReady err \<Rightarrow> if sr_ctx_err run then cancel (sr_ctx_text run) g
         else (case err of Some e \<Rightarrow> fail e g | None \<Rightarrow> empty)
     | FirstEvent evt \<Rightarrow>
         if sr_ctx_started run then cancel (sr_ctx_text run) g
         else let g1 = record_hit RpmClassB u (now 1) g in
           if \<not> sr_flusher run
           then (log_error cfg ci (now 2) ''stream_unsupported'' 500
                   ''response writer does not support streaming'' g1, [WriteError 500 ''internal''])
           else
             let c0 = NewStreamConverter (ci_model ci) (Some (stream_policy cfg (ci_lang ci))) (now 3) (unix (now 3));
                 (c1, frames) = convert_all (evt # sr_events run) c0;
                 relayed = map WriteFrame frames;
                 g2 = (if sr_ctx_done run then stopDifyWorkflow c (last_task (evt # sr_events run)) u g1 else g1)
             in if sr_ctx_done run \<or> sr_ctx_end run
                then (log_error cfg ci (now 4) ''client_canceled'' statusClientClosedRequest
                        (ctx_detail (sr_ctx_end run) ''client disconnected'' run) g2, relayed)
                else let ((status, code, detail), rest, complete) = finish_stream cfg (ci_lang ci) c1 (sr_drain run);
                         g3 = (if complete then record_hit RpmClassA u (now 4) g2 else g2)
                     in (fst (logRequest cfg ci (now 5) status code 200 detail [] g3), relayed @ rest))"

section \<open>Blocking\<close>

definition bytes :: "nat list \<Rightarrow> string" where "bytes = map char_of"

definition AlertBlockingFailed200 :: string where "AlertBlockingFailed200 = ''blocking_failed_200''"

text \<open>The four literal parts of the alert's text, in UTF-8.\<close>

definition failed200_message :: "string \<Rightarrow> string \<Rightarrow> int \<Rightarrow> string \<Rightarrow> string" where
  "failed200_message service model userID errorText =
     bytes [0xE9, 0x98, 0xBB, 0xE5, 0xA1, 0x9E, 0xE8, 0xB0, 0x83, 0xE7, 0x94, 0xA8, 0xE8, 0xBF, 0x94, 0xE5, 0x9B, 0x9E] @
     '' HTTP 200 '' @
     bytes [0xE4, 0xBD, 0x86, 0xE7, 0x8A, 0xB6, 0xE6, 0x80, 0x81, 0xE4, 0xB8, 0xBA, 0xE5, 0xA4, 0xB1, 0xE8, 0xB4, 0xA5,
       0xEF, 0xBC, 0x9A, 0xE6, 0x9C, 0x8D, 0xE5, 0x8A, 0xA1] @ '' '' @ service @
     bytes [0xEF, 0xBC, 0x8C, 0xE6, 0xA8, 0xA1, 0xE5, 0x9E, 0x8B] @ '' '' @ model @
     bytes [0xEF, 0xBC, 0x8C, 0xE7, 0x94, 0xA8, 0xE6, 0x88, 0xB7] @ '' '' @ Itoa userID @
     bytes [0xEF, 0xBC, 0x8C, 0xE5, 0x8E, 0x9F, 0xE5, 0xA7, 0x8B, 0xE9, 0x94, 0x99, 0xE8, 0xAF, 0xAF, 0xEF, 0xBC, 0x9A] @
     errorText"

definition maybeRecordBlockingFailedAlert ::
  "call_info \<Rightarrow> dify_error \<Rightarrow> int option \<Rightarrow> int \<Rightarrow> int \<Rightarrow> gateway \<Rightarrow> gateway" where
  "maybeRecordBlockingFailedAlert ci de donationID requestLogID now =
     on_store (AddAdminAlert \<lparr>ar_type = AlertBlockingFailed200,
       ar_message = failed200_message (ci_service ci) (ci_model ci) (ci_user_id ci) (dify_error_text de),
       ar_request_log_id = (if 0 < requestLogID then Some requestLogID else None),
       ar_donation_id = donationID, ar_subject_user_id = None\<rparr> (unix now))"

text \<open>The error of a reply with status 200, a failed workflow.\<close>

definition failed200 :: "dify_client_error \<Rightarrow> dify_error option" where
  "failed200 err = (case as_dify_error err of
     Some de \<Rightarrow> if dy_status de = 200 then Some de else None | None \<Rightarrow> None)"

definition handleBlocking ::
  "dify_env \<Rightarrow> api_config \<Rightarrow> dify_client \<Rightarrow> workflow_inputs \<Rightarrow> call_info \<Rightarrow> bool \<Rightarrow> string \<Rightarrow> (nat \<Rightarrow> int) \<Rightarrow> gateway \<Rightarrow>
   gateway \<times> written list" where
  "handleBlocking env cfg c inputs ci ctxEnded ctxText now g0 =
    (let u = ci_user_id ci; user = wfReq_User u;
         g = send_call c (RunWorkflow ''blocking'' inputs user) g0
     in case BlockingWorkflowContext env c inputs user of
       Inl err \<Rightarrow>
         if ctxEnded \<or> is_canceled err
         then (log_error cfg ci (now 0) ''client_canceled'' statusClientClosedRequest
                 (if ctxEnded then ctxText else error_text err) g, [])
         else
           let g1 = (if failed200 err \<noteq> None then record_hit RpmClassB u (now 1) g else g) in
           if IsTimeoutError (Some err)
           then (log_error cfg ci (now 2) ''upstream_timeout'' 504 (error_text err) g1, [WriteError 504 ''upstream_timeout''])
           else let (g2, logID) = logRequest cfg ci (now 2) ''error'' ''upstream_error'' (difyErrorStatus err) (error_text err) [] g1;
                    g3 = (case failed200 err of Some de \<Rightarrow> maybeRecordBlockingFailedAlert ci de None logID (now 3) g2
                          | None \<Rightarrow> g2)
                in (g3, [writeDifyError err])
     | Inr txt \<Rightarrow>
         let g1 = record_hit RpmClassB u (now 1) g;
             g2 = fst (logRequest cfg ci (now 2) ''success'' [] 200 [] [] g1)
         in (record_hit RpmClassA u (now 3) g2, [WriteCompletion (ci_model ci) txt]))"

section \<open>Donated calls\<close>

text \<open>The settlement of a reservation from a handler; a failed attempt leaves the id to the worker. The
  list holds the attempts that the budget leaves room for.\<close>

definition settle_or_wake :: "(bool \<times> int) list \<Rightarrow> string \<Rightarrow> gateway \<Rightarrow> gateway" where
  "settle_or_wake attempts rid g =
    (case settleCurrentState attempts rid (gw_store g) of
       (st, None) \<Rightarrow> g\<lparr>gw_store := st\<rparr>
     | (st, Some e) \<Rightarrow> g\<lparr>gw_store := st, gw_worker := fst (wake rid (gw_worker g))\<rparr>)"

definition charityCommitAccounting :: "(bool \<times> int) list \<Rightarrow> reservation \<Rightarrow> gateway \<Rightarrow> gateway" where
  "charityCommitAccounting attempts r = settle_or_wake attempts (r_id r)"

definition releaseCharitySetup :: "(bool \<times> int) list \<Rightarrow> reservation \<Rightarrow> gateway \<Rightarrow> gateway" where
  "releaseCharitySetup attempts r = settle_or_wake attempts (r_id r)"

definition log_donation ::
  "api_config \<Rightarrow> call_info \<Rightarrow> reservation \<Rightarrow> int \<Rightarrow> string \<Rightarrow> string \<Rightarrow> int \<Rightarrow> string \<Rightarrow> gateway \<Rightarrow> gateway \<times> int" where
  "log_donation cfg ci r now status code http detail =
     logRequestDonation cfg ci now status code http detail (r_donation_id r) (r_price r) []"

definition charityStreaming ::
  "api_config \<Rightarrow> dify_client \<Rightarrow> workflow_inputs \<Rightarrow> call_info \<Rightarrow> reservation \<Rightarrow> (bool \<times> int) list \<Rightarrow> stream_run \<Rightarrow>
   (nat \<Rightarrow> int) \<Rightarrow> gateway \<Rightarrow> gateway \<times> written list" where
  "charityStreaming cfg c inputs ci r attempts run now g0 =
    (let u = ci_user_id ci;
         g = send_call c (RunWorkflow ''streaming'' inputs (wfReq_User u)) g0;
         commit = charityCommitAccounting attempts r;
         logd = (\<lambda>t status code http detail g. fst (log_donation cfg ci r t status code http detail g));
         cancel = (\<lambda>detail. (logd (now 0) ''error'' ''client_canceled'' statusClientClosedRequest detail (commit g), []));
         fail = (\<lambda>e. (logd (now 0) ''error'' ''upstream_error'' (difyErrorStatus e) (error_text e) (commit g), [writeDifyError e]));
         none = (if sr_ctx_empty run then cancel (sr_ctx_text run)
                 else (logd (now 0) ''error'' ''upstream_empty_stream'' 502 ''upstream returned an empty stream'' (commit g),
                       [WriteError 502 ''upstream_error'']));
         empty = (case sr_late run of
             Some err \<Rightarrow> if sr_ctx_late run \<or> canceled err
               then cancel (ctx_detail (sr_ctx_late run) ''client disconnected before first upstream event'' run)
               else (case err of Some e \<Rightarrow> fail e | None \<Rightarrow> none)
           | None \<Rightarrow> none)
     in case sr_first run of
       ContextDone \<Rightarrow> cancel (sr_ctx_text run)
     | EventsClosed \<Rightarrow> empty
     | ErrReady err \<Rightarrow> if sr_ctx_err run \<or> canceled err
         then cancel ''client disconnected before first upstream event''
         else (case err of Some e \<Rightarrow> fail e | None \<Rightarrow> empty)
     | FirstEvent evt \<Rightarrow>
         if sr_ctx_started run
         then (logd (now 0) ''error'' ''client_canceled'' statusClientClosedRequest (sr_ctx_text run)
                 (record_hit RpmClassB u (now 1) (commit g)), [])
         else let g1 = record_hit RpmClassB u (now 1) (commit g) in
           if \<not> sr_flusher run
           then (logd (now 2) ''error'' ''stream_unsupported'' 500 ''response writer does not support streaming'' g1,
                 [WriteError 500 ''internal''])
           else
             let c0 = NewStreamConverter (ci_model ci) (Some (stream_policy cfg (ci_lang ci))) (now 3) (unix (now 3));
                 (c1, frames) = convert_all (evt # sr_events run) c0;
                 relayed = map WriteFrame frames;
                 g2 = (if sr_ctx_done run then stopDifyWorkflow c (last_task (evt # sr_events run)) u g1 else g1)
             in if sr_ctx_done run \<or> sr_ctx_end run
                then (logd (now 4) ''error'' ''client_canceled'' statusClientClosedRequest
                        (ctx_detail (sr_ctx_end run) ''client disconnected'' run) g2, relayed)
                else let ((status, code, detail), rest, complete) = finish_stream cfg (ci_lang ci) c1 (sr_drain run);
                         g3 = (if complete then record_hit RpmClassA u (now 4) g2 else g2)
                     in (logd (now 5) status code 200 detail g3, relayed @ rest))"

definition charityBlocking ::
  "dify_env \<Rightarrow> api_config \<Rightarrow> dify_client \<Rightarrow> workflow_inputs \<Rightarrow> call_info \<Rightarrow> reservation \<Rightarrow> (bool \<times> int) list \<Rightarrow> bool \<Rightarrow> string \<Rightarrow>
   (nat \<Rightarrow> int) \<Rightarrow> gateway \<Rightarrow> gateway \<times> written list" where
  "charityBlocking env cfg c inputs ci r attempts ctxEnded ctxText now g0 =
    (let u = ci_user_id ci; user = wfReq_User u;
         g = send_call c (RunWorkflow ''blocking'' inputs user) g0;
         commit = charityCommitAccounting attempts r;
         logd = log_donation cfg ci r
     in case BlockingWorkflowContext env c inputs user of
       Inl err \<Rightarrow>
         if ctxEnded \<or> is_canceled err
         then (fst (logd (now 0) ''error'' ''client_canceled'' statusClientClosedRequest
                 (if ctxEnded then ctxText else error_text err) (commit g)), [])
         else (case failed200 err of
             Some de \<Rightarrow>
               let g1 = commit (record_hit RpmClassB u (now 1) g);
                   (g2, logID) = logd (now 2) ''error'' ''upstream_error'' 200 (dify_error_text de) g1
               in (maybeRecordBlockingFailedAlert ci de (Some (r_donation_id r)) logID (now 3) g2, [writeDifyError err])
           | None \<Rightarrow>
               if IsTimeoutError (Some err)
               then (fst (logd (now 2) ''error'' ''upstream_timeout'' 504 (error_text err)
                       (commit (record_hit RpmClassB u (now 1) g))), [WriteError 504 ''upstream_timeout''])
               else (fst (logd (now 2) ''error'' ''upstream_error'' (difyErrorStatus err) (error_text err) (commit g)),
                     [writeDifyError err]))
     | Inr txt \<Rightarrow>
         let g1 = commit (record_hit RpmClassB u (now 1) g);
             g2 = record_hit RpmClassA u (now 3) g1
         in (fst (logd (now 4) ''success'' [] 200 [] g2), [WriteCompletion (ci_model ci) txt]))"

end
