(* ===== verification/Stores.thy ===== *)
theory Stores
  imports Users Donations Settings Limiters
begin

text \<open>
  The smaller tables: login sessions (\<^verbatim>\<open>db/sessions.go\<close>), caller keys (\<^verbatim>\<open>db/callerkeys.go\<close>), App
  configurations (\<^verbatim>\<open>db/appconfig.go\<close>), anti-abuse rules (\<^verbatim>\<open>db/anti_abuse.go\<close>), levels (\<^verbatim>\<open>db/level.go\<close>),
  model configurations and template generations (\<^verbatim>\<open>db/model_configs.go\<close>), announcements
  (\<^verbatim>\<open>db/bulletins.go\<close>). Random tokens and keys are arguments; SHA-256 and the cipher are the
  parameters \<open>crypto\<close>. A statement that violates a constraint of the schema returns an error.
\<close>

section \<open>Sessions\<close>

definition SessionTTL :: int where "SessionTTL = 604800"
definition SessionAbsoluteTTL :: int where "SessionAbsoluteTTL = 2592000"
definition SessionRenewalThreshold :: int where "SessionRenewalThreshold = 86400"

text \<open>Times are nanoseconds here, as in \<^verbatim>\<open>time.Time\<close>; the table holds Unix seconds.\<close>

definition CreateSession :: "string \<Rightarrow> int \<Rightarrow> int \<Rightarrow> store \<Rightarrow> store \<times> (int \<times> int) option" where
  "CreateSession token userID now st =
    (if by_key s_id token (sessions st) \<noteq> None \<or> user_row userID st = None then (st, None)
     else (st\<lparr>sessions := sessions st @ [\<lparr>s_id = token, s_user_id = userID,
              s_expires_at = unix (now + SessionTTL * second), s_created_at = unix now\<rparr>]\<rparr>,
           Some (now + SessionTTL * second, now + SessionAbsoluteTTL * second)))"

definition DeleteSession :: "string \<Rightarrow> store \<Rightarrow> store" where
  "DeleteSession token st = st\<lparr>sessions := delete_where (\<lambda>s. s_id s = token) (sessions st)\<rparr>"

definition absolute_expiry :: "session \<Rightarrow> int" where
  "absolute_expiry s = s_created_at s * second + SessionAbsoluteTTL * second"

definition renewed_expiry :: "session \<Rightarrow> int \<Rightarrow> int" where
  "renewed_expiry s now = (let renewed = now + SessionTTL * second
     in if absolute_expiry s < renewed then absolute_expiry s else renewed)"

definition getSessionUserAt :: "string \<Rightarrow> int \<Rightarrow> store \<Rightarrow> store \<times> user option" where
  "getSessionUserAt token now st = (case by_key s_id token (sessions st) of None \<Rightarrow> (st, None)
   | Some s \<Rightarrow>
      if s_expires_at s \<le> unix now \<or> \<not> now < absolute_expiry s then (DeleteSession token st, None)
      else
        let renewed = unix (renewed_expiry s now);
            st1 = (if SessionRenewalThreshold < renewed - s_expires_at s
              then st\<lparr>sessions := update_where (\<lambda>x. s_id x = token \<and> s_expires_at x = s_expires_at s)
                     (\<lambda>x. x\<lparr>s_expires_at := renewed\<rparr>) (sessions st)\<rparr>
              else st)
        in (st1, GetUserByID (s_user_id s) st1))"

definition DeleteUserSessions :: "int \<Rightarrow> store \<Rightarrow> store" where
  "DeleteUserSessions userID st = st\<lparr>sessions := delete_where (\<lambda>s. s_user_id s = userID) (sessions st)\<rparr>"

definition purgeExpiredSessionsAt :: "int \<Rightarrow> store \<Rightarrow> store \<times> int" where
  "purgeExpiredSessionsAt now st =
    (let idle = (\<lambda>s. s_expires_at s \<le> unix now);
         old = (\<lambda>s. s_created_at s \<le> unix (now - SessionAbsoluteTTL * second));
         rest = delete_where idle (sessions st)
     in (st\<lparr>sessions := delete_where old rest\<rparr>,
         count_where idle (sessions st) + count_where old rest))"

section \<open>Caller keys\<close>

text \<open>\<open>key\<close> is the generated key; its hash is unique over the table.\<close>

definition SetCallerKey :: "crypto \<Rightarrow> int \<Rightarrow> int \<Rightarrow> string \<Rightarrow> store \<Rightarrow> store \<times> string option" where
  "SetCallerKey crypt now userID key st = (case cr_encrypt crypt key of None \<Rightarrow> (st, None)
   | Some enc \<Rightarrow>
      let hash = cr_sha256 crypt key in
      if user_row userID st = None \<or> 0 < count_where (\<lambda>k. k_key_hash k = hash \<and> k_user_id k \<noteq> userID) (caller_keys st)
      then (st, None)
      else if by_key k_user_id userID (caller_keys st) = None
      then (st\<lparr>caller_keys := caller_keys st @ [\<lparr>k_user_id = userID, k_key_hash = hash, k_key_enc = enc,
              k_created_at = now, k_updated_at = now\<rparr>]\<rparr>, Some key)
      else (st\<lparr>caller_keys := update_where (\<lambda>k. k_user_id k = userID)
              (\<lambda>k. k\<lparr>k_key_hash := hash, k_key_enc := enc, k_updated_at := now\<rparr>) (caller_keys st)\<rparr>, Some key))"

definition GetUserByCallerKey :: "crypto \<Rightarrow> string \<Rightarrow> store \<Rightarrow> user option" where
  "GetUserByCallerKey crypt key st =
    (case query_row (\<lambda>k. k_key_hash k = cr_sha256 crypt key) (caller_keys st) of
       None \<Rightarrow> None | Some k \<Rightarrow> GetUserByID (k_user_id k) st)"

text \<open>\<open>Some []\<close> when the user has no key yet, \<open>None\<close> when the stored copy does not decrypt.\<close>

definition GetCallerKeyPlain :: "crypto \<Rightarrow> int \<Rightarrow> store \<Rightarrow> string option" where
  "GetCallerKeyPlain crypt userID st = (case by_key k_user_id userID (caller_keys st) of
     None \<Rightarrow> Some [] | Some k \<Rightarrow> cr_decrypt crypt (k_key_enc k))"

definition CallerKeyExists :: "int \<Rightarrow> store \<Rightarrow> bool" where
  "CallerKeyExists userID st \<longleftrightarrow> 0 < count_where (\<lambda>k. k_user_id k = userID) (caller_keys st)"

section \<open>App configurations\<close>

definition config_clash :: "int \<Rightarrow> string \<Rightarrow> store \<Rightarrow> bool" where
  "config_clash userID model st \<longleftrightarrow> 0 < count_where (\<lambda>c. c_user_id c = userID \<and> c_model c = model) (app_configs st)"

definition GetAppConfig :: "int \<Rightarrow> store \<Rightarrow> app_config option" where
  "GetAppConfig i st = by_key c_id i (app_configs st)"

definition CreateAppConfig ::
  "crypto \<Rightarrow> int \<Rightarrow> int \<Rightarrow> string \<Rightarrow> string \<Rightarrow> string \<Rightarrow> string \<Rightarrow> store \<Rightarrow> store \<times> app_config option" where
  "CreateAppConfig crypt now userID model baseURL apiKey remark st =
    (case cr_encrypt crypt apiKey of None \<Rightarrow> (st, None)
     | Some enc \<Rightarrow>
        if user_row userID st = None \<or> config_clash userID model st then (st, None)
        else let i = app_config_seq st + 1;
                 st1 = st\<lparr>app_configs := app_configs st @ [\<lparr>c_id = i, c_user_id = userID, c_model = model,
                   c_dify_base_url = baseURL, c_dify_api_key_enc = enc, c_note = remark, c_enabled = True,
                   c_created_at = now, c_updated_at = now\<rparr>], app_config_seq := i\<rparr>
             in (st1, GetAppConfig i st1))"

definition GetEnabledAppConfigByModel :: "int \<Rightarrow> string \<Rightarrow> store \<Rightarrow> app_config option" where
  "GetEnabledAppConfigByModel userID model st =
     query_row (\<lambda>c. c_user_id c = userID \<and> c_model c = model \<and> c_enabled c) (app_configs st)"

definition ListAppConfigs :: "int \<Rightarrow> store \<Rightarrow> app_config list" where
  "ListAppConfigs userID st = sort_key (\<lambda>c. - c_created_at c) (select_where (\<lambda>c. c_user_id c = userID) (app_configs st))"

definition owned_config :: "int \<Rightarrow> int \<Rightarrow> app_config \<Rightarrow> bool" where
  "owned_config i userID c \<longleftrightarrow> c_id c = i \<and> c_user_id c = userID"

definition update_config :: "int \<Rightarrow> int \<Rightarrow> (app_config \<Rightarrow> app_config) \<Rightarrow> store \<Rightarrow> store \<times> bool" where
  "update_config i userID f st = (st\<lparr>app_configs := update_where (owned_config i userID) f (app_configs st)\<rparr>,
     0 < count_where (owned_config i userID) (app_configs st))"

text \<open>The new name must not be that of another configuration of the user.\<close>

definition UpdateAppConfig ::
  "crypto \<Rightarrow> int \<Rightarrow> int \<Rightarrow> int \<Rightarrow> string \<Rightarrow> string \<Rightarrow> string \<Rightarrow> string \<Rightarrow> store \<Rightarrow> store \<times> bool" where
  "UpdateAppConfig crypt now i userID model baseURL apiKey remark st =
    (case cr_encrypt crypt apiKey of None \<Rightarrow> (st, False)
     | Some enc \<Rightarrow>
        if 0 < count_where (owned_config i userID) (app_configs st) \<and>
           0 < count_where (\<lambda>c. c_user_id c = userID \<and> c_model c = model \<and> c_id c \<noteq> i) (app_configs st)
        then (st, False)
        else update_config i userID (\<lambda>c. c\<lparr>c_model := model, c_dify_base_url := baseURL,
               c_dify_api_key_enc := enc, c_note := remark, c_updated_at := now\<rparr>) st)"

definition SetAppConfigEnabled :: "int \<Rightarrow> int \<Rightarrow> bool \<Rightarrow> int \<Rightarrow> store \<Rightarrow> store \<times> bool" where
  "SetAppConfigEnabled i userID enabled now =
     update_config i userID (\<lambda>c. c\<lparr>c_enabled := enabled, c_updated_at := now\<rparr>)"

definition DeleteAppConfig :: "int \<Rightarrow> int \<Rightarrow> store \<Rightarrow> store \<times> bool" where
  "DeleteAppConfig i userID st = (st\<lparr>app_configs := delete_where (owned_config i userID) (app_configs st)\<rparr>,
     0 < count_where (owned_config i userID) (app_configs st))"

section \<open>Anti-abuse rules\<close>

definition default_anti_abuse :: "string \<Rightarrow> int \<Rightarrow> anti_abuse" where
  "default_anti_abuse service now = \<lparr>aa_service = service, aa_mode = 2, aa_min_chars = 20,
     aa_penalty_deduct_credits = 0, aa_penalty_ban_hours = 0, aa_donation_selectable = True,
     aa_created_at = now, aa_updated_at = now\<rparr>"

definition GetAntiAbuseConfig :: "string \<Rightarrow> store \<Rightarrow> anti_abuse option" where
  "GetAntiAbuseConfig service st = by_key aa_service service (service_anti_abuse st)"

text \<open>The answer is a map by service; missing services are seeded first.\<close>

definition GetAntiAbuseConfigs :: "string list \<Rightarrow> int \<Rightarrow> store \<Rightarrow> store \<times> (string \<times> anti_abuse) list" where
  "GetAntiAbuseConfigs services now st =
    (let st1 = fold (\<lambda>s st. if GetAntiAbuseConfig s st = None
           then st\<lparr>service_anti_abuse := service_anti_abuse st @ [default_anti_abuse s now]\<rparr> else st) services st
     in (st1, map (\<lambda>c. (aa_service c, c)) (service_anti_abuse st1)))"

definition IsServiceDonationSelectable :: "string \<Rightarrow> store \<Rightarrow> bool" where
  "IsServiceDonationSelectable service st = (case GetAntiAbuseConfig service st of
     None \<Rightarrow> True | Some c \<Rightarrow> aa_donation_selectable c)"

datatype anti_abuse_error = BadMode int | BadMinChars int | BadDeduction int | BadBanHours int | BadSelectable int

record anti_abuse_input =
  ai_service :: string
  ai_mode :: int
  ai_min_chars :: int
  ai_deduct :: int
  ai_ban_hours :: int
  ai_selectable :: int

definition validateAntiAbuseConfig :: "anti_abuse_input \<Rightarrow> anti_abuse_error option" where
  "validateAntiAbuseConfig c =
    (if ai_mode c < 0 \<or> 2 < ai_mode c then Some (BadMode (ai_mode c))
     else if ai_min_chars c < 0 then Some (BadMinChars (ai_min_chars c))
     else if ai_deduct c < 0 then Some (BadDeduction (ai_deduct c))
     else if ai_ban_hours c < 0 then Some (BadBanHours (ai_ban_hours c))
     else if ai_selectable c \<noteq> 0 \<and> ai_selectable c \<noteq> 1 then Some (BadSelectable (ai_selectable c))
     else None)"

definition put_anti_abuse :: "int \<Rightarrow> anti_abuse_input \<Rightarrow> store \<Rightarrow> store" where
  "put_anti_abuse now c st =
    (let row = \<lparr>aa_service = ai_service c, aa_mode = ai_mode c, aa_min_chars = ai_min_chars c,
           aa_penalty_deduct_credits = ai_deduct c, aa_penalty_ban_hours = ai_ban_hours c,
           aa_donation_selectable = (ai_selectable c \<noteq> 0), aa_created_at = now, aa_updated_at = now\<rparr>
     in if GetAntiAbuseConfig (ai_service c) st = None
        then st\<lparr>service_anti_abuse := service_anti_abuse st @ [row]\<rparr>
        else st\<lparr>service_anti_abuse := update_where (\<lambda>r. aa_service r = ai_service c)
               (\<lambda>r. row\<lparr>aa_created_at := aa_created_at r\<rparr>) (service_anti_abuse st)\<rparr>)"

definition UpsertAntiAbuseConfig ::
  "anti_abuse_input \<Rightarrow> int \<Rightarrow> store \<Rightarrow> store \<times> (anti_abuse_error, anti_abuse option) result" where
  "UpsertAntiAbuseConfig c now st = (case validateAntiAbuseConfig c of Some e \<Rightarrow> (st, Inl e)
   | None \<Rightarrow> let st1 = put_anti_abuse now c st in (st1, Inr (GetAntiAbuseConfig (ai_service c) st1)))"

definition UpsertAntiAbuseConfigs ::
  "anti_abuse_input list \<Rightarrow> int \<Rightarrow> store \<Rightarrow> store \<times> (anti_abuse_error, unit) result" where
  "UpsertAntiAbuseConfigs cs now st = (case first_error validateAntiAbuseConfig cs of Some e \<Rightarrow> (st, Inl e)
   | None \<Rightarrow> (fold (put_anti_abuse now) cs st, Inr ()))"

section \<open>Levels\<close>

definition EffectiveLevel :: "int \<Rightarrow> int \<Rightarrow> int \<Rightarrow> int \<Rightarrow> int" where
  "EffectiveLevel donationCredit t2 t3 t4 =
    (if donationCredit < t2 then 1 else if donationCredit < t3 then 2 else if donationCredit < t4 then 3 else 4)"

definition LevelThresholds :: "store \<Rightarrow> int \<times> int \<times> int" where
  "LevelThresholds st = (GetSettingIntAllowZero ''level_threshold_2'' 1 st,
     GetSettingIntAllowZero ''level_threshold_3'' 100 st, GetSettingIntAllowZero ''level_threshold_4'' 500 st)"

definition GetUserLevel :: "user option \<Rightarrow> int \<times> int \<times> int \<Rightarrow> int \<times> bool" where
  "GetUserLevel u thresholds = (case u of None \<Rightarrow> (1, False)
   | Some x \<Rightarrow> (case u_level x of Some l \<Rightarrow> (l, True)
      | None \<Rightarrow> (case thresholds of (t2, t3, t4) \<Rightarrow> (EffectiveLevel (u_donation_credit x) t2 t3 t4, False))))"

section \<open>Template generations\<close>

text \<open>The mapping and the dummies are stored as JSON; the two texts are given.\<close>

definition AddServiceGeneration ::
  "int \<Rightarrow> string \<Rightarrow> string \<Rightarrow> string \<Rightarrow> string \<Rightarrow> string \<Rightarrow> string \<Rightarrow> int \<Rightarrow> int \<Rightarrow> store \<Rightarrow> store \<times> int" where
  "AddServiceGeneration userID service modelKey purpose seed mappingJSON dummyJSON dummies now st =
    (let i = service_generation_seq st + 1
     in (st\<lparr>service_generations := service_generations st @ [\<lparr>sg_id = i, sg_user_id = userID,
           sg_service = service, sg_model_key = modelKey, sg_purpose = purpose, sg_seed = seed,
           sg_mapping_json = mappingJSON, sg_dummy_json = dummyJSON, sg_dummy_count = dummies,
           sg_download_count = 1, sg_created_at = unix now\<rparr>], service_generation_seq := i\<rparr>, i))"

text \<open>\<open>Inl\<close> when the stored text does not decode; \<open>Inr []\<close> when there is no row.\<close>

definition LatestGenerationMapping ::
  "(string \<Rightarrow> (string \<times> string) list option) \<Rightarrow> int \<Rightarrow> string \<Rightarrow> string \<Rightarrow> store \<Rightarrow> (unit, (string \<times> string) list) result" where
  "LatestGenerationMapping decode userID service purpose st =
    (case sort_key (\<lambda>r. - sg_id r) (select_where (\<lambda>r. sg_user_id r = userID \<and> sg_service r = service \<and>
            sg_purpose r = purpose) (service_generations st)) of
       [] \<Rightarrow> Inr []
     | r # _ \<Rightarrow> (case decode (sg_mapping_json r) of None \<Rightarrow> Inl () | Some m \<Rightarrow> Inr m))"

definition ListServiceGenerations :: "int \<Rightarrow> store \<Rightarrow> service_generation list" where
  "ListServiceGenerations userID st =
     sort_key sg_id (select_where (\<lambda>r. sg_user_id r = userID) (service_generations st))"

definition PurgeExpiredServiceGenerations :: "int \<Rightarrow> store \<Rightarrow> store \<times> int" where
  "PurgeExpiredServiceGenerations now st =
    (let old = (\<lambda>r. sg_created_at r < now - request_log_retention)
     in (st\<lparr>service_generations := delete_where old (service_generations st)\<rparr>,
         count_where old (service_generations st)))"

section \<open>Announcements\<close>

record bulletin =
  bu_id :: int
  bu_title :: string
  bu_content :: string
  bu_content_type :: string
  bu_type :: string
  bu_sort_order :: int
  bu_closable :: bool
  bu_created_at :: int
  bu_expires_at :: "int option"
  bu_is_system :: bool
  bu_system_key :: "string option"
  bu_lang :: string

text \<open>The table \<^verbatim>\<open>bulletins\<close>, which no other component reads, with its \<open>AUTOINCREMENT\<close> counter.\<close>

record board =
  bd_rows :: "bulletin list"
  bd_seq :: int

datatype bulletin_error = BulletinMissing int | BulletinSystem int

definition GetBulletin :: "int \<Rightarrow> board \<Rightarrow> bulletin option" where
  "GetBulletin i b = by_key bu_id i (bd_rows b)"

definition CreateBulletin :: "int \<Rightarrow> bulletin \<Rightarrow> board \<Rightarrow> board \<times> bulletin option" where
  "CreateBulletin now x b =
    (let i = bd_seq b + 1;
         row = x\<lparr>bu_id := i, bu_created_at := now, bu_is_system := False, bu_system_key := None\<rparr>;
         b1 = b\<lparr>bd_rows := bd_rows b @ [row], bd_seq := i\<rparr>
     in (b1, GetBulletin i b1))"

definition UpdateBulletin :: "int \<Rightarrow> bulletin \<Rightarrow> board \<Rightarrow> board \<times> bulletin option" where
  "UpdateBulletin i x b = (case GetBulletin i b of None \<Rightarrow> (b, None)
   | Some old \<Rightarrow> if bu_is_system old then (b, None)
      else let b1 = b\<lparr>bd_rows := update_where (\<lambda>r. bu_id r = i \<and> \<not> bu_is_system r)
                 (\<lambda>r. r\<lparr>bu_title := bu_title x, bu_content := bu_content x, bu_content_type := bu_content_type x,
                    bu_type := bu_type x, bu_sort_order := bu_sort_order x, bu_closable := bu_closable x,
                    bu_expires_at := bu_expires_at x, bu_lang := bu_lang x\<rparr>) (bd_rows b)\<rparr>
           in (b1, GetBulletin i b1))"

definition DeleteBulletin :: "int \<Rightarrow> board \<Rightarrow> board" where
  "DeleteBulletin i b = b\<lparr>bd_rows := delete_where (\<lambda>r. bu_id r = i \<and> \<not> bu_is_system r) (bd_rows b)\<rparr>"

definition check_bulletin :: "board \<Rightarrow> int \<Rightarrow> bulletin_error option" where
  "check_bulletin b i = (case GetBulletin i b of None \<Rightarrow> Some (BulletinMissing i)
   | Some r \<Rightarrow> if bu_is_system r then Some (BulletinSystem i) else None)"

definition DeleteBulletins :: "int list \<Rightarrow> board \<Rightarrow> board \<times> (bulletin_error, unit) result" where
  "DeleteBulletins ids b = (case first_error (check_bulletin b) ids of Some e \<Rightarrow> (b, Inl e)
   | None \<Rightarrow> (fold DeleteBulletin ids b, Inr ()))"

definition by_board_order :: "bulletin list \<Rightarrow> bulletin list" where
  "by_board_order rows = sort_key (\<lambda>r. - bu_sort_order r) (sort_key (\<lambda>r. - bu_id r) rows)"

definition ListBulletins :: "board \<Rightarrow> bulletin list" where
  "ListBulletins b = by_board_order (bd_rows b)"

definition ListActiveBulletins :: "int \<Rightarrow> board \<Rightarrow> bulletin list" where
  "ListActiveBulletins now b = by_board_order (select_where (\<lambda>r. \<not> bu_is_system r \<and>
     (case bu_expires_at r of None \<Rightarrow> True | Some t \<Rightarrow> now < t)) (bd_rows b))"

section \<open>Model configurations\<close>

record model_config =
  mc_key :: string
  mc_display_name :: string
  mc_provider :: string
  mc_plugin :: string
  mc_version :: string
  mc_hash :: string
  mc_params_json :: string
  mc_enabled :: bool
  mc_sort_order :: int
  mc_manual :: bool
  mc_updated_at :: int

text \<open>\<open>defaults\<close> are the rows of \<open>DefaultModelConfigs\<close>.\<close>

definition seed_model_config :: "int \<Rightarrow> model_config \<Rightarrow> model_config list \<Rightarrow> model_config list" where
  "seed_model_config now m rows =
    (let rows1 = (if by_key mc_key (mc_key m) rows = None then rows @ [m\<lparr>mc_updated_at := now\<rparr>] else rows)
     in update_where (\<lambda>r. mc_key r = mc_key m \<and> \<not> mc_manual r \<and> mc_params_json r = [])
          (\<lambda>r. r\<lparr>mc_params_json := mc_params_json m, mc_hash := mc_hash m, mc_updated_at := now\<rparr>) rows1)"

definition SeedModelConfigs :: "model_config list \<Rightarrow> int \<Rightarrow> model_config list \<Rightarrow> model_config list" where
  "SeedModelConfigs defaults now rows = fold (seed_model_config now) defaults rows"

definition ListModelConfigs :: "model_config list \<Rightarrow> model_config list" where
  "ListModelConfigs rows = sort_key mc_sort_order (sort_key mc_key rows)"

definition ListEnabledModelConfigs :: "model_config list \<Rightarrow> model_config list" where
  "ListEnabledModelConfigs rows = sort_key mc_sort_order (sort_key mc_key (select_where mc_enabled rows))"

definition GetModelConfig :: "string \<Rightarrow> model_config list \<Rightarrow> model_config option" where
  "GetModelConfig k rows = by_key mc_key k rows"

definition PutModelConfig :: "model_config \<Rightarrow> int \<Rightarrow> model_config list \<Rightarrow> model_config list" where
  "PutModelConfig m now rows = (let row = m\<lparr>mc_updated_at := now\<rparr> in
     if by_key mc_key (mc_key m) rows = None then rows @ [row]
     else update_where (\<lambda>r. mc_key r = mc_key m) (\<lambda>r. row) rows)"

definition DeleteModelConfig :: "string \<Rightarrow> model_config list \<Rightarrow> model_config list" where
  "DeleteModelConfig k rows = delete_where (\<lambda>r. mc_key r = k) rows"

definition UpdateModelDependency :: "string \<Rightarrow> string \<Rightarrow> string \<Rightarrow> int \<Rightarrow> model_config list \<Rightarrow> model_config list \<times> int" where
  "UpdateModelDependency plugin version hash now rows =
    (let P = (\<lambda>r. mc_plugin r = plugin \<and> \<not> mc_manual r)
     in (update_where P (\<lambda>r. r\<lparr>mc_version := version, mc_hash := hash, mc_updated_at := now\<rparr>) rows,
         count_where P rows))"

section \<open>A session has an absolute end\<close>

text \<open>The requests that reach the session table.\<close>

datatype session_op = SessNew string int int | SessUse string int | SessDrop string | SessDropUser int | SessPurge int

fun session_exec :: "session_op \<Rightarrow> store \<Rightarrow> store" where
  "session_exec (SessNew t u now) st = fst (CreateSession t u now st)"
| "session_exec (SessUse t now) st = fst (getSessionUserAt t now st)"
| "session_exec (SessDrop t) st = DeleteSession t st"
| "session_exec (SessDropUser u) st = DeleteUserSessions u st"
| "session_exec (SessPurge now) st = fst (purgeExpiredSessionsAt now st)"

text \<open>Every session ends within the idle time of its creation or was renewed towards the absolute end,
  which no renewal moves.\<close>

definition session_ok :: "session \<Rightarrow> bool" where
  "session_ok s \<longleftrightarrow> s_expires_at s \<le> s_created_at s + SessionAbsoluteTTL"

definition sessions_ok :: "store \<Rightarrow> bool" where
  "sessions_ok st \<longleftrightarrow> keys_distinct s_id (sessions st) \<and> list_all session_ok (sessions st)"

lemma unix_add: "unix (t + n * second) = unix t + n"
  by (simp add: unix_def second_def)

lemma unix_renewed: "unix (renewed_expiry s now) \<le> s_created_at s + SessionAbsoluteTTL"
proof -
  have "unix (absolute_expiry s) = s_created_at s + SessionAbsoluteTTL"
    by (simp add: absolute_expiry_def unix_def second_def)
  moreover have "renewed_expiry s now \<le> absolute_expiry s" by (simp add: renewed_expiry_def Let_def)
  ultimately show ?thesis using unix_mono [of "renewed_expiry s now" "absolute_expiry s"] by simp
qed

lemma session_exec_ok:
  assumes "sessions_ok st"
  shows "sessions_ok (session_exec op st)"
proof (cases op)
  case (SessNew t u now)
  show ?thesis
    using assms SessNew
    by (auto simp: sessions_ok_def CreateSession_def session_ok_def unix_add SessionTTL_def
        SessionAbsoluteTTL_def by_key_None)
next
  case (SessUse t now)
  show ?thesis
  proof (cases "by_key s_id t (sessions st)")
    case None
    then show ?thesis using assms SessUse by (simp add: getSessionUserAt_def)
  next
    case (Some s)
    then have s: "s_id s = t" "s \<in> set (sessions st)" using by_key_SomeD by fastforce+
    have upd: "list_all session_ok (update_where (\<lambda>x. s_id x = t \<and> s_expires_at x = s_expires_at s)
        (\<lambda>x. x\<lparr>s_expires_at := unix (renewed_expiry s now)\<rparr>) (sessions st))"
    proof -
      have "x = s" if "x \<in> set (sessions st)" "s_id x = t" for x
        using that s assms by (auto simp: sessions_ok_def keys_distinct_def simp: distinct_map inj_on_def)
      then show ?thesis
        using assms unix_renewed [of s now]
        by (auto simp: sessions_ok_def list_all_iff set_update_where session_ok_def)
    qed
    show ?thesis
      using assms SessUse Some upd
      by (auto simp: sessions_ok_def getSessionUserAt_def Let_def DeleteSession_def list_all_delete)
  qed
qed (use assms in \<open>auto simp: sessions_ok_def DeleteSession_def DeleteUserSessions_def
    purgeExpiredSessionsAt_def Let_def list_all_delete\<close>)

lemma session_run_ok: "sessions_ok st \<Longrightarrow> sessions_ok (fold session_exec ops st)"
  by (induction ops arbitrary: st) (auto simp: session_exec_ok)

text \<open>A session cannot be kept alive: after any sequence of logins, uses, logouts and purges the
  stored expiry of a session is at most thirty days after its creation, and from that moment on its
  token opens nothing.\<close>

theorem session_absolute_end:
  assumes "sessions_ok st" "by_key s_id token (sessions (fold session_exec ops st)) = Some s"
    and "s_created_at s + SessionAbsoluteTTL \<le> unix now"
  shows "s_expires_at s \<le> s_created_at s + SessionAbsoluteTTL \<and>
    snd (getSessionUserAt token now (fold session_exec ops st)) = None"
proof -
  have "session_ok s"
    using session_run_ok [OF assms(1), of ops] by_key_SomeD [OF assms(2)]
    by (auto simp: sessions_ok_def list_all_iff)
  moreover from this have "s_expires_at s \<le> unix now" using assms(3) by (simp add: session_ok_def)
  ultimately show ?thesis using assms(2) by (simp add: session_ok_def getSessionUserAt_def)
qed

definition sample_session_ops :: "session_op list" where
  "sample_session_ops = [SessNew ''t'' 1 0, SessUse ''t'' (500000 * second), SessUse ''t'' (1000000 * second)]"

definition sample_session :: session where
  "sample_session = \<lparr>s_id = ''t'', s_user_id = 1, s_expires_at = 1604800, s_created_at = 0\<rparr>"

theorem session_absolute_end_witness:
  "by_key s_id ''t'' (sessions (fold session_exec sample_session_ops sample_store)) = Some sample_session \<and>
   snd (getSessionUserAt ''t'' (2592000 * second) (fold session_exec sample_session_ops sample_store)) = None"
proof -
  have "sessions_ok sample_store" by code_simp
  moreover have s: "by_key s_id ''t'' (sessions (fold session_exec sample_session_ops sample_store)) = Some sample_session"
    by code_simp
  moreover have "s_created_at sample_session + SessionAbsoluteTTL \<le> unix (2592000 * second)" by code_simp
  ultimately show ?thesis using session_absolute_end [of sample_store "''t''" sample_session_ops] by blast
qed

end
