(* ===== verification/Calls.thy ===== *)
theory Calls
  imports Relay Stores Middleware Complex_Main
begin

text \<open>
  The path of an API call, \<^verbatim>\<open>handleChatCompletions\<close> and \<^verbatim>\<open>handleCharityAfterRPM\<close> of
  \<^verbatim>\<open>handler/handler.go\<close> with the donation routing of \<^verbatim>\<open>handler/donations.go\<close>: authentication, the
  anti-abuse rules, the RPM gate, the translation of the messages, then either the caller's own App or
  a donated one. What the code learns from outside (clock, random draws, faults of the database driver,
  the end of the request's context, the upstream) is in \<open>call_env\<close>; a call is modelled as running alone.
\<close>

section \<open>Charity model names\<close>

text \<open>The prefix of charity models in UTF-8.\<close>

definition charity_prefix :: string where
  "charity_prefix = [CHR ''['', CHR 0xE5, CHR 0x85, CHR 0xAC, CHR 0xE7, CHR 0x9B, CHR 0x8A, CHR '']'']"

definition IsCharityModel :: "string \<Rightarrow> bool" where
  "IsCharityModel model \<longleftrightarrow> prefix charity_prefix model"

definition ParseCharityModel :: "string \<Rightarrow> string \<times> string" where
  "ParseCharityModel model =
    (let rest = (if prefix charity_prefix model then drop (length charity_prefix) model else model);
         service = ServiceOfModel rest
     in if service = [] then (service, [])
        else case index_byte (CHR '']'') rest of
          Some idx \<Rightarrow> (service, if 0 < idx \<and> idx + 1 < length rest then drop (idx + 1) rest else [])
        | None \<Rightarrow> (service, []))"

definition charityModelName :: "string \<Rightarrow> string \<Rightarrow> string" where
  "charityModelName service backend = charity_prefix @ ''['' @ service @ '']'' @ backend"

datatype input_error = UnsupportedService string | EmptyModel | BracketsInModel | KeyRequired | KeyBlank

definition normalizeDonationService :: "string \<Rightarrow> (input_error, string) result" where
  "normalizeDonationService service0 = (let service = TrimSpace service0 in
     if IsSupportedService service then Inr service else Inl (UnsupportedService service))"

definition normalizeDonationModel :: "string \<Rightarrow> (input_error, string) result" where
  "normalizeDonationModel model0 = (let model = TrimSpace model0 in
     if model = [] then Inl EmptyModel
     else if CHR ''['' \<in> set model \<or> CHR '']'' \<in> set model then Inl BracketsInModel else Inr model)"

definition normalizeDonationTarget :: "string \<Rightarrow> string \<Rightarrow> (input_error, string \<times> string) result" where
  "normalizeDonationTarget service0 model0 = (case normalizeDonationService service0 of Inl e \<Rightarrow> Inl e
   | Inr service \<Rightarrow> (case normalizeDonationModel model0 of Inl e \<Rightarrow> Inl e | Inr model \<Rightarrow> Inr (service, model)))"

definition validateDonationAPIKey :: "string option \<Rightarrow> bool \<Rightarrow> input_error option" where
  "validateDonationAPIKey apiKey required = (case apiKey of
     None \<Rightarrow> if required then Some KeyRequired else None
   | Some k \<Rightarrow> if TrimSpace k = [] then Some KeyBlank else None)"

section \<open>Choosing a donation\<close>

text \<open>The weight of a donation is the inverse of the time it has left, at least a minute. Weights and the
  draw are rational numbers here, \<^verbatim>\<open>float64\<close> in the code.\<close>

definition donation_weight :: "int \<Rightarrow> donation \<Rightarrow> rat" where
  "donation_weight now d = 1 / of_int (if d_deadline d - now < 60 then 60 else d_deadline d - now)"

fun pick_index :: "rat \<Rightarrow> rat list \<Rightarrow> nat \<Rightarrow> nat \<Rightarrow> nat" where
  "pick_index r [] i fallback = fallback"
| "pick_index r (w # ws) i fallback = (if r - w \<le> 0 then i else pick_index (r - w) ws (i + 1) fallback)"

definition sample_index :: "int \<Rightarrow> rat \<Rightarrow> donation list \<Rightarrow> nat" where
  "sample_index now draw ds =
    (let ws = map (donation_weight now) ds; total = sum_list ws
     in if 0 < total then pick_index (draw * total) ws 0 (length ds - 1) else length ds - 1)"

lemma pick_index_bound: "fallback < i + length ws \<Longrightarrow> pick_index r ws i fallback < i + length ws"
  by (induction r ws i fallback rule: pick_index.induct) auto

lemma sample_index_bound: "ds \<noteq> [] \<Longrightarrow> sample_index now draw ds < length ds"
  using pick_index_bound [of "length ds - 1" 0 "map (donation_weight now) ds"]
  by (auto simp: sample_index_def Let_def)

definition remove_nth :: "nat \<Rightarrow> 'a list \<Rightarrow> 'a list" where
  "remove_nth i xs = take i xs @ drop (i + 1) xs"

lemma length_remove_nth: "i < length xs \<Longrightarrow> length (remove_nth i xs) < length xs"
  by (simp add: remove_nth_def)

text \<open>One round per sampled candidate: the clock for the weights, the draw, and the clock that the limiter
  reads (in nanoseconds). A candidate without a free slot leaves the sample.\<close>

function pickWeightedDonation ::
  "(nat \<Rightarrow> int \<times> rat \<times> int) \<Rightarrow> nat \<Rightarrow> donation list \<Rightarrow> donation_limiter \<Rightarrow>
   donation_limiter \<times> (donation \<times> 64 word) option" where
  "pickWeightedDonation rounds k ds l =
    (if ds = [] then (l, None)
     else let (now, draw, tick) = rounds k;
              i = sample_index now draw ds;
              candidate = ds ! i
          in case acquire (d_id candidate) (d_rpm_limit candidate) tick l of
               (l1, Some lease) \<Rightarrow> (l1, Some (candidate, lease))
             | (l1, None) \<Rightarrow> pickWeightedDonation rounds (k + 1) (remove_nth i ds) l1)"
  by pat_completeness auto
termination
proof (relation "measure (\<lambda>(rounds, k, ds, l). length ds)")
  fix rounds :: "nat \<Rightarrow> int \<times> rat \<times> int" and k and ds :: "donation list" and l l1 :: donation_limiter and i
    and p q r
  assume "ds \<noteq> []" "i = sample_index p r ds"
  then have "length (remove_nth i ds) < length ds" by (simp add: length_remove_nth sample_index_bound)
  then show "((rounds, k + 1, remove_nth i ds, l1), rounds, k, ds, l) \<in> measure (\<lambda>(rounds, k, ds, l). length ds)"
    by simp
qed simp

declare pickWeightedDonation.simps [simp del]

section \<open>What a call learns from outside\<close>

text \<open>A fault of the database driver, with its effect on the response: the request's context was cancelled,
  or something else.\<close>

datatype fault = FaultCanceled | FaultOther

datatype debug_mode = DebugOff | DebugDryRun | DebugTap

text \<open>\<open>ce_now\<close> is the clock (nanoseconds) by program point. The next fields belong to the charity path and are
  indexed by the reservation attempt: the rounds of the weighted choice, the id of the reservation, the
  clock of its insertion, a fault of the insertion. \<open>ce_setup\<close> and \<open>ce_commit\<close> are the attempts that the
  settlement budget leaves room for, before and after dispatch.\<close>

record call_env =
  ce_dify :: dify_env
  ce_crypto :: crypto
  ce_base64 :: "string \<Rightarrow> (string, string) result"
  ce_mapping :: "string \<Rightarrow> (string \<times> string) list option"
  ce_quote :: "string \<Rightarrow> string"
  ce_contract_text :: "contract_error \<Rightarrow> string"
  ce_now :: "nat \<Rightarrow> int"
  ce_debug :: debug_mode
  ce_rounds :: "nat \<Rightarrow> nat \<Rightarrow> int \<times> rat \<times> int"
  ce_reservation_id :: "nat \<Rightarrow> string"
  ce_reserve_at :: "nat \<Rightarrow> int"
  ce_reserve_fault :: "nat \<Rightarrow> fault option"
  ce_setup :: "(bool \<times> int) list"
  ce_dispatch_at :: int
  ce_dispatch_fault :: "fault option"
  ce_image_ctx_ended :: bool
  ce_commit :: "(bool \<times> int) list"
  ce_run :: stream_run
  ce_ctx_ended :: bool
  ce_ctx_text :: string

text \<open>The HTTP request as far as the handler reads it: \<open>hr_body\<close> is \<open>None\<close> when the body exceeds the limit,
  \<open>hr_request\<close> the decoded body (model, messages, stream), \<open>None\<close> when it does not decode.\<close>

record chat_request =
  hr_method :: string
  hr_content_type :: string
  hr_authorization :: string
  hr_client_ip :: string
  hr_body :: "string option"
  hr_request :: "(string \<times> message list \<times> bool) option"

section \<open>Remote content\<close>

definition has_http :: "string \<Rightarrow> bool" where
  "has_http s \<longleftrightarrow> prefix ''http://'' s \<or> prefix ''https://'' s"

text \<open>The error of \<open>requireRemoteOrigin\<close>, if any; \<^verbatim>\<open>%q\<close> is the parameter \<open>ce_quote\<close>.\<close>

definition requireRemoteOrigin :: "call_env \<Rightarrow> api_config \<Rightarrow> string \<Rightarrow> string option" where
  "requireRemoteOrigin env cfg raw =
    (let bad = Some ''must be an http(s) URL without credentials or fragment''
     in case ne_parse_url (de_net (ce_dify env)) (TrimSpace raw) of
       None \<Rightarrow> bad
     | Some u \<Rightarrow>
         if (url_scheme u \<noteq> ''http'' \<and> url_scheme u \<noteq> ''https'') \<or> url_host u = [] \<or> Hostname u = [] \<or>
            url_has_user u \<or> url_fragment u \<noteq> [] then bad
         else if canonicalOrigin u \<notin> set (cf_remote_origins cfg)
         then Some (''origin '' @ ce_quote env (canonicalOrigin u) @ '' is not allowed by REMOTE_CONTENT_ORIGIN_ALLOWLIST'')
         else None)"

text \<open>The images from index \<open>i\<close> on.\<close>

fun remote_images :: "call_env \<Rightarrow> api_config \<Rightarrow> nat \<Rightarrow> string list \<Rightarrow> string option" where
  "remote_images env cfg i [] = None"
| "remote_images env cfg i (img # imgs) =
    (case (if has_http img then requireRemoteOrigin env cfg img else None) of
       Some e \<Rightarrow> Some (''image '' @ itoa (i + 1) @ '': '' @ e)
     | None \<Rightarrow> remote_images env cfg (i + 1) imgs)"

definition validateRemoteContent :: "call_env \<Rightarrow> api_config \<Rightarrow> string \<Rightarrow> inputs \<Rightarrow> string list \<Rightarrow> string option" where
  "validateRemoteContent env cfg service inputs images =
    (case (if service = ''website-summary'' then requireRemoteOrigin env cfg (get_input inputs ''request_url'') else None) of
       Some e \<Rightarrow> Some (''request_url: '' @ e)
     | None \<Rightarrow> remote_images env cfg 0 images)"

section \<open>Images\<close>

text \<open>\<^verbatim>\<open>strings.Cut\<close>.\<close>

fun cut :: "string \<Rightarrow> string \<Rightarrow> (string \<times> string) option" where
  "cut sep [] = (if sep = [] then Some ([], []) else None)"
| "cut sep (c # s) = (if prefix sep (c # s) then Some ([], drop (length sep) (c # s))
     else map_option (\<lambda>(a, b). (c # a, b)) (cut sep s))"

definition parseDataURI :: "call_env \<Rightarrow> string \<Rightarrow> (dify_client_error, string \<times> string) result" where
  "parseDataURI env uri =
    (if \<not> prefix ''data:'' uri then Inl (LocalError ''not a data URI'')
     else case cut '';base64,'' (drop (length ''data:'') uri) of
       None \<Rightarrow> Inl (LocalError ''data URI must be base64-encoded'')
     | Some (mime, payload) \<Rightarrow> (case ce_base64 env payload of
         Inl m \<Rightarrow> Inl (LocalError (''invalid base64: '' @ m))
       | Inr content \<Rightarrow> Inr (if mime = [] then ''image/png'' else mime, content)))"

definition image_label :: "nat \<Rightarrow> string" where "image_label i = ''image '' @ itoa (i + 1)"

definition image_extension :: "string \<Rightarrow> string" where
  "image_extension mime = (let ext = (case last_index ''/'' mime of None \<Rightarrow> mime | Some j \<Rightarrow> drop (j + 1) mime)
     in if ext = ''jpeg'' then ''jpg'' else ext)"

text \<open>\<open>buildImageFiles\<close>, from the image with index \<open>i\<close> on.\<close>

fun buildImageFiles ::
  "call_env \<Rightarrow> dify_client \<Rightarrow> string \<Rightarrow> nat \<Rightarrow> string list \<Rightarrow> gateway \<Rightarrow> gateway \<times> (dify_client_error, image_file list) result" where
  "buildImageFiles env c usr i [] g = (g, Inr [])"
| "buildImageFiles env c usr i (img # imgs) g =
    (if has_http img
     then map_prod id (map_sum id (Cons (RemoteImage img))) (buildImageFiles env c usr (i + 1) imgs g)
     else if prefix ''data:'' img
     then (case parseDataURI env img of
         Inl e \<Rightarrow> (g, Inl (LocalError (image_label i @ '': '' @ error_text e)))
       | Inr (mime, content) \<Rightarrow>
           if 10 * 2 ^ 20 < length content
           then (g, Inl (LocalError (image_label i @ '' exceeds the 10MB limit ('' @ itoa (length content) @ '' bytes)'')))
           else let name = ''image-'' @ itoa (i + 1) @ ''.'' @ image_extension mime;
                    g1 = send_call c (UploadFile usr name mime content) g
                in (case UploadFileContext (ce_dify env) c usr name mime content of
                      Inl e \<Rightarrow> (g1, Inl e)
                    | Inr fid \<Rightarrow> map_prod id (map_sum id (Cons (LocalImage fid))) (buildImageFiles env c usr (i + 1) imgs g1)))
     else (g, Inl (LocalError (image_label i @ '': unsupported reference (expect http(s) URL or data URI)''))))"

section \<open>Template services\<close>

text \<open>The only downloadable template (\<^verbatim>\<open>difyapp.Templates\<close>).\<close>

definition serviceHasTemplate :: "string \<Rightarrow> bool" where
  "serviceHasTemplate service \<longleftrightarrow> service = ''sillytavern-main-v1''"

definition remap_inputs :: "(string \<times> string) list \<Rightarrow> inputs \<Rightarrow> workflow_inputs" where
  "remap_inputs mapping inputs = fold (\<lambda>(k, v) m. case map_of mapping k of None \<Rightarrow> m
     | Some key \<Rightarrow> map_put key (TextInput v) m) inputs []"

text \<open>\<open>Inl\<close> when the stored mapping does not decode, \<open>None\<close> when there is none.\<close>

definition remapInputsForService ::
  "call_env \<Rightarrow> int \<Rightarrow> string \<Rightarrow> inputs \<Rightarrow> string \<Rightarrow> store \<Rightarrow> (unit, workflow_inputs option) result" where
  "remapInputsForService env userID service inputs purpose st =
    (if \<not> serviceHasTemplate service then Inr (Some (map (map_prod id TextInput) inputs))
     else case LatestGenerationMapping (ce_mapping env) userID service purpose st of Inl e \<Rightarrow> Inl ()
       | Inr mapping \<Rightarrow> Inr (if mapping = [] then None else Some (remap_inputs mapping inputs)))"

section \<open>Authentication\<close>

definition bearer_key :: "string \<Rightarrow> string" where
  "bearer_key key = (if 7 < length key \<and> EqualFold (take 7 key) ''Bearer '' then TrimSpace (drop 7 key) else key)"

definition userFromCallerKey :: "call_env \<Rightarrow> string \<Rightarrow> int \<Rightarrow> store \<Rightarrow> user option" where
  "userFromCallerKey env authorization now st = (let key = bearer_key authorization in
     if key = [] then None
     else case GetUserByCallerKey (ce_crypto env) key st of None \<Rightarrow> None
       | Some u \<Rightarrow> if IsBanned (unix now) u then None else Some u)"

definition userLang :: "user \<Rightarrow> string" where
  "userLang u = (if u_lang u = ''en'' then ''en'' else ''zh'')"

text \<open>The answer to a request without a valid key, shared by the endpoints of the API.\<close>

definition reject_caller :: "string \<Rightarrow> int \<Rightarrow> gateway \<Rightarrow> gateway \<times> written list" where
  "reject_caller ip now g = (let (t1, ok) = ip_allow ip now (gw_auth_throttle g)
     in (g\<lparr>gw_auth_throttle := t1\<rparr>,
         [if ok then WriteError 401 ''unauthorized'' else WriteError 429 ''rate_limited'']))"

section \<open>Anti-abuse\<close>

text \<open>\<^verbatim>\<open>utf8.RuneCountInString\<close>: an invalid byte counts as one rune.\<close>

function rune_count :: "string \<Rightarrow> int" where
  "rune_count s = (if s = [] then 0 else 1 + rune_count (drop (max 1 (rune_len s)) s))"
  by pat_completeness auto
termination by (relation "measure length") auto

declare rune_count.simps [simp del]

definition allowed_role :: "string \<Rightarrow> bool" where
  "allowed_role r \<longleftrightarrow> r \<in> set [''system'', ''user'', ''assistant'']"

fun bad_role :: "nat \<Rightarrow> message list \<Rightarrow> (nat \<times> string) option" where
  "bad_role i [] = None"
| "bad_role i (m # ms) = (if allowed_role (m_role m) then bad_role (i + 1) ms else Some (i, m_role m))"

definition dquoted :: "string \<Rightarrow> string" where "dquoted s = CHR 0x22 # s @ [CHR 0x22]"

definition penalties_json :: "anti_abuse \<Rightarrow> string" where
  "penalties_json c = ''{'' @ dquoted ''triggered'' @ '':'' @ dquoted ''content_too_short'' @ '','' @
     dquoted ''penalties'' @ '':['' @ comma_join
       ((if 0 < aa_penalty_deduct_credits c
         then [dquoted (''credits_deducted:'' @ Itoa (aa_penalty_deduct_credits c))] else []) @
        (if 0 < aa_penalty_ban_hours c then [dquoted (''banned:'' @ Itoa (aa_penalty_ban_hours c) @ ''h'')] else [])) @
     '']}''"

definition invalid_role_json :: string where
  "invalid_role_json = ''{'' @ dquoted ''triggered'' @ '':'' @ dquoted ''invalid_role'' @ '','' @
     dquoted ''penalties'' @ '':[]}''"

definition length_checked :: "anti_abuse \<Rightarrow> string \<Rightarrow> bool" where
  "length_checked c model \<longleftrightarrow> aa_mode c = 2 \<or> aa_mode c = 1 \<and> IsCharityModel model"

definition ban_for :: "api_config \<Rightarrow> int \<Rightarrow> int \<Rightarrow> int \<Rightarrow> store \<Rightarrow> store" where
  "ban_for cfg userID hours now st = DeleteUserSessions userID
     (AutoBanUser (cf_ban_reason cfg) userID (unix (now + hours * 3600 * second)) (unix now) st)"

definition checkAntiAbuse ::
  "call_env \<Rightarrow> api_config \<Rightarrow> call_info \<Rightarrow> message list \<Rightarrow> gateway \<Rightarrow> gateway \<times> string option" where
  "checkAntiAbuse env cfg ci messages g =
    (let u = ci_user_id ci; model = ci_model ci in
     case bad_role 0 messages of
       Some (i, role) \<Rightarrow>
         (fst (logRequest cfg ci (ce_now env 0) ''error'' ''invalid_role'' 400
            (''messages['' @ itoa i @ '']: unsupported role '' @ ce_quote env role) invalid_role_json g),
          Some ''invalid_role'')
     | None \<Rightarrow>
         let total_chars = sum_list (map (\<lambda>m. rune_count (m_content m)) messages);
             s = fst (ParseCharityModel model);
             lookup = (if IsCharityModel model \<and> s \<noteq> [] then s else ci_service ci);
             c = (case map_of (gw_anti_abuse g) lookup of Some c \<Rightarrow> c
                  | None \<Rightarrow> (default_anti_abuse lookup 0)\<lparr>aa_mode := 2, aa_min_chars := 20\<rparr>)
         in if length_checked c model \<and> total_chars < aa_min_chars c then
              let g1 = fst (logRequest cfg ci (ce_now env 0) ''error'' ''content_too_short'' 400
                     (''total chars '' @ Itoa total_chars @ '' < min '' @ Itoa (aa_min_chars c) @ '' (service '' @
                      ci_service ci @ '', mode '' @ Itoa (aa_mode c) @ '')'') (penalties_json c) g);
                  g2 = (if 0 < aa_penalty_deduct_credits c
                    then on_store (\<lambda>st. fst (AdjustUserCredits u (- aa_penalty_deduct_credits c) (unix (ce_now env 1)) st)) g1
                    else g1);
                  g3 = (if 0 < aa_penalty_ban_hours c
                    then on_store (ban_for cfg u (aa_penalty_ban_hours c) (ce_now env 2)) g2 else g2)
              in (g3, Some ''content_too_short'')
            else (g, None))"

section \<open>The RPM gate\<close>

definition stored_limits :: "int \<Rightarrow> store \<Rightarrow> rpm_class \<Rightarrow> int" where
  "stored_limits userID st cls =
    (let personal = (\<lambda>f d. case Option.bind (GetUserByID userID st) f of Some n \<Rightarrow> n | None \<Rightarrow> d)
     in case cls of
       RpmClassA \<Rightarrow> personal u_rpm_limit_a (GetSettingInt ''rpm_limit_a'' 6 st)
     | RpmClassB \<Rightarrow> personal u_rpm_limit_b (GetSettingInt ''rpm_limit_b'' 12 st)
     | RpmClassC \<Rightarrow> personal u_rpm_limit_c (GetSettingInt ''rpm_limit_c'' 18 st))"

definition effectiveRPMLimits :: "int \<Rightarrow> gateway \<Rightarrow> gateway \<times> (rpm_class \<Rightarrow> int)" where
  "effectiveRPMLimits userID g = (case map_of (gw_limit_cache g) userID of
     Some v \<Rightarrow> (g, v)
   | None \<Rightarrow> let v = stored_limits userID (gw_store g)
       in (g\<lparr>gw_limit_cache := map_put userID v (gw_limit_cache g)\<rparr>, v))"

definition invalidateRPMCache :: "int \<Rightarrow> gateway \<Rightarrow> gateway" where
  "invalidateRPMCache userID g = g\<lparr>gw_limit_cache :=
     (if userID = 0 then [] else map_del userID (gw_limit_cache g))\<rparr>"

text \<open>The labels and the pieces of the log detail in UTF-8.\<close>

definition classLabel :: "rpm_class \<Rightarrow> string" where
  "classLabel cls = (case cls of
     RpmClassA \<Rightarrow> ''A'' @ bytes [0xEF, 0xBC, 0x88, 0xE4, 0xBC, 0xA0, 0xE8, 0xBE, 0x93, 0xE5, 0xAE, 0x8C, 0xE6, 0x88, 0x90, 0xEF, 0xBC, 0x89]
   | RpmClassB \<Rightarrow> ''B'' @ bytes [0xEF, 0xBC, 0x88, 0xE8, 0xAF, 0xB7, 0xE6, 0xB1, 0x82, 0xE6, 0x88, 0x90, 0xE5, 0x8A, 0x9F, 0xEF, 0xBC, 0x89]
   | RpmClassC \<Rightarrow> ''C'' @ bytes [0xEF, 0xBC, 0x88, 0xE8, 0xAF, 0xB7, 0xE6, 0xB1, 0x82, 0xE6, 0x8E, 0xA5, 0xE6, 0x94, 0xB6, 0xEF, 0xBC, 0x89])"

definition rpm_detail :: "rpm_class \<Rightarrow> int \<Rightarrow> string" where
  "rpm_detail cls cap = bytes [0xE8, 0xB6, 0x85, 0xE5, 0x87, 0xBA, 0xE7, 0xB1, 0xBB, 0xE5, 0x88, 0xAB] @ '' '' @ classLabel cls @
     '' '' @ bytes [0xE4, 0xB8, 0x8A, 0xE9, 0x99, 0x90, 0xEF, 0xBC, 0x88] @ Itoa cap @ '' '' @
     bytes [0xE6, 0xAC, 0xA1, 0x2F, 0xE5, 0x88, 0x86, 0xEF, 0xBC, 0x89]"

text \<open>A call over a limit is logged; the configured number of such calls within a day bans the caller. A call
  within the limits counts in class C.\<close>

definition rpm_gate :: "call_env \<Rightarrow> api_config \<Rightarrow> call_info \<Rightarrow> gateway \<Rightarrow> gateway \<times> bool" where
  "rpm_gate env cfg ci g0 =
    (let u = ci_user_id ci;
         (g, limits) = effectiveRPMLimits u g0;
         (l1, violated) = rate_check u (ci_started_at ci) limits (gw_limiter g);
         g1 = g\<lparr>gw_limiter := l1\<rparr>
     in case violated of
       None \<Rightarrow> (record_hit RpmClassC u (ci_started_at ci) g1, True)
     | Some cls \<Rightarrow>
         let g2 = log_error cfg ci (ce_now env 3) ''rpm_exceeded'' 403 (rpm_detail cls (limits cls)) g1;
             st = gw_store g2;
             violationLimit = GetSettingInt ''rpm_violation_limit'' 5 st;
             banHours = GetSettingInt ''rpm_ban_hours'' 24 st;
             violations = CountRecentErrors u ''rpm_exceeded'' (unix (ci_started_at ci - 24 * 3600 * second)) st
         in if violationLimit \<le> violations
            then (on_store (ban_for cfg u banHours (ce_now env 4)) g2, False)
            else (g2, False))"

section \<open>The charity path\<close>

text \<open>The candidate whose reservation lost its donation leaves the list.\<close>

fun remove_candidate :: "int \<Rightarrow> donation list \<Rightarrow> donation list" where
  "remove_candidate i [] = []"
| "remove_candidate i (d # ds) = (if d_id d = i then ds else d # remove_candidate i ds)"

datatype attempt = AttemptRetry "donation list" | AttemptStop "written list"
  | AttemptReady donation "64 word" reservation dify_client

definition free_lease :: "donation \<Rightarrow> 64 word \<Rightarrow> gateway \<Rightarrow> gateway" where
  "free_lease d lease g = g\<lparr>gw_donation_limiter := release_lease (d_id d) lease (gw_donation_limiter g)\<rparr>"

definition credits_detail :: "int \<Rightarrow> int \<Rightarrow> string" where
  "credits_detail credits price = ''credits '' @ Itoa credits @ '' < price '' @ Itoa price"

definition credits_of :: "int \<Rightarrow> store \<Rightarrow> int" where
  "credits_of userID st = (case GetUserByID userID st of Some u \<Rightarrow> u_credits u | None \<Rightarrow> 0)"

text \<open>The log row of a call that ends before its donation is used.\<close>

abbreviation log_setup ::
  "api_config \<Rightarrow> call_info \<Rightarrow> donation \<Rightarrow> int \<Rightarrow> string \<Rightarrow> int \<Rightarrow> string \<Rightarrow> gateway \<Rightarrow> gateway" where
  "log_setup cfg ci d now code http detail g \<equiv>
     fst (logRequestDonation cfg ci now ''error'' code http detail (d_id d) 0 [] g)"

text \<open>The insertion of the reservation; a fault of the driver rolls the transaction back.\<close>

datatype reserve_result = ReserveFault fault | ReserveRefused ledger_error | ReserveDone reservation

definition reserve_step :: "call_env \<Rightarrow> nat \<Rightarrow> int \<Rightarrow> donation \<Rightarrow> pricing \<Rightarrow> store \<Rightarrow> store \<times> reserve_result" where
  "reserve_step env k userID d p st = (case ce_reserve_fault env k of
     Some f \<Rightarrow> (st, ReserveFault f)
   | None \<Rightarrow> (case ReserveCharityCall (ce_reservation_id env k) (ce_reserve_at env k) userID (d_id d) (p_price p) (p_reward p) st of
       (st1, Inl e) \<Rightarrow> (st1, ReserveRefused e)
     | (st1, Inr r) \<Rightarrow> (st1, ReserveDone r)))"

text \<open>The credential of the donation that was reserved.\<close>

definition open_client ::
  "call_env \<Rightarrow> api_config \<Rightarrow> call_info \<Rightarrow> donation \<Rightarrow> 64 word \<Rightarrow> reservation \<Rightarrow> gateway \<Rightarrow> gateway \<times> attempt" where
  "open_client env cfg ci d lease r g =
    (let undo = (\<lambda>g. free_lease d lease (releaseCharitySetup (ce_setup env) r g)) in
     case cr_decrypt (ce_crypto env) (d_dify_api_key_enc d) of
       None \<Rightarrow> (log_setup cfg ci d (ce_now env 5) ''internal'' 500 ''credential decryption error'' (undo g),
         AttemptStop [WriteError 500 ''internal''])
     | Some key \<Rightarrow> (case newDifyClient (ce_dify env) (d_dify_base_url d) key (cf_response_mb cfg) of
         Inl e \<Rightarrow> (log_setup cfg ci d (ce_now env 5) ''upstream_blocked'' 502 (de_egress_text (ce_dify env) e) (undo g),
           AttemptStop [WriteError 502 ''upstream_blocked''])
       | Inr c \<Rightarrow> (g, AttemptReady d lease r c)))"

text \<open>One round of the loop: choose a candidate, reserve, open the credential.\<close>

definition reserve_once ::
  "call_env \<Rightarrow> api_config \<Rightarrow> call_info \<Rightarrow> pricing \<Rightarrow> nat \<Rightarrow> donation list \<Rightarrow> gateway \<Rightarrow> gateway \<times> attempt" where
  "reserve_once env cfg ci p k candidates g =
    (case pickWeightedDonation (ce_rounds env k) 0 candidates (gw_donation_limiter g) of
       (l, None) \<Rightarrow> (log_error cfg ci (ce_now env 5) ''charity_overloaded'' 429 ''all routable donations at RPM limit''
           (g\<lparr>gw_donation_limiter := l\<rparr>), AttemptStop [WriteError 429 ''charity_overloaded''])
     | (l, Some (d, lease)) \<Rightarrow>
         let (st, res) = reserve_step env k (ci_user_id ci) d p (gw_store g);
             g1 = g\<lparr>gw_donation_limiter := l, gw_store := st\<rparr>
         in case res of
           ReserveDone r \<Rightarrow> open_client env cfg ci d lease r g1
         | ReserveRefused e \<Rightarrow>
             if e = ErrDonationUnavailable
             then (free_lease d lease g1, AttemptRetry (remove_candidate (d_id d) candidates))
             else if e = ErrInsufficientCredits
             then (log_error cfg ci (ce_now env 5) ''insufficient_credits'' 403
                 (credits_detail (credits_of (ci_user_id ci) st) (p_price p)) (free_lease d lease g1),
               AttemptStop [WriteError 403 ''insufficient_credits''])
             else (free_lease d lease g1, AttemptStop [WriteError 500 ''internal''])
         | ReserveFault f \<Rightarrow> (free_lease d lease g1,
             AttemptStop (if f = FaultCanceled then [] else [WriteError 500 ''internal''])))"

text \<open>The loop of the code, which ends when the candidates run out, a round stops, or one is ready. That it
  always returns is a theorem below.\<close>

partial_function (option) reserve_loop ::
  "call_env \<Rightarrow> api_config \<Rightarrow> call_info \<Rightarrow> pricing \<Rightarrow> nat \<Rightarrow> donation list \<Rightarrow> gateway \<Rightarrow> (gateway \<times> attempt) option" where
  "reserve_loop env cfg ci p k candidates g =
    (if candidates = [] then Some (g, AttemptRetry [])
     else case reserve_once env cfg ci p k candidates g of
       (g1, AttemptRetry rest) \<Rightarrow> reserve_loop env cfg ci p (k + 1) rest g1
     | (g1, other) \<Rightarrow> Some (g1, other))"

declare reserve_loop.simps [code]

definition mapping_snapshot :: "call_env \<Rightarrow> donation \<Rightarrow> (string \<times> string) list" where
  "mapping_snapshot env d = (if d_mapping_json d = [] then []
     else case ce_mapping env (d_mapping_json d) of None \<Rightarrow> [] | Some m \<Rightarrow> m)"

definition with_files :: "image_file list \<Rightarrow> workflow_inputs \<Rightarrow> workflow_inputs" where
  "with_files files m = map_put ''input_image_list'' (FilesInput files) m"

text \<open>The forwarding of a call whose inputs are complete. The clock of the last stage is the call's from the
  tenth point on.\<close>

definition charity_forward ::
  "call_env \<Rightarrow> api_config \<Rightarrow> call_info \<Rightarrow> bool \<Rightarrow> reservation \<Rightarrow> dify_client \<Rightarrow> workflow_inputs \<Rightarrow> gateway \<Rightarrow>
   gateway \<times> written list" where
  "charity_forward env cfg ci stream r c inputs g =
    (if stream then charityStreaming cfg c inputs ci r (ce_commit env) (ce_run env) (\<lambda>k. ce_now env (10 + k)) g
     else charityBlocking (ce_dify env) cfg c inputs ci r (ce_commit env) (ce_ctx_ended env) (ce_ctx_text env)
       (\<lambda>k. ce_now env (10 + k)) g)"

text \<open>From the dispatch mark on, the donated use counts.\<close>

definition charity_dispatched ::
  "call_env \<Rightarrow> api_config \<Rightarrow> call_info \<Rightarrow> bool \<Rightarrow> string list \<Rightarrow> reservation \<Rightarrow> dify_client \<Rightarrow> workflow_inputs \<Rightarrow> gateway \<Rightarrow>
   gateway \<times> written list" where
  "charity_dispatched env cfg ci stream images r c inputs g =
    (if images = [] then charity_forward env cfg ci stream r c inputs g
     else case buildImageFiles env c (wfReq_User (ci_user_id ci)) 0 images g of
       (g1, Inr files) \<Rightarrow> charity_forward env cfg ci stream r c (with_files files inputs) g1
     | (g1, Inl err) \<Rightarrow>
         let g2 = charityCommitAccounting (ce_commit env) r g1 in
         if ce_image_ctx_ended env \<or> is_canceled err
         then (fst (log_donation cfg ci r (ce_now env 6) ''error'' ''client_canceled'' statusClientClosedRequest
             ''client disconnected during image upload'' g2), [])
         else (fst (log_donation cfg ci r (ce_now env 6) ''error'' ''image_upload_failed'' (difyErrorStatus err)
             (error_text err) g2), [writeDifyError err]))"

text \<open>The dispatch mark; a failure of it releases the reservation.\<close>

definition dispatch_step :: "call_env \<Rightarrow> reservation \<Rightarrow> store \<Rightarrow> store \<times> fault option" where
  "dispatch_step env r st = (case ce_dispatch_fault env of
     Some f \<Rightarrow> (st, Some f)
   | None \<Rightarrow> (case MarkCharityDispatched (r_id r) (ce_dispatch_at env) st of
       (st1, Inl e) \<Rightarrow> (st1, Some FaultOther) | (st1, Inr _) \<Rightarrow> (st1, None)))"

definition charity_reserved ::
  "call_env \<Rightarrow> api_config \<Rightarrow> call_info \<Rightarrow> bool \<Rightarrow> inputs \<Rightarrow> string list \<Rightarrow> donation \<Rightarrow> 64 word \<Rightarrow> reservation \<Rightarrow> dify_client \<Rightarrow>
   gateway \<Rightarrow> gateway \<times> written list" where
  "charity_reserved env cfg ci stream inputs images d lease r c g =
    (let undo = (\<lambda>g. free_lease d lease (releaseCharitySetup (ce_setup env) r g));
         snapshot = mapping_snapshot env d;
         template = serviceHasTemplate (ci_service ci);
         wfInputs = (if template then remap_inputs snapshot inputs else map (map_prod id TextInput) inputs)
     in if template \<and> snapshot = []
        then (log_setup cfg ci d (ce_now env 5) ''service_unavailable'' 503 ''template donation without mapping snapshot'' (undo g),
          [WriteError 503 ''service_unavailable''])
        else case dispatch_step env r (gw_store g) of
          (st, None) \<Rightarrow> charity_dispatched env cfg ci stream images r c wfInputs (g\<lparr>gw_store := st\<rparr>)
        | (st, Some FaultCanceled) \<Rightarrow>
            (log_setup cfg ci d (ce_now env 5) ''client_canceled'' statusClientClosedRequest
               ''client disconnected before charity dispatch'' (undo (g\<lparr>gw_store := st\<rparr>)), [])
        | (st, Some FaultOther) \<Rightarrow>
            (log_setup cfg ci d (ce_now env 5) ''internal'' 500 ''failed to dispatch charity reservation''
               (undo (g\<lparr>gw_store := st\<rparr>)), [WriteError 500 ''internal'']))"

definition not_found_detail :: "call_env \<Rightarrow> string \<Rightarrow> string" where
  "not_found_detail env model = ''model '' @ ce_quote env model @ '' not found''"

text \<open>\<open>user\<close> is the caller as read at authentication. The service of the log rows is the one of the model's
  name; from the translation on they name the model in its canonical form. The answer of a dry run
  belongs to the debug console and is left out.\<close>

definition charity_route ::
  "call_env \<Rightarrow> api_config \<Rightarrow> call_info \<Rightarrow> string \<Rightarrow> pricing \<Rightarrow> message list \<Rightarrow> bool \<Rightarrow> gateway \<Rightarrow>
   (gateway \<times> written list) option" where
  "charity_route env cfg ci backend p messages stream g =
    (let ci1 = ci\<lparr>ci_model := charityModelName (ci_service ci) backend\<rparr> in
     case TranslateForService (ci_service ci) messages of
       Inl e \<Rightarrow> Some (log_error cfg ci (ce_now env 5) ''invalid_message_sequence'' 400 (ce_contract_text env e) g,
         [WriteError 400 ''invalid_message_sequence''])
     | Inr (inputs, images) \<Rightarrow>
         if ce_debug env = DebugDryRun
         then Some (fst (logRequest cfg ci1 (ce_now env 5) ''success'' ''debug_dry_run'' 200 [] [] g), [])
         else (case validateRemoteContent env cfg (ci_service ci) inputs images of
           Some e \<Rightarrow> Some (log_error cfg ci1 (ce_now env 5) ''remote_url_not_allowed'' 400 e g,
             [WriteError 400 ''remote_url_not_allowed''])
         | None \<Rightarrow>
           let donations = ListRoutableDonations (ci_service ci) backend (unix (ce_now env 4)) (gw_store g) in
           if donations = []
           then Some (log_error cfg ci (ce_now env 5) ''service_unavailable'' 503 ''no routable donations'' g,
             [WriteError 503 ''service_unavailable''])
           else map_option (\<lambda>(g1, result). case result of
               AttemptStop out \<Rightarrow> (g1, out)
             | AttemptRetry _ \<Rightarrow> (log_error cfg ci1 (ce_now env 5) ''service_unavailable'' 503
                 ''donations exhausted during reservation'' g1, [WriteError 503 ''service_unavailable''])
             | AttemptReady d lease r c \<Rightarrow> charity_reserved env cfg ci1 stream inputs images d lease r c g1)
             (reserve_loop env cfg ci1 p 0 donations g)))"

definition handleCharityAfterRPM ::
  "call_env \<Rightarrow> api_config \<Rightarrow> user \<Rightarrow> call_info \<Rightarrow> message list \<Rightarrow> bool \<Rightarrow> gateway \<Rightarrow> (gateway \<times> written list) option" where
  "handleCharityAfterRPM env cfg u ci0 messages stream g =
    (let (service, backend) = ParseCharityModel (ci_model ci0);
         ci = ci0\<lparr>ci_service := service\<rparr>
     in if \<not> u_charity_enabled u
        then Some (log_error cfg ci (ce_now env 5) ''model_not_found'' 404 (not_found_detail env (ci_model ci)) g,
          [WriteError 404 ''model_not_found''])
        else let unpriced = Some (log_error cfg ci (ce_now env 5) ''service_unavailable'' 503
               ''pricing not found or disabled'' g, [WriteError 503 ''service_unavailable''])
          in case GetPricing service backend (gw_store g) of
               None \<Rightarrow> unpriced
             | Some p \<Rightarrow>
                 if \<not> p_enabled p then unpriced
                 else if u_credits u < p_price p
                 then Some (log_error cfg ci (ce_now env 5) ''insufficient_credits'' 403
                     (credits_detail (u_credits u) (p_price p)) g, [WriteError 403 ''insufficient_credits''])
                 else charity_route env cfg ci backend p messages stream g)"

section \<open>The endpoints\<close>

definition SettingCharityEnabled :: string where "SettingCharityEnabled = ''charity_enabled''"

record model_item =
  mi_id :: string
  mi_created :: int
  mi_owner :: string

datatype models_answer = ModelsError "written list" | ModelList "model_item list"

definition own_models :: "int \<Rightarrow> store \<Rightarrow> model_item list" where
  "own_models userID st = map (\<lambda>c. \<lparr>mi_id = c_model c, mi_created = c_created_at c, mi_owner = ''dify2api''\<rparr>)
     (filter c_enabled (ListAppConfigs userID st))"

fun add_charity_models :: "int \<Rightarrow> pricing list \<Rightarrow> model_item list \<Rightarrow> model_item list" where
  "add_charity_models now [] models = models"
| "add_charity_models now (p # ps) models =
    (let i = charityModelName (p_service p) (p_model p)
     in add_charity_models now ps (if i \<in> mi_id ` set models then models
          else models @ [\<lparr>mi_id = i, mi_created = now, mi_owner = ''dify2api-charity''\<rparr>]))"

definition handleModels :: "call_env \<Rightarrow> chat_request \<Rightarrow> gateway \<Rightarrow> gateway \<times> models_answer" where
  "handleModels env req g =
    (if hr_method req \<noteq> ''GET'' then (g, ModelsError [WriteError 405 ''method_not_allowed''])
     else case userFromCallerKey env (hr_authorization req) (ce_now env 0) (gw_store g) of
       None \<Rightarrow> map_prod id ModelsError (reject_caller (hr_client_ip req) (ce_now env 1) g)
     | Some u \<Rightarrow> (g, ModelList (let models = own_models (u_id u) (gw_store g) in
         if u_charity_enabled u \<and> GetSettingString SettingCharityEnabled [] (gw_store g) = ''true''
         then add_charity_models (unix (ce_now env 2)) (ListEnabledPricing (gw_store g)) models else models)))"

text \<open>The service of the log rows: a charity model has two prefixes.\<close>

definition call_service :: "string \<Rightarrow> string" where
  "call_service model = (if IsCharityModel model \<and> fst (ParseCharityModel model) \<noteq> []
     then fst (ParseCharityModel model) else ServiceOfModel model)"

text \<open>The caller's own App, from the configuration on.\<close>

definition forward_app ::
  "call_env \<Rightarrow> api_config \<Rightarrow> call_info \<Rightarrow> bool \<Rightarrow> dify_client \<Rightarrow> workflow_inputs \<Rightarrow> gateway \<Rightarrow> gateway \<times> written list" where
  "forward_app env cfg ci stream c inputs g =
    (if ci_model ci = [] then (g, [WriteError 400 ''invalid_request''])
     else if stream then handleStreaming cfg c inputs ci (ce_run env) (\<lambda>k. ce_now env (10 + k)) g
     else handleBlocking (ce_dify env) cfg c inputs ci (ce_ctx_ended env) (ce_ctx_text env) (\<lambda>k. ce_now env (10 + k)) g)"

definition send_app ::
  "call_env \<Rightarrow> api_config \<Rightarrow> call_info \<Rightarrow> bool \<Rightarrow> inputs \<Rightarrow> string list \<Rightarrow> dify_client \<Rightarrow> gateway \<Rightarrow> gateway \<times> written list" where
  "send_app env cfg ci stream inputs images c g =
    (case validateRemoteContent env cfg (ci_service ci) inputs images of
       Some e \<Rightarrow> (log_error cfg ci (ce_now env 5) ''remote_url_not_allowed'' 400 e g, [WriteError 400 ''remote_url_not_allowed''])
     | None \<Rightarrow> (case remapInputsForService env (ci_user_id ci) (ci_service ci) inputs ''personal'' (gw_store g) of
         Inl _ \<Rightarrow> (log_error cfg ci (ce_now env 5) ''internal'' 500 ''mapping lookup failed'' g, [WriteError 500 ''internal''])
       | Inr None \<Rightarrow> (log_error cfg ci (ce_now env 5) ''template_not_downloaded'' 400 ''no template generation mapping'' g,
           [WriteError 400 ''template_not_downloaded''])
       | Inr (Some wfInputs) \<Rightarrow>
           if images = [] then forward_app env cfg ci stream c wfInputs g
           else (case buildImageFiles env c (wfReq_User (ci_user_id ci)) 0 images g of
             (g1, Inr files) \<Rightarrow> forward_app env cfg ci stream c (with_files files wfInputs) g1
           | (g1, Inl err) \<Rightarrow> (log_error cfg ci (ce_now env 5) ''image_upload_failed'' (difyErrorStatus err) (error_text err) g1,
               [writeDifyError err]))))"

definition call_app ::
  "call_env \<Rightarrow> api_config \<Rightarrow> call_info \<Rightarrow> message list \<Rightarrow> bool \<Rightarrow> gateway \<Rightarrow> gateway \<times> written list" where
  "call_app env cfg ci messages stream g =
    (case GetEnabledAppConfigByModel (ci_user_id ci) (ci_model ci) (gw_store g) of
       None \<Rightarrow> (log_error cfg ci (ce_now env 5) ''model_not_found'' 404 (not_found_detail env (ci_model ci)) g,
         [WriteError 404 ''model_not_found''])
     | Some a \<Rightarrow> (case TranslateForService (ci_service ci) messages of
         Inl e \<Rightarrow> (log_error cfg ci (ce_now env 5) ''invalid_message_sequence'' 400 (ce_contract_text env e) g,
           [WriteError 400 ''invalid_message_sequence''])
       | Inr (inputs, images) \<Rightarrow>
           if ce_debug env = DebugDryRun
           then (fst (logRequest cfg ci (ce_now env 5) ''success'' ''debug_dry_run'' 200 [] [] g), [])
           else (case cr_decrypt (ce_crypto env) (c_dify_api_key_enc a) of
             None \<Rightarrow> (log_error cfg ci (ce_now env 5) ''internal'' 500 ''credential decryption error'' g, [WriteError 500 ''internal''])
           | Some key \<Rightarrow> (case newDifyClient (ce_dify env) (c_dify_base_url a) key (cf_response_mb cfg) of
               Inl e \<Rightarrow> (log_error cfg ci (ce_now env 5) ''upstream_blocked'' 502 (de_egress_text (ce_dify env) e) g,
                 [WriteError 502 ''upstream_blocked''])
             | Inr c \<Rightarrow> send_app env cfg ci stream inputs images c g))))"

text \<open>The log detail of a charity call while the donation system is off, in UTF-8.\<close>

definition charity_off_text :: string where
  "charity_off_text = bytes [0xE5, 0x85, 0xA8, 0xE5, 0xB1, 0x80, 0xE6, 0x8D, 0x90, 0xE8, 0xB5, 0xA0, 0x2F, 0xE5, 0x85, 0xAC, 0xE7, 0x9B, 0x8A, 0xE5, 0xBC, 0x80, 0xE5, 0x85, 0xB3, 0xE6, 0x9C, 0xAA, 0xE5, 0xBC, 0x80, 0xE5, 0x90, 0xAF]"

text \<open>A call of a caller with a valid key.\<close>

definition authenticated_call ::
  "call_env \<Rightarrow> api_config \<Rightarrow> user \<Rightarrow> call_info \<Rightarrow> message list \<Rightarrow> bool \<Rightarrow> gateway \<Rightarrow> (gateway \<times> written list) option" where
  "authenticated_call env cfg u ci messages stream g =
    (case checkAntiAbuse env cfg ci messages g of
       (g1, Some code) \<Rightarrow> Some (g1, [WriteError 400 code])
     | (g1, None) \<Rightarrow> (case rpm_gate env cfg ci g1 of
         (g2, False) \<Rightarrow> Some (g2, [WriteError 403 ''rpm_exceeded''])
       | (g2, True) \<Rightarrow>
           if \<not> IsCharityModel (ci_model ci) then Some (call_app env cfg ci messages stream g2)
           else if GetSettingString SettingCharityEnabled [] (gw_store g2) \<noteq> ''true''
           then Some (log_error cfg ci (ce_now env 5) ''charity_disabled'' 403 charity_off_text g2,
             [WriteError 403 ''charity_disabled''])
           else handleCharityAfterRPM env cfg u ci messages stream g2))"

text \<open>A request that got one of the \<open>cf_max_in_flight\<close> slots.\<close>

definition admitted_call ::
  "call_env \<Rightarrow> api_config \<Rightarrow> chat_request \<Rightarrow> gateway \<Rightarrow> (gateway \<times> written list) option" where
  "admitted_call env cfg req g =
    (if hr_body req = None then Some (g, [WriteError 413 ''request_too_large''])
     else case hr_request req of
       None \<Rightarrow> Some (g, [WriteError 400 ''invalid_request''])
     | Some (model, messages, stream) \<Rightarrow>
         if messages = [] then Some (g, [WriteError 400 ''invalid_request''])
         else if cf_debug cfg then Some (g, [WriteError 404 ''debug_intercept''])
         else (case userFromCallerKey env (hr_authorization req) (ce_now env 7) (gw_store g) of
             None \<Rightarrow> Some (reject_caller (hr_client_ip req) (ce_now env 8) g)
           | Some u \<Rightarrow> authenticated_call env cfg u \<lparr>ci_user_id = u_id u, ci_model = model,
               ci_service = call_service model, ci_started_at = ce_now env 8, ci_lang = userLang u\<rparr> messages stream g))"

definition handleChatCompletions ::
  "call_env \<Rightarrow> api_config \<Rightarrow> chat_request \<Rightarrow> gateway \<Rightarrow> (gateway \<times> written list) option" where
  "handleChatCompletions env cfg req g =
    (if hr_method req \<noteq> ''POST'' then Some (g, [WriteError 405 ''method_not_allowed''])
     else if hr_content_type req \<noteq> [] \<and> \<not> prefix ''application/json'' (lower_ascii (hr_content_type req))
     then Some (g, [WriteError 415 ''invalid_request''])
     else if cf_max_in_flight cfg \<le> gw_in_flight g then Some (g, [WriteError 429 ''server_busy''])
     else map_option (\<lambda>(g1, out). (g1\<lparr>gw_in_flight := gw_in_flight g1 - 1\<rparr>, out))
       (admitted_call env cfg req (g\<lparr>gw_in_flight := gw_in_flight g + 1\<rparr>)))"

end
