(* ===== verification/Accounting.thy ===== *)
theory Accounting
  imports Calls
begin

text \<open>
  What the handlers of \<open>Calls\<close> and \<open>Relay\<close> do to the accounts. A charity call moves its reservation
  through the ledger of \<open>Ledger\<close>; here the whole call is followed, from the choice of a donation to the
  settlement, on every path of the handler. The section on delivery says when a caller has got a complete
  stream, and the last one what holds of every call.
\<close>

section \<open>What the ledger sees\<close>

text \<open>The tables that the ledger's operations and its invariant read.\<close>

definition books :: "gateway \<Rightarrow> user list \<times> donation list \<times> reservation list \<times> application list \<times> int \<times> int \<times> int" where
  "books g = (let st = gw_store g in (users st, donations st, charity_reservations st, donation_applications st,
     user_seq st, donation_seq st, application_seq st))"

lemma ledger_ok_books: "books g = books g' \<Longrightarrow> ledger_ok (gw_store g) = ledger_ok (gw_store g')"
  by (simp add: books_def Let_def ledger_ok_def keys_ok_def)

lemma books_record_activity:
  "users (recordActivityTx i t d st) = users st"
  "donations (recordActivityTx i t d st) = donations st"
  "charity_reservations (recordActivityTx i t d st) = charity_reservations st"
  "donation_applications (recordActivityTx i t d st) = donation_applications st"
  "user_seq (recordActivityTx i t d st) = user_seq st"
  "donation_seq (recordActivityTx i t d st) = donation_seq st"
  "application_seq (recordActivityTx i t d st) = application_seq st"
  by (subst record_only, simp)+

lemma books_log [simp]:
  "books (fst (logRequestDonation cfg ci now status code http detail d credits info g)) = books g"
  by (simp add: books_def Let_def logRequestDonation_def addRequestLogFull_def books_record_activity split_beta)

lemma books_log_plain [simp]: "books (fst (logRequest cfg ci now status code http detail info g)) = books g"
  by (simp add: logRequest_def)

lemma books_log_donation [simp]: "books (fst (log_donation cfg ci r now status code http detail g)) = books g"
  by (simp add: log_donation_def)

lemma books_hit [simp]: "books (record_hit cls u now g) = books g"
  by (simp add: books_def record_hit_def)

lemma books_send [simp]: "books (send_call c call g) = books g"
  by (simp add: books_def send_call_def)

lemma books_stop [simp]: "books (stopDifyWorkflow c t u g) = books g"
  by (simp add: stopDifyWorkflow_def)

lemma books_lease [simp]: "books (free_lease d lease g) = books g"
  by (simp add: books_def free_lease_def)

lemma books_limiter [simp]:
  "books (g\<lparr>gw_donation_limiter := l\<rparr>) = books g" "books (g\<lparr>gw_limiter := rl\<rparr>) = books g"
  "books (g\<lparr>gw_in_flight := n\<rparr>) = books g" "books (g\<lparr>gw_auth_throttle := th\<rparr>) = books g"
  "books (g\<lparr>gw_limit_cache := lc\<rparr>) = books g"
  by (simp_all add: books_def)

lemma books_alert [simp]: "books (maybeRecordBlockingFailedAlert ci de d i now g) = books g"
  by (simp add: books_def Let_def maybeRecordBlockingFailedAlert_def on_store_def AddAdminAlert_def)

section \<open>Accounts\<close>

text \<open>Credits and donor credit of every user, and the uses left of every donation.\<close>

type_synonym accounts = "(int \<times> int \<times> int) list \<times> (int \<times> int) list"

definition balances :: "store \<Rightarrow> accounts" where
  "balances st = (map (\<lambda>u. (u_id u, u_credits u, u_donation_credit u)) (users st),
     map (\<lambda>d. (d_id d, d_remaining_count d)) (donations st))"

text \<open>The price leaves the consumer's account and a use leaves the donation; back again; and the donor's reward.\<close>

definition shift_account :: "int \<Rightarrow> int \<Rightarrow> int \<Rightarrow> (int \<times> int \<times> int) list \<Rightarrow> (int \<times> int \<times> int) list" where
  "shift_account i amount credit = map (\<lambda>(j, c, n). if j = i then (j, c + amount, n + credit) else (j, c, n))"

definition shift_uses :: "int \<Rightarrow> int \<Rightarrow> (int \<times> int) list \<Rightarrow> (int \<times> int) list" where
  "shift_uses i n = map (\<lambda>(j, m). (j, if j = i then m + n else m))"

definition claim_of :: "reservation \<Rightarrow> accounts \<Rightarrow> accounts" where
  "claim_of r = map_prod (shift_account (r_user_id r) (- r_price r) 0) (shift_uses (r_donation_id r) (- 1))"

definition refund_of :: "reservation \<Rightarrow> accounts \<Rightarrow> accounts" where
  "refund_of r = map_prod (shift_account (r_user_id r) (r_price r) 0) (shift_uses (r_donation_id r) 1)"

definition reward_of :: "reservation \<Rightarrow> accounts \<Rightarrow> accounts" where
  "reward_of r = map_prod (case r_donor_user_id r of None \<Rightarrow> id | Some i \<Rightarrow> shift_account i (r_reward r) 1) id"

lemma shift_account_back [simp]: "shift_account i (- a) (- c) (shift_account i a c xs) = xs"
  "shift_account i a 0 (shift_account i (- a) 0 xs) = xs"
  by (induction xs) (auto simp: shift_account_def)

lemma shift_uses_back [simp]: "shift_uses i 1 (shift_uses i (- 1) xs) = xs"
  by (induction xs) (auto simp: shift_uses_def)

lemma refund_claim [simp]: "refund_of r (claim_of r b) = b"
  by (cases b) (simp add: refund_of_def claim_of_def)

lemma same_terms_accounts:
  "same_terms r r' \<Longrightarrow> refund_of r' = refund_of r \<and> reward_of r' = reward_of r"
  by (simp add: same_terms_def refund_of_def reward_of_def split: option.split)

lemma balances_users:
  assumes "\<And>u. u_credits (f u) = u_credits u + a" "\<And>u. u_donation_credit (f u) = u_donation_credit u + c"
    "\<And>u. u_id (f u) = u_id u"
  shows "map (\<lambda>u. (u_id u, u_credits u, u_donation_credit u)) (update_where (\<lambda>u. u_id u = i) f us) =
    shift_account i a c (map (\<lambda>u. (u_id u, u_credits u, u_donation_credit u)) us)"
  by (simp add: update_where_def shift_account_def assms)

lemma balances_uses:
  assumes "\<And>d. d_remaining_count (f d) = d_remaining_count d + n" "\<And>d. d_id (f d) = d_id d"
  shows "map (\<lambda>d. (d_id d, d_remaining_count d)) (update_where (\<lambda>d. d_id d = i) f ds) =
    shift_uses i n (map (\<lambda>d. (d_id d, d_remaining_count d)) ds)"
  by (simp add: update_where_def shift_uses_def assms)

lemma shift_none [simp]: "shift_uses i 0 xs = xs" "shift_account i 0 0 ys = ys"
  by (auto simp: shift_uses_def shift_account_def intro!: map_idI split: prod.splits)

section \<open>The stages of a reservation\<close>

text \<open>A gateway that holds the reservation \<open>r\<close> with status \<open>s\<close>, the accounts \<open>b\<close>, and \<open>rows\<close> for all others.\<close>

definition stage ::
  "reservation_status \<Rightarrow> reservation \<Rightarrow> accounts \<Rightarrow> (string \<Rightarrow> reservation option) \<Rightarrow> gateway \<Rightarrow> bool" where
  "stage s r b rows g \<longleftrightarrow> ledger_ok (gw_store g) \<and> balances (gw_store g) = b \<and>
     (\<exists>r'. reservation_row (r_id r) (gw_store g) = Some r' \<and> same_terms r r' \<and> r_status r' = s) \<and>
     (\<forall>k. k \<noteq> r_id r \<longrightarrow> reservation_row k (gw_store g) = rows k)"

lemma stage_books:
  assumes "books g = books g'"
  shows "stage s r b rows g = stage s r b rows g'"
proof -
  have "users (gw_store g) = users (gw_store g')" "donations (gw_store g) = donations (gw_store g')"
    "charity_reservations (gw_store g) = charity_reservations (gw_store g')"
    using assms by (simp_all add: books_def Let_def)
  then show ?thesis by (simp only: stage_def ledger_ok_books [OF assms] balances_def)
qed

lemmas stage_frame [simp] = stage_books [OF books_log] stage_books [OF books_log_plain]
  stage_books [OF books_log_donation] stage_books [OF books_hit] stage_books [OF books_send]
  stage_books [OF books_stop] stage_books [OF books_lease] stage_books [OF books_alert]
  stage_books [OF books_limiter(1)] stage_books [OF books_limiter(2)] stage_books [OF books_limiter(3)]
  stage_books [OF books_limiter(4)] stage_books [OF books_limiter(5)]

lemma stageD:
  assumes "stage s r b rows g"
  obtains r' where "ledger_ok (gw_store g)" "balances (gw_store g) = b"
    "reservation_row (r_id r) (gw_store g) = Some r'" "same_terms r r'" "r_status r' = s"
    "\<And>k. k \<noteq> r_id r \<Longrightarrow> reservation_row k (gw_store g) = rows k"
  using assms by (auto simp: stage_def)

lemma stage_reserve:
  assumes "ledger_ok st" "ReserveCharityCall rid now u d price reward st = (st', Inr r)" "gw_store g = st'"
  shows "stage ReservationReserved r (claim_of r (balances st)) (\<lambda>k. reservation_row k st) g \<and>
    reservation_row (r_id r) st = None \<and> r_id r = rid \<and> r_user_id r = u \<and> r_donation_id r = d \<and>
    r_price r = price \<and> r_reward r = reward"
  using assms(2) ledger_ok_keys [OF assms(1)]
proof (rule reserve_okE)
  fix d0 u0
  assume *: "reservation_row rid st = None"
    "r = \<lparr>r_id = rid, r_user_id = u, r_donation_id = d, r_donor_user_id = d_source_user_id d0,
       r_price = price, r_reward = reward, r_status = ReservationReserved, r_created_at = now, r_updated_at = now\<rparr>"
    "st' = st\<lparr>donations := update_where (\<lambda>x. d_id x = d) (claim_use now) (donations st),
       users := update_where (\<lambda>x. u_id x = u) (add_credits (- price) now) (users st),
       charity_reservations := charity_reservations st @ [r]\<rparr>"
  have b: "balances st' = claim_of r (balances st)"
    unfolding *(2,3) balances_def claim_of_def
    by (simp add: balances_users [where a = "- price" and c = 0] balances_uses [where n = "- 1"] row_edits)
  have "reservation_row k st' = (if k = rid then Some r else reservation_row k st)" for k
    using *(1) by (auto simp: *(2,3) split: option.split)
  with * b reserve_preserves [OF assms(1,2)] assms(3) show ?thesis by (auto simp: stage_def)
qed

lemma stage_dispatch:
  assumes "stage ReservationReserved r b rows g" "MarkCharityDispatched (r_id r) now (gw_store g) = (st', Inr x)"
  shows "stage ReservationDispatched r b rows (g\<lparr>gw_store := st'\<rparr>)"
  using assms(1)
proof (rule stageD)
  fix r'
  assume s: "ledger_ok (gw_store g)" "balances (gw_store g) = b" "reservation_row (r_id r) (gw_store g) = Some r'"
    "same_terms r r'" "r_status r' = ReservationReserved"
    "\<And>k. k \<noteq> r_id r \<Longrightarrow> reservation_row k (gw_store g) = rows k"
  from assms(2) ledger_ok_keys [OF s(1)] show ?thesis
  proof (cases rule: dispatch_cases)
    case (marked r'')
    then show ?thesis
      using s dispatch_preserves [OF s(1) assms(2)]
      by (auto simp: stage_def balances_def by_key_update_key same_terms_def set_reservation_status_def)
  qed (use s in auto)
qed

lemma stage_dispatch_fails:
  assumes "stage ReservationReserved r b rows g" "MarkCharityDispatched (r_id r) now (gw_store g) = (st', Inl e)"
  shows "stage ReservationReserved r b rows (g\<lparr>gw_store := st'\<rparr>)"
  using assms(1)
proof (rule stageD)
  fix r'
  assume s: "ledger_ok (gw_store g)" "reservation_row (r_id r) (gw_store g) = Some r'"
  from assms(2) ledger_ok_keys [OF s(1)] show ?thesis
    by (cases rule: dispatch_cases) (use assms(1) in simp_all)
qed

lemma settle_first:
  assumes "\<exists>a \<in> set attempts. \<not> fst a" "\<And>now. snd (once False now s) = None"
    "\<And>now. once True now s = (s, Some ErrBusy)"
  shows "\<exists>now. settle_retry once attempts s = once False now s"
  using assms(1)
proof (induction attempts)
  case (Cons a rest)
  obtain busy now where a: "a = (busy, now)" by fastforce
  show ?case
  proof (cases busy)
    case True
    with Cons a show ?thesis by (cases rest) (auto simp: assms(3))
  next
    case False
    obtain s1 where "once False now s = (s1, None)" using assms(2) [of now] by (cases "once False now s") auto
    then have "settle_retry once (a # rest) s = once False now s" using a False by simp
    then show ?thesis by blast
  qed
qed simp

lemma settle_stage:
  assumes "stage s r b rows g" "\<exists>a \<in> set attempts. \<not> fst a" "s = ReservationReserved \<or> s = ReservationDispatched"
    "op = (if s = ReservationReserved then release_unused else commit_used)"
    "\<And>now. snd (op (r_id r) now (gw_store g)) = None"
  shows "\<exists>now. settle_or_wake attempts (r_id r) g = g\<lparr>gw_store := fst (op (r_id r) now (gw_store g))\<rparr>"
proof -
  have status: "reservation_status_of (r_id r) (gw_store g) = Some s"
    using assms(1) by (auto simp: stage_def reservation_status_of_def GetCharityReservation_def)
  have once: "settleCurrentStateOnce False now (r_id r) (gw_store g) = (fst (op (r_id r) now (gw_store g)), None)" for now
    using assms(3-5) status by (cases "op (r_id r) now (gw_store g)")
      (auto simp: settleCurrentStateOnce_def settle_once_def prod_eq_iff)
  have "\<exists>now. settleCurrentState attempts (r_id r) (gw_store g) =
      settleCurrentStateOnce False now (r_id r) (gw_store g)"
    unfolding settleCurrentState_def
    by (rule settle_first [OF assms(2)]) (simp_all add: once, simp add: settleCurrentStateOnce_def settle_once_def)
  then show ?thesis by (auto simp: settle_or_wake_def once)
qed

lemma release_unused_is:
  "ReleaseCharityReservation i False now st = (st', Inr n) \<Longrightarrow> release_unused i now st = (st', None)"
  by (simp add: release_unused_def error_of_def)

lemma commit_used_is: "CommitCharityReservation i now st = (st', Inr x) \<Longrightarrow> commit_used i now st = (st', None)"
  by (simp add: commit_used_def error_of_def)

lemma release_accounts:
  assumes "ledger_ok st" "ReleaseCharityReservation (r_id r) False now st = (st', Inr n)"
    "reservation_row (r_id r) st = Some r" "r_status r = ReservationReserved"
  shows "balances st' = refund_of r (balances st)"
  using assms(2) ledger_ok_keys [OF assms(1)]
proof (cases rule: release_cases)
  case (settled r' d)
  then show ?thesis
    using assms(3) unfolding balances_def refund_of_def
    by (simp add: balances_users [where a = "r_price r" and c = 0] balances_uses [where n = 1] row_edits)
qed (use assms in simp_all)

lemma commit_accounts:
  assumes "ledger_ok st" "CommitCharityReservation (r_id r) now st = (st', Inr x)"
    "reservation_row (r_id r) st = Some r" "r_status r = ReservationDispatched"
  shows "balances st' = reward_of r (balances st)"
  using assms(2) ledger_ok_keys [OF assms(1)]
proof (cases rule: commit_cases)
  case (settled r' d)
  then show ?thesis
    using assms(3) unfolding balances_def reward_of_def
    by (simp add: balances_users [where a = "r_reward r" and c = 1] balances_uses [where n = 0] row_edits
        split: option.split)
qed (use assms in simp_all)

lemma stage_released:
  assumes "stage ReservationReserved r b rows g" "\<exists>a \<in> set attempts. \<not> fst a"
  shows "stage ReservationReleased r (refund_of r b) rows (settle_or_wake attempts (r_id r) g)"
  using assms(1)
proof (rule stageD)
  fix r'
  assume s: "ledger_ok (gw_store g)" "balances (gw_store g) = b" "reservation_row (r_id r) (gw_store g) = Some r'"
    "same_terms r r'" "r_status r' = ReservationReserved"
    "\<And>k. k \<noteq> r_id r \<Longrightarrow> reservation_row k (gw_store g) = rows k"
  have i: "r_id r' = r_id r" and acc: "refund_of r' = refund_of r"
    using s(4) same_terms_accounts [OF s(4)] by (simp_all add: same_terms_def)
  have settles: "\<exists>st' n. ReleaseCharityReservation (r_id r) False now (gw_store g) = (st', Inr n) \<and>
      stage ReservationReleased r (refund_of r b) rows (g\<lparr>gw_store := st'\<rparr>)" for now
    using release_reserved [OF s(1,3,5), of False now] release_accounts [OF s(1), of r' now] s acc i
    by (fastforce simp: stage_def same_terms_def set_reservation_status_def)
  then have "\<And>now. snd (release_unused (r_id r) now (gw_store g)) = None"
    using release_unused_is by (metis snd_conv)
  from settle_stage [OF assms _ refl] this show ?thesis
    using settles release_unused_is by (simp, metis fst_conv)
qed

lemma stage_committed:
  assumes "stage ReservationDispatched r b rows g" "\<exists>a \<in> set attempts. \<not> fst a"
  shows "stage ReservationCommitted r (reward_of r b) rows (settle_or_wake attempts (r_id r) g)"
  using assms(1)
proof (rule stageD)
  fix r'
  assume s: "ledger_ok (gw_store g)" "balances (gw_store g) = b" "reservation_row (r_id r) (gw_store g) = Some r'"
    "same_terms r r'" "r_status r' = ReservationDispatched"
    "\<And>k. k \<noteq> r_id r \<Longrightarrow> reservation_row k (gw_store g) = rows k"
  have i: "r_id r' = r_id r" and acc: "reward_of r' = reward_of r"
    using s(4) same_terms_accounts [OF s(4)] by (simp_all add: same_terms_def)
  have settles: "\<exists>st' x. CommitCharityReservation (r_id r) now (gw_store g) = (st', Inr x) \<and>
      stage ReservationCommitted r (reward_of r b) rows (g\<lparr>gw_store := st'\<rparr>)" for now
    using commit_dispatched [OF s(1,3,5), of now] commit_accounts [OF s(1), of r' now] s acc i
    by (fastforce simp: stage_def same_terms_def set_reservation_status_def)
  then have "\<And>now. snd (commit_used (r_id r) now (gw_store g)) = None"
    using commit_used_is by (metis snd_conv)
  from settle_stage [OF assms _ refl] this show ?thesis
    using settles commit_used_is by (simp, metis fst_conv)
qed

section \<open>A dispatched call is charged\<close>

abbreviation leaves_room :: "(bool \<times> int) list \<Rightarrow> bool" where
  "leaves_room attempts \<equiv> \<exists>a \<in> set attempts. \<not> fst a"

lemma commit_stage:
  "\<lbrakk>stage ReservationDispatched r b rows g; leaves_room attempts\<rbrakk> \<Longrightarrow>
   stage ReservationCommitted r (reward_of r b) rows (charityCommitAccounting attempts r g)"
  by (simp add: charityCommitAccounting_def stage_committed)

lemma undo_stage:
  "\<lbrakk>stage ReservationReserved r b rows g; leaves_room attempts\<rbrakk> \<Longrightarrow>
   stage ReservationReleased r (refund_of r b) rows (releaseCharitySetup attempts r g)"
  by (simp add: releaseCharitySetup_def stage_released)

lemma streaming_commits:
  assumes "stage ReservationDispatched r b rows g" "leaves_room attempts"
  shows "stage ReservationCommitted r (reward_of r b) rows (fst (charityStreaming cfg c inputs ci r attempts run now g))"
proof -
  have "stage ReservationDispatched r b rows (send_call c call g)" for call using assms(1) by simp
  note paid = commit_stage [OF this assms(2)]
  show ?thesis
    unfolding charityStreaming_def Let_def
    by (cases "sr_first run") (auto simp: split_beta paid split: option.split)
qed

lemma blocking_commits:
  assumes "stage ReservationDispatched r b rows g" "leaves_room attempts"
  shows "stage ReservationCommitted r (reward_of r b) rows
    (fst (charityBlocking env cfg c inputs ci r attempts ended txt now g))"
proof -
  have "stage ReservationDispatched r b rows (send_call c call g)" for call using assms(1) by simp
  note paid = commit_stage [OF this assms(2)]
  have "stage ReservationDispatched r b rows (record_hit cls u t (send_call c call g))" for call cls u t
    using assms(1) by simp
  note paid' = commit_stage [OF this assms(2)]
  show ?thesis
    unfolding charityBlocking_def Let_def
    by (simp add: split_beta paid paid' split: sum.split option.split)
qed

lemma images_books [simp]: "books (fst (buildImageFiles env c usr i imgs g)) = books g"
  by (induction env c usr i imgs g rule: buildImageFiles.induct)
    (auto simp: Let_def split: sum.split prod.split)

lemma sent_frame [simp]:
  "gw_sent (fst (logRequestDonation cfg ci now status code http detail d credits info g)) = gw_sent g"
  "gw_sent (record_hit cls u now g) = gw_sent g" "gw_sent (free_lease d0 lease g) = gw_sent g"
  "gw_sent (settle_or_wake attempts rid g) = gw_sent g" "gw_sent (on_store f g) = gw_sent g"
  by (simp_all add: logRequestDonation_def record_hit_def free_lease_def settle_or_wake_def on_store_def split_beta
      split: option.split)

lemma sent_frame_plain [simp]:
  "gw_sent (fst (logRequest cfg ci now status code http detail info g)) = gw_sent g"
  "gw_sent (fst (log_donation cfg ci r now status code http detail g)) = gw_sent g"
  "gw_sent (charityCommitAccounting attempts r g) = gw_sent g"
  "gw_sent (releaseCharitySetup attempts r g) = gw_sent g"
  by (simp_all add: logRequest_def log_donation_def charityCommitAccounting_def releaseCharitySetup_def)

section \<open>Choosing and reserving\<close>

lemma set_remove_nth: "set (remove_nth i xs) \<subseteq> set xs"
  by (auto simp: remove_nth_def dest: in_set_takeD in_set_dropD)

lemma pick_step:
  assumes "ds \<noteq> []"
  obtains i tick l1 res where "i < length ds" "tick = snd (snd (rounds k))"
    "acquire (d_id (ds ! i)) (d_rpm_limit (ds ! i)) tick l = (l1, res)"
    "pickWeightedDonation rounds k ds l = (case res of Some lease \<Rightarrow> (l1, Some (ds ! i, lease))
       | None \<Rightarrow> pickWeightedDonation rounds (k + 1) (remove_nth i ds) l1)"
proof -
  obtain now draw tick where t: "rounds k = (now, draw, tick)" by (cases "rounds k") auto
  let ?i = "sample_index now draw ds"
  obtain l1 res where a: "acquire (d_id (ds ! ?i)) (d_rpm_limit (ds ! ?i)) tick l = (l1, res)" by fastforce
  show ?thesis
    using sample_index_bound [OF assms] t a assms
    by (intro that [of ?i tick l1 res], simp_all)
      (subst pickWeightedDonation.simps, auto simp: Let_def split: option.split)
qed

lemma picked_candidate:
  "pickWeightedDonation rounds k ds l = (l1, Some (d, lease)) \<Longrightarrow> d \<in> set ds"
proof (induction "length ds" arbitrary: k ds l rule: less_induct)
  case less
  show ?case
  proof (cases "ds = []")
    case True
    with less.prems show ?thesis by (simp add: pickWeightedDonation.simps)
  next
    case False
    then obtain i tick l2 res where s: "i < length ds"
      "pickWeightedDonation rounds k ds l = (case res of Some lease \<Rightarrow> (l2, Some (ds ! i, lease))
         | None \<Rightarrow> pickWeightedDonation rounds (k + 1) (remove_nth i ds) l2)"
      by (rule pick_step)
    then show ?thesis
      using less.prems less.hyps [OF length_remove_nth [OF s(1)], of "k + 1" l2] set_remove_nth [of i ds]
      by (auto split: option.splits)
  qed
qed

lemma remove_candidate_shorter: "d \<in> set ds \<Longrightarrow> length (remove_candidate (d_id d) ds) < length ds"
  by (induction ds) auto

lemma set_remove_candidate: "set (remove_candidate i ds) \<subseteq> set ds"
  by (induction ds) auto

lemma reserve_retry:
  assumes "reserve_once env cfg ci p k ds g = (g1, AttemptRetry rest)"
  shows "length rest < length ds \<and> set rest \<subseteq> set ds"
  using assms picked_candidate [of "ce_rounds env k" 0 ds "gw_donation_limiter g"]
    remove_candidate_shorter set_remove_candidate
  unfolding reserve_once_def open_client_def Let_def
  by (fastforce split: prod.splits option.splits reserve_result.splits if_splits sum.splits)

lemma reserve_loop_returns: "\<exists>result. reserve_loop env cfg ci p k ds g = Some result"
proof (induction "length ds" arbitrary: k ds g rule: less_induct)
  case less
  show ?case
  proof (cases "ds = []")
    case False
    obtain g1 a where a: "reserve_once env cfg ci p k ds g = (g1, a)" by fastforce
    show ?thesis
    proof (cases a)
      case (AttemptRetry rest)
      then have "length rest < length ds" using reserve_retry a by blast
      then show ?thesis using less [of rest "k + 1" g1] a AttemptRetry False
        by (subst reserve_loop.simps) simp
    qed (use a False in \<open>subst reserve_loop.simps, simp\<close>)+
  qed (subst reserve_loop.simps, simp)
qed

section \<open>Outcomes of a charity call\<close>

text \<open>Nothing was taken: the accounts are as before, nothing went upstream, and a reservation that the call
  made is released.\<close>

definition uncharged :: "gateway \<Rightarrow> gateway \<Rightarrow> bool" where
  "uncharged g g' \<longleftrightarrow> ledger_ok (gw_store g') \<and> balances (gw_store g') = balances (gw_store g) \<and> gw_sent g' = gw_sent g \<and>
     (\<forall>k. reservation_row k (gw_store g') = reservation_row k (gw_store g) \<or>
        reservation_row k (gw_store g) = None \<and>
        map_option r_status (reservation_row k (gw_store g')) = Some ReservationReleased)"

text \<open>A reservation \<open>r\<close> that the call made at the price \<open>p\<close> for one of the donations \<open>ds\<close>.\<close>

definition new_claim :: "call_info \<Rightarrow> pricing \<Rightarrow> donation list \<Rightarrow> reservation \<Rightarrow> gateway \<Rightarrow> bool" where
  "new_claim ci p ds r g \<longleftrightarrow> reservation_row (r_id r) (gw_store g) = None \<and> r_user_id r = ci_user_id ci \<and>
     r_price r = p_price p \<and> r_reward r = p_reward p \<and> r_donation_id r \<in> d_id ` set ds"

definition held :: "reservation \<Rightarrow> gateway \<Rightarrow> gateway \<Rightarrow> bool" where
  "held r g g' \<longleftrightarrow> stage ReservationReserved r (claim_of r (balances (gw_store g))) (\<lambda>k. reservation_row k (gw_store g)) g'"

text \<open>The donated use was consumed: one price left the caller, one use the donation, one reward reached the
  donor, and the reservation is committed.\<close>

definition charged :: "call_info \<Rightarrow> pricing \<Rightarrow> donation list \<Rightarrow> gateway \<Rightarrow> gateway \<Rightarrow> bool" where
  "charged ci p ds g g' \<longleftrightarrow> (\<exists>r. new_claim ci p ds r g \<and>
     stage ReservationCommitted r (reward_of r (claim_of r (balances (gw_store g)))) (\<lambda>k. reservation_row k (gw_store g)) g')"

lemma books_ledger_view:
  "books g = books g' \<Longrightarrow> balances (gw_store g) = balances (gw_store g') \<and>
     charity_reservations (gw_store g) = charity_reservations (gw_store g')"
  by (simp add: books_def Let_def balances_def)

lemma uncharged_frame:
  "\<lbrakk>uncharged g g1; books g2 = books g1; gw_sent g2 = gw_sent g1\<rbrakk> \<Longrightarrow> uncharged g g2"
  using ledger_ok_books [of g2 g1] books_ledger_view [of g2 g1] by (simp add: uncharged_def)

lemma uncharged_start:
  "\<lbrakk>uncharged g1 g2; books g = books g1; gw_sent g = gw_sent g1\<rbrakk> \<Longrightarrow> uncharged g g2"
  using books_ledger_view [of g g1] by (simp add: uncharged_def)

lemma uncharged_refl [simp]: "uncharged g g \<longleftrightarrow> ledger_ok (gw_store g)"
  by (simp add: uncharged_def)

lemma released_uncharged:
  assumes "stage ReservationReleased r (balances (gw_store g)) (\<lambda>k. reservation_row k (gw_store g)) g'"
    "reservation_row (r_id r) (gw_store g) = None" "gw_sent g' = gw_sent g"
  shows "uncharged g g'"
proof -
  have "reservation_row k (gw_store g') = reservation_row k (gw_store g) \<or> reservation_row k (gw_store g) = None \<and>
      map_option r_status (reservation_row k (gw_store g')) = Some ReservationReleased" for k
    using assms(1,2) by (cases "k = r_id r") (auto simp: stage_def)
  with assms show ?thesis unfolding uncharged_def stage_def by blast
qed

lemma held_start:
  assumes "held r g1 g2" "books g = books g1"
  shows "held r g g2"
  using assms(1) books_ledger_view [OF assms(2)] by (simp add: held_def)

lemma claim_start: "\<lbrakk>new_claim ci p ds r g1; books g = books g1\<rbrakk> \<Longrightarrow> new_claim ci p ds r g"
  using books_ledger_view [of g g1] by (simp add: new_claim_def)

lemma claim_mono: "\<lbrakk>new_claim ci p ds r g; set ds \<subseteq> set ds'\<rbrakk> \<Longrightarrow> new_claim ci p ds' r g"
  by (auto simp: new_claim_def)

text \<open>Undoing a held reservation takes nothing, whatever is logged around it.\<close>

lemma undo_uncharged:
  assumes "held r g g1" "new_claim ci p ds r g" "gw_sent g1 = gw_sent g" "leaves_room attempts"
    "books g2 = books (releaseCharitySetup attempts r g1)" "gw_sent g2 = gw_sent g1"
  shows "uncharged g g2"
proof -
  have "stage ReservationReleased r (balances (gw_store g)) (\<lambda>k. reservation_row k (gw_store g)) (releaseCharitySetup attempts r g1)"
    using undo_stage [OF assms(1) [unfolded held_def] assms(4)] by simp
  then have "stage ReservationReleased r (balances (gw_store g)) (\<lambda>k. reservation_row k (gw_store g)) g2"
    using stage_books [OF assms(5)] by simp
  then show ?thesis using assms(2,3,6) by (intro released_uncharged) (auto simp: new_claim_def)
qed

lemma books_lease_log: "books (free_lease d lease (g\<lparr>gw_donation_limiter := l, gw_store := gw_store g\<rparr>)) = books g"
  by (simp add: books_def free_lease_def)

text \<open>What one round of the loop leaves behind.\<close>

definition round_outcome ::
  "call_info \<Rightarrow> pricing \<Rightarrow> donation list \<Rightarrow> gateway \<Rightarrow> gateway \<times> attempt \<Rightarrow> bool" where
  "round_outcome ci p ds g result = (case result of
     (g', AttemptRetry _) \<Rightarrow> books g' = books g \<and> gw_sent g' = gw_sent g
   | (g', AttemptStop _) \<Rightarrow> uncharged g g'
   | (g', AttemptReady d lease r c) \<Rightarrow> held r g g' \<and> new_claim ci p ds r g \<and> gw_sent g' = gw_sent g)"

lemma open_client_outcome:
  assumes "held r g g1" "new_claim ci p ds r g" "gw_sent g1 = gw_sent g" "leaves_room (ce_setup env)"
  shows "round_outcome ci p ds g (open_client env cfg ci d lease r g1)"
  using undo_uncharged [OF assms] assms(1-3)
  by (simp add: open_client_def round_outcome_def Let_def split: option.split sum.split)

lemma reserve_once_outcome:
  assumes "ledger_ok (gw_store g)" "leaves_room (ce_setup env)"
  shows "round_outcome ci p ds g (reserve_once env cfg ci p k ds g)"
proof -
  obtain l res where pick: "pickWeightedDonation (ce_rounds env k) 0 ds (gw_donation_limiter g) = (l, res)" by fastforce
  show ?thesis
  proof (cases res)
    case None
    have "uncharged g (g\<lparr>gw_donation_limiter := l\<rparr>)"
      by (rule uncharged_frame [of g g]) (use assms(1) in simp_all)
    then show ?thesis
      using pick None by (simp add: reserve_once_def round_outcome_def uncharged_frame)
  next
    case (Some dl)
    obtain d lease where dl: "dl = (d, lease)" by fastforce
    have d: "d \<in> set ds" using picked_candidate pick Some dl by simp
    obtain st rr where step: "reserve_step env k (ci_user_id ci) d p (gw_store g) = (st, rr)" by fastforce
    show ?thesis
    proof (cases rr)
      case (ReserveDone r)
      then have "ReserveCharityCall (ce_reservation_id env k) (ce_reserve_at env k) (ci_user_id ci) (d_id d)
          (p_price p) (p_reward p) (gw_store g) = (st, Inr r)"
        using step by (auto simp: reserve_step_def split: option.splits sum.splits prod.splits)
      from stage_reserve [OF assms(1) this, of "g\<lparr>gw_donation_limiter := l, gw_store := st\<rparr>"] d
      have "held r g (g\<lparr>gw_donation_limiter := l, gw_store := st\<rparr>)" "new_claim ci p ds r g"
        by (auto simp: held_def new_claim_def)
      from open_client_outcome [OF this _ assms(2)] show ?thesis
        using pick Some dl step ReserveDone by (simp add: reserve_once_def Let_def)
    next
      case (ReserveFault f)
      then have "st = gw_store g" using step by (auto simp: reserve_step_def split: option.splits sum.splits prod.splits)
      then show ?thesis
        using pick Some dl step ReserveFault uncharged_frame [of g g] assms(1) books_lease_log [of d lease g l]
        by (simp add: reserve_once_def round_outcome_def Let_def)
    next
      case (ReserveRefused e)
      then have st: "st = gw_store g"
        using step reserve_error by (auto simp: reserve_step_def split: option.splits sum.splits prod.splits)
      show ?thesis
        using pick Some dl step ReserveRefused uncharged_frame [of g g] assms(1) books_lease_log [of d lease g l] st
        by (simp add: reserve_once_def round_outcome_def Let_def)
    qed
  qed
qed

lemma outcome_start:
  assumes "round_outcome ci p ds g1 result" "books g = books g1" "gw_sent g = gw_sent g1" "set ds \<subseteq> set ds'"
  shows "round_outcome ci p ds' g result"
proof -
  obtain g' a where r: "result = (g', a)" by fastforce
  show ?thesis
  proof (cases a)
    case (AttemptReady d lease r c)
    then have "held r g1 g'" "new_claim ci p ds r g1" using assms(1) r by (simp_all add: round_outcome_def)
    then show ?thesis
      using assms(1) r AttemptReady held_start [OF _ assms(2)] claim_mono [OF claim_start [OF _ assms(2)] assms(4)] assms(3)
      by (simp add: round_outcome_def)
  qed (use assms r uncharged_start [OF _ assms(2,3)] in \<open>auto simp: round_outcome_def\<close>)
qed

lemma reserve_loop_outcome:
  assumes "leaves_room (ce_setup env)" "ledger_ok (gw_store g)" "reserve_loop env cfg ci p k ds g = Some result"
  shows "round_outcome ci p ds g result"
  using assms(2,3)
proof (induction "length ds" arbitrary: k ds g rule: less_induct)
  case less
  show ?case
  proof (cases "ds = []")
    case True
    with less.prems show ?thesis by (subst (asm) reserve_loop.simps) (auto simp: round_outcome_def)
  next
    case False
    obtain g1 a where a: "reserve_once env cfg ci p k ds g = (g1, a)" by fastforce
    have out: "round_outcome ci p ds g (g1, a)"
      using reserve_once_outcome [OF less.prems(1) assms(1), of ci p ds cfg k] a by simp
    have loop: "reserve_loop env cfg ci p k ds g = (case a of
        AttemptRetry rest \<Rightarrow> reserve_loop env cfg ci p (k + 1) rest g1 | _ \<Rightarrow> Some (g1, a))"
      using False a by (subst reserve_loop.simps) (simp split: attempt.split)
    show ?thesis
    proof (cases a)
      case (AttemptRetry rest)
      with out have same: "books g = books g1" "gw_sent g = gw_sent g1" by (simp_all add: round_outcome_def)
      have rest: "length rest < length ds" "set rest \<subseteq> set ds" using reserve_retry a AttemptRetry by blast+
      have "ledger_ok (gw_store g1)" using less.prems(1) ledger_ok_books [OF same(1)] by simp
      from less.hyps [OF rest(1) this, of "k + 1"] show ?thesis
        using less.prems(2) loop AttemptRetry outcome_start [OF _ same rest(2)] by simp
    qed (use out loop less.prems(2) in auto)
  qed
qed

lemma dispatched_committed:
  assumes "stage ReservationDispatched r b rows g" "leaves_room (ce_commit env)"
  shows "stage ReservationCommitted r (reward_of r b) rows
    (fst (charity_dispatched env cfg ci stream images r c inputs g))"
proof -
  have forward: "stage ReservationCommitted r (reward_of r b) rows (fst (charity_forward env cfg ci stream r c m g'))"
    if "books g' = books g" for g' m
    using streaming_commits blocking_commits stage_books [OF that] assms by (simp add: charity_forward_def)
  obtain g1 res where img: "buildImageFiles env c (wfReq_User (ci_user_id ci)) 0 images g = (g1, res)" by fastforce
  then have same: "books g1 = books g" using images_books by (metis fst_conv)
  have "stage ReservationDispatched r b rows g1" using stage_books [OF same] assms(1) by simp
  from commit_stage [OF this assms(2)] show ?thesis
    using img forward [OF same] forward [OF refl]
    by (simp add: charity_dispatched_def Let_def split: sum.split)
qed

lemma held_reserved_outcome:
  assumes "held r g g1" "new_claim ci p ds r g" "gw_sent g1 = gw_sent g"
    "leaves_room (ce_setup env)" "leaves_room (ce_commit env)"
  shows "uncharged g (fst (charity_reserved env cfg ci' stream inputs images d lease r c g1)) \<or>
    charged ci p ds g (fst (charity_reserved env cfg ci' stream inputs images d lease r c g1))"
proof -
  obtain st f where step: "dispatch_step env r (gw_store g1) = (st, f)" by fastforce
  note undo = undo_uncharged [OF _ assms(2) _ assms(4)]
  show ?thesis
  proof (cases f)
    case None
    then obtain x where "MarkCharityDispatched (r_id r) (ce_dispatch_at env) (gw_store g1) = (st, Inr x)"
      using step by (auto simp: dispatch_step_def split: option.splits sum.splits prod.splits)
    from dispatched_committed [OF stage_dispatch [OF assms(1) [unfolded held_def] this] assms(5)]
    show ?thesis
      using step None assms(2) undo [OF assms(1,3)]
      by (auto simp: charity_reserved_def Let_def charged_def)
  next
    case (Some x)
    have "held r g (g1\<lparr>gw_store := st\<rparr>)"
    proof (cases "ce_dispatch_fault env")
      case None
      with step Some obtain e where "MarkCharityDispatched (r_id r) (ce_dispatch_at env) (gw_store g1) = (st, Inl e)"
        by (auto simp: dispatch_step_def split: sum.splits prod.splits)
      from stage_dispatch_fails [OF assms(1) [unfolded held_def] this] show ?thesis by (simp add: held_def)
    next
      case (Some y)
      with step have "st = gw_store g1" by (simp add: dispatch_step_def)
      then show ?thesis using assms(1) by simp
    qed
    from undo [OF this] undo [OF assms(1,3)] show ?thesis
      using step Some assms(3) by (cases x) (simp_all add: charity_reserved_def Let_def)
  qed
qed

lemma charity_route_outcome:
  assumes "ledger_ok (gw_store g)" "leaves_room (ce_setup env)" "leaves_room (ce_commit env)"
    "ds = ListRoutableDonations (ci_service ci) backend (unix (ce_now env 4)) (gw_store g)"
  shows "\<exists>g' out. charity_route env cfg ci backend p messages stream g = Some (g', out) \<and>
    (uncharged g g' \<or> charged ci p ds g g')"
proof -
  let ?ci = "ci\<lparr>ci_model := charityModelName (ci_service ci) backend\<rparr>"
  have quiet: "uncharged g (fst (logRequest cfg ci' now status code http detail [] g))"
    for ci' now status code http detail
    by (rule uncharged_frame [of g g]) (use assms(1) in simp_all)
  obtain g1 a where loop: "reserve_loop env cfg ?ci p 0 ds g = Some (g1, a)"
    using reserve_loop_returns by fastforce
  have out: "round_outcome ?ci p ds g (g1, a)" by (rule reserve_loop_outcome [OF assms(2,1) loop])
  have claim: "new_claim ?ci p ds r g = new_claim ci p ds r g" for r by (simp add: new_claim_def)
  have ready: "uncharged g (fst (charity_reserved env cfg ?ci stream inputs images d lease r c g1)) \<or>
      charged ci p ds g (fst (charity_reserved env cfg ?ci stream inputs images d lease r c g1))"
    if "a = AttemptReady d lease r c" for inputs images d lease r c
    using out that held_reserved_outcome [OF _ _ _ assms(2,3)] by (simp add: round_outcome_def claim)
  have fin: "\<exists>g' o2. (case a of AttemptStop out \<Rightarrow> (g1, out)
      | AttemptRetry _ \<Rightarrow> (log_error cfg ?ci (ce_now env 5) ''service_unavailable'' 503
           ''donations exhausted during reservation'' g1, [WriteError 503 ''service_unavailable''])
      | AttemptReady d lease r c \<Rightarrow> charity_reserved env cfg ?ci stream inputs images d lease r c g1) = (g', o2) \<and>
      (uncharged g g' \<or> charged ci p ds g g')" for inputs images
  proof (cases a)
    case (AttemptRetry x)
    then have same: "books g1 = books g" "gw_sent g1 = gw_sent g" using out by (simp_all add: round_outcome_def)
    have "uncharged g (fst (logRequest cfg ci' now status code http detail [] g1))" for ci' now status code http detail
      by (rule uncharged_frame [of g g]) (simp_all add: same assms(1))
    with AttemptRetry show ?thesis by simp
  next
    case (AttemptReady d lease r c)
    from ready [OF this, of inputs images] show ?thesis using AttemptReady by (auto simp: prod_eq_iff)
  qed (use out in \<open>simp add: round_outcome_def\<close>)
  show ?thesis
  proof (cases "TranslateForService (ci_service ci) messages")
    case (Inl e)
    then show ?thesis using quiet by (simp add: charity_route_def Let_def)
  next
    case (Inr x)
    obtain inputs images where x: "x = (inputs, images)" by fastforce
    have eq: "charity_route env cfg ci backend p messages stream g =
      (if ce_debug env = DebugDryRun
       then Some (fst (logRequest cfg ?ci (ce_now env 5) ''success'' ''debug_dry_run'' 200 [] [] g), [])
       else case validateRemoteContent env cfg (ci_service ci) inputs images of
         Some e \<Rightarrow> Some (log_error cfg ?ci (ce_now env 5) ''remote_url_not_allowed'' 400 e g,
           [WriteError 400 ''remote_url_not_allowed''])
       | None \<Rightarrow> if ds = [] then Some (log_error cfg ci (ce_now env 5) ''service_unavailable'' 503
             ''no routable donations'' g, [WriteError 503 ''service_unavailable''])
         else Some (case a of AttemptStop out \<Rightarrow> (g1, out)
           | AttemptRetry _ \<Rightarrow> (log_error cfg ?ci (ce_now env 5) ''service_unavailable'' 503
               ''donations exhausted during reservation'' g1, [WriteError 503 ''service_unavailable''])
           | AttemptReady d lease r c \<Rightarrow> charity_reserved env cfg ?ci stream inputs images d lease r c g1))"
      unfolding charity_route_def Let_def assms(4) [symmetric] Inr x sum.case prod.case loop
      by (simp only: option.map prod.case)
    show ?thesis
    proof (cases "ce_debug env = DebugDryRun \<or> validateRemoteContent env cfg (ci_service ci) inputs images \<noteq> None \<or> ds = []")
      case True
      then show ?thesis using quiet unfolding eq by (auto split: option.split)
    next
      case False
      with fin [of inputs images] show ?thesis unfolding eq by simp
    qed
  qed
qed

section \<open>Every call returns its slot\<close>

text \<open>No step of a call moves the counter of the calls in flight.\<close>

lemma slot_frame [simp]:
  "gw_in_flight (fst (logRequestDonation cfg ci now status code http detail d credits info g)) = gw_in_flight g"
  "gw_in_flight (record_hit cls u now g) = gw_in_flight g" "gw_in_flight (free_lease d0 lease g) = gw_in_flight g"
  "gw_in_flight (settle_or_wake attempts rid g) = gw_in_flight g" "gw_in_flight (on_store f g) = gw_in_flight g"
  "gw_in_flight (send_call c call g) = gw_in_flight g"
  by (simp_all add: logRequestDonation_def record_hit_def free_lease_def settle_or_wake_def on_store_def split_beta
      send_call_def split: option.split)

lemma slot_frame_plain [simp]:
  "gw_in_flight (fst (logRequest cfg ci now status code http detail info g)) = gw_in_flight g"
  "gw_in_flight (fst (log_donation cfg ci r now status code http detail g)) = gw_in_flight g"
  "gw_in_flight (charityCommitAccounting attempts r g) = gw_in_flight g"
  "gw_in_flight (releaseCharitySetup attempts r g) = gw_in_flight g"
  "gw_in_flight (stopDifyWorkflow c t u g) = gw_in_flight g"
  "gw_in_flight (maybeRecordBlockingFailedAlert ci de d i now g) = gw_in_flight g"
  by (simp_all add: logRequest_def log_donation_def charityCommitAccounting_def releaseCharitySetup_def
      stopDifyWorkflow_def maybeRecordBlockingFailedAlert_def)

lemma slot_images [simp]: "gw_in_flight (fst (buildImageFiles env c usr i imgs g)) = gw_in_flight g"
  by (induction env c usr i imgs g rule: buildImageFiles.induct)
    (auto simp: Let_def split: sum.split prod.split)

lemma slot_relay [simp]:
  "gw_in_flight (fst (handleStreaming cfg c inputs ci run now g)) = gw_in_flight g"
  "gw_in_flight (fst (charityStreaming cfg c inputs ci r attempts run now g)) = gw_in_flight g"
  unfolding handleStreaming_def charityStreaming_def Let_def
  by (cases "sr_first run"; auto simp: split_beta split: option.split)+

lemma slot_blocking [simp]:
  "gw_in_flight (fst (handleBlocking env cfg c inputs ci ended txt now g)) = gw_in_flight g"
  "gw_in_flight (fst (charityBlocking env cfg c inputs ci r attempts ended txt now g)) = gw_in_flight g"
  unfolding handleBlocking_def charityBlocking_def Let_def
  by (simp_all add: split_beta split: sum.split option.split)

lemma slot_dispatched [simp]:
  "gw_in_flight (fst (charity_dispatched env cfg ci stream images r c inputs g)) = gw_in_flight g"
  using slot_images [of env c "wfReq_User (ci_user_id ci)" 0 images g]
  by (auto simp: charity_dispatched_def charity_forward_def Let_def split_beta split: sum.split prod.split)

lemma slot_reserved [simp]:
  "gw_in_flight (fst (charity_reserved env cfg ci stream inputs images d lease r c g)) = gw_in_flight g"
  by (auto simp: charity_reserved_def Let_def split: prod.split option.split fault.split)

lemma slot_once: "reserve_once env cfg ci p k ds g = (g1, a) \<Longrightarrow> gw_in_flight g1 = gw_in_flight g"
  by (auto simp: reserve_once_def open_client_def Let_def
      split: prod.splits option.splits reserve_result.splits sum.splits if_splits)

lemma slot_loop:
  "reserve_loop env cfg ci p k ds g = Some (g1, a) \<Longrightarrow> gw_in_flight g1 = gw_in_flight g"
proof (induction "length ds" arbitrary: k ds g rule: less_induct)
  case less
  show ?case
  proof (cases "ds = []")
    case True
    with less.prems show ?thesis by (subst (asm) reserve_loop.simps) simp
  next
    case False
    obtain g2 x where x: "reserve_once env cfg ci p k ds g = (g2, x)" by fastforce
    show ?thesis
    proof (cases x)
      case (AttemptRetry rest)
      then have "length rest < length ds" using reserve_retry x by blast
      from less.hyps [OF this, of "k + 1" g2] show ?thesis
        using less.prems False x AttemptRetry slot_once [OF x] by (subst (asm) reserve_loop.simps) simp
    qed (use less.prems False x slot_once [OF x] in \<open>subst (asm) reserve_loop.simps, simp\<close>)+
  qed
qed

text \<open>A call that returns with its slot unchanged.\<close>

definition returns :: "gateway \<Rightarrow> (gateway \<times> written list) option \<Rightarrow> bool" where
  "returns g result \<longleftrightarrow> (case result of None \<Rightarrow> False | Some (g', out) \<Rightarrow> gw_in_flight g' = gw_in_flight g)"

lemma returns_Some [simp]: "returns g (Some (g', out)) \<longleftrightarrow> gw_in_flight g' = gw_in_flight g"
  by (simp add: returns_def)

lemma returns_pair: "returns g (Some x) \<longleftrightarrow> gw_in_flight (fst x) = gw_in_flight g"
  by (cases x) simp

lemma route_returns: "returns g (charity_route env cfg ci backend p messages stream g)"
proof -
  let ?ci = "ci\<lparr>ci_model := charityModelName (ci_service ci) backend\<rparr>"
  let ?ds = "ListRoutableDonations (ci_service ci) backend (unix (ce_now env 4)) (gw_store g)"
  obtain g1 a where loop: "reserve_loop env cfg ?ci p 0 ?ds g = Some (g1, a)"
    using reserve_loop_returns by fastforce
  have "returns g (Some (case a of AttemptStop out \<Rightarrow> (g1, out)
      | AttemptRetry _ \<Rightarrow> (log_error cfg ?ci (ce_now env 5) ''service_unavailable'' 503
           ''donations exhausted during reservation'' g1, [WriteError 503 ''service_unavailable''])
      | AttemptReady d lease r c \<Rightarrow> charity_reserved env cfg ?ci stream inputs images d lease r c g1))" for inputs images
    using slot_loop [OF loop] by (simp add: returns_pair split: attempt.split)
  then show ?thesis
    unfolding charity_route_def Let_def
    by (cases "TranslateForService (ci_service ci) messages") (auto simp: loop split: option.split)
qed

lemma charity_returns: "returns g (handleCharityAfterRPM env cfg u ci messages stream g)"
  using route_returns by (simp add: handleCharityAfterRPM_def Let_def split: prod.split option.split)

lemma app_returns: "gw_in_flight (fst (call_app env cfg ci messages stream g)) = gw_in_flight g"
proof -
  have f: "gw_in_flight (fst (forward_app env cfg ci stream c m g')) = gw_in_flight g'" for c m g'
    by (simp add: forward_app_def)
  have s: "gw_in_flight (fst (send_app env cfg ci stream inputs images c g)) = gw_in_flight g" for inputs images c
    by (auto simp: send_app_def f split_beta split: option.split sum.split)
  show ?thesis by (auto simp: call_app_def s split: option.split sum.split prod.split)
qed

lemma abuse_slot: "checkAntiAbuse env cfg ci messages g = (g1, res) \<Longrightarrow> gw_in_flight g1 = gw_in_flight g"
  by (auto simp: checkAntiAbuse_def Let_def split: option.splits prod.splits if_splits)

lemma gate_slot: "rpm_gate env cfg ci g = (g1, ok) \<Longrightarrow> gw_in_flight g1 = gw_in_flight g"
  by (auto simp: rpm_gate_def effectiveRPMLimits_def Let_def split: option.splits prod.splits if_splits)

lemma authenticated_returns: "returns g (authenticated_call env cfg u ci messages stream g)"
proof -
  obtain g1 res where a: "checkAntiAbuse env cfg ci messages g = (g1, res)" by fastforce
  obtain g2 ok where b: "rpm_gate env cfg ci g1 = (g2, ok)" by fastforce
  have slot: "gw_in_flight g1 = gw_in_flight g" "gw_in_flight g2 = gw_in_flight g"
    using abuse_slot [OF a] gate_slot [OF b] by simp_all
  have "returns g (handleCharityAfterRPM env cfg u ci messages stream g2)"
    using charity_returns [of g2 env cfg u ci messages stream] slot by (auto simp: returns_def split: option.splits)
  then show ?thesis
    using slot app_returns [of env cfg ci messages stream g2]
    by (simp add: authenticated_call_def a b returns_pair split: option.split bool.split)
qed

lemma admitted_returns: "returns g (admitted_call env cfg req g)"
  using authenticated_returns
  by (auto simp: admitted_call_def reject_caller_def Let_def split_beta returns_pair split: option.split prod.split)

section \<open>A sample call\<close>

text \<open>An environment in which nothing fails: every URL parses to one public host, the upstream answers a
  workflow with a text, the settlement gets its first attempt.\<close>

definition sample_url :: url where
  "sample_url = \<lparr>url_scheme = ''https'', url_has_user = False, url_host = ''d.example'', url_path = [],
     url_raw_query = [], url_fragment = []\<rparr>"

definition sample_dify :: dify_env where
  "sample_dify = \<lparr>de_net = \<lparr>ne_parse_url = \<lambda>_. Some sample_url, ne_lookup = \<lambda>_. None, ne_connect = \<lambda>_ _. True\<rparr>,
     de_policy = empty_policy, de_egress_text = \<lambda>_. [], de_quote = id, de_error_body = \<lambda>_. None,
     de_upload = Inr, de_event = \<lambda>b. Inl b,
     de_blocking = \<lambda>b. Inr \<lparr>bb_outputs = [(''text'', b)], bb_status = ''succeeded'', bb_error = []\<rparr>,
     de_params = \<lambda>_. Inr [], de_stop = Inr, de_send = \<lambda>_. Reply 200 ''hi'' None\<rparr>"

definition sample_run :: stream_run where
  "sample_run = \<lparr>sr_first = FirstEvent (sample_event ''text_chunk'' ''h''), sr_ctx_err = False, sr_late = None,
     sr_ctx_late = False, sr_ctx_empty = False, sr_ctx_started = False, sr_flusher = True,
     sr_events = [sample_event ''text_chunk'' ''i'', (sample_event ''workflow_finished'' [])\<lparr>ev_status := ''succeeded''\<rparr>],
     sr_ctx_done = False, sr_ctx_end = False, sr_drain = None, sr_ctx_text = []\<rparr>"

definition sample_call_env :: call_env where
  "sample_call_env = \<lparr>ce_dify = sample_dify,
     ce_crypto = \<lparr>cr_encrypt = Some, cr_decrypt = Some, cr_sha256 = id\<rparr>, ce_base64 = Inr, ce_mapping = \<lambda>_. None,
     ce_quote = id, ce_contract_text = \<lambda>_. [], ce_now = \<lambda>_. 5 * second, ce_debug = DebugOff,
     ce_rounds = \<lambda>_ _. (5, 1 / 2, 5 * second), ce_reservation_id = \<lambda>_. ''a'', ce_reserve_at = \<lambda>_. 5,
     ce_reserve_fault = \<lambda>_. None, ce_setup = [(False, 5)], ce_dispatch_at = 5, ce_dispatch_fault = None,
     ce_image_ctx_ended = False, ce_commit = [(True, 5), (False, 6)], ce_run = sample_run, ce_ctx_ended = False,
     ce_ctx_text = []\<rparr>"

definition sample_config :: api_config where
  "sample_config = \<lparr>cf_log_detail_max = 0, cf_response_mb = 1, cf_max_in_flight = 2, cf_debug = False,
     cf_remote_origins = [], cf_ban_reason = [], cf_text = \<lambda>_ _. []\<rparr>"

definition sample_gateway :: gateway where
  "sample_gateway = \<lparr>gw_store = sample_store\<lparr>charity_pricing := [\<lparr>p_service = ''general'', p_model = ''m'', p_price = 4,
       p_reward = 2, p_enabled = True\<rparr>]\<rparr>, gw_limiter = newRateLimiter 60,
     gw_donation_limiter = newDonationRateLimiter, gw_auth_throttle = newIPThrottle 5 60 60,
     gw_worker = newCharitySettlementWorker 4, gw_anti_abuse = [], gw_limit_cache = [], gw_in_flight = 0, gw_sent = []\<rparr>"

definition sample_caller :: user where
  "sample_caller = (sample_user 1 10)\<lparr>u_charity_enabled := True\<rparr>"

definition sample_call :: call_info where
  "sample_call = \<lparr>ci_user_id = 1, ci_model = charityModelName ''general'' ''m'', ci_service = ''general'',
     ci_started_at = 5 * second, ci_lang = ''zh''\<rparr>"

definition sample_messages :: "message list" where
  "sample_messages = [\<lparr>m_role = ''user'', m_content = ''hello'', m_images = []\<rparr>]"

section \<open>Delivery of a stream\<close>

text \<open>A stream is complete when its first event was taken, no end of the context was seen, the response can
  be flushed, no event reports a failure, a final event came, and the upstream ended without an error.\<close>

definition stream_complete :: "stream_run \<Rightarrow> bool" where
  "stream_complete run \<longleftrightarrow> (case sr_first run of
     FirstEvent evt \<Rightarrow> \<not> sr_ctx_started run \<and> sr_flusher run \<and> \<not> sr_ctx_done run \<and> \<not> sr_ctx_end run \<and>
       sr_drain run = None \<and> \<not> list_ex failing_event (evt # sr_events run) \<and> list_ex final_event (evt # sr_events run)
   | _ \<Rightarrow> False)"

text \<open>The terminator is written once and last exactly for a complete stream; exactly one log row is added,
  and it says success exactly then; the call counts in class A of the caller's limits exactly then.\<close>

definition delivers :: "stream_run \<Rightarrow> int \<Rightarrow> int \<Rightarrow> gateway \<Rightarrow> gateway \<times> written list \<Rightarrow> bool" where
  "delivers run u t g result \<longleftrightarrow>
     filter (\<lambda>w. w = WriteDone) (snd result) = (if stream_complete run then [last (snd result)] else []) \<and>
     (\<exists>row. request_logs (gw_store (fst result)) = request_logs (gw_store g) @ [row] \<and>
        (l_status row = ''success'' \<longleftrightarrow> stream_complete run)) \<and>
     rl_get RpmClassA u (gw_limiter (fst result)) =
       (if stream_complete run then rl_get RpmClassA u (rate_record RpmClassA u t (gw_limiter g))
        else rl_get RpmClassA u (gw_limiter g))"

lemma logs_of_record: "request_logs (recordActivityTx i t d st) = request_logs st"
  by (subst record_only, simp)

lemma logs_of_log [simp]:
  "request_logs (gw_store (fst (logRequestDonation cfg ci now status code http detail d credits info g))) =
   request_logs (gw_store g) @ [log_row (request_log_seq (gw_store g) + 1)
     \<lparr>le_user_id = ci_user_id ci, le_model = ci_model ci,
      le_service = ci_service ci, le_started_at = unix (ci_started_at ci), le_ended_at = unix now,
      le_status = status, le_error_code = code, le_http_status = http,
      le_error_detail = bound_detail cfg detail, le_donation_id = d,
      le_credits_consumed = credits, le_anti_abuse_info = info\<rparr>]"
  by (simp add: logRequestDonation_def addRequestLogFull_def Let_def split_beta logs_of_record)

lemma log_row_status [simp]: "l_status (log_row i e) = le_status e"
  by (simp add: log_row_def)

lemma logs_of_settle: "request_logs (fst (settleCurrentStateOnce busy now i st)) = request_logs st"
  by (auto simp: settleCurrentStateOnce_def settle_once_def release_unused_def commit_used_def error_of_def
      ReleaseCharityReservation_def CommitCharityReservation_def Let_def
      split: option.split reservation_status.split)

lemma logs_of_retry: "request_logs (fst (settle_retry (\<lambda>busy now. settleCurrentStateOnce busy now i) attempts st)) = request_logs st"
proof (induction attempts arbitrary: st)
  case (Cons a rest)
  obtain busy now where a: "a = (busy, now)" by fastforce
  obtain s1 e where once: "settleCurrentStateOnce busy now i st = (s1, e)" by fastforce
  then have "request_logs s1 = request_logs st" using logs_of_settle by (metis fst_conv)
  then show ?case using Cons [of s1] once a by (auto split: option.split)
qed simp

lemma logs_of_commit [simp]:
  "request_logs (gw_store (charityCommitAccounting attempts r g)) = request_logs (gw_store g)"
  "gw_limiter (charityCommitAccounting attempts r g) = gw_limiter g"
  using logs_of_retry [of "r_id r" attempts "gw_store g"]
  by (auto simp: charityCommitAccounting_def settle_or_wake_def settleCurrentState_def split: prod.split option.split)

lemma logs_frame [simp]:
  "gw_store (record_hit cls u now g) = gw_store g" "gw_store (send_call c call g) = gw_store g"
  "gw_store (stopDifyWorkflow c t u g) = gw_store g" "gw_limiter (send_call c call g) = gw_limiter g"
  "gw_limiter (stopDifyWorkflow c t u g) = gw_limiter g"
  "gw_limiter (fst (logRequestDonation cfg ci now status code http detail d credits info g)) = gw_limiter g"
  "gw_limiter (record_hit cls u now g) = rate_record cls u now (gw_limiter g)"
  by (simp_all add: record_hit_def send_call_def stopDifyWorkflow_def logRequestDonation_def split_beta)

lemma class_A_after_B [simp]: "rl_get RpmClassA u (rate_record RpmClassB v t l) = rl_get RpmClassA u l"
  "rl_get RpmClassA u (rate_record RpmClassA u t (rate_record RpmClassB v t' l)) = rl_get RpmClassA u (rate_record RpmClassA u t l)"
  by (simp_all add: rate_record_def countRecentLocked_def Let_def rl_get_def)

lemma stream_unfinished:
  assumes "\<not> (\<not> sc_failed c \<and> err = None \<and> sc_done c)"
  shows "\<exists>code detail rest. finish_stream cfg lang c err = ((''error'', code, detail), rest, False) \<and> WriteDone \<notin> set rest"
  using assms by (auto simp: finish_stream_def stream_error_frame_def split: option.splits)

lemma stream_finished:
  "\<lbrakk>\<not> sc_failed c; err = None; sc_done c\<rbrakk> \<Longrightarrow> finish_stream cfg lang c err = ((''success'', [], []), [WriteDone], True)"
  by (simp add: finish_stream_def Finalize_def)

lemma no_done_frames [simp]: "filter (\<lambda>w. w = WriteDone) (map WriteFrame frames) = []"
  by (induction frames) auto

lemma done_absent: "WriteDone \<notin> set out \<Longrightarrow> filter (\<lambda>w. w = WriteDone) out = []"
  by (induction out) auto

lemma writeDifyError_not_done [simp]: "writeDifyError e \<noteq> WriteDone"
  by (simp add: writeDifyError_def)

lemma relay_end:
  fixes evt run
  defines "es \<equiv> evt # sr_events run"
  assumes first: "sr_first run = FirstEvent evt" and "\<not> sr_ctx_started run" "sr_flusher run" "\<not> sr_ctx_done run" "\<not> sr_ctx_end run"
    and ends: "finish_stream cfg lang (fst (convert_all es (NewStreamConverter m policy n s))) (sr_drain run) = ((status, code, detail), rest, whole)"
  shows "whole = stream_complete run \<and> (status = ''success'') = stream_complete run \<and>
    filter (\<lambda>w. w = WriteDone) rest = (if stream_complete run then [WriteDone] else []) \<and>
    (stream_complete run \<longrightarrow> rest = [WriteDone])"
proof -
  let ?c = "fst (convert_all es (NewStreamConverter m policy n s))"
  have flags: "sc_failed ?c = list_ex failing_event es" "sc_done ?c = list_ex final_event es"
    by (simp_all add: convert_all_flags) (simp_all add: NewStreamConverter_def)
  have "stream_complete run \<longleftrightarrow> \<not> list_ex failing_event es \<and> sr_drain run = None \<and> list_ex final_event es"
    using assms(2-6) unfolding es_def by (auto simp: stream_complete_def)
  then have full: "stream_complete run \<longleftrightarrow> \<not> sc_failed ?c \<and> sr_drain run = None \<and> sc_done ?c"
    by (simp only: flags)
  show ?thesis
  proof (cases "stream_complete run")
    case True
    with full have "finish_stream cfg lang ?c (sr_drain run) = ((''success'', [], []), [WriteDone], True)"
      by (intro stream_finished) auto
    with True ends show ?thesis by auto
  next
    case False
    with full stream_unfinished [of ?c "sr_drain run" cfg lang] ends show ?thesis by (auto simp: done_absent)
  qed
qed

lemma filter_relayed [simp]: "filter (\<lambda>w. w = WriteDone) (map WriteFrame frames @ rest) = filter (\<lambda>w. w = WriteDone) rest"
  by (simp only: filter_append no_done_frames append_Nil)

lemma not_complete: "(\<forall>evt. sr_first run \<noteq> FirstEvent evt) \<or> sr_ctx_started run \<or> \<not> sr_flusher run \<or> sr_ctx_done run \<or> sr_ctx_end run
   \<Longrightarrow> \<not> stream_complete run"
  by (auto simp: stream_complete_def split: first_wait.split)

lemma own_stream_delivers: "delivers run (ci_user_id ci) (now 4) g (handleStreaming cfg c inputs ci run now g)"
proof (cases "sr_first run")
  case (FirstEvent evt)
  let ?c = "fst (convert_all (evt # sr_events run) (NewStreamConverter (ci_model ci) (Some (stream_policy cfg (ci_lang ci))) (now 3) (unix (now 3))))"
  obtain status code detail rest whole where
    "end": "finish_stream cfg (ci_lang ci) ?c (sr_drain run) = ((status, code, detail), rest, whole)"
    by (metis prod.exhaust)
  show ?thesis
  proof (cases "sr_ctx_started run \<or> \<not> sr_flusher run \<or> sr_ctx_done run \<or> sr_ctx_end run")
    case True
    then have "\<not> stream_complete run" by (intro not_complete) auto
    with True show ?thesis using FirstEvent
      unfolding handleStreaming_def Let_def delivers_def by (auto simp: split_beta logRequest_def)
  next
    case False
    with relay_end [OF FirstEvent _ _ _ _ "end"] show ?thesis
      using FirstEvent "end" unfolding handleStreaming_def Let_def delivers_def
      by (auto simp: split_beta logRequest_def)
  qed
next
  case (ErrReady err)
  then have "\<not> stream_complete run" by (intro not_complete) auto
  then show ?thesis
    unfolding handleStreaming_def Let_def delivers_def
    by (auto simp: ErrReady logRequest_def split: option.split)
next
  case EventsClosed
  then have "\<not> stream_complete run" by (intro not_complete) auto
  then show ?thesis
    unfolding handleStreaming_def Let_def delivers_def
    by (auto simp: EventsClosed logRequest_def split: option.split)
next
  case ContextDone
  then have "\<not> stream_complete run" by (intro not_complete) auto
  then show ?thesis
    unfolding handleStreaming_def Let_def delivers_def by (auto simp: ContextDone logRequest_def)
qed

lemma donated_stream_delivers: "delivers run (ci_user_id ci) (now 4) g (charityStreaming cfg c inputs ci r attempts run now g)"
proof (cases "sr_first run")
  case (FirstEvent evt)
  let ?c = "fst (convert_all (evt # sr_events run) (NewStreamConverter (ci_model ci) (Some (stream_policy cfg (ci_lang ci))) (now 3) (unix (now 3))))"
  obtain status code detail rest whole where
    "end": "finish_stream cfg (ci_lang ci) ?c (sr_drain run) = ((status, code, detail), rest, whole)"
    by (metis prod.exhaust)
  show ?thesis
  proof (cases "sr_ctx_started run \<or> \<not> sr_flusher run \<or> sr_ctx_done run \<or> sr_ctx_end run")
    case True
    then have "\<not> stream_complete run" by (intro not_complete) auto
    with True show ?thesis using FirstEvent
      unfolding charityStreaming_def Let_def delivers_def by (auto simp: split_beta log_donation_def)
  next
    case False
    with relay_end [OF FirstEvent _ _ _ _ "end"] show ?thesis
      using FirstEvent "end" unfolding charityStreaming_def Let_def delivers_def
      by (auto simp: split_beta log_donation_def)
  qed
next
  case (ErrReady err)
  then have "\<not> stream_complete run" by (intro not_complete) auto
  then show ?thesis
    unfolding charityStreaming_def Let_def delivers_def
    by (auto simp: ErrReady log_donation_def split: option.split)
next
  case EventsClosed
  then have "\<not> stream_complete run" by (intro not_complete) auto
  then show ?thesis
    unfolding charityStreaming_def Let_def delivers_def
    by (auto simp: EventsClosed log_donation_def split: option.split)
next
  case ContextDone
  then have "\<not> stream_complete run" by (intro not_complete) auto
  then show ?thesis
    unfolding charityStreaming_def Let_def delivers_def by (auto simp: ContextDone log_donation_def)
qed

section \<open>The pool of donations\<close>

text \<open>The records of a donation that count at time \<open>tick\<close>, and whether it has no free slot then.\<close>

definition recent :: "int \<Rightarrow> donation \<Rightarrow> donation_limiter \<Rightarrow> rpm_record list" where
  "recent tick d l = filter (\<lambda>r. tick - 60 * second < rr_at r) (map_get [] (d_id d) (dl_windows l))"

definition donation_full :: "int \<Rightarrow> donation \<Rightarrow> donation_limiter \<Rightarrow> bool" where
  "donation_full tick d l \<longleftrightarrow> (if d_rpm_limit d \<le> 0 then 10 else d_rpm_limit d) \<le> int (length (recent tick d l))"

lemma acquire_full:
  "acquire (d_id d) (d_rpm_limit d) tick l = (l1, None) \<Longrightarrow> donation_full tick d l \<and> dl_next_id l1 = dl_next_id l \<and>
     (\<forall>d'. d_id d' \<noteq> d_id d \<longrightarrow> (\<forall>t. recent t d' l1 = recent t d' l))"
  by (auto simp: acquire_def Let_def donation_full_def recent_def split: if_splits)

lemma acquire_free:
  "acquire (d_id d) (d_rpm_limit d) tick l = (l1, Some lease) \<Longrightarrow> \<not> donation_full tick d l \<and> lease = dl_next_id l + 1 \<and>
     map_get [] (d_id d) (dl_windows l1) = recent tick d l @ [\<lparr>rr_id = lease, rr_at = tick\<rparr>]"
  by (auto simp: acquire_def Let_def donation_full_def recent_def split: if_splits)

definition takes_slot :: "(nat \<Rightarrow> int \<times> rat \<times> int) \<Rightarrow> nat \<Rightarrow> donation list \<Rightarrow> donation_limiter \<Rightarrow>
    donation_limiter \<times> (donation \<times> 64 word) option \<Rightarrow> bool" where
  "takes_slot rounds k ds l result \<longleftrightarrow> (case result of
     (l1, None) \<Rightarrow> (\<forall>d \<in> set ds. \<exists>j < length ds. donation_full (snd (snd (rounds (k + j)))) d l)
   | (l1, Some (d, lease)) \<Rightarrow> d \<in> set ds \<and> lease = dl_next_id l + 1 \<and>
       (\<exists>j < length ds. let tick = snd (snd (rounds (k + j))) in \<not> donation_full tick d l \<and>
          map_get [] (d_id d) (dl_windows l1) = recent tick d l @ [\<lparr>rr_id = lease, rr_at = tick\<rparr>]))"

lemma remove_nth_parts:
  assumes "i < length xs"
  obtains a x b where "xs = a @ x # b" "xs ! i = x" "remove_nth i xs = a @ b"
proof -
  have "xs = take i xs @ xs ! i # drop (Suc i) xs" by (rule id_take_nth_drop [OF assms])
  then show thesis by (rule that [OF _ refl]) (simp add: remove_nth_def)
qed

lemma remove_nth_split:
  assumes "i < length xs"
  shows "set xs = insert (xs ! i) (set (remove_nth i xs))" "length xs = Suc (length (remove_nth i xs))"
  by (rule remove_nth_parts [OF assms], auto)+

lemma remove_nth_distinct:
  assumes "distinct (map d_id ds)" "i < length ds"
  shows "d \<in> set (remove_nth i ds) \<Longrightarrow> d_id d \<noteq> d_id (ds ! i)" "distinct (map d_id (remove_nth i ds))"
proof -
  obtain a x b where ds: "ds = a @ x # b" and x: "ds ! i = x" and r: "remove_nth i ds = a @ b"
    by (rule remove_nth_parts [OF assms(2)])
  have dist: "distinct (map d_id (a @ x # b))" using assms(1) ds by simp
  then show "distinct (map d_id (remove_nth i ds))" unfolding r by auto
  have "d_id x \<notin> d_id ` set (a @ b)" using dist by auto
  then show "d \<in> set (remove_nth i ds) \<Longrightarrow> d_id d \<noteq> d_id (ds ! i)" unfolding x r by (metis imageI)
qed

lemma pick_takes_slot:
  "distinct (map d_id ds) \<Longrightarrow> takes_slot rounds k ds l (pickWeightedDonation rounds k ds l)"
proof (induction "length ds" arbitrary: k ds l rule: less_induct)
  case less
  show ?case
  proof (cases "ds = []")
    case True
    then show ?thesis by (simp add: pickWeightedDonation.simps takes_slot_def)
  next
    case False
    then obtain i tick l1 res where i: "i < length ds" and tick: "tick = snd (snd (rounds k))"
      and a: "acquire (d_id (ds ! i)) (d_rpm_limit (ds ! i)) tick l = (l1, res)"
      and eq: "pickWeightedDonation rounds k ds l = (case res of Some lease \<Rightarrow> (l1, Some (ds ! i, lease))
         | None \<Rightarrow> pickWeightedDonation rounds (k + 1) (remove_nth i ds) l1)"
      by (rule pick_step)
    show ?thesis
    proof (cases res)
      case (Some lease)
      with acquire_free [OF a [unfolded Some]] i tick False show ?thesis
        by (auto simp: eq takes_slot_def Let_def intro!: exI [of _ 0])
    next
      case None
      have full: "donation_full tick (ds ! i) l" "dl_next_id l1 = dl_next_id l"
        "\<And>d t. d_id d \<noteq> d_id (ds ! i) \<Longrightarrow> recent t d l1 = recent t d l"
        using acquire_full [OF a [unfolded None]] by blast+
      let ?rest = "remove_nth i ds"
      have same: "recent t d l1 = recent t d l" "donation_full t d l1 = donation_full t d l" if "d \<in> set ?rest" for t d
        using full(3) remove_nth_distinct(1) [OF less.prems i that] by (simp_all add: donation_full_def)
      have dist: "distinct (map d_id ?rest)" by (rule remove_nth_distinct(2) [OF less.prems i])
      have IH: "takes_slot rounds (k + 1) ?rest l1 (pickWeightedDonation rounds (k + 1) ?rest l1)"
        by (rule less.hyps [OF length_remove_nth [OF i] dist])
      obtain l2 r2 where r2: "pickWeightedDonation rounds (k + 1) ?rest l1 = (l2, r2)" by fastforce
      show ?thesis
      proof (cases r2)
        case None
        have "\<exists>j < length ds. donation_full (snd (snd (rounds (k + j)))) d l" if "d \<in> set ds" for d
        proof (cases "d = ds ! i")
          case True then show ?thesis using full(1) tick False by (intro exI [of _ 0]) auto
        next
          case nth: False
          then have d: "d \<in> set ?rest" using that remove_nth_split(1) [OF i] by auto
          then obtain j where "j < length ?rest" "donation_full (snd (snd (rounds (k + 1 + j)))) d l1"
            using IH r2 None by (auto simp: takes_slot_def)
          then show ?thesis
            using same(2) [OF d] remove_nth_split(2) [OF i] by (intro exI [of _ "Suc j"]) simp
        qed
        then show ?thesis using eq \<open>res = None\<close> r2 None by (simp add: takes_slot_def)
      next
        case (Some dl)
        obtain d lease where dl: "dl = (d, lease)" by fastforce
        obtain j where d: "d \<in> set ?rest" "lease = dl_next_id l + 1" "j < length ?rest"
          "\<not> donation_full (snd (snd (rounds (k + 1 + j)))) d l1"
          "map_get [] (d_id d) (dl_windows l2) = recent (snd (snd (rounds (k + 1 + j)))) d l1 @
             [\<lparr>rr_id = lease, rr_at = snd (snd (rounds (k + 1 + j)))\<rparr>]"
          using IH r2 Some dl full(2) by (auto simp: takes_slot_def Let_def)
        have "\<exists>j < length ds. let tick = snd (snd (rounds (k + j))) in \<not> donation_full tick d l \<and>
            map_get [] (d_id d) (dl_windows l2) = recent tick d l @ [\<lparr>rr_id = lease, rr_at = tick\<rparr>]"
          using d same [OF d(1)] remove_nth_split(2) [OF i] by (intro exI [of _ "Suc j"]) (simp add: Let_def)
        then show ?thesis
          using eq \<open>res = None\<close> r2 Some dl d(1,2) remove_nth_split(1) [OF i] by (simp add: takes_slot_def)
      qed
    qed
  qed
qed

section \<open>Properties of a call\<close>

text \<open>C2: A charity call is accounted for exactly. When the database answers within the settlement budget,
  the handler returns with a consistent ledger, and either nothing was taken (every balance and every use
  is as before, nothing went to the upstream, a reservation it made is released) or exactly one use of a
  routable donation of the model was consumed: its price has left the caller's account, its reward has
  reached the donor, and its reservation is committed. This covers every path: lost races, credential and
  egress failures, faults of the database, failed uploads, cancelled and broken streams.\<close>

theorem charity_call_accounted:
  assumes "ledger_ok (gw_store g)" "leaves_room (ce_setup env)" "leaves_room (ce_commit env)"
    and "(service, backend) = ParseCharityModel (ci_model ci)"
    and "ds = ListRoutableDonations service backend (unix (ce_now env 4)) (gw_store g)"
  shows "\<exists>g' out. handleCharityAfterRPM env cfg u ci messages stream g = Some (g', out) \<and>
    (uncharged g g' \<or> (\<exists>p. GetPricing service backend (gw_store g) = Some p \<and> p_enabled p \<and> charged ci p ds g g'))"
proof -
  let ?ci = "ci\<lparr>ci_service := service\<rparr>"
  have quiet: "uncharged g (fst (logRequest cfg ci' now status code http detail [] g))"
    for ci' now status code http detail
    by (rule uncharged_frame [of g g]) (use assms(1) in simp_all)
  have route: "\<exists>g' out. charity_route env cfg ?ci backend p messages stream g = Some (g', out) \<and>
      (uncharged g g' \<or> charged ci p ds g g')" for p
    using charity_route_outcome [OF assms(1-3), where ci = ?ci and backend = backend] assms(5)
    by (simp add: charged_def new_claim_def)
  show ?thesis
    unfolding handleCharityAfterRPM_def Let_def assms(4) [symmetric] prod.case
    using quiet route by (auto split: option.split)
qed

theorem charity_call_accounted_witness:
  "\<exists>g' out. handleCharityAfterRPM sample_call_env sample_config sample_caller sample_call sample_messages True sample_gateway
      = Some (g', out) \<and>
    (uncharged sample_gateway g' \<or> (\<exists>p. GetPricing ''general'' ''m'' (gw_store sample_gateway) = Some p \<and> p_enabled p \<and>
       charged sample_call p [sample_donation 1 1] sample_gateway g'))"
proof (rule charity_call_accounted)
  show "ledger_ok (gw_store sample_gateway)"
    by (simp add: sample_gateway_def ledger_ok_def keys_ok_def donation_ok_def sample_defs)
  show "(''general'', ''m'') = ParseCharityModel (ci_model sample_call)" by code_simp
  show "[sample_donation 1 1] = ListRoutableDonations ''general'' ''m'' (unix (ce_now sample_call_env 4)) (gw_store sample_gateway)"
    by code_simp
qed (simp_all add: sample_call_env_def)


text \<open>C26: The caller is told that a stream is whole exactly when it is. For an own App and for a donated one
  alike, the terminator is written once and last, the log row says success, and the call counts as
  completed in the caller's limits, exactly when the first event was taken, no end of the request's context
  was seen, no event reported a failure, a final event came, and the upstream ended without an error. Every
  other stream is logged as an error and not terminated.\<close>

theorem stream_delivery:
  "delivers run (ci_user_id ci) (now 4) g (handleStreaming cfg c inputs ci run now g) \<and>
   delivers run (ci_user_id ci) (now 4) g (charityStreaming cfg c inputs ci r attempts run now g)"
  using own_stream_delivers donated_stream_delivers by blast



text \<open>The public name of a donated model leads back to it: for a service and a model that the donation
  endpoints accept, the name is recognized as a charity model, and routing and the log rows read exactly
  that service and that model out of it.\<close>

theorem charity_name_roundtrip:
  assumes "normalizeDonationTarget service0 model0 = Inr (service, model)"
  shows "IsCharityModel (charityModelName service model) \<and>
    ParseCharityModel (charityModelName service model) = (service, model) \<and>
    call_service (charityModelName service model) = service"
proof -
  have s: "IsSupportedService service" and m: "model \<noteq> []" "CHR '']'' \<notin> set model"
    using assms by (auto simp: normalizeDonationTarget_def normalizeDonationService_def normalizeDonationModel_def
        Let_def split: sum.splits if_splits)
  have b: "CHR '']'' \<notin> set service" "service \<noteq> []"
    using s by (auto simp: IsSupportedService_def serviceNames_def svc_fill_table_def list_ex_iff)
  have name: "charityModelName service model = charity_prefix @ ''['' @ service @ '']'' @ model"
    by (simp add: charityModelName_def)
  have i: "index_byte (CHR '']'') (''['' @ service @ '']'' @ model) = Some (length service + 1)"
    using index_byte_append [of "CHR '']''" "''['' @ service" model] b by simp
  have parse: "ParseCharityModel (charityModelName service model) = (service, model)"
    using i b m unfolding ParseCharityModel_def name ServiceOfModel_def Let_def by simp
  then show ?thesis using b by (simp add: IsCharityModel_def name call_service_def)
qed

theorem charity_name_roundtrip_witness:
  "ParseCharityModel (charityModelName ''general'' ''m'') = (''general'', ''m'')"
proof -
  have "normalizeDonationTarget '' general'' ''m '' = Inr (''general'', ''m'')" by code_simp
  from charity_name_roundtrip [OF this] show ?thesis by simp
qed

end
