(* ===== verification/Channels.thy ===== *)
theory Channels
  imports Relay
begin

text \<open>
  The two goroutines of a stream. \<^verbatim>\<open>StreamWorkflowContext\<close> (\<^verbatim>\<open>dify/client.go\<close>) starts a producer that
  parses the upstream's events into a channel of four places, reports at most one error on a second one,
  and closes first the error channel, then the event channel. The handler selects over both. A step of
  either is a step of the system here; what the handler observes are the fields of \<open>stream_run\<close>.
\<close>

section \<open>The channels\<close>

text \<open>The producer sends, has returned from parsing, has closed the error channel, has closed both.\<close>

datatype producer_stage = Producing | Returned | ErrorsClosed | AllClosed

record channels =
  ch_todo :: "stream_event list"
  ch_result :: "dify_client_error option"
  ch_events :: "stream_event list"
  ch_errors :: "dify_client_error list"
  ch_stage :: producer_stage
  ch_ctx_done :: bool

text \<open>\<open>evts\<close> are the events that the parser will find, \<open>result\<close> the error it will end with.\<close>

definition start_stream :: "stream_event list \<Rightarrow> dify_client_error option \<Rightarrow> channels" where
  "start_stream evts result = \<lparr>ch_todo = evts, ch_result = result, ch_events = [], ch_errors = [],
     ch_stage = Producing, ch_ctx_done = False\<rparr>"

text \<open>The producer, and the end of the request's context. A send waits for room or for the context.\<close>

inductive produce :: "channels \<Rightarrow> channels \<Rightarrow> bool" where
  send: "\<lbrakk>ch_stage p = Producing; ch_todo p = e # es; length (ch_events p) < 4\<rbrakk> \<Longrightarrow>
    produce p (p\<lparr>ch_todo := es, ch_events := ch_events p @ [e]\<rparr>)"
| report: "\<lbrakk>ch_stage p = Producing; ch_todo p = []; ch_result p = Some err; ch_errors p = []\<rbrakk> \<Longrightarrow>
    produce p (p\<lparr>ch_errors := [err], ch_stage := Returned\<rparr>)"
| finish: "\<lbrakk>ch_stage p = Producing; ch_todo p = []; ch_result p = None\<rbrakk> \<Longrightarrow> produce p (p\<lparr>ch_stage := Returned\<rparr>)"
| abandon: "\<lbrakk>ch_stage p = Producing; ch_ctx_done p\<rbrakk> \<Longrightarrow> produce p (p\<lparr>ch_stage := Returned\<rparr>)"
| close_errors: "ch_stage p = Returned \<Longrightarrow> produce p (p\<lparr>ch_stage := ErrorsClosed\<rparr>)"
| close_events: "ch_stage p = ErrorsClosed \<Longrightarrow> produce p (p\<lparr>ch_stage := AllClosed\<rparr>)"
| cancel: "produce p (p\<lparr>ch_ctx_done := True\<rparr>)"

inductive_cases produceE: "produce p p'"

text \<open>The handler's first select takes any ready case.\<close>

inductive first_select :: "channels \<Rightarrow> first_wait \<Rightarrow> channels \<Rightarrow> bool" where
  "ch_events p = e # es \<Longrightarrow> first_select p (FirstEvent e) (p\<lparr>ch_events := es\<rparr>)"
| "\<lbrakk>ch_events p = []; ch_stage p = AllClosed\<rbrakk> \<Longrightarrow> first_select p EventsClosed p"
| "ch_errors p = e # es \<Longrightarrow> first_select p (ErrReady (Some e)) (p\<lparr>ch_errors := es\<rparr>)"
| "\<lbrakk>ch_errors p = []; ch_stage p \<in> {ErrorsClosed, AllClosed}\<rbrakk> \<Longrightarrow> first_select p (ErrReady None) p"
| "ch_ctx_done p \<Longrightarrow> first_select p ContextDone p"

text \<open>A select on the error channel with a default.\<close>

definition poll_error :: "channels \<Rightarrow> dify_client_error option option" where
  "poll_error p = (case ch_errors p of e # _ \<Rightarrow> Some (Some e)
     | [] \<Rightarrow> if ch_stage p = ErrorsClosed \<or> ch_stage p = AllClosed then Some None else None)"

text \<open>The relay loop receives events until the channel is closed and empty. \<open>stream_reach p (p', got)\<close>: after
  some steps of both the channels are \<open>p'\<close> and the handler has received \<open>got\<close>.\<close>

inductive stream_reach :: "channels \<Rightarrow> channels \<times> stream_event list \<Rightarrow> bool" for p where
  begins: "stream_reach p (p, [])"
| produces: "\<lbrakk>stream_reach p (q, got); produce q q'\<rbrakk> \<Longrightarrow> stream_reach p (q', got)"
| receives: "\<lbrakk>stream_reach p (q, got); ch_events q = e # es\<rbrakk> \<Longrightarrow> stream_reach p (q\<lparr>ch_events := es\<rparr>, got @ [e])"

definition events_over :: "channels \<Rightarrow> bool" where
  "events_over p \<longleftrightarrow> ch_events p = [] \<and> ch_stage p = AllClosed"

section \<open>Invariant\<close>

text \<open>Nothing is lost, duplicated or reordered; the buffers keep their size; and once the producer has
  returned without a cancelled context, everything was sent and the error channel holds its result.\<close>

definition channels_ok :: "stream_event list \<Rightarrow> dify_client_error option \<Rightarrow> channels \<times> stream_event list \<Rightarrow> bool" where
  "channels_ok evts result s \<longleftrightarrow> (case s of (p, got) \<Rightarrow>
     got @ ch_events p @ ch_todo p = evts \<and> ch_result p = result \<and> length (ch_events p) \<le> 4 \<and> length (ch_errors p) \<le> 1 \<and>
     (ch_stage p = Producing \<longrightarrow> ch_errors p = []) \<and>
     (\<not> ch_ctx_done p \<longrightarrow> ch_stage p \<noteq> Producing \<longrightarrow> ch_todo p = [] \<and>
        ch_errors p = (case result of None \<Rightarrow> [] | Some e \<Rightarrow> [e])))"

lemma channels_start: "channels_ok evts result (start_stream evts result, [])"
  by (simp add: channels_ok_def start_stream_def)

lemma channels_produce: "\<lbrakk>channels_ok evts result (p, got); produce p p'\<rbrakk> \<Longrightarrow> channels_ok evts result (p', got)"
  by (erule produceE) (auto simp: channels_ok_def split: option.splits)

lemma channels_receive:
  "\<lbrakk>channels_ok evts result (p, got); ch_events p = e # es\<rbrakk> \<Longrightarrow>
   channels_ok evts result (p\<lparr>ch_events := es\<rparr>, got @ [e])"
  by (auto simp: channels_ok_def)

lemma channels_reach: "stream_reach (start_stream evts result) s \<Longrightarrow> channels_ok evts result s"
  by (induction rule: stream_reach.induct) (auto intro: channels_start channels_produce channels_receive)

section \<open>The first wait\<close>

text \<open>The select is blocking but not ordered: a stream of up to four events can be over, and the error
  channel closed, before the handler looks. Then it may take the closed error channel first and answer a
  complete stream with an error.\<close>

lemma sends_all:
  assumes "stream_reach p (q, got)" "ch_stage q = Producing" "length (ch_events q) + length (ch_todo q) \<le> 4"
  shows "stream_reach p (q\<lparr>ch_todo := [], ch_events := ch_events q @ ch_todo q\<rparr>, got)"
  using assms
proof (induction "ch_todo q" arbitrary: q)
  case Nil
  then have "q\<lparr>ch_todo := [], ch_events := ch_events q @ ch_todo q\<rparr> = q" by simp
  then show ?case using Nil.prems(1) by simp
next
  case (Cons e es)
  let ?q = "q\<lparr>ch_todo := es, ch_events := ch_events q @ [e]\<rparr>"
  have todo: "ch_todo q = e # es" using Cons.hyps(2) by simp
  then have "produce q ?q" using Cons.prems by (intro send) auto
  then have "stream_reach p (?q, got)" by (rule produces [OF Cons.prems(1)])
  from Cons.hyps(1) [of ?q, OF _ this] show ?case using Cons.prems todo by simp
qed

lemma buffered_whole:
  assumes "length evts \<le> 4"
  shows "stream_reach (start_stream evts None) ((start_stream evts None)\<lparr>ch_todo := [], ch_events := evts, ch_stage := ErrorsClosed\<rparr>, [])"
proof -
  let ?p = "start_stream evts None"
  let ?sent = "?p\<lparr>ch_todo := [], ch_events := evts\<rparr>"
  have "stream_reach ?p (?sent, [])"
    using sends_all [OF begins [of ?p]] assms by (simp add: start_stream_def)
  moreover have "produce ?sent (?sent\<lparr>ch_stage := Returned\<rparr>)" by (intro finish) (simp_all add: start_stream_def)
  moreover have "produce (?sent\<lparr>ch_stage := Returned\<rparr>) (?sent\<lparr>ch_stage := ErrorsClosed\<rparr>)"
    using close_errors [of "?sent\<lparr>ch_stage := Returned\<rparr>"] by simp
  ultimately have "stream_reach ?p (?sent\<lparr>ch_stage := ErrorsClosed\<rparr>, [])" using produces by blast
  then show ?thesis by simp
qed

theorem complete_stream_refused:
  assumes "length evts \<le> 4"
  shows "\<exists>p. stream_reach (start_stream evts None) (p, []) \<and> ch_events p = evts \<and> \<not> ch_ctx_done p \<and>
    first_select p (ErrReady None) p \<and>
    (sr_first run = ErrReady None \<longrightarrow> sr_late run = poll_error p \<longrightarrow> \<not> sr_ctx_err run \<longrightarrow> \<not> sr_ctx_late run \<longrightarrow>
      snd (handleStreaming cfg c inputs ci run now g) = [WriteError 502 ''upstream_error''])"
proof -
  let ?p = "(start_stream evts None)\<lparr>ch_todo := [], ch_events := evts, ch_stage := ErrorsClosed\<rparr>"
  have "first_select ?p (ErrReady None) ?p" by (intro first_select.intros(4)) (simp_all add: start_stream_def)
  moreover have "poll_error ?p = Some None" by (simp add: poll_error_def start_stream_def)
  ultimately show ?thesis
    using buffered_whole [OF assms]
    by (intro exI [of _ ?p]) (auto simp: start_stream_def handleStreaming_def Let_def canceled_def)
qed

section \<open>Properties\<close>

text \<open>C28: The relay receives the upstream's events without loss, duplication or reordering, in every
  interleaving of the producer and the handler: at any time what was received is a prefix of the stream,
  with at most four events and one error waiting; and when the relay loop finds the channel closed while the
  request is still alive, it has received the whole stream, and the look at the error channel that follows
  gives exactly the error the stream ended with.\<close>

theorem stream_channel_faithful:
  assumes "stream_reach (start_stream evts result) (p, got)"
  shows "got @ ch_events p @ ch_todo p = evts \<and> length (ch_events p) \<le> 4 \<and> length (ch_errors p) \<le> 1 \<and>
    (events_over p \<and> \<not> ch_ctx_done p \<longrightarrow> got = evts \<and> poll_error p = Some result)"
  using channels_reach [OF assms]
  by (auto simp: channels_ok_def events_over_def poll_error_def split: option.splits list.splits)

theorem stream_channel_faithful_witness:
  "\<exists>p. stream_reach (start_stream [sample_event ''text_chunk'' ''a''] None) (p, [sample_event ''text_chunk'' ''a'']) \<and>
     ch_events p @ ch_todo p = []"
proof -
  let ?e = "sample_event ''text_chunk'' ''a''"
  let ?p = "(start_stream [?e] None)\<lparr>ch_todo := [], ch_events := [?e], ch_stage := ErrorsClosed\<rparr>"
  have "stream_reach (start_stream [?e] None) (?p\<lparr>ch_events := []\<rparr>, [] @ [?e])"
    using buffered_whole [of "[?e]"] by (intro receives [where es = "[]"]) simp_all
  then show ?thesis using stream_channel_faithful [of "[?e]" None "?p\<lparr>ch_events := []\<rparr>" "[?e]"] by auto
qed

end
