(* ===== verification/Desk.thy ===== *)
theory Desk
  imports Accounting System
begin

text \<open>
  The administration half of \<^verbatim>\<open>handler/donations.go\<close>, the pricing endpoints of \<^verbatim>\<open>handler/admin.go\<close>, the
  guards of \<^verbatim>\<open>handler/auth.go\<close> and the level-gated entrances of \<^verbatim>\<open>handler/me_level.go\<close>: a request is
  guarded, its body checked, and one operation of the store run. Administrators reach an endpoint on the
  admin site, users of a high enough level on the user site. Endpoints map the gateway to a new one and a
  reply; the body of a request is \<open>None\<close> when it does not decode. The clock \<open>ce_now\<close> is indexed by program
  point: 10 to 13 are the guards, 14 the checks of the body, 15 and up the operations of the store.
\<close>

section \<open>Replies\<close>

text \<open>A refusal is a status with a code; the batch endpoints name the item that failed.\<close>

datatype refusal = Refusal int string | FailedItem int | FailedPair string string

type_synonym 'a reply = "(refusal, 'a) result"

abbreviation bad_request :: "gateway \<Rightarrow> gateway \<times> 'a reply" where
  "bad_request g \<equiv> (g, Inl (Refusal 400 ''invalid_request''))"

abbreviation not_found :: "gateway \<Rightarrow> gateway \<times> 'a reply" where
  "not_found g \<equiv> (g, Inl (Refusal 404 ''not_found''))"

abbreviation internal :: "gateway \<Rightarrow> gateway \<times> 'a reply" where
  "internal g \<equiv> (g, Inl (Refusal 500 ''internal''))"

text \<open>What the endpoints learn from outside beside a call's environment: whether a slot for a probe of an
  App was free before the request ended, and the JSON text of a mapping.\<close>

record desk_env =
  dk_env :: call_env
  dk_cfg :: api_config
  dk_slot :: bool
  dk_mapping_text :: "(string \<times> string) list \<Rightarrow> string option"
  dk_sites :: "string list"

abbreviation dk_now :: "desk_env \<Rightarrow> nat \<Rightarrow> int" where "dk_now e k \<equiv> ce_now (dk_env e) k"
abbreviation dk_unix :: "desk_env \<Rightarrow> nat \<Rightarrow> int" where "dk_unix e k \<equiv> unix (ce_now (dk_env e) k)"
abbreviation dk_crypto :: "desk_env \<Rightarrow> crypto" where "dk_crypto e \<equiv> ce_crypto (dk_env e)"

definition check_base :: "desk_env \<Rightarrow> string \<Rightarrow> (egress_error, string) result" where
  "check_base e raw = ValidateBaseURL (de_net (ce_dify (dk_env e))) (de_policy (ce_dify (dk_env e))) raw"

section \<open>Guards\<close>

text \<open>The session cookie's user, unless banned; \<open>k\<close> is the program point.\<close>

definition currentUser :: "desk_env \<Rightarrow> nat \<Rightarrow> string \<Rightarrow> gateway \<Rightarrow> gateway \<times> user option" where
  "currentUser e k token g = (if token = [] then (g, None)
     else case getSessionUserAt token (dk_now e k) (gw_store g) of
       (st1, None) \<Rightarrow> (g\<lparr>gw_store := st1\<rparr>, None)
     | (st1, Some u) \<Rightarrow> (g\<lparr>gw_store := st1\<rparr>, if IsBanned (dk_unix e (k + 1)) u then None else Some u))"

definition requireAdmin :: "desk_env \<Rightarrow> string \<Rightarrow> gateway \<Rightarrow> gateway \<times> user option" where
  "requireAdmin e token g = (case currentUser e 10 token g of (g1, u) \<Rightarrow>
     (g1, case u of None \<Rightarrow> None | Some x \<Rightarrow> if u_is_admin x then Some x else None))"

definition requireLevel :: "desk_env \<Rightarrow> string \<Rightarrow> int \<Rightarrow> gateway \<Rightarrow> gateway \<times> user option" where
  "requireLevel e token least g = (case currentUser e 10 token g of
     (g1, None) \<Rightarrow> (g1, None)
   | (g1, Some x) \<Rightarrow>
       if u_is_admin x then (g1, Some x)
       else if fst (GetUserLevel (Some x) (LevelThresholds (gw_store g1))) < least then (g1, None)
       else (g1, Some x))"

definition adminGuard :: "desk_env \<Rightarrow> string \<Rightarrow> gateway \<Rightarrow> gateway \<times> user reply" where
  "adminGuard e token g = (case requireAdmin e token g of
     (g1, None) \<Rightarrow> (g1, Inl (Refusal 403 ''forbidden'')) | (g1, Some u) \<Rightarrow> (g1, Inr u))"

text \<open>The session is looked up a second time to tell a missing session from a missing level.\<close>

definition meLevelGuard :: "desk_env \<Rightarrow> string \<Rightarrow> int \<Rightarrow> gateway \<Rightarrow> gateway \<times> user reply" where
  "meLevelGuard e token least g = (case requireLevel e token least g of
     (g1, Some u) \<Rightarrow> (g1, Inr u)
   | (g1, None) \<Rightarrow> (case currentUser e 12 token g1 of
       (g2, None) \<Rightarrow> (g2, Inl (Refusal 401 ''unauthorized''))
     | (g2, Some _) \<Rightarrow> (g2, Inl (Refusal 403 ''forbidden''))))"

definition userGuard :: "desk_env \<Rightarrow> string \<Rightarrow> gateway \<Rightarrow> gateway \<times> user reply" where
  "userGuard e token g = (case currentUser e 10 token g of
     (g1, None) \<Rightarrow> (g1, Inl (Refusal 401 ''unauthorized'')) | (g1, Some u) \<Rightarrow> (g1, Inr u))"

text \<open>An endpoint behind a guard.\<close>

definition guarded ::
  "gateway \<times> user reply \<Rightarrow> (user \<Rightarrow> gateway \<Rightarrow> gateway \<times> 'a reply) \<Rightarrow> gateway \<times> 'a reply" where
  "guarded p serve = (case p of (g, Inl r) \<Rightarrow> (g, Inl r) | (g, Inr u) \<Rightarrow> serve u g)"

text \<open>Run an operation of the store on the gateway.\<close>

definition run_store :: "(store \<Rightarrow> store \<times> 'r) \<Rightarrow> gateway \<Rightarrow> gateway \<times> 'r" where
  "run_store f g = (case f (gw_store g) of (st1, r) \<Rightarrow> (g\<lparr>gw_store := st1\<rparr>, r))"

section \<open>The probe of an App\<close>

text \<open>The verdict: no slot or no client, an unreachable App, or the comparison with the contract.\<close>

datatype app_verdict = ProbeRefused string | AppUnreachable string | AppChecked app_param_check
  | KeyUndecryptable | NothingToCheck

text \<open>The obfuscated names of a template's parameters, translated back; unmapped ones are dummies.\<close>

definition normalize_params :: "(string \<times> string) list \<Rightarrow> (string \<times> bool) list \<Rightarrow> (string \<times> bool) list" where
  "normalize_params mapping params = (if mapping = [] then params
     else fold (\<lambda>(obf, required) m. case map_of (map prod.swap mapping) obf of None \<Rightarrow> m
       | Some canonical \<Rightarrow> map_put canonical required m) params [])"

definition validateDonationAppWithMapping ::
  "desk_env \<Rightarrow> string \<Rightarrow> string \<Rightarrow> string \<Rightarrow> (string \<times> string) list \<Rightarrow> gateway \<Rightarrow> gateway \<times> app_verdict" where
  "validateDonationAppWithMapping e service baseURL apiKey mapping g =
    (let d = ce_dify (dk_env e) in
     if \<not> dk_slot e then (g, ProbeRefused (ce_ctx_text (dk_env e)))
     else case newDifyClient d baseURL apiKey (cf_response_mb (dk_cfg e)) of
       Inl m \<Rightarrow> (g, ProbeRefused (de_egress_text d m))
     | Inr c \<Rightarrow>
        (send_call c FetchParams g,
         case FetchParametersContext d c of Inl m \<Rightarrow> AppUnreachable (error_text m)
         | Inr params \<Rightarrow> AppChecked (CheckAppParams service (normalize_params mapping params))))"

definition validateDonationApp ::
  "desk_env \<Rightarrow> string \<Rightarrow> string \<Rightarrow> string \<Rightarrow> gateway \<Rightarrow> gateway \<times> app_verdict" where
  "validateDonationApp e service baseURL apiKey = validateDonationAppWithMapping e service baseURL apiKey []"

text \<open>The texts in UTF-8: the prefix of an unreachable App, and the contract mismatch.\<close>

definition unreachable_text :: string where
  "unreachable_text = ''App '' @ bytes [0xE4, 0xB8, 0x8D, 0xE5, 0x8F, 0xAF, 0xE8, 0xBE, 0xBE] @ '': ''"

definition mismatch_text :: string where
  "mismatch_text = ''App '' @ bytes [0xE5, 0x8F, 0x82, 0xE6, 0x95, 0xB0, 0xE4, 0xB8, 0x8E, 0xE5, 0xA5, 0x91, 0xE7, 0xBA, 0xA6,
     0xE4, 0xB8, 0x8D, 0xE5, 0x85, 0xBC, 0xE5, 0xAE, 0xB9]"

text \<open>The message of a verdict that is not compatible.\<close>

fun verdict_message :: "app_verdict \<Rightarrow> string option" where
  "verdict_message (ProbeRefused m) = Some m"
| "verdict_message (AppUnreachable m) = Some (unreachable_text @ m)"
| "verdict_message (AppChecked c) = (if pc_compatible c then None else Some mismatch_text)"
| "verdict_message KeyUndecryptable = None"
| "verdict_message NothingToCheck = None"

text \<open>What a user is told of a message: a local diagnosis as it is, anything else as a public category.\<close>

datatype public_text = Verbatim string | Category public_message

definition sanitizePublicDonationValidationMessage :: "string \<Rightarrow> public_text" where
  "sanitizePublicDonationValidationMessage raw =
    (if raw = mismatch_text \<or> raw = ''App parameter contract mismatch'' then Verbatim raw
     else Category (sanitizePublicUpstreamError None raw))"

text \<open>The check itself is shown to the user, without the message behind it.\<close>

definition validatePublicDonationApp ::
  "desk_env \<Rightarrow> string \<Rightarrow> string \<Rightarrow> string \<Rightarrow> gateway \<Rightarrow> gateway \<times> app_param_check option \<times> public_text option" where
  "validatePublicDonationApp e service baseURL apiKey g =
    (case validateDonationApp e service baseURL apiKey g of (g1, v) \<Rightarrow>
       (g1, case v of AppChecked c \<Rightarrow> Some c | _ \<Rightarrow> None,
        case verdict_message v of None \<Rightarrow> None
        | Some raw \<Rightarrow> Some (if raw = [] then Verbatim [] else sanitizePublicDonationValidationMessage raw)))"

section \<open>Donations\<close>

record create_body =
  cb_service :: string
  cb_model :: string
  cb_base_url :: string
  cb_api_key :: string
  cb_source_user_id :: "int option"
  cb_source_text :: string
  cb_deadline :: int
  cb_total_count :: int
  cb_rpm_limit :: int
  cb_note :: string

text \<open>The source columns of a new donation and whether a note is required: the source is an existing user
  or a free text.\<close>

definition donation_source ::
  "create_body \<Rightarrow> store \<Rightarrow> (int option \<times> string \<times> string \<times> bool) option" where
  "donation_source b st = (case cb_source_user_id b of
     Some i \<Rightarrow> map_option (\<lambda>u. (Some i, u_discord_id u, u_username u, u_is_admin u)) (GetUserByID i st)
   | None \<Rightarrow> if TrimSpace (cb_source_text b) = [] then None else Some (None, [], [], True))"

definition requested_donation ::
  "create_body \<Rightarrow> string \<Rightarrow> string \<Rightarrow> string \<Rightarrow> int option \<times> string \<times> string \<times> bool \<Rightarrow> donation" where
  "requested_donation b service model base src = (case src of (uid, discord, name, _) \<Rightarrow>
     \<lparr>d_id = 0, d_service = service, d_model = model, d_dify_base_url = base, d_dify_api_key_enc = [],
      d_dify_api_key_sha256 = [], d_source_user_id = uid, d_source_discord_id = discord,
      d_source_username = name, d_source_text = TrimSpace (cb_source_text b), d_deadline = cb_deadline b,
      d_total_count = cb_total_count b, d_remaining_count = 0, d_success_count = 0, d_failure_count = 0,
      d_consecutive_failures = 0, d_rpm_limit = cb_rpm_limit b, d_status = DonationInactive,
      d_note = TrimSpace (cb_note b), d_created_at = 0, d_updated_at = 0, d_mapping_json = []\<rparr>)"

text \<open>The checks of the body, and the row to insert.\<close>

definition check_create :: "desk_env \<Rightarrow> create_body \<Rightarrow> store \<Rightarrow> donation option" where
  "check_create e b st =
    (case normalizeDonationTarget (cb_service b) (cb_model b) of Inl _ \<Rightarrow> None
     | Inr (service, model) \<Rightarrow>
        if cb_deadline b \<le> dk_unix e 14 then None
        else if cb_total_count b \<le> 0 then None
        else case check_base e (cb_base_url b) of Inl _ \<Rightarrow> None
        | Inr base \<Rightarrow>
           if validateDonationAPIKey (Some (cb_api_key b)) True \<noteq> None then None
           else case donation_source b st of None \<Rightarrow> None
           | Some src \<Rightarrow>
              if snd (snd (snd src)) \<and> TrimSpace (cb_note b) = [] then None
              else Some (requested_donation b service model base src))"

text \<open>The reply: the row, the verdict on its App, and whether the price is missing.\<close>

definition serveCreateDonation ::
  "desk_env \<Rightarrow> create_body option \<Rightarrow> gateway \<Rightarrow> gateway \<times> (donation \<times> app_verdict \<times> bool) reply" where
  "serveCreateDonation e body g =
    (case body of None \<Rightarrow> bad_request g | Some b \<Rightarrow>
     case check_create e b (gw_store g) of None \<Rightarrow> bad_request g | Some row \<Rightarrow>
     case run_store (CreateDonation (dk_crypto e) (dk_unix e 15) row (cb_api_key b)) g of
       (g1, Inl _) \<Rightarrow> bad_request g1
     | (g1, Inr None) \<Rightarrow> internal g1
     | (g1, Inr (Some d)) \<Rightarrow>
        let unpriced = (GetPricing (d_service d) (d_model d) (gw_store g1) = None);
            key = (case cr_decrypt (dk_crypto e) (d_dify_api_key_enc d) of Some k \<Rightarrow> k | None \<Rightarrow> ''(decrypt error)'')
        in case validateDonationApp e (d_service d) (d_dify_base_url d) key g1 of
             (g2, v) \<Rightarrow> (g2, Inr (d, v, unpriced)))"

text \<open>The name shown as the source of a donation; deleted users keep theirs with a suffix.\<close>

definition gone_suffix :: string where
  "gone_suffix = bytes [0xEF, 0xBC, 0x88, 0xE5, 0xB7, 0xB2, 0xE6, 0xB3, 0xA8, 0xE9, 0x94, 0x80, 0xEF, 0xBC, 0x89]"

definition unknown_source :: string where
  "unknown_source = bytes [0xEF, 0xBC, 0x88, 0xE6, 0x9C, 0xAA, 0xE7, 0x9F, 0xA5, 0xE6, 0x9D, 0xA5, 0xE6, 0xBA, 0x90, 0xEF, 0xBC, 0x89]"

definition live_source :: "donation \<Rightarrow> store \<Rightarrow> string option" where
  "live_source d st = (case Option.bind (d_source_user_id d) (\<lambda>i. GetUserByID i st) of
     Some u \<Rightarrow> Some (u_username u)
   | None \<Rightarrow> if d_source_discord_id d = [] then None
      else map_option u_username (GetUserByDiscordID (d_source_discord_id d) st))"

definition resolveSourceDisplay :: "donation \<Rightarrow> store \<Rightarrow> string" where
  "resolveSourceDisplay d st = (case live_source d st of Some name \<Rightarrow> name
   | None \<Rightarrow>
      if (d_source_user_id d \<noteq> None \<or> d_source_discord_id d \<noteq> []) \<and> d_source_username d \<noteq> []
      then d_source_username d @ gone_suffix
      else if d_source_text d \<noteq> [] then d_source_text d else unknown_source)"

text \<open>A row of the list: the donation, its source, whether its key occurs twice, the review note of its
  application if there is one.\<close>

definition key_count :: "donation list \<Rightarrow> string \<Rightarrow> nat" where
  "key_count ds sha = length (filter (\<lambda>d. d_dify_api_key_sha256 d = sha) ds)"

definition is_dup_key :: "donation list \<Rightarrow> donation \<Rightarrow> bool" where
  "is_dup_key ds d \<longleftrightarrow> d_dify_api_key_sha256 d \<noteq> [] \<and> 2 \<le> key_count ds (d_dify_api_key_sha256 d)"

text \<open>The Go map of notes keeps the last row of a donation.\<close>

definition serveListDonations ::
  "desk_env \<Rightarrow> gateway \<Rightarrow> gateway \<times> (donation \<times> string \<times> bool \<times> string option) list reply" where
  "serveListDonations e g =
    (case run_store (ExpireOverdueDonations (dk_unix e 15)) g of (g1, _) \<Rightarrow>
       let st = gw_store g1; ds = ListDonations st;
           notes = rev (GetReviewNotesByDonationIDs (map d_id ds) st)
       in (g1, Inr (map (\<lambda>d. (d, resolveSourceDisplay d st, is_dup_key ds d, map_of notes (d_id d))) ds)))"

definition parse_status :: "string \<Rightarrow> donation_status" where
  "parse_status s = (if s = ''active'' then DonationActive else if s = ''inactive'' then DonationInactive
     else if s = ''expired'' then DonationExpired else DonationOther s)"

definition serveDonationStatus :: "desk_env \<Rightarrow> string \<Rightarrow> string option \<Rightarrow> gateway \<Rightarrow> gateway \<times> unit reply" where
  "serveDonationStatus e path body g =
    (case Atoi path of None \<Rightarrow> bad_request g | Some i \<Rightarrow>
     case body of None \<Rightarrow> bad_request g | Some text \<Rightarrow>
     case GetDonation i (gw_store g) of None \<Rightarrow> not_found g | Some d \<Rightarrow>
     let s = parse_status text in
     if s \<noteq> DonationActive \<and> s \<noteq> DonationInactive then bad_request g
     else if d_status d = DonationExpired then bad_request g
     else if s = DonationActive \<and> GetPricing (d_service d) (d_model d) (gw_store g) = None then bad_request g
     else (g\<lparr>gw_store := SetDonationStatus i s (dk_unix e 15) (gw_store g)\<rparr>, Inr ()))"

definition serveDeleteDonation :: "string \<Rightarrow> gateway \<Rightarrow> gateway \<times> unit reply" where
  "serveDeleteDonation path g =
    (case Atoi path of None \<Rightarrow> bad_request g | Some i \<Rightarrow>
     case GetDonation i (gw_store g) of None \<Rightarrow> not_found g | Some _ \<Rightarrow>
     case run_store (DeleteDonation i) g of (g1, Inl _) \<Rightarrow> internal g1 | (g1, Inr _) \<Rightarrow> (g1, Inr ()))"

definition sent :: "('a \<Rightarrow> bool) \<Rightarrow> 'a option \<Rightarrow> bool" where
  "sent f x \<longleftrightarrow> (case x of None \<Rightarrow> False | Some v \<Rightarrow> f v)"

text \<open>The checks of a patch, in the order of the code; texts are normalized.\<close>

definition check_patch :: "desk_env \<Rightarrow> donation_patch \<Rightarrow> donation_patch option" where
  "check_patch e p =
    (let service = map_option normalizeDonationService (dp_service p);
         model = map_option normalizeDonationModel (dp_model p);
         base = map_option (check_base e) (dp_dify_base_url p)
     in if sent (\<lambda>r. \<not> is_ok r) service then None
        else if sent (\<lambda>r. \<not> is_ok r) model then None
        else if sent (\<lambda>r. \<not> is_ok r) base then None
        else if validateDonationAPIKey (dp_dify_api_key p) False \<noteq> None then None
        else if sent (\<lambda>r. r \<le> 0) (dp_rpm_limit p) then None
        else if sent (\<lambda>t. t \<le> dk_unix e 14) (dp_deadline p) then None
        else if sent (\<lambda>n. n \<le> 0) (dp_total_count p) then None
        else if sent (\<lambda>s. s \<noteq> DonationActive \<and> s \<noteq> DonationInactive) (dp_status p) then None
        else Some (p\<lparr>dp_service := map_option projr service, dp_model := map_option projr model,
               dp_dify_base_url := map_option projr base,
               dp_note := map_option TrimSpace (dp_note p),
               dp_review_note := map_option TrimSpace (dp_review_note p)\<rparr>))"

fun patch_refusal :: "patch_error \<Rightarrow> refusal" where
  "patch_refusal (PatchNotFound i) = Refusal 404 ''not_found''"
| "patch_refusal (PatchExpired i) = Refusal 400 ''invalid_request''"
| "patch_refusal (PatchReviewRecordAbsent i) = Refusal 400 ''invalid_request''"
| "patch_refusal (PatchPricingAbsent i s m) = Refusal 400 ''invalid_request''"
| "patch_refusal (PatchInvalid i m) = Refusal 400 ''invalid_request''"
| "patch_refusal PatchEncrypt = Refusal 500 ''internal''"
| "patch_refusal (PatchReviewRows n) = Refusal 500 ''internal''"

text \<open>The App is probed again when what the probe looks at was sent.\<close>

definition probe_patched :: "desk_env \<Rightarrow> donation_patch \<Rightarrow> donation \<Rightarrow> gateway \<Rightarrow> gateway \<times> app_verdict" where
  "probe_patched e p d g =
    (if dp_service p = None \<and> dp_dify_base_url p = None \<and> dp_dify_api_key p = None then (g, NothingToCheck)
     else case cr_decrypt (dk_crypto e) (d_dify_api_key_enc d) of None \<Rightarrow> (g, KeyUndecryptable)
     | Some key \<Rightarrow> validateDonationApp e (d_service d) (d_dify_base_url d) key g)"

definition servePatchDonation ::
  "desk_env \<Rightarrow> string \<Rightarrow> donation_patch option \<Rightarrow> gateway \<Rightarrow>
   gateway \<times> (donation \<times> string \<times> string option \<times> app_verdict) reply" where
  "servePatchDonation e path body g =
    (case Atoi path of None \<Rightarrow> bad_request g | Some i \<Rightarrow>
     case body of None \<Rightarrow> bad_request g | Some p0 \<Rightarrow>
     case check_patch e p0 of None \<Rightarrow> bad_request g | Some p \<Rightarrow>
     case run_store (PatchDonation (dk_crypto e) (dk_unix e 15) i p) g of
       (g1, Inl err) \<Rightarrow> (g1, Inl (patch_refusal err))
     | (g1, Inr (d, note)) \<Rightarrow>
        case probe_patched e p d g1 of (g2, v) \<Rightarrow>
          (g2, Inr (d, resolveSourceDisplay d (gw_store g2), note, v)))"

definition status_item :: "status_error \<Rightarrow> refusal" where
  "status_item err = (case err of StatusNotAllowed \<Rightarrow> Refusal 400 ''invalid_request''
     | StatusNotFound i \<Rightarrow> FailedItem i | StatusExpired i \<Rightarrow> FailedItem i | StatusPricingAbsent i s m \<Rightarrow> FailedItem i)"

definition serveBatchDonationStatus ::
  "desk_env \<Rightarrow> (int list \<times> string) option \<Rightarrow> gateway \<Rightarrow> gateway \<times> nat reply" where
  "serveBatchDonationStatus e body g =
    (case body of None \<Rightarrow> bad_request g | Some (ids, text) \<Rightarrow>
     let s = parse_status text in
     if ids = [] then bad_request g
     else if s \<noteq> DonationActive \<and> s \<noteq> DonationInactive then bad_request g
     else case run_store (BatchSetDonationStatus ids s (dk_unix e 15)) g of
       (g1, Inl err) \<Rightarrow> (g1, Inl (status_item err)) | (g1, Inr _) \<Rightarrow> (g1, Inr (length ids)))"

definition delete_item :: "delete_error \<Rightarrow> refusal" where
  "delete_item err = (case err of DeleteInFlight i n \<Rightarrow> FailedItem i | DeleteNotFound i \<Rightarrow> FailedItem i)"

definition serveBatchDeleteDonations :: "int list option \<Rightarrow> gateway \<Rightarrow> gateway \<times> nat reply" where
  "serveBatchDeleteDonations body g =
    (case body of None \<Rightarrow> bad_request g | Some ids \<Rightarrow>
     if ids = [] then bad_request g
     else case first_error (\<lambda>i. if GetDonation i (gw_store g) = None then Some (FailedItem i) else None) ids of
       Some r \<Rightarrow> (g, Inl r)
     | None \<Rightarrow> (case run_store (DeleteDonations ids) g of
         (g1, Inl err) \<Rightarrow> (g1, Inl (delete_item err)) | (g1, Inr _) \<Rightarrow> (g1, Inr (length ids))))"

section \<open>Prices\<close>

record upsert_body =
  ub_service :: string
  ub_model :: string
  ub_price :: int
  ub_reward :: "int option"

text \<open>The input checks have already refused what the store would.\<close>

definition serveUpsertPricing :: "upsert_body option \<Rightarrow> gateway \<Rightarrow> gateway \<times> pricing option reply" where
  "serveUpsertPricing body g =
    (case body of None \<Rightarrow> bad_request g | Some b \<Rightarrow>
     case normalizeDonationTarget (ub_service b) (ub_model b) of Inl _ \<Rightarrow> bad_request g
     | Inr (service, model) \<Rightarrow>
        if ub_price b < 0 then bad_request g
        else if sent (\<lambda>r. r < 0) (ub_reward b) then bad_request g
        else case run_store (UpsertPricing service model (ub_price b) (ub_reward b)) g of
          (g1, Inl _) \<Rightarrow> internal g1 | (g1, Inr p) \<Rightarrow> (g1, Inr p))"

definition servePatchPricing ::
  "(string \<times> string \<times> pricing_patch) option \<Rightarrow> gateway \<Rightarrow> gateway \<times> pricing reply" where
  "servePatchPricing body g =
    (case body of None \<Rightarrow> bad_request g | Some (s, m, patch) \<Rightarrow>
     case normalizeDonationTarget s m of Inl _ \<Rightarrow> bad_request g
     | Inr (service, model) \<Rightarrow>
        if sent (\<lambda>p. p < 0) (pp_price patch) then bad_request g
        else if sent (\<lambda>r. r < 0) (pp_reward patch) then bad_request g
        else case run_store (PatchPricing service model patch) g of
          (g1, Inl (ErrPricingNotFound _ _)) \<Rightarrow> not_found g1
        | (g1, Inl _) \<Rightarrow> internal g1
        | (g1, Inr p) \<Rightarrow> (g1, Inr p))"

definition serveDeletePricing :: "(string \<times> string) option \<Rightarrow> gateway \<Rightarrow> gateway \<times> unit reply" where
  "serveDeletePricing body g =
    (case body of None \<Rightarrow> bad_request g | Some (s, m) \<Rightarrow>
     case run_store (DeletePricing s m) g of (g1, Inl _) \<Rightarrow> bad_request g1 | (g1, Inr _) \<Rightarrow> (g1, Inr ()))"

definition serveBatchDeletePricing :: "(string \<times> string) list option \<Rightarrow> gateway \<Rightarrow> gateway \<times> nat reply" where
  "serveBatchDeletePricing body g =
    (case body of None \<Rightarrow> bad_request g | Some pairs \<Rightarrow>
     if pairs = [] then bad_request g
     else case run_store (DeletePricingBatch pairs) g of
       (g1, Inl (ErrPricingInUse s m)) \<Rightarrow> (g1, Inl (FailedPair s m))
     | (g1, Inl _) \<Rightarrow> internal g1
     | (g1, Inr _) \<Rightarrow> (g1, Inr (length pairs)))"

definition serveListPricing :: "gateway \<Rightarrow> gateway \<times> pricing list reply" where
  "serveListPricing g = (g, Inr (ListPricing (gw_store g)))"

section \<open>The user's side of the charity\<close>

text \<open>The enabled prices of models that have donations, each with whether one of them can be used now.\<close>

definition handleGetCharity ::
  "desk_env \<Rightarrow> string \<Rightarrow> gateway \<Rightarrow> gateway \<times> (bool \<times> (string \<times> string \<times> int \<times> bool) list) reply" where
  "handleGetCharity e token g = guarded (userGuard e token g) (\<lambda>u g.
     let st = gw_store g in
     (g, Inr (u_charity_enabled u,
        map (\<lambda>p. (p_service p, p_model p, p_price p,
               ListRoutableDonations (p_service p) (p_model p) (dk_unix e 15) st \<noteq> []))
          (filter (\<lambda>p. HasDonationsForPair (p_service p) (p_model p) st) (ListEnabledPricing st)))))"

text \<open>Switching the use of charity models on needs a confirmation.\<close>

definition handlePutCharity :: "desk_env \<Rightarrow> string \<Rightarrow> (bool \<times> bool) option \<Rightarrow> gateway \<Rightarrow> gateway \<times> unit reply" where
  "handlePutCharity e token body g = guarded (userGuard e token g) (\<lambda>u g.
     case body of None \<Rightarrow> bad_request g | Some (enabled, confirmed) \<Rightarrow>
     if enabled \<and> \<not> confirmed then bad_request g
     else (g\<lparr>gw_store := SetUserCharityEnabled (u_id u) enabled (dk_unix e 15) (gw_store g)\<rparr>, Inr ()))"

section \<open>Applications\<close>

record apply_body =
  yb_service :: string
  yb_model :: string
  yb_base_url :: string
  yb_api_key :: string
  yb_deadline :: int
  yb_total_count :: int
  yb_rpm_limit :: int
  yb_note :: string

definition recordConsoleActivity :: "desk_env \<Rightarrow> int \<Rightarrow> gateway \<Rightarrow> gateway" where
  "recordConsoleActivity e userID g =
     g\<lparr>gw_store := RecordConsoleAction userID (dk_unix e 16) (gw_store g)\<rparr>"

text \<open>The request for the store, after the checks of the body; \<open>None\<close> when one fails.\<close>

definition check_apply :: "desk_env \<Rightarrow> int \<Rightarrow> apply_body \<Rightarrow> store \<Rightarrow> application_request option" where
  "check_apply e userID b st =
    (case normalizeDonationTarget (yb_service b) (yb_model b) of Inl _ \<Rightarrow> None
     | Inr (service, model) \<Rightarrow>
        if \<not> IsServiceDonationSelectable service st then None
        else case check_base e (yb_base_url b) of Inl _ \<Rightarrow> None
        | Inr base \<Rightarrow>
           if validateDonationAPIKey (Some (yb_api_key b)) True \<noteq> None then None
           else if yb_deadline b \<le> dk_unix e 14 then None
           else if yb_total_count b \<le> 0 then None
           else Some \<lparr>aq_user_id = userID, aq_service = service, aq_model = model, aq_dify_base_url = base,
             aq_dify_api_key = yb_api_key b, aq_total_count = yb_total_count b, aq_deadline = yb_deadline b,
             aq_rpm_limit = yb_rpm_limit b, aq_note = TrimSpace (yb_note b)\<rparr>)"

text \<open>A template service needs the mapping of a download made for a donation; other services have none.\<close>

definition application_mapping ::
  "desk_env \<Rightarrow> int \<Rightarrow> string \<Rightarrow> store \<Rightarrow> (refusal, (string \<times> string) list) result" where
  "application_mapping e userID service st =
    (if \<not> serviceHasTemplate service then Inr []
     else case LatestGenerationMapping (ce_mapping (dk_env e)) userID service ''donation'' st of
       Inl _ \<Rightarrow> Inl (Refusal 500 ''internal'')
     | Inr m \<Rightarrow> if m = [] then Inl (Refusal 400 ''template_not_downloaded'') else Inr m)"

definition attach_mapping :: "desk_env \<Rightarrow> (string \<times> string) list \<Rightarrow> int \<Rightarrow> gateway \<Rightarrow> gateway" where
  "attach_mapping e mapping i g = (if mapping = [] then g
     else case dk_mapping_text e mapping of None \<Rightarrow> g
       | Some raw \<Rightarrow> g\<lparr>gw_store := SetApplicationMapping i raw (gw_store g)\<rparr>)"

text \<open>Whether a base URL points at the gateway's own sites, the host names in \<open>dk_sites\<close>.\<close>

definition selfSiteNotice :: "desk_env \<Rightarrow> string \<Rightarrow> bool" where
  "selfSiteNotice e base \<longleftrightarrow> (case ne_parse_url (de_net (ce_dify (dk_env e))) base of None \<Rightarrow> False
     | Some u \<Rightarrow> Hostname u \<noteq> [] \<and>
         ToLower (TrimSuffix (Hostname u) ''.'') \<in>
           set (map (\<lambda>h. ToLower (TrimSuffix (stripPort h) ''.'')) (dk_sites e)))"

definition apply_refusal :: "review_error \<Rightarrow> refusal" where
  "apply_refusal err = (if err = ErrPendingApplicationLimit then Refusal 400 ''too_many_pending''
     else Refusal 400 ''invalid_request'')"

definition handleCreateDonationApp ::
  "desk_env \<Rightarrow> string \<Rightarrow> apply_body option \<Rightarrow> gateway \<Rightarrow>
   gateway \<times> (application \<times> (app_param_check option \<times> public_text option) \<times> bool) reply" where
  "handleCreateDonationApp e token body g = guarded (userGuard e token g) (\<lambda>u g.
     if GetSettingString ''donation_enabled'' [] (gw_store g) \<noteq> ''true''
     then (g, Inl (Refusal 403 ''donation_disabled''))
     else let limit = GetSettingIntAllowZero ''donation_review_limit'' 3 (gw_store g) in
     case body of None \<Rightarrow> bad_request g | Some b \<Rightarrow>
     case check_apply e (u_id u) b (gw_store g) of None \<Rightarrow> bad_request g | Some q \<Rightarrow>
     case application_mapping e (u_id u) (aq_service q) (gw_store g) of Inl r \<Rightarrow> (g, Inl r) | Inr mapping \<Rightarrow>
     case run_store (CreateDonationApplicationWithLimit (dk_crypto e) (dk_unix e 15) q limit) g of
       (g1, Inl err) \<Rightarrow> (g1, Inl (apply_refusal err))
     | (g1, Inr None) \<Rightarrow> internal g1
     | (g1, Inr (Some a)) \<Rightarrow>
        (case validatePublicDonationApp e (aq_service q) (aq_dify_base_url q) (aq_dify_api_key q)
            (attach_mapping e mapping (ap_id a) (recordConsoleActivity e (u_id u) g1)) of
           (g2, v) \<Rightarrow> (g2, Inr (a, v, selfSiteNotice e (aq_dify_base_url q)))))"

text \<open>The user's applications; an approved one shows its donation: status, free uses, total, deadline,
  whether the key occurs twice.\<close>

definition my_application ::
  "store \<Rightarrow> application \<Rightarrow> application \<times> (donation_status \<times> int \<times> int \<times> int \<times> bool) option" where
  "my_application st a = (a,
     case (if ap_status a = AppStatusApproved then Option.bind (ap_donation_id a) (\<lambda>i. GetDonation i st) else None) of
       None \<Rightarrow> None
     | Some d \<Rightarrow> Some (d_status d, d_remaining_count d, d_total_count d, d_deadline d,
                    is_dup_key (ListDonations st) d))"

definition handleListMyApplications ::
  "desk_env \<Rightarrow> string \<Rightarrow> gateway \<Rightarrow>
   gateway \<times> (application \<times> (donation_status \<times> int \<times> int \<times> int \<times> bool) option) list reply" where
  "handleListMyApplications e token g = guarded (userGuard e token g) (\<lambda>u g.
     (g, Inr (map (my_application (gw_store g)) (ListApplicationsByUser (u_id u) (gw_store g)))))"

definition serveListPendingApplications :: "gateway \<Rightarrow> gateway \<times> (application \<times> string \<times> string) list reply" where
  "serveListPendingApplications g = (g, Inr (ListPendingApplications (gw_store g)))"

record approve_body =
  vb_service :: "string option"
  vb_model :: "string option"
  vb_base_url :: "string option"
  vb_api_key :: "string option"
  vb_total_count :: "int option"
  vb_deadline :: "int option"
  vb_rpm_limit :: "int option"
  vb_review_note :: string

text \<open>The checks of an approval over the fields as they will be, and the changes for the store.\<close>

definition check_approve :: "desk_env \<Rightarrow> approve_body \<Rightarrow> application \<Rightarrow> approve_fields option" where
  "check_approve e b a =
    (case normalizeDonationTarget (or_keep (vb_service b) (ap_service a)) (or_keep (vb_model b) (ap_model a)) of
       Inl _ \<Rightarrow> None
     | Inr (service, model) \<Rightarrow>
        if validateDonationAPIKey (vb_api_key b) False \<noteq> None then None
        else if or_keep (vb_deadline b) (ap_deadline a) \<le> dk_unix e 14 then None
        else case check_base e (or_keep (vb_base_url b) (ap_dify_base_url a)) of Inl _ \<Rightarrow> None
        | Inr base \<Rightarrow>
           if sent (\<lambda>n. n \<le> 0) (vb_total_count b) then None
           else if sent (\<lambda>r. r \<le> 0) (vb_rpm_limit b) then None
           else Some \<lparr>af_service = (if vb_service b = None then [] else service),
             af_model = (if vb_model b = None then [] else model),
             af_dify_base_url = base,
             af_dify_api_key = (case vb_api_key b of None \<Rightarrow> [] | Some k \<Rightarrow> TrimSpace k),
             af_total_count = or_keep (vb_total_count b) 0,
             af_deadline = or_keep (vb_deadline b) 0,
             af_rpm_limit = or_keep (vb_rpm_limit b) 0\<rparr>)"

text \<open>Without a price the new donation is set inactive, and the reply carries a warning.\<close>

definition serveApproveApplication ::
  "desk_env \<Rightarrow> user \<Rightarrow> string \<Rightarrow> approve_body option \<Rightarrow> gateway \<Rightarrow>
   gateway \<times> (application \<times> donation \<times> app_verdict option \<times> bool) reply" where
  "serveApproveApplication e operator path body g =
    (case Atoi path of None \<Rightarrow> bad_request g | Some i \<Rightarrow>
     case body of None \<Rightarrow> bad_request g | Some b \<Rightarrow>
     case GetApplication i (gw_store g) of None \<Rightarrow> not_found g | Some a0 \<Rightarrow>
     case check_approve e b a0 of None \<Rightarrow> bad_request g | Some m \<Rightarrow>
     case run_store (ApproveApplication (dk_crypto e) (dk_unix e 15) i (u_id operator) m
         (TrimSpace (vb_review_note b))) g of
       (g1, Inl _) \<Rightarrow> bad_request g1
     | (g1, Inr (a, d0)) \<Rightarrow>
        let unpriced = (GetPricing (d_service d0) (d_model d0) (gw_store g1) = None);
            (g2, d) = (if unpriced
              then (g1\<lparr>gw_store := SetDonationStatus (d_id d0) DonationInactive (dk_unix e 16) (gw_store g1)\<rparr>,
                    d0\<lparr>d_status := DonationInactive\<rparr>)
              else (g1, d0))
        in case cr_decrypt (dk_crypto e) (d_dify_api_key_enc d) of
             None \<Rightarrow> (g2, Inr (a, d, None, unpriced))
           | Some key \<Rightarrow> (case validateDonationApp e (d_service d) (d_dify_base_url d) key g2 of
               (g3, v) \<Rightarrow> (g3, Inr (a, d, Some v, unpriced))))"

definition serveRejectApplication ::
  "user \<Rightarrow> string \<Rightarrow> string option \<Rightarrow> gateway \<Rightarrow> gateway \<times> application reply" where
  "serveRejectApplication operator path body g =
    (case Atoi path of None \<Rightarrow> bad_request g | Some i \<Rightarrow>
     case body of None \<Rightarrow> bad_request g | Some note \<Rightarrow>
     case run_store (RejectApplication i (u_id operator) (TrimSpace note)) g of
       (g1, Inl _) \<Rightarrow> bad_request g1 | (g1, Inr a) \<Rightarrow> (g1, Inr a))"

definition batch_pending :: "store \<Rightarrow> int \<Rightarrow> refusal option" where
  "batch_pending st i = (case GetApplication i st of None \<Rightarrow> Some (FailedItem i)
     | Some a \<Rightarrow> if ap_status a \<noteq> AppStatusPending then Some (FailedItem i) else None)"

definition batch_approvable :: "desk_env \<Rightarrow> store \<Rightarrow> int \<Rightarrow> refusal option" where
  "batch_approvable e st i = (case GetApplication i st of None \<Rightarrow> Some (FailedItem i)
     | Some a \<Rightarrow>
        if ap_status a \<noteq> AppStatusPending then Some (FailedItem i)
        else if ap_deadline a \<le> dk_unix e 14 then Some (FailedItem i)
        else if \<not> is_ok (check_base e (ap_dify_base_url a)) then Some (FailedItem i) else None)"

definition review_item :: "review_error \<Rightarrow> refusal" where
  "review_item err = (case err of ReviewNotFound i \<Rightarrow> FailedItem i | ReviewStatus i s \<Rightarrow> FailedItem i
     | ApplicationDeadline i t \<Rightarrow> FailedItem i | _ \<Rightarrow> Refusal 500 ''internal'')"

definition serveBatchApproveApplications ::
  "desk_env \<Rightarrow> user \<Rightarrow> (int list \<times> string) option \<Rightarrow> gateway \<Rightarrow> gateway \<times> nat reply" where
  "serveBatchApproveApplications e operator body g =
    (case body of None \<Rightarrow> bad_request g | Some (ids, note) \<Rightarrow>
     if ids = [] then bad_request g
     else case first_error (batch_approvable e (gw_store g)) ids of Some r \<Rightarrow> (g, Inl r)
     | None \<Rightarrow> (case run_store (ApproveApplications (dk_crypto e) (dk_unix e 15) ids (u_id operator) (TrimSpace note)) g of
         (g1, Inl err) \<Rightarrow> (g1, Inl (review_item err)) | (g1, Inr _) \<Rightarrow> (g1, Inr (length ids))))"

definition serveBatchRejectApplications ::
  "user \<Rightarrow> (int list \<times> string) option \<Rightarrow> gateway \<Rightarrow> gateway \<times> nat reply" where
  "serveBatchRejectApplications operator body g =
    (case body of None \<Rightarrow> bad_request g | Some (ids, note) \<Rightarrow>
     if ids = [] then bad_request g
     else case first_error (batch_pending (gw_store g)) ids of Some r \<Rightarrow> (g, Inl r)
     | None \<Rightarrow> (case run_store (RejectApplications ids (u_id operator) (TrimSpace note)) g of
         (g1, Inl err) \<Rightarrow> (g1, Inl (review_item err)) | (g1, Inr _) \<Rightarrow> (g1, Inr (length ids))))"

section \<open>The endpoints and who may use them\<close>

datatype desk_request =
    CreateDonationRequest "create_body option"
  | ListDonationsRequest
  | DonationStatusRequest string "string option"
  | DeleteDonationRequest string
  | PatchDonationRequest string "donation_patch option"
  | BatchDonationStatusRequest "(int list \<times> string) option"
  | BatchDeleteDonationsRequest "int list option"
  | ListPricingRequest
  | UpsertPricingRequest "upsert_body option"
  | PatchPricingRequest "(string \<times> string \<times> pricing_patch) option"
  | DeletePricingRequest "(string \<times> string) option"
  | BatchDeletePricingRequest "(string \<times> string) list option"
  | PendingApplicationsRequest
  | ApproveRequest string "approve_body option"
  | RejectRequest string "string option"
  | BatchApproveRequest "(int list \<times> string) option"
  | BatchRejectRequest "(int list \<times> string) option"

text \<open>The level that opens an endpoint on the user site: reviews from level 4, the pool and its prices
  from level 5.\<close>

fun desk_level :: "desk_request \<Rightarrow> int" where
  "desk_level PendingApplicationsRequest = 4"
| "desk_level (ApproveRequest path b) = 4"
| "desk_level (RejectRequest path b) = 4"
| "desk_level (BatchApproveRequest b) = 4"
| "desk_level (BatchRejectRequest b) = 4"
| "desk_level _ = 5"

text \<open>The endpoint behind the guard; only the outcome of the reply is kept.\<close>

definition outcome :: "gateway \<times> 'a reply \<Rightarrow> gateway \<times> unit reply" where
  "outcome p = map_prod id (map_sum id (\<lambda>_. ())) p"

fun desk_serve :: "desk_env \<Rightarrow> user \<Rightarrow> desk_request \<Rightarrow> gateway \<Rightarrow> gateway \<times> unit reply" where
  "desk_serve e u (CreateDonationRequest b) g = outcome (serveCreateDonation e b g)"
| "desk_serve e u ListDonationsRequest g = outcome (serveListDonations e g)"
| "desk_serve e u (DonationStatusRequest path b) g = outcome (serveDonationStatus e path b g)"
| "desk_serve e u (DeleteDonationRequest path) g = outcome (serveDeleteDonation path g)"
| "desk_serve e u (PatchDonationRequest path b) g = outcome (servePatchDonation e path b g)"
| "desk_serve e u (BatchDonationStatusRequest b) g = outcome (serveBatchDonationStatus e b g)"
| "desk_serve e u (BatchDeleteDonationsRequest b) g = outcome (serveBatchDeleteDonations b g)"
| "desk_serve e u ListPricingRequest g = outcome (serveListPricing g)"
| "desk_serve e u (UpsertPricingRequest b) g = outcome (serveUpsertPricing b g)"
| "desk_serve e u (PatchPricingRequest b) g = outcome (servePatchPricing b g)"
| "desk_serve e u (DeletePricingRequest b) g = outcome (serveDeletePricing b g)"
| "desk_serve e u (BatchDeletePricingRequest b) g = outcome (serveBatchDeletePricing b g)"
| "desk_serve e u PendingApplicationsRequest g = outcome (serveListPendingApplications g)"
| "desk_serve e u (ApproveRequest path b) g = outcome (serveApproveApplication e u path b g)"
| "desk_serve e u (RejectRequest path b) g = outcome (serveRejectApplication u path b g)"
| "desk_serve e u (BatchApproveRequest b) g = outcome (serveBatchApproveApplications e u b g)"
| "desk_serve e u (BatchRejectRequest b) g = outcome (serveBatchRejectApplications u b g)"

definition admin_request :: "desk_env \<Rightarrow> string \<Rightarrow> desk_request \<Rightarrow> gateway \<Rightarrow> gateway \<times> unit reply" where
  "admin_request e token r g = guarded (adminGuard e token g) (\<lambda>u. desk_serve e u r)"

definition user_request :: "desk_env \<Rightarrow> string \<Rightarrow> desk_request \<Rightarrow> gateway \<Rightarrow> gateway \<times> unit reply" where
  "user_request e token r g = guarded (meLevelGuard e token (desk_level r) g) (\<lambda>u. desk_serve e u r)"

section \<open>What a guard does\<close>

text \<open>A guard touches the session table only.\<close>

definition sessions_only :: "gateway \<Rightarrow> gateway \<Rightarrow> bool" where
  "sessions_only g g' \<longleftrightarrow> (\<exists>ss. g' = g\<lparr>gw_store := (gw_store g)\<lparr>sessions := ss\<rparr>\<rparr>)"

lemma sessions_onlyI: "gw_store g' = (gw_store g)\<lparr>sessions := ss\<rparr> \<Longrightarrow> g' = g\<lparr>gw_store := gw_store g'\<rparr> \<Longrightarrow> sessions_only g g'"
  unfolding sessions_only_def by (rule exI [of _ ss]) simp

lemma sessions_only_refl [simp]: "sessions_only g g"
  by (rule sessions_onlyI [where ss = "sessions (gw_store g)"]) simp_all

lemma sessions_only_trans: "sessions_only a b \<Longrightarrow> sessions_only b c \<Longrightarrow> sessions_only a c"
  by (auto simp: sessions_only_def)

lemma session_lookup_frame:
  "fst (getSessionUserAt token now st) = st\<lparr>sessions := sessions (fst (getSessionUserAt token now st))\<rparr>"
  by (simp add: getSessionUserAt_def DeleteSession_def Let_def split: option.split)

lemma currentUser_frame: "sessions_only g (fst (currentUser e k token g))"
proof (cases "getSessionUserAt token (dk_now e k) (gw_store g)")
  case (Pair st1 u)
  then have "st1 = (gw_store g)\<lparr>sessions := sessions st1\<rparr>"
    using session_lookup_frame [of token "dk_now e k" "gw_store g"] by simp
  then show ?thesis
    by (cases u) (auto simp: currentUser_def Pair intro: sessions_onlyI)
qed

text \<open>Whose session a token is, and whether that user may use the console.\<close>

definition session_holder :: "int \<Rightarrow> string \<Rightarrow> store \<Rightarrow> user option" where
  "session_holder now token st = (case by_key s_id token (sessions st) of None \<Rightarrow> None
   | Some s \<Rightarrow> if unix now < s_expires_at s \<and> now < absolute_expiry s then GetUserByID (s_user_id s) st else None)"

definition signed_in :: "desk_env \<Rightarrow> nat \<Rightarrow> string \<Rightarrow> store \<Rightarrow> user option" where
  "signed_in e k token st = (if token = [] then None
     else case session_holder (dk_now e k) token st of None \<Rightarrow> None
       | Some u \<Rightarrow> if IsBanned (dk_unix e (k + 1)) u then None else Some u)"

lemma session_lookup: "snd (getSessionUserAt token now st) = session_holder now token st"
  by (auto simp: getSessionUserAt_def session_holder_def Let_def GetUserByID_def split: option.split)

lemma currentUser_user: "snd (currentUser e k token g) = signed_in e k token (gw_store g)"
proof (cases "getSessionUserAt token (dk_now e k) (gw_store g)")
  case (Pair st1 u)
  then have "session_holder (dk_now e k) token (gw_store g) = u"
    using session_lookup [of token "dk_now e k" "gw_store g"] by simp
  then show ?thesis by (cases u) (simp_all add: currentUser_def signed_in_def Pair)
qed

lemma currentUserE:
  obtains g1 where "currentUser e k token g = (g1, signed_in e k token (gw_store g))" "sessions_only g g1"
  using currentUser_frame [of g e k token] currentUser_user [of e k token g] by (cases "currentUser e k token g") auto

lemma thresholds_frame [simp]: "LevelThresholds (st\<lparr>sessions := ss\<rparr>) = LevelThresholds st"
  by (simp add: LevelThresholds_def GetSettingIntAllowZero_def setting_at_least_def GetSetting_def)

lemma sessions_only_thresholds: "sessions_only g g1 \<Longrightarrow> LevelThresholds (gw_store g1) = LevelThresholds (gw_store g)"
  by (auto simp: sessions_only_def)

datatype site = AdminSite | UserSite

fun on_site :: "site \<Rightarrow> desk_env \<Rightarrow> string \<Rightarrow> desk_request \<Rightarrow> gateway \<Rightarrow> gateway \<times> unit reply" where
  "on_site AdminSite e token r g = admin_request e token r g"
| "on_site UserSite e token r g = user_request e token r g"

definition allowed :: "site \<Rightarrow> desk_request \<Rightarrow> store \<Rightarrow> user \<Rightarrow> bool" where
  "allowed s r st u \<longleftrightarrow> u_is_admin u \<or>
     s = UserSite \<and> desk_level r \<le> fst (GetUserLevel (Some u) (LevelThresholds st))"

definition desk_operator :: "site \<Rightarrow> desk_env \<Rightarrow> string \<Rightarrow> desk_request \<Rightarrow> store \<Rightarrow> user option" where
  "desk_operator s e token r st = (case signed_in e 10 token st of None \<Rightarrow> None
     | Some u \<Rightarrow> if allowed s r st u then Some u else None)"

lemma adminGuard_cases:
  "\<exists>g1. sessions_only g g1 \<and> adminGuard e token g = (g1,
     case desk_operator AdminSite e token r (gw_store g) of None \<Rightarrow> Inl (Refusal 403 ''forbidden'') | Some u \<Rightarrow> Inr u)"
proof -
  obtain g1 where "currentUser e 10 token g = (g1, signed_in e 10 token (gw_store g))" "sessions_only g g1"
    by (rule currentUserE)
  then show ?thesis
    by (auto simp: adminGuard_def requireAdmin_def desk_operator_def allowed_def split: option.split)
qed

lemma requireLevel_cases:
  "\<exists>g1. sessions_only g g1 \<and> requireLevel e token (desk_level r) g = (g1, desk_operator UserSite e token r (gw_store g))"
proof -
  obtain g1 where g1: "currentUser e 10 token g = (g1, signed_in e 10 token (gw_store g))" "sessions_only g g1"
    by (rule currentUserE)
  have "LevelThresholds (gw_store g1) = LevelThresholds (gw_store g)" by (rule sessions_only_thresholds [OF g1(2)])
  then have "requireLevel e token (desk_level r) g = (g1, desk_operator UserSite e token r (gw_store g))"
    by (auto simp: requireLevel_def g1(1) desk_operator_def allowed_def split: option.split)
  then show ?thesis using g1(2) by blast
qed

lemma meLevelGuard_cases:
  "\<exists>g1. sessions_only g g1 \<and> (case desk_operator UserSite e token r (gw_store g) of
     Some u \<Rightarrow> meLevelGuard e token (desk_level r) g = (g1, Inr u)
   | None \<Rightarrow> meLevelGuard e token (desk_level r) g = (g1, Inl (Refusal 401 ''unauthorized'')) \<or>
       meLevelGuard e token (desk_level r) g = (g1, Inl (Refusal 403 ''forbidden'')))"
proof -
  obtain g1 where g1: "requireLevel e token (desk_level r) g = (g1, desk_operator UserSite e token r (gw_store g))"
    "sessions_only g g1" using requireLevel_cases by blast
  obtain g2 where g2: "currentUser e 12 token g1 = (g2, signed_in e 12 token (gw_store g1))" "sessions_only g1 g2"
    by (rule currentUserE)
  show ?thesis
    by (cases "desk_operator UserSite e token r (gw_store g)"; cases "signed_in e 12 token (gw_store g1)")
      (use g1 g2 sessions_only_trans [OF g1(2) g2(2)] in \<open>auto simp: meLevelGuard_def\<close>)
qed

section \<open>Requests as steps of the store\<close>

text \<open>What requests do beside the operations of the components: edits of user rows that keep their ids,
  and of the tables the components' invariants do not look at.\<close>

definition core_tables :: "store \<Rightarrow> store" where
  "core_tables st = st\<lparr>users := [], sessions := [], app_configs := [], app_config_seq := 0, caller_keys := [],
     service_anti_abuse := [], service_generations := [], service_generation_seq := 0, settings := []\<rparr>"

definition side_edit :: "store \<Rightarrow> store \<Rightarrow> bool" where
  "side_edit st st' \<longleftrightarrow> map u_id (users st') = map u_id (users st) \<and> core_tables st' = core_tables st"

lemma side_edit_eq: "core_tables st' = core_tables st \<Longrightarrow> st' = st\<lparr>users := users st', sessions := sessions st',
    app_configs := app_configs st', app_config_seq := app_config_seq st', caller_keys := caller_keys st',
    service_anti_abuse := service_anti_abuse st', service_generations := service_generations st',
    service_generation_seq := service_generation_seq st', settings := settings st'\<rparr>"
  by (cases st; cases st') (simp add: core_tables_def)

inductive store_step ::
  "crypto \<Rightarrow> ((string \<times> int) list \<Rightarrow> (string \<times> int) list) \<Rightarrow> store \<Rightarrow> store \<Rightarrow> bool"
  for c ord where
  Core: "system_step c ord st st' \<Longrightarrow> store_step c ord st st'"
| Side: "side_edit st st' \<Longrightarrow> store_step c ord st st'"
| AdminUser: "store_step c ord st (fst (EnsureAdminUser name now st))"

abbreviation store_runs ::
  "crypto \<Rightarrow> ((string \<times> int) list \<Rightarrow> (string \<times> int) list) \<Rightarrow> store \<Rightarrow> store \<Rightarrow> bool" where
  "store_runs c ord \<equiv> (store_step c ord)\<^sup>*\<^sup>*"

lemma side_edit_ok:
  assumes "side_edit st st'" "system_ok st"
  shows "system_ok st'"
proof -
  have m: "map u_id (users st') = map u_id (users st)" and c: "core_tables st' = core_tables st"
    using assms(1) by (simp_all add: side_edit_def)
  have ids: "u_id ` set (users st') = u_id ` set (users st)" using m by (metis set_map)
  have ok: "ledger_ok st" "accounts_ok st" "applicants_ok st" "links_ok st"
    using assms(2) by (simp_all add: system_ok_parts)
  have same: "donations st' = donations st" "donation_applications st' = donation_applications st"
    "donation_seq st' = donation_seq st" "user_seq st' = user_seq st"
    "user_activity_daily st' = user_activity_daily st" "charity_reservations st' = charity_reservations st"
    "application_seq st' = application_seq st"
    by (subst side_edit_eq [OF c], simp)+
  have "ledger_ok (st\<lparr>users := users st'\<rparr>)" by (rule ledger_ok_users [OF ok(1) m])
  then have l: "ledger_ok st'" by (simp add: ledger_ok_def keys_ok_def same)
  moreover have "accounts_ok st'" by (rule accounts_frame [OF ok(2) l]) (simp_all add: same m)
  moreover have "applicants_ok st' \<and> links_ok st'"
    by (rule review_frame_keeps [OF review_frameI ok(3,4)]) (simp_all add: same ids)
  ultimately show ?thesis by (simp add: system_ok_parts)
qed

lemma insert_user_ok:
  assumes "accounts_ok st" "u_id u = user_seq st + 1"
  shows "accounts_ok (insert_user u st)"
proof -
  have l: "ledger_ok (insert_user u st)"
    by (rule ledger_ok_insert_user) (use assms in \<open>simp_all add: accounts_ok_def\<close>)
  then have "keys_distinct u_id (users (insert_user u st))" by (simp add: ledger_ok_def keys_ok_def)
  then show ?thesis using assms l by (auto simp: accounts_ok_def activity_ok_def insert_user_def)
qed

lemma ensure_admin_ok:
  assumes "system_ok st"
  shows "system_ok (fst (EnsureAdminUser name now st))"
proof (cases "GetUserByDiscordID AdminDiscordID st")
  case None
  have ok: "accounts_ok st" "applicants_ok st" "links_ok st"
    using assms by (simp_all add: system_ok_parts)
  let ?u = "new_user (user_seq st + 1) AdminDiscordID name '''' True now"
  have a: "accounts_ok (insert_user ?u st)" by (rule insert_user_ok [OF ok(1)]) (simp add: new_user_def)
  moreover have "applicants_ok (insert_user ?u st) \<and> links_ok (insert_user ?u st)"
    by (rule review_frame_keeps [OF review_frameI ok(2,3)]) (auto simp: insert_user_def)
  ultimately have "system_ok (insert_user ?u st)" by (simp add: system_ok_parts accounts_ok_def)
  then show ?thesis by (simp add: EnsureAdminUser_def None Let_def)
next
  case (Some u)
  have "side_edit st (update_user i f st)" if "\<And>x. u_id (f x) = u_id x" for i f
    by (simp add: side_edit_def core_tables_def update_user_def map_update_where that)
  then show ?thesis using side_edit_ok [OF _ assms] assms by (simp add: EnsureAdminUser_def Some)
qed

lemma store_step_ok: "store_step c ord st st' \<Longrightarrow> system_ok st \<Longrightarrow> system_ok st'"
  by (cases rule: store_step.cases) (auto intro: system_step_ok side_edit_ok ensure_admin_ok)

lemma store_runs_ok: "store_runs c ord st st' \<Longrightarrow> system_ok st \<Longrightarrow> system_ok st'"
  by (induction rule: rtranclp_induct) (auto intro: store_step_ok)

section \<open>Every endpoint is a run of steps\<close>

lemma core_run: "system_step c ord st st' \<Longrightarrow> store_runs c ord st st'"
  by (rule r_into_rtranclp) (rule store_step.Core)

lemma pool_run: "donor_exists (u_id ` set (users st)) x \<Longrightarrow> st' = pool_exec c x st \<Longrightarrow> store_runs c ord st st'"
  using core_run [OF system_step.Pool] by simp

lemma application_run: "total_submitted x \<Longrightarrow> st' = application_exec c x st \<Longrightarrow> store_runs c ord st st'"
  using core_run [OF system_step.Application] by simp

lemma side_run: "side_edit st st' \<Longrightarrow> store_runs c ord st st'"
  by (rule r_into_rtranclp) (rule store_step.Side)

lemma account_run_step: "on_day day x \<Longrightarrow> st' = account_exec x st \<Longrightarrow> store_runs c ord st st'"
  using core_run [OF system_step.Account] by simp

lemma pool_runs [simp]:
  "store_runs c ord st (SetDonationStatus i s now st)"
  "store_runs c ord st (fst (BatchSetDonationStatus ids s now st))"
  "store_runs c ord st (fst (DeleteDonation i st))" "store_runs c ord st (fst (DeleteDonations ids st))"
  "store_runs c ord st (fst (ExpireOverdueDonations now st))" "store_runs c ord st (fst (PatchDonation c now i p st))"
  "store_runs c ord st (fst (UpsertPricing sv m pr r st))" "store_runs c ord st (fst (PatchPricing sv m pp st))"
  "store_runs c ord st (fst (DeletePricing sv m st))" "store_runs c ord st (fst (DeletePricingBatch ps st))"
  by (rule pool_run [where x = "PoolStatus i s now"] pool_run [where x = "PoolBatchStatus ids s now"]
      pool_run [where x = "PoolDelete i"] pool_run [where x = "PoolDeleteBatch ids"]
      pool_run [where x = "PoolExpire now"] pool_run [where x = "PoolPatch now i p"]
      pool_run [where x = "PriceUpsert sv m pr r"] pool_run [where x = "PricePatch sv m pp"]
      pool_run [where x = "PriceDelete sv m"] pool_run [where x = "PriceDeleteBatch ps"]; simp; fail)+

lemma application_runs [simp]:
  "store_runs c ord st (fst (ApproveApplication c now i r m n st))"
  "store_runs c ord st (fst (ApproveApplications c now ids r n st))"
  "store_runs c ord st (fst (RejectApplication i r n st))"
  "store_runs c ord st (fst (RejectApplications ids r n st))"
  "store_runs c ord st (SetApplicationMapping i t st)"
  by (rule application_run [where x = "AppApprove now i r m n"] application_run [where x = "AppApproveBatch now ids r n"]
      application_run [where x = "AppReject i r n"] application_run [where x = "AppRejectBatch ids r n"]
      application_run [where x = "AppMapping i t"]; simp; fail)+

lemma run_storeD: "run_store f g = (g1, r) \<Longrightarrow>
   gw_store g1 = fst (f (gw_store g)) \<and> r = snd (f (gw_store g)) \<and> g1 = g\<lparr>gw_store := gw_store g1\<rparr>"
  by (auto simp: run_store_def split: prod.splits)

lemma outcome_fst [simp]: "fst (outcome p) = fst p"
  by (simp add: outcome_def)

lemma validate_store [simp]:
  "gw_store (fst (validateDonationAppWithMapping e s b k m g)) = gw_store g"
  "gw_store (fst (validateDonationApp e s b k g)) = gw_store g"
  by (simp_all add: validateDonationApp_def validateDonationAppWithMapping_def send_call_def Let_def split: sum.split)

lemma validate_storeD: "validateDonationApp e s b k g = (g1, v) \<Longrightarrow> gw_store g1 = gw_store g"
  using validate_store(2) [of e s b k g] by simp

lemma serve_store_runs:
  "store_runs c ord (gw_store g) (gw_store (fst (serveDonationStatus e path sb g)))"
  "store_runs c ord (gw_store g) (gw_store (fst (serveDeleteDonation path g)))"
  "store_runs c ord (gw_store g) (gw_store (fst (serveListDonations e g)))"
  "store_runs c ord (gw_store g) (gw_store (fst (serveBatchDonationStatus e bs g)))"
  "store_runs c ord (gw_store g) (gw_store (fst (serveBatchDeleteDonations bd g)))"
  "store_runs c ord (gw_store g) (gw_store (fst (serveUpsertPricing ub g)))"
  "store_runs c ord (gw_store g) (gw_store (fst (servePatchPricing pb g)))"
  "store_runs c ord (gw_store g) (gw_store (fst (serveDeletePricing db g)))"
  "store_runs c ord (gw_store g) (gw_store (fst (serveBatchDeletePricing bb g)))"
  by (auto simp: serveDonationStatus_def serveDeleteDonation_def serveListDonations_def serveBatchDonationStatus_def
      serveBatchDeleteDonations_def serveUpsertPricing_def servePatchPricing_def serveDeletePricing_def
      serveBatchDeletePricing_def Let_def
      split: option.split sum.split prod.split pricing_error.split dest!: run_storeD)

lemma serve_review_runs:
  "store_runs (dk_crypto e) ord (gw_store g) (gw_store (fst (serveRejectApplication u path rb g)))"
  "store_runs (dk_crypto e) ord (gw_store g) (gw_store (fst (serveBatchApproveApplications e u bb g)))"
  "store_runs (dk_crypto e) ord (gw_store g) (gw_store (fst (serveBatchRejectApplications u bb g)))"
  by (auto simp: serveRejectApplication_def serveBatchApproveApplications_def serveBatchRejectApplications_def
      split: option.split sum.split prod.split dest!: run_storeD)

lemma user_row_id: "user_row i st = Some u \<Longrightarrow> i \<in> u_id ` set (users st)"
  by (auto dest: by_key_SomeD)

lemma check_createE:
  assumes "check_create e b st = Some d"
  shows "0 < d_total_count d" "dk_unix e 14 < d_deadline d" "d_status d = DonationInactive"
    "case d_source_user_id d of None \<Rightarrow> True | Some u \<Rightarrow> u \<in> u_id ` set (users st)"
    "d_source_user_id d = None \<longrightarrow> d_source_text d \<noteq> []" "d_source_user_id d = None \<longrightarrow> d_note d \<noteq> []"
  using assms
  by (auto simp: check_create_def requested_donation_def donation_source_def GetUserByID_def
      split: sum.splits prod.splits option.splits if_split_asm dest: user_row_id)

lemma serve_create_runs:
  "store_runs (dk_crypto e) ord (gw_store g) (gw_store (fst (serveCreateDonation e b g)))"
proof (cases "Option.bind b (\<lambda>b. check_create e b (gw_store g))")
  case None
  then show ?thesis by (cases b) (simp_all add: serveCreateDonation_def)
next
  case (Some d)
  then obtain body where b: "b = Some body" "check_create e body (gw_store g) = Some d" by (cases b) auto
  have "store_runs (dk_crypto e) ord (gw_store g)
      (fst (CreateDonation (dk_crypto e) (dk_unix e 15) d (cb_api_key body) (gw_store g)))"
    by (rule pool_run [where x = "PoolCreate (dk_unix e 15) d (cb_api_key body)"])
      (use check_createE(4) [OF b(2)] in simp_all)
  then show ?thesis
    by (auto simp: serveCreateDonation_def b Let_def split: sum.split option.split prod.split
        dest!: run_storeD validate_storeD)
qed

lemma serve_patch_runs:
  "store_runs (dk_crypto e) ord (gw_store g) (gw_store (fst (servePatchDonation e path b g)))"
  by (auto simp: servePatchDonation_def probe_patched_def split: sum.split option.split prod.split if_split_asm
      dest!: run_storeD validate_storeD)

lemma serve_approve_runs:
  "store_runs (dk_crypto e) ord (gw_store g) (gw_store (fst (serveApproveApplication e u path b g)))"
proof -
  have two: "store_runs (dk_crypto e) ord st (SetDonationStatus i s now
      (fst (ApproveApplication (dk_crypto e) now' j r m n st)))" for st i s now now' j r m n
    by (rule rtranclp_trans [OF application_runs(1) pool_runs(1)])
  show ?thesis
    by (auto simp: serveApproveApplication_def Let_def two split: sum.split option.split prod.split if_split_asm
        dest!: run_storeD validate_storeD)
qed

lemma desk_serve_runs: "store_runs (dk_crypto e) ord (gw_store g) (gw_store (fst (desk_serve e u r g)))"
  by (cases r) (simp_all add: serve_store_runs serve_review_runs serve_create_runs serve_patch_runs serve_approve_runs
      serveListPricing_def serveListPendingApplications_def)

lemma sessions_only_run: "sessions_only g g1 \<Longrightarrow> store_runs c ord (gw_store g) (gw_store g1)"
  by (rule side_run) (auto simp: sessions_only_def side_edit_def core_tables_def)

section \<open>The pricing gate\<close>

text \<open>Reviews add donations that are not active and leave the prices alone.\<close>

lemma active_priced_same:
  assumes "active_priced st" "donations st' = donations st" "charity_pricing st' = charity_pricing st"
  shows "active_priced st'"
  using assms by (simp add: active_priced_def priced_def)

lemma approve_gate: "active_priced st \<Longrightarrow> active_priced (fst (approveApplicationTx c now reviewer m note i st))"
  by (auto simp: approveApplicationTx_def claim_review_def update_applications_def link_donation_def
      approved_donation_def active_priced_def priced_def Let_def
      split: option.splits sum.splits if_split_asm)

lemma reject_gate: "active_priced st \<Longrightarrow> active_priced (fst (rejectApplicationTx reviewer note i st))"
  by (auto simp: rejectApplicationTx_def claim_review_def update_applications_def active_priced_def priced_def Let_def
      split: option.splits if_split_asm)

lemma review_gate:
  assumes "active_priced st"
  shows "active_priced (fst (ApproveApplication c now i r m n st))"
    "active_priced (fst (ApproveApplications c now ids r n st))"
    "active_priced (fst (RejectApplication i r n st))" "active_priced (fst (RejectApplications ids r n st))"
  using assms
  by (simp_all add: ApproveApplication_def RejectApplication_def approve_gate reject_gate ApproveApplications_def
      RejectApplications_def in_transaction_preserves [of active_priced])

text \<open>Requests that do not move a donation to another service or model.\<close>

fun keeps_pairs :: "desk_request \<Rightarrow> bool" where
  "keeps_pairs (PatchDonationRequest path (Some p)) \<longleftrightarrow> dp_service p = None \<and> dp_model p = None"
| "keeps_pairs _ \<longleftrightarrow> True"

lemma GetPricing_priced: "GetPricing (d_service d) (d_model d) st \<noteq> None \<Longrightarrow> priced st d"
  by (force simp: GetPricing_def priced_iff pricing_key_def dest: by_key_SomeD)

lemma serve_status_gate:
  assumes "active_priced (gw_store g)" "keys_ok (gw_store g)"
  shows "active_priced (gw_store (fst (serveDonationStatus e path b g)))"
proof -
  have "active_priced (SetDonationStatus i s now (gw_store g))"
    if "GetDonation i (gw_store g) = Some d" "s = DonationActive \<Longrightarrow> GetPricing (d_service d) (d_model d) (gw_store g) \<noteq> None"
    for i d s now
  proof (rule SetDonationStatus_gate [OF assms(1)])
    assume "s = DonationActive"
    then have "priced (gw_store g) d" by (intro GetPricing_priced that(2))
    then show "\<forall>x \<in> set (donations (gw_store g)). d_id x = i \<longrightarrow> priced (gw_store g) x"
      using by_key_in_set [OF keys_ok_dest(2) [OF assms(2)]] that(1) by (auto simp: GetDonation_def)
  qed
  then show ?thesis using assms(1) by (auto simp: serveDonationStatus_def Let_def split: option.split)
qed

lemma check_patch_keeps: "\<lbrakk>check_patch e p = Some p'; dp_service p = None; dp_model p = None\<rbrakk> \<Longrightarrow>
   dp_service p' = None \<and> dp_model p' = None"
  by (auto simp: check_patch_def Let_def split: if_split_asm)

lemma pool_gate:
  assumes "active_priced st" "keys_ok st"
  shows "active_priced (fst (BatchSetDonationStatus ids s now st))"
    "active_priced (fst (DeleteDonation i st))" "active_priced (fst (DeleteDonations ids st))"
    "active_priced (fst (ExpireOverdueDonations now st))"
    "active_priced (fst (UpsertPricing sv m pr r st))" "active_priced (fst (PatchPricing sv m pp st))"
    "active_priced (fst (DeletePricing sv m st))" "active_priced (fst (DeletePricingBatch ps st))"
  using pool_exec_gate [OF assms, of "PoolBatchStatus ids s now"] pool_exec_gate [OF assms, of "PoolDelete i"]
    pool_exec_gate [OF assms, of "PoolDeleteBatch ids"] pool_exec_gate [OF assms, of "PoolExpire now"]
    pool_exec_gate [OF assms, of "PriceUpsert sv m pr r"] pool_exec_gate [OF assms, of "PricePatch sv m pp"]
    pool_exec_gate [OF assms, of "PriceDelete sv m"] pool_exec_gate [OF assms, of "PriceDeleteBatch ps"]
  by simp_all

lemma serve_store_gate:
  assumes "active_priced (gw_store g)" "keys_ok (gw_store g)"
  shows "active_priced (gw_store (fst (serveDeleteDonation path g)))"
    "active_priced (gw_store (fst (serveListDonations e g)))"
    "active_priced (gw_store (fst (serveBatchDonationStatus e bs g)))"
    "active_priced (gw_store (fst (serveBatchDeleteDonations bd g)))"
    "active_priced (gw_store (fst (serveUpsertPricing ub g)))"
    "active_priced (gw_store (fst (servePatchPricing pb g)))"
    "active_priced (gw_store (fst (serveDeletePricing db g)))"
    "active_priced (gw_store (fst (serveBatchDeletePricing bb g)))"
  by (auto simp: serveDeleteDonation_def serveListDonations_def serveBatchDonationStatus_def
      serveBatchDeleteDonations_def serveUpsertPricing_def servePatchPricing_def serveDeletePricing_def
      serveBatchDeletePricing_def Let_def assms pool_gate [OF assms]
      split: option.split sum.split prod.split pricing_error.split dest!: run_storeD)

lemma serve_review_gate:
  assumes "active_priced (gw_store g)"
  shows "active_priced (gw_store (fst (serveRejectApplication u path rb g)))"
    "active_priced (gw_store (fst (serveBatchApproveApplications e u bb g)))"
    "active_priced (gw_store (fst (serveBatchRejectApplications u bb g)))"
  by (auto simp: serveRejectApplication_def serveBatchApproveApplications_def serveBatchRejectApplications_def
      assms review_gate [OF assms] split: option.split sum.split prod.split dest!: run_storeD)

lemma serve_approve_gate:
  assumes "active_priced (gw_store g)"
  shows "active_priced (gw_store (fst (serveApproveApplication e u path b g)))"
proof -
  have "active_priced (SetDonationStatus i DonationInactive now (fst (ApproveApplication c now' j r m n (gw_store g))))"
    for i now c now' j r m n
    by (rule SetDonationStatus_gate [OF review_gate(1) [OF assms]]) simp
  then show ?thesis
    by (auto simp: serveApproveApplication_def Let_def assms review_gate [OF assms]
        split: sum.split option.split prod.split if_split_asm dest!: run_storeD validate_storeD)
qed

lemma serve_create_gate:
  assumes "active_priced (gw_store g)" "keys_ok (gw_store g)"
  shows "active_priced (gw_store (fst (serveCreateDonation e b g)))"
proof -
  have "active_priced (fst (CreateDonation c now d key (gw_store g)))" if "check_create e body (gw_store g) = Some d"
    for c now d key body
    using pool_exec_gate [OF assms, of "PoolCreate now d key" c] check_createE(3) [OF that] by simp
  then show ?thesis
    by (auto simp: serveCreateDonation_def Let_def assms split: sum.split option.split prod.split
        dest!: run_storeD validate_storeD)
qed

lemma serve_patch_gate:
  assumes "active_priced (gw_store g)" "keys_ok (gw_store g)" "keeps_pairs (PatchDonationRequest path b)"
  shows "active_priced (gw_store (fst (servePatchDonation e path b g)))"
proof -
  have "active_priced (fst (PatchDonation c now i p (gw_store g)))"
    if "b = Some p0" "check_patch e p0 = Some p" for c now i p p0
    using PatchDonation_gate [OF assms(1,2)] check_patch_keeps [OF that(2)] assms(3) that(1) by simp
  then show ?thesis
    by (auto simp: servePatchDonation_def probe_patched_def assms(1)
        split: sum.split option.split prod.split if_split_asm dest!: run_storeD validate_storeD)
qed

lemma desk_serve_gate:
  assumes "active_priced (gw_store g)" "keys_ok (gw_store g)" "keeps_pairs r"
  shows "active_priced (gw_store (fst (desk_serve e u r g)))"
  using assms by (cases r) (simp_all add: serve_store_gate serve_review_gate serve_create_gate serve_patch_gate
      serve_approve_gate serve_status_gate serveListPricing_def serveListPendingApplications_def)

lemma sessions_only_gate: "sessions_only g g1 \<Longrightarrow>
   active_priced (gw_store g1) = active_priced (gw_store g) \<and> keys_ok (gw_store g1) = keys_ok (gw_store g)"
  by (auto simp: sessions_only_def active_priced_def priced_def keys_ok_def)

lemma guarded_state: "fst (guarded (g1, x) k) = g1 \<or> (\<exists>u. fst (guarded (g1, x) k) = fst (k u g1))"
  by (cases x) (auto simp: guarded_def)

lemma on_site_state: "\<exists>g1. sessions_only g g1 \<and> (fst (on_site s e token r g) = g1 \<or>
   (\<exists>u. fst (on_site s e token r g) = fst (desk_serve e u r g1)))"
proof (cases s)
  case AdminSite
  obtain g1 x where "sessions_only g g1" "adminGuard e token g = (g1, x)"
    using adminGuard_cases [of g e token r] by blast
  then show ?thesis
    using guarded_state [of g1 x "\<lambda>u. desk_serve e u r"] by (auto simp: AdminSite admin_request_def)
next
  case UserSite
  obtain g1 x where "sessions_only g g1" "meLevelGuard e token (desk_level r) g = (g1, x)"
    using meLevelGuard_cases [of g e token r] by (auto split: option.splits)
  then show ?thesis
    using guarded_state [of g1 x "\<lambda>u. desk_serve e u r"] by (auto simp: UserSite user_request_def)
qed

lemma on_site_runs: "store_runs (dk_crypto e) ord (gw_store g) (gw_store (fst (on_site s e token r g)))"
proof -
  obtain g1 where g1: "sessions_only g g1" "fst (on_site s e token r g) = g1 \<or>
      (\<exists>u. fst (on_site s e token r g) = fst (desk_serve e u r g1))"
    using on_site_state by blast
  have run: "store_runs (dk_crypto e) ord (gw_store g) (gw_store g1)" by (rule sessions_only_run [OF g1(1)])
  show ?thesis
    using g1(2) run rtranclp_trans [OF run desk_serve_runs] by metis
qed

section \<open>Properties\<close>


text \<open>C32: The pricing gate holds over the console. While prices and donations are changed by any desk
  request that does not move a donation to another service or model, an active donation always has a
  price: a creation starts inactive, an approval without a price ends inactive, a donation is activated only
  with a price, and a price in use is not deleted.\<close>

theorem desk_pricing_gate:
  assumes "active_priced (gw_store g)" "keys_ok (gw_store g)" "keeps_pairs r"
  shows "active_priced (gw_store (fst (on_site s e token r g)))"
proof -
  obtain g1 where g1: "sessions_only g g1" "fst (on_site s e token r g) = g1 \<or>
      (\<exists>u. fst (on_site s e token r g) = fst (desk_serve e u r g1))"
    using on_site_state by blast
  have "active_priced (gw_store g1)" "keys_ok (gw_store g1)"
    using sessions_only_gate [OF g1(1)] assms(1,2) by simp_all
  then show ?thesis using g1(2) desk_serve_gate [OF _ _ assms(3)] by metis
qed

text \<open>An administrator activates the priced donation of a small pool.\<close>

definition sample_desk_env :: desk_env where
  "sample_desk_env = \<lparr>dk_env = sample_call_env, dk_cfg = sample_config, dk_slot = True,
     dk_mapping_text = \<lambda>_. None, dk_sites = []\<rparr>"

definition sample_admin :: user where
  "sample_admin = new_user 9 AdminDiscordID ''root'' [] True 0"

definition sample_desk :: gateway where
  "sample_desk = sample_gateway\<lparr>gw_store := (gw_store sample_gateway)\<lparr>
     users := users (gw_store sample_gateway) @ [sample_admin], user_seq := 9,
     donations := map (\<lambda>d. d\<lparr>d_status := DonationInactive\<rparr>) (donations (gw_store sample_gateway)),
     sessions := [\<lparr>s_id = ''t'', s_user_id = 9, s_expires_at = 100, s_created_at = 0\<rparr>]\<rparr>\<rparr>"

theorem desk_pricing_gate_witness:
  "active_priced (gw_store (fst (on_site AdminSite sample_desk_env ''t'' (DonationStatusRequest ''1'' (Some ''active'')) sample_desk))) \<and>
   snd (on_site AdminSite sample_desk_env ''t'' (DonationStatusRequest ''1'' (Some ''active'')) sample_desk) = Inr ()"
proof
  show "active_priced (gw_store (fst (on_site AdminSite sample_desk_env ''t''
      (DonationStatusRequest ''1'' (Some ''active'')) sample_desk)))"
    by (rule desk_pricing_gate)
      (simp_all add: sample_desk_def sample_gateway_def sample_store_def empty_store_def active_priced_def
        keys_ok_def sample_admin_def new_user_def sample_user_def sample_donation_def)
  show "snd (on_site AdminSite sample_desk_env ''t'' (DonationStatusRequest ''1'' (Some ''active'')) sample_desk) = Inr ()"
    by code_simp
qed


end
