(* ===== verification/Base64.thy ===== *)
theory Base64
  imports GoStrings "HOL-Library.Word"
begin

text \<open>
  The parts of \<^verbatim>\<open>encoding/base64\<close> and \<^verbatim>\<open>encoding/binary\<close> that the logins use: \<open>RawURLEncoding\<close>, whose
  decoder skips line breaks and takes the last one or two characters of an incomplete group, and 64-bit
  big-endian integers. Each decoder undoes its encoder.
\<close>

section \<open>Unpadded base64 with the URL alphabet\<close>

definition alphabet :: string where
  "alphabet = ''ABCDEFGHIJKLMNOPQRSTUVWXYZabcdefghijklmnopqrstuvwxyz0123456789-_''"

fun sextets :: "nat list \<Rightarrow> nat list" where
  "sextets (a # b # c # r) = a div 4 # ((a mod 4) * 16 + b div 16) # ((b mod 16) * 4 + c div 64) # c mod 64 # sextets r"
| "sextets [a, b] = [a div 4, (a mod 4) * 16 + b div 16, (b mod 16) * 4]"
| "sextets [a] = [a div 4, (a mod 4) * 16]"
| "sextets [] = []"

text \<open>A single left-over character is an error, the bits a shorter group leaves over are dropped.\<close>

fun octets :: "nat list \<Rightarrow> nat list option" where
  "octets (s # t # u # v # r) =
     map_option (\<lambda>x. (s * 4 + t div 16) # ((t mod 16) * 16 + u div 4) # ((u mod 4) * 64 + v) # x) (octets r)"
| "octets [s, t, u] = Some [s * 4 + t div 16, (t mod 16) * 16 + u div 4]"
| "octets [s, t] = Some [s * 4 + t div 16]"
| "octets [s] = None"
| "octets [] = Some []"

definition EncodeToString :: "string \<Rightarrow> string" where
  "EncodeToString s = map (\<lambda>n. alphabet ! n) (sextets (map of_char s))"

definition line_break :: "char \<Rightarrow> bool" where
  "line_break c \<longleftrightarrow> c = CHR 0x0A \<or> c = CHR 0x0D"

definition DecodeString :: "string \<Rightarrow> string option" where
  "DecodeString s = (case those (map (\<lambda>c. index_byte c alphabet) (filter (\<lambda>c. \<not> line_break c) s)) of
     None \<Rightarrow> None | Some v \<Rightarrow> map_option (map char_of) (octets v))"

lemma sextets_bound: "\<forall>b \<in> set bs. b < 256 \<Longrightarrow> \<forall>x \<in> set (sextets bs). x < 64"
  by (induction bs rule: sextets.induct) auto

lemma group3:
  fixes a b c :: nat
  assumes "a < 256" "b < 256" "c < 256"
  shows "a div 4 * 4 + ((a mod 4) * 16 + b div 16) div 16 = a"
    "(((a mod 4) * 16 + b div 16) mod 16) * 16 + ((b mod 16) * 4 + c div 64) div 4 = b"
    "(((b mod 16) * 4 + c div 64) mod 4) * 64 + c mod 64 = c"
proof -
  have "b div 16 < 16" "c div 64 < 4" using assms by auto
  then have "((a mod 4) * 16 + b div 16) div 16 = a mod 4" "((a mod 4) * 16 + b div 16) mod 16 = b div 16"
    "((b mod 16) * 4 + c div 64) div 4 = b mod 16" "((b mod 16) * 4 + c div 64) mod 4 = c div 64"
    by simp_all
  then show "a div 4 * 4 + ((a mod 4) * 16 + b div 16) div 16 = a"
    "(((a mod 4) * 16 + b div 16) mod 16) * 16 + ((b mod 16) * 4 + c div 64) div 4 = b"
    "(((b mod 16) * 4 + c div 64) mod 4) * 64 + c mod 64 = c"
    by (simp_all add: mult.commute [of _ "4 :: nat"] mult.commute [of _ "16 :: nat"] mult.commute [of _ "64 :: nat"])
qed

lemma octets_sextets: "\<forall>b \<in> set bs. b < 256 \<Longrightarrow> octets (sextets bs) = Some bs"
proof (induction bs rule: sextets.induct)
  case (1 a b c r)
  then show ?case using group3 [of a b c] by simp
next
  case (2 a b)
  then show ?case using group3 [of a b 0] by simp
next
  case (3 a)
  then show ?case using group3 [of a 0 0] by simp
qed simp

lemma index_byte_nth: "\<lbrakk>distinct s; i < length s\<rbrakk> \<Longrightarrow> index_byte (s ! i) s = Some i"
proof (induction s arbitrary: i)
  case (Cons x s)
  then show ?case by (cases i) auto
qed simp

lemma alphabet_ok: "distinct alphabet" "length alphabet = 64" "\<forall>c \<in> set alphabet. \<not> line_break c"
  by (simp_all add: alphabet_def line_break_def)

lemma those_Some_map: "\<forall>x \<in> set xs. f x = Some (g x) \<Longrightarrow> those (map f xs) = Some (map g xs)"
  by (induction xs) auto

lemma base64_decode_encode: "DecodeString (EncodeToString s) = Some s"
proof -
  let ?v = "sextets (map of_char s)"
  have b: "\<forall>x \<in> set ?v. x < length alphabet"
    using sextets_bound [of "map of_char s"] by (simp add: alphabet_ok)
  have f: "filter (\<lambda>c. \<not> line_break c) (EncodeToString s) = EncodeToString s"
    unfolding filter_id_conv EncodeToString_def using b alphabet_ok(3) by auto
  have "those (map (\<lambda>c. index_byte c alphabet) (EncodeToString s)) =
      those (map (\<lambda>n. index_byte (alphabet ! n) alphabet) ?v)"
    by (simp add: EncodeToString_def comp_def)
  also have "\<dots> = Some (map (\<lambda>n. n) ?v)"
    by (rule those_Some_map) (use b alphabet_ok(1) index_byte_nth in blast)
  finally show ?thesis
    unfolding DecodeString_def f by (simp add: octets_sextets comp_def)
qed

lemma EncodeToString_length: "length (EncodeToString s) = (4 * length s + 2) div 3"
proof -
  have "length (sextets bs) = (4 * length bs + 2) div 3" for bs
    by (induction bs rule: sextets.induct) auto
  then show ?thesis by (simp add: EncodeToString_def)
qed

section \<open>Big-endian integers\<close>

fun be_bytes :: "nat \<Rightarrow> nat \<Rightarrow> string" where
  "be_bytes 0 n = []"
| "be_bytes (Suc k) n = be_bytes k (n div 256) @ [char_of (n mod 256)]"

definition be_value :: "string \<Rightarrow> nat" where
  "be_value s = fold (\<lambda>c n. 256 * n + of_char c) s 0"

lemma be_bytes_length [simp]: "length (be_bytes k n) = k"
  by (induction k arbitrary: n) auto

lemma be_value_bytes: "be_value (be_bytes k n) = n mod 256 ^ k"
proof (induction k arbitrary: n)
  case (Suc k)
  have "be_value (be_bytes (Suc k) n) = 256 * (n div 256 mod 256 ^ k) + n mod 256"
    using Suc [of "n div 256"] by (simp add: be_value_def)
  also have "\<dots> = n mod (256 * 256 ^ k)"
    by (simp add: mod_mult2_eq)
  finally show ?case by simp
qed (simp add: be_value_def)

text \<open>\<^verbatim>\<open>binary.BigEndian.PutUint64(uint64(t))\<close> and back through \<^verbatim>\<open>int64\<close>.\<close>

definition PutUint64 :: "int \<Rightarrow> string" where
  "PutUint64 t = be_bytes 8 (unat (word_of_int t :: 64 word))"

definition Int64 :: "string \<Rightarrow> int" where
  "Int64 s = sint (of_nat (be_value s) :: 64 word)"

lemma PutUint64_length [simp]: "length (PutUint64 t) = 8"
  by (simp add: PutUint64_def)

lemma Int64_PutUint64:
  assumes "- (2 ^ 63) \<le> t" "t < 2 ^ 63"
  shows "Int64 (PutUint64 t) = t"
proof -
  have "unat (word_of_int t :: 64 word) < 256 ^ 8"
    using unsigned_less [of "word_of_int t :: 64 word"] by simp
  then have "be_value (PutUint64 t) = unat (word_of_int t :: 64 word)"
    by (simp add: PutUint64_def be_value_bytes del: be_bytes.simps)
  then have "Int64 (PutUint64 t) = sint (word_of_int t :: 64 word)" by (simp add: Int64_def)
  also have "\<dots> = t" using assms by (simp only: sint_sbintrunc') (simp add: signed_take_bit_int_eq_self)
  finally show ?thesis .
qed

end
