(* ===== verification/Login.thy ===== *)
theory Login
  imports Desk Base64
begin

text \<open>
  The logins of \<^verbatim>\<open>handler/auth.go\<close> with \<^verbatim>\<open>auth/session.go\<close>, \<^verbatim>\<open>auth/discord.go\<close> and
  \<^verbatim>\<open>auth/password.go\<close>: the administrator's password login behind its throttle, and the Discord login with
  its authenticated state cookie. HMAC, bcrypt, the random source and the answers of the Discord API are
  parameters. A session is opened for a verified administrator or for an account, not banned, whose
  Discord identity was just confirmed; a state is accepted exactly in its window and with its MAC.
\<close>

section \<open>What the logins learn from outside\<close>

text \<open>An answer of the Discord API: none, a status other than 200 with the start of the body, a body that
  does not decode, or the decoded body.\<close>

datatype 'a api_answer = Unreachable string | Refused int string | Undecodable string | Answer 'a

record user_info =
  ui_id :: string
  ui_username :: string
  ui_global_name :: string
  ui_avatar :: string

record login_env =
  le_desk :: desk_env
  le_username :: string
  le_password :: string
  le_client_secret :: string
  le_site :: string
  le_sha256 :: "string \<Rightarrow> string"
  le_hmac :: "string \<Rightarrow> string \<Rightarrow> string"
  le_random :: "string option"
  le_bcrypt :: "string \<Rightarrow> string \<Rightarrow> bool"
  le_token :: "string \<Rightarrow> string api_answer"
  le_user :: "string \<Rightarrow> user_info api_answer"
  le_member :: "string \<Rightarrow> string \<Rightarrow> string list api_answer"
  le_session :: string
  le_key :: string
  le_language :: string
  le_mail :: bool

text \<open>The gateway with the throttle of the password login and the mails handed to the mailer.\<close>

record login_state =
  ls_gateway :: gateway
  ls_throttle :: login_throttle
  ls_mails :: "(string \<times> int) list"

section \<open>Cookies\<close>

record cookie =
  ck_name :: string
  ck_value :: string
  ck_path :: string
  ck_expires :: "int option"
  ck_max_age :: int
  ck_http_only :: bool
  ck_secure :: bool
  ck_lax :: bool

definition SessionCookieName :: string where "SessionCookieName = ''dify2api_session''"
definition OAuthStateCookieName :: string where "OAuthStateCookieName = ''dify2api_oauth_state''"

definition secure_site :: "string \<Rightarrow> bool" where
  "secure_site site \<longleftrightarrow> prefix ''https://'' (ToLower site)"

definition SetSessionCookie :: "string \<Rightarrow> int \<Rightarrow> string \<Rightarrow> cookie" where
  "SetSessionCookie token expiresAt site = \<lparr>ck_name = SessionCookieName, ck_value = token, ck_path = ''/'',
     ck_expires = Some expiresAt, ck_max_age = 0, ck_http_only = True, ck_secure = secure_site site, ck_lax = True\<rparr>"

definition ClearSessionCookie :: "string \<Rightarrow> cookie" where
  "ClearSessionCookie site = \<lparr>ck_name = SessionCookieName, ck_value = [], ck_path = ''/'',
     ck_expires = None, ck_max_age = -1, ck_http_only = True, ck_secure = secure_site site, ck_lax = True\<rparr>"

definition SetOAuthStateCookie :: "string \<Rightarrow> string \<Rightarrow> cookie" where
  "SetOAuthStateCookie state site = \<lparr>ck_name = OAuthStateCookieName, ck_value = state, ck_path = ''/'',
     ck_expires = None, ck_max_age = 600, ck_http_only = True, ck_secure = secure_site site, ck_lax = True\<rparr>"

definition ClearOAuthStateCookie :: "string \<Rightarrow> cookie" where
  "ClearOAuthStateCookie site = \<lparr>ck_name = OAuthStateCookieName, ck_value = [], ck_path = ''/'',
     ck_expires = None, ck_max_age = -1, ck_http_only = True, ck_secure = secure_site site, ck_lax = True\<rparr>"

text \<open>The first cookie of a name in the request's list.\<close>

definition SessionToken :: "(string \<times> string) list \<Rightarrow> string" where
  "SessionToken cookies = map_get [] SessionCookieName cookies"

definition OAuthStateFromRequest :: "(string \<times> string) list \<Rightarrow> string" where
  "OAuthStateFromRequest cookies = map_get [] OAuthStateCookieName cookies"

section \<open>The state of a Discord login\<close>

definition oauthStateTTL :: int where "oauthStateTTL = 10 * 60 * second"

definition oauthStateKey :: "login_env \<Rightarrow> string" where
  "oauthStateKey e = le_sha256 e (''dify2api/oauth-state/v1'' @ CHR 0x00 # le_client_secret e)"

definition state_mac :: "login_env \<Rightarrow> string \<Rightarrow> string" where
  "state_mac e payload = le_hmac e (oauthStateKey e) payload"

definition newOAuthState :: "login_env \<Rightarrow> int \<Rightarrow> string option" where
  "newOAuthState e now = (case le_random e of None \<Rightarrow> None
   | Some r \<Rightarrow> let payload = PutUint64 (unix now) @ r in Some (EncodeToString (payload @ state_mac e payload)))"

text \<open>\<open>Sub\<close> saturates beyond 292 years, which does not change the comparison with the window.\<close>

definition validOAuthState :: "login_env \<Rightarrow> string \<Rightarrow> int \<Rightarrow> bool" where
  "validOAuthState e state now \<longleftrightarrow>
    (if 128 < length state then False
     else case DecodeString state of None \<Rightarrow> False
     | Some raw \<Rightarrow>
        if length raw \<noteq> 8 + 16 + 32 then False
        else let payload = take 24 raw; suppliedMAC = drop 24 raw in
          if suppliedMAC \<noteq> state_mac e payload then False
          else let issued = Int64 (take 8 payload) * second in
            \<not> now + 60 * second < issued \<and> now - issued \<le> oauthStateTTL)"

section \<open>The Discord API\<close>

definition ExchangeCode :: "login_env \<Rightarrow> string \<Rightarrow> string option" where
  "ExchangeCode e code = (case le_token e code of
     Answer token \<Rightarrow> if token = [] then None else Some token | _ \<Rightarrow> None)"

definition DisplayName :: "user_info \<Rightarrow> string" where
  "DisplayName u = (if ui_global_name u \<noteq> [] then ui_global_name u else ui_username u)"

definition getJSON :: "'a api_answer \<Rightarrow> (string, 'a) result" where
  "getJSON a = (case a of
     Unreachable m \<Rightarrow> Inl (''discord api: '' @ m)
   | Refused s body \<Rightarrow> Inl (''discord api: status '' @ Itoa s @ '': '' @ body)
   | Undecodable m \<Rightarrow> Inl m
   | Answer x \<Rightarrow> Inr x)"

definition FetchUser :: "login_env \<Rightarrow> string \<Rightarrow> user_info option" where
  "FetchUser e token = (case getJSON (le_user e token) of Inl _ \<Rightarrow> None
   | Inr u \<Rightarrow> if ui_id u = [] then None else Some u)"

text \<open>\<open>None\<close> is an error; an answer with status 404 means that the user is not a member.\<close>

definition HasGuildRole :: "login_env \<Rightarrow> string \<Rightarrow> string \<Rightarrow> string \<Rightarrow> bool option" where
  "HasGuildRole e token guildID roleID = (if guildID = [] \<or> roleID = [] then Some False
     else case getJSON (le_member e guildID token) of
       Inl m \<Rightarrow> if sublist ''status 404'' m then Some False else None
     | Inr roles \<Rightarrow> Some (roleID \<in> set roles))"

section \<open>Sessions\<close>

text \<open>A new session and its cookie, which lives as long as the session can at most.\<close>

definition issueSession :: "login_env \<Rightarrow> nat \<Rightarrow> int \<Rightarrow> gateway \<Rightarrow> gateway \<times> cookie option" where
  "issueSession e k userID g =
    (case run_store (CreateSession (le_session e) userID (dk_now (le_desk e) k)) g of
       (g1, None) \<Rightarrow> (g1, None)
     | (g1, Some (idle, absolute)) \<Rightarrow> (g1, Some (SetSessionCookie (le_session e) absolute (le_site e))))"

definition handleLogout :: "login_env \<Rightarrow> string \<Rightarrow> (string \<times> string) list \<Rightarrow> gateway \<Rightarrow> gateway \<times> cookie reply" where
  "handleLogout e verb cookies g =
    (if verb \<noteq> ''POST'' then (g, Inl (Refusal 405 ''method_not_allowed''))
     else let token = SessionToken cookies;
              g1 = (if token \<noteq> [] then g\<lparr>gw_store := DeleteSession token (gw_store g)\<rparr> else g)
       in (g1, Inr (ClearSessionCookie (le_site e))))"

section \<open>The password login\<close>

text \<open>A stored password is plain text or a bcrypt hash.\<close>

definition VerifyPassword :: "login_env \<Rightarrow> string \<Rightarrow> string \<Rightarrow> bool" where
  "VerifyPassword e stored candidate =
    (if prefix ''$2a$'' stored \<or> prefix ''$2b$'' stored \<or> prefix ''$2y$'' stored then le_bcrypt e stored candidate
     else stored = candidate)"

definition maxLoginUsernameLen :: nat where "maxLoginUsernameLen = 128"

definition on_gateway :: "(gateway \<Rightarrow> gateway \<times> 'r) \<Rightarrow> login_state \<Rightarrow> login_state \<times> 'r" where
  "on_gateway f s = (case f (ls_gateway s) of (g, r) \<Rightarrow> (s\<lparr>ls_gateway := g\<rparr>, r))"

definition handleAdminLogin ::
  "login_env \<Rightarrow> string \<Rightarrow> string \<Rightarrow> (string \<times> string) option \<Rightarrow> login_state \<Rightarrow> login_state \<times> cookie reply" where
  "handleAdminLogin e verb ip body s =
    (if verb \<noteq> ''POST'' then (s, Inl (Refusal 405 ''method_not_allowed''))
     else case body of None \<Rightarrow> (s, Inl (Refusal 400 ''invalid_request''))
     | Some (username0, password) \<Rightarrow>
        let username = take maxLoginUsernameLen username0;
            key = ip @ ''|'' @ username;
            now = dk_now (le_desk e) 20
        in if login_locked key now (ls_throttle s) then (s, Inl (Refusal 403 ''login_locked''))
           else if username \<noteq> le_username e \<or> \<not> VerifyPassword e (le_password e) password then
             (case login_fail key now (ls_throttle s) of (t1, justLocked) \<Rightarrow>
                if justLocked then
                  (s\<lparr>ls_throttle := t1, ls_mails := ls_mails s @ (if le_mail e then [(ip, now + lt_lock_dur t1)] else [])\<rparr>,
                   Inl (Refusal 403 ''login_locked''))
                else (s\<lparr>ls_throttle := t1\<rparr>, Inl (Refusal 401 ''invalid_credentials'')))
           else
             let s1 = s\<lparr>ls_throttle := login_succeed key (ls_throttle s)\<rparr> in
             (case on_gateway (run_store (EnsureAdminUser (le_username e) (dk_unix (le_desk e) 21))) s1 of
                (s2, None) \<Rightarrow> (s2, Inl (Refusal 500 ''internal''))
              | (s2, Some u) \<Rightarrow> (case on_gateway (issueSession e 22 (u_id u)) s2 of
                  (s3, None) \<Rightarrow> (s3, Inl (Refusal 500 ''internal''))
                | (s3, Some c) \<Rightarrow> (s3, Inr c))))"

section \<open>The Discord login\<close>

datatype login_failure = StateExpired | NoCode | NoToken | NoUserInfo | ServerError | NoMembership | RoleMissing

datatype redirect = ToAuthorize string | ToHome cookie | ToFailure login_failure | ToBanned bool "int option" string

definition handleDiscordLogin :: "login_env \<Rightarrow> cookie option \<times> redirect reply" where
  "handleDiscordLogin e = (case newOAuthState e (dk_now (le_desk e) 23) of
     None \<Rightarrow> (None, Inl (Refusal 500 ''internal''))
   | Some state \<Rightarrow> (Some (SetOAuthStateCookie state (le_site e)), Inr (ToAuthorize state)))"

text \<open>The account of a confirmed Discord identity; a first login registers it, when it holds the role.\<close>

definition login_account :: "login_env \<Rightarrow> string \<Rightarrow> user_info \<Rightarrow> gateway \<Rightarrow> gateway \<times> (login_failure, user) result" where
  "login_account e token info g = (case GetUserByDiscordID (ui_id info) (gw_store g) of
     Some u \<Rightarrow> (g, Inr u)
   | None \<Rightarrow>
      let guildID = GetSetting ''discord_guild_id'' (gw_store g); roleID = GetSetting ''discord_role_id'' (gw_store g) in
      case HasGuildRole e token guildID roleID of
        None \<Rightarrow> (g, Inl NoMembership)
      | Some False \<Rightarrow> (g, Inl RoleMissing)
      | Some True \<Rightarrow> (case run_store (CreateUser (ui_id info) (DisplayName info) (ui_avatar info) (dk_unix (le_desk e) 24)) g of
          (g1, None) \<Rightarrow> (g1, Inl ServerError) | (g1, Some u) \<Rightarrow> (g1, Inr u)))"

text \<open>The browser's language decides the first language of an account.\<close>

definition detect_language :: "string \<Rightarrow> string" where
  "detect_language al = (if al \<noteq> [] \<and> prefix ''zh'' (ToLower al) then ''zh'' else ''en'')"

definition refresh_account :: "login_env \<Rightarrow> user_info \<Rightarrow> user \<Rightarrow> store \<Rightarrow> store" where
  "refresh_account e info u st =
    (let st1 = (if u_username u \<noteq> DisplayName info \<or> u_avatar u \<noteq> ui_avatar info
           then UpdateUserProfile (u_id u) (DisplayName info) (ui_avatar info) (dk_unix (le_desk e) 26) st else st);
         st2 = (if u_lang u = [] then SetUserLang (u_id u) (detect_language (le_language e)) (dk_unix (le_desk e) 27) st1 else st1)
     in if CallerKeyExists (u_id u) st2 then st2
        else fst (SetCallerKey (dk_crypto (le_desk e)) (dk_unix (le_desk e) 28) (u_id u) (le_key e) st2))"

definition finish_login :: "login_env \<Rightarrow> user_info \<Rightarrow> user \<Rightarrow> gateway \<Rightarrow> gateway \<times> redirect" where
  "finish_login e info u g =
    (if IsBanned (dk_unix (le_desk e) 25) u
     then (g, ToBanned (u_disabled u) (if \<not> u_disabled u \<and> 0 < u_banned_until u then Some (u_banned_until u) else None)
             (u_ban_reason u))
     else case issueSession e 29 (u_id u) (g\<lparr>gw_store := refresh_account e info u (gw_store g)\<rparr>) of
       (g1, None) \<Rightarrow> (g1, ToFailure ServerError)
     | (g1, Some c) \<Rightarrow> (g1, ToHome c))"

definition handleDiscordCallback ::
  "login_env \<Rightarrow> (string \<times> string) list \<Rightarrow> string \<Rightarrow> string \<Rightarrow> gateway \<Rightarrow> gateway \<times> redirect" where
  "handleDiscordCallback e cookies queryState code g =
    (let cookieState = OAuthStateFromRequest cookies in
     if cookieState = [] \<or> 128 < length cookieState \<or> 128 < length queryState \<or>
        length cookieState \<noteq> length queryState \<or> cookieState \<noteq> queryState \<or>
        \<not> validOAuthState e queryState (dk_now (le_desk e) 30) then (g, ToFailure StateExpired)
     else if code = [] then (g, ToFailure NoCode)
     else case ExchangeCode e code of None \<Rightarrow> (g, ToFailure NoToken)
     | Some token \<Rightarrow> case FetchUser e token of None \<Rightarrow> (g, ToFailure NoUserInfo)
     | Some info \<Rightarrow> case login_account e token info g of
         (g1, Inl f) \<Rightarrow> (g1, ToFailure f)
       | (g1, Inr u) \<Rightarrow> finish_login e info u g1)"


section \<open>A state is accepted exactly in its window\<close>

lemma be_value_less: "be_value s < 256 ^ length s"
proof -
  have "fold (\<lambda>c n. 256 * n + of_char c) s k < (k + 1) * 256 ^ length s" for k :: nat
  proof (induction s arbitrary: k)
    case (Cons c s)
    have b: "(of_char c :: nat) < 256" by simp
    have "256 * k + of_char c + 1 \<le> (k + 1) * 256" by (insert b) presburger
    then have "(256 * k + of_char c + 1) * 256 ^ length s \<le> (k + 1) * 256 * 256 ^ length s"
      by (rule mult_le_mono1)
    with Cons [of "256 * k + of_char c"]
    have "fold (\<lambda>c n. 256 * n + of_char c) s (256 * k + of_char c) < (k + 1) * 256 * 256 ^ length s"
      by (rule order.strict_trans2)
    then show ?case by (simp add: mult.assoc distrib_right)
  qed simp
  from this [of 0] show ?thesis by (simp add: be_value_def)
qed

lemma be_bytes_value: "length s = k \<Longrightarrow> be_bytes k (be_value s) = s"
proof (induction s arbitrary: k rule: rev_induct)
  case (snoc c s)
  have v: "be_value (s @ [c]) = 256 * be_value s + of_char c" by (simp add: be_value_def)
  have "(256 * be_value s + of_char c) div 256 = be_value s" using nat_of_char_less_256 [of c] by simp
  then show ?case using snoc nat_of_char_less_256 [of c] by (cases k) (auto simp: v)
qed simp

lemma PutUint64_Int64: "length s = 8 \<Longrightarrow> PutUint64 (Int64 s) = s"
proof -
  assume s: "length s = 8"
  have "be_value s < 2 ^ 64" using be_value_less [of s] s by simp
  then have "unat (of_nat (be_value s) :: 64 word) = be_value s"
    by (simp add: unat_of_nat take_bit_nat_eq_self)
  then show ?thesis using s by (simp add: PutUint64_def Int64_def be_bytes_value del: be_bytes.simps)
qed

lemma Int64_range: "- (2 ^ 63) \<le> Int64 s" "Int64 s < 2 ^ 63"
  using sint_greater_eq [of "of_nat (be_value s) :: 64 word"] sint_less [of "of_nat (be_value s) :: 64 word"]
  by (simp_all add: Int64_def)

definition in_window :: "int \<Rightarrow> int \<Rightarrow> bool" where
  "in_window t now \<longleftrightarrow> t * second \<le> now + 60 * second \<and> now \<le> t * second + oauthStateTTL"

definition signed_state :: "login_env \<Rightarrow> int \<Rightarrow> string \<Rightarrow> string" where
  "signed_state e t nonce = (let payload = PutUint64 t @ nonce in payload @ state_mac e payload)"

lemma valid_raw:
  assumes "length t8 = 8" "length nonce = 16" "length mac = 32" "DecodeString s = Some (t8 @ nonce @ mac)"
  shows "validOAuthState e s now \<longleftrightarrow> length s \<le> 128 \<and> mac = state_mac e (t8 @ nonce) \<and> in_window (Int64 t8) now"
  using assms by (auto simp: validOAuthState_def in_window_def Let_def)

lemma valid_splits:
  assumes "validOAuthState e s now"
  obtains t8 nonce mac where "length t8 = 8" "length nonce = 16" "length mac = 32"
    "DecodeString s = Some (t8 @ nonce @ mac)"
proof -
  obtain raw where raw: "DecodeString s = Some raw" "length raw = 56"
    using assms by (auto simp: validOAuthState_def split: if_split_asm option.splits)
  have "take 16 (drop 8 raw) @ drop 16 (drop 8 raw) = drop 8 raw" "take 8 raw @ drop 8 raw = raw"
    by (rule append_take_drop_id)+
  then have "raw = take 8 raw @ take 16 (drop 8 raw) @ drop 24 raw" by simp
  then show thesis using raw that [of "take 8 raw" "take 16 (drop 8 raw)" "drop 24 raw"] by simp
qed

definition int64 :: "int \<Rightarrow> bool" where "int64 t \<longleftrightarrow> - (2 ^ 63) \<le> t \<and> t < 2 ^ 63"

lemma valid_signed:
  assumes "\<And>p. length (state_mac e p) = 32" "int64 t" "length nonce = 16" "DecodeString s = Some (signed_state e t nonce)"
  shows "validOAuthState e s now \<longleftrightarrow> length s \<le> 128 \<and> in_window t now"
  using valid_raw [of "PutUint64 t" nonce "state_mac e (PutUint64 t @ nonce)" s e now] assms Int64_PutUint64 [of t]
  by (simp add: signed_state_def Let_def int64_def)

lemma valid_iff:
  assumes "\<And>p. length (state_mac e p) = 32"
  shows "validOAuthState e s now \<longleftrightarrow> length s \<le> 128 \<and> (\<exists>t nonce. int64 t \<and> length nonce = 16 \<and>
      DecodeString s = Some (signed_state e t nonce) \<and> in_window t now)"
proof
  assume v: "validOAuthState e s now"
  obtain t8 nonce mac where r: "length t8 = 8" "length nonce = 16" "length mac = 32"
    "DecodeString s = Some (t8 @ nonce @ mac)" by (rule valid_splits [OF v])
  have "mac = state_mac e (t8 @ nonce)" "in_window (Int64 t8) now" "length s \<le> 128"
    using v valid_raw [OF r] by simp_all
  moreover have "PutUint64 (Int64 t8) = t8" "int64 (Int64 t8)"
    using PutUint64_Int64 [OF r(1)] Int64_range by (simp_all add: int64_def)
  ultimately show "length s \<le> 128 \<and> (\<exists>t nonce. int64 t \<and> length nonce = 16 \<and>
      DecodeString s = Some (signed_state e t nonce) \<and> in_window t now)"
    using r(2,4) by (intro conjI exI [of _ "Int64 t8"] exI [of _ nonce]) (simp_all add: signed_state_def Let_def)
next
  assume "length s \<le> 128 \<and> (\<exists>t nonce. int64 t \<and> length nonce = 16 \<and>
      DecodeString s = Some (signed_state e t nonce) \<and> in_window t now)"
  then show "validOAuthState e s now" using valid_signed [OF assms] by blast
qed

section \<open>Who gets a session\<close>

lemma issueSession_sessions:
  assumes "issueSession e k i g = (g1, r)"
  shows "sessions (gw_store g1) = sessions (gw_store g) \<and> r = None \<or>
    user_row i (gw_store g) \<noteq> None \<and> sessions (gw_store g1) = sessions (gw_store g) @
      [\<lparr>s_id = le_session e, s_user_id = i, s_expires_at = unix (dk_now (le_desk e) k + SessionTTL * second),
        s_created_at = unix (dk_now (le_desk e) k)\<rparr>]"
  using assms by (auto simp: issueSession_def run_store_def CreateSession_def split: if_split_asm)

lemma issueSession_users: "users (gw_store (fst (issueSession e k i g))) = users (gw_store g)"
  by (simp add: issueSession_def run_store_def CreateSession_def)

lemma refresh_sessions: "sessions (refresh_account e info u st) = sessions st"
  by (simp add: refresh_account_def UpdateUserProfile_def SetUserLang_def SetCallerKey_def update_user_def Let_def
      split: option.split)

lemma CreateUser_sessions: "sessions (fst (CreateUser d n a now st)) = sessions st"
  by (simp add: CreateUser_def recordNewUserTx_def insert_user_def update_open_day_def ensureOpenSiteDayTx_def Let_def)

definition new_session :: "login_env \<Rightarrow> nat \<Rightarrow> int \<Rightarrow> session" where
  "new_session e k i = \<lparr>s_id = le_session e, s_user_id = i,
     s_expires_at = unix (dk_now (le_desk e) k + SessionTTL * second), s_created_at = unix (dk_now (le_desk e) k)\<rparr>"

lemma issueSession_new: "issueSession e k i g = (g1, r) \<Longrightarrow> sessions (gw_store g1) \<noteq> sessions (gw_store g) \<Longrightarrow>
   sessions (gw_store g1) = sessions (gw_store g) @ [new_session e k i] \<and> user_row i (gw_store g) \<noteq> None"
  using issueSession_sessions [of e k i g g1 r] by (auto simp: new_session_def)

text \<open>The identity that a callback has confirmed.\<close>

definition confirmed :: "login_env \<Rightarrow> (string \<times> string) list \<Rightarrow> string \<Rightarrow> string \<Rightarrow> (string \<times> user_info) option" where
  "confirmed e cookies state code =
    (if OAuthStateFromRequest cookies = state \<and> validOAuthState e state (dk_now (le_desk e) 30) \<and> code \<noteq> []
     then Option.bind (ExchangeCode e code) (\<lambda>token. map_option (\<lambda>info. (token, info)) (FetchUser e token))
     else None)"

lemma valid_nonempty: "validOAuthState e s now \<Longrightarrow> s \<noteq> [] \<and> length s \<le> 128"
  by (auto simp: validOAuthState_def DecodeString_def split: if_split_asm)

lemma callback_confirmed:
  "(\<exists>f. handleDiscordCallback e cookies state code g = (g, ToFailure f) \<and> confirmed e cookies state code = None) \<or>
   (\<exists>token info. confirmed e cookies state code = Some (token, info) \<and>
      handleDiscordCallback e cookies state code g = (case login_account e token info g of
         (g1, Inl f) \<Rightarrow> (g1, ToFailure f) | (g1, Inr u) \<Rightarrow> finish_login e info u g1))"
  using valid_nonempty [of e state "dk_now (le_desk e) 30"]
  by (auto simp: handleDiscordCallback_def confirmed_def Let_def split: option.split)

text \<open>Whose account a confirmed identity is: the one it had, or the one registered for it because it holds
  the role.\<close>

definition account_of :: "login_env \<Rightarrow> string \<Rightarrow> user_info \<Rightarrow> store \<Rightarrow> user \<Rightarrow> bool" where
  "account_of e token info st u \<longleftrightarrow> GetUserByDiscordID (ui_id info) st = Some u \<or>
     GetUserByDiscordID (ui_id info) st = None \<and>
     HasGuildRole e token (GetSetting ''discord_guild_id'' st) (GetSetting ''discord_role_id'' st) = Some True \<and>
     snd (CreateUser (ui_id info) (DisplayName info) (ui_avatar info) (dk_unix (le_desk e) 24) st) = Some u"

lemma run_store_sessions: "(\<And>st. sessions (fst (f st)) = sessions st) \<Longrightarrow>
   sessions (gw_store (fst (run_store f g))) = sessions (gw_store g)"
  by (simp add: run_store_def case_prod_beta)

lemma login_account_cases:
  assumes "login_account e token info g = (g1, r)"
  shows "sessions (gw_store g1) = sessions (gw_store g) \<and> (\<forall>u. r = Inr u \<longrightarrow> account_of e token info (gw_store g) u)"
proof -
  have c: "sessions (gw_store (fst (run_store (CreateUser d n a now) g))) = sessions (gw_store g)" for d n a now
    by (rule run_store_sessions) (rule CreateUser_sessions)
  show ?thesis
    using assms c [of "ui_id info" "DisplayName info" "ui_avatar info" "dk_unix (le_desk e) 24"]
    by (auto simp: login_account_def account_of_def Let_def run_store_def
        split: option.splits if_split_asm bool.splits prod.splits)
qed

lemma finish_login_cases:
  assumes "finish_login e info u g = (g1, out)" "sessions (gw_store g1) \<noteq> sessions (gw_store g)"
  shows "\<not> IsBanned (dk_unix (le_desk e) 25) u \<and>
     sessions (gw_store g1) = sessions (gw_store g) @ [new_session e 29 (u_id u)]"
proof -
  let ?g = "g\<lparr>gw_store := refresh_account e info u (gw_store g)\<rparr>"
  have b: "\<not> IsBanned (dk_unix (le_desk e) 25) u" using assms by (auto simp: finish_login_def)
  obtain r where r: "issueSession e 29 (u_id u) ?g = (g1, r)"
    using assms(1) b by (auto simp: finish_login_def split: prod.splits option.splits)
  have same: "sessions (gw_store ?g) = sessions (gw_store g)" by (simp add: refresh_sessions)
  show ?thesis using issueSession_new [OF r] assms(2) b same by simp
qed

lemma callback_session:
  assumes "handleDiscordCallback e cookies state code g = (g1, out)"
    "sessions (gw_store g1) \<noteq> sessions (gw_store g)"
  shows "\<exists>token info u. confirmed e cookies state code = Some (token, info) \<and>
     account_of e token info (gw_store g) u \<and> \<not> IsBanned (dk_unix (le_desk e) 25) u \<and>
     sessions (gw_store g1) = sessions (gw_store g) @ [new_session e 29 (u_id u)]"
proof -
  obtain token info where c: "confirmed e cookies state code = Some (token, info)"
    and h: "(case login_account e token info g of
         (g1, Inl f) \<Rightarrow> (g1, ToFailure f) | (g1, Inr u) \<Rightarrow> finish_login e info u g1) = (g1, out)"
    using callback_confirmed [of e cookies state code g] assms by auto
  obtain g0 r where r: "login_account e token info g = (g0, r)" by fastforce
  have same: "sessions (gw_store g0) = sessions (gw_store g)" "\<And>u. r = Inr u \<Longrightarrow> account_of e token info (gw_store g) u"
    using login_account_cases [OF r] by simp_all
  then obtain u where u: "r = Inr u" "finish_login e info u g0 = (g1, out)"
    using h r assms(2) by (cases r) auto
  show ?thesis using finish_login_cases [OF u(2)] assms(2) same c u(1) by auto
qed

text \<open>Who passes the password login.\<close>

definition admitted :: "login_env \<Rightarrow> string \<Rightarrow> string \<Rightarrow> (string \<times> string) option \<Rightarrow> login_state \<Rightarrow> bool" where
  "admitted e verb ip body s \<longleftrightarrow> verb = ''POST'' \<and> (\<exists>name password. body = Some (name, password) \<and>
     take maxLoginUsernameLen name = le_username e \<and> VerifyPassword e (le_password e) password \<and>
     \<not> login_locked (ip @ ''|'' @ le_username e) (dk_now (le_desk e) 20) (ls_throttle s))"

lemma EnsureAdminUser_admin: "EnsureAdminUser name now st = (st1, Some u) \<Longrightarrow>
    GetUserByDiscordID AdminDiscordID st = None \<or> u_is_admin u \<and> u_discord_id u = AdminDiscordID"
  by (auto simp: EnsureAdminUser_def Let_def GetUserByDiscordID_def split: option.splits if_split_asm dest: by_key_SomeD)

lemma EnsureAdminUser_sessions: "sessions (fst (EnsureAdminUser name now st)) = sessions st"
  by (simp add: EnsureAdminUser_def insert_user_def update_user_def Let_def split: option.split)

lemma admin_session:
  assumes "handleAdminLogin e verb ip body s = (s1, out)"
    "sessions (gw_store (ls_gateway s1)) \<noteq> sessions (gw_store (ls_gateway s))"
  shows "admitted e verb ip body s \<and>
     (\<exists>u. snd (EnsureAdminUser (le_username e) (dk_unix (le_desk e) 21) (gw_store (ls_gateway s))) = Some u \<and>
       sessions (gw_store (ls_gateway s1)) = sessions (gw_store (ls_gateway s)) @ [new_session e 22 (u_id u)])"
proof -
  let ?st = "gw_store (ls_gateway s)"
  obtain name password where b: "verb = ''POST''" "body = Some (name, password)"
    using assms by (auto simp: handleAdminLogin_def split: if_split_asm option.splits)
  have ok: "admitted e verb ip body s"
    using assms b by (auto simp: handleAdminLogin_def admitted_def Let_def split: if_split_asm prod.splits)
  have n: "take maxLoginUsernameLen name = le_username e" "VerifyPassword e (le_password e) password"
    "\<not> login_locked (ip @ ''|'' @ le_username e) (dk_now (le_desk e) 20) (ls_throttle s)"
    using ok b by (auto simp: admitted_def)
  obtain st1 r where r: "EnsureAdminUser (le_username e) (dk_unix (le_desk e) 21) ?st = (st1, r)" by fastforce
  have same: "sessions st1 = sessions ?st" using EnsureAdminUser_sessions [of "le_username e" "dk_unix (le_desk e) 21" ?st] r by simp
  obtain u where u: "r = Some u" using assms b n r same
    by (cases r) (auto simp: handleAdminLogin_def on_gateway_def run_store_def Let_def)
  obtain g2 c where c: "issueSession e 22 (u_id u) (ls_gateway s\<lparr>gw_store := st1\<rparr>) = (g2, c)" by fastforce
  have "ls_gateway s1 = g2" using assms(1) b n r u c
    by (auto simp: handleAdminLogin_def on_gateway_def run_store_def Let_def split: option.splits)
  then show ?thesis using issueSession_new [OF c] assms(2) same ok r u by auto
qed

section \<open>Properties\<close>

text \<open>C33: The state of a Discord login. A state is accepted exactly when it has at most 128 bytes and decodes
  to an issue time, a nonce and the MAC of both under the server's key, and the time is not more than a
  minute ahead and not more than ten minutes old. A state made by the server is therefore accepted from a
  minute before the second it was issued until ten minutes after it, and at no other time.\<close>

theorem oauth_state_exact:
  assumes "\<And>key m. length (le_hmac e key m) = 32"
  shows "(validOAuthState e s now \<longleftrightarrow> length s \<le> 128 \<and> (\<exists>t nonce. int64 t \<and> length nonce = 16 \<and>
       DecodeString s = Some (PutUint64 t @ nonce @ le_hmac e (oauthStateKey e) (PutUint64 t @ nonce)) \<and>
       t * second \<le> now + 60 * second \<and> now \<le> t * second + 600 * second)) \<and>
    (le_random e = Some r \<longrightarrow> length r = 16 \<longrightarrow> int64 (unix issued) \<longrightarrow>
       (\<exists>fresh. newOAuthState e issued = Some fresh \<and>
         (validOAuthState e fresh now \<longleftrightarrow>
           unix issued * second \<le> now + 60 * second \<and> now \<le> unix issued * second + 600 * second)))"
proof -
  have mac: "length (state_mac e p) = 32" for p by (simp add: state_mac_def assms)
  have fresh: "\<exists>fresh. newOAuthState e issued = Some fresh \<and>
      (validOAuthState e fresh now \<longleftrightarrow> in_window (unix issued) now)"
    if r: "le_random e = Some r" "length r = 16" "int64 (unix issued)"
  proof -
    let ?raw = "signed_state e (unix issued) r"
    have "length (EncodeToString ?raw) \<le> 128"
      by (simp add: EncodeToString_length signed_state_def Let_def mac r(2))
    moreover have "newOAuthState e issued = Some (EncodeToString ?raw)"
      by (simp add: newOAuthState_def r(1) signed_state_def Let_def)
    ultimately show ?thesis
      using valid_signed [OF mac r(3,2), of "EncodeToString ?raw" now] by (simp add: base64_decode_encode)
  qed
  show ?thesis
    using valid_iff [OF mac, of s now] fresh
    by (simp add: signed_state_def Let_def state_mac_def in_window_def oauthStateTTL_def)
qed

lemma EnsureAdminUser_some: "\<exists>u. snd (EnsureAdminUser name now st) = Some u \<and>
    user_row (u_id u) (fst (EnsureAdminUser name now st)) \<noteq> None"
proof (cases "GetUserByDiscordID AdminDiscordID st")
  case None
  let ?n = "new_user (user_seq st + 1) AdminDiscordID name '''' True now"
  have "u_id ?n = user_seq st + 1" by (simp add: new_user_def)
  then have "user_row (user_seq st + 1) (insert_user ?n st) \<noteq> None"
    by (simp add: by_key_None insert_user_def del: by_key_append)
  then obtain u where "user_row (user_seq st + 1) (insert_user ?n st) = Some u" by blast
  moreover from this have "u_id u = user_seq st + 1" by (auto dest: by_key_SomeD)
  ultimately show ?thesis using None by (simp add: EnsureAdminUser_def GetUserByID_def Let_def)
next
  case (Some u)
  then have "u \<in> set (users st)" by (auto simp: GetUserByDiscordID_def dest: by_key_SomeD)
  moreover have "map u_id (users (fst (EnsureAdminUser name now st))) = map u_id (users st)"
    using Some by (simp add: EnsureAdminUser_def update_user_def map_update_where)
  then have "u_id ` set (users (fst (EnsureAdminUser name now st))) = u_id ` set (users st)" by (metis set_map)
  moreover have "\<exists>v. snd (EnsureAdminUser name now st) = Some v \<and> u_id v = u_id u"
    using Some by (simp add: EnsureAdminUser_def)
  ultimately show ?thesis by (metis by_key_None image_eqI)
qed

lemma admin_login_succeeds:
  assumes "admitted e verb ip body s" "by_key s_id (le_session e) (sessions (gw_store (ls_gateway s))) = None"
  shows "\<exists>c. snd (handleAdminLogin e verb ip body s) = Inr c"
proof -
  let ?st = "gw_store (ls_gateway s)"
  obtain st1 u where u: "EnsureAdminUser (le_username e) (dk_unix (le_desk e) 21) ?st = (st1, Some u)"
    "user_row (u_id u) st1 \<noteq> None"
    using EnsureAdminUser_some [of "le_username e" "dk_unix (le_desk e) 21" ?st] by (metis prod.collapse fst_conv snd_conv)
  have same: "sessions st1 = sessions ?st" using EnsureAdminUser_sessions [of "le_username e" "dk_unix (le_desk e) 21" ?st] u by simp
  then have "\<exists>g2 c. issueSession e 22 (u_id u) (ls_gateway s\<lparr>gw_store := st1\<rparr>) = (g2, Some c)"
    using assms(2) u(2) by (auto simp: issueSession_def run_store_def CreateSession_def)
  then obtain g2 c where c: "issueSession e 22 (u_id u) (ls_gateway s\<lparr>gw_store := st1\<rparr>) = (g2, Some c)" by blast
  show ?thesis using assms(1) u c
    by (auto simp: admitted_def handleAdminLogin_def on_gateway_def run_store_def Let_def)
qed

text \<open>C34: Who gets a session. The password login opens one, for the administrator's row, only for the
  configured name and password while the address and name are not locked, and then it does; a Discord
  callback opens one only when the state of the cookie and of the query agree and are valid, Discord has
  confirmed the identity, the account is that identity's, or registered for it because it holds the role,
  and it is not banned. Nothing else about the session table changes.\<close>

theorem login_sessions:
  "(sessions (gw_store (ls_gateway (fst (handleAdminLogin e verb ip body s)))) = sessions (gw_store (ls_gateway s)) \<or>
     admitted e verb ip body s \<and>
     (\<exists>u. snd (EnsureAdminUser (le_username e) (dk_unix (le_desk e) 21) (gw_store (ls_gateway s))) = Some u \<and>
       sessions (gw_store (ls_gateway (fst (handleAdminLogin e verb ip body s)))) =
         sessions (gw_store (ls_gateway s)) @ [new_session e 22 (u_id u)])) \<and>
   (admitted e verb ip body s \<longrightarrow> by_key s_id (le_session e) (sessions (gw_store (ls_gateway s))) = None \<longrightarrow>
     (\<exists>c. snd (handleAdminLogin e verb ip body s) = Inr c)) \<and>
   (sessions (gw_store (fst (handleDiscordCallback e cookies state code g))) = sessions (gw_store g) \<or>
     (\<exists>token info u. confirmed e cookies state code = Some (token, info) \<and>
       account_of e token info (gw_store g) u \<and> \<not> IsBanned (dk_unix (le_desk e) 25) u \<and>
       sessions (gw_store (fst (handleDiscordCallback e cookies state code g))) =
         sessions (gw_store g) @ [new_session e 29 (u_id u)]))"
proof -
  obtain s1 out where a: "handleAdminLogin e verb ip body s = (s1, out)" by fastforce
  obtain g1 red where c: "handleDiscordCallback e cookies state code g = (g1, red)" by fastforce
  show ?thesis
    using admin_session [OF a] callback_session [OF c] admin_login_succeeds [of e verb ip body s]
    unfolding a c fst_conv snd_conv by blast
qed

text \<open>The administrator of an empty gateway logs in.\<close>

definition sample_login_env :: login_env where
  "sample_login_env = \<lparr>le_desk = sample_desk_env, le_username = ''root'', le_password = ''pw'',
     le_client_secret = ''cs'', le_site = ''https://a.b'', le_sha256 = (\<lambda>s. s),
     le_hmac = (\<lambda>k m. replicate 32 CHR ''m''), le_random = Some (replicate 16 CHR ''r''),
     le_bcrypt = (\<lambda>s c. False), le_token = (\<lambda>c. Unreachable []), le_user = (\<lambda>t. Unreachable []),
     le_member = (\<lambda>g t. Unreachable []), le_session = ''s1'', le_key = ''k1'', le_language = [], le_mail = True\<rparr>"

definition sample_login_state :: login_state where
  "sample_login_state = \<lparr>ls_gateway = sample_desk,
     ls_throttle = \<lparr>lt_fails = [], lt_max_failures = 1, lt_window = 5, lt_lock_dur = 30\<rparr>, ls_mails = []\<rparr>"

theorem login_sessions_witness:
  "\<exists>c. snd (handleAdminLogin sample_login_env ''POST'' ''ip'' (Some (''root'', ''pw'')) sample_login_state) = Inr c"
proof -
  have "admitted sample_login_env ''POST'' ''ip'' (Some (''root'', ''pw'')) sample_login_state"
    by (simp add: admitted_def sample_login_env_def sample_login_state_def VerifyPassword_def login_locked_def
        maxLoginUsernameLen_def)
  moreover have "by_key s_id (le_session sample_login_env) (sessions (gw_store (ls_gateway sample_login_state))) = None"
    by (simp add: sample_login_env_def sample_login_state_def sample_desk_def by_key_def)
  ultimately show ?thesis using login_sessions by blast
qed

theorem oauth_state_exact_witness:
  "\<exists>fresh. newOAuthState sample_login_env 0 = Some fresh \<and> validOAuthState sample_login_env fresh (600 * second) \<and>
     \<not> validOAuthState sample_login_env fresh (600 * second + 1)"
proof -
  have "length (le_hmac sample_login_env key m) = 32" for key m by (simp add: sample_login_env_def)
  moreover have "le_random sample_login_env = Some (replicate 16 CHR ''r'')" "int64 (unix 0)"
    by (simp_all add: sample_login_env_def int64_def unix_def)
  ultimately obtain fresh where "newOAuthState sample_login_env 0 = Some fresh"
    and "\<And>now. validOAuthState sample_login_env fresh now \<longleftrightarrow> unix 0 * second \<le> now + 60 * second \<and> now \<le> unix 0 * second + 600 * second"
    using oauth_state_exact [of sample_login_env _ _ "replicate 16 CHR ''r''" 0] by (metis length_replicate option.inject)
  then show ?thesis by (auto simp: unix_def second_def)
qed

end
