(* ===== verification/Admin.thy ===== *)
theory Admin
  imports Desk Games
begin

text \<open>
  The administrator's endpoints of \<^verbatim>\<open>handler/admin.go\<close> and \<^verbatim>\<open>handler/admin_games.go\<close>: accounts, bans,
  limits, balances, levels, the settings, the anti-abuse table and the economy of the mini-games. All are
  guarded by \<open>adminGuard\<close> of \<open>Desk\<close>; bodies are decoded records with \<open>None\<close> for a field that was not sent.
  The clock points 14 to 19 are those of \<open>Desk\<close>.
\<close>

section \<open>Accounts\<close>

definition admin_only ::
  "desk_env \<Rightarrow> string \<Rightarrow> (gateway \<Rightarrow> gateway \<times> 'a reply) \<Rightarrow> gateway \<Rightarrow> gateway \<times> 'a reply" where
  "admin_only e token serve g = guarded (adminGuard e token g) (\<lambda>_. serve)"

text \<open>The account an endpoint is about: it exists and is not the administrator's.\<close>

definition admin_target :: "string \<Rightarrow> store \<Rightarrow> (refusal, int) result" where
  "admin_target path st = (case Atoi path of None \<Rightarrow> Inl (Refusal 400 ''invalid_request'')
   | Some i \<Rightarrow> (case GetUserByID i st of None \<Rightarrow> Inl (Refusal 404 ''not_found'')
     | Some u \<Rightarrow> if u_is_admin u then Inl (Refusal 404 ''not_found'') else Inr i))"

definition on_target ::
  "desk_env \<Rightarrow> string \<Rightarrow> string \<Rightarrow> (int \<Rightarrow> gateway \<Rightarrow> gateway \<times> 'a reply) \<Rightarrow> gateway \<Rightarrow> gateway \<times> 'a reply" where
  "on_target e token path serve = admin_only e token (\<lambda>g. case admin_target path (gw_store g) of
     Inl r \<Rightarrow> (g, Inl r) | Inr i \<Rightarrow> serve i g)"

definition put_store :: "(store \<Rightarrow> store) \<Rightarrow> gateway \<Rightarrow> gateway \<times> unit reply" where
  "put_store f g = (g\<lparr>gw_store := f (gw_store g)\<rparr>, Inr ())"

record ban_body =
  bb_until :: int
  bb_permanent :: bool
  bb_reason :: string

definition handleAdminBanUser ::
  "desk_env \<Rightarrow> string \<Rightarrow> string \<Rightarrow> ban_body option \<Rightarrow> gateway \<Rightarrow> gateway \<times> unit reply" where
  "handleAdminBanUser e token path body = on_target e token path (\<lambda>i g.
     case body of None \<Rightarrow> bad_request g | Some b \<Rightarrow>
     if bb_permanent b
     then put_store (\<lambda>st. DeleteUserSessions i (setUserDisabledAt i True (bb_reason b) (dk_unix e 15) st)) g
     else if bb_until b \<le> dk_unix e 14 then bad_request g
     else put_store (\<lambda>st. DeleteUserSessions i (BanUser i (bb_until b) (bb_reason b) (dk_unix e 15) st)) g)"

definition handleAdminDeleteUser :: "desk_env \<Rightarrow> string \<Rightarrow> string \<Rightarrow> gateway \<Rightarrow> gateway \<times> unit reply" where
  "handleAdminDeleteUser e token path = on_target e token path (\<lambda>i g.
     case run_store (deleteUserAt i (dk_unix e 15)) g of (g1, Inl _) \<Rightarrow> internal g1 | (g1, Inr _) \<Rightarrow> (g1, Inr ()))"

text \<open>The listing shows each member with the ban in force and the effective level.\<close>

definition handleAdminListUsers ::
  "desk_env \<Rightarrow> string \<Rightarrow> gateway \<Rightarrow> gateway \<times> (user \<times> bool \<times> int \<times> bool) list reply" where
  "handleAdminListUsers e token = admin_only e token (\<lambda>g.
     (g, Inr (map (\<lambda>u. (u, IsBanned (dk_unix e 15) u, GetUserLevel (Some u) (LevelThresholds (gw_store g))))
          (ListUsers (gw_store g)))))"

text \<open>The new key is not part of the answer.\<close>

definition handleAdminResetUserKey :: "desk_env \<Rightarrow> string \<Rightarrow> string \<Rightarrow> string \<Rightarrow> gateway \<Rightarrow> gateway \<times> unit reply" where
  "handleAdminResetUserKey e key token path = on_target e token path (\<lambda>i g.
     case run_store (SetCallerKey (dk_crypto e) (dk_unix e 15) i key) g of
       (g1, None) \<Rightarrow> internal g1 | (g1, Some _) \<Rightarrow> (g1, Inr ()))"

definition handleAdminUnbanUser :: "desk_env \<Rightarrow> string \<Rightarrow> string \<Rightarrow> gateway \<Rightarrow> gateway \<times> unit reply" where
  "handleAdminUnbanUser e token path = on_target e token path (\<lambda>i. put_store (unbanUserAt i (dk_unix e 15)))"

text \<open>The cached limits of the user are dropped after the write.\<close>

definition handleAdminSetUserRPM ::
  "desk_env \<Rightarrow> string \<Rightarrow> string \<Rightarrow> (int option \<times> int option \<times> int option) option \<Rightarrow> gateway \<Rightarrow> gateway \<times> unit reply" where
  "handleAdminSetUserRPM e token path body = on_target e token path (\<lambda>i g.
     case body of None \<Rightarrow> bad_request g | Some (a, b, c) \<Rightarrow>
     if list_ex (sent (\<lambda>v. v < 1)) [a, b, c] then bad_request g
     else case put_store (SetUserRPMLimits i a b c (dk_unix e 15)) g of (g1, r) \<Rightarrow> (invalidateRPMCache i g1, r))"

text \<open>The level field has to be sent: an integer from 1 to 5, or null for the automatic level.\<close>

datatype level_field = LevelMissing | LevelNull | LevelInt int | LevelOther

definition parse_level :: "level_field \<Rightarrow> int option option" where
  "parse_level f = (case f of LevelNull \<Rightarrow> Some None
     | LevelInt v \<Rightarrow> if v < 1 \<or> 5 < v then None else Some (Some v) | _ \<Rightarrow> None)"

definition handleAdminSetUserLevel ::
  "desk_env \<Rightarrow> string \<Rightarrow> string \<Rightarrow> level_field option \<Rightarrow> gateway \<Rightarrow> gateway \<times> unit reply" where
  "handleAdminSetUserLevel e token path body = on_target e token path (\<lambda>i g.
     case Option.bind body parse_level of None \<Rightarrow> bad_request g
     | Some level \<Rightarrow> put_store (SetUserLevel i level (dk_unix e 15)) g)"

text \<open>The two batch edits of balances differ in the column.\<close>

definition batch_balance ::
  "string \<Rightarrow> desk_env \<Rightarrow> string \<Rightarrow> (int list \<times> string \<times> int) option \<Rightarrow> gateway \<Rightarrow> gateway \<times> int reply" where
  "batch_balance field e token body = admin_only e token (\<lambda>g.
     case body of None \<Rightarrow> bad_request g | Some (ids, action, amount) \<Rightarrow>
     if amount < 0 then bad_request g
     else if ids = [] then bad_request g
     else if action \<noteq> ''set'' \<and> action \<noteq> ''add'' \<and> action \<noteq> ''sub'' then bad_request g
     else case run_store (BatchUpdateUserBalance ids field action amount (dk_unix e 15)) g of
       (g1, Inl _) \<Rightarrow> internal g1 | (g1, Inr n) \<Rightarrow> (g1, Inr n))"

definition handleAdminBatchCredits ::
  "desk_env \<Rightarrow> string \<Rightarrow> (int list \<times> string \<times> int) option \<Rightarrow> gateway \<Rightarrow> gateway \<times> int reply" where
  "handleAdminBatchCredits = batch_balance ''credits''"

definition handleAdminBatchDonationCredit ::
  "desk_env \<Rightarrow> string \<Rightarrow> (int list \<times> string \<times> int) option \<Rightarrow> gateway \<Rightarrow> gateway \<times> int reply" where
  "handleAdminBatchDonationCredit = batch_balance ''donation_credit''"

section \<open>Settings\<close>

definition boolStr :: "bool \<Rightarrow> string" where "boolStr v = (if v then ''true'' else ''false'')"

text \<open>Integer fields with their keys and least value; the first one below it refuses the request.\<close>

fun int_updates :: "int \<Rightarrow> (int option \<times> string) list \<Rightarrow> (string \<times> string) list option" where
  "int_updates least [] = Some []"
| "int_updates least ((None, k) # r) = int_updates least r"
| "int_updates least ((Some v, k) # r) =
     (if v < least then None else map_option (\<lambda>us. (k, Itoa v) # us) (int_updates least r))"

definition text_updates :: "(string option \<times> string) list \<Rightarrow> (string \<times> string) list" where
  "text_updates fs = List.map_filter (\<lambda>(v, k). map_option (Pair k) v) fs"

record settings_body =
  sb_guild :: "string option"
  sb_role :: "string option"
  sb_limits :: "int option list"
  sb_checkin :: "int option list"
  sb_credits_cap :: "int option"
  sb_review_limit :: "int option"
  sb_donation :: "bool option"
  sb_charity :: "bool option"
  sb_maintenance :: "bool option"

text \<open>\<open>sb_limits\<close> are \<^verbatim>\<open>rpm_limit_a\<close> to \<^verbatim>\<open>probe_limit_per_user\<close>, \<open>sb_checkin\<close> \<^verbatim>\<open>checkin_min\<close>,
  \<^verbatim>\<open>checkin_max\<close>, \<^verbatim>\<open>donation_fail_limit\<close> and \<^verbatim>\<open>mailer_cool_minutes\<close>.\<close>

definition limit_keys :: "string list" where
  "limit_keys = [''rpm_limit_a'', ''rpm_limit_b'', ''rpm_limit_c'', ''rpm_violation_limit'', ''rpm_ban_hours'',
     ''probe_limit_per_user'']"

definition checkin_keys :: "string list" where
  "checkin_keys = [''checkin_min'', ''checkin_max'', ''donation_fail_limit'', ''mailer_cool_minutes'']"

definition settings_updates :: "settings_body \<Rightarrow> (string \<times> string) list option" where
  "settings_updates b =
    (case int_updates 1 (zip (sb_limits b) limit_keys) of None \<Rightarrow> None | Some limits \<Rightarrow>
     case int_updates 1 (zip (sb_checkin b) checkin_keys) of None \<Rightarrow> None | Some checkin \<Rightarrow>
     case int_updates 0 [(sb_credits_cap b, ''credits_cap'')] of None \<Rightarrow> None | Some cap \<Rightarrow>
     case int_updates 0 [(sb_review_limit b, ''donation_review_limit'')] of None \<Rightarrow> None | Some review \<Rightarrow>
     Some (text_updates [(sb_guild b, ''discord_guild_id''), (sb_role b, ''discord_role_id'')] @
       limits @ checkin @ cap @ review @
       text_updates [(map_option boolStr (sb_donation b), ''donation_enabled''),
         (map_option boolStr (sb_charity b), ''charity_enabled''),
         (map_option boolStr (sb_maintenance b), ''maintenance_mode'')]))"

text \<open>One transaction writes all, then the cached limits of everyone are dropped.\<close>

definition handleAdminPutSettings ::
  "desk_env \<Rightarrow> string \<Rightarrow> settings_body option \<Rightarrow> gateway \<Rightarrow> gateway \<times> unit reply" where
  "handleAdminPutSettings e token body = admin_only e token (\<lambda>g.
     case Option.bind body settings_updates of None \<Rightarrow> bad_request g
     | Some us \<Rightarrow> (case put_store (SetSettings us) g of (g1, r) \<Rightarrow> (invalidateRPMCache 0 g1, r)))"

definition handleAdminGetSettings ::
  "desk_env \<Rightarrow> string \<Rightarrow> gateway \<Rightarrow> gateway \<times> ((string \<times> string) list \<times> (string \<times> int) list \<times> (string \<times> bool) list) reply" where
  "handleAdminGetSettings e token = admin_only e token (\<lambda>g. let st = gw_store g in
     (g, Inr ([(''guild_id'', GetSetting ''discord_guild_id'' st), (''role_id'', GetSetting ''discord_role_id'' st)],
       map (\<lambda>(k, d). (k, GetSettingInt k d st)) [(''rpm_limit_a'', 6), (''rpm_limit_b'', 12), (''rpm_limit_c'', 18),
         (''rpm_violation_limit'', 5), (''rpm_ban_hours'', 24), (''probe_limit_per_user'', 5), (''checkin_min'', 140),
         (''checkin_max'', 160), (''donation_fail_limit'', 10), (''mailer_cool_minutes'', 10)] @
       map (\<lambda>(k, d). (k, GetSettingIntAllowZero k d st)) [(''credits_cap'', 500), (''donation_review_limit'', 3)],
       map (\<lambda>k. (k, GetSettingString k [] st = ''true'')) [''donation_enabled'', ''charity_enabled'', ''maintenance_mode''])))"

section \<open>Levels\<close>

text \<open>Control characters of UTF-8 text: the bytes below 32, DEL, and U+0080 to U+009F.\<close>

function has_control :: "string \<Rightarrow> bool" where
  "has_control s = (if s = [] then False
     else if byte (hd s) < 0x20 \<or> byte (hd s) = 0x7F then True
     else if rune_len s = 2 \<and> byte (hd s) = 0xC2 \<and> byte (s ! 1) < 0xA0 then True
     else has_control (drop (max 1 (rune_len s)) s))"
  by pat_completeness auto
termination by (relation "measure length") auto

declare has_control.simps [simp del]

definition validateLevelText :: "string \<Rightarrow> int \<Rightarrow> bool" where
  "validateLevelText v maxRunes \<longleftrightarrow> \<not> maxRunes < rune_count v \<and> \<not> has_control v"

record level_body =
  lb_thresholds :: "int option list"
  lb_names :: "string option list"
  lb_banner :: "string option"

definition level_names :: "string list" where
  "level_names = [''level_name_1'', ''level_name_2'', ''level_name_3'', ''level_name_4'', ''level_name_5'']"

text \<open>All nine fields are required, \<open>0 \<le> t2 < t3 < t4\<close>, and the texts bounded and printable.\<close>

definition level_updates :: "level_body \<Rightarrow> (string \<times> string) list option" where
  "level_updates b = (case (those (lb_thresholds b), those (lb_names b), lb_banner b) of
     (Some [t2, t3, t4], Some names, Some banner) \<Rightarrow>
       if length names \<noteq> 5 then None
       else if t2 < 0 \<or> t3 \<le> t2 \<or> t4 \<le> t3 then None
       else if \<not> list_all (\<lambda>n. validateLevelText n 20) names then None
       else if \<not> validateLevelText banner 200 then None
       else Some ([(''level_threshold_2'', Itoa t2), (''level_threshold_3'', Itoa t3), (''level_threshold_4'', Itoa t4)] @
              zip level_names names @ [(''level_banner_text'', banner)])
   | _ \<Rightarrow> None)"

definition handleAdminPutLevelSettings ::
  "desk_env \<Rightarrow> string \<Rightarrow> level_body option \<Rightarrow> gateway \<Rightarrow> gateway \<times> unit reply" where
  "handleAdminPutLevelSettings e token body = admin_only e token (\<lambda>g.
     case Option.bind body level_updates of None \<Rightarrow> bad_request g | Some us \<Rightarrow> put_store (SetSettings us) g)"

definition levelSettings :: "store \<Rightarrow> (int \<times> int \<times> int) \<times> string list \<times> string" where
  "levelSettings st = (LevelThresholds st, map (\<lambda>k. GetSettingString k [] st) level_names,
     GetSettingString ''level_banner_text'' [] st)"

definition handleAdminGetLevelSettings ::
  "desk_env \<Rightarrow> string \<Rightarrow> gateway \<Rightarrow> gateway \<times> ((int \<times> int \<times> int) \<times> string list \<times> string) reply" where
  "handleAdminGetLevelSettings e token = admin_only e token (\<lambda>g. (g, Inr (levelSettings (gw_store g))))"

text \<open>What clients see of a level: the name falls back to the number.\<close>

record level_view =
  lv_level :: int
  lv_manual :: bool
  lv_name :: string
  lv_banner :: string

definition resolveLevelView :: "user \<Rightarrow> store \<Rightarrow> level_view" where
  "resolveLevelView u st = (case GetUserLevel (Some u) (LevelThresholds st) of (level, manual) \<Rightarrow>
     let name = GetSettingString (level_names ! nat (level - 1)) [] st in
     \<lparr>lv_level = level, lv_manual = manual, lv_name = (if name = [] then Itoa level else name),
      lv_banner = GetSettingString ''level_banner_text'' [] st\<rparr>)"

definition checkinCapExempt :: "user \<Rightarrow> store \<Rightarrow> bool" where
  "checkinCapExempt u st \<longleftrightarrow> 3 \<le> fst (GetUserLevel (Some u) (LevelThresholds st))"

section \<open>The anti-abuse table\<close>

text \<open>The cache is reloaded from the table, which gets its missing default rows.\<close>

definition refreshAntiAbuseCache :: "desk_env \<Rightarrow> gateway \<Rightarrow> gateway" where
  "refreshAntiAbuseCache e g = (case GetAntiAbuseConfigs serviceNames (dk_unix e 16) (gw_store g) of
     (st1, m) \<Rightarrow> g\<lparr>gw_store := st1, gw_anti_abuse := m\<rparr>)"

text \<open>An input whose \<open>donation_selectable\<close> was not sent is selectable.\<close>

definition anti_abuse_update :: "anti_abuse_input \<times> int option \<Rightarrow> anti_abuse_input" where
  "anti_abuse_update x = (fst x)\<lparr>ai_selectable := or_keep (snd x) 1\<rparr>"

definition handlePutAntiAbuse ::
  "desk_env \<Rightarrow> string \<Rightarrow> (anti_abuse_input \<times> int option) list option \<Rightarrow> gateway \<Rightarrow> gateway \<times> anti_abuse list reply" where
  "handlePutAntiAbuse e token body = admin_only e token (\<lambda>g.
     case body of None \<Rightarrow> bad_request g | Some cs \<Rightarrow>
     if cs = [] then bad_request g
     else if \<not> list_all (\<lambda>c. IsSupportedService (ai_service (fst c))) cs then bad_request g
     else case run_store (UpsertAntiAbuseConfigs (map anti_abuse_update cs) (dk_unix e 15)) g of
       (g1, Inl _) \<Rightarrow> bad_request g1
     | (g1, Inr _) \<Rightarrow> let g2 = refreshAntiAbuseCache e g1 in (g2, Inr (map snd (gw_anti_abuse g2))))"

definition handleListAntiAbuse :: "desk_env \<Rightarrow> string \<Rightarrow> gateway \<Rightarrow> gateway \<times> anti_abuse list reply" where
  "handleListAntiAbuse e token = admin_only e token (\<lambda>g. (g, Inr (map snd (gw_anti_abuse g))))"

section \<open>The economy of the mini-games\<close>

text \<open>These endpoints answer 401 instead of 403.\<close>

definition games_admin ::
  "desk_env \<Rightarrow> string \<Rightarrow> (gateway \<Rightarrow> gateway \<times> 'a reply) \<Rightarrow> gateway \<Rightarrow> gateway \<times> 'a reply" where
  "games_admin e token serve g = (case requireAdmin e token g of
     (g1, None) \<Rightarrow> (g1, Inl (Refusal 401 ''unauthorized'')) | (g1, Some _) \<Rightarrow> serve g1)"

definition handleAdminGamesGet ::
  "desk_env \<Rightarrow> string \<Rightarrow> gateway \<Rightarrow> gateway \<times> (bool \<times> fishing_config \<times> fishing_config) reply" where
  "handleAdminGamesGet e token = games_admin e token (\<lambda>g.
     (g, Inr (GamesMasterEnabled (gw_store g), FishingConfig (gw_store g), DefaultFishingConfig)))"

record economy_patch =
  ec_worm :: "int option"
  ec_lure :: "int option"
  ec_premium :: "int option"
  ec_rtp :: "int option"
  ec_rtp_premium :: "int option"
  ec_bottle :: "int option"
  ec_clover :: "int option"
  ec_shell :: "int option"

type_synonym game_patch = "string \<times> bool option \<times> economy_patch option"

definition economy_fields :: "economy_patch \<Rightarrow> int option list" where
  "economy_fields p = [ec_worm p, ec_lure p, ec_premium p, ec_rtp p, ec_rtp_premium p, ec_bottle p, ec_clover p, ec_shell p]"

definition game_patch_ok :: "game_patch \<Rightarrow> bool" where
  "game_patch_ok gm \<longleftrightarrow> fst gm = GameIDFishing \<and> (case snd (snd gm) of None \<Rightarrow> True
     | Some p \<Rightarrow> \<not> list_ex (sent (\<lambda>v. v < 1 \<or> 1000 < v)) (economy_fields p))"

definition merge_economy :: "economy_patch \<Rightarrow> fishing_config \<Rightarrow> fishing_config" where
  "merge_economy p c = (let m = (\<lambda>k v. (k, or_keep v (map_get 0 k (fc_treasure_mult c)))) in
     c\<lparr>fc_worm_price := or_keep (ec_worm p) (fc_worm_price c), fc_lure_price := or_keep (ec_lure p) (fc_lure_price c),
       fc_premium_price := or_keep (ec_premium p) (fc_premium_price c), fc_rtp := or_keep (ec_rtp p) (fc_rtp c),
       fc_rtp_premium := or_keep (ec_rtp_premium p) (fc_rtp_premium c),
       fc_treasure_mult := [m ''bottle'' (ec_bottle p), m ''clover'' (ec_clover p), m ''shell'' (ec_shell p)]\<rparr>)"

definition merge_game :: "game_patch \<Rightarrow> fishing_config \<Rightarrow> fishing_config" where
  "merge_game gm c = (let c1 = c\<lparr>fc_enabled := or_keep (fst (snd gm)) (fc_enabled c)\<rparr> in
     case snd (snd gm) of None \<Rightarrow> c1 | Some p \<Rightarrow> merge_economy p c1)"

definition economy_updates :: "bool \<Rightarrow> fishing_config \<Rightarrow> (string \<times> string) list" where
  "economy_updates master c = (let mult = (\<lambda>k. Itoa (map_get 0 k (fc_treasure_mult c))) in
     [(''games_enabled'', boolStr master), (''game_fishing_enabled'', boolStr (fc_enabled c)),
      (''game_fishing_bait_worm_price'', Itoa (fc_worm_price c)),
      (''game_fishing_bait_lure_price'', Itoa (fc_lure_price c)),
      (''game_fishing_bait_premium_price'', Itoa (fc_premium_price c)),
      (''game_fishing_rtp'', Itoa (fc_rtp c)), (''game_fishing_rtp_premium'', Itoa (fc_rtp_premium c)),
      (''game_fishing_treasure_bottle_mult'', mult ''bottle''), (''game_fishing_treasure_clover_mult'', mult ''clover''),
      (''game_fishing_treasure_shell_mult'', mult ''shell'')])"

text \<open>All fields are merged and an engine is built for every bait before anything is written.\<close>

definition handleAdminGamesPut ::
  "((string \<times> int) list \<Rightarrow> (string \<times> int) list) \<Rightarrow> desk_env \<Rightarrow> string \<Rightarrow> (bool option \<times> game_patch list) option \<Rightarrow>
   gateway \<Rightarrow> gateway \<times> unit reply" where
  "handleAdminGamesPut ord e token body = games_admin e token (\<lambda>g.
     case body of None \<Rightarrow> bad_request g | Some (master, games) \<Rightarrow>
     if \<not> list_all game_patch_ok games then bad_request g
     else let cfg = fold merge_game games (FishingConfig (gw_store g));
              enabled = or_keep master (GamesMasterEnabled (gw_store g))
     in if \<not> list_all (\<lambda>bait. is_ok (FishingEngine ord cfg bait)) [''worm'', ''lure'', ''premium''] then bad_request g
        else put_store (SetSettings (economy_updates enabled cfg)) g)"

definition handleAdminGamesRestoreDefaults :: "desk_env \<Rightarrow> string \<Rightarrow> gateway \<Rightarrow> gateway \<times> unit reply" where
  "handleAdminGamesRestoreDefaults e token = games_admin e token
     (put_store (SetSettings (economy_updates True (DefaultFishingConfig\<lparr>fc_enabled := True\<rparr>))))"


section \<open>What the endpoints do to the store\<close>

datatype admin_op =
    AdminBan string "ban_body option"
  | AdminDelete string
  | AdminUnban string
  | AdminResetKey string string
  | AdminRPM string "(int option \<times> int option \<times> int option) option"
  | AdminLevel string "level_field option"
  | AdminCredits "(int list \<times> string \<times> int) option"
  | AdminDonationCredit "(int list \<times> string \<times> int) option"
  | AdminSettings "settings_body option"
  | AdminLevels "level_body option"
  | AdminAntiAbuse "(anti_abuse_input \<times> int option) list option"
  | AdminGames "(bool option \<times> game_patch list) option"
  | AdminGamesDefaults

fun admin_serve ::
  "((string \<times> int) list \<Rightarrow> (string \<times> int) list) \<Rightarrow> desk_env \<Rightarrow> string \<Rightarrow> admin_op \<Rightarrow> gateway \<Rightarrow> gateway \<times> unit reply" where
  "admin_serve ord e token (AdminBan path b) g = handleAdminBanUser e token path b g"
| "admin_serve ord e token (AdminDelete path) g = handleAdminDeleteUser e token path g"
| "admin_serve ord e token (AdminUnban path) g = handleAdminUnbanUser e token path g"
| "admin_serve ord e token (AdminResetKey key path) g = handleAdminResetUserKey e key token path g"
| "admin_serve ord e token (AdminRPM path b) g = handleAdminSetUserRPM e token path b g"
| "admin_serve ord e token (AdminLevel path b) g = handleAdminSetUserLevel e token path b g"
| "admin_serve ord e token (AdminCredits b) g = outcome (handleAdminBatchCredits e token b g)"
| "admin_serve ord e token (AdminDonationCredit b) g = outcome (handleAdminBatchDonationCredit e token b g)"
| "admin_serve ord e token (AdminSettings b) g = handleAdminPutSettings e token b g"
| "admin_serve ord e token (AdminLevels b) g = handleAdminPutLevelSettings e token b g"
| "admin_serve ord e token (AdminAntiAbuse b) g = outcome (handlePutAntiAbuse e token b g)"
| "admin_serve ord e token (AdminGames b) g = handleAdminGamesPut ord e token b g"
| "admin_serve ord e token AdminGamesDefaults g = handleAdminGamesRestoreDefaults e token g"

lemma requireAdmin_frame: "sessions_only g (fst (requireAdmin e token g))"
  using currentUser_frame [of g e 10 token] by (simp add: requireAdmin_def case_prod_beta)

lemma requireAdminE:
  obtains g1 x where "requireAdmin e token g = (g1, x)" "sessions_only g g1"
  using requireAdmin_frame [of g e token] by (cases "requireAdmin e token g") simp

lemma put_store_fst [simp]: "fst (put_store f g) = g\<lparr>gw_store := f (gw_store g)\<rparr>"
  by (simp add: put_store_def)

text \<open>An endpoint as an effect on the gateway behind its guard: it refuses, or runs one of these.\<close>

inductive admin_effect :: "crypto \<Rightarrow> level_body set \<Rightarrow> gateway \<Rightarrow> gateway \<Rightarrow> bool" for c B where
  Nothing: "admin_effect c B g g"
| Disable: "admin_effect c B g (g\<lparr>gw_store := DeleteUserSessions i (setUserDisabledAt i True reason now (gw_store g))\<rparr>)"
| Ban: "admin_effect c B g (g\<lparr>gw_store := DeleteUserSessions i (BanUser i until reason now (gw_store g))\<rparr>)"
| Delete: "admin_effect c B g (g\<lparr>gw_store := fst (deleteUserAt i now (gw_store g))\<rparr>)"
| Unban: "admin_effect c B g (g\<lparr>gw_store := unbanUserAt i now (gw_store g)\<rparr>)"
| Key: "admin_effect c B g (g\<lparr>gw_store := fst (SetCallerKey c now i key (gw_store g))\<rparr>)"
| RPM: "admin_effect c B g (invalidateRPMCache i (g\<lparr>gw_store := SetUserRPMLimits i l1 l2 l3 now (gw_store g)\<rparr>))"
| Level: "admin_effect c B g (g\<lparr>gw_store := SetUserLevel i l now (gw_store g)\<rparr>)"
| Balance: "admin_effect c B g (g\<lparr>gw_store := fst (BatchUpdateUserBalance ids field action amount now (gw_store g))\<rparr>)"
| Settings: "settings_updates b = Some us \<Longrightarrow>
    admin_effect c B g (invalidateRPMCache 0 (g\<lparr>gw_store := SetSettings us (gw_store g)\<rparr>))"
| Levels: "b \<in> B \<Longrightarrow> level_updates b = Some us \<Longrightarrow> admin_effect c B g (g\<lparr>gw_store := SetSettings us (gw_store g)\<rparr>)"
| AntiAbuse: "admin_effect c B g (g\<lparr>gw_store := fst (UpsertAntiAbuseConfigs cs now (gw_store g))\<rparr>)"
| AntiAbuseLoad: "admin_effect c B g (g\<lparr>gw_store := fst (GetAntiAbuseConfigs serviceNames later
     (fst (UpsertAntiAbuseConfigs cs now (gw_store g)))), gw_anti_abuse := table\<rparr>)"
| Economy: "admin_effect c B g (g\<lparr>gw_store := SetSettings (economy_updates master cfg) (gw_store g)\<rparr>)"

lemma same_gateway: "g\<lparr>gw_store := gw_store g\<rparr> = (g :: gateway)" by simp

lemma run_store_fst: "fst (run_store f g) = g\<lparr>gw_store := fst (f (gw_store g))\<rparr>"
  by (simp add: run_store_def case_prod_beta)

lemma run_store_effect:
  assumes "\<And>g1 r. fst (k g1 r) = g1" "admin_effect c B g (g\<lparr>gw_store := fst (f (gw_store g))\<rparr>)"
  shows "admin_effect c B g (fst (case run_store f g of (g1, r) \<Rightarrow> k g1 r))"
  using assms by (simp add: run_store_def case_prod_beta)

lemma fst_sum_case [simp]:
  "fst (case r of Inl x \<Rightarrow> (g, Inl (h x)) | Inr y \<Rightarrow> (g, k y)) = g"
  "fst (case s of None \<Rightarrow> (g, a) | Some y \<Rightarrow> (g, b y)) = g"
  by (cases r; simp) (cases s; simp)

definition sent_levels :: "admin_op \<Rightarrow> level_body set" where
  "sent_levels x = {b. x = AdminLevels (Some b)}"

lemma admin_serve_effect:
  "\<exists>g1. sessions_only g g1 \<and> admin_effect (dk_crypto e) (sent_levels x) g1 (fst (admin_serve ord e token x g))"
proof -
  have A: "\<exists>g1. sessions_only g g1 \<and> admin_effect (dk_crypto e) B g1 (fst (admin_only e token serve g))"
    if s: "\<And>g1. admin_effect (dk_crypto e) B g1 (fst (serve g1))" for B and serve :: "gateway \<Rightarrow> gateway \<times> 'a reply"
  proof -
    obtain g1 x where g1: "sessions_only g g1" "adminGuard e token g = (g1, x)"
      using adminGuard_cases [of g e token ListPricingRequest] by blast
    then show ?thesis
      by (cases x) (auto simp: admin_only_def guarded_def intro!: exI [of _ g1] s admin_effect.Nothing)
  qed
  have T: "\<exists>g1. sessions_only g g1 \<and> admin_effect (dk_crypto e) B g1 (fst (on_target e token path serve g))"
    if s: "\<And>i g1. admin_effect (dk_crypto e) B g1 (fst (serve i g1))" for B path and serve :: "int \<Rightarrow> gateway \<Rightarrow> gateway \<times> 'a reply"
    unfolding on_target_def by (rule A) (simp add: s admin_effect.Nothing split: sum.split)
  have G: "\<exists>g1. sessions_only g g1 \<and> admin_effect (dk_crypto e) B g1 (fst (games_admin e token serve g))"
    if s: "\<And>g1. admin_effect (dk_crypto e) B g1 (fst (serve g1))" for B and serve :: "gateway \<Rightarrow> gateway \<times> 'a reply"
  proof -
    obtain g1 x where g1: "requireAdmin e token g = (g1, x)" "sessions_only g g1"
      by (rule requireAdminE)
    then show ?thesis
      by (cases x) (auto simp: games_admin_def intro!: exI [of _ g1] s admin_effect.Nothing)
  qed
  show ?thesis
  proof (cases x)
    case (AdminBan path b)
    show ?thesis unfolding AdminBan admin_serve.simps handleAdminBanUser_def
      by (rule T) (auto simp: admin_effect.intros split: option.split)
  next
    case (AdminDelete path)
    show ?thesis unfolding AdminDelete admin_serve.simps handleAdminDeleteUser_def
      by (intro T run_store_effect) (simp_all add: admin_effect.Delete)
  next
    case (AdminUnban path)
    show ?thesis unfolding AdminUnban admin_serve.simps handleAdminUnbanUser_def
      by (rule T) (simp add: admin_effect.Unban)
  next
    case (AdminResetKey key path)
    show ?thesis unfolding AdminResetKey admin_serve.simps handleAdminResetUserKey_def
      by (intro T run_store_effect) (simp_all add: admin_effect.Key)
  next
    case (AdminRPM path b)
    show ?thesis unfolding AdminRPM admin_serve.simps handleAdminSetUserRPM_def
      by (rule T) (auto simp: put_store_def admin_effect.intros split: option.split)
  next
    case (AdminLevel path b)
    show ?thesis unfolding AdminLevel admin_serve.simps handleAdminSetUserLevel_def
      by (rule T) (auto simp: admin_effect.intros split: option.split)
  next
    case (AdminCredits b)
    show ?thesis unfolding AdminCredits admin_serve.simps handleAdminBatchCredits_def batch_balance_def outcome_fst
      by (rule A) (auto simp: admin_effect.Nothing intro!: run_store_effect admin_effect.Balance split: option.split)
  next
    case (AdminDonationCredit b)
    show ?thesis unfolding AdminDonationCredit admin_serve.simps handleAdminBatchDonationCredit_def batch_balance_def outcome_fst
      by (rule A) (auto simp: admin_effect.Nothing intro!: run_store_effect admin_effect.Balance split: option.split)
  next
    case (AdminSettings b)
    show ?thesis unfolding AdminSettings admin_serve.simps handleAdminPutSettings_def
      by (rule A) (auto simp: put_store_def bind_eq_Some_conv intro: admin_effect.intros split: option.split)
  next
    case (AdminLevels b)
    show ?thesis unfolding AdminLevels admin_serve.simps handleAdminPutLevelSettings_def
      by (rule A) (auto simp: put_store_def bind_eq_Some_conv sent_levels_def intro: admin_effect.intros split: option.split)
  next
    case (AdminAntiAbuse b)
    show ?thesis unfolding AdminAntiAbuse admin_serve.simps handlePutAntiAbuse_def outcome_fst
      by (rule A) (auto simp: run_store_def refreshAntiAbuseCache_def Let_def case_prod_beta
        intro: admin_effect.intros split: option.split sum.split)
  next
    case (AdminGames b)
    show ?thesis unfolding AdminGames admin_serve.simps handleAdminGamesPut_def
      by (rule G) (auto simp: put_store_def Let_def intro: admin_effect.intros split: option.split)
  next
    case AdminGamesDefaults
    show ?thesis unfolding AdminGamesDefaults admin_serve.simps handleAdminGamesRestoreDefaults_def
      by (rule G) (simp add: admin_effect.Economy)
  qed
qed


section \<open>Every change is a run of steps\<close>

lemma member_side: "(\<And>u. u_id (f u) = u_id u) \<Longrightarrow> side_edit st (update_member i f st)"
  by (simp add: side_edit_def core_tables_def update_member_def)

lemma settings_side: "side_edit st (SetSettings us st)"
proof (induction us arbitrary: st)
  case (Cons u us)
  have one: "side_edit st (SetSetting k v st)" for k v
    by (simp add: side_edit_def core_tables_def SetSetting_def)
  have "SetSettings (u # us) st = SetSettings us (SetSetting (fst u) (snd u) st)"
    by (simp add: SetSettings_def split_def)
  then show ?case using Cons.IH [of "SetSetting (fst u) (snd u) st"] one [of "fst u" "snd u"]
    by (simp add: side_edit_def)
qed (simp add: SetSettings_def side_edit_def)

lemma balance_side: "(\<And>u. u_id (f u) = u_id u) \<Longrightarrow> side_edit st (fst (balance_loop f ids n st))"
proof (induction ids arbitrary: n st)
  case (Cons i ids)
  have "side_edit st (fst (balance_loop f ids k (update_member i f st)))" for k
    using Cons.IH [OF Cons.prems, of "update_member i f st" k] member_side [of f st i, OF Cons.prems]
    by (simp add: side_edit_def)
  then show ?case using Cons.IH [OF Cons.prems] by (auto split: option.split)
qed (simp add: side_edit_def)

lemma edit_balance_id [simp]: "u_id (edit_balance f a amount now u) = u_id u"
  by (simp add: edit_balance_def split: balance_field.split)

lemma batch_side: "side_edit st (fst (BatchUpdateUserBalance ids field action amount now st))"
proof -
  have "side_edit st (fst (case balance_loop (edit_balance f a amount now) ids 0 st of (st1, n) \<Rightarrow> (st1, Inr n)))" for f a
    using balance_side [of "edit_balance f a amount now" st ids 0] by (simp add: case_prod_beta)
  then show ?thesis
    by (auto simp: BatchUpdateUserBalance_def side_edit_def split: option.split)
qed

lemma put_anti_abuse_only: "\<exists>t. put_anti_abuse now c st = st\<lparr>service_anti_abuse := t\<rparr>"
  by (auto simp: put_anti_abuse_def Let_def)

lemma anti_abuse_only:
  "\<exists>t. fst (UpsertAntiAbuseConfigs cs now st) = st\<lparr>service_anti_abuse := t\<rparr>"
  "\<exists>t. fst (GetAntiAbuseConfigs names now st) = st\<lparr>service_anti_abuse := t\<rparr>"
proof -
  have keep: "\<exists>t. fold f xs st = st\<lparr>service_anti_abuse := t\<rparr>"
    if s: "\<And>x st. \<exists>t. f x st = st\<lparr>service_anti_abuse := t\<rparr>" for f :: "'x \<Rightarrow> store \<Rightarrow> store" and xs and st :: store
  proof (induction xs arbitrary: st)
    case Nil show ?case by (rule exI [of _ "service_anti_abuse st"]) simp
  next
    case (Cons x xs)
    obtain t where t: "f x st = st\<lparr>service_anti_abuse := t\<rparr>" using s by blast
    obtain t' where "fold f xs (f x st) = (f x st)\<lparr>service_anti_abuse := t'\<rparr>" using Cons.IH by blast
    then show ?case by (intro exI [of _ t']) (simp add: t)
  qed
  have same: "\<exists>t. st = st\<lparr>service_anti_abuse := t\<rparr>" for st :: store
    by (rule exI [of _ "service_anti_abuse st"]) simp
  show "\<exists>t. fst (UpsertAntiAbuseConfigs cs now st) = st\<lparr>service_anti_abuse := t\<rparr>"
    using keep [of "put_anti_abuse now", OF put_anti_abuse_only] same
    by (auto simp: UpsertAntiAbuseConfigs_def split: option.split)
  have "\<exists>t. (if b then st\<lparr>service_anti_abuse := t0\<rparr> else st) = st\<lparr>service_anti_abuse := t\<rparr>" for b t0 and st :: store
    using same by auto
  then show "\<exists>t. fst (GetAntiAbuseConfigs names now st) = st\<lparr>service_anti_abuse := t\<rparr>"
    unfolding GetAntiAbuseConfigs_def Let_def fst_conv by (rule keep)
qed

lemma anti_abuse_side:
  "side_edit st (fst (UpsertAntiAbuseConfigs cs now st))"
  "side_edit st (fst (GetAntiAbuseConfigs names later (fst (UpsertAntiAbuseConfigs cs now st))))"
proof -
  obtain t where t: "fst (UpsertAntiAbuseConfigs cs now st) = st\<lparr>service_anti_abuse := t\<rparr>"
    using anti_abuse_only(1) by blast
  then show "side_edit st (fst (UpsertAntiAbuseConfigs cs now st))"
    by (simp add: side_edit_def core_tables_def)
  obtain t' where "fst (GetAntiAbuseConfigs names later (fst (UpsertAntiAbuseConfigs cs now st))) =
      st\<lparr>service_anti_abuse := t, service_anti_abuse := t'\<rparr>"
    using anti_abuse_only(2) unfolding t by blast
  then show "side_edit st (fst (GetAntiAbuseConfigs names later (fst (UpsertAntiAbuseConfigs cs now st))))"
    by (simp add: side_edit_def core_tables_def)
qed

lemma key_side: "side_edit st (fst (SetCallerKey c now i key st))"
  by (auto simp: SetCallerKey_def side_edit_def core_tables_def Let_def split: option.split)

lemma sessions_side: "side_edit st (DeleteUserSessions i st)"
  by (simp add: DeleteUserSessions_def side_edit_def core_tables_def)

lemma invalidate_store [simp]: "gw_store (invalidateRPMCache i g) = gw_store g"
  by (simp add: invalidateRPMCache_def)

lemma admin_effect_runs: "admin_effect c B g g' \<Longrightarrow> store_runs k ord (gw_store g) (gw_store g')"
proof (induction rule: admin_effect.cases)
  case (Disable g i reason now)
  have "store_runs k ord (gw_store g) (setUserDisabledAt i True reason now (gw_store g))"
    by (rule account_run_step [where x = "AccDisable i True reason now" and day = "utcDay now"]) simp_all
  then show ?case unfolding Disable by (auto intro: rtranclp_trans side_run sessions_side)
next
  case (Ban g i until reason now)
  have "side_edit (gw_store g) (BanUser i until reason now (gw_store g))"
    unfolding BanUser_def by (rule member_side) simp
  then show ?case unfolding Ban by (auto intro: rtranclp_trans side_run sessions_side)
next
  case (Delete g i now)
  show ?case unfolding Delete
    by (simp, rule account_run_step [where x = "AccDelete i now" and day = "utcDay now"]) simp_all
next
  case (Unban g i now)
  show ?case unfolding Unban
    by (simp, rule account_run_step [where x = "AccUnban i now" and day = "utcDay now"]) simp_all
next
  case (RPM g i a b c now)
  show ?case unfolding RPM SetUserRPMLimits_def by (simp add: side_run member_side)
next
  case (Level g i l now)
  show ?case unfolding Level SetUserLevel_def by (simp add: side_run member_side)
qed (simp_all add: side_run settings_side batch_side anti_abuse_side key_side)

lemma admin_serve_runs: "store_runs k ord' (gw_store g) (gw_store (fst (admin_serve ord e token x g)))"
proof -
  obtain g1 where "sessions_only g g1" "admin_effect (dk_crypto e) (sent_levels x) g1 (fst (admin_serve ord e token x g))"
    using admin_serve_effect by blast
  then show ?thesis by (blast intro: rtranclp_trans sessions_only_run admin_effect_runs)
qed


section \<open>The cached limits\<close>

text \<open>What the administrator sees as the limits of a user is what the gate uses: a cached entry of an
  existing user is the stored one.\<close>

definition limits_fresh :: "gateway \<Rightarrow> bool" where
  "limits_fresh g \<longleftrightarrow> (\<forall>(u, l) \<in> set (gw_limit_cache g).
     GetUserByID u (gw_store g) \<noteq> None \<longrightarrow> l = stored_limits u (gw_store g))"

definition limits_row :: "user \<Rightarrow> int option \<times> int option \<times> int option" where
  "limits_row u = (u_rpm_limit_a u, u_rpm_limit_b u, u_rpm_limit_c u)"

definition limit_settings :: "store \<Rightarrow> string list" where
  "limit_settings st = map (\<lambda>k. GetSetting k st) [''rpm_limit_a'', ''rpm_limit_b'', ''rpm_limit_c'']"

text \<open>An edit that leaves the limits of user \<open>u\<close>, or removes the user.\<close>

definition same_limits :: "int \<Rightarrow> store \<Rightarrow> store \<Rightarrow> bool" where
  "same_limits u st st' \<longleftrightarrow> limit_settings st' = limit_settings st \<and> (GetUserByID u st' = None \<or>
     map_option limits_row (GetUserByID u st') = map_option limits_row (GetUserByID u st))"

lemma setting_cong: "GetSetting k st' = GetSetting k st \<Longrightarrow> setting_at_least least k d st' = setting_at_least least k d st"
  by (simp add: setting_at_least_def)

lemma same_limits_stored:
  assumes "same_limits u st st'" "GetUserByID u st' \<noteq> None"
  shows "GetUserByID u st \<noteq> None \<and> stored_limits u st' = stored_limits u st"
proof -
  obtain x' where x': "GetUserByID u st' = Some x'" using assms(2) by blast
  with assms(1) obtain x where x: "GetUserByID u st = Some x" "limits_row x' = limits_row x"
    by (auto simp: same_limits_def) (metis map_option_eq_Some)
  have "GetSetting k st' = GetSetting k st" if "k \<in> {''rpm_limit_a'', ''rpm_limit_b'', ''rpm_limit_c''}" for k
    using assms(1) that by (auto simp: same_limits_def limit_settings_def)
  then show ?thesis
    using x by (auto simp: x' stored_limits_def limits_row_def Let_def GetSettingInt_def fun_eq_iff
        split: rpm_class.split option.split intro!: setting_cong)
qed

lemma same_limits_fresh:
  assumes "limits_fresh g" "\<And>u l. (u, l) \<in> set (gw_limit_cache g') \<Longrightarrow> (u, l) \<in> set (gw_limit_cache g) \<and> same_limits u (gw_store g) (gw_store g')"
  shows "limits_fresh g'"
  unfolding limits_fresh_def
proof (intro ballI, clarify)
  fix u l y assume m: "(u, l) \<in> set (gw_limit_cache g')" and y: "GetUserByID u (gw_store g') = Some y"
  have "GetUserByID u (gw_store g) \<noteq> None \<and> stored_limits u (gw_store g') = stored_limits u (gw_store g)"
    by (rule same_limits_stored) (use assms(2) [OF m] in \<open>simp_all add: y\<close>)
  moreover have "(u, l) \<in> set (gw_limit_cache g)" using assms(2) [OF m] by simp
  ultimately show "l = stored_limits u (gw_store g')" using assms(1) by (auto simp: limits_fresh_def)
qed

lemma same_limits_trans: "same_limits u a b \<Longrightarrow> same_limits u b c \<Longrightarrow> same_limits u a c"
  unfolding same_limits_def by (metis option.map_disc_iff)

lemma same_limits_refl [simp]: "same_limits u st st"
  by (simp add: same_limits_def)

lemma limit_settings_cong: "settings st' = settings st \<Longrightarrow> limit_settings st' = limit_settings st"
  by (simp add: limit_settings_def GetSetting_def)

lemma same_limits_cong: "users st' = users st \<Longrightarrow> settings st' = settings st \<Longrightarrow> same_limits u st st'"
  by (simp add: same_limits_def limit_settings_cong [of st' st] GetUserByID_def)

lemma same_limits_edit:
  assumes "\<And>x. u_id (f x) = u_id x" "\<And>x. limits_row (f x) = limits_row x"
  shows "same_limits u st (update_user i f st)" "same_limits u st (update_member i f st)"
proof -
  have "map_option limits_row (by_key u_id u (update_where P f (users st))) = map_option limits_row (by_key u_id u (users st))" for P
    by (cases "by_key u_id u (users st)") (simp_all add: by_key_update assms)
  then show "same_limits u st (update_user i f st)" "same_limits u st (update_member i f st)"
    by (simp_all add: same_limits_def GetUserByID_def update_user_def update_member_def limit_settings_def GetSetting_def)
qed

lemma site_same_limits: "x = st\<lparr>site_activity_daily := site_activity_daily x\<rparr> \<Longrightarrow> same_limits u st x"
  by (erule ssubst) (simp add: same_limits_cong)

lemmas stats_same_limits = site_same_limits [OF finalize_only] site_same_limits [OF adjust_only]

lemma disable_same_limits: "same_limits u st (setUserDisabledAt i b reason now st)"
proof -
  have f: "same_limits u a (update_user i (set_disabled b reason now) a)" for a
    by (rule same_limits_edit) (simp_all add: set_disabled_def limits_row_def)
  then have "same_limits u st (adjustOpenSiteForUserTx i day dir incl (update_user i (set_disabled b reason now)
      (finalizeCompletedActivityDaysTx now st)))" for day dir incl
    by (rule same_limits_trans [OF same_limits_trans [OF stats_same_limits(1)] stats_same_limits(2)])
  with f show ?thesis by (cases b) (simp_all add: setUserDisabledAt_def Let_def split: option.split)
qed

lemma unban_same_limits: "same_limits u st (unbanUserAt i now st)"
proof -
  have f: "same_limits u a (update_member i (unban now) a)" for a
    by (rule same_limits_edit) (simp_all add: unban_def limits_row_def)
  then have "same_limits u st (adjustOpenSiteForUserTx i day dir incl (update_member i (unban now)
      (finalizeCompletedActivityDaysTx now st)))" for day dir incl
    by (rule same_limits_trans [OF same_limits_trans [OF stats_same_limits(1)] stats_same_limits(2)])
  with f show ?thesis by (simp add: unbanUserAt_def Let_def split: option.split)
qed

lemma erased_settings: "settings (erased i now u st) = settings st"
proof -
  obtain X where "erased i now u st = delete_owned i
    ((forget_review i (forget_reservations i (delete_alerts i st)))\<lparr>site_activity_daily := X\<rparr>)"
    using erased_only by blast
  then show ?thesis
    by (simp add: delete_owned_def forget_review_def forget_reservations_def delete_alerts_def Let_def)
qed

lemma delete_same_limits: "keys_ok st \<Longrightarrow> same_limits u st (fst (deleteUserAt i now st))"
proof (cases "deleteUserAt i now st")
  case (Pair st' res)
  assume k: "keys_ok st"
  show ?thesis using Pair k
  proof (cases rule: deleteUserAt_cases)
    case (deleted x)
    have "by_key u_id i (delete_where (\<lambda>x. u_id x = i) (users st)) = None"
      by (auto simp: by_key_None delete_where_def)
    moreover have "by_key u_id u (delete_where (\<lambda>x. u_id x = i) rows) = by_key u_id u rows"
      if "u \<noteq> i" for rows :: "user list"
      using that by (induction rows) (auto simp: by_key_def delete_where_def)
    ultimately show ?thesis
      by (cases "u = i") (simp_all add: Pair same_limits_def deleted(5) GetUserByID_def limit_settings_def GetSetting_def erased_settings)
  qed (simp add: Pair)
qed

lemma batch_same_limits: "same_limits u st (fst (BatchUpdateUserBalance ids field action amount now st))"
proof -
  have loop: "same_limits u st (fst (balance_loop (edit_balance f a amount now) ids n st))" for f a n
  proof (induction ids arbitrary: n st)
    case (Cons i ids)
    have "same_limits u st (update_member i (edit_balance f a amount now) st)"
      by (rule same_limits_edit) (auto simp: edit_balance_def limits_row_def split: balance_field.split)
    then show ?case using Cons.IH by (auto split: option.split intro: same_limits_trans)
  qed simp
  then show ?thesis
    by (auto simp: BatchUpdateUserBalance_def case_prod_beta split: option.split)
qed


lemma same_store_fresh:
  assumes "limits_fresh g" "\<And>u. same_limits u (gw_store g) (gw_store g')" "gw_limit_cache g' = gw_limit_cache g"
  shows "limits_fresh g'"
  by (rule same_limits_fresh [OF assms(1)]) (simp add: assms(2,3))

lemma fst_map_filter: "fst ` set (text_updates fs) \<subseteq> snd ` set fs"
  by (induction fs) (auto simp: text_updates_def map_filter_simps split: option.splits)

lemma int_updates_keys: "int_updates least fs = Some us \<Longrightarrow> fst ` set us \<subseteq> snd ` set fs"
proof (induction least fs arbitrary: us rule: int_updates.induct)
  case (3 least v k r)
  then obtain vs where "int_updates least r = Some vs" "us = (k, Itoa v) # vs" "\<not> v < least"
    by (auto split: if_split_asm)
  then show ?case using 3 by auto
qed (auto simp: subset_iff)

text \<open>Writing other keys does not change a setting.\<close>

lemma other_settings: "k \<notin> fst ` set us \<Longrightarrow> GetSetting k (SetSettings us st) = GetSetting k st"
  by (simp add: GetSettings_set map_of_eq_None_iff [THEN iffD2] split: option.split)

definition economy_keys :: "string list" where
  "economy_keys = [''games_enabled'', ''game_fishing_enabled'', ''game_fishing_bait_worm_price'',
     ''game_fishing_bait_lure_price'', ''game_fishing_bait_premium_price'', ''game_fishing_rtp'',
     ''game_fishing_rtp_premium'', ''game_fishing_treasure_bottle_mult'', ''game_fishing_treasure_clover_mult'',
     ''game_fishing_treasure_shell_mult'']"

lemma economy_updates_keys: "fst ` set (economy_updates master cfg) = set economy_keys"
  by (simp add: economy_updates_def economy_keys_def Let_def)

lemma economy_settings: "k \<notin> set economy_keys \<Longrightarrow>
    GetSetting k (SetSettings (economy_updates master cfg) st) = GetSetting k st"
  by (rule other_settings) (simp only: economy_updates_keys not_False_eq_True)

lemma level_updates_keys: "level_updates b = Some us \<Longrightarrow> fst ` set us \<subseteq>
   {''level_threshold_2'', ''level_threshold_3'', ''level_threshold_4'', ''level_banner_text''} \<union> set level_names"
  by (auto simp: level_updates_def split: option.splits list.splits if_split_asm dest: set_zip_leftD)

lemma settings_updates_keys: "settings_updates b = Some us \<Longrightarrow> fst ` set us \<subseteq>
   {''discord_guild_id'', ''discord_role_id'', ''credits_cap'', ''donation_review_limit'', ''donation_enabled'',
    ''charity_enabled'', ''maintenance_mode''} \<union> set limit_keys \<union> set checkin_keys"
proof -
  assume "settings_updates b = Some us"
  then obtain l c m r where p: "int_updates 1 (zip (sb_limits b) limit_keys) = Some l"
      "int_updates 1 (zip (sb_checkin b) checkin_keys) = Some c"
      "int_updates 0 [(sb_credits_cap b, ''credits_cap'')] = Some m"
      "int_updates 0 [(sb_review_limit b, ''donation_review_limit'')] = Some r"
    and us: "us = text_updates [(sb_guild b, ''discord_guild_id''), (sb_role b, ''discord_role_id'')] @ l @ c @ m @ r @
       text_updates [(map_option boolStr (sb_donation b), ''donation_enabled''),
         (map_option boolStr (sb_charity b), ''charity_enabled''), (map_option boolStr (sb_maintenance b), ''maintenance_mode'')]"
    by (auto simp: settings_updates_def simp del: int_updates.simps split: option.split_asm)
  have z: "snd ` set (zip xs ks) \<subseteq> set ks" for xs :: "int option list" and ks :: "string list"
    by (auto dest: set_zip_rightD)
  note k = p [THEN int_updates_keys] fst_map_filter [of "[(sb_guild b, ''discord_guild_id''), (sb_role b, ''discord_role_id'')]"]
    fst_map_filter [of "[(map_option boolStr (sb_donation b), ''donation_enabled''),
      (map_option boolStr (sb_charity b), ''charity_enabled''), (map_option boolStr (sb_maintenance b), ''maintenance_mode'')]"]
  have "fst ` set l \<subseteq> set limit_keys" "fst ` set c \<subseteq> set checkin_keys" using k(1,2) z by blast+
  then show ?thesis using k(3-6) unfolding us set_append image_Un by auto
qed

lemma sessions_same_limits: "same_limits u st (DeleteUserSessions i st)"
  by (rule same_limits_cong) (simp_all add: DeleteUserSessions_def)

lemma settings_users: "users (SetSettings us st) = users st"
proof (induction us arbitrary: st)
  case (Cons u us)
  have "SetSettings (u # us) st = SetSettings us (SetSetting (fst u) (snd u) st)"
    by (simp add: SetSettings_def split_def)
  then show ?case using Cons.IH by (simp add: SetSetting_def)
qed (simp add: SetSettings_def)

lemma anti_abuse_same_limits:
  "same_limits u st (fst (UpsertAntiAbuseConfigs cs now st))"
  "same_limits u st (fst (GetAntiAbuseConfigs names later (fst (UpsertAntiAbuseConfigs cs now st))))"
proof -
  show a: "same_limits u st (fst (UpsertAntiAbuseConfigs cs now st))"
    using anti_abuse_only(1) [of cs now st] by (auto intro: same_limits_cong)
  have "same_limits u st (fst (GetAntiAbuseConfigs names later st))" for st
    using anti_abuse_only(2) [of names later st] by (auto intro: same_limits_cong)
  with a show "same_limits u st (fst (GetAntiAbuseConfigs names later (fst (UpsertAntiAbuseConfigs cs now st))))"
    by (rule same_limits_trans)
qed

lemma admin_effect_fresh:
  assumes "admin_effect c B g g'" "keys_ok (gw_store g)" "limits_fresh g"
  shows "limits_fresh g'"
  using assms
proof (induction rule: admin_effect.induct)
  case (Disable g i reason now)
  show ?case
    by (rule same_store_fresh [OF Disable(2)])
      (simp_all add: same_limits_trans [OF disable_same_limits sessions_same_limits])
next
  case (Ban g i until reason now)
  have b: "same_limits u (gw_store g) (BanUser i until reason now (gw_store g))" for u
    unfolding BanUser_def by (rule same_limits_edit) (simp_all add: limits_row_def)
  show ?case
    by (rule same_store_fresh [OF Ban(2)]) (simp_all add: same_limits_trans [OF b sessions_same_limits])
next
  case (Delete g i now)
  show ?case by (rule same_store_fresh [OF Delete(2)]) (simp_all add: delete_same_limits [OF Delete(1)])
next
  case (Unban g i now)
  show ?case by (rule same_store_fresh [OF Unban(2)]) (simp_all add: unban_same_limits)
next
  case (Key g now i key)
  have "same_limits u (gw_store g) (fst (SetCallerKey c now i key (gw_store g)))" for u
    by (rule same_limits_cong) (auto simp: SetCallerKey_def Let_def split: option.split)
  then show ?case by (intro same_store_fresh [OF Key(2)]) simp_all
next
  case (RPM g i l1 l2 l3 now)
  show ?case
  proof (rule same_limits_fresh [OF RPM(2)])
    fix u l assume m: "(u, l) \<in> set (gw_limit_cache (invalidateRPMCache i
      (g\<lparr>gw_store := SetUserRPMLimits i l1 l2 l3 now (gw_store g)\<rparr>)))"
    have "u \<noteq> i \<and> (u, l) \<in> set (gw_limit_cache g)"
      using m by (auto simp: invalidateRPMCache_def map_del_def split: if_split_asm)
    moreover have "u \<noteq> i \<Longrightarrow> same_limits u (gw_store g) (SetUserRPMLimits i l1 l2 l3 now (gw_store g))"
      by (cases "GetUserByID u (gw_store g)")
        (auto simp: same_limits_def GetUserByID_def SetUserRPMLimits_def update_member_def by_key_update limit_settings_def
          GetSetting_def dest: by_key_SomeD)
    ultimately show "(u, l) \<in> set (gw_limit_cache g) \<and> same_limits u (gw_store g) (gw_store (invalidateRPMCache i
      (g\<lparr>gw_store := SetUserRPMLimits i l1 l2 l3 now (gw_store g)\<rparr>)))" by simp
  qed
next
  case (Level g i l now)
  have "same_limits u (gw_store g) (SetUserLevel i l now (gw_store g))" for u
    unfolding SetUserLevel_def by (rule same_limits_edit) (simp_all add: limits_row_def)
  then show ?case by (intro same_store_fresh [OF Level(2)]) simp_all
next
  case (Balance g ids field action amount now)
  show ?case by (rule same_store_fresh [OF Balance(2)]) (simp_all add: batch_same_limits)
next
  case (Settings b us g)
  show ?case by (simp add: limits_fresh_def invalidateRPMCache_def)
next
  case (Levels b us g)
  have "same_limits u (gw_store g) (SetSettings us (gw_store g))" for u
    using level_updates_keys [OF Levels(2)]
    by (auto simp: same_limits_def limit_settings_def GetUserByID_def settings_users level_names_def intro!: other_settings)
  then show ?case by (intro same_store_fresh [OF Levels(4)]) simp_all
next
  case (AntiAbuse g)
  show ?case by (rule same_store_fresh [OF AntiAbuse(2)]) (simp_all add: anti_abuse_same_limits)
next
  case (AntiAbuseLoad g)
  show ?case by (rule same_store_fresh [OF AntiAbuseLoad(2)]) (simp_all add: anti_abuse_same_limits)
next
  case (Economy g master cfg)
  have "same_limits u (gw_store g) (SetSettings (economy_updates master cfg) (gw_store g))" for u
    by (simp add: same_limits_def limit_settings_def GetUserByID_def settings_users economy_settings economy_keys_def)
  then show ?case by (intro same_store_fresh [OF Economy(2)]) simp_all
qed


section \<open>The level thresholds\<close>

definition levels_ordered :: "store \<Rightarrow> bool" where
  "levels_ordered st \<longleftrightarrow> (case LevelThresholds st of (t2, t3, t4) \<Rightarrow> 0 \<le> t2 \<and> t2 < t3 \<and> t3 < t4)"

text \<open>JSON integers are decoded into 64 bits.\<close>

definition levels_in_range :: "level_body \<Rightarrow> bool" where
  "levels_in_range b \<longleftrightarrow> list_all (\<lambda>t. case t of None \<Rightarrow> True | Some n \<Rightarrow> - (2 ^ 63) \<le> n \<and> n < 2 ^ 63) (lb_thresholds b)"

definition threshold_settings :: "store \<Rightarrow> string list" where
  "threshold_settings st = map (\<lambda>k. GetSetting k st) [''level_threshold_2'', ''level_threshold_3'', ''level_threshold_4'']"

lemma levels_ordered_cong:
  assumes "threshold_settings st' = threshold_settings st"
  shows "levels_ordered st' = levels_ordered st"
proof -
  have "LevelThresholds st' = LevelThresholds st"
    using assms by (simp add: LevelThresholds_def GetSettingIntAllowZero_def threshold_settings_def setting_at_least_def)
  then show ?thesis by (simp add: levels_ordered_def)
qed

lemma settings_thresholds: "settings st' = settings st \<Longrightarrow> threshold_settings st' = threshold_settings st"
  by (simp add: threshold_settings_def GetSetting_def)

lemma site_settings: "x = st\<lparr>site_activity_daily := site_activity_daily x\<rparr> \<Longrightarrow> settings x = settings st"
  by (erule ssubst) simp

lemma member_settings [simp]: "settings (update_member i f st) = settings st" "settings (update_user i f st) = settings st"
  by (simp_all add: update_member_def update_user_def)

lemmas stats_settings [simp] = site_settings [OF finalize_only] site_settings [OF adjust_only]

lemma account_settings:
  "settings (setUserDisabledAt i b reason now st) = settings st"
  "settings (unbanUserAt i now st) = settings st"
  "settings (DeleteUserSessions i st) = settings st"
  "settings (BanUser i until reason now st) = settings st"
  "settings (SetUserLevel i l now st) = settings st"
  "settings (SetUserRPMLimits i l1 l2 l3 now st) = settings st"
  "settings (fst (SetCallerKey c now i key st)) = settings st"
  by (simp_all add: setUserDisabledAt_def unbanUserAt_def Let_def DeleteUserSessions_def BanUser_def SetUserLevel_def
      SetUserRPMLimits_def SetCallerKey_def split: option.split)

lemma erase_settings: "settings (erase_user i now u (before_erasure i now st)) = settings st"
  by (simp add: erase_user_def before_erasure_def delete_owned_def forget_review_def forget_reservations_def
      delete_alerts_def Let_def)

lemma batch_settings: "settings (fst (BatchUpdateUserBalance ids field action amount now st)) = settings st"
proof -
  have "settings (fst (balance_loop f ids n st)) = settings st" for f n
    by (induction ids arbitrary: n st) (auto split: option.split)
  then show ?thesis by (auto simp: BatchUpdateUserBalance_def case_prod_beta split: option.split)
qed

lemma delete_settings: "settings (fst (deleteUserAt i now st)) = settings st"
  by (simp add: deleteUserAt_def Let_def erase_settings split: option.split)

lemma anti_abuse_settings:
  "settings (fst (UpsertAntiAbuseConfigs cs now st)) = settings st"
  "settings (fst (GetAntiAbuseConfigs names later st)) = settings st"
  using anti_abuse_only(1) [of cs now st] anti_abuse_only(2) [of names later st] by auto

text \<open>What an accepted body says, and what is read back after it was written.\<close>

lemma level_updates_cases:
  assumes "level_updates b = Some us"
  obtains t2 t3 t4 n1 n2 n3 n4 n5 banner where
    "lb_thresholds b = [Some t2, Some t3, Some t4]" "lb_names b = [Some n1, Some n2, Some n3, Some n4, Some n5]"
    "lb_banner b = Some banner" "0 \<le> t2" "t2 < t3" "t3 < t4"
    "us = [(''level_threshold_2'', Itoa t2), (''level_threshold_3'', Itoa t3), (''level_threshold_4'', Itoa t4),
      (''level_name_1'', n1), (''level_name_2'', n2), (''level_name_3'', n3), (''level_name_4'', n4), (''level_name_5'', n5),
      (''level_banner_text'', banner)]"
proof -
  have those: "those xs = Some ys \<Longrightarrow> xs = map Some ys" for xs :: "'x option list" and ys
    by (induction xs arbitrary: ys) (auto split: option.splits)
  obtain t2 t3 t4 names banner where d: "those (lb_thresholds b) = Some [t2, t3, t4]" "those (lb_names b) = Some names"
      "lb_banner b = Some banner" "length names = 5" "0 \<le> t2" "t2 < t3" "t3 < t4"
      "us = [(''level_threshold_2'', Itoa t2), (''level_threshold_3'', Itoa t3), (''level_threshold_4'', Itoa t4)] @
              zip level_names names @ [(''level_banner_text'', banner)]"
    using assms by (auto simp: level_updates_def not_le split: option.splits list.splits if_split_asm)
  obtain n1 n2 n3 n4 n5 where "names = [n1, n2, n3, n4, n5]"
    using d(4) by (auto simp: length_Suc_conv eval_nat_numeral)
  then show ?thesis using d those [OF d(1)] those [OF d(2)]
    by (intro that [of t2 t3 t4 n1 n2 n3 n4 n5 banner]) (simp_all add: level_names_def)
qed

lemma Itoa_nonempty: "Itoa n \<noteq> []" by (simp add: Itoa_def)

lemma level_settings_written:
  assumes "level_updates b = Some us" "levels_in_range b"
  shows "levels_ordered (SetSettings us st)"
    "levelSettings (SetSettings us st) = (case map the (lb_thresholds b) of [t2, t3, t4] \<Rightarrow> (t2, t3, t4),
       map the (lb_names b), the (lb_banner b))"
proof -
  obtain t2 t3 t4 n1 n2 n3 n4 n5 banner where b: "lb_thresholds b = [Some t2, Some t3, Some t4]"
    "lb_names b = [Some n1, Some n2, Some n3, Some n4, Some n5]" "lb_banner b = Some banner"
    and o: "0 \<le> t2" "t2 < t3" "t3 < t4"
    and us: "us = [(''level_threshold_2'', Itoa t2), (''level_threshold_3'', Itoa t3), (''level_threshold_4'', Itoa t4),
      (''level_name_1'', n1), (''level_name_2'', n2), (''level_name_3'', n3), (''level_name_4'', n4), (''level_name_5'', n5),
      (''level_banner_text'', banner)]"
    by (rule level_updates_cases [OF assms(1)])
  have r: "t2 < 2 ^ 63" "t3 < 2 ^ 63" "t4 < 2 ^ 63" using assms(2) by (simp_all add: levels_in_range_def b)
  have t: "GetSetting ''level_threshold_2'' (SetSettings us st) = Itoa t2"
    "GetSetting ''level_threshold_3'' (SetSettings us st) = Itoa t3"
    "GetSetting ''level_threshold_4'' (SetSettings us st) = Itoa t4"
    by (simp_all add: us GetSettings_set)
  have T: "LevelThresholds (SetSettings us st) = (t2, t3, t4)"
    using o r by (simp add: LevelThresholds_def GetSettingIntAllowZero_def setting_at_least_def t Atoi_Itoa Itoa_nonempty)
  then show "levels_ordered (SetSettings us st)" using o by (simp add: levels_ordered_def)
  have n: "GetSetting ''level_name_1'' (SetSettings us st) = n1" "GetSetting ''level_name_2'' (SetSettings us st) = n2"
    "GetSetting ''level_name_3'' (SetSettings us st) = n3" "GetSetting ''level_name_4'' (SetSettings us st) = n4"
    "GetSetting ''level_name_5'' (SetSettings us st) = n5" "GetSetting ''level_banner_text'' (SetSettings us st) = banner"
    by (simp_all add: us GetSettings_set)
  show "levelSettings (SetSettings us st) = (case map the (lb_thresholds b) of [t2, t3, t4] \<Rightarrow> (t2, t3, t4),
       map the (lb_names b), the (lb_banner b))"
    by (simp add: levelSettings_def T b level_names_def GetSettingString_def n)
qed

lemma admin_effect_levels:
  assumes "admin_effect c B g g'" "levels_ordered (gw_store g)" "\<And>b. b \<in> B \<Longrightarrow> levels_in_range b"
  shows "levels_ordered (gw_store g')"
proof -
  have keep: "levels_ordered st" if "settings st = settings (gw_store g)" for st
    using assms(2) levels_ordered_cong [OF settings_thresholds [OF that]] by simp
  have others: "levels_ordered (SetSettings us (gw_store g))"
    if "\<And>k. k \<in> {''level_threshold_2'', ''level_threshold_3'', ''level_threshold_4''} \<Longrightarrow> k \<notin> fst ` set us" for us
    using assms(2) levels_ordered_cong [of "SetSettings us (gw_store g)" "gw_store g"] that
    by (simp add: threshold_settings_def other_settings)
  show ?thesis
    using assms(1)
  proof (cases rule: admin_effect.cases)
    case (Settings b us)
    have "levels_ordered (SetSettings us (gw_store g))"
      by (rule others) (use settings_updates_keys [OF Settings(2)] in \<open>auto simp: limit_keys_def checkin_keys_def\<close>)
    then show ?thesis by (simp add: Settings)
  next
    case (Levels b us)
    then show ?thesis using level_settings_written(1) assms(3) by simp
  next
    case (Economy master cfg)
    have "levels_ordered (SetSettings (economy_updates master cfg) (gw_store g))"
      by (rule others) (auto simp only: economy_updates_keys, auto simp: economy_keys_def)
    then show ?thesis by (simp add: Economy)
  qed (simp_all add: keep account_settings batch_settings delete_settings anti_abuse_settings assms(2))
qed


section \<open>Properties\<close>

definition signed_admin :: "desk_env \<Rightarrow> string \<Rightarrow> store \<Rightarrow> user option" where
  "signed_admin e token st = (case signed_in e 10 token st of None \<Rightarrow> None | Some u \<Rightarrow> if u_is_admin u then Some u else None)"

lemma requireAdmin_signed: "snd (requireAdmin e token g) = signed_admin e token (gw_store g)"
proof -
  obtain g1 where "currentUser e 10 token g = (g1, signed_in e 10 token (gw_store g))" by (rule currentUserE)
  then show ?thesis by (simp add: requireAdmin_def signed_admin_def)
qed

lemma admin_only_refused:
  assumes "signed_admin e token (gw_store g) = None"
  shows "admin_only e token serve g = (fst (requireAdmin e token g), Inl (Refusal 403 ''forbidden''))"
    "games_admin e token serve' g = (fst (requireAdmin e token g), Inl (Refusal 401 ''unauthorized''))"
  using requireAdmin_signed [of e token g] assms
  by (auto simp: admin_only_def games_admin_def guarded_def adminGuard_def split: prod.splits option.splits)

lemma admin_serve_refused:
  assumes "signed_admin e token (gw_store g) = None"
  shows "sessions_only g (fst (admin_serve ord e token x g)) \<and>
    (snd (admin_serve ord e token x g) = Inl (Refusal 403 ''forbidden'') \<or>
     snd (admin_serve ord e token x g) = Inl (Refusal 401 ''unauthorized''))"
  by (cases x) (simp_all add: handleAdminBanUser_def handleAdminDeleteUser_def handleAdminUnbanUser_def
      handleAdminResetUserKey_def handleAdminSetUserRPM_def handleAdminSetUserLevel_def handleAdminBatchCredits_def
      handleAdminBatchDonationCredit_def batch_balance_def handleAdminPutSettings_def handleAdminPutLevelSettings_def
      handlePutAntiAbuse_def handleAdminGamesPut_def handleAdminGamesRestoreDefaults_def on_target_def
      admin_only_refused [OF assms] requireAdmin_frame outcome_def)

text \<open>C35: The administration is the administrator's alone, and safe. Without the session of an administrator
  who is not banned every request of these endpoints is answered 401 or 403 and changes nothing but the
  bookkeeping of sessions; and whatever request is made, by whom ever, the store stays well formed: ledger,
  accounts, activity statistics, donation applications and their links.\<close>

theorem admin_access:
  "(signed_admin e token (gw_store g) = None \<longrightarrow>
      sessions_only g (fst (admin_serve ord e token x g)) \<and>
      (snd (admin_serve ord e token x g) = Inl (Refusal 403 ''forbidden'') \<or>
       snd (admin_serve ord e token x g) = Inl (Refusal 401 ''unauthorized''))) \<and>
   (system_ok (gw_store g) \<longrightarrow> system_ok (gw_store (fst (admin_serve ord e token x g))))"
  using admin_serve_refused store_runs_ok [OF admin_serve_runs] by blast


text \<open>The level thresholds stay ordered, \<open>0 \<le> t2 < t3 < t4\<close>, under every request of the administration,
  so the four levels are never empty; and level settings that were accepted are read back as they were sent.\<close>

theorem level_settings_kept:
  assumes "levels_ordered (gw_store g)" "\<And>b. x = AdminLevels (Some b) \<Longrightarrow> levels_in_range b"
  shows "levels_ordered (gw_store (fst (admin_serve ord e token x g))) \<and>
    (\<forall>b. x = AdminLevels (Some b) \<and> snd (admin_serve ord e token x g) = Inr () \<longrightarrow>
       levelSettings (gw_store (fst (admin_serve ord e token x g))) =
         (case map the (lb_thresholds b) of [t2, t3, t4] \<Rightarrow> (t2, t3, t4), map the (lb_names b), the (lb_banner b)))"
proof (intro conjI allI impI)
  obtain g1 where g1: "sessions_only g g1" "admin_effect (dk_crypto e) (sent_levels x) g1 (fst (admin_serve ord e token x g))"
    using admin_serve_effect by blast
  have "levels_ordered (gw_store g1)"
    using assms(1) sessions_only_thresholds [OF g1(1)] by (simp add: levels_ordered_def)
  then show "levels_ordered (gw_store (fst (admin_serve ord e token x g)))"
    by (rule admin_effect_levels [OF g1(2)]) (use assms(2) in \<open>simp add: sent_levels_def\<close>)
next
  fix b assume b: "x = AdminLevels (Some b) \<and> snd (admin_serve ord e token x g) = Inr ()"
  then have "\<exists>us st. level_updates b = Some us \<and> gw_store (fst (admin_serve ord e token x g)) = SetSettings us st"
    by (auto simp: handleAdminPutLevelSettings_def outcome_def admin_only_def guarded_def split: sum.splits prod.splits option.splits)
  then obtain us st where "level_updates b = Some us" "gw_store (fst (admin_serve ord e token x g)) = SetSettings us st"
    by blast
  then show "levelSettings (gw_store (fst (admin_serve ord e token x g))) =
      (case map the (lb_thresholds b) of [t2, t3, t4] \<Rightarrow> (t2, t3, t4), map the (lb_names b), the (lb_banner b))"
    using level_settings_written(2) assms(2) b by simp
qed

text \<open>The administrator of the sample desk at work.\<close>

definition sample_levels :: level_body where
  "sample_levels = \<lparr>lb_thresholds = [Some 5, Some 50, Some 500],
     lb_names = [Some ''a'', Some ''b'', Some ''c'', Some ''d'', Some ''e''], lb_banner = Some ''hi''\<rparr>"


lemma levels_accepted:
  "\<lbrakk>signed_admin e token (gw_store g) \<noteq> None; level_updates b \<noteq> None\<rbrakk> \<Longrightarrow>
   snd (admin_serve ord e token (AdminLevels (Some b)) g) = Inr ()"
  using requireAdmin_signed [of e token g]
  by (auto simp: handleAdminPutLevelSettings_def admin_only_def guarded_def adminGuard_def outcome_def put_store_def
      split: prod.split option.split)

theorem admin_access_witness:
  "sessions_only sample_desk (fst (admin_serve id sample_desk_env ''x'' AdminGamesDefaults sample_desk)) \<and>
   system_ok (gw_store (fst (admin_serve id sample_desk_env ''t'' AdminGamesDefaults (sample_desk\<lparr>gw_store := empty_store\<rparr>))))"
proof
  have "signed_admin sample_desk_env ''x'' (gw_store sample_desk) = None" by code_simp
  then show "sessions_only sample_desk (fst (admin_serve id sample_desk_env ''x'' AdminGamesDefaults sample_desk))"
    using admin_access [of sample_desk_env "''x''" sample_desk id AdminGamesDefaults] by blast
  have "system_ok (gw_store (sample_desk\<lparr>gw_store := empty_store\<rparr>))" by (simp add: empty_store_ok)
  then show "system_ok (gw_store (fst (admin_serve id sample_desk_env ''t'' AdminGamesDefaults
      (sample_desk\<lparr>gw_store := empty_store\<rparr>))))"
    using admin_access [of sample_desk_env "''t''" "sample_desk\<lparr>gw_store := empty_store\<rparr>" id AdminGamesDefaults] by blast
qed


theorem level_settings_kept_witness:
  "levels_ordered (gw_store (fst (admin_serve id sample_desk_env ''t'' (AdminLevels (Some sample_levels)) sample_desk))) \<and>
   levelSettings (gw_store (fst (admin_serve id sample_desk_env ''t'' (AdminLevels (Some sample_levels)) sample_desk))) =
     ((5, 50, 500), [''a'', ''b'', ''c'', ''d'', ''e''], ''hi'')"
proof -
  have "levels_ordered (gw_store sample_desk)" by code_simp
  moreover have "levels_in_range sample_levels" by (simp add: sample_levels_def levels_in_range_def)
  moreover have "snd (admin_serve id sample_desk_env ''t'' (AdminLevels (Some sample_levels)) sample_desk) = Inr ()"
  proof (rule levels_accepted)
    show "signed_admin sample_desk_env ''t'' (gw_store sample_desk) \<noteq> None" "level_updates sample_levels \<noteq> None"
      by code_simp+
  qed
  ultimately show ?thesis
    using level_settings_kept [of sample_desk "AdminLevels (Some sample_levels)" id sample_desk_env "''t''"]
    by (simp add: sample_levels_def)
qed

end
