(* ===== verification/Mail.thy ===== *)
theory Mail
  imports Relay Settings "HOL-Library.Multiset"
begin

text \<open>
  Mail to the operator: \<^verbatim>\<open>mailer/\<close>. An event is recorded in the alert center and, when its category is
  switched on, buffered by the cooler of the category, which sends one mail for all events of a window.
  A cooler is modelled with the goroutines it starts, as a step relation with one step per critical section.
  SMTP itself and the two layouts of \<^verbatim>\<open>time.Format\<close> are parameters.
\<close>

section \<open>Event types\<close>

definition EventUserAutoBanned :: string where "EventUserAutoBanned = ''user_auto_banned''"
definition EventDonationInactive :: string where "EventDonationInactive = ''donation_inactive''"
definition EventAdminLoginLocked :: string where "EventAdminLoginLocked = ''admin_login_locked''"
definition EventPricingMissing :: string where "EventPricingMissing = ''pricing_missing''"
definition EventDebugAbuse :: string where "EventDebugAbuse = ''debug_abuse''"

text \<open>The labels in UTF-8.\<close>

definition event_label :: "string \<Rightarrow> string" where
  "event_label et =
    (if et = EventUserAutoBanned then bytes [0xE7, 0x94, 0xA8, 0xE6, 0x88, 0xB7, 0xE8, 0x87, 0xAA, 0xE5, 0x8A, 0xA8, 0xE5, 0xB0, 0x81, 0xE7, 0xA6, 0x81]
     else if et = EventDonationInactive then bytes [0xE6, 0x8D, 0x90, 0xE8, 0xB5, 0xA0, 0xE6, 0x9D, 0xA1, 0xE7, 0x9B, 0xAE, 0xE8, 0x87, 0xAA, 0xE5, 0x8A, 0xA8, 0xE6, 0x9C, 0xAA, 0xE6, 0xBF, 0x80, 0xE6, 0xB4, 0xBB]
     else if et = EventAdminLoginLocked then bytes [0xE7, 0xAE, 0xA1, 0xE7, 0x90, 0x86, 0xE5, 0x91, 0x98, 0xE7, 0x99, 0xBB, 0xE5, 0xBD, 0x95, 0xE9, 0x94, 0x81, 0xE5, 0xAE, 0x9A]
     else if et = EventPricingMissing then bytes [0xE5, 0x85, 0xAC, 0xE7, 0x9B, 0x8A, 0xE5, 0xAE, 0x9A, 0xE4, 0xBB, 0xB7, 0xE7, 0xBC, 0xBA, 0xE5, 0xA4, 0xB1]
     else if et = EventDebugAbuse then bytes [0xE7, 0x94, 0xA8, 0xE6, 0x88, 0xB7] @ '' Debug '' @ bytes [0xE6, 0xBB, 0xA5, 0xE7, 0x94, 0xA8, 0xE5, 0x91, 0x8A, 0xE8, 0xAD, 0xA6]
     else bytes [0xE7, 0xB3, 0xBB, 0xE7, 0xBB, 0x9F, 0xE9, 0x80, 0x9A, 0xE7, 0x9F, 0xA5])"

definition eventSubject :: "string \<Rightarrow> int \<Rightarrow> string" where
  "eventSubject et n =
    bytes [0xE3, 0x80, 0x90] @ ''Dify2API'' @ bytes [0xE3, 0x80, 0x91] @ event_label et @ bytes [0xEF, 0xBC, 0x88] @ Itoa n @ '' '' @ bytes [0xE8, 0xB5, 0xB7, 0xEF, 0xBC, 0x89]"

definition AllEventTypes :: "string list" where
  "AllEventTypes = [EventUserAutoBanned, EventDonationInactive, EventAdminLoginLocked, EventPricingMissing, EventDebugAbuse]"

section \<open>The cooler of a category\<close>

text \<open>The layouts \<open>15:04:05\<close> and \<open>2006-01-02 15:04:05\<close> in the local time zone.\<close>

record mail_env =
  me_clock :: "int \<Rightarrow> string"
  me_stamp :: "int \<Rightarrow> string"

record mail_event =
  ev_at :: int
  ev_summary :: string

text \<open>The done channels are numbered. \<open>co_timer\<close> is the field \<open>timer\<close>: the channel that the timer's
  callback will close. \<open>co_running\<close> holds while \<open>Stop\<close> would still prevent the callback.\<close>

record cooler =
  co_items :: "mail_event list"
  co_timer :: "nat option"
  co_running :: bool
  co_done :: "nat option"
  co_next :: nat

definition newCooler :: cooler where
  "newCooler = \<lparr>co_items = [], co_timer = None, co_running = False, co_done = None, co_next = 0\<rparr>"

text \<open>A \<open>time.Duration\<close> has 64 bits.\<close>

definition cool_window :: "int \<Rightarrow> int" where
  "cool_window minutes = (if 0 < minutes then sint (of_int (minutes * (60 * second)) :: 64 word) else 10 * (60 * second))"

text \<open>The second result is the delay of the timer that was started.\<close>

definition cooler_add :: "int \<Rightarrow> int \<Rightarrow> string \<Rightarrow> cooler \<Rightarrow> cooler \<times> int option" where
  "cooler_add now minutes summary c =
    (let c1 = c\<lparr>co_items := co_items c @ [\<lparr>ev_at = now, ev_summary = summary\<rparr>]\<rparr> in
     if co_timer c1 = None
     then (c1\<lparr>co_done := Some (co_next c), co_timer := Some (co_next c), co_running := True, co_next := co_next c + 1\<rparr>,
           Some (cool_window minutes))
     else (c1, None))"

text \<open>The two critical sections of \<open>flush\<close>; the mail is sent in between.\<close>

definition flush_take :: "cooler \<Rightarrow> cooler \<times> mail_event list" where
  "flush_take c = (c\<lparr>co_items := [], co_timer := None, co_running := False\<rparr>, co_items c)"

definition flush_end :: "nat \<Rightarrow> cooler \<Rightarrow> cooler" where
  "flush_end done c = (if co_done c = Some done then c\<lparr>co_done := None\<rparr> else c)"

definition crlf :: string where "crlf = [CHR 0x0D, CHR 0x0A]"

text \<open>What is sent: nothing, or a subject and a body.\<close>

definition cooler_send :: "mail_env \<Rightarrow> string \<Rightarrow> mail_event list \<Rightarrow> (string \<times> string) option" where
  "cooler_send e et items = (if items = [] then None else
     Some (eventSubject et (int (length items)),
       bytes [0xE6, 0x97, 0xB6, 0xE9, 0x97, 0xB4, 0xE8, 0x8C, 0x83, 0xE5, 0x9B, 0xB4, 0xEF, 0xBC, 0x9A] @ me_stamp e (ev_at (hd items)) @ '' '' @ bytes [0xE2, 0x80, 0x94] @ '' '' @
       me_stamp e (ev_at (last items)) @ crlf @ crlf @
       concat (map (\<lambda>i. ''- '' @ me_clock e (ev_at i) @ '' '' @ ev_summary i @ crlf) items)))"

text \<open>The channel that \<open>shutdown\<close> returns, \<open>None\<close> for one that is closed already, and what the goroutine it
  starts will send.\<close>

definition cooler_shutdown :: "cooler \<Rightarrow> cooler \<times> nat option \<times> mail_event list option" where
  "cooler_shutdown c =
    (case co_done c of None \<Rightarrow> (c, None, None)
     | Some d \<Rightarrow>
        if co_timer c \<noteq> None \<and> co_running c
        then (c\<lparr>co_items := [], co_timer := None, co_running := False\<rparr>, Some d, Some (co_items c))
        else (c, Some d, None))"

section \<open>The mailer\<close>

record mailer =
  ml_coolers :: "(string \<times> cooler) list"
  ml_stopped :: bool

text \<open>\<open>New\<close> gives no mailer without a host. \<open>None\<close> is the nil mailer, on which nothing happens.\<close>

definition NewMailer :: "string \<Rightarrow> mailer option" where
  "NewMailer host = (if TrimSpace host = [] then None else Some \<lparr>ml_coolers = [], ml_stopped = False\<rparr>)"

definition Enabled :: "mailer option \<Rightarrow> bool" where "Enabled m \<longleftrightarrow> m \<noteq> None"

text \<open>The callbacks are those of \<open>NewGateway\<close>: the alert center, the category switch and the window. \<open>now\<close>
  gives the clock in seconds for the alert and in nanoseconds for the event.\<close>

definition queue_event ::
  "int \<Rightarrow> string \<Rightarrow> string \<Rightarrow> int option \<Rightarrow> mailer \<times> store \<Rightarrow> mailer \<times> store" where
  "queue_event now et summary subject = (\<lambda>(m, st).
    if ml_stopped m then (m, st)
    else
      let st1 = AddAdminAlert \<lparr>ar_type = et, ar_message = summary, ar_request_log_id = None, ar_donation_id = None,
                  ar_subject_user_id = subject\<rparr> (unix now) st
      in if \<not> IsAlertEmailEnabled et st1 then (m, st1)
         else let c = (case map_of (ml_coolers m) et of None \<Rightarrow> newCooler | Some c \<Rightarrow> c)
           in (m\<lparr>ml_coolers := map_put et (fst (cooler_add now (GetSettingInt ''mailer_cool_minutes'' 10 st1) summary c))
                 (ml_coolers m)\<rparr>, st1))"

definition on_mailer ::
  "(mailer \<times> store \<Rightarrow> mailer \<times> store) \<Rightarrow> mailer option \<times> store \<Rightarrow> mailer option \<times> store" where
  "on_mailer f = (\<lambda>(m, st). case m of None \<Rightarrow> (None, st) | Some x \<Rightarrow> (case f (x, st) of (x', st') \<Rightarrow> (Some x', st')))"

definition auto_banned_text :: "mail_env \<Rightarrow> string \<Rightarrow> int \<Rightarrow> int \<Rightarrow> int \<Rightarrow> int \<Rightarrow> string" where
  "auto_banned_text e username userID banUntil banHours violations =
    username @ bytes [0xEF, 0xBC, 0x88] @ ''ID'' @ bytes [0xEF, 0xBC, 0x9A] @ Itoa userID @ bytes [0xEF, 0xBC, 0x89, 0xE5, 0x9B, 0xA0] @ '' '' @ Itoa violations @ '' '' @ bytes [0xE6, 0xAC, 0xA1, 0xE8, 0xB6, 0x85, 0xE9, 0x99, 0x90, 0xE8, 0xA2, 0xAB, 0xE8, 0x87, 0xAA, 0xE5, 0x8A, 0xA8, 0xE5, 0xB0, 0x81, 0xE7, 0xA6, 0x81] @ '' '' @ Itoa banHours @
    '' '' @ bytes [0xE5, 0xB0, 0x8F, 0xE6, 0x97, 0xB6, 0xEF, 0xBC, 0x8C, 0xE8, 0x87, 0xB3] @ '' '' @ me_clock e banUntil"

definition UserAutoBanned ::
  "mail_env \<Rightarrow> int \<Rightarrow> string \<Rightarrow> int \<Rightarrow> int \<Rightarrow> int \<Rightarrow> int \<Rightarrow> mailer option \<times> store \<Rightarrow> mailer option \<times> store" where
  "UserAutoBanned e now username userID banUntil banHours violations =
     on_mailer (queue_event now EventUserAutoBanned (auto_banned_text e username userID banUntil banHours violations) (Some userID))"

definition DonationInactiveMail ::
  "int \<Rightarrow> string \<Rightarrow> string \<Rightarrow> int \<Rightarrow> int \<Rightarrow> mailer option \<times> store \<Rightarrow> mailer option \<times> store" where
  "DonationInactiveMail now service model donationID failures = on_mailer (queue_event now EventDonationInactive
     (bytes [0xE6, 0x8D, 0x90, 0xE8, 0xB5, 0xA0, 0xE6, 0x9D, 0xA1, 0xE7, 0x9B, 0xAE] @ '' '' @ Itoa donationID @ bytes [0xEF, 0xBC, 0x88, 0xE6, 0x9C, 0x8D, 0xE5, 0x8A, 0xA1] @ '' '' @ service @ bytes [0xEF, 0xBC, 0x8C, 0xE6, 0xA8, 0xA1, 0xE5, 0x9E, 0x8B] @ '' '' @ model @ bytes [0xEF, 0xBC, 0x89, 0xE8, 0xBF, 0x9E, 0xE7, 0xBB, 0xAD] @ '' '' @ Itoa failures @
      '' '' @ bytes [0xE6, 0xAC, 0xA1, 0xE5, 0xA4, 0xB1, 0xE8, 0xB4, 0xA5, 0xE5, 0x90, 0x8E, 0xE8, 0x87, 0xAA, 0xE5, 0x8A, 0xA8, 0xE8, 0xBD, 0xAC, 0xE4, 0xB8, 0xBA, 0xE6, 0x9C, 0xAA, 0xE6, 0xBF, 0x80, 0xE6, 0xB4, 0xBB]) None)"

definition PricingMissing :: "int \<Rightarrow> string \<Rightarrow> string \<Rightarrow> mailer option \<times> store \<Rightarrow> mailer option \<times> store" where
  "PricingMissing now service model = on_mailer (queue_event now EventPricingMissing
     (bytes [0xE5, 0x85, 0xAC, 0xE7, 0x9B, 0x8A, 0xE6, 0xA8, 0xA1, 0xE5, 0x9E, 0x8B] @ '' ('' @ service @ '', '' @ model @ '') '' @ bytes [0xE5, 0xAD, 0x98, 0xE5, 0x9C, 0xA8, 0xE6, 0x8D, 0x90, 0xE8, 0xB5, 0xA0, 0xE6, 0x9D, 0xA1, 0xE7, 0x9B, 0xAE, 0xE4, 0xBD, 0x86, 0xE7, 0xBC, 0xBA, 0xE5, 0xB0, 0x91, 0xE5, 0xAE, 0x9A, 0xE4, 0xBB, 0xB7, 0xE9, 0x85, 0x8D, 0xE7, 0xBD, 0xAE]) None)"

definition debug_abuse_text :: "string \<Rightarrow> int \<Rightarrow> int \<Rightarrow> int \<Rightarrow> string" where
  "debug_abuse_text username userID sessionCount windowMinutes =
    username @ bytes [0xEF, 0xBC, 0x88] @ ''ID'' @ bytes [0xEF, 0xBC, 0x9A] @ Itoa userID @ bytes [0xEF, 0xBC, 0x89, 0xE5, 0x9C, 0xA8] @ '' '' @ Itoa windowMinutes @ '' '' @ bytes [0xE5, 0x88, 0x86, 0xE9, 0x92, 0x9F, 0xE5, 0x86, 0x85, 0xE5, 0xBC, 0x80, 0xE5, 0x90, 0xAF, 0xE4, 0xBA, 0x86] @ '' '' @ Itoa sessionCount @
    '' '' @ bytes [0xE6, 0xAC, 0xA1] @ '' Debug session''"

definition DebugAbuse ::
  "int \<Rightarrow> string \<Rightarrow> int \<Rightarrow> int \<Rightarrow> int \<Rightarrow> mailer option \<times> store \<Rightarrow> mailer option \<times> store" where
  "DebugAbuse now username userID sessionCount windowMinutes =
     on_mailer (queue_event now EventDebugAbuse (debug_abuse_text username userID sessionCount windowMinutes) (Some userID))"

definition AdminLoginLocked ::
  "mail_env \<Rightarrow> int \<Rightarrow> string \<Rightarrow> int \<Rightarrow> mailer option \<times> store \<Rightarrow> mailer option \<times> store" where
  "AdminLoginLocked e now ip lockUntil = on_mailer (queue_event now EventAdminLoginLocked
     (''IP '' @ ip @ '' '' @ bytes [0xE5, 0x9B, 0xA0, 0xE7, 0x99, 0xBB, 0xE5, 0xBD, 0x95, 0xE5, 0xA4, 0xB1, 0xE8, 0xB4, 0xA5, 0xE6, 0xAC, 0xA1, 0xE6, 0x95, 0xB0, 0xE8, 0xBF, 0x87, 0xE5, 0xA4, 0x9A, 0xE8, 0xA2, 0xAB, 0xE9, 0x94, 0x81, 0xE5, 0xAE, 0x9A, 0xEF, 0xBC, 0x8C, 0xE8, 0x87, 0xB3] @ '' '' @ me_clock e lockUntil) None)"

section \<open>The message\<close>

record smtp_config =
  sc_host :: string
  sc_port :: int
  sc_user :: string
  sc_pass :: string
  sc_from :: string
  sc_to :: string
  sc_tls :: string

definition detectTLSMode :: "int \<Rightarrow> string" where
  "detectTLSMode port = (if port = 465 then ''implicit (auto)'' else ''starttls (auto)'')"

definition implicit_tls :: "smtp_config \<Rightarrow> bool" where
  "implicit_tls cfg \<longleftrightarrow> (if sc_tls cfg = ''implicit'' then True else if sc_tls cfg = ''starttls'' then False
     else sc_port cfg = 465)"

definition smtp_message :: "smtp_config \<Rightarrow> string \<Rightarrow> string \<Rightarrow> string" where
  "smtp_message cfg subject body = ''From: '' @ sc_from cfg @ crlf @ ''To: '' @ sc_to cfg @ crlf @
     ''Subject: '' @ subject @ crlf @ ''Content-Type: text/plain; charset=utf-8'' @ crlf @ crlf @ body"

section \<open>A cooler and its goroutines\<close>

text \<open>\<open>cg_fired\<close> are timer callbacks that wait for the lock, \<open>cg_sending\<close> the goroutines inside
  \<open>sendFunc\<close>, \<open>cg_ending\<close> those that wait to close their channel. \<open>cg_waits\<close> are the channels that
  \<open>Shutdown\<close> got. The last three fields are a ghost record of the events added, the batches taken from the
  buffer and the batches sent, with the outcome.\<close>

record cooling =
  cg_cooler :: cooler
  cg_fired :: "nat list"
  cg_sending :: "(nat \<times> mail_event list) list"
  cg_ending :: "nat list"
  cg_closed :: "nat list"
  cg_waits :: "nat option list"
  cg_stopped :: bool
  cg_cancelled :: bool
  cg_added :: "mail_event list"
  cg_batches :: "mail_event list list"
  cg_sent :: "(mail_event list \<times> bool) list"

definition cooling0 :: cooling where
  "cooling0 = \<lparr>cg_cooler = newCooler, cg_fired = [], cg_sending = [], cg_ending = [], cg_closed = [], cg_waits = [],
     cg_stopped = False, cg_cancelled = False, cg_added = [], cg_batches = [], cg_sent = []\<rparr>"

definition step_add :: "int \<Rightarrow> int \<Rightarrow> string \<Rightarrow> cooling \<Rightarrow> cooling" where
  "step_add now minutes summary s = s\<lparr>cg_cooler := fst (cooler_add now minutes summary (cg_cooler s)),
     cg_added := cg_added s @ [\<lparr>ev_at = now, ev_summary = summary\<rparr>]\<rparr>"

definition step_fire :: "nat \<Rightarrow> cooling \<Rightarrow> cooling" where
  "step_fire d s = s\<lparr>cg_cooler := (cg_cooler s)\<lparr>co_running := False\<rparr>, cg_fired := d # cg_fired s\<rparr>"

definition start_send :: "nat \<Rightarrow> mail_event list \<Rightarrow> cooling \<Rightarrow> cooling" where
  "start_send d items s = s\<lparr>cg_sending := cg_sending s @ [(d, items)], cg_batches := cg_batches s @ [items]\<rparr>"

definition step_flush :: "nat \<Rightarrow> cooling \<Rightarrow> cooling" where
  "step_flush d s = (case flush_take (cg_cooler s) of (c, items) \<Rightarrow>
     start_send d items (s\<lparr>cg_cooler := c, cg_fired := remove1 d (cg_fired s)\<rparr>))"

definition step_sent :: "nat \<Rightarrow> mail_event list \<Rightarrow> bool \<Rightarrow> cooling \<Rightarrow> cooling" where
  "step_sent d items ok s = s\<lparr>cg_sending := remove1 (d, items) (cg_sending s), cg_ending := d # cg_ending s,
     cg_sent := cg_sent s @ [(items, ok)]\<rparr>"

definition step_end :: "nat \<Rightarrow> cooling \<Rightarrow> cooling" where
  "step_end d s = s\<lparr>cg_cooler := flush_end d (cg_cooler s), cg_ending := remove1 d (cg_ending s),
     cg_closed := d # cg_closed s\<rparr>"

definition step_shutdown :: "cooling \<Rightarrow> cooling" where
  "step_shutdown s = (case cooler_shutdown (cg_cooler s) of (c, wait, batch) \<Rightarrow>
     let s1 = s\<lparr>cg_cooler := c, cg_waits := cg_waits s @ [wait]\<rparr>
     in case (wait, batch) of (Some d, Some items) \<Rightarrow> start_send d items s1 | _ \<Rightarrow> s1)"

text \<open>\<open>Shutdown\<close> returns when the channels it waits for are closed, or when its context ends; either way it
  cancels the context of the sends, after which a send fails.\<close>

definition waits_over :: "cooling \<Rightarrow> bool" where
  "waits_over s \<longleftrightarrow> cg_waits s \<noteq> [] \<and> list_all (\<lambda>w. case w of None \<Rightarrow> True | Some d \<Rightarrow> d \<in> set (cg_closed s)) (cg_waits s)"

inductive cooling_step :: "cooling \<Rightarrow> cooling \<Rightarrow> bool" where
  Add: "\<not> cg_stopped s \<Longrightarrow> cooling_step s (step_add now minutes summary s)"
| Fire: "\<lbrakk>co_timer (cg_cooler s) = Some d; co_running (cg_cooler s)\<rbrakk> \<Longrightarrow> cooling_step s (step_fire d s)"
| Flush: "d \<in> set (cg_fired s) \<Longrightarrow> cooling_step s (step_flush d s)"
| Sent: "\<lbrakk>(d, items) \<in> set (cg_sending s); ok \<longrightarrow> \<not> cg_cancelled s\<rbrakk> \<Longrightarrow> cooling_step s (step_sent d items ok s)"
| End: "d \<in> set (cg_ending s) \<Longrightarrow> cooling_step s (step_end d s)"
| Stop: "cooling_step s (s\<lparr>cg_stopped := True\<rparr>)"
| Shutdown: "cg_stopped s \<Longrightarrow> cooling_step s (step_shutdown s)"
| Return: "waits_over s \<Longrightarrow> cooling_step s (s\<lparr>cg_cancelled := True\<rparr>)"
| Deadline: "cg_stopped s \<Longrightarrow> cooling_step s (s\<lparr>cg_cancelled := True\<rparr>)"

abbreviation cooling_runs :: "cooling \<Rightarrow> cooling \<Rightarrow> bool" where "cooling_runs \<equiv> cooling_step\<^sup>*\<^sup>*"

text \<open>The buffer is empty exactly when there is no timer; a timer has not fired, or its callback waits for
  the lock.\<close>

definition timer_ok :: "cooling \<Rightarrow> bool" where
  "timer_ok s \<longleftrightarrow> (let c = cg_cooler s in case co_timer c of
     None \<Rightarrow> co_items c = [] \<and> \<not> co_running c \<and> cg_fired s = []
   | Some d \<Rightarrow> co_items c \<noteq> [] \<and> co_done c = Some d \<and> cg_fired s = (if co_running c then [] else [d]))"

definition batches_ok :: "cooling \<Rightarrow> bool" where
  "batches_ok s \<longleftrightarrow> concat (cg_batches s) @ co_items (cg_cooler s) = cg_added s \<and> [] \<notin> set (cg_batches s) \<and>
     mset (cg_batches s) = mset (map fst (cg_sent s)) + mset (map snd (cg_sending s))"

text \<open>Once \<open>Shutdown\<close> has run, what is still in the buffer belongs to a callback it waits for.\<close>

definition waits_ok :: "cooling \<Rightarrow> bool" where
  "waits_ok s \<longleftrightarrow> (cg_waits s \<noteq> [] \<longrightarrow> cg_stopped s \<and> (case co_timer (cg_cooler s) of None \<Rightarrow> True
     | Some d \<Rightarrow> \<not> co_running (cg_cooler s) \<and> Some d \<in> set (cg_waits s)))"

text \<open>Channels are closed once; the one of the timer is open.\<close>

definition open_ids :: "cooling \<Rightarrow> nat list" where
  "open_ids s = (case co_timer (cg_cooler s) of None \<Rightarrow> [] | Some d \<Rightarrow> [d]) @ map fst (cg_sending s) @ cg_ending s @ cg_closed s"

definition ids_ok :: "cooling \<Rightarrow> bool" where
  "ids_ok s \<longleftrightarrow> distinct (open_ids s) \<and> list_all (\<lambda>d. d < co_next (cg_cooler s)) (open_ids s) \<and>
     (case co_done (cg_cooler s) of None \<Rightarrow> True | Some d \<Rightarrow> d < co_next (cg_cooler s) \<and> d \<notin> set (cg_closed s))"

definition cooling_ok :: "cooling \<Rightarrow> bool" where
  "cooling_ok s \<longleftrightarrow> timer_ok s \<and> batches_ok s \<and> waits_ok s \<and> ids_ok s"

lemmas cooling_defs = timer_ok_def batches_ok_def waits_ok_def Let_def

lemma cooling0_ok: "cooling_ok cooling0"
  by (simp add: cooling_ok_def cooling_defs cooling0_def newCooler_def ids_ok_def open_ids_def)

lemma removed_batch [simp]: "(d, items) \<in> set xs \<Longrightarrow>
   add_mset items (image_mset snd (mset xs - {#(d, items)#})) = image_mset snd (mset xs)"
proof -
  assume "(d, items) \<in> set xs"
  then have "image_mset snd (mset xs) = image_mset snd (add_mset (d, items) (mset xs - {#(d, items)#}))" by simp
  then show ?thesis by (simp only: image_mset_add_mset snd_conv)
qed

lemmas cooling_steps = step_add_def cooler_add_def step_fire_def step_flush_def flush_take_def start_send_def
  step_sent_def step_end_def flush_end_def step_shutdown_def cooler_shutdown_def

lemma timer_not_ending: "ids_ok s \<Longrightarrow> co_timer (cg_cooler s) = Some d \<Longrightarrow> d \<notin> set (cg_ending s)"
  by (simp add: ids_ok_def open_ids_def)

lemma step_timer:
  assumes "cooling_step s s'" "timer_ok s" "ids_ok s"
  shows "timer_ok s'"
  using assms(1)
proof (cases rule: cooling_step.cases)
  case (End d)
  have "co_done (cg_cooler s) = Some d \<Longrightarrow> co_timer (cg_cooler s) = None"
    using assms(2) timer_not_ending [OF assms(3)] End(2) by (auto simp: timer_ok_def Let_def split: option.splits)
  then show ?thesis using assms(2) by (auto simp: End(1) timer_ok_def Let_def step_end_def flush_end_def split: option.splits)
qed (use assms(2) in \<open>auto simp: timer_ok_def Let_def cooling_steps split: option.splits if_split_asm\<close>)

lemma step_batches:
  assumes "cooling_step s s'" "timer_ok s" "batches_ok s"
  shows "batches_ok s'"
  using assms(1)
  by (cases rule: cooling_step.cases)
    (use assms(2,3) in \<open>auto simp: cooling_defs cooling_steps split: option.splits if_split_asm\<close>)

lemma step_waits:
  assumes "cooling_step s s'" "timer_ok s" "waits_ok s"
  shows "waits_ok s'"
  using assms(1)
  by (cases rule: cooling_step.cases)
    (use assms(2,3) in \<open>auto simp: cooling_defs cooling_steps split: option.splits if_split_asm\<close>)

lemma removed_id: "(d, x) \<in> set xs \<Longrightarrow> mset (map fst xs) = add_mset d (image_mset fst (mset (remove1 (d, x) xs)))"
  by (induction xs) auto

text \<open>A step moves channels between the stages, or starts the next one.\<close>

lemma step_open:
  assumes "cooling_step s s'" "timer_ok s"
  shows "mset (open_ids s') = mset (open_ids s) \<and> co_next (cg_cooler s') = co_next (cg_cooler s) \<or>
    mset (open_ids s') = add_mset (co_next (cg_cooler s)) (mset (open_ids s)) \<and> co_next (cg_cooler s') = co_next (cg_cooler s) + 1"
  using assms(1)
proof (cases rule: cooling_step.cases)
  case (Sent d items ok)
  then show ?thesis using removed_id [OF Sent(2)] by (simp add: open_ids_def step_sent_def)
next
  case (End d)
  then show ?thesis by (simp add: open_ids_def step_end_def flush_end_def)
qed (use assms(2) in \<open>auto simp: timer_ok_def Let_def open_ids_def cooling_steps split: option.splits if_split_asm\<close>)

lemma step_ids:
  assumes "cooling_step s s'" "timer_ok s" "ids_ok s"
  shows "ids_ok s'"
proof -
  have old: "distinct (open_ids s)" "\<And>d. d \<in># mset (open_ids s) \<Longrightarrow> d < co_next (cg_cooler s)"
    using assms(3) by (auto simp: ids_ok_def list_all_iff)
  have "distinct (open_ids s') \<and> (\<forall>d \<in># mset (open_ids s'). d < co_next (cg_cooler s'))"
    using step_open [OF assms(1,2)]
  proof
    assume m: "mset (open_ids s') = mset (open_ids s) \<and> co_next (cg_cooler s') = co_next (cg_cooler s)"
    then show ?thesis using old mset_eq_imp_distinct_iff [of "open_ids s'" "open_ids s"] by metis
  next
    assume m: "mset (open_ids s') = add_mset (co_next (cg_cooler s)) (mset (open_ids s)) \<and>
      co_next (cg_cooler s') = co_next (cg_cooler s) + 1"
    then have "mset (open_ids s') = mset (co_next (cg_cooler s) # open_ids s)" by simp
    then have "distinct (open_ids s') = distinct (co_next (cg_cooler s) # open_ids s)" by (rule mset_eq_imp_distinct_iff)
    moreover have "distinct (co_next (cg_cooler s) # open_ids s)" using old by auto
    ultimately show ?thesis using m old(2) by (auto simp: less_Suc_eq)
  qed
  moreover have "case co_done (cg_cooler s') of None \<Rightarrow> True
      | Some d \<Rightarrow> d < co_next (cg_cooler s') \<and> d \<notin> set (cg_closed s')"
    using assms(1)
    by (cases rule: cooling_step.cases)
      (use assms(3) in \<open>auto simp: ids_ok_def open_ids_def list_all_iff cooling_steps
        split: option.splits if_split_asm\<close>)
  ultimately show ?thesis by (simp add: ids_ok_def list_all_iff)
qed

lemma cooling_runs_ok: "cooling_runs cooling0 s \<Longrightarrow> cooling_ok s"
proof (induction rule: rtranclp_induct)
  case (step s s')
  then show ?case by (auto simp: cooling_ok_def intro: step_timer step_batches step_waits step_ids)
qed (rule cooling0_ok)

section \<open>Properties\<close>

text \<open>C37: No event of the mailer is lost or sent twice. However adding, timers, callbacks, sends and the
  shutdown interleave, the batches taken so far followed by the buffer are exactly the events that were
  queued, in order; every batch is in one send, running or finished, and none is empty; a buffer with
  events has a timer, so they will be sent; no done channel is closed twice; and when the channels that the
  shutdown waits for are closed, the buffer is empty.\<close>

theorem mail_exactly_once:
  assumes "cooling_runs cooling0 s"
  shows "concat (cg_batches s) @ co_items (cg_cooler s) = cg_added s \<and>
    mset (cg_batches s) = mset (map fst (cg_sent s)) + mset (map snd (cg_sending s)) \<and> [] \<notin> set (cg_batches s) \<and>
    (co_items (cg_cooler s) = [] \<or> co_running (cg_cooler s) \<or> (\<exists>d. cg_fired s = [d])) \<and>
    distinct (cg_closed s) \<and> (waits_over s \<longrightarrow> co_items (cg_cooler s) = [])"
proof -
  have ok: "timer_ok s" "batches_ok s" "waits_ok s" "ids_ok s"
    using cooling_runs_ok [OF assms] by (simp_all add: cooling_ok_def)
  have "co_items (cg_cooler s) = [] \<or> co_running (cg_cooler s) \<or> (\<exists>d. cg_fired s = [d])"
    using ok(1) by (auto simp: timer_ok_def Let_def split: option.splits)
  moreover have "co_items (cg_cooler s) = []" if w: "waits_over s"
  proof (cases "co_timer (cg_cooler s)")
    case None
    then show ?thesis using ok(1) by (simp add: timer_ok_def Let_def)
  next
    case (Some d)
    then have "Some d \<in> set (cg_waits s)" using ok(3) w by (simp add: waits_ok_def waits_over_def)
    then have "d \<in> set (cg_closed s)" using w by (auto simp: waits_over_def list_all_iff)
    then show ?thesis using ok(4) Some by (simp add: ids_ok_def open_ids_def)
  qed
  moreover have "distinct (cg_closed s)" using ok(4) by (simp add: ids_ok_def open_ids_def)
  ultimately show ?thesis using ok(2) by (simp add: batches_ok_def)
qed

text \<open>An event is added while the mail before it is being sent; then the gateway shuts down.\<close>

definition busy_cooling :: cooling where
  "busy_cooling = step_add 2 10 ''b'' (step_flush 0 (step_fire 0 (step_add 1 10 ''a'' cooling0)))"

definition shut_cooling :: cooling where
  "shut_cooling = step_end 1 (step_sent 1 [\<lparr>ev_at = 2, ev_summary = ''b''\<rparr>] True
     (step_shutdown (busy_cooling\<lparr>cg_stopped := True\<rparr>)))"

lemmas busy_defs = busy_cooling_def shut_cooling_def cooling0_def newCooler_def cooling_steps Let_def

lemma busy_runs: "cooling_runs cooling0 busy_cooling"
proof -
  have "cooling_step cooling0 (step_add 1 10 ''a'' cooling0)" (is "cooling_step _ ?s1")
    by (rule cooling_step.Add) (simp add: cooling0_def)
  moreover have "cooling_step ?s1 (step_fire 0 ?s1)" (is "cooling_step _ ?s2")
    by (rule cooling_step.Fire) (simp_all add: busy_defs)
  moreover have "cooling_step ?s2 (step_flush 0 ?s2)" (is "cooling_step _ ?s3")
    by (rule cooling_step.Flush) (simp add: busy_defs)
  moreover have "cooling_step ?s3 busy_cooling"
    unfolding busy_cooling_def by (rule cooling_step.Add) (simp add: busy_defs)
  ultimately show ?thesis by (meson converse_rtranclp_into_rtranclp rtranclp.rtrancl_refl)
qed

lemma shut_runs: "cooling_runs cooling0 shut_cooling"
proof -
  have "cooling_step busy_cooling (busy_cooling\<lparr>cg_stopped := True\<rparr>)" (is "cooling_step _ ?s1") by (rule cooling_step.Stop)
  moreover have "cooling_step ?s1 (step_shutdown ?s1)" (is "cooling_step _ ?s2")
    by (rule cooling_step.Shutdown) simp
  moreover have "cooling_step ?s2 (step_sent 1 [\<lparr>ev_at = 2, ev_summary = ''b''\<rparr>] True ?s2)" (is "cooling_step _ ?s3")
    by (rule cooling_step.Sent) (simp_all add: busy_defs)
  moreover have "cooling_step ?s3 shut_cooling"
    unfolding shut_cooling_def by (rule cooling_step.End) (simp add: busy_defs)
  ultimately have "cooling_runs busy_cooling shut_cooling"
    by (meson converse_rtranclp_into_rtranclp rtranclp.rtrancl_refl)
  then show ?thesis by (rule rtranclp_trans [OF busy_runs])
qed

theorem mail_exactly_once_witness:
  "mset (cg_batches shut_cooling) = mset (map fst (cg_sent shut_cooling)) + mset (map snd (cg_sending shut_cooling)) \<and>
   map (map ev_summary) (cg_batches shut_cooling) = [[''a''], [''b'']]"
  using mail_exactly_once [OF shut_runs] by (simp add: busy_defs)

text \<open>The shutdown waits for the last channel of a cooler only: it can return, and cancel the context of
  the sends, while an earlier mail is still being sent.\<close>

theorem shutdown_abandons_send:
  "\<exists>s d items. cooling_runs cooling0 s \<and> waits_over s \<and> (d, items) \<in> set (cg_sending s) \<and> items \<noteq> []"
  by (rule exI [of _ shut_cooling], rule exI [of _ 0], rule exI [of _ "[\<lparr>ev_at = 1, ev_summary = ''a''\<rparr>]"])
    (simp add: shut_runs, simp add: waits_over_def busy_defs)

lemma last_index_without: "a \<in> set sub \<Longrightarrow> a \<notin> set s \<Longrightarrow> last_index sub s = None"
proof (induction s)
  case (Cons b s)
  then have "\<not> prefix sub (b # s)" using set_mono_prefix [of sub "b # s"] by auto
  then show ?case using Cons by simp
qed auto

lemma separators_89: "CHR 0x89 \<in> set banned_separator" "CHR 0x89 \<in> set abuse_separator"
  by (simp_all add: banned_separator_def abuse_separator_def)

lemma Itoa_89: "CHR 0x89 \<notin> set (Itoa k)"
proof -
  have "CHR 0x89 \<notin> set (itoa m)" for m using itoa_digits [of m] by (auto simp: is_digit_def)
  then show ?thesis by (simp add: Itoa_def)
qed

definition banned_rest :: "mail_env \<Rightarrow> int \<Rightarrow> int \<Rightarrow> int \<Rightarrow> string" where
  "banned_rest e banUntil banHours violations = Itoa violations @ '' '' @ bytes [0xE6, 0xAC, 0xA1, 0xE8, 0xB6, 0x85, 0xE9, 0x99, 0x90, 0xE8, 0xA2, 0xAB, 0xE8, 0x87, 0xAA, 0xE5, 0x8A, 0xA8, 0xE5, 0xB0, 0x81, 0xE7, 0xA6, 0x81] @ '' '' @ Itoa banHours @
    '' '' @ bytes [0xE5, 0xB0, 0x8F, 0xE6, 0x97, 0xB6, 0xEF, 0xBC, 0x8C, 0xE8, 0x87, 0xB3] @ '' '' @ me_clock e banUntil"

definition abuse_rest :: "int \<Rightarrow> int \<Rightarrow> string" where
  "abuse_rest sessionCount windowMinutes = Itoa windowMinutes @ '' '' @ bytes [0xE5, 0x88, 0x86, 0xE9, 0x92, 0x9F, 0xE5, 0x86, 0x85, 0xE5, 0xBC, 0x80, 0xE5, 0x90, 0xAF, 0xE4, 0xBA, 0x86] @ '' '' @ Itoa sessionCount @ '' '' @ bytes [0xE6, 0xAC, 0xA1] @ '' Debug session''"

lemma mail_texts:
  "auto_banned_text e username userID banUntil banHours violations =
     username @ id_marker @ Itoa userID @ banned_separator @ banned_rest e banUntil banHours violations"
  "debug_abuse_text username userID sessionCount windowMinutes =
     username @ id_marker @ Itoa userID @ abuse_separator @ abuse_rest sessionCount windowMinutes"
  by (simp_all add: auto_banned_text_def debug_abuse_text_def banned_rest_def abuse_rest_def id_marker_def
      banned_separator_def abuse_separator_def bytes_def char_of_def bit_Suc_0_iff)

lemma rests_89:
  "CHR 0x89 \<notin> set (me_clock e banUntil) \<Longrightarrow> CHR 0x89 \<notin> set (banned_rest e banUntil banHours violations)"
  "CHR 0x89 \<notin> set (abuse_rest sessionCount windowMinutes)"
  by (simp_all add: banned_rest_def abuse_rest_def Itoa_89 bytes_def char_of_def bit_Suc_0_iff)

text \<open>An alert the mailer writes about a user is attributed to that user when the account is deleted,
  whatever the user name contains: the parser of old alerts inverts the two texts.\<close>

theorem mailer_alerts_attributed:
  assumes "0 < userID" "userID < 2 ^ 63" "CHR 0x89 \<notin> set (me_clock e banUntil)"
  shows "legacyAlertSubjectID EventUserAutoBanned (auto_banned_text e username userID banUntil banHours violations) = Some userID \<and>
    legacyAlertSubjectID EventDebugAbuse (debug_abuse_text username userID sessionCount windowMinutes) = Some userID"
proof -
  have n: "Itoa userID = itoa (nat userID)" "int (nat userID) = userID" "0 < nat userID" "nat userID < 2 ^ 63"
    using assms(1,2) by (simp_all add: Itoa_def)
  have s: "subject_separator EventUserAutoBanned = Some banned_separator" "subject_separator EventDebugAbuse = Some abuse_separator"
    by (simp_all add: subject_separator_def EventUserAutoBanned_def EventDebugAbuse_def)
  note absent = last_index_without [OF separators_89(1) rests_89(1)] last_index_without [OF separators_89(2) rests_89(2)]
  show ?thesis
    unfolding mail_texts n(1)
    using legacy_subject_not_forgeable [OF s(1) absent(1) [OF assms(3)] n(3,4)]
      legacy_subject_not_forgeable [OF s(2) absent(2) n(3,4)] n(2) by simp
qed

theorem mailer_alerts_attributed_witness:
  "legacyAlertSubjectID EventUserAutoBanned (auto_banned_text \<lparr>me_clock = (\<lambda>_. ''12:30:00''), me_stamp = (\<lambda>_. [])\<rparr>
     (''eve'' @ id_marker @ ''9'' @ banned_separator) 12 0 24 5) = Some 12"
  by (rule mailer_alerts_attributed [THEN conjunct1]) simp_all

end
