(* ===== verification/Dates.thy ===== *)
theory Dates
  imports GoStrings
begin

text \<open>
  Calendar dates of \<^verbatim>\<open>time\<close> with the layout \<^verbatim>\<open>2006-01-02\<close>: the date of a day number (days since
  1970-01-01) in the proleptic Gregorian calendar, the day number of a date, and the text. Two days have the
  same text only if they are equal, and a text is accepted exactly when it is the text of a day.
\<close>

section \<open>The date of a day\<close>

text \<open>Years begin on 1 March inside the computation; an era has 400 years.\<close>

definition day_of_era :: "int \<Rightarrow> int" where "day_of_era d = (d + 719468) mod 146097"
definition era_of :: "int \<Rightarrow> int" where "era_of d = (d + 719468) div 146097"

definition year_of_era :: "int \<Rightarrow> int \<times> int" where
  "year_of_era doe =
    (let cent = min 3 (doe div 36524); r = doe - 36524 * cent;
         quad = r div 1461; q = r - 1461 * quad;
         yr = min 3 (q div 365)
     in (100 * cent + 4 * quad + yr, q - 365 * yr))"

definition month_day :: "int \<Rightarrow> int \<times> int" where
  "month_day doy = (let mp = (5 * doy + 2) div 153 in (mp, doy - (153 * mp + 2) div 5 + 1))"

definition civil :: "int \<Rightarrow> int \<times> int \<times> int" where
  "civil d = (case year_of_era (day_of_era d) of (yoe, doy) \<Rightarrow> case month_day doy of (mp, dd) \<Rightarrow>
     (era_of d * 400 + yoe + (if 10 \<le> mp then 1 else 0), if mp < 10 then mp + 3 else mp - 9, dd))"

definition days_from_civil :: "int \<times> int \<times> int \<Rightarrow> int" where
  "days_from_civil = (\<lambda>(y0, m, dd).
    let y = (if m \<le> 2 then y0 - 1 else y0); era = y div 400; yoe = y mod 400;
        mp = (if 2 < m then m - 3 else m + 9);
        doy = (153 * mp + 2) div 5 + dd - 1
    in era * 146097 + (yoe * 365 + yoe div 4 - yoe div 100 + doy) - 719468)"

lemma doe_range: "0 \<le> day_of_era d" "day_of_era d < 146097"
  by (simp_all add: day_of_era_def)

lemma year_of_era_inverse:
  assumes "0 \<le> doe" "doe < 146097" "year_of_era doe = (yoe, doy)"
  shows "0 \<le> yoe \<and> yoe < 400 \<and> 0 \<le> doy \<and> doy < 366 \<and> doe = yoe * 365 + yoe div 4 - yoe div 100 + doy"
proof -
  define cent where "cent = min 3 (doe div 36524)"
  define r where "r = doe - 36524 * cent"
  define quad where "quad = r div 1461"
  define q where "q = r - 1461 * quad"
  define yr where "yr = min 3 (q div 365)"
  have c: "0 \<le> cent" "cent \<le> 3" "0 \<le> r" "r \<le> 36524" "cent < 3 \<Longrightarrow> r < 36524"
    using assms(1,2) by (auto simp: cent_def r_def min_def split: if_splits) (presburger+)?
  have q: "0 \<le> quad" "quad \<le> 24" "0 \<le> q" "q < 1461" using c by (simp_all add: quad_def q_def minus_mult_div_eq_mod)
  have y: "0 \<le> yr" "yr \<le> 3" "0 \<le> q - 365 * yr" "q - 365 * yr < 366"
    using q(3,4) by (auto simp: yr_def min_def split: if_splits) (presburger+)?
  have e: "yoe = 100 * cent + 4 * quad + yr" "doy = q - 365 * yr"
    using assms(3) by (simp_all add: year_of_era_def Let_def flip: cent_def r_def quad_def q_def yr_def)
  have d: "yoe div 100 = cent" "yoe div 4 = 25 * cent + quad" using q y c by (auto simp: e) (presburger+)?
  show ?thesis using c q y unfolding d unfolding e(2) by (auto simp: e(1) r_def q_def)
qed

lemma month_day_inverse:
  assumes "0 \<le> doy" "doy < 366" "month_day doy = (mp, dd)"
  shows "0 \<le> mp \<and> mp \<le> 11 \<and> 1 \<le> dd \<and> dd \<le> 31 \<and> doy = (153 * mp + 2) div 5 + dd - 1"
proof -
  have e: "mp = (5 * doy + 2) div 153" "dd = doy - (153 * mp + 2) div 5 + 1"
    using assms(3) by (auto simp: month_day_def Let_def)
  define k where "k = (153 * mp + 2) div 5"
  have m: "153 * mp \<le> 5 * doy + 2" "5 * doy + 2 < 153 * mp + 153" unfolding e(1) by simp_all
  have "5 * k \<le> 153 * mp + 2" "153 * mp + 2 < 5 * k + 5" unfolding k_def by simp_all
  then have "1 \<le> doy - k + 1" "doy - k + 1 \<le> 31" using m by linarith+
  moreover have "0 \<le> mp" "mp \<le> 11" using m assms(1,2) by linarith+
  ultimately show ?thesis using e(2) unfolding k_def by simp
qed

lemma days_of_civil: "days_from_civil (civil d) = d"
proof -
  obtain yoe doy where y: "year_of_era (day_of_era d) = (yoe, doy)" by (cases "year_of_era (day_of_era d)")
  obtain mp dd where m: "month_day doy = (mp, dd)" by (cases "month_day doy")
  have yo: "0 \<le> yoe" "yoe < 400" "day_of_era d = yoe * 365 + yoe div 4 - yoe div 100 + doy" "0 \<le> doy" "doy < 366"
    using year_of_era_inverse [OF doe_range y] by auto
  have mo: "0 \<le> mp" "mp \<le> 11" "doy = (153 * mp + 2) div 5 + dd - 1"
    using month_day_inverse [OF yo(4,5) m] by auto
  have c: "civil d = (era_of d * 400 + yoe + (if 10 \<le> mp then 1 else 0), if mp < 10 then mp + 3 else mp - 9, dd)"
    by (simp only: civil_def y m prod.case)
  have "days_from_civil (civil d) = era_of d * 146097 + day_of_era d - 719468"
    using yo(1,2) mo(1,2) unfolding yo(3) mo(3) c by (auto simp: days_from_civil_def Let_def)
  then show ?thesis unfolding era_of_def day_of_era_def by simp
qed

lemma civil_inject: "civil d = civil e \<longleftrightarrow> d = e"
  using days_of_civil by metis

lemma civil_fields: "civil d = (y, m, dd) \<Longrightarrow> 1 \<le> m \<and> m \<le> 12 \<and> 1 \<le> dd \<and> dd \<le> 31"
proof -
  assume c: "civil d = (y, m, dd)"
  obtain yoe doy where y: "year_of_era (day_of_era d) = (yoe, doy)" by (cases "year_of_era (day_of_era d)")
  obtain mp dd' where m: "month_day doy = (mp, dd')" by (cases "month_day doy")
  have "0 \<le> doy" "doy < 366" using year_of_era_inverse [OF doe_range y] by auto
  moreover have "civil d = (era_of d * 400 + yoe + (if 10 \<le> mp then 1 else 0), if mp < 10 then mp + 3 else mp - 9, dd')"
    by (simp only: civil_def y m prod.case)
  ultimately show ?thesis using month_day_inverse [OF _ _ m] c by (simp split: if_splits)
qed

section \<open>Lengths of the months\<close>

definition is_leap :: "int \<Rightarrow> bool" where
  "is_leap y \<longleftrightarrow> y mod 4 = 0 \<and> (y mod 100 \<noteq> 0 \<or> y mod 400 = 0)"

definition daysIn :: "int \<Rightarrow> int \<Rightarrow> int" where
  "daysIn m y = (if m = 2 then if is_leap y then 29 else 28 else if m \<in> {4, 6, 9, 11} then 30 else 31)"

text \<open>29 February is in the years that have one.\<close>

lemma year_end:
  assumes "0 \<le> doe" "doe < 146097" "year_of_era doe = (yoe, 365)"
  shows "(yoe + 1) mod 4 = 0 \<and> ((yoe + 1) mod 100 \<noteq> 0 \<or> yoe + 1 = 400)"
proof -
  define cent where "cent = min 3 (doe div 36524)"
  define r where "r = doe - 36524 * cent"
  define quad where "quad = r div 1461"
  define q where "q = r - 1461 * quad"
  define yr where "yr = min 3 (q div 365)"
  have c: "0 \<le> cent" "cent \<le> 3" "0 \<le> r" "r \<le> 36524" "cent < 3 \<Longrightarrow> r < 36524"
    using assms(1,2) by (auto simp: cent_def r_def min_def split: if_splits) (presburger+)?
  have q: "0 \<le> quad" "quad \<le> 24" "0 \<le> q" "q < 1461" using c by (simp_all add: quad_def q_def minus_mult_div_eq_mod)
  have e: "yoe = 100 * cent + 4 * quad + yr" "q - 365 * yr = 365"
    using assms(3) by (simp_all add: year_of_era_def Let_def flip: cent_def r_def quad_def q_def yr_def)
  have yr: "yr = 3 \<and> q = 1460" using q(3,4) e(2) by (auto simp: yr_def min_def split: if_splits) (presburger+)?
  then have "quad = 24 \<Longrightarrow> cent = 3" using c by (force simp: q_def)
  moreover have "(yoe + 1) mod 4 = 0" unfolding e(1) using yr by presburger
  moreover have "quad < 24 \<Longrightarrow> (yoe + 1) mod 100 \<noteq> 0" unfolding e(1) using yr q(1) by presburger
  moreover have "quad = 24 \<Longrightarrow> cent = 3 \<Longrightarrow> yoe + 1 = 400" unfolding e(1) using yr by simp
  ultimately show ?thesis using q(2) by linarith
qed

lemma civil_valid: "civil d = (y, m, dd) \<Longrightarrow> 1 \<le> m \<and> m \<le> 12 \<and> 1 \<le> dd \<and> dd \<le> daysIn m y"
proof -
  assume c: "civil d = (y, m, dd)"
  obtain yoe doy where yd: "year_of_era (day_of_era d) = (yoe, doy)" by (cases "year_of_era (day_of_era d)")
  obtain mp dd' where md: "month_day doy = (mp, dd')" by (cases "month_day doy")
  have doy: "0 \<le> yoe" "yoe < 400" "0 \<le> doy" "doy < 366" using year_of_era_inverse [OF doe_range yd] by auto
  have mo: "0 \<le> mp" "mp \<le> 11" "doy = (153 * mp + 2) div 5 + dd' - 1" "mp = (5 * doy + 2) div 153"
    using month_day_inverse [OF doy(3,4) md] md by (auto simp: month_day_def Let_def)
  have eq: "y = era_of d * 400 + yoe + (if 10 \<le> mp then 1 else 0)" "m = (if mp < 10 then mp + 3 else mp - 9)" "dd = dd'"
    using c by (simp_all add: civil_def yd md)
  have up: "5 * doy + 2 < 153 * mp + 153" unfolding mo(4) by simp
  have leap: "is_leap y \<or> dd' \<noteq> 29" if "mp = 11"
  proof -
    have "doy = 365" if "dd' = 29" using mo(3) \<open>mp = 11\<close> that by simp
    then have *: "(yoe + 1) mod 4 = 0 \<and> ((yoe + 1) mod 100 \<noteq> 0 \<or> yoe + 1 = 400)" if "dd' = 29"
      using year_end [OF doe_range] yd that by simp
    have y: "y = 400 * era_of d + (yoe + 1)" using eq(1) that by simp
    have "y = 4 * (100 * era_of d) + (yoe + 1)" "y = 100 * (4 * era_of d) + (yoe + 1)" using y by simp_all
    then have "y mod 4 = (yoe + 1) mod 4" "y mod 100 = (yoe + 1) mod 100" "y mod 400 = (yoe + 1) mod 400"
      using y by (metis mod_mult_self4)+
    then show ?thesis using * by (auto simp: is_leap_def)
  qed
  have "mp = 0 \<or> mp = 1 \<or> mp = 2 \<or> mp = 3 \<or> mp = 4 \<or> mp = 5 \<or> mp = 6 \<or> mp = 7 \<or> mp = 8 \<or> mp = 9 \<or>
      mp = 10 \<or> mp = 11" using mo(1,2) by presburger
  then have "dd' \<le> daysIn m y"
    using mo(3) up doy(4) leap by (elim disjE) (simp_all add: eq(2) daysIn_def, linarith?)
  then show ?thesis using civil_fields [OF c] eq(3) by simp
qed

section \<open>The text of a date\<close>

definition pad :: "nat \<Rightarrow> int \<Rightarrow> string" where
  "pad w n = replicate (w - length (itoa (nat n))) CHR ''0'' @ itoa (nat n)"

text \<open>\<open>Format\<close> with the layout, for a year that is not negative.\<close>

definition date_text :: "int \<Rightarrow> string" where
  "date_text d = (case civil d of (y, m, dd) \<Rightarrow> pad 4 y @ ''-'' @ pad 2 m @ ''-'' @ pad 2 dd)"

text \<open>\<open>Parse\<close> with the layout; the result is a day number.\<close>

definition parse_date :: "string \<Rightarrow> int option" where
  "parse_date s =
    (let y = take 4 s; m = take 2 (drop 5 s); dd = drop 8 s in
     if length s = 10 \<and> list_all is_digit y \<and> s ! 4 = CHR ''-'' \<and> list_all is_digit m \<and> s ! 7 = CHR ''-'' \<and>
        list_all is_digit dd
     then let y = int (dec_value y); m = int (dec_value m); dd = int (dec_value dd) in
       if 1 \<le> m \<and> m \<le> 12 \<and> 1 \<le> dd \<and> dd \<le> daysIn m y then Some (days_from_civil (y, m, dd)) else None
     else None)"

lemma dec_value_zeros: "dec_value (replicate k CHR ''0'' @ s) = dec_value s"
  by (induction k) (simp_all add: dec_value_def)

lemma dec_value_pad: "0 \<le> n \<Longrightarrow> int (dec_value (pad w n)) = n"
  by (simp add: pad_def dec_value_zeros dec_value_itoa)

lemma pad_digits: "list_all is_digit (pad w n)" "CHR ''-'' \<notin> set (pad w n)"
  using itoa_digits [of "nat n"] by (auto simp: pad_def list_all_iff is_digit_def)

lemma itoa_length: "n < 10 ^ k \<Longrightarrow> 0 < k \<Longrightarrow> length (itoa n) \<le> k"
proof (induction n arbitrary: k rule: itoa.induct)
  case (1 n)
  show ?case
  proof (cases "n < 10")
    case True then show ?thesis using 1(3) by (subst itoa.simps) simp
  next
    case False
    then obtain j where k: "k = Suc j" "0 < j" using 1(2,3) by (cases k) (auto, metis gr0I power_0 mult_1_right)
    then have "n div 10 < 10 ^ j" using 1(2) by auto
    then show ?thesis using 1(1) [OF False _ k(2)] False k by (subst itoa.simps) simp
  qed
qed

lemma pad_length: "\<lbrakk>0 \<le> n; n < 10 ^ w; 0 < w\<rbrakk> \<Longrightarrow> length (pad w n) = w"
proof -
  assume n: "0 \<le> n" "n < 10 ^ w" "0 < w"
  then have "nat n < 10 ^ w" by (simp add: nat_less_iff)
  then show ?thesis using itoa_length [OF _ n(3)] by (simp add: pad_def)
qed

lemma split_at_dash: "\<lbrakk>a @ ''-'' @ b = c @ ''-'' @ d; CHR ''-'' \<notin> set a; CHR ''-'' \<notin> set c\<rbrakk> \<Longrightarrow> a = c \<and> b = d"
  by (auto simp: append_eq_append_conv2 Cons_eq_append_conv append_eq_Cons_conv)

lemma date_text_inject:
  assumes "0 \<le> fst (civil d)" "0 \<le> fst (civil e)" "date_text d = date_text e"
  shows "d = e"
proof -
  obtain y m dd y' m' dd' where c: "civil d = (y, m, dd)" "civil e = (y', m', dd')" by (metis prod_cases3)
  have t: "pad 4 y @ ''-'' @ pad 2 m @ ''-'' @ pad 2 dd = pad 4 y' @ ''-'' @ pad 2 m' @ ''-'' @ pad 2 dd'"
    using assms(3) by (simp add: date_text_def c)
  note s1 = split_at_dash [OF t pad_digits(2) pad_digits(2)]
  note s2 = split_at_dash [OF s1 [THEN conjunct2] pad_digits(2) pad_digits(2)]
  have "pad 4 y = pad 4 y'" "pad 2 m = pad 2 m'" "pad 2 dd = pad 2 dd'" using s1 s2 by blast+
  then have "y = y' \<and> m = m' \<and> dd = dd'"
    using dec_value_pad assms(1,2) civil_fields [OF c(1)] civil_fields [OF c(2)] c by (metis fst_conv zero_le_one order_trans)
  then show ?thesis using c civil_inject by metis
qed

lemma parse_date_text: "0 \<le> fst (civil d) \<Longrightarrow> fst (civil d) < 10000 \<Longrightarrow> parse_date (date_text d) = Some d"
proof -
  assume b: "0 \<le> fst (civil d)" "fst (civil d) < 10000"
  obtain y m dd where c: "civil d = (y, m, dd)" by (cases "civil d") auto
  note v = civil_valid [OF c] and f = civil_fields [OF c]
  have l: "length (pad 4 y) = 4" "length (pad 2 m) = 2" "length (pad 2 dd) = 2"
    using pad_length [of y 4] pad_length [of m 2] pad_length [of dd 2] b f by (simp_all add: c)
  have "parse_date (pad 4 y @ ''-'' @ pad 2 m @ ''-'' @ pad 2 dd) = Some (days_from_civil (y, m, dd))"
    using v b dec_value_pad [of y 4] dec_value_pad [of m 2] dec_value_pad [of dd 2]
    by (simp add: parse_date_def Let_def l nth_append pad_digits(1) c)
  moreover have "days_from_civil (y, m, dd) = d" using days_of_civil [of d] unfolding c .
  ultimately show ?thesis by (simp add: date_text_def c)
qed

end
