(* ===== verification/Console.thy ===== *)
theory Console
  imports Admin Login Dates
begin

text \<open>
  The users' own pages: \<^verbatim>\<open>handler/configs.go\<close>, \<^verbatim>\<open>handler/callerkey.go\<close>, \<^verbatim>\<open>handler/checkin.go\<close>,
  \<^verbatim>\<open>handler/games.go\<close>, the account endpoints of \<^verbatim>\<open>handler/auth.go\<close> and \<^verbatim>\<open>handler/export.go\<close>, and the report
  of \<^verbatim>\<open>handler/activity.go\<close>. The state is the gateway with its two limiters per user. The clock points 14 to
  17 are those of \<open>Desk\<close>.
\<close>

section \<open>State and environment\<close>

record console =
  cn_gw :: gateway
  cn_probes :: probe_limiter
  cn_starts :: probe_limiter

text \<open>\<open>ue_tz\<close> is \<open>CheckinTZOffset\<close> in hours, \<open>ue_intn\<close> the generator behind \<open>rand.Intn\<close>, the rest what the
  store draws when it makes keys and rounds; \<open>ue_ord\<close> is the iteration order of a map.\<close>

record user_env =
  ue_desk :: desk_env
  ue_tz :: int
  ue_intn :: "int \<Rightarrow> int"
  ue_key :: string
  ue_round :: string
  ue_draws :: draws
  ue_ord :: "(string \<times> int) list \<Rightarrow> (string \<times> int) list"
  ue_site :: string

abbreviation ue_now :: "user_env \<Rightarrow> nat \<Rightarrow> int" where "ue_now e k \<equiv> dk_now (ue_desk e) k"
abbreviation ue_unix :: "user_env \<Rightarrow> nat \<Rightarrow> int" where "ue_unix e k \<equiv> dk_unix (ue_desk e) k"
abbreviation ue_crypto :: "user_env \<Rightarrow> crypto" where "ue_crypto e \<equiv> dk_crypto (ue_desk e)"

definition signed_request ::
  "user_env \<Rightarrow> string \<Rightarrow> (user \<Rightarrow> gateway \<Rightarrow> gateway \<times> 'a reply) \<Rightarrow> gateway \<Rightarrow> gateway \<times> 'a reply" where
  "signed_request e token serve g = guarded (userGuard (ue_desk e) token g) serve"

section \<open>The account\<close>

definition handleMe :: "user_env \<Rightarrow> string \<Rightarrow> gateway \<Rightarrow> gateway \<times> (user \<times> level_view) reply" where
  "handleMe e token = signed_request e token (\<lambda>u g. (g, Inr (u, resolveLevelView u (gw_store g))))"

definition handleSetLang :: "user_env \<Rightarrow> string \<Rightarrow> string option \<Rightarrow> gateway \<Rightarrow> gateway \<times> string reply" where
  "handleSetLang e token body = signed_request e token (\<lambda>u g.
     case body of None \<Rightarrow> bad_request g | Some lang \<Rightarrow>
     if lang \<noteq> ''zh'' \<and> lang \<noteq> ''en'' then bad_request g
     else (g\<lparr>gw_store := SetUserLang (u_id u) lang (ue_unix e 15) (gw_store g)\<rparr>, Inr lang))"

text \<open>The key is null while the user has none.\<close>

definition handleGetCallerKey :: "user_env \<Rightarrow> string \<Rightarrow> gateway \<Rightarrow> gateway \<times> string option reply" where
  "handleGetCallerKey e token = signed_request e token (\<lambda>u g.
     case GetCallerKeyPlain (ue_crypto e) (u_id u) (gw_store g) of None \<Rightarrow> internal g
     | Some key \<Rightarrow> (g, Inr (if key \<noteq> [] then Some key else None)))"

definition handleResetCallerKey :: "user_env \<Rightarrow> string \<Rightarrow> gateway \<Rightarrow> gateway \<times> string reply" where
  "handleResetCallerKey e token = signed_request e token (\<lambda>u g.
     case run_store (SetCallerKey (ue_crypto e) (ue_unix e 15) (u_id u) (ue_key e)) g of
       (g1, None) \<Rightarrow> internal g1
     | (g1, Some key) \<Rightarrow> (recordConsoleActivity (ue_desk e) (u_id u) g1, Inr key))"

text \<open>The reply clears the cookie.\<close>

definition handleMeDelete ::
  "user_env \<Rightarrow> string \<Rightarrow> string \<Rightarrow> string \<Rightarrow> gateway \<Rightarrow> gateway \<times> cookie reply" where
  "handleMeDelete e verb token confirm g =
    (if verb \<noteq> ''DELETE'' then (g, Inl (Refusal 405 ''method_not_allowed''))
     else signed_request e token (\<lambda>u g.
       if u_is_admin u then (g, Inl (Refusal 403 ''forbidden''))
       else if confirm \<noteq> ''DELETE'' then (g, Inl (Refusal 400 ''confirmation_required''))
       else case run_store (deleteUserAt (u_id u) (ue_unix e 15)) g of
         (g1, Inl _) \<Rightarrow> internal g1
       | (g1, Inr _) \<Rightarrow>
           (if token \<noteq> [] then g1\<lparr>gw_store := DeleteSession token (gw_store g1)\<rparr> else g1,
            Inr (ClearSessionCookie (ue_site e)))) g)"

section \<open>Check-in\<close>

text \<open>The number of the day in the time zone of the check-in, and the Unix time of the next midnight there.\<close>

definition local_day :: "int \<Rightarrow> int \<Rightarrow> int" where
  "local_day tz now = (now + tz * 3600 * second) div (86400 * second)"

definition next_checkin :: "int \<Rightarrow> int \<Rightarrow> int" where
  "next_checkin tz now = (local_day tz now + 1) * 86400 - tz * 3600"

record checkin_view =
  cv_checked_in :: bool
  cv_next_at :: int
  cv_capped :: "bool option"

definition handleCheckinStatus :: "user_env \<Rightarrow> string \<Rightarrow> gateway \<Rightarrow> gateway \<times> checkin_view reply" where
  "handleCheckinStatus e token = signed_request e token (\<lambda>u g.
     let st = gw_store g; cap = GetSettingIntAllowZero ''credits_cap'' 500 st in
     if cap = 0 then (g, Inr \<lparr>cv_checked_in = True, cv_next_at = 9999999999, cv_capped = None\<rparr>)
     else let done = (u_last_checkin_day u = date_text (local_day (ue_tz e) (ue_now e 14))) in
       (g, Inr \<lparr>cv_checked_in = done, cv_next_at = next_checkin (ue_tz e) (ue_now e 14),
          cv_capped = Some (\<not> done \<and> cap \<le> u_credits u \<and> \<not> checkinCapExempt u st)\<rparr>))"

definition checkin_bonus :: "user_env \<Rightarrow> store \<Rightarrow> int" where
  "checkin_bonus e st = (let lo = GetSettingInt ''checkin_min'' 140 st; hi = GetSettingInt ''checkin_max'' 160 st in
     if lo < hi then lo + ue_intn e (hi - lo + 1) else lo)"

definition handleCheckin :: "user_env \<Rightarrow> string \<Rightarrow> string \<Rightarrow> gateway \<Rightarrow> gateway \<times> (int \<times> int) reply" where
  "handleCheckin e verb token g =
    (if verb \<noteq> ''POST'' then (g, Inl (Refusal 405 ''method_not_allowed''))
     else signed_request e token (\<lambda>u g.
       if u_is_admin u then bad_request g
       else let st = gw_store g; today = date_text (local_day (ue_tz e) (ue_now e 14));
                cap = GetSettingIntAllowZero ''credits_cap'' 500 st in
         if cap = 0 then (g, Inl (Refusal 400 ''checkin_disabled''))
         else case run_store (ApplyUserCheckin (u_id u) today (checkin_bonus e st) cap (checkinCapExempt u st) (ue_unix e 15)) g of
           (g1, None) \<Rightarrow> internal g1
         | (g1, Some (CheckinAlready, _)) \<Rightarrow> (g1, Inl (Refusal 400 ''already_checked_in''))
         | (g1, Some (CheckinCapped, _)) \<Rightarrow> (g1, Inl (Refusal 400 ''credits_capped''))
         | (g1, Some (CheckinApplied, awarded, credits)) \<Rightarrow> (g1, Inr (awarded, credits))) g)"

section \<open>App configurations\<close>

record config_request =
  rq_model :: string
  rq_base_url :: string
  rq_api_key :: string
  rq_note :: string

definition bracketed_backend :: "string \<Rightarrow> bool" where
  "bracketed_backend model \<longleftrightarrow> (case index_byte (CHR '']'') model of None \<Rightarrow> False
     | Some i \<Rightarrow> 0 < i \<and> i + 1 < length model \<and>
         list_ex (\<lambda>c. c = CHR ''['' \<or> c = CHR '']'') (drop (i + 1) model))"

text \<open>The normalized request, or \<open>None\<close> with one of the messages.\<close>

definition validate_config :: "desk_env \<Rightarrow> config_request \<Rightarrow> config_request option" where
  "validate_config e r0 =
    (let r = \<lparr>rq_model = TrimSpace (rq_model r0), rq_base_url = trim_slashes (TrimSpace (rq_base_url r0)),
           rq_api_key = TrimSpace (rq_api_key r0), rq_note = TrimSpace (rq_note r0)\<rparr> in
     if rq_model r = [] then None
     else if sublist charity_prefix (rq_model r) then None
     else if bracketed_backend (rq_model r) then None
     else if ServiceOfModel (rq_model r) = [] then None
     else if \<not> IsSupportedService (ServiceOfModel (rq_model r)) then None
     else case check_base e (rq_base_url r) of Inl _ \<Rightarrow> None
     | Inr base \<Rightarrow> if rq_api_key r = [] then None else Some (r\<lparr>rq_base_url := base\<rparr>))"

definition normalizeAppParamsForBinding ::
  "call_env \<Rightarrow> int \<Rightarrow> string \<Rightarrow> (string \<times> bool) list \<Rightarrow> store \<Rightarrow> (string \<times> bool) list" where
  "normalizeAppParamsForBinding env userID service params st =
    (if \<not> serviceHasTemplate service then params
     else case LatestGenerationMapping (ce_mapping env) userID service ''personal'' st of
       Inl _ \<Rightarrow> params | Inr mapping \<Rightarrow> normalize_params mapping params)"

text \<open>The verdict: over the user's limit, no answer for a public reason, or the comparison.\<close>

datatype binding_verdict = BindingLimited | BindingFailed public_message | BindingChecked app_param_check

definition checkAppBinding ::
  "desk_env \<Rightarrow> int \<Rightarrow> string \<Rightarrow> string \<Rightarrow> string \<Rightarrow> console \<Rightarrow> console \<times> binding_verdict" where
  "checkAppBinding e userID model baseURL apiKey s =
    (let d = ce_dify (dk_env e); g = cn_gw s; service = ServiceOfModel model in
     case probe_allow userID (GetSettingInt ''probe_limit_per_user'' 5 (gw_store g)) (dk_now e 17) (cn_probes s) of
       (l, False) \<Rightarrow> (s\<lparr>cn_probes := l\<rparr>, BindingLimited)
     | (l, True) \<Rightarrow> let s1 = s\<lparr>cn_probes := l\<rparr> in
        if \<not> dk_slot e then (s1, BindingFailed (sanitizePublicUpstreamError None (ce_ctx_text (dk_env e))))
        else case newDifyClient d baseURL apiKey (cf_response_mb (dk_cfg e)) of
          Inl m \<Rightarrow> (s1, BindingFailed (sanitizePublicUpstreamError None (de_egress_text d m)))
        | Inr c \<Rightarrow> (s1\<lparr>cn_gw := send_call c FetchParams g\<rparr>,
            case FetchParametersContext d c of
              Inl m \<Rightarrow> BindingFailed (sanitizePublicUpstreamError (Some m) (error_text m))
            | Inr params \<Rightarrow> BindingChecked (CheckAppParams service
                (normalizeAppParamsForBinding (dk_env e) userID service params (gw_store g)))))"

definition bindingUnchanged :: "crypto \<Rightarrow> app_config option \<Rightarrow> config_request \<Rightarrow> bool" where
  "bindingUnchanged c existing r \<longleftrightarrow> (case existing of None \<Rightarrow> False
     | Some x \<Rightarrow> c_model x = rq_model r \<and> c_dify_base_url x = rq_base_url r \<and>
         cr_decrypt c (c_dify_api_key_enc x) = Some (rq_api_key r))"

text \<open>The key of a configuration never leaves the store.\<close>

record config_view =
  vc_id :: int
  vc_model :: string
  vc_base_url :: string
  vc_note :: string
  vc_has_key :: bool
  vc_enabled :: bool
  vc_created_at :: int
  vc_updated_at :: int

definition appConfigJSON :: "app_config \<Rightarrow> config_view" where
  "appConfigJSON c = \<lparr>vc_id = c_id c, vc_model = c_model c, vc_base_url = c_dify_base_url c, vc_note = c_note c,
     vc_has_key = (c_dify_api_key_enc c \<noteq> []), vc_enabled = c_enabled c, vc_created_at = c_created_at c,
     vc_updated_at = c_updated_at c\<rparr>"

definition handleListConfigs :: "user_env \<Rightarrow> string \<Rightarrow> gateway \<Rightarrow> gateway \<times> config_view list reply" where
  "handleListConfigs e token = signed_request e token (\<lambda>u g.
     (g, Inr (map appConfigJSON (ListAppConfigs (u_id u) (gw_store g)))))"

text \<open>The list of services, or those that the donation form offers.\<close>

definition handleListServices :: "user_env \<Rightarrow> string \<Rightarrow> string \<Rightarrow> gateway \<Rightarrow> gateway \<times> string list reply" where
  "handleListServices e token donation = signed_request e token (\<lambda>u g.
     (g, Inr (if donation = ''1'' then filter (\<lambda>s. IsServiceDonationSelectable s (gw_store g)) serviceNames
       else serviceNames)))"

text \<open>An endpoint that also uses the limiters.\<close>

definition on_console ::
  "user_env \<Rightarrow> string \<Rightarrow> (user \<Rightarrow> console \<Rightarrow> console \<times> 'a reply) \<Rightarrow> console \<Rightarrow> console \<times> 'a reply" where
  "on_console e token serve s = (case userGuard (ue_desk e) token (cn_gw s) of
     (g1, Inl r) \<Rightarrow> (s\<lparr>cn_gw := g1\<rparr>, Inl r) | (g1, Inr u) \<Rightarrow> serve u (s\<lparr>cn_gw := g1\<rparr>))"

abbreviation console_bad :: "console \<Rightarrow> console \<times> 'a reply" where
  "console_bad s \<equiv> (s, Inl (Refusal 400 ''invalid_request''))"

text \<open>The reply: the row, the verdict on its App unless nothing the verdict depends on changed, and whether the
  address looks like the gateway's own.\<close>

type_synonym config_reply = "(config_view \<times> binding_verdict option \<times> bool) reply"

definition create_config :: "user_env \<Rightarrow> config_request option \<Rightarrow> user \<Rightarrow> console \<Rightarrow> console \<times> config_reply" where
  "create_config e body u s = (case Option.bind body (validate_config (ue_desk e)) of None \<Rightarrow> console_bad s | Some r \<Rightarrow>
     case run_store (CreateAppConfig (ue_crypto e) (ue_unix e 15) (u_id u) (rq_model r) (rq_base_url r) (rq_api_key r) (rq_note r))
         (cn_gw s) of
       (g1, None) \<Rightarrow> (s\<lparr>cn_gw := g1\<rparr>, Inl (if config_clash (u_id u) (rq_model r) (gw_store g1)
          \<and> cr_encrypt (ue_crypto e) (rq_api_key r) \<noteq> None \<and> user_row (u_id u) (gw_store g1) \<noteq> None
          then Refusal 409 ''conflict'' else Refusal 500 ''internal''))
     | (g1, Some c) \<Rightarrow>
         let s1 = s\<lparr>cn_gw := recordConsoleActivity (ue_desk e) (u_id u) g1\<rparr> in
         case checkAppBinding (ue_desk e) (u_id u) (rq_model r) (rq_base_url r) (rq_api_key r) s1 of
           (s2, v) \<Rightarrow> (s2, Inr (appConfigJSON c, Some v, selfSiteNotice (ue_desk e) (rq_base_url r))))"

definition handleCreateConfig :: "user_env \<Rightarrow> string \<Rightarrow> config_request option \<Rightarrow> console \<Rightarrow> console \<times> config_reply" where
  "handleCreateConfig e token body = on_console e token (create_config e body)"

text \<open>A row that is gone when the reply is built is a nil dereference, which ends the connection.\<close>

definition aborted :: refusal where "aborted = Refusal 0 ''aborted''"

definition edit_config ::
  "user_env \<Rightarrow> string \<Rightarrow> config_request option \<Rightarrow> user \<Rightarrow> console \<Rightarrow> console \<times> config_reply" where
  "edit_config e path body u s = (case Atoi path of None \<Rightarrow> console_bad s | Some i \<Rightarrow>
     case Option.bind body (validate_config (ue_desk e)) of None \<Rightarrow> console_bad s | Some r \<Rightarrow>
     let existing = GetAppConfig i (gw_store (cn_gw s)) in
     case run_store (UpdateAppConfig (ue_crypto e) (ue_unix e 15) i (u_id u) (rq_model r) (rq_base_url r) (rq_api_key r) (rq_note r))
         (cn_gw s) of
       (g1, False) \<Rightarrow> (s\<lparr>cn_gw := g1\<rparr>, Inl (if cr_encrypt (ue_crypto e) (rq_api_key r) = None then Refusal 500 ''internal''
          else if count_where (owned_config i (u_id u)) (app_configs (gw_store g1)) = 0 then Refusal 404 ''not_found''
          else Refusal 409 ''conflict''))
     | (g1, True) \<Rightarrow>
         let s1 = s\<lparr>cn_gw := recordConsoleActivity (ue_desk e) (u_id u) g1\<rparr> in
         case GetAppConfig i (gw_store (cn_gw s1)) of None \<Rightarrow> (s1, Inl aborted) | Some c \<Rightarrow>
         if bindingUnchanged (ue_crypto e) existing r
         then (s1, Inr (appConfigJSON c, None, selfSiteNotice (ue_desk e) (rq_base_url r)))
         else case checkAppBinding (ue_desk e) (u_id u) (rq_model r) (rq_base_url r) (rq_api_key r) s1 of
           (s2, v) \<Rightarrow> (s2, Inr (appConfigJSON c, Some v, selfSiteNotice (ue_desk e) (rq_base_url r))))"

definition handleUpdateConfig ::
  "user_env \<Rightarrow> string \<Rightarrow> string \<Rightarrow> config_request option \<Rightarrow> console \<Rightarrow> console \<times> config_reply" where
  "handleUpdateConfig e token path body = on_console e token (edit_config e path body)"

text \<open>Toggling and deleting answer 404 for a row of somebody else.\<close>

definition on_own_config ::
  "user_env \<Rightarrow> (store \<Rightarrow> store \<times> bool) \<Rightarrow> user \<Rightarrow> gateway \<Rightarrow> gateway \<times> unit reply" where
  "on_own_config e f u g = (case run_store f g of
     (g1, False) \<Rightarrow> not_found g1 | (g1, True) \<Rightarrow> (recordConsoleActivity (ue_desk e) (u_id u) g1, Inr ()))"

definition handleToggleConfig ::
  "user_env \<Rightarrow> string \<Rightarrow> string \<Rightarrow> bool option \<Rightarrow> gateway \<Rightarrow> gateway \<times> unit reply" where
  "handleToggleConfig e token path body = signed_request e token (\<lambda>u g.
     case Atoi path of None \<Rightarrow> bad_request g | Some i \<Rightarrow>
     case body of None \<Rightarrow> bad_request g
     | Some enabled \<Rightarrow> on_own_config e (SetAppConfigEnabled i (u_id u) enabled (ue_unix e 15)) u g)"

definition handleDeleteConfig :: "user_env \<Rightarrow> string \<Rightarrow> string \<Rightarrow> gateway \<Rightarrow> gateway \<times> unit reply" where
  "handleDeleteConfig e token path = signed_request e token (\<lambda>u g.
     case Atoi path of None \<Rightarrow> bad_request g | Some i \<Rightarrow> on_own_config e (DeleteAppConfig i (u_id u)) u g)"

section \<open>Mini-games\<close>

definition gameStartLimitPerUser :: int where "gameStartLimitPerUser = 30"

definition handleGamesList ::
  "user_env \<Rightarrow> string \<Rightarrow> gateway \<Rightarrow> gateway \<times> (bool \<times> int \<times> bool \<times> bool \<times> fishing_config) reply" where
  "handleGamesList e token = signed_request e token (\<lambda>u g.
     let st = gw_store g; master = GamesMasterEnabled st; fishing = FishingConfig st;
         anon = (case LeaderboardAnon (u_id u) st of None \<Rightarrow> False | Some a \<Rightarrow> a)
     in (g, Inr (master, u_credits u, anon, master \<and> fc_enabled fishing, fishing)))"

fun start_refusal :: "game_error \<Rightarrow> refusal" where
  "start_refusal ErrGamesDisabled = Refusal 403 ''games_disabled''"
| "start_refusal ErrGameDisabled = Refusal 403 ''game_disabled''"
| "start_refusal ErrBaitUnknown = Refusal 400 ''invalid_request''"
| "start_refusal ErrAdminCannotPlay = Refusal 400 ''invalid_request''"
| "start_refusal ErrCreditsTooLow = Refusal 403 ''insufficient_credits''"
| "start_refusal _ = Refusal 500 ''internal''"

text \<open>The reply: the round, its bait and price, and the credits left, computed from the row that the guard read.\<close>

definition handleFishingStart ::
  "user_env \<Rightarrow> string \<Rightarrow> string option \<Rightarrow> console \<Rightarrow> console \<times> (string \<times> string \<times> int \<times> int) reply" where
  "handleFishingStart e token body = on_console e token (\<lambda>u s.
     let st = gw_store (cn_gw s); cfg = FishingConfig st in
     if u_is_admin u then console_bad s
     else if \<not> GamesMasterEnabled st then (s, Inl (Refusal 403 ''games_disabled''))
     else if \<not> fc_enabled cfg then (s, Inl (Refusal 403 ''game_disabled''))
     else case probe_allow (u_id u) gameStartLimitPerUser (ue_now e 14) (cn_starts s) of
       (l, False) \<Rightarrow> (s\<lparr>cn_starts := l\<rparr>, Inl (Refusal 429 ''rate_limited''))
     | (l, True) \<Rightarrow> let s1 = s\<lparr>cn_starts := l\<rparr> in
        case body of None \<Rightarrow> console_bad s1 | Some bait \<Rightarrow>
        case run_store (StartFishingRound (ue_round e) (ue_ord e) (ue_draws e) (u_id u) bait cfg (ue_unix e 15)) (cn_gw s1) of
          (g1, Inl err) \<Rightarrow> (s1\<lparr>cn_gw := g1\<rparr>, Inl (start_refusal err))
        | (g1, Inr r) \<Rightarrow> (s1\<lparr>cn_gw := g1\<rparr>, Inr (g_id r, g_bait_tier r, g_price r, u_credits u - g_price r)))"

definition handleFishingSettle ::
  "user_env \<Rightarrow> string \<Rightarrow> string option \<Rightarrow> gateway \<Rightarrow> gateway \<times> fishing_result reply" where
  "handleFishingSettle e token body = signed_request e token (\<lambda>u g.
     case body of None \<Rightarrow> bad_request g | Some roundID \<Rightarrow>
     if roundID = [] then bad_request g
     else case run_store (SettleFishingRound (u_id u) roundID (ue_unix e 15)) g of
       (g1, Inl err) \<Rightarrow> (g1, Inl (if err = ErrRoundNotFound then Refusal 404 ''round_not_found'' else Refusal 500 ''internal''))
     | (g1, Inr (res, _)) \<Rightarrow> (g1, Inr res))"

definition handleFishingLeaderboard ::
  "user_env \<Rightarrow> string \<Rightarrow> string \<Rightarrow> gateway \<Rightarrow> gateway \<times> (leaderboard_entry list \<times> leaderboard_entry option) reply" where
  "handleFishingLeaderboard e token board0 = signed_request e token (\<lambda>u g.
     let board = (if board0 = [] then ''single'' else board0) in
     if board \<noteq> ''single'' \<and> board \<noteq> ''total'' then bad_request g
     else case FishingLeaderboard GameIDFishing board (u_id u) (ue_unix e 15) (gw_store g) of
       Inl _ \<Rightarrow> internal g | Inr res \<Rightarrow> (g, Inr res))"

definition handleGamesAnonymous :: "user_env \<Rightarrow> string \<Rightarrow> bool option \<Rightarrow> gateway \<Rightarrow> gateway \<times> bool reply" where
  "handleGamesAnonymous e token body = signed_request e token (\<lambda>u g.
     case body of None \<Rightarrow> bad_request g
     | Some anon \<Rightarrow> (g\<lparr>gw_store := SetLeaderboardAnon (u_id u) anon (ue_unix e 15) (gw_store g)\<rparr>, Inr anon))"

section \<open>The activity report\<close>

text \<open>The number of days of a range; \<open>Sub\<close> saturates a duration at 64 bits.\<close>

definition range_days :: "int \<Rightarrow> int \<Rightarrow> int" where
  "range_days since until = min ((until - since) * 86400 * second) (2 ^ 63 - 1) div (86400 * second) + 1"

text \<open>Days in, Unix times out.\<close>

definition parseActivityRange :: "string \<Rightarrow> string \<Rightarrow> int \<Rightarrow> (int \<times> int) option" where
  "parseActivityRange sinceRaw untilRaw now =
    (if sinceRaw = [] \<and> untilRaw = [] then Some (utcDay now - 27 * 86400, utcDay now)
     else if sinceRaw = [] \<or> untilRaw = [] then None
     else case parse_date sinceRaw of None \<Rightarrow> None | Some since \<Rightarrow>
     if date_text since \<noteq> sinceRaw then None
     else case parse_date untilRaw of None \<Rightarrow> None | Some until \<Rightarrow>
     if date_text until \<noteq> untilRaw \<or> until < since then None
     else if range_days since until < 1 \<or> ActivityRetentionDays < range_days since until then None
     else Some (since * 86400, until * 86400))"

definition handleAdminActivityStats ::
  "desk_env \<Rightarrow> string \<Rightarrow> string \<Rightarrow> string \<Rightarrow> gateway \<Rightarrow> gateway \<times> activity_stats reply" where
  "handleAdminActivityStats e token sinceRaw untilRaw = admin_only e token (\<lambda>g.
     case parseActivityRange sinceRaw untilRaw (dk_unix e 14) of None \<Rightarrow> bad_request g
     | Some (since, until) \<Rightarrow> (case run_store (ActivityStats since until (dk_unix e 14)) g of
         (g1, None) \<Rightarrow> internal g1 | (g1, Some s) \<Rightarrow> (g1, Inr s)))"

section \<open>Lemmas\<close>

text \<open>A request of a signed-in user is served with the user's row.\<close>

lemma userGuard_user:
  assumes "signed_in e 10 token (gw_store g) = Some u"
  obtains ss where "userGuard e token g = (g\<lparr>gw_store := (gw_store g)\<lparr>sessions := ss\<rparr>\<rparr>, Inr u)"
    "user_row (u_id u) (gw_store g) = Some u"
proof -
  obtain g1 where g1: "currentUser e 10 token g = (g1, Some u)" "sessions_only g g1"
    using currentUserE [of e 10 token g] assms by metis
  then obtain ss where "g1 = g\<lparr>gw_store := (gw_store g)\<lparr>sessions := ss\<rparr>\<rparr>" by (auto simp: sessions_only_def)
  moreover obtain i where i: "user_row i (gw_store g) = Some u"
    using assms by (auto simp: signed_in_def session_holder_def GetUserByID_def split: if_split_asm option.split_asm)
  moreover have "u_id u = i" using by_key_SomeD [OF i] by simp
  ultimately show ?thesis using g1(1) by (intro that) (simp_all add: userGuard_def)
qed

lemma userGuard_none:
  "signed_in e 10 token (gw_store g) = None \<Longrightarrow>
   \<exists>g1. userGuard e token g = (g1, Inl (Refusal 401 ''unauthorized'')) \<and> sessions_only g g1"
proof -
  assume n: "signed_in e 10 token (gw_store g) = None"
  obtain g1 where "currentUser e 10 token g = (g1, signed_in e 10 token (gw_store g))" "sessions_only g g1"
    by (rule currentUserE)
  then show ?thesis by (simp add: userGuard_def n)
qed

lemma user_row_sessions [simp]: "user_row i (st\<lparr>sessions := ss\<rparr>) = user_row i st" by simp

lemma settings_sessions [simp]:
  "GetSettingInt k d (st\<lparr>sessions := ss\<rparr>) = GetSettingInt k d st"
  "GetSettingIntAllowZero k d (st\<lparr>sessions := ss\<rparr>) = GetSettingIntAllowZero k d st"
  "checkinCapExempt u (st\<lparr>sessions := ss\<rparr>) = checkinCapExempt u st"
  "checkin_bonus e (st\<lparr>sessions := ss\<rparr>) = checkin_bonus e st"
  by (simp_all add: GetSettingInt_def GetSettingIntAllowZero_def setting_at_least_def GetSetting_def checkinCapExempt_def
      checkin_bonus_def)

lemma div_less_mult: "0 < (k :: int) \<Longrightarrow> x div k < n \<longleftrightarrow> x < n * k"
proof -
  assume k: "0 < k"
  have "n * k \<le> x" if "n \<le> x div k"
  proof -
    have "n * k \<le> x div k * k" using that k by (simp add: mult_right_mono)
    also have "\<dots> \<le> x" using k div_mult_mod_eq [of x k] pos_mod_sign [OF k, of x] by linarith
    finally show ?thesis .
  qed
  moreover have "n \<le> x div k" if "n * k \<le> x" using zdiv_mono1 [OF that k] k by simp
  ultimately show ?thesis by (meson not_le)
qed

text \<open>A later time is on the same day of the zone exactly before the next midnight.\<close>

lemma same_local_day: "now \<le> t \<Longrightarrow> local_day tz t = local_day tz now \<longleftrightarrow> unix t < next_checkin tz now"
proof -
  assume "now \<le> t"
  define D where "D = local_day tz now"
  have le: "D \<le> local_day tz t" unfolding D_def local_day_def using \<open>now \<le> t\<close> by (intro zdiv_mono1) (simp_all add: second_def)
  have "local_day tz t < D + 1 \<longleftrightarrow> t + tz * 3600 * second < (D + 1) * (86400 * second)"
    unfolding local_day_def by (rule div_less_mult) (simp add: second_def)
  also have "\<dots> \<longleftrightarrow> t < next_checkin tz now * second"
    by (simp add: next_checkin_def D_def [symmetric] algebra_simps)
  also have "\<dots> \<longleftrightarrow> unix t < next_checkin tz now"
    unfolding unix_def by (rule div_less_mult [symmetric]) (simp add: second_def)
  finally show ?thesis using le unfolding D_def by linarith
qed

lemma civil_year: "0 \<le> d \<Longrightarrow> 0 \<le> fst (civil d)"
proof -
  assume "0 \<le> d"
  then have "0 \<le> era_of d" by (simp add: era_of_def)
  moreover obtain yoe doy where y: "year_of_era (day_of_era d) = (yoe, doy)" by (cases "year_of_era (day_of_era d)")
  moreover have "0 \<le> yoe" using year_of_era_inverse [OF doe_range y] by simp
  ultimately show ?thesis by (auto simp: civil_def split: prod.split)
qed

lemma same_date_text:
  assumes "0 \<le> local_day tz now" "now \<le> t"
  shows "date_text (local_day tz t) = date_text (local_day tz now) \<longleftrightarrow> unix t < next_checkin tz now"
proof -
  have "local_day tz now \<le> local_day tz t"
    unfolding local_day_def using assms(2) by (intro zdiv_mono1) (simp_all add: second_def)
  then have "date_text (local_day tz t) = date_text (local_day tz now) \<longleftrightarrow> local_day tz t = local_day tz now"
    using assms(1) by (metis date_text_inject [OF civil_year civil_year] order_trans)
  then show ?thesis using same_local_day [OF assms(2)] by simp
qed

lemma checkin_bonus_range:
  assumes "\<And>n. 0 < n \<Longrightarrow> 0 \<le> ue_intn e n \<and> ue_intn e n < n"
  shows "GetSettingInt ''checkin_min'' 140 st \<le> checkin_bonus e st \<and>
    checkin_bonus e st \<le> max (GetSettingInt ''checkin_min'' 140 st) (GetSettingInt ''checkin_max'' 160 st)"
proof -
  define n where "n = GetSettingInt ''checkin_max'' 160 st - GetSettingInt ''checkin_min'' 140 st + 1"
  show ?thesis
  proof (cases "GetSettingInt ''checkin_min'' 140 st < GetSettingInt ''checkin_max'' 160 st")
    case True
    then have "0 \<le> ue_intn e n \<and> ue_intn e n < n" by (intro assms) (simp add: n_def)
    then show ?thesis using True by (simp add: checkin_bonus_def Let_def n_def [symmetric]) (simp add: n_def)
  qed (simp add: checkin_bonus_def Let_def)
qed

text \<open>C38: The check-in page tells the truth. For a signed-in member while check-ins are open, what the status says
  is what a check-in at that moment does: it is refused as done, or for the cap, exactly when the status says so, and
  otherwise it awards a bonus within the configured bounds and records the day, after which the status says done. And
  the time of the next check-in is exact: a later moment is on the same day of the configured zone exactly if it is
  before that time.\<close>

theorem checkin_status_truthful:
  assumes "signed_in (ue_desk e) 10 token (gw_store g) = Some u" "\<not> u_is_admin u"
    and "GetSettingIntAllowZero ''credits_cap'' 500 (gw_store g) \<noteq> 0"
    and "\<And>n. 0 < n \<Longrightarrow> 0 \<le> ue_intn e n \<and> ue_intn e n < n" and "0 \<le> local_day (ue_tz e) (ue_now e 14)"
  shows "\<exists>v. snd (handleCheckinStatus e token g) = Inr v \<and>
    (case snd (handleCheckin e ''POST'' token g) of
       Inl r \<Rightarrow> r = Refusal 400 ''already_checked_in'' \<and> cv_checked_in v \<or>
         r = Refusal 400 ''credits_capped'' \<and> \<not> cv_checked_in v \<and> cv_capped v = Some True
     | Inr (bonus, credits) \<Rightarrow> \<not> cv_checked_in v \<and> cv_capped v = Some False \<and> credits = u_credits u + bonus \<and>
         GetSettingInt ''checkin_min'' 140 (gw_store g) \<le> bonus \<and>
         bonus \<le> max (GetSettingInt ''checkin_min'' 140 (gw_store g)) (GetSettingInt ''checkin_max'' 160 (gw_store g)) \<and>
         map_option (\<lambda>x. (u_last_checkin_day x, u_credits x)) (user_row (u_id u) (gw_store (fst (handleCheckin e ''POST'' token g)))) =
           Some (date_text (local_day (ue_tz e) (ue_now e 14)), credits)) \<and>
    (\<forall>t \<ge> ue_now e 14. date_text (local_day (ue_tz e) t) = date_text (local_day (ue_tz e) (ue_now e 14)) \<longleftrightarrow>
       unix t < cv_next_at v)"
proof -
  obtain ss where g: "userGuard (ue_desk e) token g = (g\<lparr>gw_store := (gw_store g)\<lparr>sessions := ss\<rparr>\<rparr>, Inr u)"
    "user_row (u_id u) (gw_store g) = Some u" by (rule userGuard_user [OF assms(1)])
  let ?st = "gw_store g" and ?tz = "ue_tz e" and ?day = "date_text (local_day (ue_tz e) (ue_now e 14))"
  let ?cap = "GetSettingIntAllowZero ''credits_cap'' 500 ?st"
  let ?v = "\<lparr>cv_checked_in = (u_last_checkin_day u = ?day), cv_next_at = next_checkin ?tz (ue_now e 14),
    cv_capped = Some (u_last_checkin_day u \<noteq> ?day \<and> ?cap \<le> u_credits u \<and> \<not> checkinCapExempt u ?st)\<rparr>"
  let ?p = "ApplyUserCheckin (u_id u) ?day (checkin_bonus e ?st) ?cap (checkinCapExempt u ?st) (ue_unix e 15)
    (?st\<lparr>sessions := ss\<rparr>)"
  have status: "snd (handleCheckinStatus e token g) = Inr ?v"
    using assms(3) by (simp add: handleCheckinStatus_def signed_request_def guarded_def g(1) Let_def)
  have answer: "handleCheckin e ''POST'' token g = (case run_store (\<lambda>_. ?p) (g\<lparr>gw_store := ?st\<lparr>sessions := ss\<rparr>\<rparr>) of
      (g1, None) \<Rightarrow> internal g1
    | (g1, Some (CheckinAlready, _)) \<Rightarrow> (g1, Inl (Refusal 400 ''already_checked_in''))
    | (g1, Some (CheckinCapped, _)) \<Rightarrow> (g1, Inl (Refusal 400 ''credits_capped''))
    | (g1, Some (CheckinApplied, awarded, credits)) \<Rightarrow> (g1, Inr (awarded, credits)))"
    using assms(2,3) by (simp add: handleCheckin_def signed_request_def guarded_def g(1) Let_def run_store_def)
  consider "u_last_checkin_day u = ?day" | "u_last_checkin_day u \<noteq> ?day" "\<not> checkinCapExempt u ?st" "?cap \<le> u_credits u"
    | "u_last_checkin_day u \<noteq> ?day" "checkinCapExempt u ?st \<or> \<not> ?cap \<le> u_credits u" by blast
  then have "case snd (handleCheckin e ''POST'' token g) of
       Inl r \<Rightarrow> r = Refusal 400 ''already_checked_in'' \<and> cv_checked_in ?v \<or>
         r = Refusal 400 ''credits_capped'' \<and> \<not> cv_checked_in ?v \<and> cv_capped ?v = Some True
     | Inr (bonus, credits) \<Rightarrow> \<not> cv_checked_in ?v \<and> cv_capped ?v = Some False \<and> credits = u_credits u + bonus \<and>
         GetSettingInt ''checkin_min'' 140 ?st \<le> bonus \<and>
         bonus \<le> max (GetSettingInt ''checkin_min'' 140 ?st) (GetSettingInt ''checkin_max'' 160 ?st) \<and>
         map_option (\<lambda>x. (u_last_checkin_day x, u_credits x)) (user_row (u_id u) (gw_store (fst (handleCheckin e ''POST'' token g)))) =
           Some (?day, credits)"
    using g(2) checkin_bonus_range [OF assms(4), of ?st]
    by cases (auto simp: answer run_store_def ApplyUserCheckin_def Let_def update_user_def by_key_update_key)
  then show ?thesis
    unfolding status using same_date_text [OF assms(5)] by (intro exI [of _ ?v] conjI) simp_all
qed

lemma range_days_small: "since \<le> until \<Longrightarrow> until - since \<le> 1000 \<Longrightarrow> range_days since until = until - since + 1"
proof -
  assume b: "since \<le> until" "until - since \<le> 1000"
  have "(until - since) * 86400 * second \<le> 2 ^ 63 - 1" using b(2) by (simp add: second_def)
  then have "min ((until - since) * 86400 * second) (2 ^ 63 - 1) = (until - since) * (86400 * second)" by simp
  then show ?thesis unfolding range_days_def by (simp add: second_def)
qed

text \<open>A range that is accepted is the one that was written, and every range of up to 400 days is accepted.\<close>

lemma activity_range_exact:
  "\<lbrakk>parseActivityRange a b now = Some (s, t); a \<noteq> []\<rbrakk> \<Longrightarrow>
     date_text (s div 86400) = a \<and> date_text (t div 86400) = b \<and> s \<le> t"
  "\<lbrakk>0 \<le> fst (civil since); fst (civil since) < 10000; 0 \<le> fst (civil until); fst (civil until) < 10000;
    since \<le> until; until < since + ActivityRetentionDays\<rbrakk> \<Longrightarrow>
     parseActivityRange (date_text since) (date_text until) now = Some (since * 86400, until * 86400)"
proof -
  assume "parseActivityRange a b now = Some (s, t)" "a \<noteq> []"
  then show "date_text (s div 86400) = a \<and> date_text (t div 86400) = b \<and> s \<le> t"
    by (auto simp: parseActivityRange_def split: if_split_asm option.split_asm)
next
  assume y: "0 \<le> fst (civil since)" "fst (civil since) < 10000" "0 \<le> fst (civil until)" "fst (civil until) < 10000"
    and r: "since \<le> until" "until < since + ActivityRetentionDays"
  have "date_text d \<noteq> []" for d by (simp add: date_text_def split: prod.split)
  then show "parseActivityRange (date_text since) (date_text until) now = Some (since * 86400, until * 86400)"
    using r range_days_small [OF r(1)] parse_date_text [OF y(1,2)] parse_date_text [OF y(3,4)]
    by (simp add: parseActivityRange_def ActivityRetentionDays_def)
qed

section \<open>What the requests of a user do to the store\<close>

inductive user_step :: "crypto \<Rightarrow> ((string \<times> int) list \<Rightarrow> (string \<times> int) list) \<Rightarrow> int \<Rightarrow> store \<Rightarrow> store \<Rightarrow> bool"
  for c ord i where
  Sessions: "user_step c ord i st (st\<lparr>sessions := ss\<rparr>)"
| Lang: "user_step c ord i st (SetUserLang i lang now st)"
| Key: "user_step c ord i st (fst (SetCallerKey c now i key st))"
| Action: "user_step c ord i st (RecordConsoleAction i now st)"
| Delete: "user_step c ord i st (fst (deleteUserAt i now st))"
| Checkin: "user_step c ord i st (fst (ApplyUserCheckin i day bonus cap exempt now st))"
| Create: "user_step c ord i st (fst (CreateAppConfig c now i model base key remark st))"
| Update: "user_step c ord i st (fst (UpdateAppConfig c now k i model base key remark st))"
| Toggle: "user_step c ord i st (fst (SetAppConfigEnabled k i enabled now st))"
| Remove: "user_step c ord i st (fst (DeleteAppConfig k i st))"
| Play: "user_step c ord i st (fst (StartFishingRound r ord dr i bait (FishingConfig st) now st))"
| Reveal: "user_step c ord i st (fst (SettleFishingRound i r now st))"
| Anon: "user_step c ord i st (SetLeaderboardAnon i anon now st)"

abbreviation user_runs ::
  "crypto \<Rightarrow> ((string \<times> int) list \<Rightarrow> (string \<times> int) list) \<Rightarrow> int \<Rightarrow> store \<Rightarrow> store \<Rightarrow> bool" where
  "user_runs c ord i \<equiv> (user_step c ord i)\<^sup>*\<^sup>*"

lemma user_side:
  "side_edit st (SetUserLang i lang now st)" "side_edit st (fst (SetCallerKey c now i key st))"
  "side_edit st (fst (CreateAppConfig c now i model base key remark st))"
  "side_edit st (fst (UpdateAppConfig c now k i model base key remark st))"
  "side_edit st (fst (SetAppConfigEnabled k i enabled now st))" "side_edit st (fst (DeleteAppConfig k i st))"
  "side_edit st (st\<lparr>sessions := ss\<rparr>)"
  by (auto simp: side_edit_def core_tables_def SetUserLang_def update_user_def map_update_where SetCallerKey_def Let_def
      CreateAppConfig_def UpdateAppConfig_def SetAppConfigEnabled_def DeleteAppConfig_def update_config_def split: option.split)

lemma user_step_runs: "user_step c ord i st st' \<Longrightarrow> store_runs k ord st st'"
proof (induction rule: user_step.induct)
  case (Action st now)
  show ?case unfolding RecordConsoleAction_def
    by (rule account_run_step [where x = "AccRecord i now (no_activity\<lparr>ad_console := 1\<rparr>)" and day = 0])
      (simp_all add: delta_ok_def no_activity_def)
next
  case (Delete st now)
  show ?case by (rule account_run_step [where x = "AccDelete i now" and day = "utcDay now"]) simp_all
next
  case (Checkin st day bonus cap exempt now)
  show ?case by (rule account_run_step [where x = "AccCheckin i day bonus cap exempt now" and day = 0]) simp_all
next
  case (Play st r dr bait now)
  show ?case using core_run [OF system_step.Game, of k ord st "GameStart r dr i bait now"] by simp
next
  case (Reveal st r now)
  show ?case using core_run [OF system_step.Game, of k ord st "GameSettle i r now"] by simp
next
  case (Anon st anon now)
  show ?case using core_run [OF system_step.Game, of k ord st "GameAnon i anon now"] by simp
qed (simp_all add: side_run user_side)

lemma user_runs_store: "user_runs c ord i st st' \<Longrightarrow> store_runs k ord st st'"
  by (induction rule: rtranclp_induct) (auto intro: rtranclp_trans user_step_runs)

text \<open>What belongs to the other users: their accounts, configurations and keys.\<close>

definition others_kept :: "int \<Rightarrow> store \<Rightarrow> store \<Rightarrow> bool" where
  "others_kept i st st' \<longleftrightarrow> (\<forall>j. j \<noteq> i \<longrightarrow> user_row j st' = user_row j st \<and>
     filter (\<lambda>c. c_user_id c = j) (app_configs st') = filter (\<lambda>c. c_user_id c = j) (app_configs st) \<and>
     by_key k_user_id j (caller_keys st') = by_key k_user_id j (caller_keys st))"

lemma others_kept_cong:
  "\<lbrakk>users st' = users st; app_configs st' = app_configs st; caller_keys st' = caller_keys st\<rbrakk> \<Longrightarrow> others_kept i st st'"
  by (simp add: others_kept_def)

lemma others_kept_trans: "others_kept i a b \<Longrightarrow> others_kept i b c \<Longrightarrow> others_kept i a c"
  by (simp add: others_kept_def)

lemma filter_update_where: "(\<And>x. P x \<Longrightarrow> \<not> Q x \<and> \<not> Q (f x)) \<Longrightarrow> filter Q (update_where P f xs) = filter Q xs"
  by (induction xs) auto

lemma filter_delete_where: "(\<And>x. P x \<Longrightarrow> \<not> Q x) \<Longrightarrow> filter Q (delete_where P xs) = filter Q xs"
  by (induction xs) (auto simp: delete_where_def)

lemma by_key_delete_other: "k \<noteq> i \<Longrightarrow> by_key key k (delete_where (\<lambda>x. key x = i) rows) = by_key key k rows"
  by (induction rows) (auto simp: by_key_def delete_where_def)

lemma edit_user_others:
  assumes "\<And>u. u_id (f u) = u_id u" "\<And>u. P u \<Longrightarrow> u_id u = i" "users st' = update_where P f (users st)"
    "app_configs st' = app_configs st" "caller_keys st' = caller_keys st"
  shows "others_kept i st st'"
proof -
  have "user_row j st' = user_row j st" if "j \<noteq> i" for j
  proof (cases "user_row j st")
    case (Some u)
    then have "\<not> P u" using that by_key_SomeD [OF Some] assms(2) by auto
    then show ?thesis using Some by (simp add: assms(1,3) by_key_update)
  qed (simp add: assms(1,3) by_key_update)
  then show ?thesis by (simp add: others_kept_def assms(4,5))
qed

lemma config_edit_others:
  "\<lbrakk>users st' = users st; caller_keys st' = caller_keys st;
    \<And>j. j \<noteq> i \<Longrightarrow> filter (\<lambda>c. c_user_id c = j) (app_configs st') = filter (\<lambda>c. c_user_id c = j) (app_configs st)\<rbrakk> \<Longrightarrow>
   others_kept i st st'"
  by (simp add: others_kept_def)

lemma update_config_others:
  "(\<And>c. c_user_id (f c) = c_user_id c) \<Longrightarrow> others_kept i st (fst (update_config k i f st))"
  by (rule config_edit_others) (auto simp: update_config_def owned_config_def intro!: filter_update_where)

lemma delete_user_others:
  assumes "keys_ok st"
  shows "others_kept i st (fst (deleteUserAt i now st))"
proof (cases "deleteUserAt i now st")
  case (Pair st' res)
  show ?thesis using Pair assms
  proof (cases rule: deleteUserAt_cases)
    case (deleted x)
    then show ?thesis
      by (auto simp: Pair others_kept_def erased_fields by_key_delete_other intro!: filter_delete_where)
  qed (simp add: Pair others_kept_def)
qed

lemma record_tables [simp]:
  "app_configs (recordActivityTx j t d st) = app_configs st" "caller_keys (recordActivityTx j t d st) = caller_keys st"
  "app_config_seq (recordActivityTx j t d st) = app_config_seq st"
  by (subst record_only, simp)+

lemma record_others: "others_kept i st (recordActivityTx j t d st)"
  by (rule others_kept_cong) simp_all

lemma game_tables [simp]:
  "app_configs (fst (SettleFishingRound i r now st)) = app_configs st"
  "caller_keys (fst (SettleFishingRound i r now st)) = caller_keys st"
  "app_config_seq (fst (SettleFishingRound i r now st)) = app_config_seq st"
  "app_configs (fst (StartFishingRound r ord dr i bait cfg now st)) = app_configs st"
  "caller_keys (fst (StartFishingRound r ord dr i bait cfg now st)) = caller_keys st"
  "app_config_seq (fst (StartFishingRound r ord dr i bait cfg now st)) = app_config_seq st"
  by (simp_all add: SettleFishingRound_def StartFishingRound_def Let_def split: option.split sum.split)

lemma settle_users: "users (fst (SettleFishingRound i r now st)) = users st \<or>
   (\<exists>n. users (fst (SettleFishingRound i r now st)) = update_where (\<lambda>u. u_id u = i) (add_credits n now) (users st))"
  by (auto simp: SettleFishingRound_def Let_def split: option.split sum.split)

lemma start_users: "users (fst (StartFishingRound r ord dr i bait cfg now st)) = users st \<or>
   users (fst (StartFishingRound r ord dr i bait cfg now st)) =
     update_where (\<lambda>u. u_id u = i \<and> FishingBaitPrice cfg bait \<le> u_credits u)
       (add_credits (- FishingBaitPrice cfg bait) now) (users st)"
  by (simp add: StartFishingRound_def Let_def split: option.split sum.split)

lemma game_others:
  "others_kept i st (fst (SettleFishingRound i r now st))"
  "others_kept i st (fst (StartFishingRound r ord dr i bait cfg now st))"
proof -
  show "others_kept i st (fst (SettleFishingRound i r now st))"
    using settle_users [of i r now st]
  proof (elim disjE exE)
    fix n assume u: "users (fst (SettleFishingRound i r now st)) = update_where (\<lambda>u. u_id u = i) (add_credits n now) (users st)"
    show ?thesis by (rule edit_user_others [OF _ _ u]) simp_all
  qed (simp add: others_kept_cong)
  show "others_kept i st (fst (StartFishingRound r ord dr i bait cfg now st))"
    using start_users [of r ord dr i bait cfg now st]
  proof
    assume u: "users (fst (StartFishingRound r ord dr i bait cfg now st)) =
      update_where (\<lambda>u. u_id u = i \<and> FishingBaitPrice cfg bait \<le> u_credits u)
        (add_credits (- FishingBaitPrice cfg bait) now) (users st)"
    show ?thesis by (rule edit_user_others [OF _ _ u]) simp_all
  qed (simp add: others_kept_cong)
qed

lemma user_step_others:
  assumes "user_step c ord i st st'" "keys_ok st"
  shows "others_kept i st st'"
  using assms
proof (induction rule: user_step.induct)
  case (Lang st lang now)
  show ?case unfolding SetUserLang_def update_user_def by (rule edit_user_others) auto
next
  case (Key st now key)
  show ?case by (auto simp: SetCallerKey_def Let_def others_kept_def by_key_update_key split: option.split)
next
  case (Checkin st day bonus cap exempt now)
  have "others_kept i st (update_user i (\<lambda>x. x\<lparr>u_last_checkin_day := day, u_credits := n, u_updated_at := now\<rparr>) st)" for n
    unfolding update_user_def by (rule edit_user_others) auto
  then show ?case
    by (auto simp: ApplyUserCheckin_def Let_def others_kept_cong split: option.split intro: others_kept_trans record_others)
next
  case (Create st now model base key remark)
  show ?case by (rule config_edit_others) (auto simp: CreateAppConfig_def Let_def split: option.split)
next
  case (Update st now k model base key remark)
  show ?case by (auto simp: UpdateAppConfig_def others_kept_cong split: option.split intro: update_config_others)
next
  case (Remove st k)
  show ?case by (rule config_edit_others) (auto simp: DeleteAppConfig_def owned_config_def intro!: filter_delete_where)
next
  case (Anon st anon now)
  show ?case unfolding SetLeaderboardAnon_def by (rule edit_user_others) auto
qed (auto simp: RecordConsoleAction_def SetAppConfigEnabled_def
    intro: others_kept_cong record_others delete_user_others update_config_others game_others)

section \<open>Requests\<close>

datatype console_op = OpMe | OpLang "string option" | OpKey | OpResetKey | OpDelete string string
  | OpCheckinStatus | OpCheckin string | OpConfigs | OpServices string | OpCreate "config_request option"
  | OpUpdate string "config_request option" | OpToggle string "bool option" | OpRemove string
  | OpGames | OpStart "string option" | OpSettle "string option" | OpBoard string | OpAnon "bool option"

definition on_gateway :: "(gateway \<Rightarrow> gateway \<times> 'a reply) \<Rightarrow> console \<Rightarrow> console \<times> unit reply" where
  "on_gateway f s = (case outcome (f (cn_gw s)) of (g, r) \<Rightarrow> (s\<lparr>cn_gw := g\<rparr>, r))"

definition console_outcome :: "console \<times> 'a reply \<Rightarrow> console \<times> unit reply" where
  "console_outcome p = map_prod id (map_sum id (\<lambda>_. ())) p"

fun console_serve :: "user_env \<Rightarrow> string \<Rightarrow> console_op \<Rightarrow> console \<Rightarrow> console \<times> unit reply" where
  "console_serve e token OpMe s = on_gateway (handleMe e token) s"
| "console_serve e token (OpLang b) s = on_gateway (handleSetLang e token b) s"
| "console_serve e token OpKey s = on_gateway (handleGetCallerKey e token) s"
| "console_serve e token OpResetKey s = on_gateway (handleResetCallerKey e token) s"
| "console_serve e token (OpDelete verb confirm) s = on_gateway (handleMeDelete e verb token confirm) s"
| "console_serve e token OpCheckinStatus s = on_gateway (handleCheckinStatus e token) s"
| "console_serve e token (OpCheckin verb) s = on_gateway (handleCheckin e verb token) s"
| "console_serve e token OpConfigs s = on_gateway (handleListConfigs e token) s"
| "console_serve e token (OpServices d) s = on_gateway (handleListServices e token d) s"
| "console_serve e token (OpCreate b) s = console_outcome (handleCreateConfig e token b s)"
| "console_serve e token (OpUpdate path b) s = console_outcome (handleUpdateConfig e token path b s)"
| "console_serve e token (OpToggle path b) s = on_gateway (handleToggleConfig e token path b) s"
| "console_serve e token (OpRemove path) s = on_gateway (handleDeleteConfig e token path) s"
| "console_serve e token OpGames s = on_gateway (handleGamesList e token) s"
| "console_serve e token (OpStart b) s = console_outcome (handleFishingStart e token b s)"
| "console_serve e token (OpSettle b) s = on_gateway (handleFishingSettle e token b) s"
| "console_serve e token (OpBoard b) s = on_gateway (handleFishingLeaderboard e token b) s"
| "console_serve e token (OpAnon b) s = on_gateway (handleGamesAnonymous e token b) s"

abbreviation ue_runs :: "user_env \<Rightarrow> user \<Rightarrow> store \<Rightarrow> store \<Rightarrow> bool" where
  "ue_runs e u \<equiv> user_runs (ue_crypto e) (ue_ord e) (u_id u)"

lemma user_run1: "user_step c ord i st st' \<Longrightarrow> user_runs c ord i st st'"
  by (rule r_into_rtranclp)

lemma user_run2: "user_step c ord i st st1 \<Longrightarrow> user_step c ord i st1 st' \<Longrightarrow> user_runs c ord i st st'"
  by (meson rtranclp.intros)

lemma user_run_sum [intro]:
  "ue_runs e u (gw_store g) (gw_store (fst (case r of Inl x \<Rightarrow> (g, Inl (h x)) | Inr y \<Rightarrow> (g, k y))))"
  by simp

lemma run_store_runs:
  assumes "\<And>g1 r. run_store f g = (g1, r) \<Longrightarrow> gw_store (fst (k g1 r)) = gw_store g1 \<or>
      user_step c ord i (gw_store g1) (gw_store (fst (k g1 r)))"
    and "user_step c ord i (gw_store g) (fst (f (gw_store g)))"
  shows "user_runs c ord i (gw_store g) (gw_store (fst (case run_store f g of (g1, r) \<Rightarrow> k g1 r)))"
proof -
  obtain g1 r where p: "run_store f g = (g1, r)" by fastforce
  then have "gw_store g1 = fst (f (gw_store g))" by (simp add: run_storeD)
  then show ?thesis using assms(1) [OF p] assms(2) by (auto simp: p intro: user_run1 user_run2)
qed

lemma signed_request_runs:
  assumes "signed_in (ue_desk e) 10 token (gw_store g) = Some u"
    and "\<And>g1. ue_runs e u (gw_store g1) (gw_store (fst (serve u g1)))"
  shows "ue_runs e u (gw_store g) (gw_store (fst (signed_request e token serve g)))"
proof -
  obtain ss where g: "userGuard (ue_desk e) token g = (g\<lparr>gw_store := (gw_store g)\<lparr>sessions := ss\<rparr>\<rparr>, Inr u)"
    by (rule userGuard_user [OF assms(1)])
  have "ue_runs e u (gw_store g) ((gw_store g)\<lparr>sessions := ss\<rparr>)" by (rule user_run1) (rule user_step.Sessions)
  then show ?thesis
    using assms(2) [of "g\<lparr>gw_store := (gw_store g)\<lparr>sessions := ss\<rparr>\<rparr>"] by (simp add: signed_request_def guarded_def g)
qed

lemma on_console_runs:
  assumes "signed_in (ue_desk e) 10 token (gw_store (cn_gw s)) = Some u"
    and "\<And>s1. ue_runs e u (gw_store (cn_gw s1)) (gw_store (cn_gw (fst (serve u s1))))"
  shows "ue_runs e u (gw_store (cn_gw s)) (gw_store (cn_gw (fst (on_console e token serve s))))"
proof -
  let ?g = "cn_gw s"
  obtain ss where g: "userGuard (ue_desk e) token ?g = (?g\<lparr>gw_store := (gw_store ?g)\<lparr>sessions := ss\<rparr>\<rparr>, Inr u)"
    by (rule userGuard_user [OF assms(1)])
  have "ue_runs e u (gw_store ?g) ((gw_store ?g)\<lparr>sessions := ss\<rparr>)" by (rule user_run1) (rule user_step.Sessions)
  then show ?thesis
    using assms(2) [of "s\<lparr>cn_gw := ?g\<lparr>gw_store := (gw_store ?g)\<lparr>sessions := ss\<rparr>\<rparr>\<rparr>"] by (simp add: on_console_def g)
qed

lemma record_action_step:
  "user_step c ord i (gw_store g) (gw_store (recordConsoleActivity d i g))"
  by (simp add: recordConsoleActivity_def user_step.Action)

lemma checkAppBinding_store [simp]:
  "gw_store (cn_gw (fst (checkAppBinding d i m b k s))) = gw_store (cn_gw s)"
  by (auto simp: checkAppBinding_def Let_def send_call_def split: prod.split bool.split sum.split)

lemma account_serve_runs:
  assumes "signed_in (ue_desk e) 10 token (gw_store g) = Some u"
  shows "ue_runs e u (gw_store g) (gw_store (fst (handleMe e token g)))"
    "ue_runs e u (gw_store g) (gw_store (fst (handleSetLang e token lb g)))"
    "ue_runs e u (gw_store g) (gw_store (fst (handleGetCallerKey e token g)))"
    "ue_runs e u (gw_store g) (gw_store (fst (handleResetCallerKey e token g)))"
    "ue_runs e u (gw_store g) (gw_store (fst (handleMeDelete e verb token confirm g)))"
    "ue_runs e u (gw_store g) (gw_store (fst (handleCheckinStatus e token g)))"
    "ue_runs e u (gw_store g) (gw_store (fst (handleCheckin e verb token g)))"
proof -
  note S = signed_request_runs [OF assms]
  show "ue_runs e u (gw_store g) (gw_store (fst (handleMe e token g)))"
    unfolding handleMe_def by (rule S) simp
  show "ue_runs e u (gw_store g) (gw_store (fst (handleSetLang e token lb g)))"
    unfolding handleSetLang_def by (rule S) (auto intro: user_run1 user_step.Lang split: option.split)
  show "ue_runs e u (gw_store g) (gw_store (fst (handleGetCallerKey e token g)))"
    unfolding handleGetCallerKey_def by (rule S) (simp split: option.split)
  show "ue_runs e u (gw_store g) (gw_store (fst (handleResetCallerKey e token g)))"
    unfolding handleResetCallerKey_def
    by (intro S run_store_runs user_step.Key) (auto simp: record_action_step split: option.split)
  have "ue_runs e u (gw_store g) (gw_store (fst (case run_store (deleteUserAt (u_id u) (ue_unix e 15)) g of
      (g1, Inl _) \<Rightarrow> internal g1
    | (g1, Inr _) \<Rightarrow> (if token \<noteq> [] then g1\<lparr>gw_store := DeleteSession token (gw_store g1)\<rparr> else g1,
        Inr (ClearSessionCookie (ue_site e))))))" for g
    by (intro run_store_runs user_step.Delete) (auto simp: DeleteSession_def user_step.Sessions split: sum.split)
  then show "ue_runs e u (gw_store g) (gw_store (fst (handleMeDelete e verb token confirm g)))"
    unfolding handleMeDelete_def by (auto intro: S)
  show "ue_runs e u (gw_store g) (gw_store (fst (handleCheckinStatus e token g)))"
    unfolding handleCheckinStatus_def Let_def by (rule S) simp
  have "ue_runs e u (gw_store g) (gw_store (fst (case run_store (ApplyUserCheckin (u_id u) day bonus cap ex now) g of
           (g1, None) \<Rightarrow> internal g1
         | (g1, Some (CheckinAlready, _)) \<Rightarrow> (g1, Inl (Refusal 400 ''already_checked_in''))
         | (g1, Some (CheckinCapped, _)) \<Rightarrow> (g1, Inl (Refusal 400 ''credits_capped''))
         | (g1, Some (CheckinApplied, awarded, credits)) \<Rightarrow> (g1, Inr (awarded, credits)))))" for g day bonus cap ex now
    by (intro run_store_runs user_step.Checkin) (auto split: option.split prod.split checkin_status.split)
  then show "ue_runs e u (gw_store g) (gw_store (fst (handleCheckin e verb token g)))"
    unfolding handleCheckin_def Let_def by (auto intro: S)
qed

lemma table_serve_runs:
  assumes "signed_in (ue_desk e) 10 token (gw_store g) = Some u"
  shows "ue_runs e u (gw_store g) (gw_store (fst (handleListConfigs e token g)))"
    "ue_runs e u (gw_store g) (gw_store (fst (handleListServices e token d g)))"
    "ue_runs e u (gw_store g) (gw_store (fst (handleToggleConfig e token path tb g)))"
    "ue_runs e u (gw_store g) (gw_store (fst (handleDeleteConfig e token path g)))"
    "ue_runs e u (gw_store g) (gw_store (fst (handleGamesList e token g)))"
    "ue_runs e u (gw_store g) (gw_store (fst (handleFishingSettle e token sb g)))"
    "ue_runs e u (gw_store g) (gw_store (fst (handleFishingLeaderboard e token board g)))"
    "ue_runs e u (gw_store g) (gw_store (fst (handleGamesAnonymous e token ab g)))"
proof -
  note S = signed_request_runs [OF assms]
  show "ue_runs e u (gw_store g) (gw_store (fst (handleListConfigs e token g)))"
    unfolding handleListConfigs_def by (rule S) simp
  show "ue_runs e u (gw_store g) (gw_store (fst (handleListServices e token d g)))"
    unfolding handleListServices_def by (rule S) simp
  have own: "ue_runs e u (gw_store g) (gw_store (fst (on_own_config e f u g)))"
    if "\<And>st. user_step (ue_crypto e) (ue_ord e) (u_id u) st (fst (f st))" for f g
    unfolding on_own_config_def
    by (intro run_store_runs that) (auto simp: record_action_step split: bool.split)
  show "ue_runs e u (gw_store g) (gw_store (fst (handleToggleConfig e token path tb g)))"
    unfolding handleToggleConfig_def by (rule S) (auto intro!: own user_step.Toggle split: option.split)
  show "ue_runs e u (gw_store g) (gw_store (fst (handleDeleteConfig e token path g)))"
    unfolding handleDeleteConfig_def by (rule S) (auto intro!: own user_step.Remove split: option.split)
  show "ue_runs e u (gw_store g) (gw_store (fst (handleGamesList e token g)))"
    unfolding handleGamesList_def Let_def by (rule S) simp
  have "ue_runs e u (gw_store g) (gw_store (fst (case run_store (SettleFishingRound (u_id u) r (ue_unix e 15)) g of
      (g1, Inl err) \<Rightarrow> (g1, Inl (if err = ErrRoundNotFound then Refusal 404 ''round_not_found'' else Refusal 500 ''internal''))
    | (g1, Inr (res, _)) \<Rightarrow> (g1, Inr res))))" for g r
    by (intro run_store_runs user_step.Reveal) (auto split: sum.split prod.split)
  then show "ue_runs e u (gw_store g) (gw_store (fst (handleFishingSettle e token sb g)))"
    unfolding handleFishingSettle_def by (intro S) (auto split: option.split)
  show "ue_runs e u (gw_store g) (gw_store (fst (handleFishingLeaderboard e token board g)))"
    unfolding handleFishingLeaderboard_def Let_def by (rule S) (auto split: sum.split)
  show "ue_runs e u (gw_store g) (gw_store (fst (handleGamesAnonymous e token ab g)))"
    unfolding handleGamesAnonymous_def by (rule S) (auto intro: user_run1 user_step.Anon split: option.split)
qed

lemma console_run_store:
  assumes "\<And>g1 r. run_store f (cn_gw s) = (g1, r) \<Longrightarrow> gw_store (cn_gw (fst (k g1 r))) = gw_store g1 \<or>
      user_step c ord i (gw_store g1) (gw_store (cn_gw (fst (k g1 r))))"
    and "user_step c ord i (gw_store (cn_gw s)) (fst (f (gw_store (cn_gw s))))"
  shows "user_runs c ord i (gw_store (cn_gw s)) (gw_store (cn_gw (fst (case run_store f (cn_gw s) of (g1, r) \<Rightarrow> k g1 r))))"
proof -
  obtain g1 r where p: "run_store f (cn_gw s) = (g1, r)" by fastforce
  then have "gw_store g1 = fst (f (gw_store (cn_gw s)))" by (simp add: run_storeD)
  then show ?thesis using assms(1) [OF p] assms(2) by (auto simp: p intro: user_run1 user_run2)
qed

lemma run_store_fields [simp]:
  "gw_store (fst (run_store f g)) = fst (f (gw_store g))" "snd (run_store f g) = snd (f (gw_store g))"
  by (simp_all add: run_store_def split_def)

lemma record_action_store [simp]:
  "gw_store (recordConsoleActivity d i g) = RecordConsoleAction i (dk_unix d 16) (gw_store g)"
  by (simp add: recordConsoleActivity_def)

lemma create_config_runs:
  assumes "signed_in (ue_desk e) 10 token (gw_store (cn_gw s)) = Some u"
  shows "ue_runs e u (gw_store (cn_gw s)) (gw_store (cn_gw (fst (handleCreateConfig e token cb s))))"
  unfolding handleCreateConfig_def
  by (rule on_console_runs [OF assms])
    (auto simp: create_config_def Let_def split_def intro: user_run1 [OF user_step.Create] user_run2 [OF user_step.Create user_step.Action]
      split: option.split)

lemma update_config_runs:
  assumes "signed_in (ue_desk e) 10 token (gw_store (cn_gw s)) = Some u"
  shows "ue_runs e u (gw_store (cn_gw s)) (gw_store (cn_gw (fst (handleUpdateConfig e token path cb s))))"
  unfolding handleUpdateConfig_def
  by (rule on_console_runs [OF assms])
    (auto simp: edit_config_def Let_def split_def intro: user_run1 [OF user_step.Update] user_run2 [OF user_step.Update user_step.Action]
      split: option.split bool.split)

lemma start_runs:
  assumes "signed_in (ue_desk e) 10 token (gw_store (cn_gw s)) = Some u"
  shows "ue_runs e u (gw_store (cn_gw s)) (gw_store (cn_gw (fst (handleFishingStart e token fb s))))"
  unfolding handleFishingStart_def
  by (rule on_console_runs [OF assms])
    (auto simp: Let_def split_def intro: user_run1 [OF user_step.Play] split: option.split bool.split sum.split)

lemma console_serve_user:
  assumes "signed_in (ue_desk e) 10 token (gw_store (cn_gw s)) = Some u"
  shows "ue_runs e u (gw_store (cn_gw s)) (gw_store (cn_gw (fst (console_serve e token x s))))"
  by (cases x) (simp_all add: on_gateway_def split_def console_outcome_def account_serve_runs [OF assms] table_serve_runs [OF assms]
      create_config_runs [OF assms] update_config_runs [OF assms] start_runs [OF assms])

lemma signed_request_none:
  "signed_in (ue_desk e) 10 token (gw_store g) = None \<Longrightarrow>
   sessions_only g (fst (signed_request e token serve g)) \<and> snd (signed_request e token serve g) = Inl (Refusal 401 ''unauthorized'')"
  using userGuard_none [of "ue_desk e" token g] by (auto simp: signed_request_def guarded_def)

lemma on_console_none:
  "signed_in (ue_desk e) 10 token (gw_store (cn_gw s)) = None \<Longrightarrow>
   sessions_only (cn_gw s) (cn_gw (fst (on_console e token serve s))) \<and>
   snd (on_console e token serve s) = Inl (Refusal 401 ''unauthorized'')"
  using userGuard_none [of "ue_desk e" token "cn_gw s"] by (auto simp: on_console_def)

lemma console_serve_none:
  assumes "signed_in (ue_desk e) 10 token (gw_store (cn_gw s)) = None"
  shows "sessions_only (cn_gw s) (cn_gw (fst (console_serve e token x s))) \<and> (\<exists>r. snd (console_serve e token x s) = Inl r)"
proof -
  note N = signed_request_none [OF assms] on_console_none [OF assms]
  show ?thesis
    by (cases x) (simp_all add: on_gateway_def split_def console_outcome_def outcome_def N handleMe_def handleSetLang_def
      handleGetCallerKey_def handleResetCallerKey_def handleMeDelete_def handleCheckinStatus_def handleCheckin_def
      handleListConfigs_def handleListServices_def handleCreateConfig_def handleUpdateConfig_def handleToggleConfig_def
      handleDeleteConfig_def handleGamesList_def handleFishingStart_def handleFishingSettle_def
      handleFishingLeaderboard_def handleGamesAnonymous_def)
qed

lemma user_runs_others:
  "user_runs c ord i st st' \<Longrightarrow> system_ok st \<Longrightarrow> others_kept i st st' \<and> system_ok st'"
proof (induction rule: rtranclp_induct)
  case base then show ?case by (simp add: others_kept_def)
next
  case (step a b)
  then have a: "system_ok a" "others_kept i st a" by simp_all
  have "keys_ok a" using a(1) by (simp add: system_ok_parts ledger_ok_def)
  then have "others_kept i a b" by (rule user_step_others [OF step.hyps(2)])
  moreover have "system_ok b" by (rule store_runs_ok [OF user_step_runs [OF step.hyps(2)] a(1)])
  ultimately show ?case using a(2) others_kept_trans by blast
qed

text \<open>C39: The pages of a user are the user's own. A request of the console without a valid session, whatever it
  is, is refused and touches nothing but expired sessions; with one, the accounts, configurations and keys of
  all other users stay as they are, and every invariant of the store is kept.\<close>

theorem console_isolation:
  assumes "system_ok (gw_store (cn_gw s))"
  shows "case signed_in (ue_desk e) 10 token (gw_store (cn_gw s)) of
      None \<Rightarrow> sessions_only (cn_gw s) (cn_gw (fst (console_serve e token x s))) \<and>
        (\<exists>r. snd (console_serve e token x s) = Inl r)
    | Some u \<Rightarrow> others_kept (u_id u) (gw_store (cn_gw s)) (gw_store (cn_gw (fst (console_serve e token x s)))) \<and>
        system_ok (gw_store (cn_gw (fst (console_serve e token x s))))"
  using console_serve_none [of e token s x] console_serve_user [of e token s _ x] user_runs_others assms
  by (cases "signed_in (ue_desk e) 10 token (gw_store (cn_gw s))") auto

section \<open>Configurations\<close>

text \<open>Identifiers are unique, and so are the model names of a user.\<close>

definition configs_ok :: "store \<Rightarrow> bool" where
  "configs_ok st \<longleftrightarrow> distinct (map c_id (app_configs st)) \<and>
     distinct (map (\<lambda>c. (c_user_id c, c_model c)) (app_configs st)) \<and>
     list_all (\<lambda>c. c_id c \<le> app_config_seq st) (app_configs st)"

lemma distinct_map_delete: "distinct (map f xs) \<Longrightarrow> distinct (map f (delete_where P xs))"
  by (induction xs) (auto simp: delete_where_def)

lemma configs_ok_update:
  assumes "configs_ok st" "\<And>c. c_id (f c) = c_id c \<and> c_user_id (f c) = c_user_id c"
    and "\<And>c d. \<lbrakk>c \<in> set (app_configs st); owned_config k i c; d \<in> set (app_configs st); c_user_id d = i; c_model (f c) = c_model d\<rbrakk>
      \<Longrightarrow> c_id d = k"
  shows "configs_ok (st\<lparr>app_configs := update_where (owned_config k i) f (app_configs st)\<rparr>)"
proof -
  let ?g = "\<lambda>c. if owned_config k i c then f c else c" and ?key = "\<lambda>c. (c_user_id c, c_model c)"
  have u: "update_where (owned_config k i) f xs = map ?g xs" for xs by (induction xs) auto
  have ids: "map c_id (map ?g xs) = map c_id xs" for xs by (induction xs) (auto simp: assms(2))
  have "inj_on ?key (set (app_configs st))" "distinct (app_configs st)" "inj_on c_id (set (app_configs st))"
    using assms(1) by (simp_all add: configs_ok_def distinct_map)
  moreover have "inj_on (?key \<circ> ?g) (set (app_configs st))"
  proof (rule inj_onI)
    fix c d assume cd: "c \<in> set (app_configs st)" "d \<in> set (app_configs st)" "(?key \<circ> ?g) c = (?key \<circ> ?g) d"
    have same: "c_user_id c = c_user_id d" using cd(3) by (auto simp: assms(2) split: if_split_asm)
    consider "\<not> owned_config k i c" "\<not> owned_config k i d" | "c_id c = c_id d"
    proof (cases "owned_config k i c"; cases "owned_config k i d")
      assume "owned_config k i c" "\<not> owned_config k i d"
      moreover from this have "c_id d = k" using assms(3) [of c d] cd same by (simp add: owned_config_def)
      ultimately show thesis using same by (simp add: owned_config_def)
    next
      assume "\<not> owned_config k i c" "owned_config k i d"
      moreover from this have "c_id c = k" using assms(3) [of d c] cd same by (simp add: owned_config_def)
      ultimately show thesis using same by (simp add: owned_config_def)
    qed (use that in \<open>simp_all add: owned_config_def\<close>)
    then show "c = d"
    proof cases
      case 1
      then show ?thesis using cd \<open>inj_on ?key (set (app_configs st))\<close> by (auto dest: inj_onD)
    qed (use cd \<open>inj_on c_id (set (app_configs st))\<close> in \<open>auto dest: inj_onD\<close>)
  qed
  ultimately have "distinct (map (?key \<circ> ?g) (app_configs st))" by (simp only: distinct_map)
  then have "distinct (map ?key (map ?g (app_configs st)))" by (simp only: map_map)
  moreover have "list_all (\<lambda>c. c_id c \<le> app_config_seq st) (map ?g (app_configs st))"
    using assms(1) by (auto simp: configs_ok_def list_all_iff assms(2))
  moreover have "app_configs (st\<lparr>app_configs := xs\<rparr>) = xs" "app_config_seq (st\<lparr>app_configs := xs\<rparr>) = app_config_seq st" for xs
    by simp_all
  moreover have "distinct (map c_id (map ?g (app_configs st)))" unfolding ids using assms(1) by (simp add: configs_ok_def)
  ultimately show ?thesis unfolding configs_ok_def u by simp
qed

lemma created_config:
  assumes "CreateAppConfig c now i model base key remark st = (st', Some x)"
  obtains enc where "cr_encrypt c key = Some enc" "\<not> config_clash i model st"
    "app_configs st' = app_configs st @ [\<lparr>c_id = app_config_seq st + 1, c_user_id = i, c_model = model, c_dify_base_url = base,
       c_dify_api_key_enc = enc, c_note = remark, c_enabled = True, c_created_at = now, c_updated_at = now\<rparr>]"
    "app_config_seq st' = app_config_seq st + 1" "GetAppConfig (app_config_seq st + 1) st' = Some x"
  using assms by (auto simp: CreateAppConfig_def Let_def split: option.split_asm if_split_asm)

lemma config_clash_iff: "config_clash i model st \<longleftrightarrow> (\<exists>c \<in> set (app_configs st). c_user_id c = i \<and> c_model c = model)"
  by (auto simp: config_clash_def count_where_def filter_empty_conv)

lemma configs_ok_create:
  assumes "configs_ok st" shows "configs_ok (fst (CreateAppConfig c now i model base key remark st))"
proof (cases "snd (CreateAppConfig c now i model base key remark st)")
  case None
  have "fst (CreateAppConfig c now i model base key remark st) = st"
    if "cr_encrypt c key = None \<or> user_row i st = None \<or> config_clash i model st"
    using that by (auto simp: CreateAppConfig_def split: option.split)
  moreover have "cr_encrypt c key = None \<or> user_row i st = None \<or> config_clash i model st"
  proof (rule ccontr)
    assume "\<not> ?thesis"
    then have "snd (CreateAppConfig c now i model base key remark st) \<noteq> None"
      by (auto simp: CreateAppConfig_def Let_def GetAppConfig_def split: option.split)
    then show False using None by simp
  qed
  ultimately show ?thesis using assms by simp
next
  case (Some x)
  then obtain st' where p: "CreateAppConfig c now i model base key remark st = (st', Some x)" by (metis prod.collapse)
  show ?thesis
    by (rule created_config [OF p]) (use assms in \<open>auto simp: p configs_ok_def config_clash_iff list_all_iff\<close>)
qed

lemma update_where_nothing: "\<not> 0 < count_where P xs \<Longrightarrow> update_where P f xs = xs"
  unfolding count_where_pos by (induction xs) auto

lemma failed_update:
  assumes "UpdateAppConfig c now k i model base key remark st = (st', False)"
  shows "app_configs st' = app_configs st \<and> app_config_seq st' = app_config_seq st"
proof (cases "cr_encrypt c key")
  case None
  then show ?thesis using assms by (simp add: UpdateAppConfig_def)
next
  case (Some enc)
  let ?taken = "\<lambda>c. c_user_id c = i \<and> c_model c = model \<and> c_id c \<noteq> k"
  show ?thesis
  proof (cases "0 < count_where (owned_config k i) (app_configs st) \<and> 0 < count_where ?taken (app_configs st)")
    case True
    then show ?thesis using assms by (simp only: UpdateAppConfig_def Some option.case if_True prod.inject simp_thms)
  next
    case False
    then have eq: "UpdateAppConfig c now k i model base key remark st = update_config k i (\<lambda>c. c\<lparr>c_model := model,
        c_dify_base_url := base, c_dify_api_key_enc := enc, c_note := remark, c_updated_at := now\<rparr>) st"
      by (simp only: UpdateAppConfig_def Some option.case if_False)
    then have "\<not> 0 < count_where (owned_config k i) (app_configs st)" using assms by (simp add: update_config_def)
    then show ?thesis using assms unfolding eq update_config_def by (auto simp: update_where_nothing)
  qed
qed

lemma updated_config:
  assumes "UpdateAppConfig c now k i model base key remark st = (st', True)"
  obtains enc where "cr_encrypt c key = Some enc"
    "\<forall>d \<in> set (app_configs st). c_user_id d = i \<and> c_model d = model \<longrightarrow> c_id d = k"
    "\<exists>d \<in> set (app_configs st). owned_config k i d"
    "st' = st\<lparr>app_configs := update_where (owned_config k i) (\<lambda>x. x\<lparr>c_model := model, c_dify_base_url := base,
       c_dify_api_key_enc := enc, c_note := remark, c_updated_at := now\<rparr>) (app_configs st)\<rparr>"
  using assms by (auto simp: UpdateAppConfig_def update_config_def count_where_def filter_empty_conv
      split: option.split_asm if_split_asm)

lemma user_step_configs:
  assumes "user_step c ord i st st'" "keys_ok st" "configs_ok st"
  shows "configs_ok st'"
  using assms
proof (induction rule: user_step.induct)
  case (Key st now key)
  then show ?case by (auto simp: SetCallerKey_def Let_def configs_ok_def split: option.split)
next
  case (Action st now)
  then show ?case by (simp add: RecordConsoleAction_def configs_ok_def)
next
  case (Delete st now)
  obtain st' res where p: "deleteUserAt i now st = (st', res)" by fastforce
  show ?case using p Delete(1)
  proof (cases rule: deleteUserAt_cases)
    case (deleted x)
    have "app_config_seq st' = app_config_seq st" using erased_only [of i now x st]
      by (auto simp: deleted(5) delete_owned_def forget_review_def forget_reservations_def delete_alerts_def Let_def)
    then show ?thesis using Delete(2)
      by (auto simp: p configs_ok_def deleted(5) erased_fields intro: distinct_map_delete list_all_delete)
  qed (use Delete(2) in \<open>simp add: p\<close>)
next
  case (Checkin st day bonus cap exempt now)
  then show ?case by (auto simp: ApplyUserCheckin_def Let_def configs_ok_def update_user_def split: option.split)
next
  case (Create st now model base key remark)
  then show ?case by (simp add: configs_ok_create)
next
  case (Update st now k model base key remark)
  obtain st' ok where p: "UpdateAppConfig c now k i model base key remark st = (st', ok)" by fastforce
  show ?case
  proof (cases ok)
    case True
    then have p: "UpdateAppConfig c now k i model base key remark st = (st', True)" using p by simp
    show ?thesis by (rule updated_config [OF p]) (auto simp: p intro!: configs_ok_update [OF Update(2)])
  next
    case False
    then have "app_configs st' = app_configs st \<and> app_config_seq st' = app_config_seq st"
      by (intro failed_update [of c now k i model base key remark]) (simp add: p False)
    then show ?thesis using Update(2) unfolding p fst_conv by (simp add: configs_ok_def)
  qed
next
  case (Toggle st k enabled now)
  have "configs_ok (st\<lparr>app_configs := update_where (owned_config k i) (\<lambda>c. c\<lparr>c_enabled := enabled, c_updated_at := now\<rparr>) (app_configs st)\<rparr>)"
    using Toggle(2) by (intro configs_ok_update) (auto simp: configs_ok_def distinct_map owned_config_def dest: inj_onD)
  then show ?case by (simp add: SetAppConfigEnabled_def update_config_def)
next
  case (Remove st k)
  then show ?case by (simp add: DeleteAppConfig_def configs_ok_def distinct_map_delete list_all_delete)
qed (simp_all add: configs_ok_def SetUserLang_def update_user_def SetLeaderboardAnon_def)

lemma user_runs_configs:
  "user_runs c ord i st st' \<Longrightarrow> system_ok st \<Longrightarrow> configs_ok st \<Longrightarrow> configs_ok st'"
proof (induction rule: rtranclp_induct)
  case (step a b)
  then have "system_ok a" using user_runs_others by blast
  then have "keys_ok a" by (simp add: system_ok_parts ledger_ok_def)
  then show ?case using user_step_configs [OF step.hyps(2)] step by blast
qed

text \<open>At most one App serves a model of a user.\<close>

lemma enabled_config:
  assumes "configs_ok st" "c \<in> set (app_configs st)"
  shows "GetEnabledAppConfigByModel (c_user_id c) (c_model c) st = (if c_enabled c then Some c else None)"
proof -
  let ?P = "\<lambda>x. c_user_id x = c_user_id c \<and> c_model x = c_model c \<and> c_enabled x"
  have only: "x = c" if "x \<in> set (app_configs st)" "?P x" for x
    using assms that by (auto simp: configs_ok_def distinct_map dest: inj_onD)
  show ?thesis
  proof (cases "query_row ?P (app_configs st)")
    case None
    then show ?thesis using assms(2) by (auto simp: GetEnabledAppConfigByModel_def query_row_def find_None_iff)
  next
    case (Some x)
    then have x: "x \<in> set (app_configs st)" "?P x" by (auto simp: query_row_def find_Some_iff)
    then show ?thesis using Some only [OF x] by (simp add: GetEnabledAppConfigByModel_def)
  qed
qed

lemma validated_model:
  assumes "validate_config e r0 = Some r"
  shows "\<not> IsCharityModel (rq_model r) \<and> IsSupportedService (ServiceOfModel (rq_model r)) \<and> rq_api_key r \<noteq> []"
proof -
  have "\<not> sublist charity_prefix (rq_model r)" "IsSupportedService (ServiceOfModel (rq_model r))" "rq_api_key r \<noteq> []"
    using assms by (auto simp: validate_config_def Let_def split: if_split_asm sum.split_asm)
  then show ?thesis by (auto simp: IsCharityModel_def dest: prefix_imp_sublist)
qed

text \<open>The row that an accepted request leaves.\<close>

definition stored_config :: "crypto \<Rightarrow> user \<Rightarrow> config_request \<Rightarrow> config_view \<Rightarrow> app_config \<Rightarrow> store \<Rightarrow> bool" where
  "stored_config k u r v c st \<longleftrightarrow> c \<in> set (app_configs st) \<and> v = appConfigJSON c \<and> c_user_id c = u_id u \<and>
     c_model c = rq_model r \<and> c_dify_base_url c = rq_base_url r \<and> cr_encrypt k (rq_api_key r) = Some (c_dify_api_key_enc c)"

lemma stored_config_cong: "app_configs st' = app_configs st \<Longrightarrow> stored_config k u r v c st' = stored_config k u r v c st"
  by (simp add: stored_config_def)

lemma recordAction_configs [simp]: "app_configs (RecordConsoleAction i now st) = app_configs st"
  by (simp add: RecordConsoleAction_def)

lemma served_console:
  assumes "on_console e token serve s = (s', Inr y)"
  obtains u ss where "signed_in (ue_desk e) 10 token (gw_store (cn_gw s)) = Some u"
    "serve u (s\<lparr>cn_gw := (cn_gw s)\<lparr>gw_store := (gw_store (cn_gw s))\<lparr>sessions := ss\<rparr>\<rparr>\<rparr>) = (s', Inr y)"
proof (cases "signed_in (ue_desk e) 10 token (gw_store (cn_gw s))")
  case None
  then show ?thesis using on_console_none [OF None, of serve] assms by simp
next
  case (Some u)
  obtain ss where "userGuard (ue_desk e) token (cn_gw s) =
      ((cn_gw s)\<lparr>gw_store := (gw_store (cn_gw s))\<lparr>sessions := ss\<rparr>\<rparr>, Inr u)"
    by (rule userGuard_user [OF Some])
  then show ?thesis using assms that [OF Some] by (simp add: on_console_def)
qed

lemma created_stored:
  assumes "configs_ok (gw_store (cn_gw s))" "handleCreateConfig e token (Some r0) s = (s', Inr reply)"
  obtains u r c where "signed_in (ue_desk e) 10 token (gw_store (cn_gw s)) = Some u"
    "validate_config (ue_desk e) r0 = Some r" "stored_config (ue_crypto e) u r (fst reply) c (gw_store (cn_gw s'))"
proof -
  obtain u ss where u: "signed_in (ue_desk e) 10 token (gw_store (cn_gw s)) = Some u"
    and served: "create_config e (Some r0) u (s\<lparr>cn_gw := (cn_gw s)\<lparr>gw_store := (gw_store (cn_gw s))\<lparr>sessions := ss\<rparr>\<rparr>\<rparr>) =
      (s', Inr reply)"
    by (rule served_console [OF assms(2) [unfolded handleCreateConfig_def]]) blast
  let ?st = "(gw_store (cn_gw s))\<lparr>sessions := ss\<rparr>"
  obtain r where r: "validate_config (ue_desk e) r0 = Some r" using served by (auto simp: create_config_def split: option.split_asm)
  obtain st1 res where p: "CreateAppConfig (ue_crypto e) (ue_unix e 15) (u_id u) (rq_model r) (rq_base_url r) (rq_api_key r)
      (rq_note r) ?st = (st1, res)" by fastforce
  obtain c where c: "res = Some c" using served by (cases res) (auto simp: create_config_def r p run_store_def)
  have view: "fst reply = appConfigJSON c" and conf: "app_configs (gw_store (cn_gw s')) = app_configs st1"
    using served checkAppBinding_store by (auto simp: create_config_def r p c run_store_def split_def Let_def)
  note p = p [unfolded c]
  have "stored_config (ue_crypto e) u r (fst reply) c st1"
  proof (rule created_config [OF p])
    fix enc
    let ?row = "\<lparr>c_id = app_config_seq ?st + 1, c_user_id = u_id u, c_model = rq_model r, c_dify_base_url = rq_base_url r,
      c_dify_api_key_enc = enc, c_note = rq_note r, c_enabled = True, c_created_at = ue_unix e 15, c_updated_at = ue_unix e 15\<rparr>"
    assume enc: "cr_encrypt (ue_crypto e) (rq_api_key r) = Some enc" and rows: "app_configs st1 = app_configs ?st @ [?row]"
      and get: "GetAppConfig (app_config_seq ?st + 1) st1 = Some c"
    have "by_key c_id (app_config_seq ?st + 1) (app_configs ?st) = None"
      using assms(1) by (auto simp: by_key_None configs_ok_def list_all_iff)
    then have "c = ?row" using get by (simp add: GetAppConfig_def rows)
    then show ?thesis by (simp add: stored_config_def view enc rows)
  qed
  then show ?thesis using that [OF u r] stored_config_cong [OF conf] by blast
qed

lemma by_key_of: "distinct (map key rows) \<Longrightarrow> r \<in> set rows \<Longrightarrow> key r = k \<Longrightarrow> by_key key k rows = Some r"
  by (induction rows) auto

lemma edited_stored:
  assumes "configs_ok (gw_store (cn_gw s))" "handleUpdateConfig e token path (Some r0) s = (s', Inr reply)"
  obtains u r c where "signed_in (ue_desk e) 10 token (gw_store (cn_gw s)) = Some u"
    "validate_config (ue_desk e) r0 = Some r" "stored_config (ue_crypto e) u r (fst reply) c (gw_store (cn_gw s'))"
proof -
  obtain u ss where u: "signed_in (ue_desk e) 10 token (gw_store (cn_gw s)) = Some u"
    and served: "edit_config e path (Some r0) u (s\<lparr>cn_gw := (cn_gw s)\<lparr>gw_store := (gw_store (cn_gw s))\<lparr>sessions := ss\<rparr>\<rparr>\<rparr>) =
      (s', Inr reply)"
    by (rule served_console [OF assms(2) [unfolded handleUpdateConfig_def]]) blast
  let ?st = "(gw_store (cn_gw s))\<lparr>sessions := ss\<rparr>"
  obtain k r where r: "Atoi path = Some k" "validate_config (ue_desk e) r0 = Some r"
    using served by (auto simp: edit_config_def split: option.split_asm)
  obtain st1 ok where p0: "UpdateAppConfig (ue_crypto e) (ue_unix e 15) k (u_id u) (rq_model r) (rq_base_url r) (rq_api_key r)
      (rq_note r) ?st = (st1, ok)" by fastforce
  have ok using served by (cases ok) (auto simp: edit_config_def r p0 run_store_def Let_def)
  then have p: "UpdateAppConfig (ue_crypto e) (ue_unix e 15) k (u_id u) (rq_model r) (rq_base_url r) (rq_api_key r)
      (rq_note r) ?st = (st1, True)" using p0 by simp
  have get: "map_option appConfigJSON (GetAppConfig k st1) = Some (fst reply)" and conf: "app_configs (gw_store (cn_gw s')) = app_configs st1"
    using served checkAppBinding_store
    by (auto simp: edit_config_def r p run_store_def split_def Let_def GetAppConfig_def split: option.split_asm if_split_asm)
  obtain c where c: "GetAppConfig k st1 = Some c" "fst reply = appConfigJSON c" using get by auto
  have "stored_config (ue_crypto e) u r (fst reply) c st1"
  proof (rule updated_config [OF p])
    fix enc
    let ?f = "\<lambda>x. x\<lparr>c_model := rq_model r, c_dify_base_url := rq_base_url r, c_dify_api_key_enc := enc, c_note := rq_note r,
      c_updated_at := ue_unix e 15\<rparr>"
    assume enc: "cr_encrypt (ue_crypto e) (rq_api_key r) = Some enc"
      and own: "\<exists>d \<in> set (app_configs ?st). owned_config k (u_id u) d"
      and st1: "st1 = ?st\<lparr>app_configs := update_where (owned_config k (u_id u)) ?f (app_configs ?st)\<rparr>"
    obtain d where d: "d \<in> set (app_configs ?st)" "owned_config k (u_id u) d" using own by blast
    have "by_key c_id k (app_configs ?st) = Some d"
      using d assms(1) by (intro by_key_of) (auto simp: configs_ok_def owned_config_def)
    then have "c = ?f d" using c(1) d(2) by (simp add: GetAppConfig_def st1 by_key_update)
    moreover have "c \<in> set (app_configs st1)" using by_key_SomeD [OF c(1) [unfolded GetAppConfig_def]] by simp
    ultimately show ?thesis using d(2) by (simp add: stored_config_def c(2) enc owned_config_def)
  qed
  then show ?thesis using that [OF u r(2)] stored_config_cong [OF conf] by blast
qed


section \<open>Witnesses\<close>

definition sample_user_env :: user_env where
  "sample_user_env = \<lparr>ue_desk = sample_desk_env, ue_tz = 8, ue_intn = (\<lambda>_. 0), ue_key = ''k'', ue_round = ''r'',
     ue_draws = \<lparr>dr_outcome = None, dr_species = None, dr_size = None\<rparr>, ue_ord = id, ue_site = []\<rparr>"

text \<open>A member with a session.\<close>

definition member_store :: store where
  "member_store = (account_exec (AccCreate ''d1'' ''ann'' [] 4) empty_store)\<lparr>
     sessions := [\<lparr>s_id = ''t'', s_user_id = 1, s_expires_at = 100, s_created_at = 0\<rparr>]\<rparr>"

definition sample_console :: console where
  "sample_console = \<lparr>cn_gw = sample_gateway\<lparr>gw_store := member_store\<rparr>, cn_probes = newProbeLimiter, cn_starts = newProbeLimiter\<rparr>"

definition sample_config_request :: config_request where
  "sample_config_request = \<lparr>rq_model = '' [general]m '', rq_base_url = ''https://h'', rq_api_key = '' key '', rq_note = []\<rparr>"

lemma member_store_ok: "system_ok member_store"
proof -
  have "store_runs sample_crypto id empty_store (account_exec (AccCreate ''d1'' ''ann'' [] 4) empty_store)"
    by (rule account_run_step [where x = "AccCreate ''d1'' ''ann'' [] 4" and day = "utcDay 4"]) simp_all
  then have "system_ok (account_exec (AccCreate ''d1'' ''ann'' [] 4) empty_store)"
    by (rule store_runs_ok) (simp add: empty_store_ok)
  then show ?thesis unfolding member_store_def by (rule side_edit_ok [OF user_side(7)])
qed

lemma create_accepted:
  assumes "signed_in (ue_desk e) 10 token (gw_store (cn_gw s)) = Some u" "validate_config (ue_desk e) r0 = Some r"
    "cr_encrypt (ue_crypto e) (rq_api_key r) = Some enc" "\<not> config_clash (u_id u) (rq_model r) (gw_store (cn_gw s))"
  shows "\<exists>s' reply. handleCreateConfig e token (Some r0) s = (s', Inr reply)"
proof -
  obtain ss where g: "userGuard (ue_desk e) token (cn_gw s) = ((cn_gw s)\<lparr>gw_store := (gw_store (cn_gw s))\<lparr>sessions := ss\<rparr>\<rparr>, Inr u)"
    "user_row (u_id u) (gw_store (cn_gw s)) = Some u" by (rule userGuard_user [OF assms(1)])
  have "\<exists>st1 c. CreateAppConfig (ue_crypto e) (ue_unix e 15) (u_id u) (rq_model r) (rq_base_url r) (rq_api_key r) (rq_note r)
      ((gw_store (cn_gw s))\<lparr>sessions := ss\<rparr>) = (st1, Some c)"
    using assms(3,4) g(2) by (auto simp: CreateAppConfig_def config_clash_def Let_def GetAppConfig_def split: option.split)
  then show ?thesis
    by (auto simp: handleCreateConfig_def on_console_def g(1) create_config_def assms(2) run_store_def Let_def split: prod.split)
qed

theorem console_isolation_witness:
  "others_kept 1 member_store (gw_store (cn_gw (fst (console_serve sample_user_env ''t'' (OpLang (Some ''zh'')) sample_console)))) \<and>
   sessions_only (cn_gw sample_console) (cn_gw (fst (console_serve sample_user_env ''x'' (OpLang (Some ''zh'')) sample_console)))"
proof -
  have ok: "system_ok (gw_store (cn_gw sample_console))" by (simp add: sample_console_def member_store_ok)
  have st: "gw_store (cn_gw sample_console) = member_store" by (simp add: sample_console_def)
  have "map_option u_id (signed_in (ue_desk sample_user_env) 10 ''t'' (gw_store (cn_gw sample_console))) = Some 1" by code_simp
  then obtain u where u: "signed_in (ue_desk sample_user_env) 10 ''t'' (gw_store (cn_gw sample_console)) = Some u" "u_id u = 1"
    by blast
  have n: "signed_in (ue_desk sample_user_env) 10 ''x'' (gw_store (cn_gw sample_console)) = None" by code_simp
  have "others_kept 1 member_store (gw_store (cn_gw (fst (console_serve sample_user_env ''t'' (OpLang (Some ''zh'')) sample_console))))"
    using console_isolation [OF ok, of sample_user_env "''t''" "OpLang (Some ''zh'')"] unfolding st u(1) [unfolded st] option.case u(2) by (rule conjunct1)
  moreover have "sessions_only (cn_gw sample_console) (cn_gw (fst (console_serve sample_user_env ''x'' (OpLang (Some ''zh'')) sample_console)))"
    using console_isolation [OF ok, of sample_user_env "''x''" "OpLang (Some ''zh'')"] unfolding n option.case by (rule conjunct1)
  ultimately show ?thesis by (rule conjI)
qed

theorem checkin_status_truthful_witness:
  "\<exists>v. snd (handleCheckinStatus sample_user_env ''t'' (cn_gw sample_console)) = Inr v \<and> cv_next_at v = 57600 \<and>
     snd (handleCheckin sample_user_env ''POST'' ''t'' (cn_gw sample_console)) = Inr (140, 140)"
proof -
  obtain u where u: "signed_in (ue_desk sample_user_env) 10 ''t'' (gw_store (cn_gw sample_console)) = Some u" "\<not> u_is_admin u"
  proof -
    have "map_option u_is_admin (signed_in (ue_desk sample_user_env) 10 ''t'' (gw_store (cn_gw sample_console))) = Some False"
      by code_simp
    then show thesis using that by auto
  qed
  have "GetSettingIntAllowZero ''credits_cap'' 500 (gw_store (cn_gw sample_console)) \<noteq> 0"
    "0 \<le> local_day (ue_tz sample_user_env) (ue_now sample_user_env 14)" by code_simp+
  moreover have "0 \<le> ue_intn sample_user_env n \<and> ue_intn sample_user_env n < n" if "0 < n" for n
    using that by (simp add: sample_user_env_def)
  ultimately obtain v where "snd (handleCheckinStatus sample_user_env ''t'' (cn_gw sample_console)) = Inr v"
    using checkin_status_truthful [OF u] by blast
  moreover have "map_sum id cv_next_at (snd (handleCheckinStatus sample_user_env ''t'' (cn_gw sample_console))) = Inr 57600"
    "snd (handleCheckin sample_user_env ''POST'' ''t'' (cn_gw sample_console)) = Inr (140, 140)" by code_simp+
  ultimately show ?thesis by auto
qed


end
