(* ===== verification/Spec2Isabelle.thy ===== *)
theory Spec2Isabelle
  imports Settlement Contracts Limiters Diagnostic Egress Settings Middleware System Accounting Channels Desk Login Admin Mail Console
begin

text \<open>
  Verification of Dify2API, a gateway that offers Dify applications under an OpenAI-compatible API,
  lets its users donate capacity of their own Dify applications to each other for credits, and runs
  a small console with accounts, statistics and mini-games.

  \<^bold>\<open>How the program is put together.\<close> An HTTP request passes the middleware chain
  (\<^verbatim>\<open>handler/middleware.go\<close>) and its limiters, is authenticated, and reaches a handler. An API call is
  translated into the variables of a Dify workflow (\<^verbatim>\<open>translator/\<close>), sent through an HTTP client whose
  dialer refuses internal addresses (\<^verbatim>\<open>dify/egress.go\<close>), and logged. A call to a donated
  application is paid for: the store (\<^verbatim>\<open>db/\<close>, one SQLite file) reserves a use of the donation and the
  consumer's credits, the handler marks the reservation dispatched before it contacts the upstream,
  and it is committed or released afterwards by the handler, by the settlement worker
  (\<^verbatim>\<open>handler/charity_settlement.go\<close>) or by the recovery at the next start. Everything that has to
  survive a restart is in the store; every exported operation of \<^verbatim>\<open>db/\<close> is one transaction, so the
  processes of the program interact as sequences of these operations.

  \<^bold>\<open>The theories.\<close>
  \<^item> \<open>Prelude\<close>: results, tables as lists of rows with the statement forms the code uses, Go maps; the
    shared lemmas on keys, counts and sums.
  \<^item> \<open>Schema\<close>: the rows of \<^verbatim>\<open>db/db.go\<close> as records and the record \<open>store\<close> of all tables.
  \<^item> \<open>GoStrings\<close>: the functions of \<^verbatim>\<open>strings\<close> and \<^verbatim>\<open>strconv\<close> that the program calls, on byte strings.
  \<^item> \<open>Ledger\<close>: \<^verbatim>\<open>db/charity_reservations.go\<close>. Conservation of credits and uses over any interleaving,
    the life cycle of a reservation, a row-level specification that the guarded SQL refines, undoing,
    idempotence of settlement, and that recovery settles everything.
  \<^item> \<open>Settlement\<close>: \<^verbatim>\<open>handler/charity_settlement.go\<close>, the worker as a step relation over its queue and
    pending map; a locale states what a wake-up queue owes its client.
  \<^item> \<open>Donations\<close>: \<^verbatim>\<open>db/donations.go\<close>, \<^verbatim>\<open>db/charity_pricing.go\<close>, \<^verbatim>\<open>db/generation_gate.go\<close>. What an
    edit does to the capacity, atomicity of the batches, the pricing gate, and that the routing list
    and the ledger agree.
  \<^item> \<open>Applications\<close>: \<^verbatim>\<open>db/donation_applications.go\<close>. An application is decided once, the cap on open
    ones, links between applications and donations.
  \<^item> \<open>Activity\<close>, \<open>Users\<close>: \<^verbatim>\<open>db/activity.go\<close> and \<^verbatim>\<open>db/users.go\<close>. The incremental counters of a day
    equal a recount, published numbers are suppressed below five users, deleting an account leaves
    no trace, one check-in bonus per day.
  \<^item> \<open>Logs\<close>: \<^verbatim>\<open>db/logs.go\<close>, \<^verbatim>\<open>db/alerts.go\<close>, \<^verbatim>\<open>db/legacy_alert_subject.go\<close>. Logs, filters, alerts;
    the subject of an old alert cannot be forged.
  \<^item> \<open>Diagnostic\<close>: \<^verbatim>\<open>diagnostic/diagnostic.go\<close>, with the UTF-8 decoder of the standard library.
  \<^item> \<open>Contracts\<close>: \<^verbatim>\<open>translator/\<close> and \<^verbatim>\<open>openai/types.go\<close>. Conversations into slots and back, the variables
    a service sends, the check that an application can serve a service.
  \<^item> \<open>Limiters\<close>: the five in-memory limiters of \<^verbatim>\<open>handler/\<close>. Each is compared with a count over the
    history of its calls.
  \<^item> \<open>NetAddr\<close>, \<open>Egress\<close>: \<^verbatim>\<open>net/netip\<close> as far as it is used, and \<^verbatim>\<open>dify/egress.go\<close>. Which addresses
    are ever dialled, and what the block list is as intervals.
  \<^item> \<open>Settings\<close>, \<open>Middleware\<close>: \<^verbatim>\<open>db/settings.go\<close>, \<^verbatim>\<open>handler/middleware.go\<close> and the client address of
    \<^verbatim>\<open>handler/loginthrottle.go\<close>. Exactly which requests are admitted; the address cannot be forged.
  \<^item> \<open>Games\<close>: \<^verbatim>\<open>db/games.go\<close>. The engine's return is exact, rounds are paid once.
  \<^item> \<open>Stores\<close>: the smaller tables, \<^verbatim>\<open>db/sessions.go\<close>, \<^verbatim>\<open>db/callerkeys.go\<close>, \<^verbatim>\<open>db/appconfig.go\<close>,
    \<^verbatim>\<open>db/anti_abuse.go\<close>, \<^verbatim>\<open>db/level.go\<close>, \<^verbatim>\<open>db/model_configs.go\<close>, \<^verbatim>\<open>db/bulletins.go\<close>. A session has an
    absolute end.
  \<^item> \<open>Streaming\<close>: \<^verbatim>\<open>translator/sse.go\<close> and the event-stream parser of \<^verbatim>\<open>dify/client.go\<close>, with the JSON
    encoder. What is relayed, and that no text breaks out of its frame.
  \<^item> \<open>DifyClient\<close>: the other operations of \<^verbatim>\<open>dify/client.go\<close> and \<^verbatim>\<open>handler/upstream_error.go\<close>.
  \<^item> \<open>Relay\<close>: the last stage of a call, streaming and blocking, for a user's own App
    (\<^verbatim>\<open>handler/handler.go\<close>) and a donated one (\<^verbatim>\<open>handler/donations.go\<close>), over the record \<open>gateway\<close>.
  \<^item> \<open>Channels\<close>: the two goroutines of a stream and the channels between them as a step relation; where
    the fields of \<open>stream_run\<close> come from.
  \<^item> \<open>Calls\<close>: \<^verbatim>\<open>handleChatCompletions\<close>, \<^verbatim>\<open>handleCharityAfterRPM\<close> and \<^verbatim>\<open>handleModels\<close> with what they
    call: authentication, anti-abuse, RPM gate, the weighted choice of a donation, reservation, images.
  \<^item> \<open>Accounting\<close>: the whole call. Every charity call is charged exactly or not at all, every request is
    answered and gives its slot back, and a stream is terminated exactly when it is complete.
  \<^item> \<open>Desk\<close>: the administration half of \<^verbatim>\<open>handler/donations.go\<close>, the pricing endpoints of
    \<^verbatim>\<open>handler/admin.go\<close>, and the guards of \<^verbatim>\<open>handler/auth.go\<close> and \<^verbatim>\<open>handler/me_level.go\<close>. Who is served, that every
    request is a sequence of the components' transactions, and that an active donation has a price.
  \<^item> \<open>Base64\<close>, \<open>Login\<close>: \<^verbatim>\<open>auth/\<close> and the logins of \<^verbatim>\<open>handler/auth.go\<close>, with the encodings of the standard
    library. Which login states are accepted, and who gets a session.
  \<^item> \<open>Admin\<close>: the other endpoints of \<^verbatim>\<open>handler/admin.go\<close>, \<^verbatim>\<open>handler/admin_games.go\<close> and
    \<^verbatim>\<open>handler/level.go\<close>. Only the administrator is served, every request keeps the store well formed, limits
    that were set are in force, and the level thresholds stay ordered.
  \<^item> \<open>Mail\<close>: \<^verbatim>\<open>mailer/\<close>. A cooler with its timer, its goroutines and the shutdown as a step relation: no
    event is lost or mailed twice; the alert texts are what \<^verbatim>\<open>db/legacy_alert_subject.go\<close> parses.
  \<^item> \<open>Dates\<close>, \<open>Console\<close>: the pages of a user, \<^verbatim>\<open>handler/configs.go\<close>, \<^verbatim>\<open>handler/callerkey.go\<close>,
    \<^verbatim>\<open>handler/checkin.go\<close>, \<^verbatim>\<open>handler/games.go\<close>, with the calendar of the standard library, and the activity
    report of \<^verbatim>\<open>handler/activity.go\<close>. A user's requests stay with the user's rows, the check-in page tells
    the truth, and an accepted configuration serves its model.
  \<^item> \<open>System\<close>: the operations of the components on the store as one step relation, and that each keeps
    what the others rely on. The property of the composition is in this theory.

  \<^bold>\<open>Correspondence.\<close> A definition has the name of the Go function it models (with an underscore or a
  prefix where the name is a method's or clashes). Receivers and transactions become a \<open>store\<close> argument and
  result; a Go \<open>(T, error)\<close> is a sum; a rollback returns the store the operation started from. An
  \<open>UPDATE ... WHERE\<close> is \<open>update_where\<close>, its \<open>RowsAffected\<close> \<open>count_where\<close>; a lookup by primary key is
  \<open>by_key\<close>. The clock is an argument (Unix seconds in the store, nanoseconds in the limiters). Integers
  of the store are unbounded; the counters that wrap, the identifiers of the donation limiter and the
  addresses are words. Random draws, ciphers, the resolver, URL parsing and the iteration order of maps
  where it matters are arguments.

  A handler maps the gateway's state to a new state and the list of what it wrote to the response
  (\<open>written\<close>); requests to the upstream are appended to \<open>gw_sent\<close>, a ghost. What a call learns from
  outside is in \<open>call_env\<close>: clock readings by program point, random draws, new identifiers, the answers of
  the network and of \<^verbatim>\<open>encoding/json\<close> (\<open>dify_env\<close>), the end of the context where the code looks, faults of
  the database driver at the two statements of a charity call that carry the request's context, and the
  attempts that the settlement budget leaves room for. A call runs alone: its statements are not
  interleaved with those of others (the ledger's own theorems hold under any interleaving).

  \<^bold>\<open>Loops and fuel.\<close> No definition uses fuel: loops over rows, bytes or slots recurse on the list, and the
  UTF-8 scan, the parser of the event stream and the choice of a donation on the length of what is left,
  with a termination proof. The reservation loop of a charity call is a \<open>partial_function\<close>, and that it
  always returns is proved. The worker, the producer of a stream and the program as a whole are step
  relations, and what they achieve is stated per step or per reachable state.

  \<^bold>\<open>Not modelled.\<close> Starting up and migrating the file (\<^verbatim>\<open>main.go\<close>, \<^verbatim>\<open>config/\<close>, opening in \<^verbatim>\<open>db/db.go\<close>), the
  SMTP dialogue, the templates of \<^verbatim>\<open>difyapp/\<close>, the debug console, the export, and the remaining console
  handlers (logs, alerts, bulletins, static files). Of a call: the answer of a dry run, the localized texts of
  the gateway's own errors, response headers and process logs. I/O errors of SQLite other than those of
  constraints and those named above are not modelled, and neither is the rounding of \<open>float64\<close> in the
  weights of the donations and the engine of the mini-game, whose numbers are rationals.
\<close>

section \<open>The composition\<close>


text \<open>A user registers and applies.\<close>

definition sample_history :: store where
  "sample_history = application_exec sample_crypto (AppCreate 5 (sample_request\<lparr>aq_user_id := 1\<rparr>) 3)
     (account_exec (AccCreate ''d1'' ''ann'' [] 4) empty_store)"


end
